(* ===== verification/Prelude.thy ===== *)
theory Prelude
  imports Main "HOL-Library.Word" "HOL-Library.Finite_Map" "HOL-Library.List_Lexorder"
    "HOL-Library.Sublist" "HOL-Library.Multiset"
begin

text \<open>
  What the components share: the machine types, the exceptions that the code throws, the
  model of \<^verbatim>\<open>std::map\<close> (a finite map that is iterated in key order), big-endian
  numbers, and reachability with invariants.  The lemma collections of the development are
  \<open>frame\<close> (which fields an operation leaves alone) and \<open>eval\<close> (equations that run a
  model on concrete input).
\<close>

unbundle bit_operations_syntax

named_theorems frame \<open>what an operation leaves unchanged\<close>
named_theorems eval \<open>equations that evaluate the model on a concrete input\<close>

section \<open>Machine types\<close>

type_synonym byte = "8 word"
type_synonym u16 = "16 word"
type_synonym u32 = "32 word"
type_synonym u64 = "64 word"

text \<open>A simulator instant or duration (\<^verbatim>\<open>ns3::Time\<close>) is its number of nanoseconds.\<close>

type_synonym sim_time = int

text \<open>The exceptions that the code throws; \<open>Diverges\<close> is a loop that does not end, \<open>UseAfterFree\<close> the use of a null pointer
  or of an object that has been destroyed.\<close>

datatype exn = TlvError | InvalidArgument | OutOfRange | Diverges | UseAfterFree

text \<open>A computation that may throw; an exception skips the rest.\<close>

fun bind_exn :: "'e + 'a \<Rightarrow> ('a \<Rightarrow> 'e + 'b) \<Rightarrow> 'e + 'b" where
  "bind_exn (Inl e) f = Inl e"
| "bind_exn (Inr x) f = f x"

lemma bind_exn_Inr: "bind_exn r f = Inr y \<longleftrightarrow> (\<exists>x. r = Inr x \<and> f x = Inr y)"
  by (cases r) auto

text \<open>Counters are \<^verbatim>\<open>uint64_t\<close>: \<open>++\<close> wraps around at \<open>2 ^ 64\<close>.\<close>

abbreviation incr :: "u64 \<Rightarrow> u64" where
  "incr c \<equiv> c + 1"

text \<open>Widening a byte loses nothing.\<close>

lemma ucast_byte_eq: "(ucast (a :: byte) :: u32) = ucast b \<longleftrightarrow> a = b"
proof
  assume "(ucast a :: u32) = ucast b"
  then have "unat (ucast a :: u32) = unat (ucast b :: u32)" by simp
  moreover have "unat (ucast x :: u32) = unat x" for x :: byte
    using unsigned_less [where 'a = nat, of x]
    by (simp add: unsigned_ucast_eq take_bit_nat_eq_self)
  ultimately show "a = b" by (auto intro: unsigned_word_eqI)
qed simp

section \<open>Lists\<close>

text \<open>In a list ordered by \<open>r\<close>, an initial segment of a filter is the filter when the
  predicate is downward closed; the loops that start at a lower bound rest on this.\<close>

lemma takeWhile_sorted_filter:
  assumes "sorted_wrt r xs"
    and "\<And>x y. x \<in> set xs \<Longrightarrow> y \<in> set xs \<Longrightarrow> r x y \<Longrightarrow> P y \<Longrightarrow> P x"
  shows "takeWhile P xs = filter P xs"
  using assms
proof (induction xs)
  case (Cons x xs)
  have IH: "takeWhile P xs = filter P xs"
    using Cons.prems by (intro Cons.IH) auto
  show ?case
  proof (cases "P x")
    case False
    have "\<not> P y" if "y \<in> set xs" for y
      using False that Cons.prems by (metis list.set_intros sorted_wrt.simps(2))
    then show ?thesis using False by (simp add: filter_False)
  qed (simp add: IH)
qed simp

lemma dropWhile_sorted_filter:
  assumes "sorted_wrt r xs"
    and "\<And>x y. x \<in> set xs \<Longrightarrow> y \<in> set xs \<Longrightarrow> r x y \<Longrightarrow> P y \<Longrightarrow> P x"
  shows "dropWhile P xs = filter (\<lambda>x. \<not> P x) xs"
  using assms
proof (induction xs)
  case (Cons x xs)
  show ?case
  proof (cases "P x")
    case True
    have "dropWhile P xs = filter (\<lambda>x. \<not> P x) xs"
      using Cons.prems by (intro Cons.IH) auto
    with True show ?thesis by simp
  next
    case False
    have "\<not> P y" if "y \<in> set xs" for y
      using False that Cons.prems by (metis list.set_intros sorted_wrt.simps(2))
    then show ?thesis using False by simp
  qed
qed simp

lemma find_Some_D: "find P xs = Some x \<Longrightarrow> x \<in> set xs \<and> P x"
  by (induction xs) (auto split: if_splits)

text \<open>With one matching element the first match does not depend on the order of the list.\<close>

lemma find_unique:
  assumes "x \<in> set xs" and "P x" and "\<And>y. y \<in> set xs \<Longrightarrow> P y \<Longrightarrow> y = x"
  shows "find P xs = Some x"
proof (cases "find P xs")
  case None
  with assms(1,2) show ?thesis by (auto simp: find_None_iff)
next
  case (Some y)
  with assms(3) show ?thesis by (auto dest: find_Some_D)
qed

lemma find_None: "(\<And>x. x \<in> set xs \<Longrightarrow> \<not> P x) \<Longrightarrow> find P xs = None"
  by (induction xs) auto

text \<open>In a list sorted by descending key the first match has the greatest key of all matches.\<close>

lemma find_sorted_max:
  assumes "sorted_wrt (\<lambda>a b. key a \<ge> (key b :: 'k :: linorder)) xs"
    and "find P xs = Some x" and "y \<in> set xs" and "P y"
  shows "key y \<le> key x"
  using assms by (induction xs) (auto split: if_splits)

text \<open>A match whose key exceeds that of every other match is the first one, whatever the order
  of elements with equal keys.\<close>

lemma find_best:
  assumes "sorted_wrt (\<lambda>a b. key a \<ge> (key b :: 'k :: linorder)) xs"
    and "y \<in> set xs" and "P y" and "\<And>z. z \<in> set xs \<Longrightarrow> P z \<Longrightarrow> z \<noteq> y \<Longrightarrow> key z < key y"
  shows "find P xs = Some y"
proof (cases "find P xs")
  case None
  with assms(2,3) show ?thesis by (auto simp: find_None_iff)
next
  case (Some z)
  then have "z \<in> set xs" "P z" by (auto dest: find_Some_D)
  with find_sorted_max [OF assms(1) Some assms(2,3)] assms(4) [of z] Some
  show ?thesis by (cases "z = y") auto
qed

section \<open>Ordered maps\<close>

text \<open>
  \<^verbatim>\<open>std::map\<close> holds finitely many keys and is iterated in ascending key order:
  \<open>fmentries\<close> is that iteration, \<open>fmsize\<close> is \<^verbatim>\<open>size()\<close>.
\<close>

abbreviation fmentries :: "('k::linorder, 'v) fmap \<Rightarrow> ('k \<times> 'v) list" where
  "fmentries \<equiv> sorted_list_of_fmap"

definition fmsize :: "('k, 'v) fmap \<Rightarrow> nat" where
  "fmsize m = fcard (fmdom m)"

lemma fmentries_keys: "map fst (fmentries m) = sorted_list_of_fset (fmdom m)"
  by (simp add: sorted_list_of_fmap_def comp_def)

lemma sorted_fset_list: "sorted (sorted_list_of_fset A)" "distinct (sorted_list_of_fset A)"
  by (simp_all add: sorted_list_of_fset.rep_eq)

lemma fmentries_sorted: "sorted_wrt (\<lambda>x y. fst x < fst y) (fmentries m)"
proof -
  have "sorted_wrt (<) (map fst (fmentries m))"
    by (simp add: fmentries_keys strict_sorted_iff sorted_fset_list)
  then show ?thesis by (simp add: sorted_wrt_map)
qed

lemma set_fmentries: "(k, v) \<in> set (fmentries m) \<longleftrightarrow> fmlookup m k = Some v"
proof -
  have "distinct (map fst (fmentries m))"
    by (simp add: fmentries_keys sorted_fset_list)
  then have "map_of (fmentries m) k = Some v \<longleftrightarrow> (k, v) \<in> set (fmentries m)"
    by (rule map_of_eq_Some_iff)
  then show ?thesis by simp
qed

lemma length_fmentries: "length (fmentries m) = fmsize m"
proof -
  have "length (sorted_list_of_fset (fmdom m)) = card (set (sorted_list_of_fset (fmdom m)))"
    by (rule distinct_card [symmetric]) (rule sorted_fset_list)
  moreover have "length (fmentries m) = length (sorted_list_of_fset (fmdom m))"
    by (metis fmentries_keys length_map)
  ultimately show ?thesis
    by (simp add: fmsize_def fcard.rep_eq)
qed

lemma fmsize_empty [simp]: "fmsize fmempty = 0"
  by (simp add: fmsize_def)

lemma fmsize_upd:
  "fmsize (fmupd k v m) = (if fmlookup m k = None then Suc (fmsize m) else fmsize m)"
  by (auto simp: fmsize_def fcard_finsert_if fmdom_notI fmdom_notD)

lemma fmsize_drop:
  "fmsize (fmdrop k m) = (if fmlookup m k = None then fmsize m else fmsize m - 1)"
proof (cases "fmlookup m k")
  case None
  then have "k |\<notin>| fmdom m" by (rule fmdom_notI)
  then have "fmdrop k m = m" by (intro fmap_ext) (auto simp: fmdom_notD)
  with None show ?thesis by simp
next
  case (Some v)
  then have "k |\<in>| fmdom m" by (rule fmdomI)
  then have "fcard (fmdom m |-| {|k|}) = fcard (fmdom m) - 1"
    by (simp add: fcard.rep_eq)
  with Some show ?thesis by (simp add: fmsize_def)
qed

text \<open>Two ordered maps with the same bindings are the same map.\<close>

lemma fmdrop_upd_same: "fmdrop k (fmupd k v m) = fmdrop k m"
  by (rule fmap_ext) auto

section \<open>Big-endian numbers\<close>

text \<open>The value of a byte string, and the \<open>n\<close>-byte string of a value, most significant
  byte first.\<close>

primrec be_val :: "byte list \<Rightarrow> nat" where
  "be_val [] = 0"
| "be_val (b # bs) = unat b * 256 ^ length bs + be_val bs"

fun be_bytes :: "nat \<Rightarrow> nat \<Rightarrow> byte list" where
  "be_bytes 0 v = []"
| "be_bytes (Suc n) v = of_nat (v div 256 ^ n) # be_bytes n (v mod 256 ^ n)"

lemma length_be_bytes [simp]: "length (be_bytes n v) = n"
  by (induction n arbitrary: v) auto

lemma be_val_less: "be_val bs < 256 ^ length bs"
proof (induction bs)
  case (Cons b bs)
  have "unat b < 2 ^ 8"
    using unsigned_less [where 'b = 8 and 'a = nat, of b] by simp
  then have "unat b \<le> 255" by simp
  then have "unat b * 256 ^ length bs \<le> 255 * 256 ^ length bs"
    by (rule mult_le_mono1)
  then have "unat b * 256 ^ length bs + be_val bs < 255 * 256 ^ length bs + 256 ^ length bs"
    using Cons by linarith
  then show ?case by simp
qed simp

lemma be_val_be_bytes: "v < 256 ^ n \<Longrightarrow> be_val (be_bytes n v) = v"
proof (induction n arbitrary: v)
  case (Suc n)
  have "v div 256 ^ n < 256"
    using Suc.prems by (simp add: less_mult_imp_div_less mult.commute)
  then have "unat (of_nat (v div 256 ^ n) :: byte) = v div 256 ^ n"
    by (simp add: unat_of_nat)
  then show ?case
    using Suc.IH [of "v mod 256 ^ n"] by (simp add: mult.commute)
qed simp

lemma be_bytes_be_val: "be_bytes (length bs) (be_val bs) = bs"
proof (induction bs)
  case (Cons b bs)
  have "(unat b * 256 ^ length bs + be_val bs) div 256 ^ length bs = unat b"
    using be_val_less [of bs] by simp
  moreover have "(unat b * 256 ^ length bs + be_val bs) mod 256 ^ length bs = be_val bs"
    using be_val_less [of bs] by simp
  ultimately show ?case using Cons by simp
qed simp

text \<open>On byte strings of one length the lexicographic order is the order of the values;
  this is what \<^verbatim>\<open>memcmp\<close> decides.\<close>

lemma be_val_less_iff:
  "length xs = length ys \<Longrightarrow> be_val xs < be_val ys \<longleftrightarrow> xs < ys"
proof (induction xs ys rule: list_induct2)
  case (Cons x xs y ys)
  let ?B = "256 ^ length ys :: nat"
  have bx: "be_val xs < ?B" and by': "be_val ys < ?B"
    using be_val_less [of xs] be_val_less [of ys] Cons.hyps by auto
  show ?case
  proof (cases "x = y")
    case True
    then show ?thesis using Cons by simp
  next
    case False
    have "unat x * ?B + be_val xs < unat y * ?B + be_val ys \<longleftrightarrow> unat x < unat y"
    proof (cases "unat x < unat y")
      case True
      then have "Suc (unat x) * ?B \<le> unat y * ?B" by (intro mult_le_mono1) simp
      with True bx show ?thesis by simp
    next
      case ge: False
      with False have "unat y < unat x"
        by (metis linorder_neqE_nat unsigned_word_eqI)
      then have "Suc (unat y) * ?B \<le> unat x * ?B" by (intro mult_le_mono1) simp
      with ge by' show ?thesis by simp
    qed
    with False Cons.hyps show ?thesis
      by (auto simp: word_less_nat_alt)
  qed
qed simp

section \<open>Reachability and invariants\<close>

inductive reach :: "('s \<Rightarrow> bool) \<Rightarrow> ('s \<Rightarrow> 's \<Rightarrow> bool) \<Rightarrow> 's \<Rightarrow> bool"
  for start step where
  reach_start: "start s \<Longrightarrow> reach start step s"
| reach_step: "reach start step s \<Longrightarrow> step s t \<Longrightarrow> reach start step t"

text \<open>An invariant of a transition system: it holds in the start states and every step
  keeps it.  The clients obtain it for every reachable state.\<close>

locale invariant_system =
  fixes start :: "'s \<Rightarrow> bool" and step :: "'s \<Rightarrow> 's \<Rightarrow> bool" and inv :: "'s \<Rightarrow> bool"
  assumes start_inv: "start s \<Longrightarrow> inv s"
    and step_inv: "inv s \<Longrightarrow> step s t \<Longrightarrow> inv t"
begin

lemma reachable_inv: "reach start step s \<Longrightarrow> inv s"
  by (induction rule: reach.induct) (blast intro: start_inv step_inv)+

lemma steps_inv: "step\<^sup>*\<^sup>* s t \<Longrightarrow> inv s \<Longrightarrow> inv t"
  by (induction rule: rtranclp_induct) (auto intro: step_inv)

end

end
