(* ===== verification/Simulator.thy ===== *)
theory Simulator
  imports Prelude
begin

text \<open>
  The ns-3 event loop that drives the program (\<^verbatim>\<open>core/model/default-simulator-impl.cc\<close>,
  \<^verbatim>\<open>map-scheduler.cc\<close>, \<^verbatim>\<open>scheduler.h\<close>): events ordered by time stamp and, within
  one instant, by the order in which they were scheduled; cancellation marks an event, which
  is then skipped when its turn comes.  Shown: the clock never goes back, every pending event
  lies in the future, and the event that runs next precedes all the others.
\<close>

text \<open>\<^verbatim>\<open>Scheduler::Event\<close>: the key and the cancellation flag of the implementation object.\<close>

record 'e sched_event =
  m_ts :: sim_time
  m_event_uid :: nat
  m_cancel :: bool
  m_impl :: 'e

text \<open>\<^verbatim>\<open>EventId\<close>: time stamp and uid.\<close>

record event_id =
  id_ts :: sim_time
  id_uid :: nat

record 'e sim =
  m_currentTs :: sim_time
  m_currentUid :: nat
  m_uid :: nat
  m_events :: "'e sched_event list"

text \<open>\<^verbatim>\<open>operator <\<close> on event keys.\<close>

definition key_less :: "'e sched_event \<Rightarrow> 'e sched_event \<Rightarrow> bool" where
  "key_less a b \<longleftrightarrow>
     (if m_ts a < m_ts b then True
      else if m_ts a = m_ts b \<and> m_event_uid a < m_event_uid b then True else False)"

text \<open>\<^verbatim>\<open>MapScheduler::Insert\<close>: the events are kept in key order.\<close>

fun Scheduler_Insert :: "'e sched_event \<Rightarrow> 'e sched_event list \<Rightarrow> 'e sched_event list" where
  "Scheduler_Insert ev [] = [ev]"
| "Scheduler_Insert ev (x # xs) =
     (if key_less ev x then ev # x # xs else x # Scheduler_Insert ev xs)"

definition Now :: "'e sim \<Rightarrow> sim_time" where
  "Now s = m_currentTs s"

definition Schedule :: "sim_time \<Rightarrow> 'e \<Rightarrow> 'e sim \<Rightarrow> event_id \<times> 'e sim" where
  "Schedule delay act s =
     (let tAbsolute = delay + m_currentTs s;
          ev = \<lparr>m_ts = tAbsolute, m_event_uid = m_uid s, m_cancel = False, m_impl = act\<rparr>
      in (\<lparr>id_ts = tAbsolute, id_uid = m_uid s\<rparr>,
          s\<lparr>m_uid := m_uid s + 1, m_events := Scheduler_Insert ev (m_events s)\<rparr>))"

definition IsExpired :: "event_id \<Rightarrow> 'e sim \<Rightarrow> bool" where
  "IsExpired i s \<longleftrightarrow>
     id_ts i < m_currentTs s \<or> (id_ts i = m_currentTs s \<and> id_uid i \<le> m_currentUid s) \<or>
     (\<exists>e \<in> set (m_events s). m_event_uid e = id_uid i \<and> m_cancel e)"

definition Cancel :: "event_id \<Rightarrow> 'e sim \<Rightarrow> 'e sim" where
  "Cancel i s =
     (if \<not> IsExpired i s
      then s\<lparr>m_events := map (\<lambda>e. if m_event_uid e = id_uid i then e\<lparr>m_cancel := True\<rparr> else e)
                             (m_events s)\<rparr>
      else s)"

text \<open>\<^verbatim>\<open>ProcessOneEvent\<close> up to \<^verbatim>\<open>Invoke\<close>: the next event leaves the queue and the clock
  moves to its time; \<open>Some act\<close> is what \<^verbatim>\<open>Invoke\<close> runs, \<open>None\<close> a cancelled event.\<close>

definition ProcessOneEvent :: "'e sim \<Rightarrow> ('e option \<times> 'e sim) option" where
  "ProcessOneEvent s =
     (case m_events s of
        [] \<Rightarrow> None
      | e # es \<Rightarrow>
          Some (if m_cancel e then None else Some (m_impl e),
                s\<lparr>m_currentTs := m_ts e, m_currentUid := m_event_uid e, m_events := es\<rparr>))"

definition sim_init :: "'e sim" where
  "sim_init = \<lparr>m_currentTs = 0, m_currentUid = 0, m_uid = 4, m_events = []\<rparr>"

text \<open>An event of another client, with key \<open>(t, v)\<close>, runs before every event of this one; up to
  \<open>u\<close> uids have been given out.\<close>

definition foreign_event :: "sim_time \<Rightarrow> nat \<Rightarrow> nat \<Rightarrow> 'e sim \<Rightarrow> 'e sim option" where
  "foreign_event t v u s =
     (if (m_currentTs s < t \<or> m_currentTs s = t \<and> m_currentUid s < v) \<and> v < u \<and> m_uid s \<le> u \<and>
         list_all (\<lambda>e. t < m_ts e \<or> t = m_ts e \<and> v < m_event_uid e) (m_events s)
      then Some (s\<lparr>m_currentTs := t, m_currentUid := v, m_uid := u\<rparr>) else None)"

text \<open>The clock moves to an instant before which this client has nothing to do.\<close>

definition advance :: "sim_time \<Rightarrow> 'e sim \<Rightarrow> 'e sim" where
  "advance t s = (if m_currentTs s < t then s\<lparr>m_currentTs := t, m_currentUid := 0\<rparr> else s)"

section \<open>Invariant\<close>

definition after_now :: "'e sim \<Rightarrow> 'e sched_event \<Rightarrow> bool" where
  "after_now s e \<longleftrightarrow> m_currentTs s \<le> m_ts e \<and>
     (m_ts e = m_currentTs s \<longrightarrow> m_currentUid s < m_event_uid e) \<and> m_event_uid e < m_uid s \<and> 0 < m_event_uid e"

definition sim_ok :: "'e sim \<Rightarrow> bool" where
  "sim_ok s \<longleftrightarrow> sorted_wrt key_less (m_events s) \<and> list_all (after_now s) (m_events s) \<and>
     m_currentUid s < m_uid s \<and> distinct (map m_event_uid (m_events s))"

lemma key_less_iff:
  "key_less a b \<longleftrightarrow> m_ts a < m_ts b \<or> m_ts a = m_ts b \<and> m_event_uid a < m_event_uid b"
  by (simp add: key_less_def)

lemma set_Scheduler_Insert [simp]: "set (Scheduler_Insert e es) = insert e (set es)"
  by (induction es) auto

lemma sorted_Scheduler_Insert:
  assumes "sorted_wrt key_less es" and "\<forall>x \<in> set es. m_event_uid x < m_event_uid e"
  shows "sorted_wrt key_less (Scheduler_Insert e es)"
  using assms by (induction es) (auto simp: key_less_iff)

lemma Now_Schedule [frame, simp]: "Now (snd (Schedule d a s)) = Now s"
  by (simp add: Schedule_def Now_def Let_def)

lemma Now_Cancel [frame, simp]: "Now (Cancel i s) = Now s"
  by (simp add: Cancel_def Now_def)

lemma sim_ok_init: "sim_ok sim_init"
  by (simp add: sim_ok_def sim_init_def)

lemma mset_Scheduler_Insert: "mset (Scheduler_Insert e es) = add_mset e (mset es)"
  by (induction es) auto

lemma distinct_Scheduler_Insert:
  "distinct (map f (Scheduler_Insert e es)) \<longleftrightarrow> f e \<notin> f ` set es \<and> distinct (map f es)"
proof -
  have "mset (map f (Scheduler_Insert e es)) = mset (map f (e # es))"
    by (simp add: mset_Scheduler_Insert)
  then have "distinct (map f (Scheduler_Insert e es)) = distinct (map f (e # es))"
    by (rule mset_eq_imp_distinct_iff)
  then show ?thesis by simp
qed

lemma sim_ok_Schedule:
  assumes "sim_ok s" and "0 \<le> d"
  shows "sim_ok (snd (Schedule d a s))"
  using assms
  by (auto simp: sim_ok_def Schedule_def Let_def list_all_iff after_now_def distinct_Scheduler_Insert
      intro!: sorted_Scheduler_Insert)

lemma sorted_wrt_key_map:
  assumes "\<And>e. m_ts (f e) = m_ts e \<and> m_event_uid (f e) = m_event_uid e"
  shows "sorted_wrt key_less (map f es) = sorted_wrt key_less es"
proof -
  have "key_less (f x) (f y) = key_less x y" for x y
    using assms by (simp add: key_less_iff)
  then show ?thesis by (simp add: sorted_wrt_map)
qed

lemma sim_ok_Cancel: "sim_ok s \<Longrightarrow> sim_ok (Cancel i s)"
  by (auto simp: sim_ok_def Cancel_def list_all_iff after_now_def sorted_wrt_key_map comp_def
      if_distrib [of m_event_uid] cong: if_cong)

lemma sim_ok_ProcessOneEvent:
  assumes "sim_ok s" and "ProcessOneEvent s = Some (a, s')"
  shows "sim_ok s' \<and> Now s \<le> Now s'"
proof -
  obtain e es where es: "m_events s = e # es"
    using assms(2) by (auto simp: ProcessOneEvent_def split: list.splits)
  then show ?thesis
    using assms
    by (fastforce simp: ProcessOneEvent_def sim_ok_def Now_def list_all_iff after_now_def
        key_less_iff)
qed

lemma sim_ok_foreign:
  assumes "sim_ok s" and "foreign_event t v u s = Some s'"
  shows "sim_ok s'"
proof -
  have s': "s' = s\<lparr>m_currentTs := t, m_currentUid := v, m_uid := u\<rparr>"
    and c: "m_currentTs s \<le> t" "v < u" "m_uid s \<le> u"
      "list_all (\<lambda>e. t < m_ts e \<or> t = m_ts e \<and> v < m_event_uid e) (m_events s)"
    using assms(2) by (auto simp: foreign_event_def split: if_splits)
  then show ?thesis using assms(1) by (auto simp: sim_ok_def after_now_def list_all_iff)
qed

lemma advance_foreign:
  assumes "sim_ok s" and "\<forall>e \<in> set (m_events s). t \<le> m_ts e"
  shows "advance t s = s \<or> foreign_event t 0 (m_uid s) s = Some (advance t s)"
proof (cases "m_currentTs s < t")
  case True
  have "list_all (\<lambda>e. t < m_ts e \<or> t = m_ts e \<and> 0 < m_event_uid e) (m_events s)" "0 < m_uid s"
    using assms by (auto simp: list_all_iff sim_ok_def after_now_def order_le_less)
  then show ?thesis using True by (simp add: advance_def foreign_event_def)
qed (simp add: advance_def)

text \<open>The event that is run precedes every event left, in time or, at one instant, in the
  order of scheduling.\<close>

lemma ProcessOneEvent_first:
  assumes "sim_ok s" and "m_events s = e # es" and "x \<in> set es"
  shows "m_ts e < m_ts x \<or> m_ts e = m_ts x \<and> m_event_uid e < m_event_uid x"
  using assms by (auto simp: sim_ok_def key_less_iff)

text \<open>Actions that can still run: those of the pending events not cancelled.\<close>

definition pending_acts :: "'e sim \<Rightarrow> 'e set" where
  "pending_acts s = {m_impl e | e. e \<in> set (m_events s) \<and> \<not> m_cancel e}"

lemma pending_acts_Schedule [simp]:
  "pending_acts (snd (Schedule d a s)) = insert a (pending_acts s)"
  by (auto simp: pending_acts_def Schedule_def Let_def intro: exI [where x = "\<lparr>m_ts = _,
      m_event_uid = _, m_cancel = False, m_impl = a\<rparr>"])

lemma pending_acts_Cancel: "pending_acts (Cancel i s) \<subseteq> pending_acts s"
  by (auto simp: pending_acts_def Cancel_def split: if_splits)

lemma pending_acts_ProcessOneEvent:
  "ProcessOneEvent s = Some (a, s') \<Longrightarrow> pending_acts s = pending_acts s' \<union> set_option a"
  by (auto simp: pending_acts_def ProcessOneEvent_def split: list.splits if_splits)

lemma pending_acts_init [simp]: "pending_acts sim_init = {}"
  by (simp add: pending_acts_def sim_init_def)

section \<open>Live timers\<close>

text \<open>The actions that will run, each with the id that \<^verbatim>\<open>Schedule\<close> returned for it.\<close>

definition event_id_of :: "'e sched_event \<Rightarrow> event_id" where
  "event_id_of e = \<lparr>id_ts = m_ts e, id_uid = m_event_uid e\<rparr>"

definition live_timers :: "'e sim \<Rightarrow> ('e \<times> event_id) set" where
  "live_timers s = {(m_impl e, event_id_of e) | e. e \<in> set (m_events s) \<and> \<not> m_cancel e}"

text \<open>An id whose event has been taken from the queue, the running one included.\<close>

definition past_id :: "'e sim \<Rightarrow> event_id \<Rightarrow> bool" where
  "past_id s i \<longleftrightarrow> id_ts i < m_currentTs s \<or> id_ts i = m_currentTs s \<and> id_uid i \<le> m_currentUid s"

lemma live_timers_init [simp]: "live_timers sim_init = {}"
  by (simp add: live_timers_def sim_init_def)

lemma live_timers_Schedule:
  "live_timers (snd (Schedule d a s)) =
     insert (a, fst (Schedule d a s)) (live_timers s)"
  by (auto simp: live_timers_def Schedule_def Let_def event_id_of_def intro: exI [where x = "\<lparr>m_ts = _,
      m_event_uid = _, m_cancel = False, m_impl = a\<rparr>"])

lemma Schedule_id: "fst (Schedule d a s) = \<lparr>id_ts = d + Now s, id_uid = m_uid s\<rparr>"
  by (simp add: Schedule_def Let_def Now_def)

text \<open>A new id differs from every live one.\<close>

lemma Schedule_fresh: "sim_ok s \<Longrightarrow> (b, fst (Schedule d a s)) \<notin> live_timers s"
  by (auto simp: live_timers_def Schedule_id event_id_of_def sim_ok_def list_all_iff after_now_def)

lemma live_id_unique:
  assumes "sim_ok s" and "(a, i) \<in> live_timers s" and "(b, i) \<in> live_timers s"
  shows "a = b"
proof -
  obtain x y where "x \<in> set (m_events s)" "y \<in> set (m_events s)" "a = m_impl x" "b = m_impl y"
    "m_event_uid x = m_event_uid y"
    using assms(2,3) by (auto simp: live_timers_def event_id_of_def)
  moreover have "inj_on m_event_uid (set (m_events s))"
    using assms(1) by (simp add: sim_ok_def distinct_map)
  ultimately show ?thesis by (metis inj_onD)
qed

lemma live_not_past: "sim_ok s \<Longrightarrow> (a, i) \<in> live_timers s \<Longrightarrow> \<not> past_id s i"
  by (auto simp: live_timers_def past_id_def event_id_of_def sim_ok_def list_all_iff after_now_def)

lemma Cancel_past: "past_id s i \<Longrightarrow> Cancel i s = s"
  by (auto simp: past_id_def Cancel_def IsExpired_def)

lemma live_timers_Cancel:
  assumes ok: "sim_ok s" and live: "(a, i) \<in> live_timers s"
  shows "live_timers (Cancel i s) = live_timers s - {(a, i)}"
proof -
  have inj: "inj_on m_event_uid (set (m_events s))"
    using ok by (simp add: sim_ok_def distinct_map)
  obtain e where e: "e \<in> set (m_events s)" "\<not> m_cancel e" "a = m_impl e" "i = event_id_of e"
    using live by (auto simp: live_timers_def)
  have same: "m_event_uid x = id_uid i \<longleftrightarrow> x = e" if "x \<in> set (m_events s)" for x
    using that e inj by (auto simp: event_id_of_def dest: inj_onD)
  have "\<not> IsExpired i s"
    using live_not_past [OF ok live] same e by (auto simp: IsExpired_def past_id_def)
  then have "Cancel i s = s\<lparr>m_events := map (\<lambda>x. if m_event_uid x = id_uid i then x\<lparr>m_cancel := True\<rparr> else x)
      (m_events s)\<rparr>" by (simp add: Cancel_def)
  then have "live_timers (Cancel i s) = {(m_impl x, event_id_of x) | x. x \<in> set (m_events s) \<and> \<not> m_cancel x \<and> x \<noteq> e}"
    using same by (auto simp: live_timers_def event_id_of_def)
  also have "\<dots> = live_timers s - {(a, i)}"
    using e inj by (auto simp: live_timers_def event_id_of_def)
  finally show ?thesis .
qed

lemma past_id_Schedule [simp]: "past_id (snd (Schedule d a s)) i = past_id s i"
  by (simp add: past_id_def Schedule_def Let_def)

lemma past_id_Cancel [simp]: "past_id (Cancel j s) i = past_id s i"
  by (simp add: past_id_def Cancel_def)

text \<open>Taking the next event: its timer, and no other, leaves the live ones.\<close>

lemma live_timers_ProcessOneEvent:
  assumes ok: "sim_ok s" and "ProcessOneEvent s = Some (r, s')"
  shows "case r of
      None \<Rightarrow> live_timers s' = live_timers s
    | Some a \<Rightarrow> \<exists>i. (a, i) \<in> live_timers s \<and> live_timers s' = live_timers s - {(a, i)} \<and>
        past_id s' i \<and> id_ts i = Now s'"
proof -
  obtain e es where es: "m_events s = e # es" and r: "r = (if m_cancel e then None else Some (m_impl e))"
    and s': "s' = s\<lparr>m_currentTs := m_ts e, m_currentUid := m_event_uid e, m_events := es\<rparr>"
    using assms(2) by (auto simp: ProcessOneEvent_def split: list.splits)
  have other: "event_id_of x \<noteq> event_id_of e" if "x \<in> set es" for x
    using ok es that by (auto simp: sim_ok_def event_id_of_def key_less_iff)
  show ?thesis
  proof (cases "m_cancel e")
    case True
    then show ?thesis using r s' es by (auto simp: live_timers_def)
  next
    case False
    then have "live_timers s = insert (m_impl e, event_id_of e) (live_timers s')"
      using s' es by (auto simp: live_timers_def)
    moreover have "(m_impl e, event_id_of e) \<notin> live_timers s'"
      using other s' by (fastforce simp: live_timers_def)
    moreover have "past_id s' (event_id_of e)" "id_ts (event_id_of e) = Now s'"
      by (auto simp: s' past_id_def event_id_of_def Now_def)
    ultimately show ?thesis using r False by auto
  qed
qed

lemma past_id_ProcessOneEvent:
  assumes "sim_ok s" and "ProcessOneEvent s = Some (r, s')" and "past_id s i"
  shows "past_id s' i"
proof -
  obtain e es where es: "m_events s = e # es"
    and s': "s' = s\<lparr>m_currentTs := m_ts e, m_currentUid := m_event_uid e, m_events := es\<rparr>"
    using assms(2) by (auto simp: ProcessOneEvent_def split: list.splits)
  have "m_currentTs s \<le> m_ts e" "m_ts e = m_currentTs s \<Longrightarrow> m_currentUid s < m_event_uid e"
    using assms(1) es by (auto simp: sim_ok_def after_now_def)
  then show ?thesis using assms(3) by (auto simp: past_id_def s')
qed

end
