(* ===== verification/Tlv_Numbers.thy ===== *)
theory Tlv_Numbers
  imports Prelude
begin

text \<open>
  The two number formats of the NDN TLV encoding (ndn-cxx \<^verbatim>\<open>encoding/tlv.hpp\<close> and
  \<^verbatim>\<open>encoding/encoder.cpp\<close>): VAR-NUMBER, used for TLV types and lengths, and
  nonNegativeInteger, used for values.  Shown: each reader inverts its writer, the writers
  produce the announced sizes, and the bytewise order of VAR-NUMBER encodings is the order
  of the numbers.
\<close>

section \<open>VAR-NUMBER\<close>

text \<open>Reading consumes bytes from the front; \<open>None\<close> is the code's \<^verbatim>\<open>false\<close>.\<close>

definition read_be :: "nat \<Rightarrow> byte list \<Rightarrow> (nat \<times> byte list) option" where
  "read_be k bs = (if length bs < k then None else Some (be_val (take k bs), drop k bs))"

fun readVarNumber :: "byte list \<Rightarrow> (nat \<times> byte list) option" where
  "readVarNumber [] = None"
| "readVarNumber (firstOctet # bs) =
     (if firstOctet < 253 then Some (unat firstOctet, bs)
      else if firstOctet = 253 then read_be 2 bs
      else if firstOctet = 254 then read_be 4 bs
      else read_be 8 bs)"

definition readType :: "byte list \<Rightarrow> (nat \<times> byte list) option" where
  "readType bs =
     (case readVarNumber bs of
        None \<Rightarrow> None
      | Some (number, rest) \<Rightarrow> if number > 2 ^ 32 - 1 then None else Some (number, rest))"

definition sizeOfVarNumber :: "nat \<Rightarrow> nat" where
  "sizeOfVarNumber n =
     (if n < 253 then 1 else if n \<le> 2 ^ 16 - 1 then 3 else if n \<le> 2 ^ 32 - 1 then 5 else 9)"

text \<open>The argument is a \<^verbatim>\<open>uint64_t\<close>, so below \<open>2 ^ 64\<close>.\<close>

definition writeVarNumber :: "nat \<Rightarrow> byte list" where
  "writeVarNumber n =
     (if n < 253 then [of_nat n]
      else if n \<le> 2 ^ 16 - 1 then 253 # be_bytes 2 n
      else if n \<le> 2 ^ 32 - 1 then 254 # be_bytes 4 n
      else 255 # be_bytes 8 n)"

lemma unat_byte_of_nat: "n < 256 \<Longrightarrow> unat (of_nat n :: byte) = n"
  by (simp add: unat_of_nat)

lemma byte_of_nat_less_iff: "n < 256 \<Longrightarrow> (of_nat n :: byte) < b \<longleftrightarrow> n < unat b"
  by (simp add: word_less_nat_alt unat_byte_of_nat)

lemma read_be_bytes: "v < 256 ^ k \<Longrightarrow> read_be k (be_bytes k v @ rest) = Some (v, rest)"
  by (simp add: read_be_def be_val_be_bytes)

lemma length_writeVarNumber: "length (writeVarNumber n) = sizeOfVarNumber n"
  by (simp add: writeVarNumber_def sizeOfVarNumber_def)

lemma readVarNumber_writeVarNumber:
  assumes "n < 2 ^ 64"
  shows "readVarNumber (writeVarNumber n @ rest) = Some (n, rest)"
proof -
  have small: "readVarNumber ((of_nat n :: byte) # rest) = Some (n, rest)" if "n < 253"
    using that by (simp add: byte_of_nat_less_iff unat_byte_of_nat)
  show ?thesis
    using assms small
    by (simp add: writeVarNumber_def read_be_bytes word_less_nat_alt)
qed

text \<open>A number that is read fits the width of a \<^verbatim>\<open>uint64_t\<close>.\<close>

lemma read_be_bound: "read_be k bs = Some (n, rest) \<Longrightarrow> n < 256 ^ k"
  using be_val_less [of "take k bs"] by (auto simp: read_be_def min_def split: if_splits)

lemma readVarNumber_bound: "readVarNumber bs = Some (n, rest) \<Longrightarrow> n < 2 ^ 64"
  by (cases bs)
     (auto split: if_splits dest!: read_be_bound simp: word_less_nat_alt)

text \<open>Encodings compare, byte by byte, as the numbers do.\<close>

lemma be_bytes_less_iff:
  "m < 256 ^ k \<Longrightarrow> n < 256 ^ k \<Longrightarrow> be_bytes k m < be_bytes k n \<longleftrightarrow> m < n"
  using be_val_less_iff [of "be_bytes k m" "be_bytes k n"] by (simp add: be_val_be_bytes)

lemma be_bytes_inj:
  "m < 256 ^ k \<Longrightarrow> n < 256 ^ k \<Longrightarrow> be_bytes k m = be_bytes k n \<longleftrightarrow> m = n"
  by (metis be_val_be_bytes)

definition var_octet :: "nat \<Rightarrow> nat" where
  "var_octet n = (if n < 253 then n else if n \<le> 2 ^ 16 - 1 then 253
     else if n \<le> 2 ^ 32 - 1 then 254 else 255)"

definition var_tail :: "nat \<Rightarrow> byte list" where
  "var_tail n = (if n < 253 then [] else if n \<le> 2 ^ 16 - 1 then be_bytes 2 n
     else if n \<le> 2 ^ 32 - 1 then be_bytes 4 n else be_bytes 8 n)"

lemma writeVarNumber_split: "writeVarNumber n = of_nat (var_octet n) # var_tail n"
  by (simp add: writeVarNumber_def var_octet_def var_tail_def)

lemma var_octet_mono: "m \<le> n \<Longrightarrow> var_octet m \<le> var_octet n"
  by (auto simp: var_octet_def)

lemma var_octet_less_256: "var_octet n < 256"
  by (simp add: var_octet_def)

lemma var_tail_same_octet:
  assumes "m < 2 ^ 64" "n < 2 ^ 64" "var_octet m = var_octet n"
  shows "(var_tail m < var_tail n \<longleftrightarrow> m < n) \<and> (var_tail m = var_tail n \<longleftrightarrow> m = n)
    \<and> length (var_tail m) = length (var_tail n)"
  using assms
  by (auto simp: var_octet_def var_tail_def be_bytes_less_iff be_bytes_inj split: if_splits)

text \<open>The first difference of two encodings decides, also when more bytes follow.\<close>

lemma lex_append_same_length:
  "length (xs :: byte list) = length ys \<Longrightarrow>
   (xs @ us < ys @ vs) \<longleftrightarrow> xs < ys \<or> (xs = ys \<and> us < vs)"
  by (induction xs ys rule: list_induct2) auto

lemma writeVarNumber_append_less:
  assumes "m < 2 ^ 64" and "n < 2 ^ 64"
  shows "writeVarNumber m @ us < writeVarNumber n @ vs \<longleftrightarrow> m < n \<or> (m = n \<and> us < vs)"
proof (cases "var_octet m = var_octet n")
  case True
  with assms show ?thesis
    using var_tail_same_octet [OF assms True]
    by (auto simp: writeVarNumber_split lex_append_same_length)
next
  case False
  then have ne: "m \<noteq> n" by auto
  have "(of_nat (var_octet m) :: byte) < of_nat (var_octet n) \<longleftrightarrow> var_octet m < var_octet n"
    by (simp add: byte_of_nat_less_iff unat_byte_of_nat var_octet_less_256)
  moreover have "(of_nat (var_octet m) :: byte) \<noteq> of_nat (var_octet n)"
    using False by (metis unat_byte_of_nat var_octet_less_256)
  moreover have "var_octet m < var_octet n \<longleftrightarrow> m < n"
    using False ne var_octet_mono [of m n] var_octet_mono [of n m] by linarith
  ultimately show ?thesis using ne by (simp add: writeVarNumber_split)
qed

section \<open>nonNegativeInteger\<close>

text \<open>\<^verbatim>\<open>Encoder::prependNonNegativeInteger\<close>: one, two, four or eight bytes.\<close>

definition prependNonNegativeInteger :: "u64 \<Rightarrow> byte list" where
  "prependNonNegativeInteger v =
     (let n = unat v in
      if n \<le> 2 ^ 8 - 1 then be_bytes 1 n
      else if n \<le> 2 ^ 16 - 1 then be_bytes 2 n
      else if n \<le> 2 ^ 32 - 1 then be_bytes 4 n
      else be_bytes 8 n)"

definition readNonNegativeInteger :: "nat \<Rightarrow> byte list \<Rightarrow> exn + u64" where
  "readNonNegativeInteger sz bs =
     (if sz \<in> {1, 2, 4, 8}
      then if length bs < sz then Inl TlvError else Inr (of_nat (be_val (take sz bs)))
      else Inl TlvError)"

lemma length_prependNonNegativeInteger:
  "length (prependNonNegativeInteger v) \<in> {1, 2, 4, 8}"
  by (simp add: prependNonNegativeInteger_def Let_def)

lemma be_val_prependNonNegativeInteger: "be_val (prependNonNegativeInteger v) = unat v"
proof -
  have "unat v < 2 ^ 64"
    using unsigned_less [where 'b = 64 and 'a = nat, of v] by simp
  then show ?thesis
    unfolding prependNonNegativeInteger_def Let_def
    by (simp add: be_val_be_bytes del: be_bytes.simps)
qed

lemma readNonNegativeInteger_prepend:
  "readNonNegativeInteger (length (prependNonNegativeInteger v)) (prependNonNegativeInteger v)
     = Inr v"
  using length_prependNonNegativeInteger [of v]
  by (auto simp: readNonNegativeInteger_def be_val_prependNonNegativeInteger)

end
