(* ===== verification/Names.thy ===== *)
theory Names
  imports Tlv_Numbers
begin

text \<open>
  NDN names (ndn-cxx \<^verbatim>\<open>name-component.cpp\<close>, \<^verbatim>\<open>name.cpp\<close>) and the Trace-name
  functions of \<^verbatim>\<open>statim/packet-utils.hpp\<close>.  A name is the list of its components.
  Shown: the comparison of components by their wire encoding agrees with the canonical
  comparison, the order of names is the lexicographic order used to iterate the tables, and
  names below a prefix are contiguous in that order.
\<close>

section \<open>Components\<close>

datatype component = Component (c_type: u32) (c_value: "byte list")

type_synonym name = "component list"

abbreviation (input) NameComponent :: u32 where "NameComponent \<equiv> 8"
abbreviation (input) ImplicitSha256DigestComponent :: u32 where "ImplicitSha256DigestComponent \<equiv> 1"

text \<open>The constructor from a block accepts generic and digest components only; a TLV value is
  far shorter than \<open>2 ^ 31\<close> bytes (the largest NDN packet has 8800).\<close>

definition component_ok :: "component \<Rightarrow> bool" where
  "component_ok c \<longleftrightarrow>
     (c_type c = NameComponent \<or>
      c_type c = ImplicitSha256DigestComponent \<and> length (c_value c) = 32) \<and>
     length (c_value c) < 2 ^ 31"

definition name_ok :: "name \<Rightarrow> bool" where
  "name_ok n \<longleftrightarrow> list_all component_ok n"

text \<open>\<^verbatim>\<open>Component::equals\<close> compares type, size and bytes.\<close>

definition component_equals :: "component \<Rightarrow> component \<Rightarrow> bool" where
  "component_equals a b \<longleftrightarrow>
     c_type a = c_type b \<and> length (c_value a) = length (c_value b) \<and>
     (c_value a = [] \<or> list_all2 (=) (c_value a) (c_value b))"

lemma component_equals_eq: "component_equals a b \<longleftrightarrow> a = b"
  by (cases a; cases b) (auto simp: component_equals_def list.rel_eq)

text \<open>\<^verbatim>\<open>memcmp\<close> on the first \<open>n\<close> bytes: the difference of the first bytes that differ.\<close>

fun memcmp :: "byte list \<Rightarrow> byte list \<Rightarrow> nat \<Rightarrow> int" where
  "memcmp (x # xs) (y # ys) (Suc n) =
     (if x = y then memcmp xs ys n else uint x - uint y)"
| "memcmp _ _ _ = 0"

definition component_wire :: "component \<Rightarrow> byte list" where
  "component_wire c =
     writeVarNumber (unat (c_type c)) @ writeVarNumber (length (c_value c)) @ c_value c"

text \<open>\<^verbatim>\<open>Component::compare\<close>.  The flags say whether each side has a wire encoding.  The
  differences of types and of sizes are converted to a 32-bit \<^verbatim>\<open>int\<close>.\<close>

definition component_compare :: "bool \<Rightarrow> bool \<Rightarrow> component \<Rightarrow> component \<Rightarrow> int" where
  "component_compare hasWire otherHasWire a b =
     (if hasWire \<and> otherHasWire
      then memcmp (component_wire a) (component_wire b)
             (min (length (component_wire a)) (length (component_wire b)))
      else let cmpType = sint (c_type a - c_type b);
               cmpSize = sint (of_nat (length (c_value a)) - of_nat (length (c_value b)) :: u32)
           in if cmpType \<noteq> 0 then cmpType
              else if cmpSize \<noteq> 0 then cmpSize
              else if c_value a = [] then 0
              else memcmp (c_value a) (c_value b) (length (c_value a)))"

text \<open>The canonical order: type, then length, then bytes.\<close>

instantiation component :: linorder
begin

definition less_component :: "component \<Rightarrow> component \<Rightarrow> bool" where
  "a < b \<longleftrightarrow> c_type a < c_type b \<or> c_type a = c_type b \<and>
     (length (c_value a) < length (c_value b) \<or>
      length (c_value a) = length (c_value b) \<and> c_value a < c_value b)"

definition less_eq_component :: "component \<Rightarrow> component \<Rightarrow> bool" where
  "a \<le> b \<longleftrightarrow> (a :: component) < b \<or> a = b"

instance
proof
  fix x y z :: component
  show "(x < y) = (x \<le> y \<and> \<not> y \<le> x)"
    by (cases x; cases y) (auto simp: less_component_def less_eq_component_def)
  show "x \<le> x" by (simp add: less_eq_component_def)
  show "x \<le> y \<Longrightarrow> y \<le> z \<Longrightarrow> x \<le> z"
    by (cases x; cases y; cases z) (auto simp: less_component_def less_eq_component_def)
  show "x \<le> y \<Longrightarrow> y \<le> x \<Longrightarrow> x = y"
    by (cases x; cases y) (auto simp: less_component_def less_eq_component_def)
  show "x \<le> y \<or> y \<le> x"
    by (cases x; cases y) (auto simp: less_component_def less_eq_component_def)
qed

end

lemma memcmp_less:
  "length xs = length ys \<Longrightarrow> memcmp xs ys (length xs) < 0 \<longleftrightarrow> xs < ys"
  by (induction xs ys rule: list_induct2) (auto simp: word_less_def)

lemma memcmp_eq:
  "length xs = length ys \<Longrightarrow> memcmp xs ys (length xs) = 0 \<longleftrightarrow> xs = ys"
  by (induction xs ys rule: list_induct2) (auto simp: word_uint_eq_iff)

text \<open>On strings of any length, cut to the shorter one, when none is a prefix of the other.\<close>

lemma memcmp_min_less:
  "\<not> prefix xs ys \<Longrightarrow> \<not> prefix ys xs \<Longrightarrow>
   memcmp xs ys (min (length xs) (length ys)) < 0 \<longleftrightarrow> xs < ys"
proof (induction xs arbitrary: ys)
  case (Cons x xs)
  then show ?case by (cases ys) (auto simp: word_less_def)
qed simp

lemma memcmp_min_eq:
  "\<not> prefix xs ys \<Longrightarrow> \<not> prefix ys xs \<Longrightarrow>
   memcmp xs ys (min (length xs) (length ys)) \<noteq> 0"
proof (induction xs arbitrary: ys)
  case (Cons x xs)
  then show ?case by (cases ys) (auto simp: word_uint_eq_iff)
qed simp

lemma component_wire_inj_prefix:
  assumes "component_ok a" and "component_ok b"
    and "prefix (component_wire a) (component_wire b)"
  shows "a = b"
proof -
  have len: "unat (c_type c) < 2 ^ 64" "length (c_value c) < 2 ^ 64"
    if "component_ok c" for c
    using that by (auto simp: component_ok_def)
  let ?ba = "writeVarNumber (length (c_value a)) @ c_value a"
  obtain zs where zs: "component_wire b = component_wire a @ zs"
    using assms(3) by (auto elim: prefixE)
  have "readVarNumber (component_wire b) = readVarNumber (component_wire a @ zs)"
    using zs by simp
  then have t: "c_type a = c_type b"
    and r: "writeVarNumber (length (c_value b)) @ c_value b = ?ba @ zs"
    using len [OF assms(1)] len [OF assms(2)]
    by (auto simp: component_wire_def readVarNumber_writeVarNumber word_unat_eq_iff)
  have "readVarNumber (writeVarNumber (length (c_value b)) @ c_value b)
      = Some (length (c_value b), c_value b)"
    "readVarNumber (writeVarNumber (length (c_value a)) @ (c_value a @ zs))
      = Some (length (c_value a), c_value a @ zs)"
    by (rule readVarNumber_writeVarNumber, rule len, rule assms)+
  moreover have "writeVarNumber (length (c_value b)) @ c_value b
      = writeVarNumber (length (c_value a)) @ (c_value a @ zs)"
    using r by simp
  ultimately have "length (c_value b) = length (c_value a)" and "c_value b = c_value a @ zs"
    by (metis Pair_inject option.inject)+
  with t show ?thesis by (cases a; cases b) simp
qed

lemma component_wire_less:
  assumes "component_ok a" and "component_ok b"
  shows "component_wire a < component_wire b \<longleftrightarrow> a < b"
proof -
  have "unat (c_type a) < 2 ^ 64" "unat (c_type b) < 2 ^ 64"
    "length (c_value a) < 2 ^ 64" "length (c_value b) < 2 ^ 64"
    using assms by (auto simp: component_ok_def)
  then show ?thesis
    by (auto simp: component_wire_def less_component_def writeVarNumber_append_less
        word_less_nat_alt word_unat_eq_iff)
qed

lemma component_compare_wire_less:
  assumes "component_ok a" and "component_ok b"
  shows "component_compare True True a b < 0 \<longleftrightarrow> a < b"
proof (cases "a = b")
  case True
  have "memcmp (component_wire b) (component_wire b) (length (component_wire b)) = 0"
    by (simp add: memcmp_eq)
  with True show ?thesis by (simp add: component_compare_def)
next
  case False
  then have "\<not> prefix (component_wire a) (component_wire b)"
    and "\<not> prefix (component_wire b) (component_wire a)"
    using component_wire_inj_prefix assms by metis+
  then show ?thesis
    by (simp add: component_compare_def memcmp_min_less component_wire_less assms)
qed

lemma sint_diff_small:
  fixes a b :: u32
  assumes "uint a < 2 ^ 31" and "uint b < 2 ^ 31"
  shows "sint (a - b) = uint a - uint b"
proof -
  have "sint (a - b) = signed_take_bit 31 (take_bit 32 (uint a - uint b))"
    by (simp add: sint_uint uint_word_ariths take_bit_eq_mod)
  also have "\<dots> = signed_take_bit 31 (uint a - uint b)"
    by (simp add: signed_take_bit_take_bit)
  also have "\<dots> = uint a - uint b"
  proof (rule signed_take_bit_int_eq_self)
    have "0 \<le> uint a" "0 \<le> uint b" by simp_all
    with assms show "- (2 ^ 31) \<le> uint a - uint b" "uint a - uint b < 2 ^ 31" by linarith+
  qed
  finally show ?thesis .
qed

lemma sint_diff_of_nat:
  assumes "m < 2 ^ 31" and "n < 2 ^ 31"
  shows "sint (of_nat m - of_nat n :: u32) = int m - int n"
proof -
  have "uint (of_nat k :: u32) = int k" if "k < 2 ^ 31" for k
    using that by (simp add: unsigned_of_nat take_bit_nat_eq_self uint_nat unat_of_nat)
  then show ?thesis using assms by (subst sint_diff_small) auto
qed

lemma component_compare_value:
  assumes "component_ok a" and "component_ok b" and "\<not> (w \<and> w')"
  shows "component_compare w w' a b =
    (if c_type a \<noteq> c_type b then uint (c_type a) - uint (c_type b)
     else if length (c_value a) \<noteq> length (c_value b)
     then int (length (c_value a)) - int (length (c_value b))
     else memcmp (c_value a) (c_value b) (length (c_value a)))"
proof -
  have t: "sint (c_type a - c_type b) = uint (c_type a) - uint (c_type b)"
    using assms by (intro sint_diff_small) (auto simp: component_ok_def)
  have s: "sint (of_nat (length (c_value a)) - of_nat (length (c_value b)) :: u32)
      = int (length (c_value a)) - int (length (c_value b))"
    using assms by (intro sint_diff_of_nat) (auto simp: component_ok_def)
  show ?thesis
    using assms(3) by (auto simp: component_compare_def Let_def t s word_uint_eq_iff)
qed

lemma component_compare_less:
  assumes "component_ok a" and "component_ok b"
  shows "component_compare w w' a b < 0 \<longleftrightarrow> a < b"
proof (cases "w \<and> w'")
  case True
  then show ?thesis using component_compare_wire_less [OF assms] by simp
next
  case False
  show ?thesis
    using memcmp_less [of "c_value a" "c_value b"]
    by (auto simp: component_compare_value [OF assms False] less_component_def word_less_def
        word_uint_eq_iff)
qed

lemma component_compare_eq:
  assumes "component_ok a" and "component_ok b"
  shows "component_compare w w' a b = 0 \<longleftrightarrow> a = b"
proof (cases "w \<and> w'")
  case True
  show ?thesis
  proof (cases "a = b")
    case False
    then have "\<not> prefix (component_wire a) (component_wire b)"
      and "\<not> prefix (component_wire b) (component_wire a)"
      using component_wire_inj_prefix assms by metis+
    with True False show ?thesis by (simp add: component_compare_def memcmp_min_eq)
  qed (use True memcmp_eq [of "component_wire b" "component_wire b"]
      in \<open>simp add: component_compare_def\<close>)
next
  case False
  show ?thesis
    using memcmp_eq [of "c_value a" "c_value b"]
    by (auto simp: component_compare_value [OF assms False] word_uint_eq_iff
        component.expand)
qed

section \<open>Names\<close>

text \<open>\<^verbatim>\<open>Name::compare\<close> of whole names: the first components that differ decide, then
  the numbers of components (their difference is converted to a 32-bit \<^verbatim>\<open>int\<close>).\<close>

fun name_compare_from :: "bool \<Rightarrow> bool \<Rightarrow> name \<Rightarrow> name \<Rightarrow> int" where
  "name_compare_from w w' (a # as) (b # bs) =
     (let comp = component_compare w w' a b
      in if comp \<noteq> 0 then comp else name_compare_from w w' as bs)"
| "name_compare_from w w' as bs = sint (of_nat (length as) - of_nat (length bs) :: u32)"

definition name_less :: "bool \<Rightarrow> bool \<Rightarrow> name \<Rightarrow> name \<Rightarrow> bool" where
  "name_less w w' a b \<longleftrightarrow> name_compare_from w w' a b < 0"

text \<open>\<^verbatim>\<open>Name::getSubName\<close>: a negative start counts from the end, \<open>None\<close> is
  \<^verbatim>\<open>npos\<close>.\<close>

definition getSubName :: "name \<Rightarrow> int \<Rightarrow> nat option \<Rightarrow> name" where
  "getSubName n iStartComponent nComponents =
     (let iStart0 = (if iStartComponent < 0 then int (length n) + iStartComponent
                     else iStartComponent);
          iStart = nat (max iStart0 0);
          iEnd = (case nComponents of None \<Rightarrow> length n
                  | Some k \<Rightarrow> min (length n) (iStart + k))
      in map (\<lambda>i. n ! i) [iStart..<iEnd])"

definition getPrefix :: "name \<Rightarrow> int \<Rightarrow> name" where
  "getPrefix n nComponents =
     (if nComponents < 0 then getSubName n 0 (Some (nat (int (length n) + nComponents)))
      else getSubName n 0 (Some (nat nComponents)))"

definition name_equals :: "name \<Rightarrow> name \<Rightarrow> bool" where
  "name_equals a b \<longleftrightarrow>
     length a = length b \<and> (\<forall>i < length a. component_equals (a ! i) (b ! i))"

definition isPrefixOf :: "name \<Rightarrow> name \<Rightarrow> bool" where
  "isPrefixOf p n \<longleftrightarrow>
     \<not> length p > length n \<and> (\<forall>i < length p. component_equals (p ! i) (n ! i))"

text \<open>\<^verbatim>\<open>Name::at\<close> checks its bounds and counts negative indices from the end.\<close>

definition name_at :: "name \<Rightarrow> int \<Rightarrow> exn + component" where
  "name_at n i =
     (if (i \<ge> 0 \<and> nat i \<ge> length n) \<or> (i < 0 \<and> nat (- i) > length n) then Inl TlvError
      else if i \<ge> 0 then Inr (n ! nat i) else Inr (n ! nat (int (length n) + i)))"

lemma getSubName_take:
  "getSubName n (int s) (Some k) = take k (drop s n)"
proof (rule nth_equalityI)
  fix i
  assume "i < length (getSubName n (int s) (Some k))"
  then have i: "i < min (length n) (s + k) - s" by (simp add: getSubName_def Let_def)
  then have "[s..<min (length n) (s + k)] ! i = s + i" by (intro nth_upt) linarith
  with i show "getSubName n (int s) (Some k) ! i = take k (drop s n) ! i"
    by (simp add: getSubName_def Let_def)
qed (auto simp: getSubName_def Let_def)

lemma getPrefix_take [simp]: "getPrefix n (int k) = take k n"
  using getSubName_take [of n 0 k] by (simp add: getPrefix_def)

lemma name_equals_eq: "name_equals a b \<longleftrightarrow> a = b"
  by (auto simp: name_equals_def component_equals_eq list_eq_iff_nth_eq)

lemma isPrefixOf_prefix [simp]: "isPrefixOf p n \<longleftrightarrow> prefix p n"
proof
  assume p: "isPrefixOf p n"
  have "take (length p) n = p"
    using p by (intro nth_equalityI) (auto simp: isPrefixOf_def component_equals_eq)
  then show "prefix p n" by (metis take_is_prefix)
qed (auto simp: isPrefixOf_def component_equals_eq nth_append elim!: prefixE)

lemma name_at_last [simp]: "n \<noteq> [] \<Longrightarrow> name_at n (- 1) = Inr (last n)"
  by (cases n rule: rev_cases) (auto simp: name_at_def nth_append)

lemma name_compare_less:
  assumes "name_ok a" "name_ok b" "length a < 2 ^ 31" "length b < 2 ^ 31"
  shows "name_less w w' a b \<longleftrightarrow> a < b"
  using assms unfolding name_less_def
proof (induction w w' a b rule: name_compare_from.induct)
  case (1 w w' a as b bs)
  then have ok: "component_ok a" "component_ok b" by (auto simp: name_ok_def)
  have rest: "name_compare_from w w' as bs < 0 \<longleftrightarrow> as < bs" if "a = b"
    using 1 that component_compare_eq [OF ok] by (auto simp: name_ok_def)
  show ?case
    using rest component_compare_less [OF ok] component_compare_eq [OF ok]
    by (auto simp: Let_def)
qed (auto simp: sint_diff_of_nat [of 0, simplified] sint_diff_of_nat [of _ 0, simplified]
       order_less_le)



text \<open>The names below a prefix form a segment of the order that starts at the prefix.\<close>

lemma prefix_le: "prefix p n \<Longrightarrow> p \<le> (n :: name)"
proof (induction p arbitrary: n)
  case (Cons c p)
  then show ?case by (cases n) (auto simp: list_le_def)
qed simp

lemma prefix_interval:
  assumes "p \<le> (x :: name)" and "x < y" and "prefix p y"
  shows "prefix p x"
  using assms
proof (induction p arbitrary: x y)
  case (Cons c p)
  then obtain d x' where x: "x = d # x'" by (cases x) auto
  obtain y' where y: "y = c # y'" "prefix p y'" using Cons.prems(3) by (cases y) auto
  from Cons.prems x y have "d = c" by (auto simp: list_le_def)
  with Cons x y show ?case by (auto simp: list_le_def)
qed simp

section \<open>URIs\<close>

text \<open>Hexadecimal digits, upper case in escapes and lower case in digests.\<close>

definition hex_digit :: "bool \<Rightarrow> nat \<Rightarrow> char" where
  "hex_digit upper d =
     (if d < 10 then char_of (48 + d) else char_of ((if upper then 55 else 87) + d))"

definition uri_plain :: "byte \<Rightarrow> bool" where
  "uri_plain x \<longleftrightarrow> (0x30 \<le> x \<and> x \<le> 0x39) \<or> (0x41 \<le> x \<and> x \<le> 0x5a) \<or>
     (0x61 \<le> x \<and> x \<le> 0x7a) \<or> x = 0x2b \<or> x = 0x2d \<or> x = 0x2e \<or> x = 0x5f"

definition uri_escape :: "byte \<Rightarrow> string" where
  "uri_escape x =
     (if uri_plain x then [char_of (unat x)]
      else [CHR ''%'', hex_digit True (unat x div 16), hex_digit True (unat x mod 16)])"

text \<open>\<^verbatim>\<open>Component::toUri\<close>: digests in hexadecimal, components of periods only with
  three more, all others escaped byte by byte.\<close>

definition component_toUri :: "component \<Rightarrow> string" where
  "component_toUri c =
     (if c_type c = ImplicitSha256DigestComponent
      then ''sha256digest='' @
           concat (map (\<lambda>x. [hex_digit False (unat x div 16), hex_digit False (unat x mod 16)])
                       (c_value c))
      else if list_all (\<lambda>x. x = 0x2e) (c_value c)
      then ''...'' @ map (\<lambda>_. CHR ''.'') (c_value c)
      else concat (map uri_escape (c_value c)))"

definition bytes_of :: "string \<Rightarrow> byte list" where
  "bytes_of s = map (\<lambda>ch. of_nat (of_char ch)) s"

text \<open>\<^verbatim>\<open>Component(const char*)\<close>: a generic component of the string's bytes.\<close>

definition component_of_string :: "string \<Rightarrow> component" where
  "component_of_string s = Component NameComponent (bytes_of s)"

lemma uri_escape_no_percent:
  "CHR ''%'' \<notin> set (concat (map uri_escape bs)) \<Longrightarrow> list_all uri_plain bs"
  by (induction bs) (auto simp: uri_escape_def split: if_splits)

lemma uri_escape_plain:
  "list_all uri_plain bs \<Longrightarrow> concat (map uri_escape bs) = map (\<lambda>x. char_of (unat x)) bs"
  by (induction bs) (auto simp: uri_escape_def)

lemma map_char_of_inj:
  "map (\<lambda>x::byte. char_of (unat x) :: char) bs = s \<Longrightarrow> bs = bytes_of s"
proof (induction bs arbitrary: s)
  case (Cons b bs)
  have "unat b < 256"
    using unsigned_less [where 'b = 8 and 'a = nat, of b] by simp
  then have "of_nat (of_char (char_of (unat b) :: char)) = b"
    by (simp add: of_char_of)
  with Cons show ?case by (auto simp: bytes_of_def)
qed (simp add: bytes_of_def)

text \<open>A component reads \<^verbatim>\<open>trace\<close> only if it is the generic component of these five
  bytes: neither a digest nor an escaped string looks the same.\<close>

lemma component_toUri_trace:
  "component_toUri c = ''trace'' \<longleftrightarrow>
     c_type c \<noteq> ImplicitSha256DigestComponent \<and> c_value c = bytes_of ''trace''"
proof
  assume uri: "component_toUri c = ''trace''"
  then have nd: "c_type c \<noteq> ImplicitSha256DigestComponent"
    by (auto simp: component_toUri_def)
  with uri have esc: "concat (map uri_escape (c_value c)) = ''trace''"
    by (auto simp: component_toUri_def split: if_splits)
  then have "list_all uri_plain (c_value c)"
    by (intro uri_escape_no_percent) simp
  with esc have "c_value c = bytes_of ''trace''"
    by (intro map_char_of_inj) (simp add: uri_escape_plain)
  with nd show "c_type c \<noteq> ImplicitSha256DigestComponent \<and> c_value c = bytes_of ''trace''"
    by simp
next
  assume "c_type c \<noteq> ImplicitSha256DigestComponent \<and> c_value c = bytes_of ''trace''"
  then show "component_toUri c = ''trace''"
    by (simp add: component_toUri_def bytes_of_def uri_escape_def uri_plain_def char_of_def
        bit_Suc_0_iff)
qed

section \<open>Sequence numbers\<close>

abbreviation (input) SEQUENCE_NUMBER_MARKER :: byte where "SEQUENCE_NUMBER_MARKER \<equiv> 0xFE"

definition isNumberWithMarker :: "byte \<Rightarrow> component \<Rightarrow> bool" where
  "isNumberWithMarker marker c \<longleftrightarrow>
     c_value c \<noteq> [] \<and> hd (c_value c) = marker \<and> length (c_value c) \<in> {2, 3, 5, 9}"

definition toNumberWithMarker :: "byte \<Rightarrow> component \<Rightarrow> exn + u64" where
  "toNumberWithMarker marker c =
     (if \<not> isNumberWithMarker marker c then Inl TlvError
      else readNonNegativeInteger (length (c_value c) - 1) (tl (c_value c)))"

definition fromNumberWithMarker :: "byte \<Rightarrow> u64 \<Rightarrow> component" where
  "fromNumberWithMarker marker number =
     Component NameComponent (marker # prependNonNegativeInteger number)"

definition toSequenceNumber :: "component \<Rightarrow> exn + u64" where
  "toSequenceNumber c = toNumberWithMarker SEQUENCE_NUMBER_MARKER c"

definition fromSequenceNumber :: "u64 \<Rightarrow> component" where
  "fromSequenceNumber seqNo = fromNumberWithMarker SEQUENCE_NUMBER_MARKER seqNo"

lemma toSequenceNumber_from [simp]: "toSequenceNumber (fromSequenceNumber s) = Inr s"
proof -
  have "length (prependNonNegativeInteger s) \<in> {1, 2, 4, 8}"
    by (rule length_prependNonNegativeInteger)
  then show ?thesis
    using readNonNegativeInteger_prepend [of s]
    by (auto simp: toSequenceNumber_def fromSequenceNumber_def toNumberWithMarker_def
        fromNumberWithMarker_def isNumberWithMarker_def)
qed

lemma toSequenceNumber_error:
  "(\<exists>s. toSequenceNumber c = Inr s) \<longleftrightarrow> isNumberWithMarker SEQUENCE_NUMBER_MARKER c"
  by (auto simp: toSequenceNumber_def toNumberWithMarker_def isNumberWithMarker_def
      readNonNegativeInteger_def)

section \<open>Trace names\<close>

text \<open>\<^verbatim>\<open>packet-utils.hpp\<close>: a Trace name is \<open>/R/trace/P.../s\<close>, the data prefix it stands for
  is \<open>/R/P...\<close>.\<close>

definition judgeNameIsTrace :: "name \<Rightarrow> bool" where
  "judgeNameIsTrace n \<longleftrightarrow> (if length n < 4 then False else component_toUri (n ! 1) = ''trace'')"

definition extractDataNameFromTrace :: "name \<Rightarrow> name" where
  "extractDataNameFromTrace n =
     (if length n < 4 then [] else [n ! 0] @ getSubName n 2 (Some (length n - 3)))"

text \<open>\<^verbatim>\<open>StatimMobile::MakeTracePrefix\<close> and the name of the Trace Interest that
  \<^verbatim>\<open>SendTrace\<close> builds from it.\<close>

definition MakeTracePrefix :: "name \<Rightarrow> name \<Rightarrow> name" where
  "MakeTracePrefix rvPrefix dataPrefix = rvPrefix @ [component_of_string ''trace''] @ dataPrefix"

definition traceName :: "name \<Rightarrow> name \<Rightarrow> u64 \<Rightarrow> name" where
  "traceName rvPrefix dataPrefix s = MakeTracePrefix rvPrefix dataPrefix @ [fromSequenceNumber s]"

lemma extractDataName_shape:
  assumes "4 \<le> length n"
  shows "extractDataNameFromTrace n = hd n # butlast (drop 2 n)"
proof -
  have "getSubName n 2 (Some (length n - 3)) = take (length n - 3) (drop 2 n)"
    using getSubName_take [of n 2] by simp
  also have "\<dots> = butlast (drop 2 n)"
    by (simp add: butlast_conv_take)
  finally show ?thesis
    using assms by (cases n) (auto simp: extractDataNameFromTrace_def)
qed

lemma extractDataName_nonempty: "judgeNameIsTrace n \<Longrightarrow> extractDataNameFromTrace n \<noteq> []"
  by (auto simp: judgeNameIsTrace_def extractDataName_shape split: if_splits)

end
