(* ===== verification/Packet_Header.thy ===== *)
theory Packet_Header
  imports Names
begin

text \<open>
  The 12-byte Statim header (\<^verbatim>\<open>statim/packet-header.hpp\<close>, \<^verbatim>\<open>packet-header.cpp\<close>) and the
  network-order accessors of \<^verbatim>\<open>ns3::Buffer::Iterator\<close> it is written with.
  \<^verbatim>\<open>std::hash<std::string>\<close> is the argument \<open>hash\<close>.  Shown: the serialized form always
  has twelve bytes and is read back exactly, short input and unknown packet types are
  rejected with a cleared or partly read header, and the hash tuple of a name starts with
  the hashes of its first components.
\<close>

section \<open>Buffer access\<close>

definition WriteHtonU16 :: "u16 \<Rightarrow> byte list" where
  "WriteHtonU16 d = [ucast (drop_bit 8 d AND 0xff), ucast (d AND 0xff)]"

definition WriteHtonU32 :: "u32 \<Rightarrow> byte list" where
  "WriteHtonU32 d =
     [ucast (drop_bit 24 d AND 0xff), ucast (drop_bit 16 d AND 0xff),
      ucast (drop_bit 8 d AND 0xff), ucast (d AND 0xff)]"

definition ReadNtohU16 :: "byte list \<Rightarrow> u16" where
  "ReadNtohU16 b = push_bit 8 (ucast (b ! 0)) OR ucast (b ! 1)"

definition ReadNtohU32 :: "byte list \<Rightarrow> u32" where
  "ReadNtohU32 b =
     push_bit 8 (push_bit 8 (push_bit 8 (ucast (b ! 0)) OR ucast (b ! 1)) OR ucast (b ! 2))
       OR ucast (b ! 3)"

lemma length_WriteHton [simp]:
  "length (WriteHtonU16 d16) = 2" "length (WriteHtonU32 d32) = 4"
  by (simp_all add: WriteHtonU16_def WriteHtonU32_def)

lemma ucast_byte_mask [simp]: "ucast (x AND 0xff :: 'a::len word) = (ucast x :: byte)"
proof -
  have m: "(0xff :: 'a word) = mask 8" by (simp add: mask_eq_exp_minus_1)
  show ?thesis
    unfolding m
    by (rule bit_word_eqI) (auto simp only: bit_unsigned_iff bit_and_iff bit_mask_iff,
        auto dest: bit_imp_le_length)
qed

lemma ReadNtohU16_WriteHtonU16 [simp]: "ReadNtohU16 (WriteHtonU16 d @ r) = d"
proof (rule bit_word_eqI)
  fix n assume "n < LENGTH(16)"
  then show "bit (ReadNtohU16 (WriteHtonU16 d @ r)) n = bit d n"
    by (cases "n < 8") (auto simp: ReadNtohU16_def WriteHtonU16_def bit_simps)
qed

lemma ReadNtohU32_WriteHtonU32 [simp]: "ReadNtohU32 (WriteHtonU32 d @ r) = d"
proof (rule bit_word_eqI)
  fix n assume n: "n < LENGTH(32)"
  consider "n < 8" | "8 \<le> n" "n < 16" | "16 \<le> n" "n < 24" | "24 \<le> n" "n < 32"
    using n by (auto simp: not_less [symmetric])
  then show "bit (ReadNtohU32 (WriteHtonU32 d @ r)) n = bit d n"
    by cases (auto simp: ReadNtohU32_def WriteHtonU32_def bit_simps)
qed

section \<open>Packet types\<close>

text \<open>\<^verbatim>\<open>enum class PacketType : uint8_t\<close>: a variable of it can hold any byte, and
  \<^verbatim>\<open>Deserialize\<close> stores the byte before it checks it.\<close>

type_synonym packet_type = byte

abbreviation (input) UNPROCESSED :: packet_type where "UNPROCESSED \<equiv> 0x00"
abbreviation (input) INTEREST :: packet_type where "INTEREST \<equiv> 0x01"
abbreviation (input) DATA :: packet_type where "DATA \<equiv> 0x02"
abbreviation (input) CONTROL :: packet_type where "CONTROL \<equiv> 0x03"
abbreviation (input) SELF_LEARNING_DISCOVERY :: packet_type where "SELF_LEARNING_DISCOVERY \<equiv> 0x05"

definition isValidPacketType :: "byte \<Rightarrow> bool" where
  "isValidPacketType v \<longleftrightarrow> v = 0x00 \<or> v = 0x01 \<or> v = 0x02 \<or> v = 0x03 \<or> v = 0x05"

abbreviation (input) STATIM_NAME_HASH_COUNT :: nat where "STATIM_NAME_HASH_COUNT \<equiv> 4"

definition SERIALIZED_SIZE :: nat where
  "SERIALIZED_SIZE = 1 + 4 + 2 + STATIM_NAME_HASH_COUNT + 1"

section \<open>The header\<close>

record packet_header =
  m_type :: packet_type
  m_outPorts :: u32
  m_packetInPort :: u16
  m_nameHashes :: "byte list"
  m_switchId :: byte

definition header_default :: packet_header where
  "header_default = \<lparr>m_type = UNPROCESSED, m_outPorts = 0, m_packetInPort = 0,
     m_nameHashes = replicate STATIM_NAME_HASH_COUNT 0xff, m_switchId = 0\<rparr>"

definition header_clear :: "packet_header \<Rightarrow> packet_header" where
  "header_clear h = h\<lparr>m_type := UNPROCESSED, m_outPorts := 0, m_packetInPort := 0,
     m_nameHashes := replicate STATIM_NAME_HASH_COUNT 0xff, m_switchId := 0\<rparr>"

definition computeComponentHash :: "(string \<Rightarrow> u64) \<Rightarrow> component \<Rightarrow> byte" where
  "computeComponentHash hash c = ucast (hash (component_toUri c) mod 0xfe)"

definition nameHashesOf :: "(string \<Rightarrow> u64) \<Rightarrow> name \<Rightarrow> byte list" where
  "nameHashesOf hash n =
     (let count = min (length n) STATIM_NAME_HASH_COUNT
      in map (\<lambda>i. if i < count then computeComponentHash hash (n ! i) else 0xff)
             [0..<STATIM_NAME_HASH_COUNT])"

definition computeNameHashes :: "(string \<Rightarrow> u64) \<Rightarrow> name \<Rightarrow> packet_header \<Rightarrow> packet_header" where
  "computeNameHashes hash n h = h\<lparr>m_nameHashes := nameHashesOf hash n\<rparr>"

definition header_of_name :: "(string \<Rightarrow> u64) \<Rightarrow> name \<Rightarrow> packet_header" where
  "header_of_name hash n = computeNameHashes hash n header_default"

definition Serialize :: "packet_header \<Rightarrow> byte list" where
  "Serialize h =
     [m_type h] @ WriteHtonU32 (m_outPorts h) @ WriteHtonU16 (m_packetInPort h) @
     map (\<lambda>i. m_nameHashes h ! i) [0..<STATIM_NAME_HASH_COUNT] @ [m_switchId h]"

text \<open>\<^verbatim>\<open>Deserialize\<close>: the number of bytes read, zero on error, and the header as the call
  leaves it.\<close>

definition Deserialize :: "byte list \<Rightarrow> packet_header \<Rightarrow> nat \<times> packet_header" where
  "Deserialize buf h0 =
     (let h = header_clear h0 in
      if length buf < SERIALIZED_SIZE then (0, h)
      else let ty = buf ! 0; h = h\<lparr>m_type := ty\<rparr> in
      if \<not> isValidPacketType ty then (0, h)
      else (SERIALIZED_SIZE,
            h\<lparr>m_outPorts := ReadNtohU32 (drop 1 buf),
              m_packetInPort := ReadNtohU16 (drop 5 buf),
              m_nameHashes := map (\<lambda>i. drop 7 buf ! i) [0..<STATIM_NAME_HASH_COUNT],
              m_switchId := buf ! 11\<rparr>))"

definition header_isValid :: "packet_header \<Rightarrow> bool" where
  "header_isValid h \<longleftrightarrow>
     isValidPacketType (m_type h) \<and> length (m_nameHashes h) = STATIM_NAME_HASH_COUNT"

definition getNameHashCount :: "packet_header \<Rightarrow> nat" where
  "getNameHashCount h = length (takeWhile (\<lambda>x. x \<noteq> 0xff) (m_nameHashes h))"

section \<open>Properties\<close>

lemma upt_4: "[0..<4] = [0, 1, 2, 3 :: nat]"
  by (simp add: upt_rec)

lemma length_4: "length xs = 4 \<Longrightarrow> xs = [xs ! 0, xs ! 1, xs ! 2, xs ! 3]"
  by (intro nth_equalityI) (auto simp: less_Suc_eq numeral_eq_Suc)

lemma length_Serialize [simp]: "length (Serialize h) = SERIALIZED_SIZE"
  by (simp add: Serialize_def SERIALIZED_SIZE_def)

lemma Deserialize_Serialize:
  assumes "header_isValid h"
  shows "Deserialize (Serialize h @ rest) h0 = (SERIALIZED_SIZE, h)"
proof -
  have valid: "isValidPacketType (m_type h)" and hs: "length (m_nameHashes h) = 4"
    using assms by (auto simp: header_isValid_def)
  let ?p = "WriteHtonU32 (m_outPorts h)" and ?i = "WriteHtonU16 (m_packetInPort h)"
  let ?hs = "map (\<lambda>i. m_nameHashes h ! i) [0..<STATIM_NAME_HASH_COUNT]"
  have hs': "?hs = m_nameHashes h"
    using length_4 [OF hs] by (simp add: upt_4)
  have buf: "Serialize h @ rest = m_type h # ?p @ ?i @ m_nameHashes h @ m_switchId h # rest"
    by (simp add: Serialize_def hs')
  have "drop 1 (Serialize h @ rest) = ?p @ ?i @ m_nameHashes h @ m_switchId h # rest"
    by (simp add: buf)
  moreover have "drop 5 (Serialize h @ rest) = ?i @ m_nameHashes h @ m_switchId h # rest"
    by (simp add: buf)
  moreover have d7: "drop 7 (Serialize h @ rest) = m_nameHashes h @ m_switchId h # rest"
    by (simp add: buf)
  moreover have "(Serialize h @ rest) ! 11 = m_switchId h"
  proof -
    have "(Serialize h @ rest) ! (7 + 4) = drop 7 (Serialize h @ rest) ! 4"
      by (rule nth_drop [symmetric]) (simp add: SERIALIZED_SIZE_def)
    also have "\<dots> = m_switchId h" unfolding d7 by (simp add: nth_append hs)
    finally show ?thesis by simp
  qed
  moreover have "map (\<lambda>i. (m_nameHashes h @ m_switchId h # rest) ! i) [0..<4] = m_nameHashes h"
    using length_4 [OF hs] hs by (simp add: upt_4 nth_append)
  moreover have "(Serialize h @ rest) ! 0 = m_type h" by (simp add: buf)
  ultimately show ?thesis
    using valid by (simp add: Deserialize_def header_clear_def SERIALIZED_SIZE_def)
qed

lemma Deserialize_accepts:
  "fst (Deserialize buf h0) = SERIALIZED_SIZE \<longleftrightarrow>
     SERIALIZED_SIZE \<le> length buf \<and> isValidPacketType (buf ! 0)"
  by (auto simp: Deserialize_def Let_def SERIALIZED_SIZE_def)

lemma Deserialize_valid:
  "fst (Deserialize buf h0) \<noteq> 0 \<Longrightarrow> header_isValid (snd (Deserialize buf h0))"
  by (auto simp: Deserialize_def Let_def header_isValid_def split: if_splits)

text \<open>A component hash is never the wildcard byte.\<close>

lemma computeComponentHash_not_wildcard: "computeComponentHash hash c \<noteq> 0xff"
proof
  let ?r = "hash (component_toUri c) mod (0xfe :: u64)"
  have "unat ?r < unat (0xfe :: u64)"
    unfolding unat_mod by (rule mod_less_divisor) simp
  then have r: "unat ?r < 254" by simp
  assume "computeComponentHash hash c = 0xff"
  then have "unat (ucast ?r :: byte) = 255" by (simp add: computeComponentHash_def)
  moreover have "unat (ucast ?r :: byte) = unat ?r"
    using r by (simp add: unsigned_ucast_eq take_bit_nat_eq_self)
  ultimately show False using r by simp
qed

lemma length_nameHashesOf [simp]: "length (nameHashesOf hash n) = 4"
  by (simp add: nameHashesOf_def Let_def)

lemma nth_nameHashesOf:
  "i < 4 \<Longrightarrow> nameHashesOf hash n ! i =
     (if i < length n then computeComponentHash hash (n ! i) else 0xff)"
  by (simp add: nameHashesOf_def Let_def)

lemma nameHashesOf_wildcard:
  "i < 4 \<Longrightarrow> nameHashesOf hash n ! i = 0xff \<longleftrightarrow> length n \<le> i"
  by (auto simp: nth_nameHashesOf computeComponentHash_not_wildcard)

lemma getNameHashCount_of_name:
  "getNameHashCount (header_of_name hash n) = min (length n) 4"
proof -
  let ?hs = "nameHashesOf hash n"
  have "takeWhile (\<lambda>x. x \<noteq> 0xff) ?hs = take (min (length n) 4) ?hs"
  proof (rule takeWhile_eq_take_P_nth)
    show "?hs ! i \<noteq> 0xff" if "i < min (length n) 4" "i < length ?hs" for i
      using that by (simp add: nameHashesOf_wildcard)
    show "\<not> ?hs ! min (length n) 4 \<noteq> 0xff" if "min (length n) 4 < length ?hs"
      using that by (simp add: nameHashesOf_wildcard)
  qed
  then show ?thesis
    by (simp add: getNameHashCount_def header_of_name_def computeNameHashes_def)
qed

section \<open>Round trip\<close>

lemma WriteHton_ReadNtoh_16: "WriteHtonU16 (ReadNtohU16 b) = [b ! 0, b ! 1]"
  unfolding WriteHtonU16_def ReadNtohU16_def list.inject
  by (intro conjI refl; rule bit_word_eqI) (auto simp: bit_simps dest: bit_imp_le_length)

lemma WriteHton_ReadNtoh_32: "WriteHtonU32 (ReadNtohU32 b) = [b ! 0, b ! 1, b ! 2, b ! 3]"
  unfolding WriteHtonU32_def ReadNtohU32_def list.inject
  by (intro conjI refl; rule bit_word_eqI) (auto simp: bit_simps dest: bit_imp_le_length)

lemma Serialize_Deserialize:
  assumes "fst (Deserialize buf h0) = SERIALIZED_SIZE"
  shows "Serialize (snd (Deserialize buf h0)) = take SERIALIZED_SIZE buf"
proof -
  have len: "12 \<le> length buf" and v: "isValidPacketType (buf ! 0)"
    using assms unfolding Deserialize_accepts by (simp_all add: SERIALIZED_SIZE_def)
  define f where "f = (\<lambda>i. buf ! i)"
  have buf: "take 12 buf = map f [0..<12]" using len by (intro nth_equalityI) (auto simp: f_def)
  have "Serialize (snd (Deserialize buf h0)) = [f 0] @ WriteHtonU32 (ReadNtohU32 (drop 1 buf)) @
     WriteHtonU16 (ReadNtohU16 (drop 5 buf)) @ [f 7, f 8, f 9, f 10] @ [f 11]"
    using len v by (simp add: Deserialize_def Serialize_def SERIALIZED_SIZE_def upt_4 f_def)
  also have "\<dots> = take SERIALIZED_SIZE buf"
    using len unfolding WriteHton_ReadNtoh_16 WriteHton_ReadNtoh_32
    by (simp add: SERIALIZED_SIZE_def buf upt_rec f_def) (simp add: numeral_eq_Suc)
  finally show ?thesis .
qed

text \<open>C30. The header survives the wire in both directions: a valid header that is written and read again, with
  any payload behind it, is the same header; a buffer that is accepted is reproduced byte for byte by
  writing what was read.  A buffer is refused exactly when it is shorter than the header or its type byte is
  not a packet type.\<close>

theorem header_roundtrip:
  assumes "header_isValid h" and "fst (Deserialize buf h0) = SERIALIZED_SIZE"
  shows "Deserialize (Serialize h @ payload) h1 = (SERIALIZED_SIZE, h) \<and>
    Serialize (snd (Deserialize buf h0)) = take SERIALIZED_SIZE buf \<and>
    (fst (Deserialize b h0) = 0 \<longleftrightarrow> length b < SERIALIZED_SIZE \<or> \<not> isValidPacketType (b ! 0))"
  using Deserialize_Serialize [OF assms(1)] Serialize_Deserialize [OF assms(2)]
  by (simp add: Deserialize_def Let_def SERIALIZED_SIZE_def)

theorem header_roundtrip_witness:
  "Deserialize (Serialize header_default @ [7]) header_default = (SERIALIZED_SIZE, header_default) \<and>
   Serialize (snd (Deserialize (replicate 13 5) header_default)) = replicate 12 5"
proof -
  have "header_isValid header_default" by (simp add: header_isValid_def header_default_def isValidPacketType_def)
  moreover have "fst (Deserialize (replicate 13 5) header_default) = SERIALIZED_SIZE"
    unfolding Deserialize_accepts by (simp add: SERIALIZED_SIZE_def isValidPacketType_def)
  ultimately have "Deserialize (Serialize header_default @ [7]) header_default = (SERIALIZED_SIZE, header_default) \<and>
      Serialize (snd (Deserialize (replicate 13 5) header_default)) = take SERIALIZED_SIZE (replicate 13 5)"
    using header_roundtrip by blast
  then show ?thesis by (simp add: SERIALIZED_SIZE_def)
qed

end
