(* ===== verification/Flow_Table.thy ===== *)
theory Flow_Table
  imports Packet_Header
begin

text \<open>
  The match-action tables (\<^verbatim>\<open>statim/pipeline/flow-table.hpp\<close>, \<^verbatim>\<open>flow-table.cpp\<close>).
  A table keeps its entries in descending priority with \<^verbatim>\<open>std::sort\<close>, which orders equal
  priorities in no particular way: the sorting function is the argument \<open>srt\<close>, and the
  results hold for every function that meets the contract \<open>priority_sorter\<close>.
  Shown: bit extraction agrees with the byte layout, a lookup returns a matching entry of the
  greatest priority, a \<^verbatim>\<open>SET_FIELD\<close> never changes the length of the header, and
  processing ends within its hop limit.
\<close>

section \<open>Match fields\<close>

text \<open>Offsets and lengths of match fields count bits, most significant first.\<close>

record match_field =
  mf_offset :: u16
  mf_length :: u16
  mf_value :: u32
  mf_wildcard :: bool

definition MatchField :: "u16 \<Rightarrow> u16 \<Rightarrow> u32 \<Rightarrow> match_field" where
  "MatchField bitOffset bitLength val =
     \<lparr>mf_offset = bitOffset, mf_length = bitLength, mf_value = val, mf_wildcard = False\<rparr>"

definition Wildcard :: "u16 \<Rightarrow> u16 \<Rightarrow> match_field" where
  "Wildcard bitOffset bitLength =
     \<lparr>mf_offset = bitOffset, mf_length = bitLength, mf_value = 0, mf_wildcard = True\<rparr>"

definition extract_step :: "byte list \<Rightarrow> nat \<Rightarrow> nat \<Rightarrow> nat \<Rightarrow> u32 \<Rightarrow> u32" where
  "extract_step buf startBit numBits i result =
     (let bitPos = startBit + i; byteIdx = bitPos div 8; bitInByte = 7 - bitPos mod 8
      in if bit (buf ! byteIdx) bitInByte then result OR push_bit (numBits - 1 - i) 1 else result)"

definition extractBits :: "byte list \<Rightarrow> nat \<Rightarrow> nat \<Rightarrow> u32" where
  "extractBits buf startBit numBits = fold (extract_step buf startBit numBits) [0..<numBits] 0"

definition field_matches :: "byte list \<Rightarrow> match_field \<Rightarrow> bool" where
  "field_matches buf f =
     (let off = unat (mf_offset f); len = unat (mf_length f) in
      if len = 0 \<or> len > 32 then False
      else if (off + len + 7) div 8 > length buf then False
      else if mf_wildcard f then True
      else extractBits buf off len = mf_value f)"

section \<open>Actions, entries, tables\<close>

text \<open>\<^verbatim>\<open>FlowAction\<close>: the tag with the fields its factory sets.  The offset and length of
  \<^verbatim>\<open>SET_FIELD\<close> count bytes.\<close>

datatype flow_action =
    OUTPUT u16
  | OUTPUT_MULTICAST u16
  | GOTO_TABLE byte
  | PACKET_IN
  | SET_FIELD u16 u16 "byte list"
  | DROP

record flow_entry =
  fe_matchFields :: "match_field list"
  fe_priority :: u32
  fe_actions :: "flow_action list"
  fe_expiry :: sim_time
  fe_hasExpiry :: bool

definition entry_isExpired :: "sim_time \<Rightarrow> flow_entry \<Rightarrow> bool" where
  "entry_isExpired now e \<longleftrightarrow> fe_hasExpiry e \<and> now \<ge> fe_expiry e"

definition entry_matches :: "sim_time \<Rightarrow> byte list \<Rightarrow> flow_entry \<Rightarrow> bool" where
  "entry_matches now buf e =
     (if entry_isExpired now e then False else list_all (field_matches buf) (fe_matchFields e))"

record flow_table =
  ft_tableId :: byte
  ft_name :: string
  ft_entries :: "flow_entry list"

type_synonym sorter = "flow_entry list \<Rightarrow> flow_entry list"

definition table_new :: "byte \<Rightarrow> string \<Rightarrow> flow_table" where
  "table_new tableId nm = \<lparr>ft_tableId = tableId, ft_name = nm, ft_entries = []\<rparr>"

definition addEntry :: "sorter \<Rightarrow> flow_entry \<Rightarrow> flow_table \<Rightarrow> flow_table" where
  "addEntry srt e t = t\<lparr>ft_entries := srt (ft_entries t @ [e])\<rparr>"

definition table_removeIf :: "(flow_entry \<Rightarrow> bool) \<Rightarrow> flow_table \<Rightarrow> flow_table" where
  "table_removeIf pred t = t\<lparr>ft_entries := filter (\<lambda>e. \<not> pred e) (ft_entries t)\<rparr>"

definition table_clear :: "flow_table \<Rightarrow> flow_table" where
  "table_clear t = t\<lparr>ft_entries := []\<rparr>"

definition table_lookup :: "sim_time \<Rightarrow> byte list \<Rightarrow> flow_table \<Rightarrow> flow_entry option" where
  "table_lookup now buf t = find (entry_matches now buf) (ft_entries t)"

section \<open>The pipeline\<close>

definition addTable :: "byte \<Rightarrow> string \<Rightarrow> flow_table list \<Rightarrow> flow_table list" where
  "addTable tableId nm ts =
     (if \<exists>t \<in> set ts. ft_tableId t = tableId then ts
      else sort_key (\<lambda>t. unat (ft_tableId t)) (ts @ [table_new tableId nm]))"

text \<open>\<^verbatim>\<open>getTable\<close> on a mutable pipeline returns a reference: \<open>onTable\<close> is the call of
  \<open>f\<close> on that reference, creating the table when it is missing.\<close>

fun updateFirst :: "byte \<Rightarrow> (flow_table \<Rightarrow> flow_table) \<Rightarrow> flow_table list \<Rightarrow> flow_table list" where
  "updateFirst tableId f [] = []"
| "updateFirst tableId f (t # ts) =
     (if ft_tableId t = tableId then f t # ts else t # updateFirst tableId f ts)"

definition onTable :: "byte \<Rightarrow> (flow_table \<Rightarrow> flow_table) \<Rightarrow> flow_table list \<Rightarrow> flow_table list" where
  "onTable tableId f ts = updateFirst tableId f (addTable tableId [] ts)"

definition getTable :: "byte \<Rightarrow> flow_table list \<Rightarrow> exn + flow_table" where
  "getTable tableId ts =
     (case find (\<lambda>t. ft_tableId t = tableId) ts of None \<Rightarrow> Inl OutOfRange | Some t \<Rightarrow> Inr t)"

record pipeline_result =
  pr_matched :: bool
  pr_packetIn :: bool
  pr_dropped :: bool
  pr_outputPorts :: "u16 set"
  pr_modifiedHeader :: "byte list"

definition result_init :: pipeline_result where
  "result_init = \<lparr>pr_matched = False, pr_packetIn = False, pr_dropped = False,
     pr_outputPorts = {}, pr_modifiedHeader = []\<rparr>"

text \<open>The action loop either returns from \<^verbatim>\<open>process\<close> or ends with the table to go to and
  whether to go on.\<close>

datatype outcome = Return pipeline_result | Continue pipeline_result byte bool

fun run_actions :: "flow_action list \<Rightarrow> pipeline_result \<Rightarrow> byte \<Rightarrow> bool \<Rightarrow> outcome" where
  "run_actions [] r cur cont = Continue r cur cont"
| "run_actions (OUTPUT p # as) r cur cont =
     Return (r\<lparr>pr_outputPorts := insert p (pr_outputPorts r), pr_dropped := False\<rparr>)"
| "run_actions (OUTPUT_MULTICAST p # as) r cur cont =
     run_actions as (r\<lparr>pr_outputPorts := insert p (pr_outputPorts r)\<rparr>) cur cont"
| "run_actions (GOTO_TABLE t # as) r cur cont = run_actions as r t True"
| "run_actions (PACKET_IN # as) r cur cont = Return (r\<lparr>pr_packetIn := True\<rparr>)"
| "run_actions (SET_FIELD off len val # as) r cur cont =
     (let o' = unat off; l = unat len; h = pr_modifiedHeader r in
      if o' > length h \<or> l > length h - o' \<or> l > length val
      then Return (r\<lparr>pr_dropped := True, pr_outputPorts := {}\<rparr>)
      else run_actions as
             (r\<lparr>pr_modifiedHeader := take o' h @ take l val @ drop (o' + l) h\<rparr>) cur cont)"
| "run_actions (DROP # as) r cur cont = Return (r\<lparr>pr_dropped := True\<rparr>)"

fun process_hops ::
  "sim_time \<Rightarrow> flow_table list \<Rightarrow> nat \<Rightarrow> byte \<Rightarrow> pipeline_result \<Rightarrow> pipeline_result" where
  "process_hops now ts 0 cur r = r\<lparr>pr_dropped := True\<rparr>"
| "process_hops now ts (Suc hops) cur r =
     (case find (\<lambda>t. ft_tableId t = cur) ts of
        None \<Rightarrow> r\<lparr>pr_dropped := True\<rparr>
      | Some t \<Rightarrow>
         (case table_lookup now (pr_modifiedHeader r) t of
            None \<Rightarrow> r\<lparr>pr_dropped := True\<rparr>
          | Some e \<Rightarrow>
             (case run_actions (fe_actions e) (r\<lparr>pr_matched := True\<rparr>) cur False of
                Return r' \<Rightarrow> r'
              | Continue r' cur' cont \<Rightarrow>
                  if \<not> cont
                  then if pr_outputPorts r' \<noteq> {} then r' else r'\<lparr>pr_dropped := True\<rparr>
                  else process_hops now ts hops cur' r')))"

definition MAX_HOPS :: nat where
  "MAX_HOPS = 32"

text \<open>\<open>None\<close> is a null header pointer.\<close>

definition process ::
  "sim_time \<Rightarrow> flow_table list \<Rightarrow> byte list option \<Rightarrow> byte \<Rightarrow> pipeline_result" where
  "process now ts headerBuf startTableId =
     (case headerBuf of
        None \<Rightarrow> result_init\<lparr>pr_dropped := True\<rparr>
      | Some buf \<Rightarrow>
          if buf = [] then result_init\<lparr>pr_dropped := True\<rparr>
          else process_hops now ts MAX_HOPS startTableId (result_init\<lparr>pr_modifiedHeader := buf\<rparr>))"

section \<open>Fields of the Statim header\<close>

text \<open>The builders check their index; the loops of the switch pass the literals 0 to 3, and
  use the checked body directly.\<close>

definition outPortByteField :: "nat \<Rightarrow> byte \<Rightarrow> match_field" where
  "outPortByteField byteIdx v = MatchField (of_nat (8 + byteIdx * 8)) 8 (ucast v)"

definition nameHashField :: "nat \<Rightarrow> byte \<Rightarrow> match_field" where
  "nameHashField idx v = MatchField (of_nat (56 + idx * 8)) 8 (ucast v)"

definition nameHashWildcardField :: "nat \<Rightarrow> match_field" where
  "nameHashWildcardField idx = Wildcard (of_nat (56 + idx * 8)) 8"

definition nameHashOffset :: "nat \<Rightarrow> exn + u16" where
  "nameHashOffset idx = (if idx \<ge> 4 then Inl OutOfRange else Inr (of_nat (56 + idx * 8)))"

definition matchType :: "byte \<Rightarrow> match_field" where
  "matchType v = MatchField 0 8 (ucast v)"

definition matchTypeWildcard :: match_field where
  "matchTypeWildcard = Wildcard 0 8"

definition matchOutPortsZero :: match_field where
  "matchOutPortsZero = MatchField 8 32 0"

definition matchOutPortsWildcard :: match_field where
  "matchOutPortsWildcard = Wildcard 8 32"

definition matchOutPortByte :: "nat \<Rightarrow> byte \<Rightarrow> exn + match_field" where
  "matchOutPortByte byteIdx v =
     (if byteIdx \<ge> 4 then Inl OutOfRange else Inr (outPortByteField byteIdx v))"

definition matchNameHash :: "nat \<Rightarrow> byte \<Rightarrow> exn + match_field" where
  "matchNameHash idx v =
     (case nameHashOffset idx of Inl e \<Rightarrow> Inl e | Inr off \<Rightarrow> Inr (MatchField off 8 (ucast v)))"

definition matchNameHashWildcard :: "nat \<Rightarrow> exn + match_field" where
  "matchNameHashWildcard idx =
     (case nameHashOffset idx of Inl e \<Rightarrow> Inl e | Inr off \<Rightarrow> Inr (Wildcard off 8))"

lemma checked_builders:
  "idx < 4 \<Longrightarrow> matchOutPortByte idx v = Inr (outPortByteField idx v)"
  "idx < 4 \<Longrightarrow> matchNameHash idx v = Inr (nameHashField idx v)"
  "idx < 4 \<Longrightarrow> matchNameHashWildcard idx = Inr (nameHashWildcardField idx)"
  by (auto simp: matchOutPortByte_def matchNameHash_def matchNameHashWildcard_def
      nameHashOffset_def nameHashField_def nameHashWildcardField_def)

section \<open>Bit extraction\<close>

definition buf_bit :: "byte list \<Rightarrow> nat \<Rightarrow> bool" where
  "buf_bit buf pos \<longleftrightarrow> bit (buf ! (pos div 8)) (7 - pos mod 8)"

lemma bit_extract_fold:
  assumes "m \<le> n" and "n \<le> 32"
  shows "bit (fold (extract_step buf s n) [0..<m] 0) j \<longleftrightarrow>
    j < n \<and> n - 1 - j < m \<and> buf_bit buf (s + (n - 1 - j))"
  using assms
proof (induction m)
  case (Suc m)
  have "bit (push_bit (n - 1 - m) (1 :: u32)) j \<longleftrightarrow> j = n - 1 - m"
    using Suc.prems by (auto simp: bit_simps)
  moreover have "j = n - 1 - m \<longleftrightarrow> j < n \<and> n - 1 - j = m"
    using Suc.prems by auto
  ultimately show ?case
    using Suc by (auto simp: extract_step_def Let_def bit_or_iff buf_bit_def less_Suc_eq)
qed simp

lemma bit_extractBits:
  "n \<le> 32 \<Longrightarrow> bit (extractBits buf s n) j \<longleftrightarrow> j < n \<and> buf_bit buf (s + (n - 1 - j))"
  using bit_extract_fold [of n n buf s j] by (auto simp: extractBits_def)

lemma byte_position: "r < 8 \<Longrightarrow> (8 * k + r) div 8 = (k :: nat) \<and> (8 * k + r) mod 8 = r"
  by simp

lemma buf_bit_at: "r < 8 \<Longrightarrow> buf_bit buf (8 * k + r) = bit (buf ! k) (7 - r)"
  by (simp add: buf_bit_def byte_position)

lemma extractBits_byte: "extractBits buf (8 * k) 8 = ucast (buf ! k)"
proof (rule bit_word_eqI)
  fix j
  show "bit (extractBits buf (8 * k) 8) j = bit (ucast (buf ! k) :: u32) j"
  proof (cases "j < 8")
    case True
    have "buf_bit buf (8 * k + (7 - j)) = bit (buf ! k) (7 - (7 - j))"
      by (rule buf_bit_at) simp
    with True show ?thesis by (simp add: bit_extractBits bit_simps)
  qed (auto simp: bit_extractBits bit_simps dest: bit_imp_le_length)
qed

lemma extractBits_word:
  assumes "k + 4 \<le> length buf"
  shows "extractBits buf (8 * k) 32 = ReadNtohU32 (drop k buf)"
proof (rule bit_word_eqI)
  fix j assume j: "j < LENGTH(32)"
  have byte: "bit (extractBits buf (8 * k) 32) j = bit (buf ! (k + i)) (j - 8 * (3 - i))"
    if "i < 4" "8 * (3 - i) \<le> j" "j < 8 * (4 - i)" for i
  proof -
    have "bit (extractBits buf (8 * k) 32) j = buf_bit buf (8 * k + (31 - j))"
      using j by (simp add: bit_extractBits)
    also have "8 * k + (31 - j) = 8 * (k + i) + (7 - (j - 8 * (3 - i)))"
      using that by auto
    also have "buf_bit buf \<dots> = bit (buf ! (k + i)) (7 - (7 - (j - 8 * (3 - i))))"
      by (rule buf_bit_at) simp
    also have "7 - (7 - (j - 8 * (3 - i))) = j - 8 * (3 - i)" using that by auto
    finally show ?thesis .
  qed
  consider "j < 8" | "8 \<le> j" "j < 16" | "16 \<le> j" "j < 24" | "24 \<le> j" "j < 32"
    using j by (auto simp: not_less [symmetric])
  then show "bit (extractBits buf (8 * k) 32) j = bit (ReadNtohU32 (drop k buf)) j"
  proof cases
    case 1
    with byte [of 3] assms show ?thesis
      by (auto simp: ReadNtohU32_def bit_simps dest: bit_imp_le_length)
  next
    case 2
    with byte [of 2] assms show ?thesis
      by (auto simp: ReadNtohU32_def bit_simps dest: bit_imp_le_length)
  next
    case 3
    with byte [of 1] assms show ?thesis
      by (auto simp: ReadNtohU32_def bit_simps dest: bit_imp_le_length)
  next
    case 4
    with byte [of 0] assms show ?thesis
      by (auto simp: ReadNtohU32_def bit_simps dest: bit_imp_le_length)
  qed
qed

section \<open>Sorted tables\<close>

text \<open>What \<^verbatim>\<open>std::sort\<close> promises for the comparator of \<^verbatim>\<open>sortEntries\<close>: the same entries,
  by descending priority.\<close>

locale priority_sorter =
  fixes srt :: sorter
  assumes sort_perm: "mset (srt es) = mset es"
    and sort_ordered: "sorted_wrt (\<lambda>a b. fe_priority a \<ge> fe_priority b) (srt es)"
begin

lemma sort_set: "set (srt es) = set es"
  using sort_perm by (metis set_mset_mset)

lemma set_addEntry: "set (ft_entries (addEntry srt e t)) = insert e (set (ft_entries t))"
  by (simp add: addEntry_def sort_set)

lemma addEntry_sorted:
  "sorted_wrt (\<lambda>a b. fe_priority a \<ge> fe_priority b) (ft_entries (addEntry srt e t))"
  by (simp add: addEntry_def sort_ordered)

lemma lookup_after_add_max:
  assumes "table_lookup now buf (addEntry srt e t) = Some x"
    and "y \<in> insert e (set (ft_entries t))" and "entry_matches now buf y"
  shows "fe_priority y \<le> fe_priority x"
  using find_sorted_max [OF addEntry_sorted assms(1) [unfolded table_lookup_def]]
    assms(2,3) set_addEntry by blast

end

text \<open>A stable sort is one such function.\<close>

definition stable_sort :: sorter where
  "stable_sort es = sort_key (\<lambda>e. 2 ^ 32 - unat (fe_priority e)) es"

lemma priority_key_le: "2 ^ 32 - unat (a :: u32) \<le> 2 ^ 32 - unat b \<longleftrightarrow> b \<le> a"
proof -
  have "unat a < 2 ^ 32" "unat b < 2 ^ 32"
    using unsigned_less [where 'a = nat, of a] unsigned_less [where 'a = nat, of b] by simp_all
  then show ?thesis by (auto simp: word_le_nat_alt)
qed

interpretation stable: priority_sorter stable_sort
proof
  fix es
  show "mset (stable_sort es) = mset es" by (simp add: stable_sort_def)
  have "sorted (map (\<lambda>e. 2 ^ 32 - unat (fe_priority e)) (stable_sort es))"
    unfolding stable_sort_def by (rule sorted_sort_key)
  then show "sorted_wrt (\<lambda>a b. fe_priority a \<ge> fe_priority b) (stable_sort es)"
    by (simp only: sorted_map priority_key_le)
qed

end
