(* ===== verification/Switch_Pipeline.thy ===== *)
theory Switch_Pipeline
  imports Flow_Table
begin

text \<open>
  The Statim switch (\<^verbatim>\<open>statim/pipeline/switch-pipeline.hpp\<close>, \<^verbatim>\<open>switch-pipeline.cpp\<close>):
  the state table 50, the flow-table FIB 51 and the four tables 52 to 55 that expand the
  output-port bitmap.  Shown: what a packet of each type gets from the pipeline, that the
  bitmap is expanded to exactly its ports, that installing keeps the tables well formed with
  one entry per hash tuple, and that the FIB lookup selects the longest represented prefix.
\<close>

section \<open>State and construction\<close>

abbreviation (input) STATEFUL_MODULE :: u16 where "STATEFUL_MODULE \<equiv> 0xFFFF"

abbreviation (input) NDN_STATE :: byte where "NDN_STATE \<equiv> 50"
abbreviation (input) NDN_FIB :: byte where "NDN_FIB \<equiv> 51"
abbreviation (input) MULTI_BYTE1 :: byte where "MULTI_BYTE1 \<equiv> 52"
abbreviation (input) MULTI_BYTE2 :: byte where "MULTI_BYTE2 \<equiv> 53"
abbreviation (input) MULTI_BYTE3 :: byte where "MULTI_BYTE3 \<equiv> 54"
abbreviation (input) MULTI_BYTE4 :: byte where "MULTI_BYTE4 \<equiv> 55"

record switch_counters =
  pipelineProcessed :: u64
  fibLookupHits :: u64
  fibLookupMisses :: u64
  packetInsSent :: u64
  sw_flowModsApplied :: u64

record switch =
  sw_tables :: "flow_table list"
  sw_counters :: switch_counters

definition switch_new :: switch where
  "switch_new = \<lparr>sw_tables = [], sw_counters = \<lparr>pipelineProcessed = 0, fibLookupHits = 0,
     fibLookupMisses = 0, packetInsSent = 0, sw_flowModsApplied = 0\<rparr>\<rparr>"

definition mkEntry :: "match_field list \<Rightarrow> u32 \<Rightarrow> flow_action list \<Rightarrow> flow_entry" where
  "mkEntry fs prio actions = \<lparr>fe_matchFields = fs, fe_priority = prio,
     fe_actions = actions, fe_expiry = 0, fe_hasExpiry = False\<rparr>"

definition state_entries :: "flow_entry list" where
  "state_entries =
     [mkEntry [matchType INTEREST, matchOutPortsZero] 4500 [GOTO_TABLE NDN_FIB],
      mkEntry [matchType UNPROCESSED, matchOutPortsWildcard] 4000 [OUTPUT STATEFUL_MODULE],
      mkEntry [matchType INTEREST, matchOutPortsWildcard] 4000 [GOTO_TABLE MULTI_BYTE1],
      mkEntry [matchType DATA, matchOutPortsWildcard] 4000 [GOTO_TABLE MULTI_BYTE1],
      mkEntry [matchType CONTROL, matchOutPortsWildcard] 3500 [PACKET_IN],
      mkEntry [matchType SELF_LEARNING_DISCOVERY, matchOutPortsWildcard] 3000 [GOTO_TABLE NDN_FIB]]"

definition fib_default :: flow_entry where
  "fib_default = mkEntry [] 0 [DROP]"

text \<open>The ports of one byte of the bitmap: bit \<open>8 - i\<close> of byte \<open>byteIndex\<close> is port
  \<open>byteIndex * 8 + i\<close>.\<close>

definition byte_ports :: "nat \<Rightarrow> byte \<Rightarrow> u16 list" where
  "byte_ports byteIndex byteVal =
     map (\<lambda>i. of_nat (byteIndex * 8 + i)) (filter (\<lambda>i. bit byteVal (8 - i)) [1..<9])"

definition multicast_entry :: "nat \<Rightarrow> byte \<Rightarrow> bool \<Rightarrow> byte \<Rightarrow> flow_entry" where
  "multicast_entry byteIndex nextTableId isLast byteVal =
     mkEntry [outPortByteField byteIndex byteVal] 3000
       (SET_FIELD 0 1 [0x00] # map OUTPUT_MULTICAST (byte_ports byteIndex byteVal) @
        (if \<not> isLast then [GOTO_TABLE nextTableId] else []))"

definition initMulticastByteTable ::
  "sorter \<Rightarrow> byte \<Rightarrow> nat \<Rightarrow> byte \<Rightarrow> bool \<Rightarrow> flow_table list \<Rightarrow> flow_table list" where
  "initMulticastByteTable srt tableId byteIndex nextTableId isLast ts =
     fold (\<lambda>byteVal. onTable tableId
             (addEntry srt (multicast_entry byteIndex nextTableId isLast (of_nat byteVal))))
          [0..<256] ts"

definition initPipeline :: "sorter \<Rightarrow> switch \<Rightarrow> switch" where
  "initPipeline srt sw =
     (let ts = sw_tables sw;
          ts = addTable NDN_STATE ''NDNStateTable'' ts;
          ts = addTable NDN_FIB ''NDNFibTable'' ts;
          ts = addTable MULTI_BYTE1 ''MultiByte1Table'' ts;
          ts = addTable MULTI_BYTE2 ''MultiByte2Table'' ts;
          ts = addTable MULTI_BYTE3 ''MultiByte3Table'' ts;
          ts = addTable MULTI_BYTE4 ''MultiByte4Table'' ts;
          ts = fold (\<lambda>e. onTable NDN_STATE (addEntry srt e)) state_entries ts;
          ts = onTable NDN_FIB (addEntry srt fib_default) ts;
          ts = initMulticastByteTable srt MULTI_BYTE1 0 MULTI_BYTE2 False ts;
          ts = initMulticastByteTable srt MULTI_BYTE2 1 MULTI_BYTE3 False ts;
          ts = initMulticastByteTable srt MULTI_BYTE3 2 MULTI_BYTE4 False ts;
          ts = initMulticastByteTable srt MULTI_BYTE4 3 0 True ts
      in sw\<lparr>sw_tables := ts\<rparr>)"

definition serializeHeader :: "packet_header \<Rightarrow> byte list" where
  "serializeHeader h = Serialize h"

definition processPacketBuf :: "sim_time \<Rightarrow> byte list option \<Rightarrow> switch \<Rightarrow> pipeline_result \<times> switch" where
  "processPacketBuf now headerBuf sw =
     (let sw' = sw\<lparr>sw_counters := (sw_counters sw)
                  \<lparr>pipelineProcessed := incr (pipelineProcessed (sw_counters sw))\<rparr>\<rparr>
      in (case headerBuf of
            None \<Rightarrow> (result_init\<lparr>pr_dropped := True\<rparr>, sw')
          | Some buf \<Rightarrow>
              if length buf < SERIALIZED_SIZE then (result_init\<lparr>pr_dropped := True\<rparr>, sw')
              else (process now (sw_tables sw) (Some buf) NDN_STATE, sw')))"

definition processPacket :: "sim_time \<Rightarrow> packet_header \<Rightarrow> switch \<Rightarrow> pipeline_result \<times> switch" where
  "processPacket now h sw = processPacketBuf now (Some (serializeHeader h)) sw"

abbreviation (input) FIB_PRIORITY_BASE :: u32 where "FIB_PRIORITY_BASE \<equiv> 2000"
abbreviation (input) FIB_PRIORITY_STEP :: u32 where "FIB_PRIORITY_STEP \<equiv> 1000"

definition fibPriority :: "byte list \<Rightarrow> u32" where
  "fibPriority nameHashes =
     (let validCount = length (filter (\<lambda>i. nameHashes ! i \<noteq> 0xff)
                                 [0..<min STATIM_NAME_HASH_COUNT (length nameHashes)])
      in FIB_PRIORITY_BASE + of_nat validCount * FIB_PRIORITY_STEP)"

definition fib_fields :: "byte list \<Rightarrow> match_field list" where
  "fib_fields nameHashes =
     matchTypeWildcard #
     map (\<lambda>i. if i < length nameHashes \<and> nameHashes ! i \<noteq> 0xff
              then nameHashField i (nameHashes ! i) else nameHashWildcardField i)
         [0..<STATIM_NAME_HASH_COUNT]"

definition fib_entry :: "byte list \<Rightarrow> u16 \<Rightarrow> sim_time \<Rightarrow> flow_entry" where
  "fib_entry nameHashes outputPort expiry =
     \<lparr>fe_matchFields = fib_fields nameHashes, fe_priority = fibPriority nameHashes,
      fe_actions = [SET_FIELD 0 1 [0x00], OUTPUT_MULTICAST outputPort],
      fe_expiry = (if expiry > 0 then expiry else 0), fe_hasExpiry = (expiry > 0)\<rparr>"

text \<open>The predicate of \<^verbatim>\<open>removeFibEntry\<close>: same priority, and field by field the same wildcard
  flag and, where exact, the same value.\<close>

definition same_fib_key :: "byte list \<Rightarrow> flow_entry \<Rightarrow> bool" where
  "same_fib_key nameHashes e \<longleftrightarrow>
     (if fe_priority e \<noteq> fibPriority nameHashes then False
      else if length (fe_matchFields e) \<noteq> length (fib_fields nameHashes) then False
      else list_all2 (\<lambda>f g. mf_wildcard f = mf_wildcard g \<and>
                            \<not> (\<not> mf_wildcard f \<and> mf_value f \<noteq> mf_value g))
             (fe_matchFields e) (fib_fields nameHashes))"

definition removeFibEntry :: "byte list \<Rightarrow> switch \<Rightarrow> switch" where
  "removeFibEntry nameHashes sw =
     sw\<lparr>sw_tables := onTable NDN_FIB (table_removeIf (same_fib_key nameHashes)) (sw_tables sw)\<rparr>"

definition installFibEntry ::
  "sorter \<Rightarrow> byte list \<Rightarrow> u16 \<Rightarrow> sim_time \<Rightarrow> switch \<Rightarrow> switch" where
  "installFibEntry srt nameHashes outputPort expiry sw =
     (let sw = sw\<lparr>sw_counters := (sw_counters sw)
                 \<lparr>sw_flowModsApplied := incr (sw_flowModsApplied (sw_counters sw))\<rparr>\<rparr>;
          e = fib_entry nameHashes outputPort expiry;
          sw = removeFibEntry nameHashes sw
      in sw\<lparr>sw_tables := onTable NDN_FIB (addEntry srt e) (sw_tables sw)\<rparr>)"

record fib_lookup_diagnostic =
  fd_matched :: bool
  fd_matchLength :: nat
  fd_outputPort :: u16

definition action_port :: "flow_action \<Rightarrow> u16 option" where
  "action_port a = (case a of OUTPUT p \<Rightarrow> Some p | OUTPUT_MULTICAST p \<Rightarrow> Some p | _ \<Rightarrow> None)"

definition diagnoseFibLookup ::
  "sim_time \<Rightarrow> packet_header \<Rightarrow> switch \<Rightarrow> exn + fib_lookup_diagnostic" where
  "diagnoseFibLookup now h sw =
     (let none = \<lparr>fd_matched = False, fd_matchLength = 0, fd_outputPort = 0\<rparr> in
      case getTable NDN_FIB (sw_tables sw) of
        Inl e \<Rightarrow> Inl e
      | Inr t \<Rightarrow>
         (case table_lookup now (serializeHeader h) t of
            None \<Rightarrow> Inr none
          | Some e \<Rightarrow>
             (case List.map_filter action_port (fe_actions e) of
                [] \<Rightarrow> Inr none
              | p # _ \<Rightarrow>
                  Inr \<lparr>fd_matched = True,
                       fd_matchLength =
                         length (filter (\<lambda>f. \<not> mf_wildcard f) (drop 1 (fe_matchFields e))),
                       fd_outputPort = p\<rparr>)))"

section \<open>Well-formed switch\<close>

definition prio_sorted :: "flow_entry list \<Rightarrow> bool" where
  "prio_sorted es \<longleftrightarrow> sorted_wrt (\<lambda>a b. fe_priority a \<ge> fe_priority b) es"

definition hashes_ok :: "byte list \<Rightarrow> bool" where
  "hashes_ok hs \<longleftrightarrow> length hs = 4 \<and> (\<forall>i j. i \<le> j \<longrightarrow> j < 4 \<longrightarrow> hs ! i = 0xff \<longrightarrow> hs ! j = 0xff)"

text \<open>The content of the FIB: the default entry and at most one entry per hash tuple.\<close>

definition fib_ok :: "flow_entry list \<Rightarrow> bool" where
  "fib_ok es \<longleftrightarrow> prio_sorted es \<and> fib_default \<in> set es \<and>
     (\<forall>e \<in> set es. e = fib_default \<or> (\<exists>hs p x. hashes_ok hs \<and> e = fib_entry hs p x)) \<and>
     (\<forall>hs p x p' x'. fib_entry hs p x \<in> set es \<longrightarrow> hashes_ok hs \<longrightarrow> fib_entry hs p' x' \<in> set es \<longrightarrow>
        fib_entry hs p x = fib_entry hs p' x')"

definition byte_table_ok :: "nat \<Rightarrow> byte \<Rightarrow> bool \<Rightarrow> flow_table \<Rightarrow> bool" where
  "byte_table_ok i next isLast t \<longleftrightarrow>
     set (ft_entries t) = range (multicast_entry i next isLast)"

text \<open>The six tables in their order, with the fixed content of all but the FIB.\<close>

definition switch_ok :: "switch \<Rightarrow> bool" where
  "switch_ok sw \<longleftrightarrow>
     (\<exists>t0 t1 t2 t3 t4 t5. sw_tables sw = [t0, t1, t2, t3, t4, t5] \<and>
        map ft_tableId [t0, t1, t2, t3, t4, t5] = [50, 51, 52, 53, 54, 55] \<and>
        set (ft_entries t0) = set state_entries \<and> prio_sorted (ft_entries t0) \<and>
        fib_ok (ft_entries t1) \<and>
        byte_table_ok 0 53 False t2 \<and> byte_table_ok 1 54 False t3 \<and>
        byte_table_ok 2 55 False t4 \<and> byte_table_ok 3 0 True t5)"

definition fib_entries :: "switch \<Rightarrow> flow_entry list" where
  "fib_entries sw = ft_entries (sw_tables sw ! 1)"

section \<open>Building the tables\<close>

lemma same_id_updateFirst:
  assumes "\<And>t. ft_tableId (f t) = ft_tableId t"
  shows "map ft_tableId (updateFirst i f ts) = map ft_tableId ts"
  by (induction ts) (auto simp: assms)

lemma updateFirst_comp:
  assumes "\<And>t. ft_tableId (f t) = ft_tableId t"
  shows "updateFirst i g (updateFirst i f ts) = updateFirst i (\<lambda>t. g (f t)) ts"
  by (induction ts) (auto simp: assms)

lemma ids_addEntry [simp]: "ft_tableId (addEntry srt e t) = ft_tableId t"
  by (simp add: addEntry_def)

lemma ids_fold_addEntry [simp]: "ft_tableId (fold (addEntry srt) es t) = ft_tableId t"
  by (induction es arbitrary: t) auto

lemma ids_table_removeIf [simp]: "ft_tableId (table_removeIf P t) = ft_tableId t"
  by (simp add: table_removeIf_def)

lemma onTable_present:
  "i \<in> set (map ft_tableId ts) \<Longrightarrow> onTable i f ts = updateFirst i f ts"
  by (auto simp: onTable_def addTable_def)

lemma fold_onTable:
  assumes "i \<in> set (map ft_tableId ts)"
  shows "fold (\<lambda>e. onTable i (addEntry srt e)) es ts =
    updateFirst i (fold (addEntry srt) es) ts"
  using assms
proof (induction es arbitrary: ts)
  case Nil
  have "updateFirst i (\<lambda>t. t) ts = ts" by (induction ts) auto
  then show ?case by (simp add: id_def)
next
  case (Cons e es)
  let ?ts = "updateFirst i (addEntry srt e) ts"
  have "i \<in> set (map ft_tableId ?ts)"
    using Cons.prems by (simp only: same_id_updateFirst ids_addEntry)
  then show ?case
    using Cons by (simp add: onTable_present updateFirst_comp comp_def)
qed

definition multicast_entries :: "nat \<Rightarrow> byte \<Rightarrow> bool \<Rightarrow> flow_entry list" where
  "multicast_entries k nxt isLast =
     map (\<lambda>v. multicast_entry k nxt isLast (of_nat v)) [0..<256]"

lemma fold_multicast_onTable:
  assumes "i \<in> set (map ft_tableId ts)"
  shows "initMulticastByteTable srt i k nxt isLast ts =
    updateFirst i (fold (addEntry srt)
      (multicast_entries k nxt isLast)) ts"
  using fold_onTable [OF assms, of srt "map (\<lambda>v. multicast_entry k nxt isLast (of_nat v)) [0..<256]"]
  by (simp only: initMulticastByteTable_def multicast_entries_def fold_map comp_def)

lemma all_bytes: "of_nat ` {0..<256} = (UNIV :: byte set)"
proof -
  have "b \<in> of_nat ` {0..<256}" for b :: byte
  proof
    show "b = of_nat (unat b)" by simp
    show "unat b \<in> {0..<256}" using unsigned_less [where 'a = nat, of b] by simp
  qed
  then show ?thesis by auto
qed

context priority_sorter
begin

lemma set_fold_addEntry:
  "set (ft_entries (fold (addEntry srt) es t)) = set (ft_entries t) \<union> set es"
  by (induction es arbitrary: t) (auto simp: set_addEntry)

lemma fold_addEntry_sorted:
  "es \<noteq> [] \<Longrightarrow> prio_sorted (ft_entries (fold (addEntry srt) es t))"
proof (induction es arbitrary: t)
  case (Cons e es)
  then show ?case
    by (cases es) (auto simp: prio_sorted_def addEntry_sorted)
qed simp

lemma set_multicast:
  "set (ft_entries (fold (addEntry srt) (multicast_entries k nxt isLast) (table_new i nm))) =
   range (multicast_entry k nxt isLast)"
proof -
  have "range (multicast_entry k nxt isLast) = multicast_entry k nxt isLast ` of_nat ` {0..<256}"
    by (simp only: all_bytes)
  then show ?thesis
    by (simp add: multicast_entries_def set_fold_addEntry table_new_def image_image)
qed

lemma initPipeline_tables:
  "sw_tables (initPipeline srt switch_new) =
     [fold (addEntry srt) state_entries (table_new 50 ''NDNStateTable''),
      addEntry srt fib_default (table_new 51 ''NDNFibTable''),
      fold (addEntry srt) (multicast_entries 0 53 False)
        (table_new 52 ''MultiByte1Table''),
      fold (addEntry srt) (multicast_entries 1 54 False)
        (table_new 53 ''MultiByte2Table''),
      fold (addEntry srt) (multicast_entries 2 55 False)
        (table_new 54 ''MultiByte3Table''),
      fold (addEntry srt) (multicast_entries 3 0 True)
        (table_new 55 ''MultiByte4Table'')]"
proof -
  have tables: "addTable 55 ''MultiByte4Table'' (addTable 54 ''MultiByte3Table''
      (addTable 53 ''MultiByte2Table'' (addTable 52 ''MultiByte1Table''
      (addTable 51 ''NDNFibTable'' (addTable 50 ''NDNStateTable'' []))))) =
    [table_new 50 ''NDNStateTable'', table_new 51 ''NDNFibTable'',
     table_new 52 ''MultiByte1Table'', table_new 53 ''MultiByte2Table'',
     table_new 54 ''MultiByte3Table'', table_new 55 ''MultiByte4Table'']"
    by (simp add: addTable_def table_new_def)
  have id: "ft_tableId (table_new i nm) = i" for i nm by (simp add: table_new_def)
  have upd: "updateFirst i f (t # ts) = (if ft_tableId t = i then f t # ts else t # updateFirst i f ts)"
    for i f t ts by simp
  have mem: "i \<in> set (map ft_tableId (t # ts)) \<longleftrightarrow> i = ft_tableId t \<or> i \<in> set (map ft_tableId ts)"
    for i t ts by simp
  have ne: "(51 :: byte) \<noteq> 50" "(52 :: byte) \<noteq> 50" "(52 :: byte) \<noteq> 51" "(53 :: byte) \<noteq> 50"
      "(53 :: byte) \<noteq> 51" "(53 :: byte) \<noteq> 52" "(54 :: byte) \<noteq> 50" "(54 :: byte) \<noteq> 51"
      "(54 :: byte) \<noteq> 52" "(54 :: byte) \<noteq> 53" "(55 :: byte) \<noteq> 50" "(55 :: byte) \<noteq> 51"
      "(55 :: byte) \<noteq> 52" "(55 :: byte) \<noteq> 53" "(55 :: byte) \<noteq> 54" by simp_all
  show ?thesis
    unfolding initPipeline_def switch_new_def Let_def switch.simps switch.update_convs tables
    by (simp only: fold_onTable fold_multicast_onTable onTable_present mem upd id ne ne [symmetric]
        ids_addEntry ids_fold_addEntry if_True if_False HOL.simp_thms)
qed

lemma initPipeline_ok: "switch_ok (initPipeline srt switch_new)"
proof -
  have fib: "fib_ok (ft_entries (addEntry srt fib_default (table_new 51 ''NDNFibTable'')))"
    using addEntry_sorted [of fib_default "table_new 51 ''NDNFibTable''"]
    unfolding fib_ok_def prio_sorted_def
    by (auto simp: set_addEntry table_new_def fib_default_def fib_entry_def mkEntry_def)
  have state: "prio_sorted (ft_entries (fold (addEntry srt) state_entries t))" for t
    by (rule fold_addEntry_sorted) (simp add: state_entries_def)
  have sset: "set (ft_entries (fold (addEntry srt) state_entries (table_new 50 ''NDNStateTable''))) =
      set state_entries"
    by (simp add: set_fold_addEntry table_new_def)
  show ?thesis
    unfolding switch_ok_def initPipeline_tables byte_table_ok_def
    apply (intro exI conjI)
            apply (rule refl)
           apply (simp add: table_new_def)
    using fib state sset by (simp_all add: set_multicast)
qed

end

section \<open>Matching a header\<close>

text \<open>A header buffer in the pipeline: the twelve serialized bytes, whose type byte the
  actions may have cleared.\<close>

abbreviation (input) buf_ports :: "byte list \<Rightarrow> u32" where
  "buf_ports buf \<equiv> ReadNtohU32 (drop 1 buf)"

lemma field_byte:
  assumes "length buf = 12" and "k < 12"
  shows "field_matches buf (MatchField (of_nat (8 * k)) 8 (ucast v)) \<longleftrightarrow> buf ! k = v"
    and "field_matches buf (Wildcard (of_nat (8 * k)) 8)"
proof -
  have off: "unat (of_nat (8 * k) :: u16) = 8 * k"
    unfolding unat_of_nat using assms(2) by simp
  have fits: "\<not> length buf < (8 * k + 8 + 7) div 8"
    using assms by linarith
  show "field_matches buf (MatchField (of_nat (8 * k)) 8 (ucast v)) \<longleftrightarrow> buf ! k = v"
    unfolding field_matches_def Let_def MatchField_def match_field.simps off
    using fits by (simp add: extractBits_byte ucast_byte_eq)
  show "field_matches buf (Wildcard (of_nat (8 * k)) 8)"
    unfolding field_matches_def Let_def Wildcard_def match_field.simps off using fits by simp
qed

lemma matchType_iff:
  "length buf = 12 \<Longrightarrow> field_matches buf (matchType v) \<longleftrightarrow> buf ! 0 = v"
  "length buf = 12 \<Longrightarrow> field_matches buf matchTypeWildcard"
  using field_byte [of buf 0] by (simp_all add: matchType_def matchTypeWildcard_def)

lemma outPortByteField_iff:
  "length buf = 12 \<Longrightarrow> i < 4 \<Longrightarrow> field_matches buf (outPortByteField i v) \<longleftrightarrow> buf ! (1 + i) = v"
  using field_byte(1) [of buf "1 + i" v] by (simp add: outPortByteField_def mult.commute)

lemma nameHashField_iff:
  "length buf = 12 \<Longrightarrow> i < 4 \<Longrightarrow> field_matches buf (nameHashField i v) \<longleftrightarrow> buf ! (7 + i) = v"
  "length buf = 12 \<Longrightarrow> i < 4 \<Longrightarrow> field_matches buf (nameHashWildcardField i)"
  using field_byte [of buf "7 + i"]
  by (simp_all add: nameHashField_def nameHashWildcardField_def mult.commute)

lemma matchOutPorts_iff:
  "length buf = 12 \<Longrightarrow> field_matches buf matchOutPortsZero \<longleftrightarrow> buf_ports buf = 0"
  "length buf = 12 \<Longrightarrow> field_matches buf matchOutPortsWildcard"
  using extractBits_word [of 1 buf]
  by (simp_all add: matchOutPortsZero_def matchOutPortsWildcard_def field_matches_def
      MatchField_def Wildcard_def Let_def)

lemmas header_fields = matchType_iff outPortByteField_iff nameHashField_iff matchOutPorts_iff

lemma mkEntry_matches:
  "entry_matches now buf (mkEntry fs prio as) \<longleftrightarrow> list_all (field_matches buf) fs"
  by (simp add: entry_matches_def entry_isExpired_def mkEntry_def)

section \<open>The bitmap tables\<close>

text \<open>The ports of a bitmap: the most significant bit is port 1, the least significant one is
  port 32.\<close>

definition mask_ports :: "u32 \<Rightarrow> u16 set" where
  "mask_ports m = of_nat ` {p. 1 \<le> p \<and> p \<le> 32 \<and> bit m (32 - p)}"

lemma set_byte_ports:
  "set (byte_ports i v) = (\<lambda>k. of_nat (i * 8 + k)) ` {k. 1 \<le> k \<and> k \<le> 8 \<and> bit v (8 - k)}"
  by (auto simp: byte_ports_def)

text \<open>The bytes of the bitmap hold its bits in order.\<close>

lemma ReadNtohU32_bit:
  assumes "4 \<le> length b" and "i < 4" and "k < 8"
  shows "bit (ReadNtohU32 b) (8 * (3 - i) + k) = bit (b ! i) k"
proof -
  have "i = 0 \<or> i = 1 \<or> i = 2 \<or> i = 3" using assms(2) by auto
  with assms(3) show ?thesis
    by (auto simp: ReadNtohU32_def bit_simps dest: bit_imp_le_length)
qed

lemma byte_ports_mask:
  assumes "4 \<le> length b"
  shows "(\<Union>i \<in> {0..<4}. set (byte_ports i (b ! i))) = mask_ports (ReadNtohU32 b)"
proof -
  let ?m = "ReadNtohU32 b"
  have eq: "bit (b ! i) (8 - k) = bit ?m (32 - (i * 8 + k))"
    if "i < 4" "1 \<le> k" "k \<le> 8" for i k
    using ReadNtohU32_bit [OF assms that(1), of "8 - k"] that
    by (simp add: algebra_simps)
  have split: "\<exists>i < 4. \<exists>k. 1 \<le> k \<and> k \<le> 8 \<and> p = i * 8 + k" if "1 \<le> p" "p \<le> 32" for p :: nat
  proof (intro exI conjI)
    show "(p - 1) div 8 < 4" using that by auto
    show "1 \<le> (p - 1) mod 8 + 1" by simp
    show "(p - 1) mod 8 + 1 \<le> 8" using mod_less_divisor [of 8 "p - 1"] by linarith
    show "p = (p - 1) div 8 * 8 + ((p - 1) mod 8 + 1)"
      using that div_mult_mod_eq [of "p - 1" 8] by linarith
  qed
  have images: "(\<Union>i \<in> I. (\<lambda>k. of_nat (i * 8 + k) :: u16) ` A i) =
      of_nat ` (\<Union>i \<in> I. (\<lambda>k. i * 8 + k) ` A i)" for I A
    by (simp only: image_UN image_image)
  show ?thesis
    unfolding set_byte_ports mask_ports_def images
  proof (rule arg_cong [where f = "image of_nat"], rule set_eqI)
    fix p
    show "p \<in> (\<Union>i \<in> {0..<4}. (\<lambda>k. i * 8 + k) ` {k. 1 \<le> k \<and> k \<le> 8 \<and> bit (b ! i) (8 - k)}) \<longleftrightarrow>
        p \<in> {p. 1 \<le> p \<and> p \<le> 32 \<and> bit ?m (32 - p)}"
    proof
      assume p: "p \<in> {p. 1 \<le> p \<and> p \<le> 32 \<and> bit ?m (32 - p)}"
      then obtain i k where "i < 4" "1 \<le> k" "k \<le> 8" "p = i * 8 + k" using split by blast
      with p show "p \<in> (\<Union>i \<in> {0..<4}. (\<lambda>k. i * 8 + k) `
          {k. 1 \<le> k \<and> k \<le> 8 \<and> bit (b ! i) (8 - k)})"
        by (intro UN_I [of i] image_eqI [of _ _ k]) (auto simp: eq)
    qed (auto simp: eq)
  qed
qed

definition byte_out :: "nat \<Rightarrow> byte list \<Rightarrow> u16 set" where
  "byte_out i buf = set (byte_ports i (buf ! (1 + i)))"

lemma byte_out_clear_type [simp]: "byte_out i (buf[0 := v]) = byte_out i buf"
  by (simp add: byte_out_def)

lemma byte_out_mask:
  assumes "5 \<le> length buf"
  shows "byte_out 0 buf \<union> (byte_out 1 buf \<union> (byte_out 2 buf \<union> byte_out 3 buf)) =
    mask_ports (buf_ports buf)"
proof -
  have out: "byte_out i buf = set (byte_ports i (drop 1 buf ! i))" for i
    using assms by (simp add: byte_out_def)
  have four: "{0..<4} = {0, 1, 2, 3 :: nat}" by auto
  show ?thesis
    using byte_ports_mask [of "drop 1 buf"] assms
    unfolding out four by (simp only: UN_insert UN_empty Un_empty_right length_drop)
qed

lemma run_multicast:
  "run_actions (map OUTPUT_MULTICAST ps @ as) r cur c =
     run_actions as (r\<lparr>pr_outputPorts := pr_outputPorts r \<union> set ps\<rparr>) cur c"
  by (induction ps arbitrary: r) auto

lemma run_clear_type:
  "length (pr_modifiedHeader r) = 12 \<Longrightarrow>
   run_actions (SET_FIELD 0 1 [0] # as) r cur c =
     run_actions as (r\<lparr>pr_modifiedHeader := (pr_modifiedHeader r)[0 := 0]\<rparr>) cur c"
  by (cases "pr_modifiedHeader r") (auto simp: Let_def)

lemma byte_table_lookup:
  assumes "byte_table_ok i nxt isLast t" and "length buf = 12" and "i < 4"
  shows "table_lookup now buf t = Some (multicast_entry i nxt isLast (buf ! (1 + i)))"
  unfolding table_lookup_def
proof (rule find_unique)
  show "multicast_entry i nxt isLast (buf ! (1 + i)) \<in> set (ft_entries t)"
    using assms(1) by (auto simp: byte_table_ok_def)
qed (use assms in \<open>auto simp: byte_table_ok_def multicast_entry_def mkEntry_matches header_fields\<close>)

lemma process_hops_byte:
  assumes "find (\<lambda>t. ft_tableId t = cur) ts = Some t" and "byte_table_ok i nxt isLast t" and "i < 4"
    and len: "length (pr_modifiedHeader r) = 12"
  shows "process_hops now ts (Suc n) cur r =
    (let r' = r\<lparr>pr_matched := True, pr_modifiedHeader := (pr_modifiedHeader r)[0 := 0],
          pr_outputPorts := pr_outputPorts r \<union> byte_out i (pr_modifiedHeader r)\<rparr>
     in if isLast then (if pr_outputPorts r' = {} then r'\<lparr>pr_dropped := True\<rparr> else r')
        else process_hops now ts n nxt r')"
  using assms byte_table_lookup [OF assms(2) len assms(3), of now]
  by (cases isLast)
    (simp_all add: multicast_entry_def mkEntry_def run_clear_type run_multicast
      run_multicast [of _ "[]", simplified] Let_def byte_out_def
      del: run_actions.simps(6))

text \<open>Entered at its first table, the chain of the four bitmap tables outputs to exactly the
  ports of the bitmap, and drops when there is none.\<close>

lemma process_bitmap:
  assumes "switch_ok sw" and len: "length (pr_modifiedHeader r) = 12"
    and "pr_outputPorts r = {}" and "\<not> pr_dropped r"
  shows "process_hops now (sw_tables sw) (Suc (Suc (Suc (Suc n)))) 52 r =
    r\<lparr>pr_matched := True, pr_modifiedHeader := (pr_modifiedHeader r)[0 := 0],
      pr_outputPorts := mask_ports (buf_ports (pr_modifiedHeader r)),
      pr_dropped := mask_ports (buf_ports (pr_modifiedHeader r)) = {}\<rparr>"
proof -
  obtain t0 t1 t2 t3 t4 t5 where ts: "sw_tables sw = [t0, t1, t2, t3, t4, t5]"
    and ids: "map ft_tableId [t0, t1, t2, t3, t4, t5] = [50, 51, 52, 53, 54, 55]"
    and ok: "byte_table_ok 0 53 False t2" "byte_table_ok 1 54 False t3"
      "byte_table_ok 2 55 False t4" "byte_table_ok 3 0 True t5"
    using assms(1) by (auto simp: switch_ok_def)
  have finds: "find (\<lambda>t. ft_tableId t = 52) (sw_tables sw) = Some t2"
    "find (\<lambda>t. ft_tableId t = 53) (sw_tables sw) = Some t3"
    "find (\<lambda>t. ft_tableId t = 54) (sw_tables sw) = Some t4"
    "find (\<lambda>t. ft_tableId t = 55) (sw_tables sw) = Some t5"
    using ids by (simp_all add: ts)
  note steps = process_hops_byte [OF finds(1) ok(1)] process_hops_byte [OF finds(2) ok(2)]
    process_hops_byte [OF finds(3) ok(3)] process_hops_byte [OF finds(4) ok(4)]
  show ?thesis
    using assms(3,4) len byte_out_mask [of "pr_modifiedHeader r"]
    by (simp add: steps Let_def Un_assoc del: process_hops.simps)
qed

section \<open>The state table\<close>

text \<open>The entry of the state table that a header of type \<open>ty\<close> with bitmap \<open>m\<close> selects.\<close>

definition state_entry :: "byte \<Rightarrow> u32 \<Rightarrow> flow_action option" where
  "state_entry ty m =
     (if ty = INTEREST then Some (GOTO_TABLE (if m = 0 then NDN_FIB else MULTI_BYTE1))
      else if ty = UNPROCESSED then Some (OUTPUT STATEFUL_MODULE)
      else if ty = DATA then Some (GOTO_TABLE MULTI_BYTE1)
      else if ty = CONTROL then Some PACKET_IN
      else if ty = SELF_LEARNING_DISCOVERY then Some (GOTO_TABLE NDN_FIB)
      else None)"

lemma state_entries_permanent: "e \<in> set state_entries \<Longrightarrow> \<not> fe_hasExpiry e"
  by (simp add: state_entries_def mkEntry_def) (elim disjE; simp)

lemma state_entries_match:
  "e \<in> set state_entries \<Longrightarrow>
   entry_matches now buf e \<longleftrightarrow> list_all (field_matches buf) (fe_matchFields e)"
  by (simp add: entry_matches_def entry_isExpired_def state_entries_permanent)

lemma state_lookup:
  assumes "set (ft_entries t) = set state_entries" and "prio_sorted (ft_entries t)"
    and len: "length buf = 12"
  shows "map_option fe_actions (table_lookup now buf t) =
    map_option (\<lambda>a. [a]) (state_entry (buf ! 0) (buf_ports buf))"
proof -
  let ?fits = "filter (\<lambda>e. list_all (field_matches buf) (fe_matchFields e)) state_entries"
  have best: "table_lookup now buf t = Some e"
    if "e \<in> set ?fits" "\<And>z. z \<in> set ?fits \<Longrightarrow> z \<noteq> e \<Longrightarrow> fe_priority z < fe_priority e" for e
    unfolding table_lookup_def
    by (rule find_best [where key = fe_priority])
      (use assms that in \<open>auto simp: prio_sorted_def state_entries_match\<close>)
  have none: "table_lookup now buf t = None" if "?fits = []"
    unfolding table_lookup_def
    by (rule find_None) (use assms that in \<open>auto simp: state_entries_match filter_empty_conv\<close>)
  have fits: "?fits = 
    (if buf ! 0 = 1 \<and> buf_ports buf = 0
     then [mkEntry [matchType INTEREST, matchOutPortsZero] 4500 [GOTO_TABLE NDN_FIB]] else []) @
    (if buf ! 0 = 0 then [mkEntry [matchType UNPROCESSED, matchOutPortsWildcard] 4000 [OUTPUT STATEFUL_MODULE]] else []) @
    (if buf ! 0 = 1 then [mkEntry [matchType INTEREST, matchOutPortsWildcard] 4000 [GOTO_TABLE MULTI_BYTE1]] else []) @
    (if buf ! 0 = 2 then [mkEntry [matchType DATA, matchOutPortsWildcard] 4000 [GOTO_TABLE MULTI_BYTE1]] else []) @
    (if buf ! 0 = 3 then [mkEntry [matchType CONTROL, matchOutPortsWildcard] 3500 [PACKET_IN]] else []) @
    (if buf ! 0 = 5 then [mkEntry [matchType SELF_LEARNING_DISCOVERY, matchOutPortsWildcard] 3000 [GOTO_TABLE NDN_FIB]] else [])"
    by (auto simp: state_entries_def mkEntry_def header_fields len)
  consider "buf ! 0 = 1" "buf_ports buf = 0" | "buf ! 0 = 1" "buf_ports buf \<noteq> 0" | "buf ! 0 = 0"
    | "buf ! 0 = 2" | "buf ! 0 = 3" | "buf ! 0 = 5" | "buf ! 0 \<notin> {0, 1, 2, 3, 5}" by auto
  then show ?thesis
  proof cases
    case 1
    then show ?thesis
      using best [of "mkEntry [matchType INTEREST, matchOutPortsZero] 4500 [GOTO_TABLE NDN_FIB]"]
      unfolding fits by (simp add: state_entry_def mkEntry_def)
  next
    case 7
    then show ?thesis using none unfolding fits by (simp add: state_entry_def)
  qed (use best [of "hd ?fits"] in \<open>unfold fits, simp add: state_entry_def mkEntry_def\<close>)+
qed

section \<open>The FIB\<close>

definition match_len :: "byte list \<Rightarrow> nat" where
  "match_len hs = length (filter (\<lambda>x. x \<noteq> 0xff) hs)"

definition covers :: "byte list \<Rightarrow> byte list \<Rightarrow> bool" where
  "covers hs q \<longleftrightarrow> (\<forall>i < 4. hs ! i \<noteq> 0xff \<longrightarrow> hs ! i = q ! i)"

definition live :: "sim_time \<Rightarrow> sim_time \<Rightarrow> bool" where
  "live now x \<longleftrightarrow> x \<le> 0 \<or> now < x"

lemma hashes_ok_prefix:
  assumes "hashes_ok hs" and "i < 4"
  shows "hs ! i \<noteq> 0xff \<longleftrightarrow> i < match_len hs"
proof -
  have len: "length hs = 4" and down: "\<And>i j. i \<le> j \<Longrightarrow> j < 4 \<Longrightarrow> hs ! i = 0xff \<Longrightarrow> hs ! j = 0xff"
    using assms(1) by (auto simp: hashes_ok_def)
  obtain a b c d where hs: "hs = [a, b, c, d]" using length_4 [OF len] by blast
  have "a = 0xff \<Longrightarrow> b = 0xff" "b = 0xff \<Longrightarrow> c = 0xff" "c = 0xff \<Longrightarrow> d = 0xff"
    using down [of 0 1] down [of 1 2] down [of 2 3] by (simp_all add: hs)
  moreover have "i = 0 \<or> i = 1 \<or> i = 2 \<or> i = 3" using assms(2) by auto
  ultimately show ?thesis by (auto simp: hs match_len_def)
qed

lemma hashes_ok_of_name: "hashes_ok (nameHashesOf hash n)"
  by (auto simp: hashes_ok_def nameHashesOf_wildcard)

lemma match_len_le: "hashes_ok hs \<Longrightarrow> match_len hs \<le> 4"
  by (metis hashes_ok_def length_filter_le match_len_def)

lemma covers_unique:
  assumes "hashes_ok hs" "hashes_ok hs'" "covers hs q" "covers hs' q" "match_len hs = match_len hs'"
  shows "hs = hs'"
proof (rule nth_equalityI)
  show "length hs = length hs'" using assms(1,2) by (simp add: hashes_ok_def)
  fix i assume "i < length hs"
  then have "i < 4" using assms(1) by (simp add: hashes_ok_def)
  with assms hashes_ok_prefix [of hs i] hashes_ok_prefix [of hs' i]
  show "hs ! i = hs' ! i" unfolding covers_def by metis
qed

lemma fibPriority_eq:
  "length hs = 4 \<Longrightarrow> fibPriority hs = of_nat (2000 + match_len hs * 1000)"
proof -
  assume len: "length hs = 4"
  obtain a b c d where "hs = [a, b, c, d]" using length_4 [OF len] by blast
  then show ?thesis by (simp add: fibPriority_def match_len_def upt_4 Let_def)
qed

lemma fibPriority_less:
  assumes "hashes_ok hs" "hashes_ok hs'"
  shows "fibPriority hs < fibPriority hs' \<longleftrightarrow> match_len hs < match_len hs'"
proof -
  have "unat (fibPriority h) = 2000 + match_len h * 1000" if "hashes_ok h" for h
  proof -
    have "fibPriority h = of_nat (2000 + match_len h * 1000)"
      using that by (simp only: fibPriority_eq hashes_ok_def)
    moreover have "(2000 + match_len h * 1000) mod 2 ^ 32 = 2000 + match_len h * 1000"
      using match_len_le [OF that] by (intro mod_less) simp
    ultimately show ?thesis by (simp only: unat_of_nat) simp
  qed
  with assms show ?thesis by (simp add: word_less_nat_alt)
qed

lemma fib_entry_matches:
  assumes "length hs = 4" and len: "length buf = 12"
  shows "entry_matches now buf (fib_entry hs p x) \<longleftrightarrow> live now x \<and> covers hs (drop 7 buf)"
proof -
  have four: "(\<forall>i < 4. P i) \<longleftrightarrow> P 0 \<and> P 1 \<and> P 2 \<and> P (3 :: nat)" for P
    by (auto simp: less_Suc_eq numeral_eq_Suc)
  have at: "drop 7 buf ! i = buf ! (7 + i)" for i using len by simp
  show ?thesis
    using assms unfolding entry_matches_def covers_def four at
    by (auto simp: entry_isExpired_def fib_entry_def fib_fields_def live_def upt_4 header_fields)
qed

lemma fib_default_matches: "entry_matches now buf fib_default"
  by (simp add: fib_default_def mkEntry_matches)

lemma fibPriority_pos: "hashes_ok hs \<Longrightarrow> fe_priority fib_default < fe_priority (fib_entry hs p x)"
proof -
  assume ok: "hashes_ok hs"
  have "fibPriority hs = of_nat (2000 + match_len hs * 1000)"
    using ok by (simp only: fibPriority_eq hashes_ok_def)
  moreover have "(2000 + match_len hs * 1000) mod 2 ^ 32 = 2000 + match_len hs * 1000"
    using match_len_le [OF ok] by (intro mod_less) simp
  ultimately have "unat (fibPriority hs) = 2000 + match_len hs * 1000"
    by (simp only: unat_of_nat) simp
  then show ?thesis
    by (simp add: fib_entry_def fib_default_def mkEntry_def word_less_nat_alt)
qed

text \<open>Which routes the FIB holds: hash tuple, output port, expiry.\<close>

definition has_route :: "flow_entry list \<Rightarrow> byte list \<Rightarrow> u16 \<Rightarrow> sim_time \<Rightarrow> bool" where
  "has_route es hs p x \<longleftrightarrow> hashes_ok hs \<and> fib_entry hs p x \<in> set es"

lemma fib_lookup_longest:
  assumes ok: "fib_ok es" and len: "length buf = 12"
    and route: "has_route es hs p x" "live now x" "covers hs (drop 7 buf)"
    and longest: "\<And>hs' p' x'. has_route es hs' p' x' \<Longrightarrow> live now x' \<Longrightarrow> covers hs' (drop 7 buf) \<Longrightarrow>
      match_len hs' \<le> match_len hs"
  shows "find (entry_matches now buf) es = Some (fib_entry hs p x)"
proof (rule find_best [where key = fe_priority])
  have hs: "hashes_ok hs" "length hs = 4" using route(1) by (auto simp: has_route_def hashes_ok_def)
  show "sorted_wrt (\<lambda>a b. fe_priority b \<le> fe_priority a) es"
    using ok by (simp add: fib_ok_def prio_sorted_def)
  show "fib_entry hs p x \<in> set es" using route(1) by (simp add: has_route_def)
  show "entry_matches now buf (fib_entry hs p x)"
    using route hs len by (simp add: fib_entry_matches)
  fix z assume z: "z \<in> set es" "entry_matches now buf z" "z \<noteq> fib_entry hs p x"
  consider "z = fib_default" | hs' p' x' where "hashes_ok hs'" "z = fib_entry hs' p' x'"
    using ok z(1) unfolding fib_ok_def by blast
  then show "fe_priority z < fe_priority (fib_entry hs p x)"
  proof cases
    case 2
    then have l: "live now x'" "covers hs' (drop 7 buf)"
      using z(2) len by (auto simp: fib_entry_matches hashes_ok_def)
    have r': "has_route es hs' p' x'" using 2 z(1) by (simp add: has_route_def)
    have "match_len hs' \<noteq> match_len hs"
    proof
      assume "match_len hs' = match_len hs"
      then have "hs' = hs" using covers_unique 2(1) hs(1) l(2) route(3) by blast
      then show False
        using ok route(1) z 2 unfolding fib_ok_def has_route_def by blast
    qed
    with longest [OF r' l] have "match_len hs' < match_len hs" by simp
    with 2 hs(1) show ?thesis
      using fibPriority_less [OF 2(1) hs(1)] by (simp add: fib_entry_def)
  qed (use fibPriority_pos hs(1) in auto)
qed

lemma fib_lookup_none:
  assumes ok: "fib_ok es" and len: "length buf = 12"
    and none: "\<And>hs p x. has_route es hs p x \<Longrightarrow> live now x \<Longrightarrow> \<not> covers hs (drop 7 buf)"
  shows "find (entry_matches now buf) es = Some fib_default"
proof (rule find_unique)
  show "fib_default \<in> set es" using ok by (simp add: fib_ok_def)
  show "entry_matches now buf fib_default" by (rule fib_default_matches)
  fix z assume z: "z \<in> set es" "entry_matches now buf z"
  show "z = fib_default"
  proof (rule ccontr)
    assume "z \<noteq> fib_default"
    then obtain hs p x where "hashes_ok hs" "z = fib_entry hs p x"
      using ok z(1) unfolding fib_ok_def by blast
    with z len none [of hs p x] show False
      by (auto simp: fib_entry_matches hashes_ok_def has_route_def)
  qed
qed

section \<open>Installing and removing routes\<close>

lemma same_fib_key_entry:
  assumes "hashes_ok hs" and "hashes_ok hs'"
  shows "same_fib_key hs (fib_entry hs' p x) \<longleftrightarrow> hs' = hs"
proof -
  have len: "length hs = 4" "length hs' = 4" using assms by (auto simp: hashes_ok_def)
  obtain a b c d where h: "hs = [a, b, c, d]" using length_4 [OF len(1)] by blast
  obtain a' b' c' d' where h': "hs' = [a', b', c', d']" using length_4 [OF len(2)] by blast
  have "list_all2 (\<lambda>f g. mf_wildcard f = mf_wildcard g \<and>
      \<not> (\<not> mf_wildcard f \<and> mf_value f \<noteq> mf_value g)) (fib_fields hs') (fib_fields hs) \<longleftrightarrow> hs' = hs"
    unfolding h h'
    by (auto simp: fib_fields_def upt_4 nameHashField_def nameHashWildcardField_def MatchField_def
        Wildcard_def matchTypeWildcard_def ucast_byte_eq)
  then show ?thesis
    by (auto simp: same_fib_key_def fib_entry_def fib_fields_def)
qed

lemma same_fib_key_default: "\<not> same_fib_key hs fib_default"
  by (simp add: same_fib_key_def fib_default_def mkEntry_def fib_fields_def)

lemma filter_fib_ok:
  "fib_ok es \<Longrightarrow> fib_ok (filter (\<lambda>e. \<not> same_fib_key hs e) es)"
  unfolding fib_ok_def prio_sorted_def
  by (auto simp: same_fib_key_default intro: sorted_wrt_filter)

lemma has_route_filter:
  assumes "hashes_ok hs"
  shows "has_route (filter (\<lambda>e. \<not> same_fib_key hs e) es) hs' p x \<longleftrightarrow>
    has_route es hs' p x \<and> hs' \<noteq> hs"
  using assms by (auto simp: has_route_def same_fib_key_entry)

lemma fib_entry_inject:
  assumes "hashes_ok hs" "hashes_ok hs'" "fib_entry hs p x = fib_entry hs' p' x'"
  shows "hs = hs' \<and> p = p' \<and> max x 0 = max x' 0"
proof -
  have "same_fib_key hs' (fib_entry hs p x)"
    unfolding assms(3) using same_fib_key_entry [OF assms(2,2)] by simp
  then have "hs = hs'" using same_fib_key_entry assms(1,2) by blast
  with assms(3) show ?thesis by (auto simp: fib_entry_def max_def split: if_splits)
qed

context priority_sorter
begin

lemma add_fib_ok:
  assumes ok: "fib_ok (ft_entries t)" and hs: "hashes_ok hs"
    and new: "\<And>p' x'. \<not> has_route (ft_entries t) hs p' x'"
  shows "fib_ok (ft_entries (addEntry srt (fib_entry hs p x) t))"
proof -
  have "prio_sorted (ft_entries (addEntry srt (fib_entry hs p x) t))"
    by (simp add: prio_sorted_def addEntry_sorted)
  moreover have "fib_entry h q y = fib_entry h q' y'"
    if h: "hashes_ok h" and "fib_entry h q y \<in> insert (fib_entry hs p x) (set (ft_entries t))"
      "fib_entry h q' y' \<in> insert (fib_entry hs p x) (set (ft_entries t))" for h q y q' y'
  proof (cases "h = hs")
    case True
    with that new show ?thesis by (auto simp: has_route_def)
  next
    case False
    then have "fib_entry h q y \<noteq> fib_entry hs p x" "fib_entry h q' y' \<noteq> fib_entry hs p x"
      using fib_entry_inject h hs by blast+
    with that ok show ?thesis unfolding fib_ok_def by blast
  qed
  ultimately show ?thesis
    using ok hs unfolding fib_ok_def set_addEntry by blast
qed

end

text \<open>Operations on the FIB touch only the second table.\<close>

lemma switch_ok_tables:
  assumes "switch_ok sw"
  obtains t0 t1 ts where "sw_tables sw = t0 # t1 # ts" "ft_tableId t0 = 50" "ft_tableId t1 = 51"
    "fib_ok (ft_entries t1)" "fib_entries sw = ft_entries t1"
    "\<And>g. ft_tableId (g t1) = 51 \<Longrightarrow> onTable 51 g (sw_tables sw) = t0 # g t1 # ts"
    "\<And>t sw'. fib_ok (ft_entries t) \<Longrightarrow> ft_tableId t = 51 \<Longrightarrow> sw_tables sw' = t0 # t # ts \<Longrightarrow>
       switch_ok sw'"
proof -
  obtain t0 t1 t2 t3 t4 t5 where "sw_tables sw = [t0, t1, t2, t3, t4, t5]"
    "map ft_tableId [t0, t1, t2, t3, t4, t5] = [50, 51, 52, 53, 54, 55]"
    "set (ft_entries t0) = set state_entries" "prio_sorted (ft_entries t0)"
    "fib_ok (ft_entries t1)" "byte_table_ok 0 53 False t2" "byte_table_ok 1 54 False t3"
    "byte_table_ok 2 55 False t4" "byte_table_ok 3 0 True t5"
    using assms by (auto simp: switch_ok_def)
  then show ?thesis
    by (intro that [of t0 t1 "[t2, t3, t4, t5]"])
      (auto simp: fib_entries_def onTable_present switch_ok_def)
qed

lemma removeFibEntry_ok:
  assumes "switch_ok sw"
  shows "switch_ok (removeFibEntry hs sw)"
    and "fib_entries (removeFibEntry hs sw) = filter (\<lambda>e. \<not> same_fib_key hs e) (fib_entries sw)"
proof -
  obtain t0 t1 ts where sw: "sw_tables sw = t0 # t1 # ts" "ft_tableId t1 = 51"
    "fib_ok (ft_entries t1)" "fib_entries sw = ft_entries t1"
    "\<And>g. ft_tableId (g t1) = 51 \<Longrightarrow> onTable 51 g (sw_tables sw) = t0 # g t1 # ts"
    "\<And>t sw'. fib_ok (ft_entries t) \<Longrightarrow> ft_tableId t = 51 \<Longrightarrow> sw_tables sw' = t0 # t # ts \<Longrightarrow>
       switch_ok sw'"
    using assms by (rule switch_ok_tables) blast
  let ?t = "table_removeIf (same_fib_key hs) t1"
  have t: "fib_ok (ft_entries ?t)" "ft_tableId ?t = 51"
    using sw(2,3) filter_fib_ok by (auto simp: table_removeIf_def)
  have tables: "sw_tables (removeFibEntry hs sw) = t0 # ?t # ts"
    unfolding removeFibEntry_def using sw(5) [of "table_removeIf (same_fib_key hs)"] t(2) by simp
  show "switch_ok (removeFibEntry hs sw)" by (rule sw(6) [OF t tables])
  show "fib_entries (removeFibEntry hs sw) = filter (\<lambda>e. \<not> same_fib_key hs e) (fib_entries sw)"
    unfolding sw(4) by (simp add: fib_entries_def tables table_removeIf_def)
qed

context priority_sorter
begin

lemma installFibEntry_ok:
  assumes "switch_ok sw" and hs: "hashes_ok hs"
  shows "switch_ok (installFibEntry srt hs p x sw)"
    and "set (fib_entries (installFibEntry srt hs p x sw)) =
      insert (fib_entry hs p x) {e \<in> set (fib_entries sw). \<not> same_fib_key hs e}"
proof -
  let ?c = "sw\<lparr>sw_counters := (sw_counters sw)
                 \<lparr>sw_flowModsApplied := incr (sw_flowModsApplied (sw_counters sw))\<rparr>\<rparr>"
  let ?r = "removeFibEntry hs ?c"
  have c: "switch_ok ?c" "fib_entries ?c = fib_entries sw"
    using assms(1) by (simp_all add: switch_ok_def fib_entries_def)
  have r: "switch_ok ?r" "fib_entries ?r = filter (\<lambda>e. \<not> same_fib_key hs e) (fib_entries sw)"
    using removeFibEntry_ok [OF c(1), of hs] c(2) by simp_all
  obtain t0 t1 ts where t: "sw_tables ?r = t0 # t1 # ts" "ft_tableId t1 = 51"
    "fib_ok (ft_entries t1)" "fib_entries ?r = ft_entries t1"
    "\<And>g. ft_tableId (g t1) = 51 \<Longrightarrow> onTable 51 g (sw_tables ?r) = t0 # g t1 # ts"
    "\<And>t sw'. fib_ok (ft_entries t) \<Longrightarrow> ft_tableId t = 51 \<Longrightarrow> sw_tables sw' = t0 # t # ts \<Longrightarrow>
       switch_ok sw'"
    using r(1) by (rule switch_ok_tables) blast
  let ?t = "addEntry srt (fib_entry hs p x) t1"
  have tables: "sw_tables (installFibEntry srt hs p x sw) = t0 # ?t # ts"
    unfolding installFibEntry_def Let_def using t(5) [of "addEntry srt (fib_entry hs p x)"] t(2)
    by simp
  have "\<not> has_route (ft_entries t1) hs p' x'" for p' x'
    using r(2) t(4) has_route_filter [OF hs, of "fib_entries sw" hs] by simp
  then have "fib_ok (ft_entries ?t)" by (rule add_fib_ok [OF t(3) hs])
  then show "switch_ok (installFibEntry srt hs p x sw)"
    using t(2) by (intro t(6) [OF _ _ tables]) simp_all
  show "set (fib_entries (installFibEntry srt hs p x sw)) =
      insert (fib_entry hs p x) {e \<in> set (fib_entries sw). \<not> same_fib_key hs e}"
    using r(2) t(4) set_addEntry [of "fib_entry hs p x" t1]
    by (simp add: fib_entries_def [of "installFibEntry srt hs p x sw"] tables)
qed

end

section \<open>Packets through the pipeline\<close>

lemma Serialize_nth:
  "Serialize h ! 0 = m_type h" "buf_ports (Serialize h) = m_outPorts h"
  "ReadNtohU32 (drop (Suc 0) (Serialize h)) = m_outPorts h"
  by (simp_all add: Serialize_def)

lemma Serialize_hashes:
  assumes "length (m_nameHashes h) = 4"
  shows "covers hs (drop 7 (Serialize h)) \<longleftrightarrow> covers hs (m_nameHashes h)"
proof -
  have "drop 7 (Serialize h) = map (\<lambda>i. m_nameHashes h ! i) [0..<4] @ [m_switchId h]"
    by (simp add: Serialize_def)
  then show ?thesis by (auto simp: covers_def nth_append)
qed

lemma state_step:
  assumes "switch_ok sw"
  shows "\<exists>t. find (\<lambda>t. ft_tableId t = 50) (sw_tables sw) = Some t \<and>
    map_option fe_actions (table_lookup now (Serialize h) t) =
    map_option (\<lambda>a. [a]) (state_entry (m_type h) (m_outPorts h))"
proof -
  obtain t0 ts where "sw_tables sw = t0 # ts" "ft_tableId t0 = 50"
    "set (ft_entries t0) = set state_entries" "prio_sorted (ft_entries t0)"
    using assms unfolding switch_ok_def by force
  then show ?thesis
    using state_lookup [of t0 "Serialize h" now] by (simp add: Serialize_nth SERIALIZED_SIZE_def)
qed

lemma hops_32: "MAX_HOPS = Suc (Suc (Suc (Suc (Suc 27))))"
  by (simp add: MAX_HOPS_def)

lemma processPacket_process:
  "fst (processPacket now h sw) =
     process_hops now (sw_tables sw) MAX_HOPS 50 (result_init\<lparr>pr_modifiedHeader := Serialize h\<rparr>)"
proof -
  have "Serialize h \<noteq> []" by (simp add: Serialize_def)
  then show ?thesis
    by (simp add: processPacket_def processPacketBuf_def process_def serializeHeader_def)
qed

text \<open>The first hop: the packet type and the bitmap decide.\<close>

lemma state_hop:
  assumes "switch_ok sw"
  shows "process_hops now (sw_tables sw) (Suc n) 50 (result_init\<lparr>pr_modifiedHeader := Serialize h\<rparr>) =
    (let r = result_init\<lparr>pr_matched := True, pr_modifiedHeader := Serialize h\<rparr> in
     case state_entry (m_type h) (m_outPorts h) of
       None \<Rightarrow> result_init\<lparr>pr_modifiedHeader := Serialize h, pr_dropped := True\<rparr>
     | Some (OUTPUT p) \<Rightarrow> r\<lparr>pr_outputPorts := {p}\<rparr>
     | Some PACKET_IN \<Rightarrow> r\<lparr>pr_packetIn := True\<rparr>
     | Some (GOTO_TABLE i) \<Rightarrow> process_hops now (sw_tables sw) n i r)"
proof -
  obtain t where "find (\<lambda>t. ft_tableId t = 50) (sw_tables sw) = Some t"
    "map_option fe_actions (table_lookup now (Serialize h) t) =
     map_option (\<lambda>a. [a]) (state_entry (m_type h) (m_outPorts h))"
    using state_step [OF assms, of now h] by blast
  then show ?thesis
    by (auto simp: result_init_def Let_def state_entry_def split: if_splits option.splits)
qed

lemma fib_hop:
  assumes ok: "switch_ok sw" and hs: "length (m_nameHashes h) = 4"
    and r: "pr_modifiedHeader r = Serialize h" "pr_outputPorts r = {}"
  shows "has_route (fib_entries sw) hs p x \<Longrightarrow> live now x \<Longrightarrow> covers hs (m_nameHashes h) \<Longrightarrow>
    (\<And>hs' p' x'. has_route (fib_entries sw) hs' p' x' \<Longrightarrow> live now x' \<Longrightarrow>
       covers hs' (m_nameHashes h) \<Longrightarrow> match_len hs' \<le> match_len hs) \<Longrightarrow>
    process_hops now (sw_tables sw) (Suc n) 51 r =
      r\<lparr>pr_matched := True, pr_modifiedHeader := (Serialize h)[0 := 0], pr_outputPorts := {p}\<rparr>"
    and "(\<And>hs p x. has_route (fib_entries sw) hs p x \<Longrightarrow> live now x \<Longrightarrow>
       \<not> covers hs (m_nameHashes h)) \<Longrightarrow>
    process_hops now (sw_tables sw) (Suc n) 51 r = r\<lparr>pr_matched := True, pr_dropped := True\<rparr>"
proof -
  obtain t0 t1 ts where t: "sw_tables sw = t0 # t1 # ts" "ft_tableId t0 = 50" "ft_tableId t1 = 51"
    "fib_ok (fib_entries sw)" "fib_entries sw = ft_entries t1"
    using ok by (rule switch_ok_tables) auto
  have find: "find (\<lambda>t. ft_tableId t = 51) (sw_tables sw) = Some t1" using t by simp
  have len: "length (Serialize h) = 12" by (simp add: SERIALIZED_SIZE_def)
  {
    assume *: "has_route (fib_entries sw) hs p x" "live now x" "covers hs (m_nameHashes h)"
      "\<And>hs' p' x'. has_route (fib_entries sw) hs' p' x' \<Longrightarrow> live now x' \<Longrightarrow>
         covers hs' (m_nameHashes h) \<Longrightarrow> match_len hs' \<le> match_len hs"
    have "table_lookup now (Serialize h) t1 = Some (fib_entry hs p x)"
      unfolding table_lookup_def t(5) [symmetric]
      by (rule fib_lookup_longest [OF t(4) len]) (use * in \<open>auto simp: Serialize_hashes [OF hs]\<close>)
    then show "process_hops now (sw_tables sw) (Suc n) 51 r =
        r\<lparr>pr_matched := True, pr_modifiedHeader := (Serialize h)[0 := 0], pr_outputPorts := {p}\<rparr>"
      using find r len by (simp add: fib_entry_def run_clear_type del: run_actions.simps(6))
  next
    assume *: "\<And>hs p x. has_route (fib_entries sw) hs p x \<Longrightarrow> live now x \<Longrightarrow>
       \<not> covers hs (m_nameHashes h)"
    have "table_lookup now (Serialize h) t1 = Some fib_default"
      unfolding table_lookup_def t(5) [symmetric]
      by (rule fib_lookup_none [OF t(4) len]) (use * in \<open>auto simp: Serialize_hashes [OF hs]\<close>)
    then show "process_hops now (sw_tables sw) (Suc n) 51 r = r\<lparr>pr_matched := True, pr_dropped := True\<rparr>"
      using find r by (simp add: fib_default_def mkEntry_def)
  }
qed

lemma mask_ports_empty: "mask_ports m = {} \<longleftrightarrow> m = 0"
proof
  assume e: "mask_ports m = {}"
  show "m = 0"
  proof (rule bit_word_eqI)
    fix n assume "n < LENGTH(32)"
    then have "1 \<le> 32 - n" "32 - n \<le> 32" "32 - (32 - n) = n" by auto
    with e show "bit m n = bit 0 n" unfolding mask_ports_def by (metis (mono_tags, lifting)
        bit_0_eq bot_apply empty_iff image_is_empty mem_Collect_eq bot_bool_def)
  qed
qed (simp add: mask_ports_def)

text \<open>Whether a header is sent to the FIB or to the bitmap tables.\<close>

definition uses_fib :: "packet_header \<Rightarrow> bool" where
  "uses_fib h \<longleftrightarrow> m_type h = INTEREST \<and> m_outPorts h = 0 \<or> m_type h = SELF_LEARNING_DISCOVERY"

definition uses_bitmap :: "packet_header \<Rightarrow> bool" where
  "uses_bitmap h \<longleftrightarrow> m_type h = INTEREST \<and> m_outPorts h \<noteq> 0 \<or> m_type h = DATA"

lemma match_len_of_name: "match_len (nameHashesOf hash n) = min (length n) 4"
proof -
  obtain a b c d where hs: "nameHashesOf hash n = [a, b, c, d]"
    using length_4 [OF length_nameHashesOf, of hash n] by blast
  have "a = 0xff \<longleftrightarrow> length n \<le> 0" "b = 0xff \<longleftrightarrow> length n \<le> 1" "c = 0xff \<longleftrightarrow> length n \<le> 2"
    "d = 0xff \<longleftrightarrow> length n \<le> 3"
    using nameHashesOf_wildcard [of 0 hash n] nameHashesOf_wildcard [of 1 hash n]
      nameHashesOf_wildcard [of 2 hash n] nameHashesOf_wildcard [of 3 hash n]
    by (simp_all add: hs)
  moreover obtain k where "length n = k" by blast
  ultimately show ?thesis unfolding match_len_def hs by auto
qed

lemma covers_prefix:
  assumes "prefix m n"
  shows "covers (nameHashesOf hash m) (nameHashesOf hash n)"
  unfolding covers_def
proof (intro allI impI)
  fix i :: nat assume "i < 4" "nameHashesOf hash m ! i \<noteq> 0xff"
  then have "i < length m" by (simp add: nameHashesOf_wildcard)
  with assms \<open>i < 4\<close> show "nameHashesOf hash m ! i = nameHashesOf hash n ! i"
    by (auto simp: nth_nameHashesOf prefix_def nth_append)
qed

section \<open>One pass through the pipeline\<close>

lemma bitmap_pass:
  assumes "switch_ok sw" and "uses_bitmap h"
  shows "fst (processPacket now h sw) =
    \<lparr>pr_matched = True, pr_packetIn = False, pr_dropped = (m_outPorts h = 0),
     pr_outputPorts = mask_ports (m_outPorts h), pr_modifiedHeader = (Serialize h)[0 := 0]\<rparr>"
proof -
  let ?r = "result_init\<lparr>pr_matched := True, pr_modifiedHeader := Serialize h\<rparr>"
  have "state_entry (m_type h) (m_outPorts h) = Some (GOTO_TABLE 52)"
    using assms(2) by (auto simp: uses_bitmap_def state_entry_def)
  then have "fst (processPacket now h sw) =
      process_hops now (sw_tables sw) (Suc (Suc (Suc (Suc 27)))) 52 ?r"
    unfolding processPacket_process hops_32 state_hop [OF assms(1)] by simp
  also have "\<dots> = ?r\<lparr>pr_matched := True, pr_modifiedHeader := (Serialize h)[0 := 0],
      pr_outputPorts := mask_ports (m_outPorts h), pr_dropped := mask_ports (m_outPorts h) = {}\<rparr>"
    using process_bitmap [OF assms(1), of ?r now 27]
    by (simp add: SERIALIZED_SIZE_def result_init_def Serialize_nth del: process_hops.simps)
  finally show ?thesis by (simp add: result_init_def mask_ports_empty)
qed

lemma fib_pass:
  assumes "switch_ok sw" and "uses_fib h" and "length (m_nameHashes h) = 4"
    and "has_route (fib_entries sw) hs p x" and "live now x" and "covers hs (m_nameHashes h)"
    and "\<And>hs' p' x'. has_route (fib_entries sw) hs' p' x' \<Longrightarrow> live now x' \<Longrightarrow>
       covers hs' (m_nameHashes h) \<Longrightarrow> match_len hs' \<le> match_len hs"
  shows "fst (processPacket now h sw) =
    \<lparr>pr_matched = True, pr_packetIn = False, pr_dropped = False, pr_outputPorts = {p},
     pr_modifiedHeader = (Serialize h)[0 := 0]\<rparr>"
proof -
  let ?r = "result_init\<lparr>pr_matched := True, pr_modifiedHeader := Serialize h\<rparr>"
  have "state_entry (m_type h) (m_outPorts h) = Some (GOTO_TABLE 51)"
    using assms(2) by (auto simp: uses_fib_def state_entry_def)
  then have "fst (processPacket now h sw) =
      process_hops now (sw_tables sw) (Suc (Suc (Suc (Suc 27)))) 51 ?r"
    unfolding processPacket_process hops_32 state_hop [OF assms(1)] by simp
  also have "\<dots> = ?r\<lparr>pr_matched := True, pr_modifiedHeader := (Serialize h)[0 := 0],
      pr_outputPorts := {p}\<rparr>"
    by (rule fib_hop(1) [OF assms(1,3)]) (use assms in \<open>auto simp: result_init_def\<close>)
  finally show ?thesis by (simp add: result_init_def)
qed

lemma miss_pass:
  assumes "switch_ok sw" and "uses_fib h" and "length (m_nameHashes h) = 4"
    and "\<And>hs p x. has_route (fib_entries sw) hs p x \<Longrightarrow> live now x \<Longrightarrow> \<not> covers hs (m_nameHashes h)"
  shows "fst (processPacket now h sw) =
    \<lparr>pr_matched = True, pr_packetIn = False, pr_dropped = True, pr_outputPorts = {},
     pr_modifiedHeader = Serialize h\<rparr>"
proof -
  let ?r = "result_init\<lparr>pr_matched := True, pr_modifiedHeader := Serialize h\<rparr>"
  have "state_entry (m_type h) (m_outPorts h) = Some (GOTO_TABLE 51)"
    using assms(2) by (auto simp: uses_fib_def state_entry_def)
  then have "fst (processPacket now h sw) =
      process_hops now (sw_tables sw) (Suc (Suc (Suc (Suc 27)))) 51 ?r"
    unfolding processPacket_process hops_32 state_hop [OF assms(1)] by simp
  also have "\<dots> = ?r\<lparr>pr_matched := True, pr_dropped := True\<rparr>"
    by (rule fib_hop(2) [OF assms(1,3)]) (use assms in \<open>auto simp: result_init_def\<close>)
  finally show ?thesis by (simp add: result_init_def)
qed

lemma local_pass:
  assumes "switch_ok sw" and "\<not> uses_fib h" and "\<not> uses_bitmap h"
  shows "fst (processPacket now h sw) =
    \<lparr>pr_matched = isValidPacketType (m_type h), pr_packetIn = (m_type h = CONTROL),
     pr_dropped = (\<not> isValidPacketType (m_type h)),
     pr_outputPorts = (if m_type h = UNPROCESSED then {STATEFUL_MODULE} else {}),
     pr_modifiedHeader = Serialize h\<rparr>"
  using assms(2,3) unfolding processPacket_process hops_32 state_hop [OF assms(1)]
  by (auto simp: uses_fib_def uses_bitmap_def state_entry_def result_init_def isValidPacketType_def)

text \<open>The FIB sends no packet on to another table.\<close>

lemma fib_stop:
  assumes "switch_ok sw"
  shows "process_hops now (sw_tables sw) (Suc n) 51 r = process_hops now (sw_tables sw) (Suc m) 51 r"
proof -
  obtain t0 t1 ts where t: "sw_tables sw = t0 # t1 # ts" "ft_tableId t0 = 50" "ft_tableId t1 = 51"
    "fib_ok (fib_entries sw)" "fib_entries sw = ft_entries t1"
    using assms by (rule switch_ok_tables) auto
  have stop: "\<not> cont" if "table_lookup now b t1 = Some e" "run_actions (fe_actions e) r' c False = Continue q c' cont"
    for b e r' q c c' cont
  proof -
    have "e \<in> set (fib_entries sw)" using that(1) t(5) by (auto simp: table_lookup_def find_Some_iff)
    then have "e = fib_default \<or> (\<exists>hs p x. e = fib_entry hs p x)" using t(4) by (auto simp: fib_ok_def)
    then show ?thesis using that(2) by (auto simp: fib_default_def fib_entry_def mkEntry_def Let_def split: if_splits)
  qed
  show ?thesis using t(1-3) by (auto dest: stop split: option.splits outcome.splits)
qed

lemma hops_irrelevant:
  assumes "switch_ok sw"
  shows "process_hops now (sw_tables sw) (Suc (Suc (Suc (Suc (Suc k))))) 50 (result_init\<lparr>pr_modifiedHeader := Serialize h\<rparr>) =
    process_hops now (sw_tables sw) (Suc (Suc (Suc (Suc (Suc m))))) 50 (result_init\<lparr>pr_modifiedHeader := Serialize h\<rparr>)"
proof -
  let ?r = "result_init\<lparr>pr_matched := True, pr_modifiedHeader := Serialize h\<rparr>"
  have same: "process_hops now (sw_tables sw) (Suc (Suc (Suc (Suc k)))) i ?r = process_hops now (sw_tables sw) (Suc (Suc (Suc (Suc m)))) i ?r"
    if "state_entry (m_type h) (m_outPorts h) = Some (GOTO_TABLE i)" for i
  proof -
    have "i = 51 \<or> i = 52" using that by (auto simp: state_entry_def split: if_splits)
    then show ?thesis
    proof
      assume i: "i = 51"
      show ?thesis unfolding i by (rule fib_stop [OF assms])
    next
      assume i: "i = 52"
      have "length (pr_modifiedHeader ?r) = 12" "pr_outputPorts ?r = {}" "\<not> pr_dropped ?r"
        by (simp_all add: SERIALIZED_SIZE_def result_init_def)
      from process_bitmap [OF assms this] show ?thesis unfolding i by (simp only:)
    qed
  qed
  show ?thesis
    unfolding state_hop [OF assms] Let_def
    using same by (simp del: process_hops.simps split: option.split flow_action.split)
qed

section \<open>What the switch promises\<close>

text \<open>The switch that \<^verbatim>\<open>initPipeline\<close> builds is well formed for every behaviour of
  \<^verbatim>\<open>std::sort\<close> on equal priorities: six tables in order, the fixed entries of the state
  and bitmap tables, and a FIB with no route.\<close>

lemma initPipeline_well_formed:
  assumes "priority_sorter srt"
  shows "switch_ok (initPipeline srt switch_new) \<and>
    set (fib_entries (initPipeline srt switch_new)) = {fib_default}"
  using priority_sorter.initPipeline_ok [OF assms] priority_sorter.set_addEntry [OF assms]
  by (simp add: fib_entries_def priority_sorter.initPipeline_tables [OF assms] table_new_def)

text \<open>A Data packet, or an Interest with a non-zero bitmap, leaves the pipeline on exactly
  the ports of its bitmap (bit \<open>32 - p\<close> is port \<open>p\<close>); it is dropped exactly when the bitmap
  is empty, is never handed to the controller, and its type byte is cleared.\<close>

lemma processPacket_bitmap:
  assumes "switch_ok sw" and "uses_bitmap h"
  shows "fst (processPacket now h sw) =
    \<lparr>pr_matched = True, pr_packetIn = False, pr_dropped = (m_outPorts h = 0),
     pr_outputPorts = mask_ports (m_outPorts h), pr_modifiedHeader = (Serialize h)[0 := 0]\<rparr>"
  by (rule bitmap_pass [OF assms])

definition sample_switch :: switch where
  "sample_switch = initPipeline stable_sort switch_new"

lemma sample_switch_ok: "switch_ok sample_switch"
  unfolding sample_switch_def by (rule stable.initPipeline_ok)

text \<open>The hop limit is never the reason for a drop: a packet visits at most five tables of a well-formed switch, so
  every limit from five on gives the result of \<^verbatim>\<open>processPacket\<close>, whose limit is 32.\<close>

lemma hop_limit_unreached:
  assumes "switch_ok sw" and "5 \<le> limit"
  shows "process_hops now (sw_tables sw) limit 50 (result_init\<lparr>pr_modifiedHeader := Serialize h\<rparr>) =
    fst (processPacket now h sw)"
proof -
  define k where "k = limit - 5"
  then have k: "limit = Suc (Suc (Suc (Suc (Suc k))))" using assms(2) by simp
  show ?thesis unfolding processPacket_process hops_32 k by (rule hops_irrelevant [OF assms(1)])
qed

text \<open>C11. A self-learning discovery packet, or an Interest without bitmap, is output on the port
  of the live route with the longest hash tuple that covers the packet's tuple, whichever way
  \<^verbatim>\<open>std::sort\<close> ordered the entries.\<close>

theorem processPacket_longest_prefix:
  assumes "switch_ok sw" and "uses_fib h" and "length (m_nameHashes h) = 4"
    and "has_route (fib_entries sw) hs p x" and "live now x" and "covers hs (m_nameHashes h)"
    and "\<And>hs' p' x'. has_route (fib_entries sw) hs' p' x' \<Longrightarrow> live now x' \<Longrightarrow>
       covers hs' (m_nameHashes h) \<Longrightarrow> match_len hs' \<le> match_len hs"
  shows "fst (processPacket now h sw) =
    \<lparr>pr_matched = True, pr_packetIn = False, pr_dropped = False, pr_outputPorts = {p},
     pr_modifiedHeader = (Serialize h)[0 := 0]\<rparr>"
  by (rule fib_pass [OF assms])

text \<open>With no live route that covers its tuple such a packet is dropped with its header
  unchanged.\<close>

lemma processPacket_no_route:
  assumes "switch_ok sw" and "uses_fib h" and "length (m_nameHashes h) = 4"
    and "\<And>hs p x. has_route (fib_entries sw) hs p x \<Longrightarrow> live now x \<Longrightarrow> \<not> covers hs (m_nameHashes h)"
  shows "fst (processPacket now h sw) =
    \<lparr>pr_matched = True, pr_packetIn = False, pr_dropped = True, pr_outputPorts = {},
     pr_modifiedHeader = Serialize h\<rparr>"
  by (rule miss_pass [OF assms])

lemma sample_no_route: "\<not> has_route (fib_entries sample_switch) hs p x"
proof -
  have "set (fib_entries sample_switch) = {fib_default}"
    by (simp add: fib_entries_def sample_switch_def stable.initPipeline_tables
        stable.set_addEntry table_new_def)
  then show ?thesis
    by (auto simp: has_route_def fib_entry_def fib_default_def mkEntry_def fib_fields_def)
qed

text \<open>The other packet types: an unprocessed packet goes to the stateful module's reserved
  port only, a control packet becomes a packet-in, any other type byte is dropped, and none
  of them has its header changed.\<close>

lemma processPacket_local:
  assumes "switch_ok sw" and "\<not> uses_fib h" and "\<not> uses_bitmap h"
  shows "fst (processPacket now h sw) =
    \<lparr>pr_matched = isValidPacketType (m_type h), pr_packetIn = (m_type h = CONTROL),
     pr_dropped = (\<not> isValidPacketType (m_type h)),
     pr_outputPorts = (if m_type h = UNPROCESSED then {STATEFUL_MODULE} else {}),
     pr_modifiedHeader = Serialize h\<rparr>"
  by (rule local_pass [OF assms])

lemma installed_route:
  assumes "priority_sorter srt" and "switch_ok sw" and "hashes_ok hs"
  shows "switch_ok (installFibEntry srt hs p x sw) \<and>
    (has_route (fib_entries (installFibEntry srt hs p x sw)) hs' p' x' \<longleftrightarrow>
       (if hs' = hs then p' = p \<and> max x' 0 = max x 0 else has_route (fib_entries sw) hs' p' x'))"
proof -
  note ok = priority_sorter.installFibEntry_ok [OF assms]
  have same: "fib_entry hs p' x' = fib_entry hs p x \<longleftrightarrow> p' = p \<and> max x' 0 = max x 0"
    using fib_entry_inject [OF assms(3,3), of p' x' p x]
    by (auto simp: fib_entry_def max_def split: if_splits)
  have key: "hashes_ok hs' \<Longrightarrow> same_fib_key hs (fib_entry hs' p' x') \<longleftrightarrow> hs' = hs"
    by (rule same_fib_key_entry [OF assms(3)])
  have other: "hashes_ok hs' \<Longrightarrow> hs' \<noteq> hs \<Longrightarrow> fib_entry hs' p' x' \<noteq> fib_entry hs p x"
    using fib_entry_inject [OF _ assms(3)] by blast
  show ?thesis
    using ok(1) [of p x] same key other assms(3)
    unfolding has_route_def ok(2) by auto
qed

text \<open>Installing a route keeps the switch well formed and replaces exactly the route of the
  same hash tuple: afterwards that tuple has the new port and expiry and every other tuple
  what it had.\<close>

lemma installFibEntry_routes:
  assumes "priority_sorter srt" and "switch_ok sw" and "hashes_ok hs"
  shows "switch_ok (installFibEntry srt hs p x sw) \<and>
    (has_route (fib_entries (installFibEntry srt hs p x sw)) hs' p' x' \<longleftrightarrow>
       (if hs' = hs then p' = p \<and> max x' 0 = max x 0 else has_route (fib_entries sw) hs' p' x'))"
  using assms by (rule installed_route)

definition sample_hashes :: "byte list" where
  "sample_hashes = [1, 2, 0xff, 0xff]"

lemma below_4: "i < 4 \<longleftrightarrow> i \<in> {0, 1, 2, 3 :: nat}"
  by auto

lemma sample_hashes_ok: "hashes_ok sample_hashes"
proof -
  have "[1, 2, 0xff, 0xff :: byte] ! j = 0xff"
    if "i \<le> j" "j < 4" "[1, 2, 0xff, 0xff :: byte] ! i = 0xff" for i j
  proof -
    have "i \<in> {0, 1, 2, 3}" "j \<in> {0, 1, 2, 3}" using that(1,2) by auto
    with that show ?thesis by auto
  qed
  then show ?thesis by (simp add: hashes_ok_def sample_hashes_def)
qed

text \<open>Removing a route removes exactly the one of the given hash tuple.\<close>

lemma removeFibEntry_routes:
  assumes "switch_ok sw" and "hashes_ok hs"
  shows "switch_ok (removeFibEntry hs sw) \<and>
    (has_route (fib_entries (removeFibEntry hs sw)) hs' p x \<longleftrightarrow>
       has_route (fib_entries sw) hs' p x \<and> hs' \<noteq> hs)"
  using removeFibEntry_ok [OF assms(1)] has_route_filter [OF assms(2)] by simp

lemma sample_route:
  "has_route (fib_entries (installFibEntry stable_sort sample_hashes 7 100 sample_switch)) hs p x \<longleftrightarrow>
     hs = sample_hashes \<and> p = 7 \<and> x = 100"
proof -
  have "has_route (fib_entries (installFibEntry stable_sort sample_hashes 7 100 sample_switch)) hs p x \<longleftrightarrow>
      hashes_ok hs \<and> fib_entry hs p x = fib_entry sample_hashes 7 100"
    using stable.installFibEntry_ok(2) [OF sample_switch_ok sample_hashes_ok, of 7 100] sample_no_route
    by (auto simp: has_route_def)
  then show ?thesis
    using fib_entry_inject [OF _ sample_hashes_ok, of hs p x 7 100] sample_hashes_ok
    by (auto simp: max_def split: if_splits)
qed

theorem processPacket_longest_prefix_witness:
  "pr_outputPorts (fst (processPacket 50
     (header_default\<lparr>m_type := INTEREST, m_nameHashes := [1, 2, 3, 0xff]\<rparr>)
     (installFibEntry stable_sort sample_hashes 7 100 sample_switch))) = {7}"
proof -
  have "covers sample_hashes [1, 2, 3, 0xff]"
    by (auto simp: covers_def sample_hashes_def below_4)
  then show ?thesis
    using processPacket_longest_prefix [OF stable.installFibEntry_ok(1)
        [OF sample_switch_ok sample_hashes_ok, of 7 100],
        of "header_default\<lparr>m_type := INTEREST, m_nameHashes := [1, 2, 3, 0xff]\<rparr>"
           sample_hashes 7 100 50]
    by (simp add: sample_route uses_fib_def header_default_def live_def)
qed

end
