(* ===== verification/Packets.thy ===== *)
theory Packets
  imports Names "HOL-Library.While_Combinator"
begin

text \<open>
  The parts of \<^verbatim>\<open>ndn::Interest\<close> and \<^verbatim>\<open>ndn::Data\<close> that the forwarder reads: name, nonce
  and lifetime of an Interest, name, content and hop-count tag of a Data.

  A \<^verbatim>\<open>Block\<close> points into a reference-counted buffer (\<^verbatim>\<open>encoding/block.hpp\<close>), and a copy of
  a decoded Interest shares that buffer.  \<^verbatim>\<open>Interest::setNonce\<close> writes a four-byte nonce in
  place, so all copies see it.  The nonce fields of the buffers are therefore an explicit
  store: an Interest holds the address of its nonce, and the store maps addresses to bytes.
  \<^verbatim>\<open>random::generateWord32\<close> is the stream argument \<open>words\<close>, whose position is part of
  the store.  Shown: what \<^verbatim>\<open>refreshNonce\<close> does to the nonce of the Interest and of its
  copies, and that it returns when the stream has a word other than the old nonce.
\<close>

section \<open>Interest and Data\<close>

type_synonym port = u16

text \<open>The lifetime of an Interest counts milliseconds; no address is an Interest without nonce.\<close>

record interest =
  i_name :: name
  i_nonce :: "nat option"
  i_lifetime :: int

record data_packet =
  d_name :: name
  d_content :: "byte list"
  d_hopCount :: "u64 option"

definition hasNonce :: "interest \<Rightarrow> bool" where
  "hasNonce i \<longleftrightarrow> i_nonce i \<noteq> None"

text \<open>\<^verbatim>\<open>duration_cast<Lifetime>(getInterestLifetime())\<close>: microseconds.\<close>

definition lifetime_us :: "interest \<Rightarrow> int" where
  "lifetime_us i = i_lifetime i * 1000"

abbreviation us_to_ns :: "int \<Rightarrow> sim_time" where
  "us_to_ns t \<equiv> t * 1000"

section \<open>Nonces\<close>

record nonce_store =
  ns_bytes :: "nat \<Rightarrow> byte list"
  ns_next :: nat
  ns_rand :: nat

definition store_init :: nonce_store where
  "store_init = \<lparr>ns_bytes = (\<lambda>_. []), ns_next = 0, ns_rand = 0\<rparr>"

text \<open>A four-byte nonce is read and written as a machine word of a little-endian host.\<close>

definition word_of_bytes :: "byte list \<Rightarrow> u32" where
  "word_of_bytes bs = of_nat (be_val (rev bs))"

definition bytes_of_word :: "u32 \<Rightarrow> byte list" where
  "bytes_of_word w = rev (be_bytes 4 (unat w))"

definition nonce_at :: "nonce_store \<Rightarrow> nat \<Rightarrow> exn + u32" where
  "nonce_at st a =
     (let v = ns_bytes st a in
      if length v = 4 then Inr (word_of_bytes v)
      else map_sum id ucast (readNonNegativeInteger (length v) v))"

text \<open>Decoding an Interest from a buffer of its own: a fresh address.\<close>

definition alloc_nonce :: "byte list \<Rightarrow> nonce_store \<Rightarrow> nat \<times> nonce_store" where
  "alloc_nonce bs st =
     (ns_next st, st\<lparr>ns_bytes := (ns_bytes st)(ns_next st := bs), ns_next := ns_next st + 1\<rparr>)"

text \<open>\<^verbatim>\<open>setNonce\<close> on an Interest that has its wire encoding.\<close>

definition setNonce :: "u32 \<Rightarrow> interest \<Rightarrow> nonce_store \<Rightarrow> interest \<times> nonce_store" where
  "setNonce w i st =
     (case i_nonce i of
        Some a \<Rightarrow>
          if length (ns_bytes st a) = 4
          then (i, st\<lparr>ns_bytes := (ns_bytes st)(a := bytes_of_word w)\<rparr>)
          else let (a', st') = alloc_nonce (bytes_of_word w) st in (i\<lparr>i_nonce := Some a'\<rparr>, st')
      | None \<Rightarrow> let (a', st') = alloc_nonce (bytes_of_word w) st in (i\<lparr>i_nonce := Some a'\<rparr>, st'))"

text \<open>The loop of \<^verbatim>\<open>refreshNonce\<close>: the position after the first word that differs.\<close>

definition draw_other :: "(nat \<Rightarrow> u32) \<Rightarrow> u32 \<Rightarrow> nat \<Rightarrow> (u32 \<times> nat) option" where
  "draw_other words old k =
     while_option (\<lambda>(new, _). new = old) (\<lambda>(_, k). (words k, k + 1)) (old, k)"

definition refreshNonce ::
  "(nat \<Rightarrow> u32) \<Rightarrow> interest \<Rightarrow> nonce_store \<Rightarrow> exn + (interest \<times> nonce_store)" where
  "refreshNonce words i st =
     (case i_nonce i of
        None \<Rightarrow> Inr (i, st)
      | Some a \<Rightarrow>
          case nonce_at st a of
            Inl e \<Rightarrow> Inl e
          | Inr old \<Rightarrow>
              (case draw_other words old (ns_rand st) of
                 None \<Rightarrow> Inl Diverges
               | Some (new, k) \<Rightarrow> Inr (setNonce new i (st\<lparr>ns_rand := k\<rparr>))))"

section \<open>Properties\<close>

lemma length_bytes_of_word [simp]: "length (bytes_of_word w) = 4"
  by (simp add: bytes_of_word_def)

lemma word_of_bytes_of_word [simp]: "word_of_bytes (bytes_of_word w) = w"
proof -
  have "unat w < 256 ^ 4" using unsigned_less [where 'a = nat, of w] by simp
  then show ?thesis by (simp add: word_of_bytes_def bytes_of_word_def be_val_be_bytes)
qed

lemma draw_other_Some:
  assumes "draw_other words old k = Some (new, k')"
  shows "new \<noteq> old"
  using while_option_stop [OF assms [unfolded draw_other_def]] by simp

lemma draw_other_step:
  "draw_other words old k =
     (if words k = old then draw_other words old (k + 1) else Some (words k, k + 1))"
  unfolding draw_other_def
  by (subst while_option_unfold, simp, subst while_option_unfold, simp)

text \<open>The loop ends when the stream has another word from its position on.\<close>

lemma draw_other_ends:
  assumes "k \<le> j" and "words j \<noteq> old"
  shows "\<exists>r. draw_other words old k = Some r"
  using assms
proof (induction "j - k" arbitrary: k)
  case 0
  then show ?case by (subst draw_other_step) auto
next
  case (Suc n)
  then show ?case
    by (subst draw_other_step) (auto intro: Suc.hyps(1))
qed

text \<open>On a four-byte nonce \<^verbatim>\<open>refreshNonce\<close> writes the shared field in place.\<close>

lemma refreshNonce_in_place:
  assumes "i_nonce i = Some a" and "length (ns_bytes st a) = 4"
    and "refreshNonce words i st = Inr (i', st')"
  shows "i' = i" and "\<exists>w. nonce_at st a \<noteq> Inr w \<and> nonce_at st' a = Inr w"
    and "b \<noteq> a \<Longrightarrow> ns_bytes st' b = ns_bytes st b" and "ns_next st' = ns_next st"
    and "length (ns_bytes st' a) = 4"
proof -
  obtain old where old: "nonce_at st a = Inr old"
    using assms(2) by (simp add: nonce_at_def)
  then obtain new k where draw: "draw_other words old (ns_rand st) = Some (new, k)"
    "setNonce new i (st\<lparr>ns_rand := k\<rparr>) = (i', st')"
    using assms(1,3) by (auto simp: refreshNonce_def split: option.splits)
  then have st': "i' = i" "st' = st\<lparr>ns_rand := k, ns_bytes := (ns_bytes st)(a := bytes_of_word new)\<rparr>"
    using assms(1,2) by (auto simp: setNonce_def)
  show "i' = i" by (rule st')
  have "new \<noteq> old" using draw(1) by (rule draw_other_Some)
  then show "\<exists>w. nonce_at st a \<noteq> Inr w \<and> nonce_at st' a = Inr w"
    using old by (auto simp: st' nonce_at_def)
  show "b \<noteq> a \<Longrightarrow> ns_bytes st' b = ns_bytes st b" "ns_next st' = ns_next st"
    "length (ns_bytes st' a) = 4"
    by (simp_all add: st')
qed

lemma refreshNonce_returns:
  assumes "i_nonce i = Some a" and "length (ns_bytes st a) = 4"
    and "\<And>w. \<exists>j \<ge> ns_rand st. words j \<noteq> w"
  shows "\<exists>r. refreshNonce words i st = Inr r"
proof -
  obtain old where old: "nonce_at st a = Inr old"
    using assms(2) by (simp add: nonce_at_def)
  obtain j where "ns_rand st \<le> j" "words j \<noteq> old" using assms(3) by blast
  then obtain r where "draw_other words old (ns_rand st) = Some r"
    using draw_other_ends by blast
  with old assms(1) show ?thesis by (cases r) (auto simp: refreshNonce_def)
qed

text \<open>C38. \<^verbatim>\<open>refreshNonce\<close> ends as soon as the random stream has a word other than the nonce, and then the
  Interest has a four-byte nonce different from the one before, at the place it had before; no other nonce changes.\<close>

theorem refreshNonce_ends:
  assumes "i_nonce i = Some a" and "length (ns_bytes st a) = 4"
    and "\<And>w. \<exists>j \<ge> ns_rand st. words j \<noteq> w"
  shows "\<exists>st' w. refreshNonce words i st = Inr (i, st') \<and> nonce_at st' a = Inr w \<and> nonce_at st a \<noteq> Inr w \<and>
    (\<forall>b. b \<noteq> a \<longrightarrow> ns_bytes st' b = ns_bytes st b)"
proof -
  obtain i' st' where r: "refreshNonce words i st = Inr (i', st')"
    using refreshNonce_returns [OF assms] by fast
  note place = refreshNonce_in_place [OF assms(1,2) r]
  then show ?thesis using r by blast
qed

theorem refreshNonce_ends_witness:
  "\<exists>st' w. refreshNonce of_nat \<lparr>i_name = [], i_nonce = Some 0, i_lifetime = 4000\<rparr>
      \<lparr>ns_bytes = (\<lambda>_. [1, 0, 0, 0]), ns_next = 1, ns_rand = 1\<rparr> =
      Inr (\<lparr>i_name = [], i_nonce = Some 0, i_lifetime = 4000\<rparr>, st') \<and> nonce_at st' 0 = Inr w"
proof -
  have "\<exists>j \<ge> 1. of_nat j \<noteq> w" for w :: u32
  proof (cases "w = 1")
    case True
    have "(of_nat 2 :: u32) \<noteq> 1" by simp
    then show ?thesis using True by (intro exI [of _ 2]) simp
  next
    case False
    then show ?thesis by (intro exI [of _ 1]) simp
  qed
  then show ?thesis
    using refreshNonce_ends [of "\<lparr>i_name = [], i_nonce = Some 0, i_lifetime = 4000\<rparr>" 0
        "\<lparr>ns_bytes = (\<lambda>_. [1, 0, 0, 0]), ns_next = 1, ns_rand = 1\<rparr>" of_nat] by auto
qed

end
