(* ===== verification/Pending_Interest_Table.thy ===== *)
theory Pending_Interest_Table
  imports Packets
begin

text \<open>
  The pending Interest table (\<^verbatim>\<open>statim/state/pending-interest-table.hpp\<close>,
  \<^verbatim>\<open>pending-interest-table.cpp\<close>).  The clock function is the argument \<open>now\<close>, the instant
  it returns during the call.  Shown: the outcome of an insertion on every branch and what it
  stores, that Data consumes exactly the entries of the ancestors of its name and returns
  their ports, and that the scan from the lower bound lists exactly the entries under a
  prefix, in name order.
\<close>

section \<open>State\<close>

record ingress_record =
  ir_port :: port
  ir_insertedAt :: sim_time
  ir_lifetime :: int

record pit_entry =
  pe_interest :: interest
  pe_ingress :: "ingress_record list"

type_synonym pit = "(name, pit_entry) fmap"

datatype pit_status = Created | Aggregated | Duplicate

definition pit_new :: pit where
  "pit_new = fmempty"

section \<open>Operations\<close>

definition ingress_expired :: "sim_time \<Rightarrow> ingress_record \<Rightarrow> bool" where
  "ingress_expired now r \<longleftrightarrow> now \<ge> ir_insertedAt r + us_to_ns (ir_lifetime r)"

definition pruneExpiredIngress :: "sim_time \<Rightarrow> pit_entry \<Rightarrow> pit_entry" where
  "pruneExpiredIngress now e =
     e\<lparr>pe_ingress := filter (\<lambda>r. \<not> ingress_expired now r) (pe_ingress e)\<rparr>"

definition new_ingress :: "sim_time \<Rightarrow> interest \<Rightarrow> port \<Rightarrow> ingress_record" where
  "new_ingress now i p = \<lparr>ir_port = p, ir_insertedAt = now, ir_lifetime = lifetime_us i\<rparr>"

text \<open>\<^verbatim>\<open>first->hasNonce() && interest.hasNonce() && first->getNonce() == interest.getNonce()\<close>.\<close>

definition same_nonce :: "nonce_store \<Rightarrow> interest \<Rightarrow> interest \<Rightarrow> exn + bool" where
  "same_nonce st i j =
     (case (i_nonce i, i_nonce j) of
        (Some a, Some b) \<Rightarrow>
          (case (nonce_at st a, nonce_at st b) of
             (Inr v, Inr w) \<Rightarrow> Inr (v = w)
           | (Inl e, _) \<Rightarrow> Inl e
           | (_, Inl e) \<Rightarrow> Inl e)
      | _ \<Rightarrow> Inr False)"

definition pit_insert ::
  "nonce_store \<Rightarrow> sim_time \<Rightarrow> interest \<Rightarrow> port \<Rightarrow> pit \<Rightarrow> exn + ((pit_status \<times> interest) \<times> pit)" where
  "pit_insert st now i p m =
     (case fmlookup m (i_name i) of
        Some e \<Rightarrow>
          (case same_nonce st (pe_interest e) i of
             Inl x \<Rightarrow> Inl x
           | Inr True \<Rightarrow> Inr ((Duplicate, pe_interest e), m)
           | Inr False \<Rightarrow>
               let e = pruneExpiredIngress now e;
                   e = e\<lparr>pe_ingress := pe_ingress e @ [new_ingress now i p]\<rparr>
               in Inr ((Aggregated, pe_interest e), fmupd (i_name i) e m))
      | None \<Rightarrow>
          Inr ((Created, i),
               fmupd (i_name i) \<lparr>pe_interest = i, pe_ingress = [new_ingress now i p]\<rparr> m))"

definition entry_ports :: "pit_entry \<Rightarrow> port set" where
  "entry_ports e = ir_port ` set (pe_ingress e)"

text \<open>One round of the loop of \<^verbatim>\<open>takeDataMatchPorts\<close>, and the loop, down to the root.\<close>

definition take_prefix :: "name \<Rightarrow> port set \<times> pit \<Rightarrow> port set \<times> pit" where
  "take_prefix k s =
     (let (ports, m) = s in
      case fmlookup m k of
        Some e \<Rightarrow> (ports \<union> entry_ports e, fmdrop k m)
      | None \<Rightarrow> (ports, m))"

fun take_loop :: "name \<Rightarrow> nat \<Rightarrow> port set \<times> pit \<Rightarrow> port set \<times> pit" where
  "take_loop n 0 s = take_prefix (getPrefix n 0) s"
| "take_loop n (Suc k) s = take_loop n k (take_prefix (getPrefix n (int (Suc k))) s)"

definition takeDataMatchPorts :: "name \<Rightarrow> pit \<Rightarrow> port set \<times> pit" where
  "takeDataMatchPorts n m = take_loop n (length n) ({}, m)"

definition findByPrefix :: "name \<Rightarrow> pit \<Rightarrow> interest list" where
  "findByPrefix p m =
     map (\<lambda>(_, e). pe_interest e)
       (takeWhile (\<lambda>(k, _). isPrefixOf p k) (dropWhile (\<lambda>(k, _). k < p) (fmentries m)))"

definition pit_erase :: "name \<Rightarrow> pit \<Rightarrow> bool \<times> pit" where
  "pit_erase n m = (fmlookup m n \<noteq> None, fmdrop n m)"

definition pit_size :: "pit \<Rightarrow> nat" where
  "pit_size m = fmsize m"

section \<open>Insertion\<close>

lemma pit_insert_Some:
  assumes "pit_insert st now i p m = Inr ((status, first), m')"
  shows "\<exists>e. fmlookup m' (i_name i) = Some e \<and> first = pe_interest e \<and>
    (status \<noteq> Duplicate \<longrightarrow> last (pe_ingress e) = new_ingress now i p \<and> pe_ingress e \<noteq> [])"
  using assms
  by (auto simp: pit_insert_def Let_def split: option.splits sum.splits bool.splits)

text \<open>Every name of the table is the name of the Interest stored under it.\<close>

definition pit_ok :: "pit \<Rightarrow> bool" where
  "pit_ok m \<longleftrightarrow> (\<forall>k e. fmlookup m k = Some e \<longrightarrow> i_name (pe_interest e) = k)"

lemma pit_ok_new: "pit_ok pit_new"
  by (simp add: pit_ok_def pit_new_def)

lemma pit_ok_insert: "pit_ok m \<Longrightarrow> pit_insert st now i p m = Inr (r, m') \<Longrightarrow> pit_ok m'"
  by (auto simp: pit_ok_def pit_insert_def pruneExpiredIngress_def Let_def
      split: option.splits sum.splits bool.splits if_splits)

section \<open>Satisfaction by Data\<close>

lemma take_prefix_eq:
  "take_prefix k (ports, m) =
     (ports \<union> (case fmlookup m k of None \<Rightarrow> {} | Some e \<Rightarrow> entry_ports e), fmdrop k m)"
proof (cases "fmlookup m k")
  case None
  then have "fmdrop k m = m" by (intro fmap_ext) auto
  with None show ?thesis by (simp add: take_prefix_def)
qed (simp add: take_prefix_def)

text \<open>The entries of the prefixes of \<open>n\<close> with at most \<open>c\<close> components.\<close>

lemma take_loop_eq:
  "take_loop n c (ports, m) =
     (ports \<union> (\<Union>k \<in> (\<lambda>j. take j n) ` {..c}. case fmlookup m k of None \<Rightarrow> {} | Some e \<Rightarrow> entry_ports e),
      fmfilter (\<lambda>k. k \<notin> (\<lambda>j. take j n) ` {..c}) m)"
proof (induction c arbitrary: ports m)
  case 0
  have "getPrefix n 0 = []" using getPrefix_take [of n 0] by simp
  moreover have "fmdrop [] m = fmfilter (\<lambda>k. k \<noteq> []) m" by (rule fmap_ext) auto
  ultimately show ?case by (simp add: take_prefix_eq)
next
  case (Suc c)
  let ?s = "\<lambda>m k. case fmlookup m k of None \<Rightarrow> {} | Some e \<Rightarrow> entry_ports e"
  let ?P = "(\<lambda>j. take j n) ` {..c}"
  have ports: "?s m (take (Suc c) n) \<union> (\<Union>k \<in> ?P. ?s (fmdrop (take (Suc c) n) m) k) =
      (\<Union>k \<in> insert (take (Suc c) n) ?P. ?s m k)"
  proof -
    have drop: "?s (fmdrop (take (Suc c) n) m) k = (if k = take (Suc c) n then {} else ?s m k)" for k
      by simp
    show ?thesis unfolding drop by (auto split: if_splits simp del: fmlookup_drop)
  qed
  have rest: "fmfilter (\<lambda>k. k \<notin> ?P) (fmdrop (take (Suc c) n) m) =
      fmfilter (\<lambda>k. k \<notin> insert (take (Suc c) n) ?P) m"
    by (rule fmap_ext) auto
  have "getPrefix n (int (Suc c)) = take (Suc c) n" by (rule getPrefix_take)
  then show ?case
    using ports rest
    by (simp only: take_loop.simps take_prefix_eq Suc.IH atMost_Suc image_insert Un_assoc)
qed

lemma prefixes_take: "(\<lambda>j. take j n) ` {..length n} = {k. prefix k n}"
proof (intro set_eqI iffI)
  fix k assume "k \<in> {k. prefix k n}"
  then have "k = take (length k) n" "length k \<le> length n"
    by (auto simp: prefix_length_le elim: prefixE)
  then show "k \<in> (\<lambda>j. take j n) ` {..length n}" by blast
qed (auto simp: take_is_prefix)

lemma takeDataMatchPorts_eq:
  "takeDataMatchPorts n m =
     ({p. \<exists>k e. prefix k n \<and> fmlookup m k = Some e \<and> p \<in> entry_ports e},
      fmfilter (\<lambda>k. \<not> prefix k n) m)"
proof -
  have "(\<Union>k \<in> {k. prefix k n}. case fmlookup m k of None \<Rightarrow> {} | Some e \<Rightarrow> entry_ports e) =
      {p. \<exists>k e. prefix k n \<and> fmlookup m k = Some e \<and> p \<in> entry_ports e}"
    by (auto split: option.splits)
  then show ?thesis
    by (simp add: takeDataMatchPorts_def take_loop_eq prefixes_take)
qed

lemma pit_ok_take: "pit_ok m \<Longrightarrow> pit_ok (snd (takeDataMatchPorts n m))"
  by (auto simp: pit_ok_def takeDataMatchPorts_eq split: if_splits)

text \<open>Data consumes exactly the entries whose name is a prefix of the Data name, the root
  included, and returns the ports of all their ingress records, expired or not; every other
  entry stays.\<close>

lemma takeDataMatchPorts_spec:
  "fst (takeDataMatchPorts n m) =
     {p. \<exists>k e. prefix k n \<and> fmlookup m k = Some e \<and> p \<in> entry_ports e} \<and>
   fmlookup (snd (takeDataMatchPorts n m)) k = (if prefix k n then None else fmlookup m k)"
  by (simp add: takeDataMatchPorts_eq)

text \<open>An Interest that the table accepts is answered on its port by any Data under its name;
  a duplicate leaves the table as it was.\<close>

lemma pit_insert_then_data:
  assumes "pit_insert st now i p m = Inr ((status, first), m')" and "prefix (i_name i) n"
  shows "(if status = Duplicate then m' = m else p \<in> fst (takeDataMatchPorts n m')) \<and>
    fmlookup (snd (takeDataMatchPorts n m')) (i_name i) = None"
proof -
  obtain e where e: "fmlookup m' (i_name i) = Some e"
    "status \<noteq> Duplicate \<Longrightarrow> last (pe_ingress e) = new_ingress now i p \<and> pe_ingress e \<noteq> []"
    using pit_insert_Some [OF assms(1)] by blast
  have "m' = m" if "status = Duplicate"
    using assms(1) that by (auto simp: pit_insert_def Let_def split: option.splits sum.splits bool.splits)
  moreover have "p \<in> entry_ports e" if "status \<noteq> Duplicate"
    using e(2) [OF that] last_in_set [of "pe_ingress e"]
    by (force simp: entry_ports_def new_ingress_def image_iff)
  ultimately show ?thesis
    using assms(2) e(1) by (auto simp: takeDataMatchPorts_eq)
qed

text \<open>Aggregation keeps exactly the ports of the ingress records that have not expired and
  adds the new one; the remembered Interest and every other entry stay.\<close>

lemma pit_insert_aggregates:
  assumes "fmlookup m (i_name i) = Some e" and "same_nonce st (pe_interest e) i = Inr False"
    and "pit_insert st now i p m = Inr ((status, first), m')"
  shows "status = Aggregated \<and> first = pe_interest e \<and>
    (\<exists>e'. fmlookup m' (i_name i) = Some e' \<and> pe_interest e' = pe_interest e \<and>
       entry_ports e' =
         insert p (ir_port ` {r \<in> set (pe_ingress e). \<not> ingress_expired now r})) \<and>
    (\<forall>k. k \<noteq> i_name i \<longrightarrow> fmlookup m' k = fmlookup m k)"
  using assms
  by (auto simp: pit_insert_def pruneExpiredIngress_def Let_def entry_ports_def new_ingress_def)

section \<open>Listing a prefix\<close>

lemma findByPrefix_filter:
  fixes m :: pit
  shows "takeWhile (\<lambda>(k, _). isPrefixOf p k) (dropWhile (\<lambda>(k, _). k < p) (fmentries m)) =
     filter (\<lambda>(k, _). prefix p k) (fmentries m)"
proof -
  let ?lt = "\<lambda>(x :: name \<times> pit_entry). fst x < p" and ?pre = "\<lambda>(x :: name \<times> pit_entry). prefix p (fst x)"
  let ?sorted = "sorted_wrt (\<lambda>x y. fst x < fst y)"
  have "dropWhile ?lt (fmentries m) = filter (\<lambda>x. \<not> ?lt x) (fmentries m)"
    by (rule dropWhile_sorted_filter [OF fmentries_sorted]) auto
  moreover have "takeWhile ?pre (filter (\<lambda>x. \<not> ?lt x) (fmentries m)) =
      filter ?pre (filter (\<lambda>x. \<not> ?lt x) (fmentries m))"
  proof (rule takeWhile_sorted_filter)
    show "?sorted (filter (\<lambda>x. \<not> ?lt x) (fmentries m))"
      by (intro sorted_wrt_filter fmentries_sorted)
    show "?pre x" if "x \<in> set (filter (\<lambda>x. \<not> ?lt x) (fmentries m))" "fst x < fst y" "?pre y" for x y
      using that prefix_interval [of p "fst x" "fst y"] by auto
  qed
  moreover have "filter ?pre (filter (\<lambda>x. \<not> ?lt x) (fmentries m)) = filter ?pre (fmentries m)"
    unfolding filter_filter by (rule filter_cong) (auto dest: prefix_le)
  ultimately show ?thesis
    by (simp add: case_prod_beta')
qed

text \<open>\<^verbatim>\<open>findByPrefix\<close> lists the remembered Interest of exactly the entries whose name
  extends the prefix, in name order: stopping at the first name that does not extend it loses
  nothing.\<close>

lemma findByPrefix_spec:
  "findByPrefix p m = map (\<lambda>(_, e). pe_interest e) (filter (\<lambda>(k, _). prefix p k) (fmentries m))"
  unfolding findByPrefix_def findByPrefix_filter ..

lemma set_findByPrefix:
  "i \<in> set (findByPrefix p m) \<longleftrightarrow> (\<exists>k e. fmlookup m k = Some e \<and> prefix p k \<and> i = pe_interest e)"
  unfolding findByPrefix_def findByPrefix_filter by (force simp: set_fmentries)

end
