(* ===== verification/Temporary_Fib.thy ===== *)
theory Temporary_Fib
  imports Packets
begin

text \<open>
  The temporary forwarding table (\<^verbatim>\<open>statim/state/temporary-forwarding-table.hpp\<close>,
  \<^verbatim>\<open>temporary-forwarding-table.cpp\<close>).  A table operation reads the clock once; \<open>now\<close> is
  the instant it reads.  Expired hops are removed only when an operation meets them, so the
  meaning of a table is its live view at an instant: the prefixes with a hop whose deadline
  lies ahead.  Shown: lookups return the live view, longest prefix first, and never change it;
  insertion adds a hop without renewing a live one; erasure removes one prefix.
\<close>

section \<open>Longest-prefix search\<close>

text \<open>The loop of \<^verbatim>\<open>findLongestPrefix\<close> over an exact search \<open>search\<close> that may change the table.\<close>

fun longest_loop :: "('t \<Rightarrow> name \<Rightarrow> 'v option \<times> 't) \<Rightarrow> name \<Rightarrow> nat \<Rightarrow> 't \<Rightarrow> (name \<times> 'v) option \<times> 't" where
  "longest_loop search n 0 t =
     (case search t (getPrefix n (int 0)) of
        (Some v, t') \<Rightarrow> (Some (getPrefix n (int 0), v), t')
      | (None, t') \<Rightarrow> (None, t'))"
| "longest_loop search n (Suc k) t =
     (case search t (getPrefix n (int (Suc k))) of
        (Some v, t') \<Rightarrow> (Some (getPrefix n (int (Suc k)), v), t')
      | (None, t') \<Rightarrow> longest_loop search n k t')"

text \<open>What every exact search keeps, the loop keeps.\<close>

lemma longest_loop_keeps:
  assumes "\<And>t k. f (snd (search t k)) = f t"
  shows "f (snd (longest_loop search n k t)) = f t"
proof (induction k arbitrary: t)
  case 0
  then show ?case using assms [of t "getPrefix n 0"] by (auto split: prod.splits option.splits)
next
  case (Suc k)
  then show ?case
    using assms [of t "getPrefix n (int (Suc k))"] by (auto split: prod.splits option.splits)
qed

text \<open>What an exact search promises: it returns the view of the table and keeps it.\<close>

locale exact_search =
  fixes search :: "'t \<Rightarrow> name \<Rightarrow> 'v option \<times> 't" and view :: "'t \<Rightarrow> name \<Rightarrow> 'v option"
  assumes find_view: "fst (search t k) = view t k"
    and find_keeps: "view (snd (search t k)) = view t"
begin

lemma longest_loop_None:
  "fst (longest_loop search n k t) = None \<longleftrightarrow> (\<forall>j \<le> k. view t (take j n) = None)"
proof (induction k arbitrary: t)
  case 0
  then show ?case
    using find_view [of t "[]"] getPrefix_take [of n 0]
    by (cases "search t []") (auto split: option.splits)
next
  case (Suc k)
  obtain r t' where f: "search t (getPrefix n (int (Suc k))) = (r, t')" by fastforce
  have r: "r = view t (take (Suc k) n)" and v: "view t' = view t"
    using find_view [of t "getPrefix n (int (Suc k))"] find_keeps [of t "getPrefix n (int (Suc k))"] f
      getPrefix_take [of n "Suc k"] by auto
  show ?case
    using Suc.IH [of t'] r v f
    by (auto simp: le_Suc_eq split: option.splits)
qed

lemma longest_loop_Some:
  "fst (longest_loop search n k t) = Some (p, v) \<Longrightarrow>
     \<exists>j \<le> k. p = take j n \<and> view t p = Some v \<and> (\<forall>i. j < i \<and> i \<le> k \<longrightarrow> view t (take i n) = None)"
proof (induction k arbitrary: t)
  case 0
  then show ?case
    using find_view [of t "[]"] getPrefix_take [of n 0] by (auto split: prod.splits option.splits)
next
  case (Suc k)
  obtain r t' where f: "search t (getPrefix n (int (Suc k))) = (r, t')" by fastforce
  have r: "r = view t (take (Suc k) n)" and v: "view t' = view t"
    using find_view [of t "getPrefix n (int (Suc k))"] find_keeps [of t "getPrefix n (int (Suc k))"] f
      getPrefix_take [of n "Suc k"] by auto
  show ?case
  proof (cases r)
    case None
    then have "fst (longest_loop search n k t') = Some (p, v)"
      using Suc.prems f by simp
    from Suc.IH [OF this] show ?thesis
      unfolding \<open>view t' = view t\<close> using None r by (metis le_SucI le_Suc_eq)
  next
    case (Some x)
    then have "p = take (Suc k) n" "v = x"
      using Suc.prems f getPrefix_take [of n "Suc k"] by simp_all
    then show ?thesis using Some r by auto
  qed
qed

text \<open>From the full length down, the search finds the longest prefix in the view.\<close>

lemma longest_prefix:
  "fst (longest_loop search n (length n) t) = Some (p, v) \<longleftrightarrow>
     prefix p n \<and> view t p = Some v \<and>
     (\<forall>q. prefix q n \<and> length p < length q \<longrightarrow> view t q = None)"
proof
  assume "fst (longest_loop search n (length n) t) = Some (p, v)"
  then obtain j where j: "j \<le> length n" "p = take j n" "view t p = Some v"
    "\<And>i. j < i \<Longrightarrow> i \<le> length n \<Longrightarrow> view t (take i n) = None"
    using longest_loop_Some [of n "length n" t p v] by blast
  have "view t q = None" if "prefix q n" "length p < length q" for q
    using j that by (metis append_eq_conv_conj length_take min.absorb2 prefixE prefix_length_le)
  then show "prefix p n \<and> view t p = Some v \<and>
     (\<forall>q. prefix q n \<and> length p < length q \<longrightarrow> view t q = None)"
    using j by (simp add: take_is_prefix)
next
  assume *: "prefix p n \<and> view t p = Some v \<and>
     (\<forall>q. prefix q n \<and> length p < length q \<longrightarrow> view t q = None)"
  then have p: "p = take (length p) n" "length p \<le> length n"
    by (auto simp: prefix_length_le elim: prefixE)
  then have "fst (longest_loop search n (length n) t) \<noteq> None"
    using * longest_loop_None [of n "length n" t] by (metis option.distinct(1))
  then obtain p' v' where r: "fst (longest_loop search n (length n) t) = Some (p', v')" by auto
  then obtain j where j: "j \<le> length n" "p' = take j n" "view t p' = Some v'"
    "\<And>i. j < i \<Longrightarrow> i \<le> length n \<Longrightarrow> view t (take i n) = None"
    using longest_loop_Some [of n "length n" t p' v'] by blast
  have "length p = j"
    using * j p by (metis length_take linorder_neqE_nat min.absorb2 option.distinct(1) take_is_prefix)
  with r j p * show "fst (longest_loop search n (length n) t) = Some (p, v)" by simp
qed

end

section \<open>The table\<close>

record port_next_hop =
  nh_port :: port
  nh_deadline :: sim_time

record forwarding_entry =
  m_prefix :: name
  m_nextHops :: "(port, port_next_hop) fmap"

type_synonym temp_fib = "(name, forwarding_entry) fmap"

text \<open>\<^verbatim>\<open>TimePoint::max()\<close>, in nanoseconds.\<close>

definition TimePoint_max :: sim_time where
  "TimePoint_max = 2 ^ 63 - 1"

definition tfib_new :: temp_fib where
  "tfib_new = fmempty"

definition ForwardingEntry :: "name \<Rightarrow> forwarding_entry" where
  "ForwardingEntry p = \<lparr>m_prefix = p, m_nextHops = fmempty\<rparr>"

text \<open>The loop erases every hop whose deadline has come.\<close>

definition pruneExpiredHops :: "sim_time \<Rightarrow> forwarding_entry \<Rightarrow> forwarding_entry" where
  "pruneExpiredHops now e =
     e\<lparr>m_nextHops := fold (\<lambda>(p, h) hops. if now \<ge> nh_deadline h then fmdrop p hops else hops)
                       (fmentries (m_nextHops e)) (m_nextHops e)\<rparr>"

record tfib_insert_result =
  prefixCreated :: bool
  hopAdded :: bool

text \<open>\<^verbatim>\<open>emplace\<close> does not replace the hop of a port that is present.\<close>

definition insertUntil ::
  "sim_time \<Rightarrow> name \<Rightarrow> port \<Rightarrow> sim_time \<Rightarrow> temp_fib \<Rightarrow> tfib_insert_result \<times> temp_fib" where
  "insertUntil now p pt deadline t =
     (let created = (fmlookup t p = None);
          e = (case fmlookup t p of None \<Rightarrow> ForwardingEntry p | Some e \<Rightarrow> pruneExpiredHops now e);
          added = (fmlookup (m_nextHops e) pt = None);
          hops = (if added then fmupd pt \<lparr>nh_port = pt, nh_deadline = deadline\<rparr> (m_nextHops e)
                  else m_nextHops e)
      in (\<lparr>prefixCreated = created, hopAdded = added\<rparr>, fmupd p (e\<lparr>m_nextHops := hops\<rparr>) t))"

text \<open>The lifetime counts microseconds.\<close>

definition tfib_insert ::
  "sim_time \<Rightarrow> name \<Rightarrow> port \<Rightarrow> int \<Rightarrow> temp_fib \<Rightarrow> tfib_insert_result \<times> temp_fib" where
  "tfib_insert now p pt lifetime t = insertUntil now p pt (now + us_to_ns lifetime) t"

definition pruneAndFind :: "sim_time \<Rightarrow> temp_fib \<Rightarrow> name \<Rightarrow> forwarding_entry option \<times> temp_fib" where
  "pruneAndFind now t p =
     (case fmlookup t p of
        None \<Rightarrow> (None, t)
      | Some e \<Rightarrow>
          let e = pruneExpiredHops now e in
          if m_nextHops e = fmempty then (None, fmdrop p t) else (Some e, fmupd p e t))"

definition findExact :: "sim_time \<Rightarrow> name \<Rightarrow> temp_fib \<Rightarrow> forwarding_entry option \<times> temp_fib" where
  "findExact now p t = pruneAndFind now t p"

definition findLongestPrefix ::
  "sim_time \<Rightarrow> name \<Rightarrow> temp_fib \<Rightarrow> forwarding_entry option \<times> temp_fib" where
  "findLongestPrefix now n t =
     (let (r, t') = longest_loop (pruneAndFind now) n (length n) t in (map_option snd r, t'))"

definition tfib_erase :: "name \<Rightarrow> temp_fib \<Rightarrow> bool \<times> temp_fib" where
  "tfib_erase p t = (fmlookup t p \<noteq> None, fmdrop p t)"

definition tfib_size :: "temp_fib \<Rightarrow> nat" where
  "tfib_size t = fmsize t"

section \<open>The live view\<close>

definition live_hops :: "sim_time \<Rightarrow> forwarding_entry \<Rightarrow> forwarding_entry" where
  "live_hops now e =
     e\<lparr>m_nextHops := fmfilter (\<lambda>p. \<exists>h. fmlookup (m_nextHops e) p = Some h \<and> now < nh_deadline h)
                       (m_nextHops e)\<rparr>"

definition live_view :: "sim_time \<Rightarrow> temp_fib \<Rightarrow> name \<Rightarrow> forwarding_entry option" where
  "live_view now t p =
     (case fmlookup t p of
        None \<Rightarrow> None
      | Some e \<Rightarrow> if m_nextHops (live_hops now e) = fmempty then None else Some (live_hops now e))"

lemma prune_fold:
  "distinct (map fst xs) \<Longrightarrow>
   fmlookup (fold (\<lambda>(p, h) hops. if now \<ge> nh_deadline h then fmdrop p hops else hops) xs m) q =
     (if \<exists>h. (q, h) \<in> set xs \<and> now \<ge> nh_deadline h then None else fmlookup m q)"
  by (induction xs arbitrary: m) (auto split: if_splits)

lemma fmentries_distinct: "distinct (map fst (fmentries m))"
  by (simp add: fmentries_keys sorted_fset_list)

lemma pruneExpiredHops_live [simp]: "pruneExpiredHops now e = live_hops now e"
proof -
  have "fold (\<lambda>(p, h) hops. if now \<ge> nh_deadline h then fmdrop p hops else hops)
      (fmentries (m_nextHops e)) (m_nextHops e) =
    fmfilter (\<lambda>p. \<exists>h. fmlookup (m_nextHops e) p = Some h \<and> now < nh_deadline h) (m_nextHops e)"
  proof (rule fmap_ext)
    fix q
    show "fmlookup (fold (\<lambda>(p, h) hops. if now \<ge> nh_deadline h then fmdrop p hops else hops)
        (fmentries (m_nextHops e)) (m_nextHops e)) q =
      fmlookup (fmfilter (\<lambda>p. \<exists>h. fmlookup (m_nextHops e) p = Some h \<and> now < nh_deadline h)
        (m_nextHops e)) q"
      unfolding prune_fold [OF fmentries_distinct] set_fmentries
      by (cases "fmlookup (m_nextHops e) q") auto
  qed
  then show ?thesis by (simp add: pruneExpiredHops_def live_hops_def)
qed

lemma live_hops_lookup:
  "fmlookup (m_nextHops (live_hops now e)) p =
     (case fmlookup (m_nextHops e) p of
        None \<Rightarrow> None | Some h \<Rightarrow> if now < nh_deadline h then Some h else None)"
  by (auto simp: live_hops_def split: option.splits)

lemma live_hops_prefix [simp]: "m_prefix (live_hops now e) = m_prefix e"
  by (simp add: live_hops_def)

lemma live_hops_later:
  assumes "now \<le> later"
  shows "live_hops later (live_hops now e) = live_hops later e"
  by (intro forwarding_entry.equality fmap_ext)
    (use assms in \<open>auto simp: live_hops_lookup split: option.splits\<close>)

lemma live_hops_empty_later:
  assumes "now \<le> later" and "m_nextHops (live_hops now e) = fmempty"
  shows "m_nextHops (live_hops later e) = fmempty"
proof -
  have "m_nextHops (live_hops later (live_hops now e)) = fmempty"
    by (rule fmap_ext) (simp add: live_hops_def [of later] assms(2))
  then show ?thesis by (simp add: live_hops_later [OF assms(1)])
qed

lemma pruneAndFind_view: "fst (pruneAndFind now t p) = live_view now t p"
  by (auto simp: pruneAndFind_def live_view_def Let_def split: option.splits)

text \<open>A search changes the view neither now nor at any later instant.\<close>

lemma pruneAndFind_keeps:
  assumes "now \<le> later"
  shows "live_view later (snd (pruneAndFind now t p)) = live_view later t"
proof
  fix q
  show "live_view later (snd (pruneAndFind now t p)) q = live_view later t q"
    using assms live_hops_empty_later [OF assms]
    by (auto simp: pruneAndFind_def live_view_def Let_def live_hops_later split: option.splits)
qed

interpretation temporary: exact_search "pruneAndFind now" "live_view now" for now
  by unfold_locales (simp_all add: pruneAndFind_view pruneAndFind_keeps)

lemma findLongestPrefix_view:
  "fst (findLongestPrefix now n t) = Some e \<longleftrightarrow>
     (\<exists>p. prefix p n \<and> live_view now t p = Some e \<and>
        (\<forall>q. prefix q n \<and> length p < length q \<longrightarrow> live_view now t q = None))"
proof -
  have "fst (findLongestPrefix now n t) = Some e \<longleftrightarrow>
      (\<exists>p. fst (longest_loop (pruneAndFind now) n (length n) t) = Some (p, e))"
    by (auto simp: findLongestPrefix_def split: prod.splits)
  then show ?thesis by (simp only: temporary.longest_prefix)
qed

lemma findLongestPrefix_None:
  "fst (findLongestPrefix now n t) = None \<longleftrightarrow> (\<forall>p. prefix p n \<longrightarrow> live_view now t p = None)"
proof -
  have "fst (findLongestPrefix now n t) = None \<longleftrightarrow>
      fst (longest_loop (pruneAndFind now) n (length n) t) = None"
    by (auto simp: findLongestPrefix_def split: prod.splits)
  also have "\<dots> \<longleftrightarrow> (\<forall>p. prefix p n \<longrightarrow> live_view now t p = None)"
    unfolding temporary.longest_loop_None
    by (metis append_eq_conv_conj prefixE prefix_length_le take_is_prefix)
  finally show ?thesis .
qed

lemma findLongestPrefix_keeps:
  assumes "now \<le> later"
  shows "live_view later (snd (findLongestPrefix now n t)) = live_view later t"
  using longest_loop_keeps [of "live_view later" "pruneAndFind now"] pruneAndFind_keeps [OF assms]
  by (simp add: findLongestPrefix_def case_prod_beta)

section \<open>What the table promises\<close>

text \<open>\<^verbatim>\<open>findLongestPrefix\<close> returns the live hops of the longest prefix of the name that
  has a live hop, nothing when no prefix has one, and changes the live view of no prefix, now
  or later, although it removes expired hops and empty prefixes on its way.\<close>

lemma findLongestPrefix_spec:
  "(fst (findLongestPrefix now n t) = Some e \<longleftrightarrow>
     (\<exists>p. prefix p n \<and> live_view now t p = Some e \<and>
        (\<forall>q. prefix q n \<and> length p < length q \<longrightarrow> live_view now t q = None))) \<and>
   (\<forall>later \<ge> now. live_view later (snd (findLongestPrefix now n t)) = live_view later t)"
  using findLongestPrefix_view findLongestPrefix_keeps by simp

text \<open>The deadline of a live hop.\<close>

definition live_deadline :: "sim_time \<Rightarrow> temp_fib \<Rightarrow> name \<Rightarrow> port \<Rightarrow> sim_time option" where
  "live_deadline now t p pt =
     (case fmlookup t p of
        None \<Rightarrow> None
      | Some e \<Rightarrow> map_option nh_deadline (fmlookup (m_nextHops (live_hops now e)) pt))"

text \<open>Inserting until a deadline ahead makes the port a live hop of the prefix and changes no
  other port or prefix; a hop that is still live keeps its old deadline.\<close>

lemma insertUntil_live:
  assumes "now < deadline"
  shows "live_deadline now (snd (insertUntil now p pt deadline t)) q pq =
    (if q = p \<and> pq = pt \<and> live_deadline now t p pt = None then Some deadline
     else live_deadline now t q pq)"
  using assms
  by (auto simp: live_deadline_def insertUntil_def Let_def live_hops_lookup ForwardingEntry_def
      split: option.splits if_splits)

end
