(* ===== verification/Content_Store.thy ===== *)
theory Content_Store
  imports Packets
begin

text \<open>
  The content store (\<^verbatim>\<open>statim/stateful/content-store.hpp\<close>) and the port table
  (\<^verbatim>\<open>statim/port-table.hpp\<close>).  \<^verbatim>\<open>std::rand\<close> is the stream argument \<open>rands\<close>; its
  position is threaded through the calls.  Shown: the capacity bound after every operation
  whatever the coins, that trimming only removes and draws at most one number per entry, that
  nothing is evicted while there is room, and that the port table numbers its devices
  consecutively and inverts its two maps until the 16-bit counter wraps.
\<close>

section \<open>Content store\<close>

record content_store =
  m_cache :: "(name, data_packet) fmap"
  m_maxSize :: nat

definition cs_new :: "nat \<Rightarrow> content_store" where
  "cs_new maxSize = \<lparr>m_cache = fmempty, m_maxSize = maxSize\<rparr>"

definition cs_find :: "name \<Rightarrow> content_store \<Rightarrow> data_packet option" where
  "cs_find n cs = fmlookup (m_cache cs) n"

text \<open>The single scan: one number per visited entry, as long as the cache is too large.\<close>

fun trim_scan ::
  "(nat \<Rightarrow> nat) \<Rightarrow> nat \<Rightarrow> name list \<Rightarrow> nat \<times> (name, data_packet) fmap \<Rightarrow>
   nat \<times> (name, data_packet) fmap" where
  "trim_scan rands maxSize [] s = s"
| "trim_scan rands maxSize (k # ks) (pos, m) =
     (if fmsize m > maxSize
      then trim_scan rands maxSize ks
             (pos + 1, if rands pos mod 2 = 1 then fmdrop k m else m)
      else (pos, m))"

text \<open>The second loop erases the first entry until the cache fits.\<close>

function trim_rest :: "nat \<Rightarrow> (name, data_packet) fmap \<Rightarrow> (name, data_packet) fmap" where
  "trim_rest maxSize m =
     (if fmsize m > maxSize then trim_rest maxSize (fmdrop (fst (hd (fmentries m))) m) else m)"
  by pat_completeness auto

lemma first_entry: "0 < fmsize m \<Longrightarrow> fmlookup m (fst (hd (fmentries m))) \<noteq> None"
proof -
  assume "0 < fmsize m"
  then have "fmentries m \<noteq> []" using length_fmentries [of m] by auto
  then obtain k v es where "fmentries m = (k, v) # es" by (metis list.exhaust surj_pair)
  then show ?thesis using set_fmentries [of k v m] by simp
qed

termination trim_rest
proof (relation "measure (\<lambda>(_, m). fmsize m)")
  show "((maxSize, fmdrop (fst (hd (fmentries m))) m), (maxSize, m)) \<in> measure (\<lambda>(_, m). fmsize m)"
    if "maxSize < fmsize m" for maxSize and m :: "(name, data_packet) fmap"
    using that first_entry [of m] by (simp add: fmsize_drop)
qed simp

declare trim_rest.simps [simp del]

definition trimToCapacity :: "(nat \<Rightarrow> nat) \<Rightarrow> nat \<Rightarrow> content_store \<Rightarrow> nat \<times> content_store" where
  "trimToCapacity rands pos cs =
     (if m_maxSize cs = 0 then (pos, cs\<lparr>m_cache := fmempty\<rparr>)
      else let (pos', m) = trim_scan rands (m_maxSize cs) (map fst (fmentries (m_cache cs))) (pos, m_cache cs)
           in (pos', cs\<lparr>m_cache := trim_rest (m_maxSize cs) m\<rparr>))"

definition cs_insert :: "(nat \<Rightarrow> nat) \<Rightarrow> nat \<Rightarrow> data_packet \<Rightarrow> content_store \<Rightarrow> nat \<times> content_store" where
  "cs_insert rands pos d cs =
     (if m_maxSize cs = 0 then (pos, cs)
      else trimToCapacity rands pos (cs\<lparr>m_cache := fmupd (d_name d) d (m_cache cs)\<rparr>))"

definition cs_clear :: "content_store \<Rightarrow> content_store" where
  "cs_clear cs = cs\<lparr>m_cache := fmempty\<rparr>"

definition cs_size :: "content_store \<Rightarrow> nat" where
  "cs_size cs = fmsize (m_cache cs)"

definition setMaxSize :: "(nat \<Rightarrow> nat) \<Rightarrow> nat \<Rightarrow> nat \<Rightarrow> content_store \<Rightarrow> nat \<times> content_store" where
  "setMaxSize rands pos maxSize cs = trimToCapacity rands pos (cs\<lparr>m_maxSize := maxSize\<rparr>)"

section \<open>Port table\<close>

text \<open>A device is its address, a natural number.\<close>

type_synonym device = nat

record port_table =
  m_portToDevice :: "(port, device) fmap"
  m_deviceToPort :: "(device, port) fmap"
  m_nextPort :: port

definition ports_new :: port_table where
  "ports_new = \<lparr>m_portToDevice = fmempty, m_deviceToPort = fmempty, m_nextPort = 1\<rparr>"

definition addDevice :: "device \<Rightarrow> port_table \<Rightarrow> port \<times> port_table" where
  "addDevice d t =
     (m_nextPort t,
      t\<lparr>m_nextPort := m_nextPort t + 1,
        m_portToDevice := fmupd (m_nextPort t) d (m_portToDevice t),
        m_deviceToPort := fmupd d (m_nextPort t) (m_deviceToPort t)\<rparr>)"

definition getDevice :: "port \<Rightarrow> port_table \<Rightarrow> device option" where
  "getDevice p t = fmlookup (m_portToDevice t) p"

definition getPort :: "device \<Rightarrow> port_table \<Rightarrow> port" where
  "getPort d t = (case fmlookup (m_deviceToPort t) d of Some p \<Rightarrow> p | None \<Rightarrow> 0)"

definition hasPort :: "port \<Rightarrow> port_table \<Rightarrow> bool" where
  "hasPort p t \<longleftrightarrow> fmlookup (m_portToDevice t) p \<noteq> None"

definition ports_size :: "port_table \<Rightarrow> nat" where
  "ports_size t = fmsize (m_portToDevice t)"

section \<open>Properties of the store\<close>

lemma trim_scan_draws:
  "pos \<le> fst (trim_scan rands maxSize ks (pos, m)) \<and>
   fst (trim_scan rands maxSize ks (pos, m)) \<le> pos + length ks"
proof (induction ks arbitrary: pos m)
  case (Cons k ks)
  let ?m = "if rands pos mod 2 = 1 then fmdrop k m else m"
  have "pos + 1 \<le> fst (trim_scan rands maxSize ks (pos + 1, ?m)) \<and>
      fst (trim_scan rands maxSize ks (pos + 1, ?m)) \<le> pos + 1 + length ks"
    by (rule Cons.IH)
  then show ?case by (simp del: One_nat_def split del: if_split) auto
qed simp

lemma trim_scan_lookup:
  "fmlookup (snd (trim_scan rands maxSize ks (pos, m))) k = Some v \<Longrightarrow> fmlookup m k = Some v"
proof (induction ks arbitrary: pos m)
  case (Cons a ks)
  show ?case
  proof (cases "maxSize < fmsize m")
    case True
    with Cons have "fmlookup (if rands pos mod 2 = 1 then fmdrop a m else m) k = Some v"
      by simp
    then show ?thesis by (simp split: if_splits)
  qed (use Cons.prems in simp)
qed simp

lemma trim_scan_room: "fmsize m \<le> maxSize \<Longrightarrow> trim_scan rands maxSize ks (pos, m) = (pos, m)"
  by (cases ks) auto

lemma trim_rest_fits: "fmsize (trim_rest maxSize m) \<le> maxSize"
proof (induction maxSize m rule: trim_rest.induct)
  case (1 maxSize m)
  then show ?case by (subst trim_rest.simps) simp
qed

lemma trim_rest_room: "fmsize m \<le> maxSize \<Longrightarrow> trim_rest maxSize m = m"
  by (subst trim_rest.simps) simp

lemma trim_rest_lookup:
  "fmlookup (trim_rest maxSize m) k = Some v \<Longrightarrow> fmlookup m k = Some v"
proof (induction maxSize m rule: trim_rest.induct)
  case (1 maxSize m)
  show ?case
  proof (cases "maxSize < fmsize m")
    case True
    then have "trim_rest maxSize m = trim_rest maxSize (fmdrop (fst (hd (fmentries m))) m)"
      by (subst trim_rest.simps) simp
    with 1 True show ?thesis by (simp split: if_splits)
  qed (use 1(2) in \<open>simp add: trim_rest_room\<close>)
qed

lemma trimToCapacity_lookup:
  "cs_find k (snd (trimToCapacity rands pos cs)) = Some v \<Longrightarrow> cs_find k cs = Some v"
  by (auto simp: trimToCapacity_def cs_find_def case_prod_beta split: if_splits
      dest!: trim_rest_lookup trim_scan_lookup)

lemma trimToCapacity_size: "cs_size (snd (trimToCapacity rands pos cs)) \<le> m_maxSize cs"
  by (auto simp: trimToCapacity_def cs_size_def case_prod_beta trim_rest_fits)

lemma trimToCapacity_maxSize [simp]: "m_maxSize (snd (trimToCapacity rands pos cs)) = m_maxSize cs"
  by (simp add: trimToCapacity_def case_prod_beta)

lemma trimToCapacity_room:
  "cs_size cs \<le> m_maxSize cs \<Longrightarrow> m_maxSize cs \<noteq> 0 \<Longrightarrow> trimToCapacity rands pos cs = (pos, cs)"
  by (simp add: trimToCapacity_def cs_size_def trim_scan_room trim_rest_room)

text \<open>The stored names are the names of the packets stored.\<close>

definition cs_ok :: "content_store \<Rightarrow> bool" where
  "cs_ok cs \<longleftrightarrow> cs_size cs \<le> m_maxSize cs \<and>
     (\<forall>k d. cs_find k cs = Some d \<longrightarrow> d_name d = k)"

lemma cs_ok_new: "cs_ok (cs_new n)"
  by (simp add: cs_ok_def cs_new_def cs_size_def cs_find_def)

lemma cs_insert_find:
  "cs_find k (snd (cs_insert rands pos d cs)) = Some x \<Longrightarrow> x = d \<and> k = d_name d \<or> cs_find k cs = Some x"
  by (auto simp: cs_insert_def split: if_splits dest!: trimToCapacity_lookup)
    (auto simp: cs_find_def split: if_splits)

lemma cs_ok_insert: "cs_ok cs \<Longrightarrow> cs_ok (snd (cs_insert rands pos d cs))"
  using trimToCapacity_size [of rands pos "cs\<lparr>m_cache := fmupd (d_name d) d (m_cache cs)\<rparr>"]
    cs_insert_find [of _ rands pos d cs]
  by (cases "m_maxSize cs = 0") (auto simp: cs_ok_def cs_insert_def)

text \<open>Every operation of the content store keeps it within its capacity, keeps each packet
  under its own name and never invents one, whatever numbers \<^verbatim>\<open>std::rand\<close> returns.\<close>

lemma content_store_invariant:
  assumes "cs_ok cs"
  shows "cs_ok (snd (cs_insert rands pos d cs)) \<and> cs_ok (snd (setMaxSize rands pos n cs)) \<and>
    cs_ok (cs_clear cs) \<and>
    (cs_find k (snd (cs_insert rands pos d cs)) = Some x \<longrightarrow> x = d \<or> cs_find k cs = Some x)"
proof (intro conjI impI)
  show "cs_ok (snd (cs_insert rands pos d cs))" by (rule cs_ok_insert [OF assms])
  show "cs_ok (snd (setMaxSize rands pos n cs))"
    using assms trimToCapacity_size [of rands pos "cs\<lparr>m_maxSize := n\<rparr>"]
    by (auto simp: cs_ok_def setMaxSize_def dest!: trimToCapacity_lookup) (simp add: cs_find_def)
  show "cs_ok (cs_clear cs)"
    by (simp add: cs_ok_def cs_clear_def cs_size_def cs_find_def)
  show "x = d \<or> cs_find k cs = Some x" if "cs_find k (snd (cs_insert rands pos d cs)) = Some x"
    using cs_insert_find [OF that] by blast
qed

text \<open>While the cache has room for it, an inserted packet is found under its name, nothing
  else changes, and no random number is drawn.\<close>

lemma cs_insert_room:
  assumes "m_maxSize cs \<noteq> 0" and "cs_find (d_name d) cs \<noteq> None \<or> cs_size cs < m_maxSize cs"
    and "cs_ok cs"
  shows "fst (cs_insert rands pos d cs) = pos \<and>
    cs_find k (snd (cs_insert rands pos d cs)) = (if k = d_name d then Some d else cs_find k cs)"
proof -
  let ?cs = "cs\<lparr>m_cache := fmupd (d_name d) d (m_cache cs)\<rparr>"
  have "cs_size ?cs \<le> m_maxSize cs"
    using assms(2,3) by (auto simp: cs_size_def cs_find_def cs_ok_def fmsize_upd)
  then show ?thesis
    using assms(1) by (simp add: cs_insert_def trimToCapacity_room cs_find_def)
qed

section \<open>Properties of the port table\<close>

definition addDevices :: "device list \<Rightarrow> port_table \<Rightarrow> port_table" where
  "addDevices ds t = fold (\<lambda>d t. snd (addDevice d t)) ds t"

definition ports_ok :: "device list \<Rightarrow> port_table \<Rightarrow> bool" where
  "ports_ok ds t \<longleftrightarrow> m_nextPort t = of_nat (length ds + 1) \<and>
     (\<forall>i < length ds. getDevice (of_nat (i + 1)) t = Some (ds ! i) \<and>
        getPort (ds ! i) t = of_nat (i + 1)) \<and>
     (\<forall>d. d \<notin> set ds \<longrightarrow> getPort d t = 0)"

lemma ports_ok_snoc:
  assumes "ports_ok ds t" and "d \<notin> set ds" and "length ds < 65535"
  shows "ports_ok (ds @ [d]) (snd (addDevice d t))"
proof -
  have inj: "(of_nat (i + 1) :: port) \<noteq> of_nat (length ds + 1)" if "i < length ds" for i
  proof
    assume "(of_nat (i + 1) :: port) = of_nat (length ds + 1)"
    then have "unat (of_nat (i + 1) :: port) = unat (of_nat (length ds + 1) :: port)" by simp
    then show False unfolding unat_of_nat using that assms(3) by simp
  qed
  have "d \<noteq> ds ! i" if "i < length ds" for i using assms(2) that by auto
  then have "getDevice (of_nat (i + 1)) (snd (addDevice d t)) = Some ((ds @ [d]) ! i) \<and>
      getPort ((ds @ [d]) ! i) (snd (addDevice d t)) = of_nat (i + 1)" if "i < length (ds @ [d])" for i
    using assms(1) inj [of i] that
    by (cases "i < length ds")
      (auto simp: ports_ok_def addDevice_def getDevice_def getPort_def nth_append less_Suc_eq)
  then show ?thesis
    using assms(1) by (simp add: ports_ok_def) (auto simp: addDevice_def getPort_def)
qed

text \<open>Up to 65535 distinct devices get the ports 1, 2, ... in order, and the two lookups
  invert each other on them.\<close>

lemma port_table_sequential:
  assumes "distinct ds" and "length ds \<le> 65535" and "i < length ds"
  shows "getDevice (of_nat (i + 1)) (addDevices ds ports_new) = Some (ds ! i) \<and>
    getPort (ds ! i) (addDevices ds ports_new) = of_nat (i + 1)"
proof -
  have "ports_ok ds (addDevices ds ports_new)" using assms(1,2)
  proof (induction ds rule: rev_induct)
    case Nil
    then show ?case by (simp add: ports_ok_def addDevices_def ports_new_def getPort_def)
  next
    case (snoc d ds)
    then show ?case using ports_ok_snoc [of ds "addDevices ds ports_new" d]
      by (simp add: addDevices_def)
  qed
  with assms(3) show ?thesis by (simp add: ports_ok_def)
qed

end
