(* ===== verification/Node_State.thy ===== *)
theory Node_State
  imports Complex_Main Simulator Switch_Pipeline Pending_Interest_Table Temporary_Fib Content_Store
begin

text \<open>
  The state of one Statim node: the simulator, the local route controller, the flow-table
  controller, the switch and the forwarding engine, with the actions that the code schedules.
  Calls between the components go through callbacks that the constructor of
  \<^verbatim>\<open>ForwardingEngine\<close> binds; the operations therefore take and return the whole node.

  The environment \<open>env\<close> collects what the code takes from outside: \<^verbatim>\<open>std::hash\<close>,
  \<^verbatim>\<open>std::sort\<close>, the random generators (the n-th number of each), and the conversions
  between \<^verbatim>\<open>ns3::Time\<close> and a number of seconds in floating point.
\<close>

section \<open>Environment\<close>

text \<open>The random variables of the flow-table controller.\<close>

datatype rv = ControlLoss | FlowModLoss | SyncAckLoss | ControlDelay | FlowModDelay | SyncAckDelay

record env =
  e_hash :: "string \<Rightarrow> u64"
  e_sort :: sorter
  e_words :: "nat \<Rightarrow> u32"
  e_rands :: "nat \<Rightarrow> nat"
  e_uniform :: "rv \<Rightarrow> nat \<Rightarrow> real"
  e_getSeconds :: "sim_time \<Rightarrow> real"
  e_Seconds :: "real \<Rightarrow> sim_time"

text \<open>What the code relies on: the sort contract, conversions that keep the sign, and
  generators that do not repeat one word forever.\<close>

definition env_ok :: "env \<Rightarrow> bool" where
  "env_ok env \<longleftrightarrow> priority_sorter (e_sort env) \<and> (\<forall>x \<ge> 0. 0 \<le> e_Seconds env x) \<and>
     (\<forall>k w. \<exists>j \<ge> k. e_words env j \<noteq> w)"

section \<open>Control messages\<close>

datatype control_type = CT_PACKET_IN | CT_FLOW_MOD | CT_SYNC_ACK

record control_message =
  cm_type :: control_type
  cm_nameHashes :: "byte list"
  cm_prefixLen :: nat
  cm_outputPort :: port
  cm_prefix :: name
  cm_seq :: u64
  cm_routeExpiry :: sim_time

definition message_default :: control_message where
  "message_default = \<lparr>cm_type = CT_PACKET_IN, cm_nameHashes = [], cm_prefixLen = 0, cm_outputPort = 0,
     cm_prefix = [], cm_seq = 0, cm_routeExpiry = 0\<rparr>"

definition isExpiredAt :: "sim_time \<Rightarrow> control_message \<Rightarrow> bool" where
  "isExpiredAt now m \<longleftrightarrow> cm_routeExpiry m \<noteq> 0 \<and> now \<ge> cm_routeExpiry m"

section \<open>Scheduled actions\<close>

datatype act =
    AcceptControl control_message
  | AttemptFlowMod control_message
  | DeliverSyncAck control_message
  | ExpireEntryBySeq name u64
  | ControllerRetryTimeout name u64
  | ProcessInterestAfterDelay port interest packet_header
  | ProcessDataAfterDelay port data_packet packet_header
  | DoDelayedPullSend interest port

section \<open>Local route controller\<close>

record local_counters =
  tempUpdates :: u64
  controlPackets :: u64
  syncCompletions :: u64
  staleTraceUpdatesRejected :: u64
  staleSyncAcksRejected :: u64
  noPendingSyncAcksRejected :: u64
  controllerRetries :: u64
  temporaryRouteWithdrawals :: u64
  expiredSyncAcksRejected :: u64

record pending_request =
  pq_seq :: u64
  pq_retriesLeft :: int
  pq_timer :: event_id
  pq_msg :: control_message

text \<open>A callback is whether it is set; \<open>lc_completed\<close> are the calls of the completion
  callback.\<close>

record local_controller =
  lc_fib :: temp_fib
  lc_seqMap :: "(name, u64) fmap"
  lc_highestSeenSeq :: "(name, u64) fmap"
  lc_routeExpiries :: "(name, sim_time) fmap"
  lc_lifetimeTimers :: "(name, event_id) fmap"
  lc_pending :: "(name, pending_request) fmap"
  lc_controllerDelay :: sim_time
  lc_entryLifetime :: sim_time
  lc_retryTimeout :: sim_time
  lc_retryLimit :: int
  lc_guard :: bool
  lc_hasSyncRequestCb :: bool
  lc_hasSyncCompleteCb :: bool
  lc_completed :: "name list"
  lc_counters :: local_counters

definition local_new :: local_controller where
  "local_new = \<lparr>lc_fib = tfib_new, lc_seqMap = fmempty, lc_highestSeenSeq = fmempty,
     lc_routeExpiries = fmempty, lc_lifetimeTimers = fmempty, lc_pending = fmempty,
     lc_controllerDelay = 1000000000, lc_entryLifetime = 0, lc_retryTimeout = 0, lc_retryLimit = 3,
     lc_guard = False, lc_hasSyncRequestCb = False, lc_hasSyncCompleteCb = False, lc_completed = [],
     lc_counters = \<lparr>tempUpdates = 0, controlPackets = 0, syncCompletions = 0,
       staleTraceUpdatesRejected = 0, staleSyncAcksRejected = 0, noPendingSyncAcksRejected = 0,
       controllerRetries = 0, temporaryRouteWithdrawals = 0, expiredSyncAcksRejected = 0\<rparr>\<rparr>"

section \<open>Flow-table controller\<close>

record flow_counters =
  packetIns :: u64
  packetInsDelivered :: u64
  packetInsDropped :: u64
  duplicatePacketIns :: u64
  stalePacketInsRejected :: u64
  conflictingPacketInsRejected :: u64
  flowModAttempts :: u64
  flowModsApplied :: u64
  flowModsDropped :: u64
  flowModsNoApplySink :: u64
  staleFlowModEventsSuppressed :: u64
  duplicateFlowModEventsSuppressed :: u64
  syncAckAttempts :: u64
  syncAcksSent :: u64
  syncAcksDropped :: u64
  idempotentAckReplays :: u64
  expiredPacketInsRejected :: u64
  expiredFlowModsRejected :: u64
  expiredSyncAcksSuppressed :: u64
  flowModsRejectedBySink :: u64

record delay_profile =
  dp_controlExtra :: sim_time
  dp_flowModExtra :: sim_time
  dp_syncAckExtra :: sim_time

record prefix_state =
  ps_hasAccepted :: bool
  ps_highestAccepted :: u64
  ps_acceptedMessage :: control_message
  ps_hasApplied :: bool
  ps_highestApplied :: u64
  ps_appliedMessage :: control_message

definition prefix_state_default :: prefix_state where
  "prefix_state_default = \<lparr>ps_hasAccepted = False, ps_highestAccepted = 0,
     ps_acceptedMessage = message_default, ps_hasApplied = False, ps_highestApplied = 0,
     ps_appliedMessage = message_default\<rparr>"

record flow_controller =
  fc_controllerDelay :: sim_time
  fc_hasFlowModApplyCb :: bool
  fc_hasSyncAckCb :: bool
  fc_counters :: flow_counters
  fc_guard :: bool
  fc_controlLossRate :: real
  fc_flowModLossRate :: real
  fc_syncAckLossRate :: real
  fc_controlDropFirstN :: u32
  fc_flowModDropFirstN :: u32
  fc_syncAckDropFirstN :: u32
  fc_controlLegDelay :: sim_time
  fc_flowModLegDelay :: sim_time
  fc_syncAckLegDelay :: sim_time
  fc_controlLegJitter :: sim_time
  fc_flowModLegJitter :: sim_time
  fc_syncAckLegJitter :: sim_time
  fc_rvPos :: "rv \<Rightarrow> nat"
  fc_prefixStates :: "(name, prefix_state) fmap"
  fc_delayProfiles :: "(u64, delay_profile) fmap"

definition flow_counters_zero :: flow_counters where
  "flow_counters_zero = \<lparr>packetIns = 0, packetInsDelivered = 0, packetInsDropped = 0,
     duplicatePacketIns = 0, stalePacketInsRejected = 0, conflictingPacketInsRejected = 0,
     flowModAttempts = 0, flowModsApplied = 0, flowModsDropped = 0, flowModsNoApplySink = 0,
     staleFlowModEventsSuppressed = 0, duplicateFlowModEventsSuppressed = 0, syncAckAttempts = 0,
     syncAcksSent = 0, syncAcksDropped = 0, idempotentAckReplays = 0, expiredPacketInsRejected = 0,
     expiredFlowModsRejected = 0, expiredSyncAcksSuppressed = 0, flowModsRejectedBySink = 0\<rparr>"

definition flow_controller_new :: flow_controller where
  "flow_controller_new = \<lparr>fc_controllerDelay = 1000000000, fc_hasFlowModApplyCb = False,
     fc_hasSyncAckCb = False, fc_counters = flow_counters_zero, fc_guard = False,
     fc_controlLossRate = 0, fc_flowModLossRate = 0, fc_syncAckLossRate = 0,
     fc_controlDropFirstN = 0, fc_flowModDropFirstN = 0, fc_syncAckDropFirstN = 0,
     fc_controlLegDelay = 0, fc_flowModLegDelay = 0, fc_syncAckLegDelay = 0,
     fc_controlLegJitter = 0, fc_flowModLegJitter = 0, fc_syncAckLegJitter = 0,
     fc_rvPos = (\<lambda>_. 0), fc_prefixStates = fmempty, fc_delayProfiles = fmempty\<rparr>"

section \<open>Forwarding engine\<close>

record engine_counters =
  interestsReceived :: u64
  dataReceived :: u64
  traceInterestsHandled :: u64
  traceUpdatesHandled :: u64
  flowTableUpdatesApplied :: u64
  temporaryFibInterestTransmissions :: u64
  flowTableFibInterestTransmissions :: u64
  statimLookupMisses :: u64
  noRouteRejections :: u64
  pendingPullsScheduled :: u64
  pendingPullsSent :: u64
  pullInvocations :: u64
  csHits :: u64
  pitDuplicates :: u64
  malformedPackets :: u64

definition engine_counters_zero :: engine_counters where
  "engine_counters_zero = \<lparr>interestsReceived = 0, dataReceived = 0, traceInterestsHandled = 0,
     traceUpdatesHandled = 0, flowTableUpdatesApplied = 0, temporaryFibInterestTransmissions = 0,
     flowTableFibInterestTransmissions = 0, statimLookupMisses = 0, noRouteRejections = 0,
     pendingPullsScheduled = 0, pendingPullsSent = 0, pullInvocations = 0, csHits = 0,
     pitDuplicates = 0, malformedPackets = 0\<rparr>"

text \<open>\<open>f_traceUpdatesAccepted\<close> is the only counter of \<^verbatim>\<open>StatefulForwarder\<close> that the code
  changes.\<close>

record engine =
  en_ports :: port_table
  en_pit :: pit
  en_cs :: content_store
  en_statefulDelay :: sim_time
  en_flowTableLifetime :: sim_time
  en_temporaryLifetime :: sim_time
  en_enableTemporaryFib :: bool
  en_enableReforwarding :: bool
  en_reforwardingLimit :: int
  en_nodeId :: u32
  en_telemetry :: bool
  en_tempSteerPending :: bool
  en_flowSteerPending :: bool
  en_tempSteerSeq :: u64
  en_flowSteerSeq :: u64
  en_tempSteerPrefix :: name
  en_flowSteerPrefix :: name
  en_counters :: engine_counters
  f_enableReforwarding :: bool
  f_traceUpdatesAccepted :: u64
  en_store :: nonce_store
  en_randPos :: nat

definition engine_new :: engine where
  "engine_new = \<lparr>en_ports = ports_new, en_pit = pit_new, en_cs = cs_new 100, en_statefulDelay = 0,
     en_flowTableLifetime = 0, en_temporaryLifetime = 0, en_enableTemporaryFib = True,
     en_enableReforwarding = True, en_reforwardingLimit = 30, en_nodeId = 0, en_telemetry = False,
     en_tempSteerPending = False, en_flowSteerPending = False, en_tempSteerSeq = 0,
     en_flowSteerSeq = 0, en_tempSteerPrefix = [], en_flowSteerPrefix = [],
     en_counters = engine_counters_zero, f_enableReforwarding = False, f_traceUpdatesAccepted = 0,
     en_store = store_init, en_randPos = 0\<rparr>"

section \<open>The node\<close>

text \<open>The payload of a frame: an Interest with its nonce bytes, or a Data.\<close>

datatype payload =
    InterestPayload name "byte list" int
  | DataPayload name "byte list"
  | OtherPayload
  | MalformedPayload

record frame =
  fr_header :: "byte list"
  fr_payload :: payload

record node =
  n_sim :: "act sim"
  n_local :: local_controller
  n_central :: flow_controller
  n_switch :: switch
  n_engine :: engine
  n_sent :: "(device \<times> frame) list"

end
