(* ===== verification/Route_Control.thy ===== *)
theory Route_Control
  imports Node_State
begin

text \<open>
  The two controllers of a node and the protocol between them: the local controller
  (\<^verbatim>\<open>statim/control/local-route-controller.cpp\<close>) admits a trace update into the temporary
  FIB and asks the flow-table controller (\<^verbatim>\<open>flow-table-controller.cpp\<close>) to install it; the
  flow-table controller applies the FlowMod through \<^verbatim>\<open>ForwardingEngine::onFlowTableFlowMod\<close>
  and acknowledges, upon which the local controller drops the temporary route.  The operations
  stand in the order of their calls: a callee before its callers.
\<close>

section \<open>Node access\<close>

abbreviation node_now :: "node \<Rightarrow> sim_time" where
  "node_now n \<equiv> Now (n_sim n)"

definition on_local :: "(local_controller \<Rightarrow> local_controller) \<Rightarrow> node \<Rightarrow> node" where
  "on_local f n = n\<lparr>n_local := f (n_local n)\<rparr>"

definition on_central :: "(flow_controller \<Rightarrow> flow_controller) \<Rightarrow> node \<Rightarrow> node" where
  "on_central f n = n\<lparr>n_central := f (n_central n)\<rparr>"

definition on_engine :: "(engine \<Rightarrow> engine) \<Rightarrow> node \<Rightarrow> node" where
  "on_engine f n = n\<lparr>n_engine := f (n_engine n)\<rparr>"

definition count_local :: "(local_counters \<Rightarrow> local_counters) \<Rightarrow> node \<Rightarrow> node" where
  "count_local f = on_local (\<lambda>l. l\<lparr>lc_counters := f (lc_counters l)\<rparr>)"

definition count_central :: "(flow_counters \<Rightarrow> flow_counters) \<Rightarrow> node \<Rightarrow> node" where
  "count_central f = on_central (\<lambda>c. c\<lparr>fc_counters := f (fc_counters c)\<rparr>)"

definition count_engine :: "(engine_counters \<Rightarrow> engine_counters) \<Rightarrow> node \<Rightarrow> node" where
  "count_engine f = on_engine (\<lambda>e. e\<lparr>en_counters := f (en_counters e)\<rparr>)"

definition node_schedule :: "sim_time \<Rightarrow> act \<Rightarrow> node \<Rightarrow> event_id \<times> node" where
  "node_schedule d a n = (let (i, s) = Schedule d a (n_sim n) in (i, n\<lparr>n_sim := s\<rparr>))"

definition node_cancel :: "event_id \<Rightarrow> node \<Rightarrow> node" where
  "node_cancel i n = n\<lparr>n_sim := Cancel i (n_sim n)\<rparr>"

section \<open>Installing a FlowMod\<close>

text \<open>\<^verbatim>\<open>ForwardingEngine::onFlowTableFlowMod\<close>, the callback of the flow-table controller.\<close>

definition onFlowTableFlowMod :: "env \<Rightarrow> control_message \<Rightarrow> node \<Rightarrow> bool \<times> node" where
  "onFlowTableFlowMod env m n =
     (if isExpiredAt (node_now n) m then (False, n)
      else
        let n = count_engine (flowTableUpdatesApplied_update incr) n;
            n = (if en_telemetry (n_engine n)
                 then on_engine (\<lambda>e. e\<lparr>en_flowSteerPending := True, en_flowSteerSeq := cm_seq m,
                                       en_flowSteerPrefix := cm_prefix m\<rparr>) n
                 else n);
            n = n\<lparr>n_switch := installFibEntry (e_sort env) (cm_nameHashes m) (cm_outputPort m)
                               (cm_routeExpiry m) (n_switch n)\<rparr>
        in (True, n))"

section \<open>Local controller: completion and expiry\<close>

definition fibSize :: "local_controller \<Rightarrow> nat" where
  "fibSize l = fmsize (lc_seqMap l)"

definition setEntryLifetime :: "sim_time \<Rightarrow> local_controller \<Rightarrow> exn + local_controller" where
  "setEntryLifetime lifetime l =
     (if lifetime < 0 then Inl InvalidArgument else Inr (l\<lparr>lc_entryLifetime := lifetime\<rparr>))"

definition getHighestSeenSeq :: "name \<Rightarrow> local_controller \<Rightarrow> u64 option" where
  "getHighestSeenSeq p l = fmlookup (lc_highestSeenSeq l) p"

text \<open>Cancel the lifetime timer of a prefix, or the timer of its pending request, and forget it.\<close>

definition cancelLifetimeTimer :: "name \<Rightarrow> node \<Rightarrow> node" where
  "cancelLifetimeTimer p n =
     (case fmlookup (lc_lifetimeTimers (n_local n)) p of
        Some i \<Rightarrow> on_local (\<lambda>l. l\<lparr>lc_lifetimeTimers := fmdrop p (lc_lifetimeTimers l)\<rparr>) (node_cancel i n)
      | None \<Rightarrow> n)"

definition dropPending :: "name \<Rightarrow> node \<Rightarrow> node" where
  "dropPending p n =
     (case fmlookup (lc_pending (n_local n)) p of
        Some r \<Rightarrow> on_local (\<lambda>l. l\<lparr>lc_pending := fmdrop p (lc_pending l)\<rparr>) (node_cancel (pq_timer r) n)
      | None \<Rightarrow> n)"

definition dropRoute :: "name \<Rightarrow> node \<Rightarrow> node" where
  "dropRoute p n =
     on_local (\<lambda>l. l\<lparr>lc_fib := snd (tfib_erase p (lc_fib l)), lc_seqMap := fmdrop p (lc_seqMap l),
                     lc_routeExpiries := fmdrop p (lc_routeExpiries l)\<rparr>) n"

definition handleControlResponse :: "control_message \<Rightarrow> node \<Rightarrow> exn + (bool \<times> node)" where
  "handleControlResponse m n =
     (if cm_type m \<noteq> CT_SYNC_ACK then Inr (False, n)
      else
        let l = n_local n; p = cm_prefix m in
        case fmlookup (lc_seqMap l) p of
          None \<Rightarrow>
            (case fmlookup (lc_highestSeenSeq l) p of
               Some high \<Rightarrow>
                 if lc_guard l \<and> cm_seq m \<le> high
                 then Inr (False, count_local (staleSyncAcksRejected_update incr) n)
                 else Inr (False, count_local (noPendingSyncAcksRejected_update incr) n)
             | None \<Rightarrow> Inr (False, count_local (noPendingSyncAcksRejected_update incr) n))
        | Some s \<Rightarrow>
            if lc_guard l \<and> s \<noteq> cm_seq m \<or> \<not> lc_guard l \<and> cm_seq m \<noteq> 0 \<and> s \<noteq> cm_seq m
            then Inr (False, count_local (staleSyncAcksRejected_update incr) n)
            else
              case fmlookup (lc_routeExpiries l) p of
                None \<Rightarrow> Inl OutOfRange
              | Some expiry \<Rightarrow>
                  if expiry > 0 \<and> node_now n \<ge> expiry
                  then Inr (False, count_local (expiredSyncAcksRejected_update incr) n)
                  else if cm_routeExpiry m \<noteq> expiry
                  then Inr (False, count_local (staleSyncAcksRejected_update incr) n)
                  else
                    let n = count_local (syncCompletions_update incr) n;
                        n = dropRoute p n;
                        n = cancelLifetimeTimer p n;
                        n = dropPending p n;
                        n = (if lc_hasSyncCompleteCb (n_local n)
                             then on_local (\<lambda>l. l\<lparr>lc_completed := lc_completed l @ [p]\<rparr>) n else n)
                    in Inr (True, n))"

definition expireEntryBySeq :: "name \<Rightarrow> u64 \<Rightarrow> node \<Rightarrow> node" where
  "expireEntryBySeq p s n =
     (let n = (if fmlookup (lc_seqMap (n_local n)) p = Some s
               then let n = dropRoute p n in
                    case fmlookup (lc_pending (n_local n)) p of
                      Some r \<Rightarrow> if pq_seq r = s then dropPending p n else n
                    | None \<Rightarrow> n
               else n)
      in on_local (\<lambda>l. l\<lparr>lc_lifetimeTimers := fmdrop p (lc_lifetimeTimers l)\<rparr>) n)"

section \<open>Flow-table controller\<close>

text \<open>Whether to drop, the remaining deterministic budget, and the position of the generator.\<close>

definition shouldDrop :: "(nat \<Rightarrow> real) \<Rightarrow> real \<Rightarrow> u32 \<Rightarrow> nat \<Rightarrow> bool \<times> u32 \<times> nat" where
  "shouldDrop uniform probability budget pos =
     (if budget > 0 then (True, budget - 1, pos)
      else if probability \<le> 0 then (False, budget, pos)
      else if probability \<ge> 1 then (True, budget, pos)
      else (uniform pos < probability, budget, pos + 1))"

definition sampleDelay :: "env \<Rightarrow> sim_time \<Rightarrow> sim_time \<Rightarrow> (nat \<Rightarrow> real) \<Rightarrow> nat \<Rightarrow> sim_time \<times> nat" where
  "sampleDelay env base jitter uniform pos =
     (let seconds = e_getSeconds env base;
          width = max 0 (e_getSeconds env jitter);
          (seconds, pos) = (if width > 0
                            then (seconds + (- width + uniform pos * (width - (- width))), pos + 1)
                            else (seconds, pos))
      in (e_Seconds env (max 0 seconds), pos))"

definition getDelayProfile :: "u64 \<Rightarrow> flow_controller \<Rightarrow> delay_profile" where
  "getDelayProfile s c =
     (case fmlookup (fc_delayProfiles c) s of
        Some p \<Rightarrow> p
      | None \<Rightarrow> \<lparr>dp_controlExtra = 0, dp_flowModExtra = 0, dp_syncAckExtra = 0\<rparr>)"

definition sameUpdate :: "control_message \<Rightarrow> control_message \<Rightarrow> bool" where
  "sameUpdate lhs rhs \<longleftrightarrow>
     cm_prefix lhs = cm_prefix rhs \<and> cm_seq lhs = cm_seq rhs \<and> cm_prefixLen lhs = cm_prefixLen rhs \<and>
     cm_outputPort lhs = cm_outputPort rhs \<and> cm_nameHashes lhs = cm_nameHashes rhs \<and>
     cm_routeExpiry lhs = cm_routeExpiry rhs"

text \<open>A drop decision and a delay on the generators of the controller.\<close>

definition drop_control :: "env \<Rightarrow> node \<Rightarrow> bool \<times> node" where
  "drop_control env n =
     (let c = n_central n;
          (d, budget, pos) = shouldDrop (e_uniform env ControlLoss) (fc_controlLossRate c)
                               (fc_controlDropFirstN c) (fc_rvPos c ControlLoss)
      in (d, on_central (\<lambda>c. c\<lparr>fc_controlDropFirstN := budget,
                               fc_rvPos := (fc_rvPos c)(ControlLoss := pos)\<rparr>) n))"

definition drop_flowMod :: "env \<Rightarrow> node \<Rightarrow> bool \<times> node" where
  "drop_flowMod env n =
     (let c = n_central n;
          (d, budget, pos) = shouldDrop (e_uniform env FlowModLoss) (fc_flowModLossRate c)
                               (fc_flowModDropFirstN c) (fc_rvPos c FlowModLoss)
      in (d, on_central (\<lambda>c. c\<lparr>fc_flowModDropFirstN := budget,
                               fc_rvPos := (fc_rvPos c)(FlowModLoss := pos)\<rparr>) n))"

definition drop_syncAck :: "env \<Rightarrow> node \<Rightarrow> bool \<times> node" where
  "drop_syncAck env n =
     (let c = n_central n;
          (d, budget, pos) = shouldDrop (e_uniform env SyncAckLoss) (fc_syncAckLossRate c)
                               (fc_syncAckDropFirstN c) (fc_rvPos c SyncAckLoss)
      in (d, on_central (\<lambda>c. c\<lparr>fc_syncAckDropFirstN := budget,
                               fc_rvPos := (fc_rvPos c)(SyncAckLoss := pos)\<rparr>) n))"

definition delay_of :: "env \<Rightarrow> rv \<Rightarrow> sim_time \<Rightarrow> sim_time \<Rightarrow> node \<Rightarrow> sim_time \<times> node" where
  "delay_of env v base jitter n =
     (let (d, pos) = sampleDelay env base jitter (e_uniform env v) (fc_rvPos (n_central n) v)
      in (d, on_central (\<lambda>c. c\<lparr>fc_rvPos := (fc_rvPos c)(v := pos)\<rparr>) n))"

definition deliverSyncAck :: "env \<Rightarrow> control_message \<Rightarrow> node \<Rightarrow> exn + node" where
  "deliverSyncAck env m n =
     (let n = count_central (syncAckAttempts_update incr) n in
      if isExpiredAt (node_now n) m
      then Inr (count_central (expiredSyncAcksSuppressed_update incr) n)
      else
        let (d, n) = drop_syncAck env n in
        if d then Inr (count_central (syncAcksDropped_update incr) n)
        else bind_exn (if fc_hasSyncAckCb (n_central n)
                       then handleControlResponse (m\<lparr>cm_type := CT_SYNC_ACK\<rparr>) n
                       else Inr (False, n))
               (\<lambda>(_, n). Inr (count_central (syncAcksSent_update incr) n)))"

definition scheduleSyncAck :: "env \<Rightarrow> control_message \<Rightarrow> bool \<Rightarrow> node \<Rightarrow> exn + node" where
  "scheduleSyncAck env m replay n =
     (let n = (if replay then count_central (idempotentAckReplays_update incr) n else n);
          profile = getDelayProfile (cm_seq m) (n_central n);
          (d, n) = delay_of env SyncAckDelay (fc_syncAckLegDelay (n_central n) + dp_syncAckExtra profile)
                     (fc_syncAckLegJitter (n_central n)) n
      in if d \<le> 0 then deliverSyncAck env m n
         else Inr (snd (node_schedule d (DeliverSyncAck m) n)))"

definition get_prefix_state :: "name \<Rightarrow> node \<Rightarrow> prefix_state" where
  "get_prefix_state p n =
     (case fmlookup (fc_prefixStates (n_central n)) p of Some s \<Rightarrow> s | None \<Rightarrow> prefix_state_default)"

definition set_prefix_state :: "name \<Rightarrow> prefix_state \<Rightarrow> node \<Rightarrow> node" where
  "set_prefix_state p s = on_central (\<lambda>c. c\<lparr>fc_prefixStates := fmupd p s (fc_prefixStates c)\<rparr>)"

definition applyFlowMod :: "env \<Rightarrow> control_message \<Rightarrow> node \<Rightarrow> exn + node" where
  "applyFlowMod env m n =
     (let (d, n) = drop_flowMod env n in
      if d then Inr (count_central (flowModsDropped_update incr) n)
      else if \<not> fc_hasFlowModApplyCb (n_central n)
      then Inr (count_central (flowModsNoApplySink_update incr) n)
      else
        let (ok, n) = onFlowTableFlowMod env (m\<lparr>cm_type := CT_FLOW_MOD\<rparr>) n in
        if \<not> ok then Inr (count_central (flowModsRejectedBySink_update incr) n)
        else
          let n = count_central (flowModsApplied_update incr) n;
              n = (if fc_guard (n_central n)
                   then set_prefix_state (cm_prefix m)
                          ((get_prefix_state (cm_prefix m) n)
                             \<lparr>ps_hasApplied := True, ps_highestApplied := cm_seq m,
                              ps_appliedMessage := m\<rparr>) n
                   else n)
          in scheduleSyncAck env m False n)"

definition attemptFlowMod :: "env \<Rightarrow> control_message \<Rightarrow> node \<Rightarrow> exn + node" where
  "attemptFlowMod env m n =
     (let n = count_central (flowModAttempts_update incr) n in
      if isExpiredAt (node_now n) m
      then Inr (count_central (expiredFlowModsRejected_update incr) n)
      else if fc_guard (n_central n) \<and>
              (case fmlookup (fc_prefixStates (n_central n)) (cm_prefix m) of
                 None \<Rightarrow> True
               | Some s \<Rightarrow> \<not> ps_hasAccepted s \<or> cm_seq m < ps_highestAccepted s)
      then Inr (count_central (staleFlowModEventsSuppressed_update incr) n)
      else if fc_guard (n_central n) \<and>
              ps_hasApplied (get_prefix_state (cm_prefix m) n) \<and>
              ps_highestApplied (get_prefix_state (cm_prefix m) n) = cm_seq m
      then scheduleSyncAck env m True (count_central (duplicateFlowModEventsSuppressed_update incr) n)
      else applyFlowMod env m n)"

definition scheduleFlowMod :: "env \<Rightarrow> control_message \<Rightarrow> node \<Rightarrow> node" where
  "scheduleFlowMod env m n =
     (let profile = getDelayProfile (cm_seq m) (n_central n);
          (d, n) = delay_of env FlowModDelay
                     (fc_controllerDelay (n_central n) + fc_flowModLegDelay (n_central n) +
                      dp_flowModExtra profile) (fc_flowModLegJitter (n_central n)) n
      in snd (node_schedule d (AttemptFlowMod m) n))"

definition acceptControl :: "env \<Rightarrow> control_message \<Rightarrow> node \<Rightarrow> exn + node" where
  "acceptControl env m n =
     (let n = count_central (packetInsDelivered_update incr) n in
      if isExpiredAt (node_now n) m
      then Inr (count_central (expiredPacketInsRejected_update incr) n)
      else if \<not> fc_guard (n_central n) then Inr (scheduleFlowMod env m n)
      else
        let s = get_prefix_state (cm_prefix m) n;
            n = set_prefix_state (cm_prefix m) s n
        in
        if ps_hasAccepted s \<and> cm_seq m < ps_highestAccepted s
        then Inr (count_central (stalePacketInsRejected_update incr) n)
        else if ps_hasAccepted s \<and> cm_seq m = ps_highestAccepted s
        then let n = count_central (duplicatePacketIns_update incr) n in
             if \<not> sameUpdate m (ps_acceptedMessage s)
             then Inr (count_central (conflictingPacketInsRejected_update incr) n)
             else if ps_hasApplied s \<and> ps_highestApplied s = cm_seq m
             then scheduleSyncAck env m True n
             else Inr (scheduleFlowMod env m n)
        else Inr (scheduleFlowMod env m
               (set_prefix_state (cm_prefix m)
                  (s\<lparr>ps_hasAccepted := True, ps_highestAccepted := cm_seq m,
                     ps_acceptedMessage := m\<rparr>) n)))"

definition submitFlowUpdate :: "env \<Rightarrow> control_message \<Rightarrow> node \<Rightarrow> exn + node" where
  "submitFlowUpdate env m n =
     (let n = count_central (packetIns_update incr) n;
          (d, n) = drop_control env n
      in if d then Inr (count_central (packetInsDropped_update incr) n)
         else
           let profile = getDelayProfile (cm_seq m) (n_central n);
               (d, n) = delay_of env ControlDelay
                          (fc_controlLegDelay (n_central n) + dp_controlExtra profile)
                          (fc_controlLegJitter (n_central n)) n
           in if d \<le> 0 then acceptControl env m n
              else Inr (snd (node_schedule d (AcceptControl m) n)))"

definition getHighestAccepted :: "name \<Rightarrow> flow_controller \<Rightarrow> u64 option" where
  "getHighestAccepted p c =
     (case fmlookup (fc_prefixStates c) p of
        Some s \<Rightarrow> if ps_hasAccepted s then Some (ps_highestAccepted s) else None
      | None \<Rightarrow> None)"

definition getHighestApplied :: "name \<Rightarrow> flow_controller \<Rightarrow> (u64 \<times> port) option" where
  "getHighestApplied p c =
     (case fmlookup (fc_prefixStates c) p of
        Some s \<Rightarrow> if ps_hasApplied s
                  then Some (ps_highestApplied s, cm_outputPort (ps_appliedMessage s)) else None
      | None \<Rightarrow> None)"

section \<open>Local controller: admission and retry\<close>

text \<open>The lifetime of an update: the supplied one, or the configured default.\<close>

definition route_lifetime :: "int \<Rightarrow> local_controller \<Rightarrow> exn + sim_time" where
  "route_lifetime ttl l =
     (if ttl < 0 then Inl InvalidArgument
      else let supplied = us_to_ns ttl in
           if supplied > 0 \<and> lc_entryLifetime l > 0 \<and> supplied \<noteq> lc_entryLifetime l
           then Inl InvalidArgument
           else Inr (if supplied > 0 then supplied else lc_entryLifetime l))"

text \<open>Replace the temporary route of the prefix, then restart its lifetime timer.\<close>

definition storeRoute :: "name \<Rightarrow> port \<Rightarrow> u64 \<Rightarrow> sim_time \<Rightarrow> sim_time \<Rightarrow> node \<Rightarrow> node" where
  "storeRoute p pt s lifetime expiry n =
     (let n = (if fmlookup (lc_seqMap (n_local n)) p \<noteq> None
               then on_local (\<lambda>l. l\<lparr>lc_fib := snd (tfib_erase p (lc_fib l))\<rparr>) n else n);
          deadline = (if lifetime > 0 then node_now n + lifetime else TimePoint_max);
          n = on_local (\<lambda>l. l\<lparr>lc_seqMap := fmupd p s (lc_seqMap l),
                 lc_routeExpiries := fmupd p expiry (lc_routeExpiries l),
                 lc_fib := snd (insertUntil (node_now n) p pt deadline (lc_fib l))\<rparr>) n
      in count_local (tempUpdates_update incr) n)"

definition publishRoute :: "name \<Rightarrow> port \<Rightarrow> u64 \<Rightarrow> sim_time \<Rightarrow> sim_time \<Rightarrow> node \<Rightarrow> node" where
  "publishRoute p pt s lifetime expiry n =
     (let n = storeRoute p pt s lifetime expiry n;
          n = cancelLifetimeTimer p n
      in if lifetime > 0
         then let (i, n) = node_schedule lifetime (ExpireEntryBySeq p s) n
              in on_local (\<lambda>l. l\<lparr>lc_lifetimeTimers := fmupd p i (lc_lifetimeTimers l)\<rparr>) n
         else n)"

definition openRequest :: "name \<Rightarrow> u64 \<Rightarrow> control_message \<Rightarrow> node \<Rightarrow> node" where
  "openRequest p s m n =
     (if lc_retryTimeout (n_local n) > 0
      then let n = dropPending p n;
               (i, n) = node_schedule (lc_retryTimeout (n_local n)) (ControllerRetryTimeout p s) n
           in on_local (\<lambda>l. l\<lparr>lc_pending := fmupd p \<lparr>pq_seq = s, pq_retriesLeft = lc_retryLimit l,
                 pq_timer = i, pq_msg = m\<rparr> (lc_pending l)\<rparr>) n
      else n)"

text \<open>\<^verbatim>\<open>LocalRouteController::applyTraceUpdate\<close>.\<close>

definition local_applyTraceUpdate ::
  "env \<Rightarrow> name \<Rightarrow> byte list \<Rightarrow> nat \<Rightarrow> port \<Rightarrow> u64 \<Rightarrow> int \<Rightarrow> node \<Rightarrow> exn + (bool \<times> node)" where
  "local_applyTraceUpdate env p hashes prefixLen pt s ttl n =
     bind_exn (route_lifetime ttl (n_local n)) (\<lambda>lifetime.
       let expiry = (if lifetime > 0 then node_now n + lifetime else 0) in
       if lc_guard (n_local n) \<and>
          (case fmlookup (lc_highestSeenSeq (n_local n)) p of Some high \<Rightarrow> s \<le> high | None \<Rightarrow> False)
       then Inr (False, count_local (staleTraceUpdatesRejected_update incr) n)
       else
         let n = (if lc_guard (n_local n)
                  then on_local (\<lambda>l. l\<lparr>lc_highestSeenSeq := fmupd p s (lc_highestSeenSeq l)\<rparr>) n
                  else n)
         in
         if (case fmlookup (lc_seqMap (n_local n)) p of Some old \<Rightarrow> s \<le> old | None \<Rightarrow> False)
         then Inr (False, count_local (staleTraceUpdatesRejected_update incr) n)
         else
           let n = publishRoute p pt s lifetime expiry n in
           if lc_hasSyncRequestCb (n_local n)
           then let n = count_local (controlPackets_update incr) n;
                    m = \<lparr>cm_type = CT_PACKET_IN, cm_nameHashes = hashes, cm_prefixLen = prefixLen,
                         cm_outputPort = pt, cm_prefix = p, cm_seq = s, cm_routeExpiry = expiry\<rparr>;
                    n = openRequest p s m n
                in bind_exn (submitFlowUpdate env m n) (\<lambda>n. Inr (True, n))
           else Inr (True, n))"

definition retryRequest :: "env \<Rightarrow> name \<Rightarrow> u64 \<Rightarrow> pending_request \<Rightarrow> node \<Rightarrow> exn + node" where
  "retryRequest env p s r n =
     (let n = on_local (\<lambda>l. l\<lparr>lc_pending :=
                 fmupd p (r\<lparr>pq_retriesLeft := pq_retriesLeft r - 1\<rparr>) (lc_pending l)\<rparr>) n;
          n = count_local (controllerRetries_update incr) n;
          n = count_local (controlPackets_update incr) n
      in bind_exn (if lc_hasSyncRequestCb (n_local n) then submitFlowUpdate env (pq_msg r) n else Inr n)
           (\<lambda>n. case fmlookup (lc_pending (n_local n)) p of
                  Some r' \<Rightarrow>
                    if pq_seq r' = s
                    then let (i, n) = node_schedule (lc_retryTimeout (n_local n))
                                        (ControllerRetryTimeout p s) n
                         in Inr (on_local (\<lambda>l. l\<lparr>lc_pending :=
                                   fmupd p (r'\<lparr>pq_timer := i\<rparr>) (lc_pending l)\<rparr>) n)
                    else Inr n
                | None \<Rightarrow> Inr n))"

definition onControllerRetryTimeout :: "env \<Rightarrow> name \<Rightarrow> u64 \<Rightarrow> node \<Rightarrow> exn + node" where
  "onControllerRetryTimeout env p s n =
     (case fmlookup (lc_pending (n_local n)) p of
        None \<Rightarrow> Inr n
      | Some r \<Rightarrow>
          if pq_seq r \<noteq> s then Inr n
          else if fmlookup (lc_seqMap (n_local n)) p \<noteq> Some s
          then Inr (on_local (\<lambda>l. l\<lparr>lc_pending := fmdrop p (lc_pending l)\<rparr>) n)
          else if pq_retriesLeft r > 0 then retryRequest env p s r n
          else
            let n = count_local (temporaryRouteWithdrawals_update incr) n;
                n = dropRoute p n;
                n = cancelLifetimeTimer p n
            in Inr (on_local (\<lambda>l. l\<lparr>lc_pending := fmdrop p (lc_pending l)\<rparr>) n))"

end
