(* ===== verification/Route_Invariants.thy ===== *)
theory Route_Invariants
  imports Route_Control
begin

text \<open>
  The invariant of the local route controller and its timers.  A route has a sequence number
  and an expiry; a finite lease has exactly one live timer, which fires at the expiry; a
  pending request belongs to the current generation and has exactly one live retry timer; the
  temporary FIB holds at most one hop per prefix, with the deadline of the route.  While the
  handler of a timer runs, its prefix is exempt: \<open>X\<close> holds the prefix of a running lease
  timer, \<open>Y\<close> that of a running retry timer, \<open>Z\<close> a prefix whose pending request is being
  replaced.
\<close>

section \<open>The invariant\<close>

definition deadline_of :: "sim_time \<Rightarrow> sim_time" where
  "deadline_of x = (if x = 0 then TimePoint_max else x)"

definition single_hop :: "name \<Rightarrow> port \<Rightarrow> sim_time \<Rightarrow> forwarding_entry" where
  "single_hop p pt d = \<lparr>m_prefix = p, m_nextHops = fmupd pt \<lparr>nh_port = pt, nh_deadline = d\<rparr> fmempty\<rparr>"

definition routes_ok :: "local_controller \<Rightarrow> bool" where
  "routes_ok l \<longleftrightarrow> fmdom (lc_seqMap l) = fmdom (lc_routeExpiries l) \<and>
     (\<forall>p x. fmlookup (lc_routeExpiries l) p = Some x \<longrightarrow> 0 \<le> x) \<and>
     (\<forall>p e. fmlookup (lc_fib l) p = Some e \<longrightarrow>
        (\<exists>pt x. fmlookup (lc_routeExpiries l) p = Some x \<and> e = single_hop p pt (deadline_of x))) \<and>
     (lc_guard l \<longrightarrow> (\<forall>p s. fmlookup (lc_seqMap l) p = Some s \<longrightarrow> fmlookup (lc_highestSeenSeq l) p = Some s)) \<and>
     0 \<le> lc_entryLifetime l"

definition lease_ok :: "name set \<Rightarrow> act sim \<Rightarrow> local_controller \<Rightarrow> bool" where
  "lease_ok X sm l \<longleftrightarrow>
     (\<forall>p s i. p \<notin> X \<longrightarrow> ((ExpireEntryBySeq p s, i) \<in> live_timers sm \<longleftrightarrow>
        fmlookup (lc_lifetimeTimers l) p = Some i \<and> fmlookup (lc_seqMap l) p = Some s)) \<and>
     (\<forall>p \<in> X. (\<forall>s i. (ExpireEntryBySeq p s, i) \<notin> live_timers sm) \<and>
        (\<forall>i. fmlookup (lc_lifetimeTimers l) p = Some i \<longrightarrow> past_id sm i)) \<and>
     (\<forall>p i. fmlookup (lc_lifetimeTimers l) p = Some i \<longrightarrow>
        fmlookup (lc_routeExpiries l) p = Some (id_ts i) \<and> 0 < id_ts i) \<and>
     (\<forall>p x. fmlookup (lc_routeExpiries l) p = Some x \<longrightarrow> x \<noteq> 0 \<longrightarrow> fmlookup (lc_lifetimeTimers l) p \<noteq> None)"

definition request_ok :: "name \<Rightarrow> pending_request \<Rightarrow> local_controller \<Rightarrow> bool" where
  "request_ok p r l \<longleftrightarrow> fmlookup (lc_seqMap l) p = Some (pq_seq r) \<and> cm_prefix (pq_msg r) = p \<and>
     cm_seq (pq_msg r) = pq_seq r \<and> fmlookup (lc_routeExpiries l) p = Some (cm_routeExpiry (pq_msg r))"

definition retry_ok :: "name set \<Rightarrow> name set \<Rightarrow> act sim \<Rightarrow> local_controller \<Rightarrow> bool" where
  "retry_ok Y Z sm l \<longleftrightarrow>
     (\<forall>p s i. p \<notin> Y \<longrightarrow> ((ControllerRetryTimeout p s, i) \<in> live_timers sm \<longleftrightarrow>
        (\<exists>r. fmlookup (lc_pending l) p = Some r \<and> pq_timer r = i \<and> pq_seq r = s))) \<and>
     (\<forall>p \<in> Y. (\<forall>s i. (ControllerRetryTimeout p s, i) \<notin> live_timers sm) \<and>
        (\<forall>r. fmlookup (lc_pending l) p = Some r \<longrightarrow> past_id sm (pq_timer r))) \<and>
     (\<forall>p r. p \<notin> Z \<longrightarrow> fmlookup (lc_pending l) p = Some r \<longrightarrow> request_ok p r l) \<and>
     (\<forall>p r. fmlookup (lc_pending l) p = Some r \<longrightarrow> 0 < lc_retryTimeout l \<and> lc_hasSyncRequestCb l)"

definition linv :: "name set \<Rightarrow> name set \<Rightarrow> name set \<Rightarrow> node \<Rightarrow> bool" where
  "linv X Y Z n \<longleftrightarrow> sim_ok (n_sim n) \<and> 0 \<le> node_now n \<and> routes_ok (n_local n) \<and>
     lease_ok X (n_sim n) (n_local n) \<and> retry_ok Y Z (n_sim n) (n_local n)"

lemmas linv_defs = linv_def routes_ok_def lease_ok_def retry_ok_def request_ok_def

abbreviation local_inv :: "node \<Rightarrow> bool" where
  "local_inv \<equiv> linv {} {} {}"

section \<open>Frame\<close>

lemma on_central_frame [simp, frame]:
  "n_sim (on_central f n) = n_sim n" "n_local (on_central f n) = n_local n"
  "n_switch (on_central f n) = n_switch n" "n_engine (on_central f n) = n_engine n"
  "n_central (on_central f n) = f (n_central n)" "n_sent (on_central f n) = n_sent n"
  by (simp_all add: on_central_def)

lemma on_engine_frame [simp, frame]:
  "n_sim (on_engine f n) = n_sim n" "n_local (on_engine f n) = n_local n"
  "n_switch (on_engine f n) = n_switch n" "n_central (on_engine f n) = n_central n"
  "n_engine (on_engine f n) = f (n_engine n)" "n_sent (on_engine f n) = n_sent n"
  by (simp_all add: on_engine_def)

lemma on_local_frame [simp, frame]:
  "n_sim (on_local f n) = n_sim n" "n_central (on_local f n) = n_central n"
  "n_switch (on_local f n) = n_switch n" "n_engine (on_local f n) = n_engine n"
  "n_local (on_local f n) = f (n_local n)" "n_sent (on_local f n) = n_sent n"
  by (simp_all add: on_local_def)

lemma node_schedule_frame [simp, frame]:
  "n_local (snd (node_schedule d a n)) = n_local n" "n_central (snd (node_schedule d a n)) = n_central n"
  "n_switch (snd (node_schedule d a n)) = n_switch n" "n_engine (snd (node_schedule d a n)) = n_engine n"
  "n_sim (snd (node_schedule d a n)) = snd (Schedule d a (n_sim n))"
  "fst (node_schedule d a n) = fst (Schedule d a (n_sim n))" "n_sent (snd (node_schedule d a n)) = n_sent n"
  by (simp_all add: node_schedule_def case_prod_beta)

lemma node_cancel_frame [simp, frame]:
  "n_local (node_cancel i n) = n_local n" "n_central (node_cancel i n) = n_central n"
  "n_switch (node_cancel i n) = n_switch n" "n_engine (node_cancel i n) = n_engine n"
  "n_sim (node_cancel i n) = Cancel i (n_sim n)" "n_sent (node_cancel i n) = n_sent n"
  by (simp_all add: node_cancel_def)

lemma linv_frame [simp]:
  "linv X Y Z (on_central f n) = linv X Y Z n" "linv X Y Z (on_engine g n) = linv X Y Z n"
  "linv X Y Z (n\<lparr>n_switch := sw\<rparr>) = linv X Y Z n" "linv X Y Z (count_central h n) = linv X Y Z n"
  "linv X Y Z (count_engine k n) = linv X Y Z n" "linv X Y Z (n\<lparr>n_sent := sent\<rparr>) = linv X Y Z n"
  by (simp_all add: linv_def count_central_def count_engine_def)

lemma linv_count_local [simp]: "linv X Y Z (count_local f n) = linv X Y Z n"
  by (simp add: linv_defs count_local_def)

lemma linv_completed [simp]:
  "linv X Y Z (on_local (\<lambda>l. l\<lparr>lc_completed := c l\<rparr>) n) = linv X Y Z n"
  by (simp add: linv_defs)

section \<open>Scheduling and cancelling\<close>

definition timer_act :: "act \<Rightarrow> bool" where
  "timer_act a \<longleftrightarrow> (\<exists>p s. a = ExpireEntryBySeq p s \<or> a = ControllerRetryTimeout p s)"

lemma linv_schedule:
  assumes "linv X Y Z n" and "0 \<le> d" and "\<not> timer_act a"
  shows "linv X Y Z (snd (node_schedule d a n))"
  using assms sim_ok_Schedule [of "n_sim n" d a]
  by (auto simp: linv_defs live_timers_Schedule timer_act_def)

text \<open>Cancelling the timer of a prefix removes it from the live ones, whether it is live or
  has just been taken from the queue.\<close>

lemma cancel_timer:
  assumes "sim_ok sm" and "past_id sm i \<or> (a, i) \<in> live_timers sm"
  shows "live_timers (Cancel i sm) = live_timers sm - {(b, j). j = i}"
    and "sim_ok (Cancel i sm)"
proof -
  show "sim_ok (Cancel i sm)" by (rule sim_ok_Cancel [OF assms(1)])
  show "live_timers (Cancel i sm) = live_timers sm - {(b, j). j = i}"
  proof (cases "past_id sm i")
    case True
    then show ?thesis
      using live_not_past [OF assms(1)] by (auto simp: Cancel_past)
  next
    case False
    with assms have "(a, i) \<in> live_timers sm" by blast
    then show ?thesis
      using live_timers_Cancel [OF assms(1)] live_id_unique [OF assms(1)] by blast
  qed
qed

definition lease_act :: "name \<Rightarrow> act \<Rightarrow> bool" where
  "lease_act p a \<longleftrightarrow> (\<exists>s. a = ExpireEntryBySeq p s)"

definition retry_act :: "name \<Rightarrow> act \<Rightarrow> bool" where
  "retry_act p a \<longleftrightarrow> (\<exists>s. a = ControllerRetryTimeout p s)"

definition without :: "(act \<Rightarrow> bool) \<Rightarrow> (act \<times> event_id) set \<Rightarrow> (act \<times> event_id) set" where
  "without P T = {(a, i) \<in> T. \<not> P a}"

lemma fmdrop_idle_None: "fmlookup m k = None \<Longrightarrow> fmdrop k m = m"
  by (rule fmap_ext) auto

text \<open>The lease timer of \<open>p\<close> is the live action \<open>ExpireEntryBySeq p _\<close>.\<close>

definition lease_timer :: "name \<Rightarrow> node \<Rightarrow> bool" where
  "lease_timer p n \<longleftrightarrow>
     (\<forall>s i. (ExpireEntryBySeq p s, i) \<in> live_timers (n_sim n) \<longrightarrow>
        fmlookup (lc_lifetimeTimers (n_local n)) p = Some i) \<and>
     (\<forall>i. fmlookup (lc_lifetimeTimers (n_local n)) p = Some i \<longrightarrow>
        past_id (n_sim n) i \<or> (\<exists>s. (ExpireEntryBySeq p s, i) \<in> live_timers (n_sim n)))"

definition retry_timer :: "name \<Rightarrow> node \<Rightarrow> bool" where
  "retry_timer p n \<longleftrightarrow>
     (\<forall>s i. (ControllerRetryTimeout p s, i) \<in> live_timers (n_sim n) \<longrightarrow>
        (\<exists>r. fmlookup (lc_pending (n_local n)) p = Some r \<and> pq_timer r = i)) \<and>
     (\<forall>r. fmlookup (lc_pending (n_local n)) p = Some r \<longrightarrow>
        past_id (n_sim n) (pq_timer r) \<or>
        (\<exists>s. (ControllerRetryTimeout p s, pq_timer r) \<in> live_timers (n_sim n)))"

lemma linv_lease_timer:
  assumes "linv X Y Z n"
  shows "lease_timer p n"
proof (cases "p \<in> X")
  case False
  have timer: "(ExpireEntryBySeq p s, i) \<in> live_timers (n_sim n) \<longleftrightarrow>
      fmlookup (lc_lifetimeTimers (n_local n)) p = Some i \<and> fmlookup (lc_seqMap (n_local n)) p = Some s"
    for s i
    using assms False by (simp add: linv_def lease_ok_def)
  have "fmlookup (lc_seqMap (n_local n)) p \<noteq> None"
    if "fmlookup (lc_lifetimeTimers (n_local n)) p = Some i" for i
  proof -
    have "fmlookup (lc_routeExpiries (n_local n)) p = Some (id_ts i)"
      using assms that by (simp add: linv_def lease_ok_def)
    then have "p |\<in>| fmdom (lc_seqMap (n_local n))"
      using assms by (auto simp: linv_def routes_ok_def intro: fmdomI)
    then show ?thesis by auto
  qed
  with timer show ?thesis by (auto simp: lease_timer_def)
next
  case True
  have "\<forall>s i. (ExpireEntryBySeq p s, i) \<notin> live_timers (n_sim n)"
    "\<forall>i. fmlookup (lc_lifetimeTimers (n_local n)) p = Some i \<longrightarrow> past_id (n_sim n) i"
    using assms True by (simp_all add: linv_def lease_ok_def)
  then show ?thesis by (auto simp: lease_timer_def)
qed

lemma linv_retry_timer:
  assumes "linv X Y Z n"
  shows "retry_timer p n"
proof (cases "p \<in> Y")
  case False
  have "(ControllerRetryTimeout p s, i) \<in> live_timers (n_sim n) \<longleftrightarrow>
      (\<exists>r. fmlookup (lc_pending (n_local n)) p = Some r \<and> pq_timer r = i \<and> pq_seq r = s)" for s i
    using assms False by (simp add: linv_def retry_ok_def)
  then show ?thesis by (auto simp: retry_timer_def)
next
  case True
  have "\<forall>s i. (ControllerRetryTimeout p s, i) \<notin> live_timers (n_sim n)"
    "\<forall>r. fmlookup (lc_pending (n_local n)) p = Some r \<longrightarrow> past_id (n_sim n) (pq_timer r)"
    using assms True by (simp_all add: linv_def retry_ok_def)
  then show ?thesis by (auto simp: retry_timer_def)
qed

lemma cancelLifetimeTimer_effect:
  assumes ok: "sim_ok (n_sim n)" and timer: "lease_timer p n"
  shows "n_local (cancelLifetimeTimer p n) =
      (n_local n)\<lparr>lc_lifetimeTimers := fmdrop p (lc_lifetimeTimers (n_local n))\<rparr>"
    and "live_timers (n_sim (cancelLifetimeTimer p n)) = without (lease_act p) (live_timers (n_sim n))"
    and "sim_ok (n_sim (cancelLifetimeTimer p n))"
    and "past_id (n_sim (cancelLifetimeTimer p n)) = past_id (n_sim n)"
    and "Now (n_sim (cancelLifetimeTimer p n)) = Now (n_sim n)"
proof -
  show "n_local (cancelLifetimeTimer p n) =
      (n_local n)\<lparr>lc_lifetimeTimers := fmdrop p (lc_lifetimeTimers (n_local n))\<rparr>"
    by (auto simp: cancelLifetimeTimer_def fmdrop_idle_None split: option.splits)
  show "sim_ok (n_sim (cancelLifetimeTimer p n))"
    using ok by (auto simp: cancelLifetimeTimer_def sim_ok_Cancel split: option.splits)
  show "past_id (n_sim (cancelLifetimeTimer p n)) = past_id (n_sim n)"
    "Now (n_sim (cancelLifetimeTimer p n)) = Now (n_sim n)"
    by (auto simp: cancelLifetimeTimer_def fun_eq_iff split: option.splits)
  show "live_timers (n_sim (cancelLifetimeTimer p n)) = without (lease_act p) (live_timers (n_sim n))"
  proof (cases "fmlookup (lc_lifetimeTimers (n_local n)) p")
    case None
    then show ?thesis
      using timer by (auto simp: cancelLifetimeTimer_def without_def lease_act_def lease_timer_def)
  next
    case (Some i)
    then obtain a where a: "past_id (n_sim n) i \<or> (a, i) \<in> live_timers (n_sim n)"
      "past_id (n_sim n) i \<or> lease_act p a"
      using timer unfolding lease_timer_def lease_act_def by blast
    have "(b, i) \<in> live_timers (n_sim n) \<Longrightarrow> lease_act p b" for b
      using a live_id_unique [OF ok] live_not_past [OF ok] by blast
    then show ?thesis
      using cancel_timer(1) [OF ok a(1)] Some timer
      by (auto simp: cancelLifetimeTimer_def without_def lease_timer_def lease_act_def)
  qed
qed

lemma dropPending_effect:
  assumes ok: "sim_ok (n_sim n)" and timer: "retry_timer p n"
  shows "n_local (dropPending p n) = (n_local n)\<lparr>lc_pending := fmdrop p (lc_pending (n_local n))\<rparr>"
    and "live_timers (n_sim (dropPending p n)) = without (retry_act p) (live_timers (n_sim n))"
    and "sim_ok (n_sim (dropPending p n))"
    and "past_id (n_sim (dropPending p n)) = past_id (n_sim n)"
    and "Now (n_sim (dropPending p n)) = Now (n_sim n)"
proof -
  show "n_local (dropPending p n) = (n_local n)\<lparr>lc_pending := fmdrop p (lc_pending (n_local n))\<rparr>"
    by (auto simp: dropPending_def fmdrop_idle_None split: option.splits)
  show "sim_ok (n_sim (dropPending p n))"
    using ok by (auto simp: dropPending_def sim_ok_Cancel split: option.splits)
  show "past_id (n_sim (dropPending p n)) = past_id (n_sim n)"
    "Now (n_sim (dropPending p n)) = Now (n_sim n)"
    by (auto simp: dropPending_def fun_eq_iff split: option.splits)
  show "live_timers (n_sim (dropPending p n)) = without (retry_act p) (live_timers (n_sim n))"
  proof (cases "fmlookup (lc_pending (n_local n)) p")
    case None
    then show ?thesis
      using timer by (auto simp: dropPending_def without_def retry_act_def retry_timer_def)
  next
    case (Some r)
    then obtain a where a: "past_id (n_sim n) (pq_timer r) \<or> (a, pq_timer r) \<in> live_timers (n_sim n)"
      "past_id (n_sim n) (pq_timer r) \<or> retry_act p a"
      using timer unfolding retry_timer_def retry_act_def by blast
    have "(b, pq_timer r) \<in> live_timers (n_sim n) \<Longrightarrow> retry_act p b" for b
      using a live_id_unique [OF ok] live_not_past [OF ok] by blast
    then show ?thesis
      using cancel_timer(1) [OF ok a(1)] Some timer
      by (auto simp: dropPending_def without_def retry_timer_def retry_act_def)
  qed
qed

section \<open>Forgetting a route\<close>

definition forgotten :: "name \<Rightarrow> local_controller \<Rightarrow> local_controller" where
  "forgotten p l = l\<lparr>lc_fib := fmdrop p (lc_fib l), lc_seqMap := fmdrop p (lc_seqMap l),
     lc_routeExpiries := fmdrop p (lc_routeExpiries l),
     lc_lifetimeTimers := fmdrop p (lc_lifetimeTimers l), lc_pending := fmdrop p (lc_pending l)\<rparr>"

lemma without_iff [simp]:
  "(a, i) \<in> without P T \<longleftrightarrow> (a, i) \<in> T \<and> \<not> P a"
  by (simp add: without_def)

lemma timer_act_iff [simp]:
  "lease_act p (ExpireEntryBySeq q s) \<longleftrightarrow> q = p" "\<not> lease_act p (ControllerRetryTimeout q s)"
  "retry_act p (ControllerRetryTimeout q s) \<longleftrightarrow> q = p" "\<not> retry_act p (ExpireEntryBySeq q s)"
  by (auto simp: lease_act_def retry_act_def)

lemma linv_forgotten:
  assumes inv: "linv X Y Z n" and sim: "sim_ok (n_sim n')" "node_now n' = node_now n"
    and past: "past_id (n_sim n') = past_id (n_sim n)"
    and live: "live_timers (n_sim n') = without (lease_act p) (without (retry_act p) (live_timers (n_sim n)))"
    and l: "n_local n' = forgotten p (n_local n)"
  shows "linv (X - {p}) (Y - {p}) (Z - {p}) n'"
proof -
  let ?l = "n_local n"
  have "routes_ok (forgotten p ?l)"
    using inv by (auto simp: linv_def routes_ok_def forgotten_def split: if_splits)
  moreover have "lease_ok (X - {p}) (n_sim n') (forgotten p ?l)"
  proof -
    have "(ExpireEntryBySeq q s, i) \<in> live_timers (n_sim n') \<longleftrightarrow>
        fmlookup (lc_lifetimeTimers (forgotten p ?l)) q = Some i \<and>
        fmlookup (lc_seqMap (forgotten p ?l)) q = Some s" if "q \<notin> X - {p}" for q s i
      using that inv by (cases "q = p") (auto simp: live forgotten_def linv_def lease_ok_def)
    then show ?thesis
      using inv by (auto simp: live past forgotten_def linv_def lease_ok_def split: if_splits)
  qed
  moreover have "retry_ok (Y - {p}) (Z - {p}) (n_sim n') (forgotten p ?l)"
  proof -
    have "(ControllerRetryTimeout q s, i) \<in> live_timers (n_sim n') \<longleftrightarrow>
        (\<exists>r. fmlookup (lc_pending (forgotten p ?l)) q = Some r \<and> pq_timer r = i \<and> pq_seq r = s)"
      if "q \<notin> Y - {p}" for q s i
      using that inv by (cases "q = p") (auto simp: live forgotten_def linv_def retry_ok_def)
    then show ?thesis
      using inv
      by (auto simp: live past forgotten_def linv_def retry_ok_def request_ok_def split: if_splits)
  qed
  ultimately show ?thesis
    using inv sim by (simp add: linv_def l)
qed

lemma dropRoute_effect [simp]:
  "n_sim (dropRoute p n) = n_sim n"
  "n_local (dropRoute p n) = (n_local n)\<lparr>lc_fib := fmdrop p (lc_fib (n_local n)),
     lc_seqMap := fmdrop p (lc_seqMap (n_local n)),
     lc_routeExpiries := fmdrop p (lc_routeExpiries (n_local n))\<rparr>"
  by (simp_all add: dropRoute_def tfib_erase_def)

lemma timers_frame:
  assumes "n_sim n' = n_sim n"
  shows "lc_lifetimeTimers (n_local n') = lc_lifetimeTimers (n_local n) \<Longrightarrow> lease_timer p n' = lease_timer p n"
    and "lc_pending (n_local n') = lc_pending (n_local n) \<Longrightarrow> retry_timer p n' = retry_timer p n"
  using assms by (simp_all add: lease_timer_def retry_timer_def)

text \<open>Completion and expiry forget the route with both timers.\<close>

lemma forget_all:
  assumes "linv X Y Z n"
  shows "linv (X - {p}) (Y - {p}) (Z - {p}) (dropPending p (cancelLifetimeTimer p (dropRoute p n)))"
    and "n_local (dropPending p (cancelLifetimeTimer p (dropRoute p n))) = forgotten p (n_local n)"
proof -
  let ?a = "dropRoute p n" and ?b = "cancelLifetimeTimer p (dropRoute p n)"
  have ok: "sim_ok (n_sim ?a)" using assms by (simp add: linv_def)
  have lt: "lease_timer p ?a" and rt: "retry_timer p ?a"
    using linv_lease_timer [OF assms] linv_retry_timer [OF assms]
    by (simp_all add: lease_timer_def retry_timer_def)
  note b = cancelLifetimeTimer_effect [OF ok lt]
  have rt': "retry_timer p ?b"
    using rt unfolding retry_timer_def by (simp add: b)
  note c = dropPending_effect [OF b(3) rt']
  show l: "n_local (dropPending p ?b) = forgotten p (n_local n)"
    by (simp add: c b forgotten_def)
  show "linv (X - {p}) (Y - {p}) (Z - {p}) (dropPending p ?b)"
    by (rule linv_forgotten [OF assms _ _ _ _ l]) (auto simp: c b without_def)
qed

lemma minus_singleton_empty: "{} - {p} = {}" by simp

lemma linv_retry_exempt:
  assumes "linv X Y Z n" and "fmlookup (lc_pending (n_local n)) p = None"
  shows "linv X (insert p Y) Z n"
proof -
  have "(ControllerRetryTimeout p s, i) \<notin> live_timers (n_sim n)" for s i
    using assms by (cases "p \<in> Y") (auto simp: linv_def retry_ok_def)
  then show ?thesis
    using assms by (auto simp: linv_def retry_ok_def)
qed

lemma count_local_local [simp]:
  "n_local (count_local f n) = (n_local n)\<lparr>lc_counters := f (lc_counters (n_local n))\<rparr>"
  "n_sim (count_local f n) = n_sim n" "n_central (count_local f n) = n_central n"
  "n_switch (count_local f n) = n_switch n" "n_engine (count_local f n) = n_engine n"
  "n_sent (count_local f n) = n_sent n"
  by (simp_all add: count_local_def)

lemma count_central_frame [simp]:
  "n_central (count_central f n) = (n_central n)\<lparr>fc_counters := f (fc_counters (n_central n))\<rparr>"
  "n_sim (count_central f n) = n_sim n" "n_local (count_central f n) = n_local n"
  "n_switch (count_central f n) = n_switch n" "n_engine (count_central f n) = n_engine n"
  "n_sent (count_central f n) = n_sent n"
  by (simp_all add: count_central_def)

lemma count_engine_frame [simp]:
  "n_engine (count_engine f n) = (n_engine n)\<lparr>en_counters := f (en_counters (n_engine n))\<rparr>"
  "n_sim (count_engine f n) = n_sim n" "n_local (count_engine f n) = n_local n"
  "n_switch (count_engine f n) = n_switch n" "n_central (count_engine f n) = n_central n"
  "n_sent (count_engine f n) = n_sent n"
  by (simp_all add: count_engine_def)

text \<open>An acknowledgement that the local controller accepts: for its current generation and
  deadline, before the deadline.\<close>

definition ack_accepted :: "control_message \<Rightarrow> node \<Rightarrow> bool" where
  "ack_accepted m n \<longleftrightarrow> cm_type m = CT_SYNC_ACK \<and>
     (\<exists>s x. fmlookup (lc_seqMap (n_local n)) (cm_prefix m) = Some s \<and>
        (s = cm_seq m \<or> \<not> lc_guard (n_local n) \<and> cm_seq m = 0) \<and>
        fmlookup (lc_routeExpiries (n_local n)) (cm_prefix m) = Some x \<and>
        cm_routeExpiry m = x \<and> \<not> (0 < x \<and> x \<le> node_now n))"

lemma handleControlResponse_cases:
  assumes "linv {} Y {} n"
  shows "\<exists>b n'. handleControlResponse m n = Inr (b, n') \<and> (b \<longleftrightarrow> ack_accepted m n) \<and>
    (\<not> b \<longrightarrow> (\<exists>f. n' = count_local f n)) \<and>
    (b \<longrightarrow> (\<exists>f c. n' = on_local (\<lambda>l. l\<lparr>lc_completed := c\<rparr>) (dropPending (cm_prefix m)
        (cancelLifetimeTimer (cm_prefix m) (dropRoute (cm_prefix m) (count_local f n))))))"
proof (cases "cm_type m = CT_SYNC_ACK")
  case False
  have id: "\<exists>f. n = count_local f n"
    by (rule exI [of _ "\<lambda>c. c"]) (simp add: count_local_def on_local_def)
  from False have "handleControlResponse m n = Inr (False, n)" "\<not> ack_accepted m n"
    by (simp_all add: handleControlResponse_def ack_accepted_def)
  then show ?thesis using id by blast
next
  case ack: True
  let ?p = "cm_prefix m" and ?l = "n_local n"
  show ?thesis
  proof (cases "fmlookup (lc_seqMap ?l) ?p")
    case None
    then show ?thesis using ack
      by (auto simp: handleControlResponse_def ack_accepted_def Let_def split: option.splits)
  next
    case (Some s)
    have "fmdom (lc_seqMap ?l) = fmdom (lc_routeExpiries ?l)"
      using assms by (simp add: linv_def routes_ok_def)
    with Some obtain x where x: "fmlookup (lc_routeExpiries ?l) ?p = Some x"
      by (metis fmdomI fmdom_notI not_None_eq)
    let ?n = "dropPending ?p (cancelLifetimeTimer ?p (dropRoute ?p (count_local (syncCompletions_update incr) n)))"
    have none: "?n = on_local (\<lambda>l. l\<lparr>lc_completed := lc_completed (n_local ?n)\<rparr>) ?n"
      by (simp add: on_local_def)
    have some: "on_local (\<lambda>l. l\<lparr>lc_completed := lc_completed l @ [?p]\<rparr>) ?n =
        on_local (\<lambda>l. l\<lparr>lc_completed := lc_completed (n_local ?n) @ [?p]\<rparr>) ?n"
      by (simp add: on_local_def)
    show ?thesis
    proof (cases "ack_accepted m n")
      case True
      then have "handleControlResponse m n = Inr (True, if lc_hasSyncCompleteCb (n_local ?n)
          then on_local (\<lambda>l. l\<lparr>lc_completed := lc_completed l @ [?p]\<rparr>) ?n else ?n)"
        using ack Some x by (auto simp: handleControlResponse_def ack_accepted_def Let_def)
      moreover have "\<exists>c. (if lc_hasSyncCompleteCb (n_local ?n)
          then on_local (\<lambda>l. l\<lparr>lc_completed := lc_completed l @ [?p]\<rparr>) ?n else ?n) =
          on_local (\<lambda>l. l\<lparr>lc_completed := c\<rparr>) ?n"
      proof (cases "lc_hasSyncCompleteCb (n_local ?n)")
        case True
        show ?thesis unfolding if_P [OF True] using some by blast
      next
        case False
        show ?thesis unfolding if_not_P [OF False] using none by blast
      qed
      ultimately show ?thesis using True by blast
    next
      case False
      then show ?thesis
        using ack Some x by (auto simp: handleControlResponse_def ack_accepted_def Let_def)
    qed
  qed
qed

text \<open>\<^verbatim>\<open>handleControlResponse\<close> never misses the expiry of a route that it has, and keeps
  the invariant.\<close>

lemma handleControlResponse_inv:
  assumes "linv {} Y {} n" and "handleControlResponse m n = Inr (b, n')"
  shows "linv {} Y {} n'"
proof (cases b)
  case True
  then obtain f c where n': "n' = on_local (\<lambda>l. l\<lparr>lc_completed := c\<rparr>) (dropPending (cm_prefix m)
      (cancelLifetimeTimer (cm_prefix m) (dropRoute (cm_prefix m) (count_local f n))))"
    using handleControlResponse_cases [OF assms(1), of m] assms(2) by auto
  have inv: "linv {} Y {} (count_local f n)" using assms(1) by simp
  let ?n = "dropPending (cm_prefix m)
      (cancelLifetimeTimer (cm_prefix m) (dropRoute (cm_prefix m) (count_local f n)))"
  have "linv {} (Y - {cm_prefix m}) {} ?n"
    using forget_all(1) [OF inv, of "cm_prefix m"] by simp
  moreover have "fmlookup (lc_pending (n_local ?n)) (cm_prefix m) = None"
    by (simp add: forget_all(2) [OF inv] forgotten_def)
  ultimately have "linv {} (insert (cm_prefix m) (Y - {cm_prefix m})) {} ?n"
    by (rule linv_retry_exempt)
  then have "linv {} Y {} ?n"
    using \<open>linv {} (Y - {cm_prefix m}) {} ?n\<close> by (cases "cm_prefix m \<in> Y") (auto simp: insert_absorb)
  then show ?thesis unfolding n' by simp
next
  case False
  then obtain f where "n' = count_local f n"
    using handleControlResponse_cases [OF assms(1), of m] assms(2) by auto
  then show ?thesis using assms(1) by simp
qed

section \<open>What the flow-table controller can do to a node\<close>

text \<open>The interface of the rest of the node to the flow-table controller: a predicate \<open>Q\<close> that
  does not look at the flow-table controller or the counters of the engine, and that a control
  response, the installation of a message with \<open>M\<close> and the scheduling of an action other than
  a timer keep, provided the message of the action has \<open>M\<close>.  The controller then keeps the
  predicate on every message with \<open>M\<close>, and never throws.\<close>

fun act_msg :: "act \<Rightarrow> control_message option" where
  "act_msg (AcceptControl m) = Some m"
| "act_msg (AttemptFlowMod m) = Some m"
| "act_msg (DeliverSyncAck m) = Some m"
| "act_msg _ = None"

locale control_invariant =
  fixes env :: env and Q :: "node \<Rightarrow> bool" and M :: "control_message \<Rightarrow> bool"
  assumes Q_central: "Q (on_central f n) = Q n"
    and Q_counters: "Q (count_engine k n) = Q n"
    and Q_steer: "Q (on_engine (\<lambda>e. e\<lparr>en_flowSteerPending := x, en_flowSteerSeq := y,
      en_flowSteerPrefix := z\<rparr>) n) = Q n"
    and Q_install: "Q n \<Longrightarrow> M m \<Longrightarrow> Q (n\<lparr>n_switch := installFibEntry (e_sort env) (cm_nameHashes m)
      (cm_outputPort m) (cm_routeExpiry m) (n_switch n)\<rparr>)"
    and Q_schedule: "Q n \<Longrightarrow> 0 \<le> d \<Longrightarrow> \<not> timer_act a \<Longrightarrow> (\<And>m. act_msg a = Some m \<Longrightarrow> M m) \<Longrightarrow>
      Q (snd (node_schedule d a n))"
    and Q_response: "Q n \<Longrightarrow> M m \<Longrightarrow> \<exists>b n'. handleControlResponse m n = Inr (b, n') \<and> Q n'"
    and M_type: "M (m\<lparr>cm_type := t\<rparr>) = M m"
begin

lemma Q_count: "Q (count_central h n) = Q n"
  by (simp add: count_central_def Q_central)

lemma Q_random:
  "Q (snd (drop_control env n)) = Q n" "Q (snd (drop_flowMod env n)) = Q n"
  "Q (snd (drop_syncAck env n)) = Q n" "Q (snd (delay_of env v base jitter n)) = Q n"
  by (simp_all add: drop_control_def drop_flowMod_def drop_syncAck_def delay_of_def Q_central
      case_prod_beta Let_def)

lemma Q_state: "Q (set_prefix_state p st n) = Q n"
  by (simp add: set_prefix_state_def Q_central)

lemmas Q_simps = Q_count Q_random Q_state Q_central Q_counters Q_steer M_type

lemma deliverSyncAck_keeps: "Q n \<Longrightarrow> M m \<Longrightarrow> \<exists>n'. deliverSyncAck env m n = Inr n' \<and> Q n'"
proof -
  assume Q: "Q n" and M: "M m"
  let ?c = "count_central (syncAckAttempts_update incr) n"
  obtain d n1 where d: "drop_syncAck env ?c = (d, n1)" by fastforce
  have n1: "Q n1" using Q_random(3) [of ?c] d Q by (simp add: Q_simps)
  then obtain b n2 where "handleControlResponse (m\<lparr>cm_type := CT_SYNC_ACK\<rparr>) n1 = Inr (b, n2)" "Q n2"
    using Q_response [of n1 "m\<lparr>cm_type := CT_SYNC_ACK\<rparr>"] M by (auto simp: M_type)
  then show ?thesis
    using Q n1 d by (simp add: deliverSyncAck_def Let_def Q_simps)
qed

lemma scheduleSyncAck_keeps: "Q n \<Longrightarrow> M m \<Longrightarrow> \<exists>n'. scheduleSyncAck env m replay n = Inr n' \<and> Q n'"
proof -
  assume Q: "Q n" and M: "M m"
  let ?n = "if replay then count_central (idempotentAckReplays_update incr) n else n"
  let ?d = "delay_of env SyncAckDelay (fc_syncAckLegDelay (n_central ?n) +
      dp_syncAckExtra (getDelayProfile (cm_seq m) (n_central ?n))) (fc_syncAckLegJitter (n_central ?n)) ?n"
  have "Q (snd ?d)" using Q by (simp add: Q_simps split: if_split)
  then show ?thesis
    using deliverSyncAck_keeps [of "snd ?d" m] Q_schedule [of "snd ?d" "fst ?d" "DeliverSyncAck m"] M
    by (auto simp: scheduleSyncAck_def Let_def case_prod_beta timer_act_def)
qed

lemma onFlowTableFlowMod_keeps: "Q n \<Longrightarrow> M m \<Longrightarrow> Q (snd (onFlowTableFlowMod env m n))"
  using Q_install [of "count_engine (flowTableUpdatesApplied_update incr) n" m]
    Q_install [of "on_engine (\<lambda>e. e\<lparr>en_flowSteerPending := True, en_flowSteerSeq := cm_seq m,
      en_flowSteerPrefix := cm_prefix m\<rparr>) (count_engine (flowTableUpdatesApplied_update incr) n)" m]
  by (simp add: onFlowTableFlowMod_def Let_def Q_simps)

lemma applyFlowMod_keeps: "Q n \<Longrightarrow> M m \<Longrightarrow> \<exists>n'. applyFlowMod env m n = Inr n' \<and> Q n'"
proof -
  assume Q: "Q n" and M: "M m"
  obtain d n1 where d: "drop_flowMod env n = (d, n1)" by fastforce
  have n1: "Q n1" using Q_random(2) [of n] d Q by simp
  obtain ok n2 where o: "onFlowTableFlowMod env (m\<lparr>cm_type := CT_FLOW_MOD\<rparr>) n1 = (ok, n2)" by fastforce
  have "Q n2" using onFlowTableFlowMod_keeps [OF n1, of "m\<lparr>cm_type := CT_FLOW_MOD\<rparr>"] o M
    by (simp add: M_type)
  then show ?thesis
    using n1 d o M scheduleSyncAck_keeps by (simp add: applyFlowMod_def Let_def Q_simps)
qed

lemma attemptFlowMod_keeps: "Q n \<Longrightarrow> M m \<Longrightarrow> \<exists>n'. attemptFlowMod env m n = Inr n' \<and> Q n'"
  using applyFlowMod_keeps scheduleSyncAck_keeps
  by (simp add: attemptFlowMod_def Let_def Q_simps)

lemma scheduleFlowMod_keeps: "env_ok env \<Longrightarrow> Q n \<Longrightarrow> M m \<Longrightarrow> Q (scheduleFlowMod env m n)"
proof -
  assume env: "env_ok env" and Q: "Q n" and M: "M m"
  have "0 \<le> fst (delay_of env v base jitter n)" for v base jitter
    using env by (simp add: delay_of_def sampleDelay_def env_ok_def Let_def case_prod_beta)
  then show ?thesis
    using Q M by (auto simp: scheduleFlowMod_def Let_def case_prod_beta Q_simps timer_act_def
        intro!: Q_schedule)
qed

lemma acceptControl_keeps:
  "env_ok env \<Longrightarrow> Q n \<Longrightarrow> M m \<Longrightarrow> \<exists>n'. acceptControl env m n = Inr n' \<and> Q n'"
  using scheduleFlowMod_keeps scheduleSyncAck_keeps
  by (simp add: acceptControl_def Let_def Q_simps)

lemma submitFlowUpdate_keeps:
  "env_ok env \<Longrightarrow> Q n \<Longrightarrow> M m \<Longrightarrow> \<exists>n'. submitFlowUpdate env m n = Inr n' \<and> Q n'"
proof -
  assume env: "env_ok env" and Q: "Q n" and M: "M m"
  let ?c = "count_central (packetIns_update incr) n"
  obtain d n1 where d: "drop_control env ?c = (d, n1)" by fastforce
  have n1: "Q n1" using Q_random(1) [of ?c] d Q by (simp add: Q_simps)
  let ?d = "delay_of env ControlDelay (fc_controlLegDelay (n_central n1) +
      dp_controlExtra (getDelayProfile (cm_seq m) (n_central n1))) (fc_controlLegJitter (n_central n1)) n1"
  have "Q (snd ?d)" using n1 by (simp add: Q_simps)
  then show ?thesis
    using n1 d M acceptControl_keeps [OF env, of "snd ?d" m]
      Q_schedule [of "snd ?d" "fst ?d" "AcceptControl m"]
    by (auto simp: submitFlowUpdate_def Let_def case_prod_beta Q_simps timer_act_def)
qed

end

text \<open>The invariant of the local controller is such a predicate, also while a retry timer runs;
  so is every upper bound on the pending requests.\<close>

interpretation local_control: control_invariant env "linv {} Y {}" "\<lambda>_. True" for env Y
proof
  show "\<exists>b n'. handleControlResponse m n = Inr (b, n') \<and> linv {} Y {} n'" if "linv {} Y {} n" for n m
    using handleControlResponse_cases [OF that, of m] handleControlResponse_inv [OF that] by blast
qed (simp_all add: linv_schedule)

definition pending_only :: "name set \<Rightarrow> name \<Rightarrow> pending_request \<Rightarrow> node \<Rightarrow> bool" where
  "pending_only Y p r n \<longleftrightarrow> linv {} Y {} n \<and>
     (\<forall>r'. fmlookup (lc_pending (n_local n)) p = Some r' \<longrightarrow> r' = r)"

interpretation pending_control: control_invariant env "pending_only Y p r" "\<lambda>_. True" for env Y p r
proof
  show "\<exists>b n'. handleControlResponse m n = Inr (b, n') \<and> pending_only Y p r n'"
    if "pending_only Y p r n" for n m
  proof -
    have inv: "linv {} Y {} n" using that by (simp add: pending_only_def)
    obtain b n' where h: "handleControlResponse m n = Inr (b, n')"
      and no: "\<not> b \<Longrightarrow> \<exists>f. n' = count_local f n"
      and yes: "b \<Longrightarrow> \<exists>f c. n' = on_local (\<lambda>l. l\<lparr>lc_completed := c\<rparr>) (dropPending (cm_prefix m)
        (cancelLifetimeTimer (cm_prefix m) (dropRoute (cm_prefix m) (count_local f n))))"
      using handleControlResponse_cases [OF inv, of m] by blast
    have "fmlookup (lc_pending (n_local n')) p = Some r' \<Longrightarrow> r' = r" for r'
    proof (cases b)
      case True
      then obtain f c where n': "n' = on_local (\<lambda>l. l\<lparr>lc_completed := c\<rparr>) (dropPending (cm_prefix m)
          (cancelLifetimeTimer (cm_prefix m) (dropRoute (cm_prefix m) (count_local f n))))"
        using yes by blast
      have "linv {} Y {} (count_local f n)" using inv by simp
      then show "fmlookup (lc_pending (n_local n')) p = Some r' \<Longrightarrow> r' = r"
        using that by (auto simp: n' forget_all(2) forgotten_def pending_only_def split: if_splits)
    next
      case False
      then obtain f where "n' = count_local f n" using no by blast
      then show "fmlookup (lc_pending (n_local n')) p = Some r' \<Longrightarrow> r' = r"
        using that by (auto simp: pending_only_def)
    qed
    then show ?thesis
      using h handleControlResponse_inv [OF inv h] by (auto simp: pending_only_def)
  qed
qed (auto simp: pending_only_def linv_schedule)

section \<open>Admitting an update\<close>

definition admitted ::
  "name \<Rightarrow> port \<Rightarrow> u64 \<Rightarrow> sim_time \<Rightarrow> (name, event_id) fmap \<Rightarrow> (name, u64) fmap \<Rightarrow> local_counters \<Rightarrow>
   local_controller \<Rightarrow> local_controller" where
  "admitted p pt s expiry timers high c l = l\<lparr>lc_highestSeenSeq := high,
     lc_seqMap := fmupd p s (lc_seqMap l), lc_routeExpiries := fmupd p expiry (lc_routeExpiries l),
     lc_fib := fmupd p (single_hop p pt (deadline_of expiry)) (lc_fib l),
     lc_lifetimeTimers := timers, lc_counters := c\<rparr>"

definition expiry_at :: "sim_time \<Rightarrow> node \<Rightarrow> sim_time" where
  "expiry_at lifetime n = (if lifetime > 0 then node_now n + lifetime else 0)"

lemma insertUntil_fresh:
  assumes "fmlookup t p = None"
  shows "snd (insertUntil now p pt d t) = fmupd p (single_hop p pt d) t"
  using assms by (simp add: insertUntil_def Let_def ForwardingEntry_def single_hop_def)

lemma fmupd_drop_same: "fmupd p v (fmdrop p m) = fmupd p v m"
  by (rule fmap_ext) auto

lemma storeRoute_effect:
  assumes inv: "linv {} {} {} n" and life: "0 \<le> lifetime"
    and n0: "n_sim n0 = n_sim n" "n_local n0 = (n_local n)\<lparr>lc_highestSeenSeq := high\<rparr>"
  shows "n_local (storeRoute p pt s lifetime (expiry_at lifetime n) n0) =
      admitted p pt s (expiry_at lifetime n) (lc_lifetimeTimers (n_local n)) high
        (tempUpdates_update incr (lc_counters (n_local n))) (n_local n)"
    and "n_sim (storeRoute p pt s lifetime (expiry_at lifetime n) n0) = n_sim n"
proof -
  let ?d = "if lifetime > 0 then node_now n + lifetime else TimePoint_max"
  have "0 \<le> node_now n" using inv by (simp add: linv_def)
  then have d: "?d = deadline_of (expiry_at lifetime n)" using life by (auto simp: deadline_of_def expiry_at_def)
  let ?n1 = "if fmlookup (lc_seqMap (n_local n0)) p \<noteq> None
       then on_local (\<lambda>l. l\<lparr>lc_fib := snd (tfib_erase p (lc_fib l))\<rparr>) n0 else n0"
  have fresh: "fmlookup (lc_fib (n_local ?n1)) p = None"
  proof (cases "fmlookup (lc_seqMap (n_local n)) p")
    case None
    then have "fmlookup (lc_routeExpiries (n_local n)) p = None"
      using inv unfolding linv_def routes_ok_def by (metis fmdom_notI fmdom_notD)
    then have "fmlookup (lc_fib (n_local n)) p = None"
      using inv unfolding linv_def routes_ok_def by (metis not_None_eq option.distinct(1))
    then show ?thesis using None by (simp add: n0)
  qed (simp add: n0 tfib_erase_def)
  have "fmupd p e (lc_fib (n_local ?n1)) = fmupd p e (lc_fib (n_local n))" for e
    by (simp add: n0 tfib_erase_def fmupd_drop_same)
  then have "snd (insertUntil (node_now n) p pt ?d (lc_fib (n_local ?n1))) =
      fmupd p (single_hop p pt (deadline_of (expiry_at lifetime n))) (lc_fib (n_local n))"
    unfolding insertUntil_fresh [OF fresh] d by blast
  then show "n_local (storeRoute p pt s lifetime (expiry_at lifetime n) n0) =
      admitted p pt s (expiry_at lifetime n) (lc_lifetimeTimers (n_local n)) high
        (tempUpdates_update incr (lc_counters (n_local n))) (n_local n)"
    by (cases "fmlookup (lc_seqMap (n_local n)) p"; cases "lifetime > 0")
      (simp_all add: storeRoute_def Let_def n0 admitted_def)
  show "n_sim (storeRoute p pt s lifetime (expiry_at lifetime n) n0) = n_sim n"
    by (simp add: storeRoute_def Let_def n0)
qed

text \<open>After an admission the prefix has a lease timer exactly when its lease is finite.\<close>

definition lease_started :: "name \<Rightarrow> u64 \<Rightarrow> sim_time \<Rightarrow> node \<Rightarrow> (name, event_id) fmap \<Rightarrow> node \<Rightarrow> bool" where
  "lease_started p s lifetime n timers n' \<longleftrightarrow>
     (\<forall>q. q \<noteq> p \<longrightarrow> fmlookup timers q = fmlookup (lc_lifetimeTimers (n_local n)) q) \<and>
     (if lifetime > 0
      then \<exists>i. id_ts i = node_now n + lifetime \<and> fmlookup timers p = Some i \<and>
        (\<forall>a. (a, i) \<notin> live_timers (n_sim n)) \<and>
        live_timers (n_sim n') =
          insert (ExpireEntryBySeq p s, i) (without (lease_act p) (live_timers (n_sim n)))
      else fmlookup timers p = None \<and>
        live_timers (n_sim n') = without (lease_act p) (live_timers (n_sim n)))"

lemma m_uid_cancelLifetimeTimer: "m_uid (n_sim (cancelLifetimeTimer p n)) = m_uid (n_sim n)"
  by (auto simp: cancelLifetimeTimer_def Cancel_def split: option.splits)

lemma publishRoute_effect:
  assumes inv: "linv {} {} {} n" and life: "0 \<le> lifetime"
    and n0: "n_sim n0 = n_sim n" "n_local n0 = (n_local n)\<lparr>lc_highestSeenSeq := high\<rparr>"
    and n': "n' = publishRoute p pt s lifetime (expiry_at lifetime n) n0"
  shows "\<exists>timers c. n_local n' = admitted p pt s (expiry_at lifetime n) timers high c (n_local n) \<and>
      lease_started p s lifetime n timers n'"
    and "sim_ok (n_sim n')" and "node_now n' = node_now n"
proof -
  let ?n3 = "storeRoute p pt s lifetime (expiry_at lifetime n) n0"
  let ?n4 = "cancelLifetimeTimer p ?n3"
  let ?i = "fst (Schedule lifetime (ExpireEntryBySeq p s) (n_sim ?n4))"
  have ok: "sim_ok (n_sim n)" using inv by (simp add: linv_def)
  note e3 = storeRoute_effect [OF inv life n0]
  have lt: "lease_timer p ?n3"
    using linv_lease_timer [OF inv, of p] by (simp add: lease_timer_def e3 admitted_def)
  have ok3: "sim_ok (n_sim ?n3)" using ok by (simp add: e3)
  note e4 = cancelLifetimeTimer_effect [OF ok3 lt]
  have pub: "n' = (if lifetime > 0
       then on_local (\<lambda>l. l\<lparr>lc_lifetimeTimers := fmupd p (fst (node_schedule lifetime (ExpireEntryBySeq p s) ?n4))
              (lc_lifetimeTimers l)\<rparr>) (snd (node_schedule lifetime (ExpireEntryBySeq p s) ?n4))
       else ?n4)"
    unfolding n' publishRoute_def Let_def case_prod_beta by simp
  show "sim_ok (n_sim n')" using e4(3) sim_ok_Schedule [OF e4(3) life] by (simp add: pub)
  show "node_now n' = node_now n" using e4(5) by (simp add: pub e3)
  have idt: "id_ts ?i = node_now n + lifetime" using e4(5) by (simp add: Schedule_id e3)
  have new: "(a, ?i) \<notin> live_timers (n_sim n)" for a
    using ok m_uid_cancelLifetimeTimer [of p ?n3] by (auto simp: e3 Schedule_id live_timers_def
        event_id_of_def sim_ok_def list_all_iff after_now_def)
  show "\<exists>timers c. n_local n' = admitted p pt s (expiry_at lifetime n) timers high c (n_local n) \<and>
      lease_started p s lifetime n timers n'"
    by (rule exI [of _ "if lifetime > 0 then fmupd p ?i (fmdrop p (lc_lifetimeTimers (n_local n)))
            else fmdrop p (lc_lifetimeTimers (n_local n))"],
        rule exI [of _ "tempUpdates_update incr (lc_counters (n_local n))"])
      (use idt new e4(2) in \<open>auto simp: pub e4(1) e3 admitted_def live_timers_Schedule lease_started_def\<close>)
qed

lemma admitted_routes_ok:
  assumes "routes_ok l" and "0 \<le> x"
    and "lc_guard l \<Longrightarrow> fmlookup high p = Some s"
    and "\<And>q. q \<noteq> p \<Longrightarrow> fmlookup high q = fmlookup (lc_highestSeenSeq l) q"
  shows "routes_ok (admitted p pt s x timers high c l)"
  using assms unfolding routes_ok_def admitted_def by auto

lemma admitted_lease_ok:
  assumes inv: "linv {} {} {} n" and life: "0 \<le> lifetime"
    and started: "lease_started p s lifetime n timers n'"
  shows "lease_ok {} (n_sim n') (admitted p pt s (expiry_at lifetime n) timers high c (n_local n))"
proof -
  let ?l = "admitted p pt s (expiry_at lifetime n) timers high c (n_local n)"
  have now: "0 \<le> node_now n" using inv by (simp add: linv_def)
  have iff: "(ExpireEntryBySeq q u, i) \<in> live_timers (n_sim n') \<longleftrightarrow>
      fmlookup (lc_lifetimeTimers ?l) q = Some i \<and> fmlookup (lc_seqMap ?l) q = Some u" for q u i
  proof (cases "q = p")
    case True
    then show ?thesis
      using started by (auto simp: lease_started_def admitted_def split: if_splits)
  next
    case False
    then show ?thesis
      using started inv
      by (auto simp: lease_started_def admitted_def linv_def lease_ok_def split: if_splits)
  qed
  have "fmlookup (lc_routeExpiries ?l) q = Some (id_ts i) \<and> 0 < id_ts i"
    if "fmlookup (lc_lifetimeTimers ?l) q = Some i" for q i
    using that started inv now
    by (cases "q = p")
      (auto simp: lease_started_def admitted_def expiry_at_def linv_def lease_ok_def split: if_splits)
  moreover have "fmlookup (lc_lifetimeTimers ?l) q \<noteq> None"
    if "fmlookup (lc_routeExpiries ?l) q = Some x" "x \<noteq> 0" for q x
    using that started inv
    by (cases "q = p")
      (auto simp: lease_started_def admitted_def expiry_at_def linv_def lease_ok_def split: if_splits)
  ultimately show ?thesis using iff by (simp add: lease_ok_def)
qed

lemma retry_live_started:
  "lease_started p s lifetime n timers n' \<Longrightarrow>
   (ControllerRetryTimeout q u, i) \<in> live_timers (n_sim n') \<longleftrightarrow>
   (ControllerRetryTimeout q u, i) \<in> live_timers (n_sim n)"
  by (auto simp: lease_started_def split: if_splits)

lemma publishRoute_inv:
  assumes inv: "linv {} {} {} n" and life: "0 \<le> lifetime"
    and n0: "n_sim n0 = n_sim n" "n_local n0 = (n_local n)\<lparr>lc_highestSeenSeq := high\<rparr>"
    and n': "n' = publishRoute p pt s lifetime (expiry_at lifetime n) n0"
    and high: "lc_guard (n_local n) \<Longrightarrow> fmlookup high p = Some s"
      "\<And>q. q \<noteq> p \<Longrightarrow> fmlookup high q = fmlookup (lc_highestSeenSeq (n_local n)) q"
  shows "linv {} {} {p} n'" and "fmlookup (lc_seqMap (n_local n')) p = Some s"
    and "fmlookup (lc_routeExpiries (n_local n')) p = Some (expiry_at lifetime n)"
    and "fmlookup (lc_fib (n_local n')) p = Some (single_hop p pt (deadline_of (expiry_at lifetime n)))"
proof -
  obtain timers c where l: "n_local n' = admitted p pt s (expiry_at lifetime n) timers high c (n_local n)"
    and started: "lease_started p s lifetime n timers n'"
    using publishRoute_effect(1) [OF inv life n0 n'] by blast
  have now: "0 \<le> node_now n" using inv by (simp add: linv_def)
  have "routes_ok (n_local n')"
    unfolding l using inv high life now by (intro admitted_routes_ok) (auto simp: linv_def expiry_at_def)
  moreover have "lease_ok {} (n_sim n') (n_local n')"
    unfolding l by (rule admitted_lease_ok [OF inv life started])
  moreover have "retry_ok {} {p} (n_sim n') (n_local n')"
    using inv retry_live_started [OF started]
    by (auto simp: l linv_def retry_ok_def request_ok_def admitted_def)
  ultimately show "linv {} {} {p} n'"
    using publishRoute_effect(2,3) [OF inv life n0 n'] now by (simp add: linv_def)
  show "fmlookup (lc_seqMap (n_local n')) p = Some s"
    "fmlookup (lc_routeExpiries (n_local n')) p = Some (expiry_at lifetime n)"
    "fmlookup (lc_fib (n_local n')) p = Some (single_hop p pt (deadline_of (expiry_at lifetime n)))"
    by (simp_all add: l admitted_def)
qed

lemma openRequest_inv:
  assumes inv: "linv {} {} {p} n" and req: "lc_hasSyncRequestCb (n_local n)"
    and msg: "fmlookup (lc_seqMap (n_local n)) p = Some s" "cm_prefix m = p" "cm_seq m = s"
      "fmlookup (lc_routeExpiries (n_local n)) p = Some (cm_routeExpiry m)"
  shows "linv {} {} {} (openRequest p s m n)"
proof (cases "lc_retryTimeout (n_local n) > 0")
  case False
  then have "fmlookup (lc_pending (n_local n)) q = None" for q
    using inv by (auto simp: linv_def retry_ok_def)
  then show ?thesis
    using inv False by (auto simp: openRequest_def linv_def retry_ok_def)
next
  case True
  let ?d = "dropPending p n"
  let ?t = "lc_retryTimeout (n_local n)"
  let ?i = "fst (Schedule ?t (ControllerRetryTimeout p s) (n_sim ?d))"
  have ok: "sim_ok (n_sim n)" using inv by (simp add: linv_def)
  note e = dropPending_effect [OF ok linv_retry_timer [OF inv, of p]]
  let ?n = "openRequest p s m n"
  have l: "n_local ?n = (n_local n)\<lparr>lc_pending := fmupd p \<lparr>pq_seq = s,
      pq_retriesLeft = lc_retryLimit (n_local n), pq_timer = ?i, pq_msg = m\<rparr>
      (fmdrop p (lc_pending (n_local n)))\<rparr>"
    using True by (simp add: openRequest_def Let_def case_prod_beta e(1))
  have sm: "n_sim ?n = snd (Schedule ?t (ControllerRetryTimeout p s) (n_sim ?d))"
    using True by (simp add: openRequest_def Let_def case_prod_beta e(1))
  have live: "live_timers (n_sim ?n) =
      insert (ControllerRetryTimeout p s, ?i) (without (retry_act p) (live_timers (n_sim n)))"
    by (simp add: sm live_timers_Schedule e(2))
  have "routes_ok (n_local ?n)" using inv by (simp add: linv_def l routes_ok_def)
  moreover have "lease_ok {} (n_sim ?n) (n_local ?n)"
    using inv by (auto simp: linv_def lease_ok_def live l)
  moreover have "retry_ok {} {} (n_sim ?n) (n_local ?n)"
  proof -
    have "(ControllerRetryTimeout q u, i) \<in> live_timers (n_sim ?n) \<longleftrightarrow>
        (\<exists>r. fmlookup (lc_pending (n_local ?n)) q = Some r \<and> pq_timer r = i \<and> pq_seq r = u)" for q u i
      using inv by (cases "q = p") (auto simp: linv_def retry_ok_def live l)
    moreover have "request_ok q r (n_local ?n)" if "fmlookup (lc_pending (n_local ?n)) q = Some r" for q r
    proof (cases "q = p")
      case False
      then have "request_ok q r (n_local n)" using inv that by (simp add: linv_def retry_ok_def l)
      then show ?thesis by (simp add: request_ok_def l)
    qed (use that msg in \<open>auto simp: request_ok_def l\<close>)
    ultimately show ?thesis
      using req True by (simp add: retry_ok_def) (simp add: l)
  qed
  ultimately show ?thesis
    using inv e(3,5) True sim_ok_Schedule [OF e(3), of ?t] by (simp add: linv_def sm)
qed

lemma route_lifetime_nonneg:
  assumes "route_lifetime ttl l = Inr lifetime" and "0 \<le> lc_entryLifetime l"
  shows "0 \<le> lifetime"
  using assms by (auto simp: route_lifetime_def Let_def split: if_splits)

lemma openRequest_frame [simp]:
  "lc_seqMap (n_local (openRequest p s m n)) = lc_seqMap (n_local n)"
  "lc_routeExpiries (n_local (openRequest p s m n)) = lc_routeExpiries (n_local n)"
  "lc_fib (n_local (openRequest p s m n)) = lc_fib (n_local n)"
  by (auto simp: openRequest_def dropPending_def Let_def case_prod_beta split: option.splits)

text \<open>Whether an update is rejected as stale.\<close>

definition stale_update :: "name \<Rightarrow> u64 \<Rightarrow> local_controller \<Rightarrow> bool" where
  "stale_update p s l \<longleftrightarrow>
     lc_guard l \<and> (\<exists>high. fmlookup (lc_highestSeenSeq l) p = Some high \<and> s \<le> high) \<or>
     (\<exists>old. fmlookup (lc_seqMap l) p = Some old \<and> s \<le> old)"

text \<open>The node after an admission, before the request is sent.\<close>

definition admission :: "name \<Rightarrow> port \<Rightarrow> u64 \<Rightarrow> sim_time \<Rightarrow> node \<Rightarrow> node" where
  "admission p pt s lifetime n =
     publishRoute p pt s lifetime (expiry_at lifetime n)
       (if lc_guard (n_local n)
        then on_local (\<lambda>l. l\<lparr>lc_highestSeenSeq := fmupd p s (lc_highestSeenSeq l)\<rparr>) n else n)"

definition admission_message ::
  "name \<Rightarrow> byte list \<Rightarrow> nat \<Rightarrow> port \<Rightarrow> u64 \<Rightarrow> sim_time \<Rightarrow> control_message" where
  "admission_message p hashes len pt s x = \<lparr>cm_type = CT_PACKET_IN, cm_nameHashes = hashes,
     cm_prefixLen = len, cm_outputPort = pt, cm_prefix = p, cm_seq = s, cm_routeExpiry = x\<rparr>"

lemma admission_inv:
  assumes inv: "local_inv n" and life: "0 \<le> lifetime"
  shows "linv {} {} {p} (admission p pt s lifetime n)"
    and "fmlookup (lc_seqMap (n_local (admission p pt s lifetime n))) p = Some s"
    and "fmlookup (lc_routeExpiries (n_local (admission p pt s lifetime n))) p = Some (expiry_at lifetime n)"
    and "fmlookup (lc_fib (n_local (admission p pt s lifetime n))) p =
      Some (single_hop p pt (deadline_of (expiry_at lifetime n)))"
proof -
  let ?h = "if lc_guard (n_local n) then fmupd p s (lc_highestSeenSeq (n_local n))
    else lc_highestSeenSeq (n_local n)"
  let ?n0 = "if lc_guard (n_local n)
        then on_local (\<lambda>l. l\<lparr>lc_highestSeenSeq := fmupd p s (lc_highestSeenSeq l)\<rparr>) n else n"
  have n0: "n_sim ?n0 = n_sim n" "n_local ?n0 = (n_local n)\<lparr>lc_highestSeenSeq := ?h\<rparr>"
    by simp_all
  note pub = publishRoute_inv [OF inv life n0 admission_def]
  show "linv {} {} {p} (admission p pt s lifetime n)"
    "fmlookup (lc_seqMap (n_local (admission p pt s lifetime n))) p = Some s"
    "fmlookup (lc_routeExpiries (n_local (admission p pt s lifetime n))) p = Some (expiry_at lifetime n)"
    "fmlookup (lc_fib (n_local (admission p pt s lifetime n))) p =
      Some (single_hop p pt (deadline_of (expiry_at lifetime n)))"
    by (rule pub; simp)+
qed

lemma local_applyTraceUpdate_stale:
  assumes "route_lifetime ttl (n_local n) = Inr lifetime" and "stale_update p s (n_local n)"
    and inv: "local_inv n"
  shows "\<exists>n'. local_applyTraceUpdate env p hashes len pt s ttl n = Inr (False, n') \<and> local_inv n' \<and>
    (\<exists>c. n_local n' = (n_local n)\<lparr>lc_counters := c\<rparr>) \<and> n_sim n' = n_sim n"
proof -
  have guarded: "\<exists>high. fmlookup (lc_highestSeenSeq (n_local n)) p = Some high \<and> s \<le> high"
    if "lc_guard (n_local n)"
    using that assms(2) inv unfolding stale_update_def linv_def routes_ok_def by blast
  show ?thesis
  proof (cases "lc_guard (n_local n)")
    case True
    then show ?thesis
      using guarded assms(1) inv by (auto simp: local_applyTraceUpdate_def Let_def)
  next
    case False
    then show ?thesis
      using assms inv by (auto simp: local_applyTraceUpdate_def Let_def stale_update_def)
  qed
qed

lemma local_applyTraceUpdate_fresh:
  assumes "route_lifetime ttl (n_local n) = Inr lifetime" and "\<not> stale_update p s (n_local n)"
    and a_def: "a = admission p pt s lifetime n"
    and m_def: "m = admission_message p hashes len pt s (expiry_at lifetime n)"
  shows "local_applyTraceUpdate env p hashes len pt s ttl n =
    (if lc_hasSyncRequestCb (n_local a)
     then bind_exn (submitFlowUpdate env m
            (openRequest p s m (count_local (controlPackets_update incr) a))) (\<lambda>n. Inr (True, n))
     else Inr (True, a))"
  using assms(1,2) unfolding a_def m_def
  by (auto simp: local_applyTraceUpdate_def Let_def stale_update_def admission_def
      admission_message_def expiry_at_def split: option.splits)

text \<open>An update with an acceptable lifetime never throws; it is admitted exactly when its
  sequence number is new, and the invariant holds again.\<close>

lemma local_applyTraceUpdate_inv:
  assumes inv: "local_inv n" and env: "env_ok env"
    and life: "route_lifetime ttl (n_local n) = Inr lifetime"
  shows "\<exists>b n'. local_applyTraceUpdate env p hashes len pt s ttl n = Inr (b, n') \<and> local_inv n' \<and>
    (b \<longleftrightarrow> \<not> stale_update p s (n_local n))"
proof (cases "stale_update p s (n_local n)")
  case True
  then show ?thesis using local_applyTraceUpdate_stale [OF life True inv] by blast
next
  case False
  have l: "0 \<le> lifetime"
    using inv by (intro route_lifetime_nonneg [OF life]) (simp add: linv_def routes_ok_def)
  let ?a = "admission p pt s lifetime n"
  let ?m = "admission_message p hashes len pt s (expiry_at lifetime n)"
  note a = admission_inv [OF inv l, of p pt s]
  show ?thesis
  proof (cases "lc_hasSyncRequestCb (n_local ?a)")
    case True
    have "local_inv (openRequest p s ?m (count_local (controlPackets_update incr) ?a))"
      by (rule openRequest_inv) (use a True in \<open>simp_all add: admission_message_def\<close>)
    then obtain n' where "submitFlowUpdate env ?m
        (openRequest p s ?m (count_local (controlPackets_update incr) ?a)) = Inr n'" "local_inv n'"
      using local_control.submitFlowUpdate_keeps [OF env _ TrueI] by blast
    then show ?thesis
      using False True local_applyTraceUpdate_fresh [OF life False refl refl, of env] by auto
  next
    case no: False
    then have "fmlookup (lc_pending (n_local ?a)) q = None" for q
      using a(1) by (auto simp: linv_def retry_ok_def)
    then have "local_inv ?a" using a(1) by (auto simp: linv_def retry_ok_def)
    then show ?thesis
      using False no local_applyTraceUpdate_fresh [OF life False refl refl, of env] by auto
  qed
qed

section \<open>Timers\<close>

text \<open>Taking the next event from the queue.\<close>

lemma pop_inv:
  assumes inv: "local_inv n" and pop: "ProcessOneEvent (n_sim n) = Some (r, sm)"
  shows "case r of
      Some (ExpireEntryBySeq p s) \<Rightarrow> linv {p} {} {} (n\<lparr>n_sim := sm\<rparr>) \<and>
        fmlookup (lc_seqMap (n_local n)) p = Some s \<and>
        fmlookup (lc_routeExpiries (n_local n)) p = Some (Now sm)
    | Some (ControllerRetryTimeout p s) \<Rightarrow> linv {} {p} {} (n\<lparr>n_sim := sm\<rparr>) \<and>
        (\<exists>q. fmlookup (lc_pending (n_local n)) p = Some q \<and> pq_seq q = s)
    | _ \<Rightarrow> local_inv (n\<lparr>n_sim := sm\<rparr>)"
proof -
  have ok: "sim_ok (n_sim n)" using inv by (simp add: linv_def)
  have sm: "sim_ok sm" "0 \<le> Now sm"
    using sim_ok_ProcessOneEvent [OF ok pop] inv by (auto simp: linv_def)
  have lease: "(ExpireEntryBySeq p s, i) \<in> live_timers (n_sim n) \<longleftrightarrow>
      fmlookup (lc_lifetimeTimers (n_local n)) p = Some i \<and> fmlookup (lc_seqMap (n_local n)) p = Some s" for p s i
    using inv by (simp add: linv_def lease_ok_def)
  have retry: "(ControllerRetryTimeout p s, i) \<in> live_timers (n_sim n) \<longleftrightarrow>
      (\<exists>r. fmlookup (lc_pending (n_local n)) p = Some r \<and> pq_timer r = i \<and> pq_seq r = s)" for p s i
    using inv by (simp add: linv_def retry_ok_def)
  note live = live_timers_ProcessOneEvent [OF ok pop]
  show ?thesis
  proof (cases r)
    case None
    then show ?thesis using live inv sm by (auto simp: linv_defs)
  next
    case (Some a)
    then obtain i where i: "(a, i) \<in> live_timers (n_sim n)" "live_timers sm = live_timers (n_sim n) - {(a, i)}"
      "past_id sm i" "id_ts i = Now sm"
      using live by auto
    consider (e) p s where "a = ExpireEntryBySeq p s" | (t) p s where "a = ControllerRetryTimeout p s"
      | (other) "\<not> timer_act a" by (auto simp: timer_act_def)
    then show ?thesis
    proof cases
      case e
      then have t: "fmlookup (lc_lifetimeTimers (n_local n)) p = Some i"
        "fmlookup (lc_seqMap (n_local n)) p = Some s" using i(1) lease by auto
      then have "fmlookup (lc_routeExpiries (n_local n)) p = Some (Now sm)"
        using inv i(4) by (auto simp: linv_def lease_ok_def)
      moreover have "lease_ok {p} sm (n_local n)"
        using inv t i e lease by (auto simp: linv_def lease_ok_def)
      moreover have "retry_ok {} {} sm (n_local n)"
        using inv i e by (auto simp: linv_def retry_ok_def)
      ultimately show ?thesis
        using Some e t inv sm by (simp add: linv_def)
    next
      case t
      then obtain q where q: "fmlookup (lc_pending (n_local n)) p = Some q" "pq_timer q = i" "pq_seq q = s"
        using i(1) retry by auto
      have "retry_ok {p} {} sm (n_local n)"
        using inv q i t retry by (auto simp: linv_def retry_ok_def)
      moreover have "lease_ok {} sm (n_local n)"
        using inv i t by (auto simp: linv_def lease_ok_def)
      ultimately show ?thesis using Some t q inv sm by (auto simp: linv_def)
    next
      case other
      then have "lease_ok {} sm (n_local n)" "retry_ok {} {} sm (n_local n)"
        using inv i by (auto simp: linv_def lease_ok_def retry_ok_def timer_act_def)
      then show ?thesis using Some other inv sm by (auto simp: linv_def timer_act_def split: act.splits)
    qed
  qed
qed

lemma without_idle: "(\<And>a i. (a, i) \<in> T \<Longrightarrow> \<not> P a) \<Longrightarrow> without P T = T"
  by (auto simp: without_def)

lemma dropPending_None: "fmlookup (lc_pending (n_local n)) p = None \<Longrightarrow> dropPending p n = n"
  by (simp add: dropPending_def)

lemma expireEntryBySeq_inv:
  assumes inv: "linv {p} {} {} n" and s: "fmlookup (lc_seqMap (n_local n)) p = Some s"
  shows "local_inv (expireEntryBySeq p s n)"
    and "n_local (expireEntryBySeq p s n) = forgotten p (n_local n)"
proof -
  let ?a = "dropRoute p n" and ?b = "dropPending p (dropRoute p n)"
  have ok: "sim_ok (n_sim ?a)" using inv by (simp add: linv_def)
  have rt: "retry_timer p ?a"
    using linv_retry_timer [OF inv, of p] by (simp add: retry_timer_def)
  note b = dropPending_effect [OF ok rt]
  have seq: "pq_seq r = s" if "fmlookup (lc_pending (n_local n)) p = Some r" for r
    using inv s that by (auto simp: linv_def retry_ok_def request_ok_def)
  have e: "expireEntryBySeq p s n =
      on_local (\<lambda>l. l\<lparr>lc_lifetimeTimers := fmdrop p (lc_lifetimeTimers l)\<rparr>) ?b"
    using s seq by (auto simp: expireEntryBySeq_def Let_def dropPending_None split: option.splits)
  show l: "n_local (expireEntryBySeq p s n) = forgotten p (n_local n)"
    by (simp add: e b(1) forgotten_def)
  have "without (lease_act p) (without (retry_act p) (live_timers (n_sim n))) =
      without (retry_act p) (live_timers (n_sim n))"
    using inv by (intro without_idle) (auto simp: linv_def lease_ok_def lease_act_def)
  then have "linv ({p} - {p}) ({} - {p}) ({} - {p}) (expireEntryBySeq p s n)"
    by (intro linv_forgotten [OF inv _ _ _ _ l]) (simp_all add: e b)
  then show "local_inv (expireEntryBySeq p s n)" by simp
qed

text \<open>A retry timer that is rescheduled serves its prefix again.\<close>

lemma reschedule_inv:
  assumes inv: "linv {} {p} {} n" and r: "fmlookup (lc_pending (n_local n)) p = Some r" "pq_seq r = s"
    and n': "n' = on_local (\<lambda>l. l\<lparr>lc_pending := fmupd p (r\<lparr>pq_timer :=
        fst (node_schedule (lc_retryTimeout (n_local n)) (ControllerRetryTimeout p s) n)\<rparr>) (lc_pending l)\<rparr>)
      (snd (node_schedule (lc_retryTimeout (n_local n)) (ControllerRetryTimeout p s) n))"
  shows "local_inv n'"
proof -
  let ?i = "fst (Schedule (lc_retryTimeout (n_local n)) (ControllerRetryTimeout p s) (n_sim n))"
  have t: "0 < lc_retryTimeout (n_local n)" "lc_hasSyncRequestCb (n_local n)"
    using inv r by (auto simp: linv_def retry_ok_def)
  have l: "n_local n' = (n_local n)\<lparr>lc_pending := fmupd p (r\<lparr>pq_timer := ?i\<rparr>) (lc_pending (n_local n))\<rparr>"
    by (simp add: n')
  have live: "live_timers (n_sim n') = insert (ControllerRetryTimeout p s, ?i) (live_timers (n_sim n))"
    by (simp add: n' live_timers_Schedule)
  have "(ControllerRetryTimeout q u, i) \<in> live_timers (n_sim n') \<longleftrightarrow>
      (\<exists>r. fmlookup (lc_pending (n_local n')) q = Some r \<and> pq_timer r = i \<and> pq_seq r = u)" for q u i
    using inv r by (cases "q = p") (auto simp: linv_def retry_ok_def live l)
  moreover have "request_ok q x (n_local n')" if x: "fmlookup (lc_pending (n_local n')) q = Some x" for q x
  proof -
    have "request_ok p r (n_local n)" using inv r by (simp add: linv_def retry_ok_def)
    moreover have "q \<noteq> p \<Longrightarrow> request_ok q x (n_local n)" using inv x by (simp add: l linv_def retry_ok_def)
    ultimately show ?thesis using x by (cases "q = p") (auto simp: request_ok_def l)
  qed
  ultimately have "retry_ok {} {} (n_sim n') (n_local n')"
    using t by (simp add: retry_ok_def) (simp add: l)
  moreover have "lease_ok {} (n_sim n') (n_local n')"
    using inv by (auto simp: linv_def lease_ok_def live l)
  moreover have "routes_ok (n_local n')" using inv by (simp add: linv_def l routes_ok_def)
  ultimately show ?thesis
    using inv t sim_ok_Schedule [of "n_sim n" "lc_retryTimeout (n_local n)"] by (simp add: linv_def n')
qed

text \<open>Without a pending request an exempt prefix needs no exemption.\<close>

lemma exempt_done:
  assumes "linv {} {p} {} n" and "fmlookup (lc_pending (n_local n)) p = None"
  shows "local_inv n"
proof -
  have "(ControllerRetryTimeout q s, i) \<in> live_timers (n_sim n) \<longleftrightarrow>
      (\<exists>r. fmlookup (lc_pending (n_local n)) q = Some r \<and> pq_timer r = i \<and> pq_seq r = s)" for q s i
    using assms by (cases "q = p") (auto simp: linv_def retry_ok_def)
  then show ?thesis using assms(1) by (simp add: linv_def retry_ok_def)
qed

lemma retries_left_inv:
  assumes "linv X Y Z n" and "fmlookup (lc_pending (n_local n)) p = Some r"
  shows "linv X Y Z (on_local (\<lambda>l. l\<lparr>lc_pending := fmupd p (r\<lparr>pq_retriesLeft := k\<rparr>) (lc_pending l)\<rparr>) n)"
proof -
  let ?l = "(n_local n)\<lparr>lc_pending := fmupd p (r\<lparr>pq_retriesLeft := k\<rparr>) (lc_pending (n_local n))\<rparr>"
  have look: "fmlookup (lc_pending ?l) q = (if q = p then Some (r\<lparr>pq_retriesLeft := k\<rparr>)
      else fmlookup (lc_pending (n_local n)) q)" for q by simp
  have "retry_ok Y Z (n_sim n) ?l"
    using assms unfolding linv_def retry_ok_def request_ok_def look
    by (auto split: if_splits)
  then show ?thesis
    using assms(1) by (simp add: linv_def routes_ok_def lease_ok_def)
qed

lemma retryRequest_inv:
  assumes inv: "linv {} {p} {} n" and env: "env_ok env"
    and r: "fmlookup (lc_pending (n_local n)) p = Some r" "pq_seq r = s"
  shows "\<exists>n'. retryRequest env p s r n = Inr n' \<and> local_inv n'"
proof -
  let ?r = "r\<lparr>pq_retriesLeft := pq_retriesLeft r - 1\<rparr>"
  let ?a = "on_local (\<lambda>l. l\<lparr>lc_pending := fmupd p ?r (lc_pending l)\<rparr>) n"
  let ?b = "count_local (controlPackets_update incr) (count_local (controllerRetries_update incr) ?a)"
  have b: "pending_only {p} p ?r ?b"
    using retries_left_inv [OF inv r(1)] by (simp add: pending_only_def)
  then obtain n1 where n1: "submitFlowUpdate env (pq_msg r) ?b = Inr n1" "pending_only {p} p ?r n1"
    using pending_control.submitFlowUpdate_keeps [OF env _ TrueI] by blast
  have req: "lc_hasSyncRequestCb (n_local ?b)"
    using inv r by (auto simp: linv_def retry_ok_def)
  show ?thesis
  proof (cases "fmlookup (lc_pending (n_local n1)) p")
    case None
    then have "local_inv n1" using n1(2) by (intro exempt_done) (auto simp: pending_only_def)
    then show ?thesis using n1(1) req None by (simp add: retryRequest_def Let_def)
  next
    case (Some x)
    then have x: "x = ?r" "pq_seq x = s" and inv1: "linv {} {p} {} n1"
      using n1(2) r(2) by (auto simp: pending_only_def)
    show ?thesis
      using n1(1) req Some x(2) reschedule_inv [OF inv1 Some x(2) refl]
      by (simp add: retryRequest_def Let_def case_prod_beta)
  qed
qed

lemma onControllerRetryTimeout_inv:
  assumes inv: "linv {} {p} {} n" and env: "env_ok env"
    and r: "fmlookup (lc_pending (n_local n)) p = Some r" "pq_seq r = s"
  shows "\<exists>n'. onControllerRetryTimeout env p s n = Inr n' \<and> local_inv n' \<and>
    (pq_retriesLeft r \<le> 0 \<longrightarrow> fmlookup (lc_fib (n_local n')) p = None \<and>
       fmlookup (lc_seqMap (n_local n')) p = None \<and> fmlookup (lc_pending (n_local n')) p = None)"
proof -
  have s: "fmlookup (lc_seqMap (n_local n)) p = Some s"
    using inv r by (auto simp: linv_def retry_ok_def request_ok_def)
  show ?thesis
  proof (cases "pq_retriesLeft r > 0")
    case True
    then show ?thesis
      using retryRequest_inv [OF inv env r] r s by (simp add: onControllerRetryTimeout_def)
  next
    case False
    let ?c = "count_local (temporaryRouteWithdrawals_update incr) n"
    let ?a = "dropRoute p ?c" and ?b = "cancelLifetimeTimer p (dropRoute p ?c)"
    have ok: "sim_ok (n_sim ?a)" using inv by (simp add: linv_def)
    have lt: "lease_timer p ?a"
      using linv_lease_timer [OF inv, of p] by (simp add: lease_timer_def)
    note b = cancelLifetimeTimer_effect [OF ok lt]
    let ?n = "on_local (\<lambda>l. l\<lparr>lc_pending := fmdrop p (lc_pending l)\<rparr>) ?b"
    have e: "onControllerRetryTimeout env p s n = Inr ?n"
      using r s False by (simp add: onControllerRetryTimeout_def Let_def)
    have l: "n_local ?n = forgotten p (n_local ?c)" by (simp add: b(1) forgotten_def)
    have c: "linv {} {p} {} ?c" using inv by simp
    have "without (retry_act p) (live_timers (n_sim n)) = live_timers (n_sim n)"
      using inv by (intro without_idle) (auto simp: linv_def retry_ok_def retry_act_def)
    then have "linv ({} - {p}) ({p} - {p}) ({} - {p}) ?n"
      by (intro linv_forgotten [OF c _ _ _ _ l]) (simp_all add: b)
    moreover have "fmlookup (lc_fib (n_local ?n)) p = None" "fmlookup (lc_seqMap (n_local ?n)) p = None"
      "fmlookup (lc_pending (n_local ?n)) p = None"
      unfolding l by (simp_all add: forgotten_def)
    ultimately show ?thesis using e by (simp del: on_local_frame)
  qed
qed

end
