(* ===== verification/Forwarding_Engine.thy ===== *)
theory Forwarding_Engine
  imports Route_Invariants
begin

text \<open>
  The stateful forwarder (\<^verbatim>\<open>statim/stateful/stateful-forwarder.cpp\<close>) and the forwarding
  engine (\<^verbatim>\<open>statim/forwarding-engine.cpp\<close>), with the steps a node can take: receive a
  frame, run the next scheduled action, or let another node's event pass.  A frame is its
  header bytes and its decoded payload; \<^verbatim>\<open>NetDevice::Send\<close> appends to \<open>n_sent\<close>.  The
  diagnostic output to \<^verbatim>\<open>std::cerr\<close> is not modelled.
\<close>

section \<open>Stateful forwarder\<close>

definition encodeOutPortsMask :: "port set \<Rightarrow> u32" where
  "encodeOutPortsMask ports =
     fold (\<lambda>port mask. if port \<ge> 1 \<and> port \<le> 32 then mask OR push_bit (32 - unat port) 1 else mask)
       (sorted_list_of_set ports) 0"

definition fwd_applyTraceUpdate ::
  "env \<Rightarrow> name \<Rightarrow> port \<Rightarrow> u64 \<Rightarrow> int \<Rightarrow> node \<Rightarrow> exn + (bool \<times> node)" where
  "fwd_applyTraceUpdate env p pt s ttl n =
     (let nameHashes = m_nameHashes (header_of_name (e_hash env) p);
          prefixLen = (if length p > STATIM_NAME_HASH_COUNT then STATIM_NAME_HASH_COUNT else length p)
      in bind_exn (local_applyTraceUpdate env p nameHashes prefixLen pt s ttl n)
           (\<lambda>(updated, n).
              Inr (updated,
                   if updated
                   then on_engine (\<lambda>e. e\<lparr>f_traceUpdatesAccepted := incr (f_traceUpdatesAccepted e)\<rparr>) n
                   else n)))"

section \<open>Construction and configuration\<close>

definition node_new :: "env \<Rightarrow> node" where
  "node_new env = \<lparr>n_sim = sim_init,
     n_local = local_new\<lparr>lc_hasSyncRequestCb := True\<rparr>,
     n_central = flow_controller_new\<lparr>fc_controllerDelay := lc_controllerDelay local_new,
       fc_hasFlowModApplyCb := True, fc_hasSyncAckCb := True\<rparr>,
     n_switch = initPipeline (e_sort env) switch_new, n_engine = engine_new, n_sent = []\<rparr>"

definition setControllerDelay :: "sim_time \<Rightarrow> node \<Rightarrow> node" where
  "setControllerDelay d = on_central (\<lambda>c. c\<lparr>fc_controllerDelay := d\<rparr>)"

definition validateRouteLifetime :: "sim_time \<Rightarrow> engine \<Rightarrow> exn + unit" where
  "validateRouteLifetime lifetime e =
     (if en_flowTableLifetime e > 0 \<and> lifetime \<noteq> en_flowTableLifetime e \<or>
         en_temporaryLifetime e > 0 \<and> lifetime \<noteq> en_temporaryLifetime e
      then Inl InvalidArgument else Inr ())"

definition setFlowTableFibEntryLifetime :: "sim_time \<Rightarrow> node \<Rightarrow> exn + node" where
  "setFlowTableFibEntryLifetime lifetime n =
     (if lifetime < 0 then Inl InvalidArgument
      else Inr (on_engine (\<lambda>e. e\<lparr>en_flowTableLifetime := lifetime\<rparr>) n))"

definition setTemporaryFibEntryLifetime :: "sim_time \<Rightarrow> node \<Rightarrow> exn + node" where
  "setTemporaryFibEntryLifetime lifetime n =
     (if lifetime < 0 then Inl InvalidArgument
      else let n = on_engine (\<lambda>e. e\<lparr>en_temporaryLifetime := lifetime\<rparr>) n in
           bind_exn (setEntryLifetime lifetime (n_local n)) (\<lambda>l. Inr (n\<lparr>n_local := l\<rparr>)))"

definition setGenerationGuardEnabled :: "bool \<Rightarrow> node \<Rightarrow> node" where
  "setGenerationGuardEnabled b n =
     on_central (\<lambda>c. c\<lparr>fc_guard := b\<rparr>) (on_local (\<lambda>l. l\<lparr>lc_guard := b\<rparr>) n)"

definition setEnableInterestReforwarding :: "bool \<Rightarrow> node \<Rightarrow> node" where
  "setEnableInterestReforwarding v =
     on_engine (\<lambda>e. e\<lparr>en_enableReforwarding := v, f_enableReforwarding := v\<rparr>)"

definition setExperimentTelemetryEnabled :: "bool \<Rightarrow> node \<Rightarrow> node" where
  "setExperimentTelemetryEnabled b =
     on_engine (\<lambda>e. let e = e\<lparr>en_telemetry := b\<rparr> in
       if \<not> b then e\<lparr>en_tempSteerPending := False, en_flowSteerPending := False\<rparr> else e)"

section \<open>Sending\<close>

definition sendToPort :: "port \<Rightarrow> frame \<Rightarrow> node \<Rightarrow> node" where
  "sendToPort outPort f n =
     (case getDevice outPort (en_ports (n_engine n)) of
        None \<Rightarrow> n
      | Some dev \<Rightarrow> n\<lparr>n_sent := n_sent n @ [(dev, f)]\<rparr>)"

definition nonce_bytes :: "interest \<Rightarrow> node \<Rightarrow> byte list" where
  "nonce_bytes i n = (case i_nonce i of Some a \<Rightarrow> ns_bytes (en_store (n_engine n)) a | None \<Rightarrow> [])"

definition sendInterestToPort :: "env \<Rightarrow> port \<Rightarrow> interest \<Rightarrow> node \<Rightarrow> node" where
  "sendInterestToPort env outPort i n =
     (let h = (header_of_name (e_hash env) (i_name i))\<lparr>m_type := UNPROCESSED, m_outPorts := 0\<rparr>
      in sendToPort outPort
           \<lparr>fr_header = Serialize h,
            fr_payload = InterestPayload (i_name i) (nonce_bytes i n) (i_lifetime i)\<rparr> n)"

definition sendDataToPort :: "env \<Rightarrow> port \<Rightarrow> data_packet \<Rightarrow> node \<Rightarrow> node" where
  "sendDataToPort env outPort d n =
     (let h = (header_of_name (e_hash env) (d_name d))\<lparr>m_type := UNPROCESSED, m_outPorts := 0\<rparr>;
          h = (case d_hopCount d of Some c \<Rightarrow> h\<lparr>m_switchId := ucast c\<rparr> | None \<Rightarrow> h)
      in sendToPort outPort
           \<lparr>fr_header = Serialize h, fr_payload = DataPayload (d_name d) (d_content d)\<rparr> n)"

text \<open>The switch as the engine calls it, at the current instant.\<close>

definition pipeline :: "packet_header \<Rightarrow> node \<Rightarrow> pipeline_result \<times> node" where
  "pipeline h n =
     (let (r, sw) = processPacket (node_now n) h (n_switch n) in (r, n\<lparr>n_switch := sw\<rparr>))"

section \<open>Interests\<close>

text \<open>The exception, if any, leaves the node as the code left it.\<close>

definition processStatefulInterest ::
  "env \<Rightarrow> port \<Rightarrow> interest \<Rightarrow> packet_header \<Rightarrow> node \<Rightarrow> exn option \<times> node" where
  "processStatefulInterest env inPort i h n =
     (let n = count_engine (interestsReceived_update incr) n;
          nm = i_name i;
          n = (if en_telemetry (n_engine n) \<and> judgeNameIsTrace nm
               then count_engine (traceInterestsHandled_update incr) n else n)
      in case pit_insert (en_store (n_engine n)) (node_now n) i inPort (en_pit (n_engine n)) of
           Inl e \<Rightarrow> (Some e, n)
         | Inr ((status, _), pit) \<Rightarrow>
             let n = on_engine (\<lambda>e. e\<lparr>en_pit := pit\<rparr>) n in
             if status = Duplicate then (None, count_engine (pitDuplicates_update incr) n)
             else
               (case cs_find nm (en_cs (n_engine n)) of
                  Some d \<Rightarrow> (None, sendDataToPort env inPort d (count_engine (csHits_update incr) n))
                | None \<Rightarrow>
                    let h = (computeNameHashes (e_hash env) nm h)\<lparr>m_packetInPort := inPort\<rparr>
                    in (None, snd (node_schedule (en_statefulDelay (n_engine n))
                                    (ProcessInterestAfterDelay inPort i h) n))))"

text \<open>Consuming a first-use marker of the telemetry.\<close>

definition steer_telemetry :: "bool \<Rightarrow> interest \<Rightarrow> node \<Rightarrow> node" where
  "steer_telemetry usedTemporaryFib i n =
     (let e = n_engine n in
      if en_telemetry e \<and> usedTemporaryFib \<and> en_tempSteerPending e \<and>
         isPrefixOf (en_tempSteerPrefix e) (i_name i)
      then on_engine (\<lambda>e. e\<lparr>en_tempSteerPending := False\<rparr>) n
      else if en_telemetry e \<and> \<not> usedTemporaryFib \<and> en_flowSteerPending e \<and>
              isPrefixOf (en_flowSteerPrefix e) (i_name i)
      then on_engine (\<lambda>e. e\<lparr>en_flowSteerPending := False\<rparr>) n
      else n)"

definition forward_on :: "env \<Rightarrow> port \<Rightarrow> interest \<Rightarrow> bool \<Rightarrow> port \<Rightarrow> node \<Rightarrow> node" where
  "forward_on env inPort i usedTemporaryFib port n =
     (if port = inPort then n
      else
        let n = steer_telemetry usedTemporaryFib i n;
            n = count_engine (if usedTemporaryFib
                              then temporaryFibInterestTransmissions_update incr
                              else flowTableFibInterestTransmissions_update incr) n
        in sendInterestToPort env port i n)"

definition entry_hop_ports :: "forwarding_entry \<Rightarrow> port set" where
  "entry_hop_ports e = (\<lambda>(_, h). nh_port h) ` set (fmentries (m_nextHops e))"

definition processInterestAfterDelay ::
  "env \<Rightarrow> port \<Rightarrow> interest \<Rightarrow> packet_header \<Rightarrow> node \<Rightarrow> node" where
  "processInterestAfterDelay env inPort i h n =
     (let (entry, fib) = findLongestPrefix (node_now n) (i_name i) (lc_fib (n_local n));
          n = on_local (\<lambda>l. l\<lparr>lc_fib := fib\<rparr>) n;
          used = (case entry of Some e \<Rightarrow> en_enableTemporaryFib (n_engine n) | None \<Rightarrow> False);
          ports = (case entry of Some e \<Rightarrow> entry_hop_ports e | None \<Rightarrow> {})
      in if used \<and> ports = {} then count_engine (statimLookupMisses_update incr) n
         else
           let h = h\<lparr>m_type := INTEREST, m_outPorts := (if used then encodeOutPortsMask ports else 0)\<rparr>;
               (pass2, n) = pipeline h n
           in if pr_dropped pass2 \<or> pr_outputPorts pass2 = {}
              then count_engine (noRouteRejections_update incr)
                     (count_engine (statimLookupMisses_update incr) n)
              else fold (forward_on env inPort i used) (sorted_list_of_set (pr_outputPorts pass2)) n)"

definition doDelayedPullSend :: "env \<Rightarrow> interest \<Rightarrow> port \<Rightarrow> node \<Rightarrow> node" where
  "doDelayedPullSend env i port n =
     sendInterestToPort env port i (count_engine (pendingPullsSent_update incr) n)"

section \<open>Data\<close>

definition processStatefulData :: "port \<Rightarrow> data_packet \<Rightarrow> packet_header \<Rightarrow> node \<Rightarrow> node" where
  "processStatefulData inPort d h n =
     (let n = count_engine (dataReceived_update incr) n;
          hopCount = m_switchId h + 1;
          d = d\<lparr>d_hopCount := Some (ucast hopCount)\<rparr>;
          h = h\<lparr>m_switchId := hopCount\<rparr>
      in snd (node_schedule (en_statefulDelay (n_engine n)) (ProcessDataAfterDelay inPort d h) n))"

text \<open>One pending Interest is copied, gets a new nonce and is scheduled.\<close>

definition pull_one :: "env \<Rightarrow> port \<Rightarrow> interest \<Rightarrow> node \<Rightarrow> exn + node" where
  "pull_one env newPort i n =
     bind_exn (refreshNonce (e_words env) i (en_store (n_engine n))) (\<lambda>(retx, st).
       let n = on_engine (\<lambda>e. e\<lparr>en_store := st\<rparr>) n;
           n = count_engine (pendingPullsScheduled_update incr) n
       in Inr (snd (node_schedule 0 (DoDelayedPullSend retx newPort) n)))"

fun pull_loop :: "env \<Rightarrow> port \<Rightarrow> interest list \<Rightarrow> node \<Rightarrow> exn + node" where
  "pull_loop env newPort [] n = Inr n"
| "pull_loop env newPort (i # is) n = bind_exn (pull_one env newPort i n) (pull_loop env newPort is)"

definition pullPendingInterests :: "env \<Rightarrow> name \<Rightarrow> port \<Rightarrow> node \<Rightarrow> exn + node" where
  "pullPendingInterests env p newPort n =
     (let n = count_engine (pullInvocations_update incr) n;
          pending = findByPrefix p (en_pit (n_engine n))
      in pull_loop env newPort (take (nat (en_reforwardingLimit (n_engine n))) pending) n)"

text \<open>The loop of \<^verbatim>\<open>handleTraceData\<close> over the return ports, in ascending order.\<close>

fun trace_ports :: "env \<Rightarrow> name \<Rightarrow> u64 \<Rightarrow> int \<Rightarrow> port list \<Rightarrow> node \<Rightarrow> exn + node" where
  "trace_ports env p s lifetime [] n = Inr n"
| "trace_ports env p s lifetime (port # ports) n =
     bind_exn (fwd_applyTraceUpdate env p port s lifetime n) (\<lambda>(updated, n).
       let n = (if en_telemetry (n_engine n) \<and> updated
                then on_engine (\<lambda>e. e\<lparr>en_tempSteerPending := True, en_tempSteerSeq := s,
                                      en_tempSteerPrefix := p\<rparr>) n else n)
       in bind_exn (if updated \<and> en_enableReforwarding (n_engine n)
                    then pullPendingInterests env p port n else Inr n)
            (trace_ports env p s lifetime ports))"

definition getTraceSequence :: "name \<Rightarrow> exn + u64" where
  "getTraceSequence nm = bind_exn (name_at nm (- 1)) toSequenceNumber"

definition handleTraceData ::
  "env \<Rightarrow> data_packet \<Rightarrow> port set \<Rightarrow> int \<Rightarrow> node \<Rightarrow> exn + node" where
  "handleTraceData env d returnPorts lifetime n =
     bind_exn (validateRouteLifetime (us_to_ns lifetime) (n_engine n)) (\<lambda>_.
     bind_exn (getTraceSequence (d_name d)) (\<lambda>s.
       let p = extractDataNameFromTrace (d_name d) in
       if p = [] then Inr n
       else trace_ports env p s lifetime (sorted_list_of_set returnPorts)
              (count_engine (traceUpdatesHandled_update incr) n)))"

text \<open>The lifetime of the saved Trace Interest: the first entry listed under the name that has
  exactly that name.\<close>

definition saved_lifetime :: "name \<Rightarrow> pit \<Rightarrow> int" where
  "saved_lifetime nm pit =
     (case find (\<lambda>i. i_name i = nm) (findByPrefix nm pit) of Some i \<Rightarrow> lifetime_us i | None \<Rightarrow> 0)"

definition sendData :: "env \<Rightarrow> data_packet \<Rightarrow> packet_header \<Rightarrow> port set \<Rightarrow> node \<Rightarrow> node" where
  "sendData env d h returnPorts n =
     (let h = (computeNameHashes (e_hash env) (d_name d) h)
                \<lparr>m_type := DATA, m_outPorts := encodeOutPortsMask returnPorts\<rparr>;
          (pass2, n) = pipeline h n
      in if pr_dropped pass2 \<or> pr_outputPorts pass2 = {} then n
         else fold (\<lambda>port. sendDataToPort env port d) (sorted_list_of_set (pr_outputPorts pass2)) n)"

definition processDataAfterDelay ::
  "env \<Rightarrow> port \<Rightarrow> data_packet \<Rightarrow> packet_header \<Rightarrow> node \<Rightarrow> exn + node" where
  "processDataAfterDelay env inPort d h n =
     (let nm = d_name d;
          isTrace = judgeNameIsTrace nm;
          routeLifetime = (if isTrace then saved_lifetime nm (en_pit (n_engine n)) else 0);
          (returnPorts, pit) = takeDataMatchPorts nm (en_pit (n_engine n));
          n = on_engine (\<lambda>e. e\<lparr>en_pit := pit\<rparr>) n
      in if returnPorts = {} then Inr n
         else if isTrace
         then if routeLifetime \<le> 0 then Inr (count_engine (malformedPackets_update incr) n)
              else bind_exn (handleTraceData env d returnPorts routeLifetime n)
                     (\<lambda>n. Inr (sendData env d h returnPorts n))
         else let (pos, cs) = cs_insert (e_rands env) (en_randPos (n_engine n)) d (en_cs (n_engine n));
                  n = on_engine (\<lambda>e. e\<lparr>en_cs := cs, en_randPos := pos\<rparr>) n
              in Inr (sendData env d h returnPorts n))"

section \<open>Reception\<close>

text \<open>Decoding the payload inside the \<^verbatim>\<open>try\<close> block: an Interest has a buffer of its own.\<close>

definition receivePayload :: "env \<Rightarrow> port \<Rightarrow> payload \<Rightarrow> packet_header \<Rightarrow> node \<Rightarrow> exn + node" where
  "receivePayload env inPort pl h n =
     (case pl of
        InterestPayload nm nonce lifetime \<Rightarrow>
          let (a, st) = alloc_nonce nonce (en_store (n_engine n));
              n = on_engine (\<lambda>e. e\<lparr>en_store := st\<rparr>) n
          in (case processStatefulInterest env inPort
                     \<lparr>i_name = nm, i_nonce = Some a, i_lifetime = lifetime\<rparr> h n of
                (None, n) \<Rightarrow> Inr n
              | (Some TlvError, n) \<Rightarrow> Inr (count_engine (malformedPackets_update incr) n)
              | (Some e, n) \<Rightarrow> Inl e)
      | DataPayload nm content \<Rightarrow>
          Inr (processStatefulData inPort \<lparr>d_name = nm, d_content = content, d_hopCount = None\<rparr> h n)
      | OtherPayload \<Rightarrow> Inr (count_engine (malformedPackets_update incr) n)
      | MalformedPayload \<Rightarrow> Inr (count_engine (malformedPackets_update incr) n))"

definition onReceiveRawPacket :: "env \<Rightarrow> port \<Rightarrow> frame \<Rightarrow> node \<Rightarrow> exn + node" where
  "onReceiveRawPacket env inPort f n =
     (let (size, h) = Deserialize (fr_header f) header_default in
      if size \<noteq> SERIALIZED_SIZE then Inr (count_engine (malformedPackets_update incr) n)
      else
        let h = h\<lparr>m_packetInPort := inPort\<rparr>;
            (pass1, n) = pipeline h n
        in if pr_packetIn pass1 then Inr n
           else if STATEFUL_MODULE \<in> pr_outputPorts pass1
           then receivePayload env inPort (fr_payload f) (snd (Deserialize (fr_header f) h)) n
           else Inr (count_engine (noRouteRejections_update incr) n))"

section \<open>Steps of a node\<close>

definition run_act :: "env \<Rightarrow> act \<Rightarrow> node \<Rightarrow> exn + node" where
  "run_act env a n =
     (case a of
        AcceptControl m \<Rightarrow> acceptControl env m n
      | AttemptFlowMod m \<Rightarrow> attemptFlowMod env m n
      | DeliverSyncAck m \<Rightarrow> deliverSyncAck env m n
      | ExpireEntryBySeq p s \<Rightarrow> Inr (expireEntryBySeq p s n)
      | ControllerRetryTimeout p s \<Rightarrow> onControllerRetryTimeout env p s n
      | ProcessInterestAfterDelay inPort i h \<Rightarrow> Inr (processInterestAfterDelay env inPort i h n)
      | ProcessDataAfterDelay inPort d h \<Rightarrow> processDataAfterDelay env inPort d h n
      | DoDelayedPullSend i port \<Rightarrow> Inr (doDelayedPullSend env i port n))"

inductive node_step :: "env \<Rightarrow> node \<Rightarrow> node \<Rightarrow> bool" for env where
  receive: "onReceiveRawPacket env inPort f n = Inr n' \<Longrightarrow> node_step env n n'"
| run: "ProcessOneEvent (n_sim n) = Some (Some a, sm) \<Longrightarrow> run_act env a (n\<lparr>n_sim := sm\<rparr>) = Inr n' \<Longrightarrow>
    node_step env n n'"
| skip: "ProcessOneEvent (n_sim n) = Some (None, sm) \<Longrightarrow> node_step env n (n\<lparr>n_sim := sm\<rparr>)"
| foreign: "foreign_event t v u (n_sim n) = Some sm \<Longrightarrow> node_step env n (n\<lparr>n_sim := sm\<rparr>)"

end
