(* ===== verification/Engine_Invariant.thy ===== *)
theory Engine_Invariant
  imports Forwarding_Engine
begin

text \<open>
  The invariant of a whole node and its preservation by every step.  To the invariant of the
  local controller it adds: the switch is well formed, the pending Interest table and the
  content store are, and every control message on its way carries the hash tuple of its
  prefix.  The invariant holds in every configured start state (\<open>node_start\<close>) and is the
  instance of \<open>invariant_system\<close> on which the properties of reachable nodes rest.
\<close>

section \<open>Output bitmaps\<close>

lemma bit_mask_fold:
  "bit (fold (\<lambda>port mask. if port \<ge> 1 \<and> port \<le> 32 then mask OR push_bit (32 - unat port) 1 else mask)
      (ps :: port list) (m :: u32)) k \<longleftrightarrow>
   bit m k \<or> (\<exists>p \<in> set ps. 1 \<le> p \<and> p \<le> 32 \<and> k = 32 - unat p)"
proof (induction ps arbitrary: m)
  case (Cons p ps)
  have "32 - unat p < 32" if "1 \<le> p"
    using that by (metis diff_less less_eq_Suc_le unat_1 word_le_nat_alt One_nat_def zero_less_numeral)
  then have "bit (push_bit (32 - unat p) 1 :: u32) k \<longleftrightarrow> k = 32 - unat p" if "1 \<le> p"
    using that by (auto simp: bit_simps)
  then show ?case using Cons by (auto simp: bit_or_iff)
qed simp

lemma mask_ports_encode:
  assumes "finite ports"
  shows "mask_ports (encodeOutPortsMask ports) = {p \<in> ports. 1 \<le> p \<and> p \<le> 32}"
proof (rule set_eqI)
  fix q :: port
  have bits: "bit (encodeOutPortsMask ports) k \<longleftrightarrow> (\<exists>p \<in> ports. 1 \<le> p \<and> p \<le> 32 \<and> k = 32 - unat p)" for k
    unfolding encodeOutPortsMask_def bit_mask_fold using assms by simp
  have le: "1 \<le> p \<and> p \<le> 32 \<longleftrightarrow> 1 \<le> unat p \<and> unat p \<le> 32" for p :: port
    by (simp add: word_le_nat_alt)
  show "q \<in> mask_ports (encodeOutPortsMask ports) \<longleftrightarrow> q \<in> {p \<in> ports. 1 \<le> p \<and> p \<le> 32}"
  proof
    assume "q \<in> mask_ports (encodeOutPortsMask ports)"
    then obtain k p where k: "q = of_nat k" "1 \<le> k" "k \<le> 32" "32 - k = 32 - unat p"
      and p: "p \<in> ports" "1 \<le> p" "p \<le> 32"
      by (auto simp: mask_ports_def bits)
    then have "k = unat p" using le [of p] by linarith
    with k p show "q \<in> {p \<in> ports. 1 \<le> p \<and> p \<le> 32}" by simp
  next
    assume "q \<in> {p \<in> ports. 1 \<le> p \<and> p \<le> 32}"
    then have q: "q \<in> ports" "1 \<le> q" "q \<le> 32" by auto
    then have "unat q \<in> {p. 1 \<le> p \<and> p \<le> 32 \<and> bit (encodeOutPortsMask ports) (32 - p)}"
      using le [of q] by (auto simp: bits)
    then show "q \<in> mask_ports (encodeOutPortsMask ports)"
      unfolding mask_ports_def by (intro image_eqI [of _ _ "unat q"]) simp_all
  qed
qed

lemma encodeOutPortsMask_eq_0:
  "finite ports \<Longrightarrow> encodeOutPortsMask ports = 0 \<longleftrightarrow> (\<forall>p \<in> ports. \<not> (1 \<le> p \<and> p \<le> 32))"
  using mask_ports_encode [of ports] mask_ports_empty [of "encodeOutPortsMask ports"] by auto

text \<open>C35. The ports the engine encodes are the ports the switch uses: a Data packet, or an Interest whose port set has a port that
  fits, leaves a well-formed switch on exactly the ports of the set that lie between 1 and 32, the width of
  the bitmap.\<close>

theorem encoded_ports_used:
  assumes "switch_ok sw" and "finite ports"
    and "m_type h = DATA \<or> m_type h = INTEREST \<and> (\<exists>p \<in> ports. 1 \<le> p \<and> p \<le> 32)"
  shows "pr_outputPorts (fst (processPacket now (h\<lparr>m_outPorts := encodeOutPortsMask ports\<rparr>) sw)) =
    {p \<in> ports. 1 \<le> p \<and> p \<le> 32}"
proof -
  have "uses_bitmap (h\<lparr>m_outPorts := encodeOutPortsMask ports\<rparr>)"
    using assms(3) encodeOutPortsMask_eq_0 [OF assms(2)] by (auto simp: uses_bitmap_def)
  from bitmap_pass [OF assms(1) this] show ?thesis by (simp add: mask_ports_encode [OF assms(2)])
qed

theorem encoded_ports_used_witness:
  "3 \<in> pr_outputPorts (fst (processPacket 0 (header_default\<lparr>m_type := DATA, m_outPorts := encodeOutPortsMask {3, 40}\<rparr>) sample_switch)) \<and>
   40 \<notin> pr_outputPorts (fst (processPacket 0 (header_default\<lparr>m_type := DATA, m_outPorts := encodeOutPortsMask {3, 40}\<rparr>) sample_switch))"
  using encoded_ports_used [OF sample_switch_ok, of "{3, 40}" "header_default\<lparr>m_type := DATA\<rparr>" 0] by simp

section \<open>Invariant\<close>

definition msg_ok :: "env \<Rightarrow> control_message \<Rightarrow> bool" where
  "msg_ok env m \<longleftrightarrow> cm_nameHashes m = nameHashesOf (e_hash env) (cm_prefix m)"

definition msgs_ok :: "env \<Rightarrow> node \<Rightarrow> bool" where
  "msgs_ok env n \<longleftrightarrow>
     (\<forall>a i m. (a, i) \<in> live_timers (n_sim n) \<longrightarrow> act_msg a = Some m \<longrightarrow> msg_ok env m) \<and>
     (\<forall>p r. fmlookup (lc_pending (n_local n)) p = Some r \<longrightarrow> msg_ok env (pq_msg r))"

definition engine_ok :: "engine \<Rightarrow> bool" where
  "engine_ok e \<longleftrightarrow> pit_ok (en_pit e) \<and> cs_ok (en_cs e) \<and> 0 \<le> en_statefulDelay e"

definition plane_ok :: "env \<Rightarrow> node \<Rightarrow> bool" where
  "plane_ok env n \<longleftrightarrow> env_ok env \<and> switch_ok (n_switch n) \<and> engine_ok (n_engine n) \<and> msgs_ok env n"

definition node_rel :: "env \<Rightarrow> name set \<Rightarrow> name set \<Rightarrow> name set \<Rightarrow> node \<Rightarrow> bool" where
  "node_rel env X Y Z n \<longleftrightarrow> linv X Y Z n \<and> plane_ok env n"

abbreviation node_inv :: "env \<Rightarrow> node \<Rightarrow> bool" where
  "node_inv env \<equiv> node_rel env {} {} {}"

text \<open>A node that has been configured and has not run: no events, no local routes, and any
  well-formed tables.\<close>

definition node_start :: "env \<Rightarrow> node \<Rightarrow> bool" where
  "node_start env n \<longleftrightarrow> env_ok env \<and> m_events (n_sim n) = [] \<and> m_currentUid (n_sim n) < m_uid (n_sim n) \<and>
     0 \<le> node_now n \<and>
     lc_fib (n_local n) = fmempty \<and> lc_seqMap (n_local n) = fmempty \<and>
     lc_routeExpiries (n_local n) = fmempty \<and> lc_lifetimeTimers (n_local n) = fmempty \<and>
     lc_pending (n_local n) = fmempty \<and> 0 \<le> lc_entryLifetime (n_local n) \<and>
     switch_ok (n_switch n) \<and> engine_ok (n_engine n)"

lemma node_start_inv: "node_start env n \<Longrightarrow> node_inv env n"
  by (auto simp: node_start_def node_rel_def plane_ok_def msgs_ok_def linv_defs sim_ok_def
      live_timers_def Now_def)

lemma node_start_new: "env_ok env \<Longrightarrow> node_start env (node_new env)"
  using priority_sorter.initPipeline_ok [of "e_sort env"]
  by (simp add: node_start_def node_new_def env_ok_def engine_ok_def pit_ok_new cs_ok_new engine_new_def
      local_new_def sim_init_def tfib_new_def Now_def)

section \<open>What an update of the node leaves intact\<close>

lemma msgs_ok_frame [simp]:
  "msgs_ok env (on_engine f n) = msgs_ok env n" "msgs_ok env (n\<lparr>n_switch := sw\<rparr>) = msgs_ok env n"
  by (simp_all add: msgs_ok_def)

lemma plane_ok_frame [simp]:
  "plane_ok env (on_central f n) = plane_ok env n" "plane_ok env (count_central g n) = plane_ok env n"
  "plane_ok env (count_engine h n) = plane_ok env n" "plane_ok env (count_local k n) = plane_ok env n"
  "plane_ok env (n\<lparr>n_sent := sent\<rparr>) = plane_ok env n"
  by (simp_all add: plane_ok_def msgs_ok_def engine_ok_def)

lemma node_rel_frame [simp]:
  "node_rel env X Y Z (on_central f n) = node_rel env X Y Z n"
  "node_rel env X Y Z (count_central g n) = node_rel env X Y Z n"
  "node_rel env X Y Z (count_engine h n) = node_rel env X Y Z n"
  "node_rel env X Y Z (count_local k n) = node_rel env X Y Z n"
  "node_rel env X Y Z (n\<lparr>n_sent := sent\<rparr>) = node_rel env X Y Z n"
  by (simp_all add: node_rel_def)

lemma node_rel_engine:
  "node_rel env X Y Z n \<Longrightarrow> engine_ok (f (n_engine n)) \<Longrightarrow> node_rel env X Y Z (on_engine f n)"
  by (simp add: node_rel_def plane_ok_def msgs_ok_def)

lemma node_rel_switch:
  "node_rel env X Y Z n \<Longrightarrow> switch_ok sw \<Longrightarrow> node_rel env X Y Z (n\<lparr>n_switch := sw\<rparr>)"
  by (simp add: node_rel_def plane_ok_def msgs_ok_def)

lemma plane_ok_schedule:
  "plane_ok env n \<Longrightarrow> (\<And>m. act_msg a = Some m \<Longrightarrow> msg_ok env m) \<Longrightarrow> plane_ok env (snd (node_schedule d a n))"
  by (auto simp: plane_ok_def msgs_ok_def live_timers_Schedule)

lemma node_rel_schedule:
  "node_rel env X Y Z n \<Longrightarrow> 0 \<le> d \<Longrightarrow> \<not> timer_act a \<Longrightarrow> (\<And>m. act_msg a = Some m \<Longrightarrow> msg_ok env m) \<Longrightarrow>
   node_rel env X Y Z (snd (node_schedule d a n))"
  by (simp add: node_rel_def plane_ok_schedule linv_schedule)

text \<open>A node that only loses timers and pending requests.\<close>

definition shrinks :: "node \<Rightarrow> node \<Rightarrow> bool" where
  "shrinks n n' \<longleftrightarrow> n_switch n' = n_switch n \<and> n_engine n' = n_engine n \<and> n_central n' = n_central n \<and>
     n_sent n' = n_sent n \<and> node_now n' = node_now n \<and> live_timers (n_sim n') \<subseteq> live_timers (n_sim n) \<and>
     (\<forall>p r. fmlookup (lc_pending (n_local n')) p = Some r \<longrightarrow> fmlookup (lc_pending (n_local n)) p = Some r)"

lemma shrinks_refl [simp]: "shrinks n n"
  by (simp add: shrinks_def)

lemma shrinks_trans [trans]: "shrinks a b \<Longrightarrow> shrinks b c \<Longrightarrow> shrinks a c"
  by (auto simp: shrinks_def)

lemma live_timers_Cancel_subset: "live_timers (Cancel i s) \<subseteq> live_timers s"
  by (auto simp: live_timers_def Cancel_def event_id_of_def)

lemma shrinks_local [simp]: "shrinks n (count_local f n)" "shrinks n (dropRoute p n)"
  "shrinks n (on_local (\<lambda>l. l\<lparr>lc_completed := c l\<rparr>) n)"
  "shrinks n (on_local (\<lambda>l. l\<lparr>lc_lifetimeTimers := t l\<rparr>) n)"
  "shrinks n (on_local (\<lambda>l. l\<lparr>lc_pending := fmdrop p (lc_pending l)\<rparr>) n)"
  by (auto simp: shrinks_def dropRoute_def split: if_splits)

lemma shrinks_cancel [simp]: "shrinks n (cancelLifetimeTimer p n)" "shrinks n (dropPending p n)"
  using live_timers_Cancel_subset
  by (fastforce simp: shrinks_def cancelLifetimeTimer_def dropPending_def split: option.splits if_splits)+

lemmas shrinks_steps = shrinks_local [THEN [2] shrinks_trans] shrinks_cancel [THEN [2] shrinks_trans]

lemma plane_ok_shrinks: "shrinks n n' \<Longrightarrow> plane_ok env n \<Longrightarrow> plane_ok env n'"
  unfolding shrinks_def plane_ok_def msgs_ok_def by (metis subsetD)

lemma handleControlResponse_shrinks: "handleControlResponse m n = Inr (b, n') \<Longrightarrow> shrinks n n'"
  by (auto simp: handleControlResponse_def Let_def split: if_splits option.splits
      intro!: shrinks_steps)

section \<open>Control events\<close>

lemma msg_ok_hashes: "msg_ok env m \<Longrightarrow> hashes_ok (cm_nameHashes m)"
  by (simp add: msg_ok_def hashes_ok_of_name)

text \<open>The invariant, also while a retry timer runs, is a contract of the rest of the node to the
  flow-table controller.\<close>

interpretation node_control: control_invariant env "node_rel env {} Y {}" "msg_ok env" for env Y
proof
  show "\<exists>b n'. handleControlResponse m n = Inr (b, n') \<and> node_rel env {} Y {} n'"
    if "node_rel env {} Y {} n" for n m
    using that handleControlResponse_cases [of Y n m] handleControlResponse_inv [of Y n m]
      handleControlResponse_shrinks [of m n] plane_ok_shrinks
    unfolding node_rel_def by blast
  show "node_rel env {} Y {} (n\<lparr>n_switch := installFibEntry (e_sort env) (cm_nameHashes m)
      (cm_outputPort m) (cm_routeExpiry m) (n_switch n)\<rparr>)"
    if "node_rel env {} Y {} n" "msg_ok env m" for n m
    using that priority_sorter.installFibEntry_ok(1) [of "e_sort env"] msg_ok_hashes
    by (intro node_rel_switch) (auto simp: node_rel_def plane_ok_def env_ok_def)
  show "node_rel env {} Y {} (on_engine (\<lambda>e. e\<lparr>en_flowSteerPending := x, en_flowSteerSeq := y,
      en_flowSteerPrefix := z\<rparr>) n) = node_rel env {} Y {} n" for x y z n
    by (simp add: node_rel_def plane_ok_def msgs_ok_def engine_ok_def)
qed (auto simp: node_rel_schedule msg_ok_def)

lemmas node_rel_env = node_rel_def plane_ok_def

section \<open>Local controller events\<close>

lemma plane_ok_local:
  "plane_ok env n \<Longrightarrow> lc_pending (f (n_local n)) = lc_pending (n_local n) \<Longrightarrow> plane_ok env (on_local f n)"
  by (simp add: plane_ok_def msgs_ok_def)

lemma plane_ok_pending:
  "plane_ok env n \<Longrightarrow> msg_ok env (pq_msg (r (n_local n))) \<Longrightarrow>
   plane_ok env (on_local (\<lambda>l. l\<lparr>lc_pending := fmupd p (r l) (lc_pending l)\<rparr>) n)"
  by (auto simp: plane_ok_def msgs_ok_def)

lemma plane_ok_publishRoute: "plane_ok env n \<Longrightarrow> plane_ok env (publishRoute p pt s life x n)"
proof -
  assume ok: "plane_ok env n"
  then have "plane_ok env (storeRoute p pt s life x n)"
    by (simp add: storeRoute_def Let_def plane_ok_local)
  then have "plane_ok env (cancelLifetimeTimer p (storeRoute p pt s life x n))"
    by (rule plane_ok_shrinks [OF shrinks_cancel(1)])
  then show ?thesis
    by (auto simp: publishRoute_def Let_def split: prod.splits intro!: plane_ok_local
        dest: plane_ok_schedule [of env _ "ExpireEntryBySeq p s" life])
qed

lemma plane_ok_admission: "plane_ok env n \<Longrightarrow> plane_ok env (admission p pt s life n)"
  by (simp add: admission_def plane_ok_publishRoute plane_ok_local)

lemma plane_ok_openRequest:
  "plane_ok env n \<Longrightarrow> msg_ok env m \<Longrightarrow> plane_ok env (openRequest p s m n)"
  using plane_ok_schedule [of env "dropPending p n" "ControllerRetryTimeout p s"]
    plane_ok_shrinks [OF shrinks_cancel(2), of env n p]
  by (simp add: openRequest_def Let_def case_prod_beta plane_ok_pending)

lemma admission_rel:
  assumes "node_inv env n" and "0 \<le> lifetime" and "msg_ok env m"
    and "cm_prefix m = p" and "cm_seq m = s" and "cm_routeExpiry m = expiry_at lifetime n"
    and "lc_hasSyncRequestCb (n_local (admission p pt s lifetime n))"
  shows "node_inv env (openRequest p s m (count_local f (admission p pt s lifetime n)))"
  using assms admission_inv [of n lifetime p pt s]
  by (simp add: node_rel_def plane_ok_openRequest plane_ok_admission openRequest_inv)

lemma stale_plane_ok:
  assumes "stale_update p s (n_local n)" and "plane_ok env n"
    and "local_applyTraceUpdate env p hashes len pt s ttl n = Inr (b, n')"
  shows "plane_ok env n'"
  using assms
  by (cases "route_lifetime ttl (n_local n)")
    (auto simp: local_applyTraceUpdate_def Let_def stale_update_def plane_ok_local
      split: if_splits option.splits)

lemma local_applyTraceUpdate_node:
  assumes inv: "node_inv env n" and h: "hashes = nameHashesOf (e_hash env) p"
    and life: "route_lifetime ttl (n_local n) = Inr lifetime"
  shows "\<exists>b n'. local_applyTraceUpdate env p hashes len pt s ttl n = Inr (b, n') \<and> node_inv env n' \<and>
    (b \<longleftrightarrow> \<not> stale_update p s (n_local n))"
proof -
  have env: "env_ok env" and l: "local_inv n" using inv by (auto simp: node_rel_env)
  obtain b n' where r: "local_applyTraceUpdate env p hashes len pt s ttl n = Inr (b, n')"
    and b: "local_inv n'" "b \<longleftrightarrow> \<not> stale_update p s (n_local n)"
    using local_applyTraceUpdate_inv [OF l env life] by blast
  have nonneg: "0 \<le> lifetime"
    using l by (intro route_lifetime_nonneg [OF life]) (simp add: linv_def routes_ok_def)
  let ?a = "admission p pt s lifetime n"
  let ?m = "admission_message p hashes len pt s (expiry_at lifetime n)"
  let ?o = "openRequest p s ?m (count_local (controlPackets_update incr) ?a)"
  have m: "msg_ok env ?m" by (simp add: msg_ok_def admission_message_def h)
  have "plane_ok env n'"
  proof (cases "stale_update p s (n_local n)")
    case True
    then show ?thesis using stale_plane_ok [OF _ _ r] inv by (simp add: node_rel_def)
  next
    case False
    note fresh = local_applyTraceUpdate_fresh [OF life False refl refl, of env hashes len pt]
    show ?thesis
    proof (cases "lc_hasSyncRequestCb (n_local ?a)")
      case True
      then have "node_inv env ?o"
        using admission_rel [OF inv nonneg m, of p s pt] by (simp add: admission_message_def)
      then show ?thesis
        using node_control.submitFlowUpdate_keeps [OF env _ m, of "{}" ?o] fresh r True
        by (auto simp: node_rel_def)
    next
      case False
      then show ?thesis using fresh r inv by (simp add: node_rel_def plane_ok_admission)
    qed
  qed
  with r b show ?thesis by (simp add: node_rel_def)
qed

lemma expireEntryBySeq_node:
  assumes "node_rel env {p} {} {} n" and "fmlookup (lc_seqMap (n_local n)) p = Some s"
  shows "node_inv env (expireEntryBySeq p s n)"
proof -
  have "shrinks n (expireEntryBySeq p s n)"
    by (auto simp: expireEntryBySeq_def Let_def split: option.splits intro!: shrinks_steps)
  then show ?thesis
    using assms expireEntryBySeq_inv(1) plane_ok_shrinks by (auto simp: node_rel_def)
qed

lemma retryRequest_node:
  assumes inv: "node_rel env {} {p} {} n"
    and r: "fmlookup (lc_pending (n_local n)) p = Some r" "pq_seq r = s"
  shows "\<exists>n'. retryRequest env p s r n = Inr n' \<and> node_inv env n'"
proof -
  have env: "env_ok env" and l: "linv {} {p} {} n" and m: "msg_ok env (pq_msg r)"
    using inv r(1) by (auto simp: node_rel_env msgs_ok_def)
  obtain n' where n': "retryRequest env p s r n = Inr n'" "local_inv n'"
    using retryRequest_inv [OF l env r] by blast
  let ?r = "r\<lparr>pq_retriesLeft := pq_retriesLeft r - 1\<rparr>"
  let ?a = "on_local (\<lambda>l. l\<lparr>lc_pending := fmupd p ?r (lc_pending l)\<rparr>) n"
  let ?b = "count_local (controlPackets_update incr) (count_local (controllerRetries_update incr) ?a)"
  have b: "node_rel env {} {p} {} ?b"
    using inv retries_left_inv [OF l r(1)] m by (simp add: node_rel_def plane_ok_pending)
  then obtain n1 where n1: "submitFlowUpdate env (pq_msg r) ?b = Inr n1" "node_rel env {} {p} {} n1"
    using node_control.submitFlowUpdate_keeps [OF env _ m] by blast
  have req: "lc_hasSyncRequestCb (n_local ?b)"
    using l r by (auto simp: linv_def retry_ok_def)
  have "plane_ok env n'"
  proof (cases "fmlookup (lc_pending (n_local n1)) p")
    case None
    then show ?thesis using n' n1 req by (simp add: retryRequest_def Let_def node_rel_def)
  next
    case (Some x)
    then have "msg_ok env (pq_msg x)" using n1(2) by (auto simp: node_rel_env msgs_ok_def)
    moreover have "plane_ok env (snd (node_schedule d (ControllerRetryTimeout p s) n1))" for d
      using n1(2) by (intro plane_ok_schedule) (simp_all add: node_rel_def)
    ultimately show ?thesis
      using n' n1 req Some
      by (auto simp: retryRequest_def Let_def case_prod_beta node_rel_def plane_ok_pending
          split: if_splits)
  qed
  with n' show ?thesis by (simp add: node_rel_def)
qed

lemma onControllerRetryTimeout_node:
  assumes inv: "node_rel env {} {p} {} n"
    and r: "fmlookup (lc_pending (n_local n)) p = Some r" "pq_seq r = s"
  shows "\<exists>n'. onControllerRetryTimeout env p s n = Inr n' \<and> node_inv env n'"
proof -
  have l: "linv {} {p} {} n" and env: "env_ok env" and P: "plane_ok env n"
    using inv by (auto simp: node_rel_env)
  obtain n' where n': "onControllerRetryTimeout env p s n = Inr n'" "local_inv n'"
    using onControllerRetryTimeout_inv [OF l env r] by blast
  have s: "fmlookup (lc_seqMap (n_local n)) p = Some s"
    using l r by (auto simp: linv_def retry_ok_def request_ok_def)
  show ?thesis
  proof (cases "pq_retriesLeft r > 0")
    case True
    then show ?thesis
      using retryRequest_node [OF inv r] r s by (simp add: onControllerRetryTimeout_def)
  next
    case False
    then have "shrinks n n'"
      using n'(1) r s by (auto simp: onControllerRetryTimeout_def Let_def intro!: shrinks_steps)
    then show ?thesis using n' plane_ok_shrinks [OF _ P] by (auto simp: node_rel_def)
  qed
qed

section \<open>Forwarding\<close>

lemma switch_ok_processPacket: "switch_ok sw \<Longrightarrow> switch_ok (snd (processPacket now h sw))"
  by (simp add: processPacket_def processPacketBuf_def switch_ok_def Let_def serializeHeader_def
      split: option.splits if_splits)

lemma pipeline_node [simp]:
  "node_rel env X Y Z n \<Longrightarrow> node_rel env X Y Z (snd (pipeline h n))"
  by (simp add: pipeline_def case_prod_beta Let_def node_rel_switch switch_ok_processPacket node_rel_env)

lemma sendToPort_node [simp]: "node_rel env X Y Z (sendToPort port f n) = node_rel env X Y Z n"
  by (simp add: sendToPort_def split: option.splits)

lemma send_node [simp]:
  "node_rel env' X Y Z (sendInterestToPort env port i n) = node_rel env' X Y Z n"
  "node_rel env' X Y Z (sendDataToPort env port d n) = node_rel env' X Y Z n"
  by (simp_all add: sendInterestToPort_def sendDataToPort_def Let_def)

lemma steer_telemetry_node [simp]:
  "node_rel env X Y Z n \<Longrightarrow> node_rel env X Y Z (steer_telemetry used i n)"
  by (simp add: steer_telemetry_def Let_def node_rel_engine engine_ok_def node_rel_env)

lemma forward_on_node [simp]:
  "node_rel env' X Y Z n \<Longrightarrow> node_rel env' X Y Z (forward_on env inPort i used port n)"
  by (simp add: forward_on_def Let_def)

lemma fold_node:
  "(\<And>x n. node_rel env X Y Z n \<Longrightarrow> node_rel env X Y Z (g x n)) \<Longrightarrow> node_rel env X Y Z n \<Longrightarrow>
   node_rel env X Y Z (fold g xs n)"
  by (induction xs arbitrary: n) simp_all

text \<open>The search in the temporary FIB only removes prefixes whose single hop has expired.\<close>

lemma live_hops_single_hop:
  "live_hops now (single_hop p pt d) = (if now < d then single_hop p pt d else \<lparr>m_prefix = p, m_nextHops = fmempty\<rparr>)"
  by (intro forwarding_entry.equality fmap_ext)
    (auto simp: live_hops_lookup single_hop_def live_hops_def split: option.splits)

lemma longest_loop_invariant:
  assumes "\<And>t k. P t \<Longrightarrow> P (snd (search t k))" and "P t"
  shows "P (snd (longest_loop search n k t))"
  using assms(2)
proof (induction k arbitrary: t)
  case 0
  then show ?case
    using assms(1) [of t "getPrefix n (int 0)"] by (cases "search t (getPrefix n (int 0))")
      (auto split: option.splits)
next
  case (Suc k)
  then show ?case
    using assms(1) [of t "getPrefix n (int (Suc k))"] by (cases "search t (getPrefix n (int (Suc k)))")
      (auto split: option.splits)
qed

lemma findLongestPrefix_sub:
  assumes single: "\<And>p e. fmlookup t0 p = Some e \<Longrightarrow> \<exists>pt d. e = single_hop p pt d"
    and e: "fmlookup (snd (findLongestPrefix now nm t0)) p = Some e"
  shows "fmlookup t0 p = Some e"
proof -
  let ?sub = "\<lambda>t. \<forall>p e. fmlookup t p = Some e \<longrightarrow> fmlookup t0 p = Some e"
  have step: "?sub t \<Longrightarrow> ?sub (snd (pruneAndFind now t q))" for t q
  proof (cases "fmlookup t q")
    case (Some e)
    moreover assume sub: "?sub t"
    ultimately obtain pt d where "e = single_hop q pt d" using single by blast
    then show ?thesis
      using Some sub by (auto simp: pruneAndFind_def Let_def live_hops_single_hop)
  qed (simp add: pruneAndFind_def)
  have "?sub (snd (longest_loop (pruneAndFind now) nm (length nm) t0))"
    by (rule longest_loop_invariant [where P = ?sub]) (use step in blast)+
  then show ?thesis using e by (simp add: findLongestPrefix_def case_prod_beta)
qed

lemma routes_ok_sub:
  assumes "routes_ok l" and "\<And>p e. fmlookup t p = Some e \<Longrightarrow> fmlookup (lc_fib l) p = Some e"
  shows "routes_ok (l\<lparr>lc_fib := t\<rparr>)"
  using assms(1) unfolding routes_ok_def by (auto dest!: assms(2))

lemma timers_ok_fib [simp]:
  "lease_ok X sm (l\<lparr>lc_fib := t\<rparr>) = lease_ok X sm l" "retry_ok Y Z sm (l\<lparr>lc_fib := t\<rparr>) = retry_ok Y Z sm l"
  by (simp_all add: lease_ok_def retry_ok_def request_ok_def)

lemma linv_prune:
  assumes "linv X Y Z n"
  shows "linv X Y Z (on_local (\<lambda>l. l\<lparr>lc_fib := snd (findLongestPrefix now nm (lc_fib (n_local n)))\<rparr>) n)"
proof -
  have "\<exists>pt d. e = single_hop p pt d" if "fmlookup (lc_fib (n_local n)) p = Some e" for p e
    using assms that unfolding linv_def routes_ok_def by blast
  from findLongestPrefix_sub [OF this]
  have "routes_ok ((n_local n)\<lparr>lc_fib := snd (findLongestPrefix now nm (lc_fib (n_local n)))\<rparr>)"
    using assms unfolding linv_def by (intro routes_ok_sub) blast+
  then show ?thesis using assms by (simp add: linv_def)
qed

lemma processInterestAfterDelay_node:
  assumes "node_inv env n"
  shows "node_inv env (processInterestAfterDelay env inPort i h n)"
proof -
  let ?n = "on_local (\<lambda>l. l\<lparr>lc_fib := snd (findLongestPrefix (node_now n) (i_name i) (lc_fib (n_local n)))\<rparr>) n"
  have "node_inv env ?n"
    using assms linv_prune [of "{}" "{}" "{}" n] by (simp add: node_rel_def plane_ok_local)
  then show ?thesis
    by (simp add: processInterestAfterDelay_def Let_def case_prod_beta fold_node)
qed

lemma refresh_node: "node_rel env X Y Z n \<Longrightarrow> node_rel env X Y Z (on_engine (\<lambda>e. e\<lparr>en_store := st\<rparr>) n)"
  by (simp add: node_rel_engine node_rel_env engine_ok_def)

lemma pull_loop_node:
  "node_inv env n \<Longrightarrow> pull_loop env port is n = Inr n' \<Longrightarrow> node_inv env n'"
proof (induction "is" arbitrary: n)
  case (Cons i "is")
  then obtain n1 where n1: "pull_one env port i n = Inr n1" "pull_loop env port is n1 = Inr n'"
    by (cases "pull_one env port i n") auto
  then have "node_inv env n1"
    using Cons.prems(1)
    by (cases "refreshNonce (e_words env) i (en_store (n_engine n))")
      (auto simp: pull_one_def Let_def timer_act_def refresh_node intro!: node_rel_schedule)
  with Cons.IH n1(2) show ?case by blast
qed simp

lemma pullPendingInterests_node:
  "node_inv env n \<Longrightarrow> pullPendingInterests env p port n = Inr n' \<Longrightarrow> node_inv env n'"
  by (auto simp: pullPendingInterests_def Let_def elim: pull_loop_node [rotated])

lemma header_of_name_hashes [simp]: "m_nameHashes (header_of_name hash p) = nameHashesOf hash p"
  by (simp add: header_of_name_def computeNameHashes_def)

lemma fwd_applyTraceUpdate_node:
  assumes inv: "node_inv env n" and r: "fwd_applyTraceUpdate env p pt s ttl n = Inr (b, n')"
  shows "node_inv env n'" and "b \<longleftrightarrow> \<not> stale_update p s (n_local n)"
proof -
  obtain lifetime where "route_lifetime ttl (n_local n) = Inr lifetime"
    using r by (cases "route_lifetime ttl (n_local n)")
      (auto simp: fwd_applyTraceUpdate_def local_applyTraceUpdate_def Let_def)
  from local_applyTraceUpdate_node [OF inv refl this]
  obtain b1 n1 where n1: "local_applyTraceUpdate env p (m_nameHashes (header_of_name (e_hash env) p))
        (if length p > STATIM_NAME_HASH_COUNT then STATIM_NAME_HASH_COUNT else length p) pt s ttl n =
      Inr (b1, n1)" "node_inv env n1" "b1 \<longleftrightarrow> \<not> stale_update p s (n_local n)"
    unfolding header_of_name_hashes by blast
  then show "node_inv env n'" "b \<longleftrightarrow> \<not> stale_update p s (n_local n)"
    using r by (auto simp: fwd_applyTraceUpdate_def Let_def node_rel_engine node_rel_env engine_ok_def
        split: if_splits)
qed

lemma trace_ports_node:
  "node_inv env n \<Longrightarrow> trace_ports env p s ttl ports n = Inr n' \<Longrightarrow> node_inv env n'"
proof (induction ports arbitrary: n)
  case (Cons port ports)
  obtain b n1 where n1: "fwd_applyTraceUpdate env p port s ttl n = Inr (b, n1)"
    using Cons.prems(2) by (cases "fwd_applyTraceUpdate env p port s ttl n") auto
  note inv1 = fwd_applyTraceUpdate_node(1) [OF Cons.prems(1) n1]
  let ?n = "if en_telemetry (n_engine n1) \<and> b
    then on_engine (\<lambda>e. e\<lparr>en_tempSteerPending := True, en_tempSteerSeq := s, en_tempSteerPrefix := p\<rparr>) n1
    else n1"
  have inv2: "node_inv env ?n"
    using inv1 by (simp add: node_rel_engine node_rel_env engine_ok_def)
  obtain n2 where n2: "(if b \<and> en_enableReforwarding (n_engine ?n)
      then pullPendingInterests env p port ?n else Inr ?n) = Inr n2" "trace_ports env p s ttl ports n2 = Inr n'"
    using Cons.prems(2) n1
    by (cases "if b \<and> en_enableReforwarding (n_engine ?n)
      then pullPendingInterests env p port ?n else Inr ?n") (simp_all add: Let_def)
  have "node_inv env n2" using n2(1) inv2 pullPendingInterests_node by (auto split: if_splits)
  with Cons.IH n2(2) show ?case by blast
qed simp

lemma handleTraceData_node:
  assumes "node_inv env n" and "handleTraceData env d ports ttl n = Inr n'"
  shows "node_inv env n'"
  using assms trace_ports_node [of env "count_engine (traceUpdatesHandled_update incr) n"]
  by (cases "validateRouteLifetime (us_to_ns ttl) (n_engine n)"; cases "getTraceSequence (d_name d)")
    (auto simp: handleTraceData_def Let_def split: if_splits)

lemma sendData_node [simp]:
  "node_rel env' X Y Z n \<Longrightarrow> node_rel env' X Y Z (sendData env d h ports n)"
  by (simp add: sendData_def Let_def case_prod_beta fold_node)

lemma processDataAfterDelay_node:
  assumes inv: "node_inv env n" and r: "processDataAfterDelay env inPort d h n = Inr n'"
  shows "node_inv env n'"
proof -
  let ?pit = "en_pit (n_engine n)"
  let ?n = "on_engine (\<lambda>e. e\<lparr>en_pit := snd (takeDataMatchPorts (d_name d) ?pit)\<rparr>) n"
  have taken: "node_inv env ?n"
    using inv pit_ok_take by (intro node_rel_engine) (auto simp: node_rel_env engine_ok_def)
  let ?cs = "cs_insert (e_rands env) (en_randPos (n_engine n)) d (en_cs (n_engine n))"
  have "node_inv env (on_engine (\<lambda>e. e\<lparr>en_cs := snd ?cs, en_randPos := fst ?cs\<rparr>) ?n)"
    using taken cs_ok_insert by (intro node_rel_engine [OF taken]) (auto simp: node_rel_env engine_ok_def)
  with taken r show ?thesis
    by (auto simp: processDataAfterDelay_def Let_def case_prod_beta bind_exn_Inr
        split: if_splits intro!: sendData_node dest: handleTraceData_node [OF taken])
qed

section \<open>Reception\<close>

lemma engine_delay: "node_rel env X Y Z n \<Longrightarrow> 0 \<le> en_statefulDelay (n_engine n)"
  by (simp add: node_rel_env engine_ok_def)

lemma processStatefulInterest_node:
  assumes "node_inv env n" and "processStatefulInterest env inPort i h n = (x, n')"
  shows "node_inv env n'"
proof -
  let ?c = "count_engine (interestsReceived_update incr) n"
  let ?n = "if en_telemetry (n_engine ?c) \<and> judgeNameIsTrace (i_name i)
    then count_engine (traceInterestsHandled_update incr) ?c else ?c"
  have inv: "node_inv env ?n" using assms(1) by simp
  show ?thesis
  proof (cases "pit_insert (en_store (n_engine ?n)) (node_now ?n) i inPort (en_pit (n_engine ?n))")
    case (Inl e)
    then show ?thesis using assms(2) inv by (auto simp: processStatefulInterest_def Let_def)
  next
    case (Inr r)
    obtain status first pit where r: "r = ((status, first), pit)" by (metis prod.exhaust)
    let ?m = "on_engine (\<lambda>e. e\<lparr>en_pit := pit\<rparr>) ?n"
    have m: "node_inv env ?m"
      using inv pit_ok_insert Inr r by (intro node_rel_engine) (auto simp: node_rel_env engine_ok_def)
    have "node_inv env (snd (node_schedule (en_statefulDelay (n_engine ?m))
        (ProcessInterestAfterDelay inPort i h') ?m))" for h'
      using m engine_delay [OF m] by (intro node_rel_schedule) (auto simp: timer_act_def)
    then show ?thesis
      using assms(2) Inr r m
      by (auto simp: processStatefulInterest_def Let_def split: if_splits option.splits)
  qed
qed

lemma processStatefulData_node:
  assumes "node_inv env n"
  shows "node_inv env (processStatefulData inPort d h n)"
  using assms engine_delay [OF assms] unfolding processStatefulData_def Let_def
  by (intro node_rel_schedule) (auto simp: timer_act_def)

lemma receivePayload_node:
  assumes "node_inv env n" and "receivePayload env inPort pl h n = Inr n'"
  shows "node_inv env n'"
proof (cases pl)
  case (InterestPayload nm nonce lifetime)
  let ?a = "alloc_nonce nonce (en_store (n_engine n))"
  obtain x n1 where r: "processStatefulInterest env inPort
      \<lparr>i_name = nm, i_nonce = Some (fst ?a), i_lifetime = lifetime\<rparr> h
      (on_engine (\<lambda>e. e\<lparr>en_store := snd ?a\<rparr>) n) = (x, n1)"
    by fastforce
  have "node_inv env n1" by (rule processStatefulInterest_node [OF refresh_node [OF assms(1)] r])
  then show ?thesis
    using assms(2) r InterestPayload
    by (auto simp: receivePayload_def Let_def case_prod_beta split: option.splits exn.splits)
qed (use assms in \<open>auto simp: receivePayload_def processStatefulData_node\<close>)

lemma onReceiveRawPacket_node:
  assumes "node_inv env n" and "onReceiveRawPacket env inPort f n = Inr n'"
  shows "node_inv env n'"
  using assms pipeline_node [OF assms(1)]
  by (auto simp: onReceiveRawPacket_def Let_def case_prod_beta split: if_splits
      elim: receivePayload_node [rotated])

section \<open>Steps\<close>

lemma plane_ok_pop:
  assumes "node_inv env n" and "ProcessOneEvent (n_sim n) = Some (r, sm)"
  shows "plane_ok env (n\<lparr>n_sim := sm\<rparr>)" and "r = Some a \<Longrightarrow> act_msg a = Some m \<Longrightarrow> msg_ok env m"
proof -
  have ok: "sim_ok (n_sim n)" and P: "plane_ok env n" using assms(1) by (auto simp: node_rel_def linv_def)
  note live = live_timers_ProcessOneEvent [OF ok assms(2)]
  then have "live_timers sm \<subseteq> live_timers (n_sim n)" by (auto split: option.splits)
  then show "plane_ok env (n\<lparr>n_sim := sm\<rparr>)" using P by (auto simp: plane_ok_def msgs_ok_def)
  show "r = Some a \<Longrightarrow> act_msg a = Some m \<Longrightarrow> msg_ok env m"
    using live P by (auto simp: plane_ok_def msgs_ok_def)
qed

lemma foreign_inv:
  assumes "node_inv env n" and "foreign_event t v u (n_sim n) = Some sm"
  shows "node_inv env (n\<lparr>n_sim := sm\<rparr>)"
proof -
  have sm: "sm = (n_sim n)\<lparr>m_currentTs := t, m_currentUid := v, m_uid := u\<rparr>"
    and c: "m_currentTs (n_sim n) \<le> t"
    using assms(2) by (auto simp: foreign_event_def split: if_splits)
  then have live: "live_timers sm = live_timers (n_sim n)" by (simp add: live_timers_def)
  have "sim_ok sm" "0 \<le> Now sm"
    using assms sim_ok_foreign c by (auto simp: sm node_rel_def linv_def Now_def)
  then show ?thesis
    using assms(1) by (simp add: node_rel_def plane_ok_def msgs_ok_def live linv_def lease_ok_def retry_ok_def)
qed

lemma run_act_node:
  assumes inv: "node_inv env n" and pop: "ProcessOneEvent (n_sim n) = Some (Some a, sm)"
    and r: "run_act env a (n\<lparr>n_sim := sm\<rparr>) = Inr n'"
  shows "node_inv env n'"
proof -
  let ?n = "n\<lparr>n_sim := sm\<rparr>"
  have l: "local_inv n" and env: "env_ok env" using inv by (auto simp: node_rel_env)
  note p = pop_inv [OF l pop] and P = plane_ok_pop [OF inv pop]
  have n: "node_inv env ?n" if "\<not> timer_act a"
    using p P(1) that by (cases a) (auto simp: node_rel_def timer_act_def)
  show ?thesis
  proof (cases a)
    case (ExpireEntryBySeq q s)
    then show ?thesis
      using p P(1) r expireEntryBySeq_node [of env q ?n s] by (auto simp: node_rel_def run_act_def)
  next
    case (ControllerRetryTimeout q s)
    then show ?thesis
      using p P(1) r onControllerRetryTimeout_node [of env q ?n]
      by (fastforce simp: node_rel_def run_act_def)
  next
    case (AcceptControl m)
    then show ?thesis
      using node_control.acceptControl_keeps [OF env n P(2) [OF refl]] r by (auto simp: run_act_def timer_act_def)
  next
    case (AttemptFlowMod m)
    then show ?thesis
      using node_control.attemptFlowMod_keeps [OF n P(2) [OF refl]] r by (auto simp: run_act_def timer_act_def)
  next
    case (DeliverSyncAck m)
    then show ?thesis
      using node_control.deliverSyncAck_keeps [OF n P(2) [OF refl]] r by (auto simp: run_act_def timer_act_def)
  qed (use n r processInterestAfterDelay_node processDataAfterDelay_node in
      \<open>auto simp: run_act_def doDelayedPullSend_def timer_act_def\<close>)
qed

inductive_cases node_stepE: "node_step env n n'"

text \<open>The steps of a node keep its invariant.\<close>

interpretation node_system: invariant_system "node_start env" "node_step env" "node_inv env" for env
proof
  show "node_inv env n'" if "node_inv env n" "node_step env n n'" for n n'
    using that(2)
  proof (rule node_stepE)
    fix sm assume "n' = n\<lparr>n_sim := sm\<rparr>" "ProcessOneEvent (n_sim n) = Some (None, sm)"
    then show ?thesis
      using pop_inv [of n None sm] plane_ok_pop(1) [OF that(1)] that(1) by (auto simp: node_rel_def)
  qed (use that(1) in \<open>auto intro: onReceiveRawPacket_node run_act_node foreign_inv\<close>)
qed (rule node_start_inv)

end
