(* ===== verification/Node_Relations.thy ===== *)
theory Node_Relations
  imports Engine_Invariant
begin

text \<open>
  Relations between a node and its successor.  The interfaces build on each other:
  \<open>update_relation\<close> collects the updates that the handlers are made of and gives the relation
  for the handlers that leave the routes alone; \<open>frame_relation\<close> gives it for those that may also drop routes;
  \<open>handler_relation\<close> adds the admission of updates and the decision points of the flow-table controller;
  \<open>step_relation\<close> adds the progress of the clock and gives the relation for every step and every run.
\<close>

section \<open>Updates that add nothing\<close>

text \<open>An update of the local controller is quiet when it adds no route, no hop and no request; the sequence
  numbers it has seen may grow.\<close>

definition hop_in :: "temp_fib \<Rightarrow> name \<Rightarrow> port \<Rightarrow> bool" where
  "hop_in t p pt \<longleftrightarrow> (\<exists>e. fmlookup t p = Some e \<and> fmlookup (m_nextHops e) pt \<noteq> None)"

definition local_quiet :: "local_controller \<Rightarrow> local_controller \<Rightarrow> bool" where
  "local_quiet l l' \<longleftrightarrow> lc_guard l' = lc_guard l \<and>
     (\<forall>p h. fmlookup (lc_highestSeenSeq l) p = Some h \<longrightarrow> (\<exists>h'. fmlookup (lc_highestSeenSeq l') p = Some h' \<and> h \<le> h')) \<and>
     (\<forall>p s. fmlookup (lc_seqMap l') p = Some s \<longrightarrow> fmlookup (lc_seqMap l) p = Some s) \<and>
     (\<forall>p pt. hop_in (lc_fib l') p pt \<longrightarrow> hop_in (lc_fib l) p pt \<and>
        fmlookup (lc_seqMap l') p = fmlookup (lc_seqMap l) p) \<and>
     (\<forall>p r. fmlookup (lc_pending l') p = Some r \<longrightarrow>
        (\<exists>r0. fmlookup (lc_pending l) p = Some r0 \<and> pq_msg r = pq_msg r0))"

lemma local_quiet_refl [simp]: "local_quiet l l"
  by (simp add: local_quiet_def)

lemma local_quiet_simps [simp]:
  "local_quiet l (l\<lparr>lc_counters := c\<rparr>)" "local_quiet l (l\<lparr>lc_lifetimeTimers := ts\<rparr>)"
  "local_quiet l (l\<lparr>lc_completed := ps\<rparr>)" "local_quiet l (l\<lparr>lc_pending := fmdrop p (lc_pending l)\<rparr>)"
  "local_quiet l (l\<lparr>lc_fib := snd (tfib_erase p (lc_fib l)), lc_seqMap := fmdrop p (lc_seqMap l),
     lc_routeExpiries := fmdrop p (lc_routeExpiries l)\<rparr>)"
  by (auto simp: local_quiet_def hop_in_def tfib_erase_def split: if_splits)

lemma local_quiet_request:
  "fmlookup (lc_pending l) p = Some r0 \<Longrightarrow> pq_msg r = pq_msg r0 \<Longrightarrow>
   local_quiet l (l\<lparr>lc_pending := fmupd p r (lc_pending l)\<rparr>)"
  by (auto simp: local_quiet_def)

lemma local_quiet_seen:
  "\<not> (\<exists>h. fmlookup (lc_highestSeenSeq l) p = Some h \<and> s \<le> h) \<Longrightarrow>
   local_quiet l (l\<lparr>lc_highestSeenSeq := fmupd p s (lc_highestSeenSeq l)\<rparr>)"
  by (auto simp: local_quiet_def)

lemma local_quiet_prune:
  "local_quiet l (l\<lparr>lc_fib := snd (findLongestPrefix now nm (lc_fib l))\<rparr>)"
proof -
  let ?P = "\<lambda>t. \<forall>p pt. hop_in t p pt \<longrightarrow> hop_in (lc_fib l) p pt"
  have "?P (snd (longest_loop (pruneAndFind now) nm (length nm) (lc_fib l)))"
  proof (rule longest_loop_invariant [where P = ?P])
    show "?P (snd (pruneAndFind now t k))" if "?P t" for t k
    proof (intro allI impI)
      fix p pt assume "hop_in (snd (pruneAndFind now t k)) p pt"
      then have "hop_in t p pt"
        by (auto simp: hop_in_def pruneAndFind_def Let_def live_hops_lookup split: option.splits if_splits)
      with that show "hop_in (lc_fib l) p pt" by blast
    qed
  qed simp
  then show ?thesis by (simp add: local_quiet_def findLongestPrefix_def case_prod_beta)
qed

text \<open>A calm update also drops no route.\<close>

definition local_calm :: "local_controller \<Rightarrow> local_controller \<Rightarrow> bool" where
  "local_calm l l' \<longleftrightarrow> local_quiet l l' \<and> lc_fib l' = lc_fib l \<and> lc_seqMap l' = lc_seqMap l \<and>
     lc_routeExpiries l' = lc_routeExpiries l"

lemma local_calm_simps [simp]:
  "local_calm l l" "local_calm l (l\<lparr>lc_counters := c\<rparr>)" "local_calm l (l\<lparr>lc_lifetimeTimers := ts\<rparr>)"
  "local_calm l (l\<lparr>lc_completed := ps\<rparr>)" "local_calm l (l\<lparr>lc_pending := fmdrop p (lc_pending l)\<rparr>)"
  by (simp_all add: local_calm_def)

lemma local_calm_request:
  "fmlookup (lc_pending l) p = Some r0 \<Longrightarrow> pq_msg r = pq_msg r0 \<Longrightarrow>
   local_calm l (l\<lparr>lc_pending := fmupd p r (lc_pending l)\<rparr>)"
  by (simp add: local_calm_def local_quiet_request)

lemma local_calm_seen:
  "\<not> (\<exists>h. fmlookup (lc_highestSeenSeq l) p = Some h \<and> s \<le> h) \<Longrightarrow>
   local_calm l (l\<lparr>lc_highestSeenSeq := fmupd p s (lc_highestSeenSeq l)\<rparr>)"
  by (simp add: local_calm_def local_quiet_seen)

lemma sw_tables_processPacket: "sw_tables (snd (processPacket now h sw)) = sw_tables sw"
  by (simp add: processPacket_def processPacketBuf_def serializeHeader_def Let_def)

definition attempt_act :: "act \<Rightarrow> bool" where
  "attempt_act a \<longleftrightarrow> (\<exists>m. a = AttemptFlowMod m)"

section \<open>Relations that the handlers respect\<close>

locale update_relation =
  fixes R :: "node \<Rightarrow> node \<Rightarrow> bool"
  assumes R_refl: "R n n"
    and R_trans: "R n n1 \<Longrightarrow> R n1 n2 \<Longrightarrow> R n n2"
    and R_local: "local_calm (n_local n) (f (n_local n)) \<Longrightarrow> R n (on_local f n)"
    and R_engine: "en_ports (g (n_engine n)) = en_ports (n_engine n) \<Longrightarrow> R n (on_engine g n)"
    and R_switch: "sw_tables sw = sw_tables (n_switch n) \<Longrightarrow> R n (n\<lparr>n_switch := sw\<rparr>)"
    and R_send: "getDevice port (en_ports (n_engine n)) = Some dev \<Longrightarrow> R n (n\<lparr>n_sent := n_sent n @ [(dev, fr)]\<rparr>)"
    and R_cancel: "R n (node_cancel i n)"
    and R_schedule: "act_msg a = None \<Longrightarrow> R n (snd (node_schedule d a n))"
    and R_central: "fc_guard (h (n_central n)) = fc_guard (n_central n) \<Longrightarrow>
      fc_prefixStates (h (n_central n)) = fc_prefixStates (n_central n) \<Longrightarrow> R n (on_central h n)"
begin

lemmas R_after = R_local [THEN [2] R_trans] R_engine [THEN [2] R_trans] R_switch [THEN [2] R_trans]
  R_send [THEN [2] R_trans] R_cancel [THEN [2] R_trans]

lemma R_counts [simp]: "R n (count_local f n)" "R n (count_engine g n)" "R n (count_central h n)"
  by (auto simp: count_local_def count_engine_def count_central_def intro: R_local R_engine R_central)

lemma R_random [simp]:
  "R n (snd (drop_control env n))" "R n (snd (drop_flowMod env n))"
  "R n (snd (drop_syncAck env n))" "R n (snd (delay_of env v base jitter n))"
  by (auto simp: drop_control_def drop_flowMod_def drop_syncAck_def delay_of_def case_prod_beta Let_def
      intro!: R_central)

lemmas R_more = R_after R_counts [THEN [2] R_trans] R_random [THEN [2] R_trans]

lemma R_cancelLifetimeTimer: "R n (cancelLifetimeTimer p n)"
  by (auto simp: cancelLifetimeTimer_def intro!: R_more R_refl split: option.splits)

lemma R_dropPending: "R n (dropPending p n)"
  by (auto simp: dropPending_def intro!: R_more R_refl split: option.splits)

text \<open>Sending.\<close>

lemma R_sendToPort: "R n (sendToPort port f n)"
  by (auto simp: sendToPort_def intro!: R_more R_refl split: option.splits)

lemma R_sends: "R n (sendInterestToPort env port i n)" "R n (sendDataToPort env port d n)"
  by (simp_all add: sendInterestToPort_def sendDataToPort_def Let_def R_sendToPort)

lemma R_fold: "(\<And>x n. R n (g x n)) \<Longrightarrow> R n (fold g xs n)"
  by (induction xs arbitrary: n) (auto intro: R_refl R_trans)

lemma R_pipeline: "R n (snd (pipeline h n))"
  by (simp add: pipeline_def case_prod_beta Let_def R_switch sw_tables_processPacket)

lemmas R_out = R_sends [THEN [2] R_trans] R_pipeline [THEN [2] R_trans] R_fold [THEN [2] R_trans]

lemma R_forward_on: "R n (forward_on env inPort i used port n)"
  by (auto simp: forward_on_def steer_telemetry_def Let_def intro!: R_out R_more R_refl)

lemma R_doDelayedPullSend: "R n (doDelayedPullSend env i port n)"
  by (auto simp: doDelayedPullSend_def intro!: R_out R_more R_refl)

lemma R_sendData: "R n (sendData env d h ports n)"
  by (auto simp: sendData_def Let_def case_prod_beta intro!: R_out R_refl R_sends)

lemma R_pull_loop: "pull_loop env port is n = Inr n' \<Longrightarrow> R n n'"
proof (induction "is" arbitrary: n)
  case (Cons i "is")
  then obtain n1 where n1: "pull_one env port i n = Inr n1" "pull_loop env port is n1 = Inr n'"
    by (auto simp: bind_exn_Inr)
  then have "R n n1"
    by (auto simp: pull_one_def Let_def bind_exn_Inr intro!: R_schedule [THEN [2] R_trans] R_more R_refl)
  then show ?case using Cons.IH [OF n1(2)] by (rule R_trans)
qed (simp add: R_refl)

lemma R_pullPendingInterests: "pullPendingInterests env p port n = Inr n' \<Longrightarrow> R n n'"
  unfolding pullPendingInterests_def Let_def by (blast intro: R_trans R_counts R_pull_loop)

lemma R_processStatefulData: "R n (processStatefulData inPort d h n)"
  by (auto simp: processStatefulData_def Let_def
      intro!: R_schedule [THEN [2] R_trans] R_more R_refl)

lemma R_processStatefulInterest:
  assumes "processStatefulInterest env inPort i h n = (x, n')"
  shows "R n n'"
  using assms
  by (auto simp: processStatefulInterest_def Let_def
      split: sum.splits if_splits option.splits
      intro!: R_schedule [THEN [2] R_trans] R_out R_more R_refl)

lemma R_receivePayload:
  assumes "receivePayload env inPort pl h n = Inr n'"
  shows "R n n'"
proof (cases pl)
  case (InterestPayload nm nonce lifetime)
  let ?a = "alloc_nonce nonce (en_store (n_engine n))"
  obtain x n1 where r: "processStatefulInterest env inPort
      \<lparr>i_name = nm, i_nonce = Some (fst ?a), i_lifetime = lifetime\<rparr> h
      (on_engine (\<lambda>e. e\<lparr>en_store := snd ?a\<rparr>) n) = (x, n1)"
    by fastforce
  have "R n (on_engine (\<lambda>e. e\<lparr>en_store := snd ?a\<rparr>) n)" by (rule R_engine) simp
  then have "R n n1" using R_processStatefulInterest [OF r] by (rule R_trans)
  then show ?thesis
    using assms r InterestPayload
    by (auto simp: receivePayload_def Let_def case_prod_beta split: option.splits exn.splits
        intro!: R_more)
qed (use assms in \<open>auto simp: receivePayload_def R_processStatefulData\<close>)

lemma R_onReceiveRawPacket:
  assumes "onReceiveRawPacket env inPort f n = Inr n'"
  shows "R n n'"
  using assms R_pipeline
  by (auto simp: onReceiveRawPacket_def Let_def case_prod_beta split: if_splits
      intro!: R_more R_refl elim!: R_receivePayload [THEN [2] R_trans, rotated])

end

text \<open>A relation that also holds when routes are dropped.\<close>

locale frame_relation = update_relation +
  assumes R_quiet: "local_quiet (n_local n) (f (n_local n)) \<Longrightarrow> R n (on_local f n)"
begin

lemmas R_quiet_after = R_quiet [THEN [2] R_trans] R_engine [THEN [2] R_trans] R_switch [THEN [2] R_trans]
  R_cancel [THEN [2] R_trans] R_counts [THEN [2] R_trans] R_random [THEN [2] R_trans]

lemma R_dropRoute: "R n (dropRoute p n)"
  unfolding dropRoute_def by (rule R_quiet) simp

lemmas R_forget = R_cancelLifetimeTimer [THEN [2] R_trans] R_dropPending [THEN [2] R_trans]
  R_dropRoute [THEN [2] R_trans]

lemma R_handleControlResponse: "handleControlResponse m n = Inr (b, n') \<Longrightarrow> R n n'"
  by (auto simp: handleControlResponse_def Let_def split: if_splits option.splits
      intro!: R_more R_forget R_refl)

lemma R_expireEntryBySeq: "R n (expireEntryBySeq p s n)"
  by (auto simp: expireEntryBySeq_def Let_def split: option.splits intro!: R_more R_forget R_refl)

lemma R_deliverSyncAck:
  assumes "deliverSyncAck env m n = Inr n'"
  shows "R n n'"
proof -
  let ?c = "count_central (syncAckAttempts_update incr) n"
  have d: "R n (snd (drop_syncAck env ?c))" by (intro R_more R_refl)
  show ?thesis
    using assms R_trans [OF d R_handleControlResponse]
    by (auto simp: deliverSyncAck_def Let_def case_prod_beta bind_exn_Inr d
        split: if_splits intro!: R_more R_refl)
qed

lemma R_processInterestAfterDelay: "R n (processInterestAfterDelay env inPort i h n)"
  by (auto simp: processInterestAfterDelay_def Let_def case_prod_beta local_quiet_prune
      intro!: R_out R_quiet_after R_refl R_forward_on)

end

text \<open>A relation that does not look at the local controller and at the messages other than FlowMods.\<close>

locale free_relation = frame_relation +
  assumes R_local_any: "R n (on_local f n)"
    and R_schedule_any: "\<not> attempt_act a \<Longrightarrow> R n (snd (node_schedule d a n))"
begin

lemma R_scheduleSyncAck:
  assumes "scheduleSyncAck env m replay n = Inr n'"
  shows "R n n'"
proof -
  let ?n = "if replay then count_central (idempotentAckReplays_update incr) n else n"
  have n: "R n (snd (delay_of env v b j ?n))" for v b j by (auto intro!: R_more R_refl)
  show ?thesis
    using assms R_trans [OF n R_deliverSyncAck] R_trans [OF n R_schedule_any [of "DeliverSyncAck m"]]
    by (auto simp: scheduleSyncAck_def Let_def case_prod_beta attempt_act_def
        split: if_splits)
qed

lemmas R_free = R_local_any [THEN [2] R_trans] R_more

lemma R_publishRoute: "R n (publishRoute p pt s life x n)"
proof -
  have store: "R n (storeRoute p pt s life x n)"
    by (auto simp: storeRoute_def Let_def intro!: R_free R_refl)
  have "R n (cancelLifetimeTimer p (storeRoute p pt s life x n))" by (rule R_forget(1) [OF store])
  from R_trans [OF this R_schedule_any [of "ExpireEntryBySeq p s"]] this show ?thesis
    by (auto simp: publishRoute_def Let_def case_prod_beta attempt_act_def intro!: R_free)
qed

lemma R_any_admission: "R n (admission p pt s life n)"
  unfolding admission_def by (rule R_trans [OF _ R_publishRoute]) (auto intro!: R_free R_refl)

lemma R_openRequest: "R n (openRequest p s m n)"
  using R_trans [OF R_dropPending R_schedule_any [of "ControllerRetryTimeout p s"], of _ _ p]
  by (auto simp: openRequest_def Let_def case_prod_beta attempt_act_def intro!: R_free R_refl)

end

text \<open>The decision points of the flow-table controller and the admission of an update.  The relation may hold for
  nodes with an invariant \<open>I\<close> only; \<open>G\<close> is what the messages of such a node have and what an admitted update gives
  its message.\<close>

locale handler_relation = update_relation +
  fixes env :: env and I :: "node \<Rightarrow> bool" and G :: "node \<Rightarrow> control_message \<Rightarrow> bool"
  assumes R_vacuous: "\<not> I n \<Longrightarrow> R n n'"
    and I_keep: "I n \<Longrightarrow> R n n' \<Longrightarrow> I n'"
    and G_keep: "I n \<Longrightarrow> R n n' \<Longrightarrow> G n m \<Longrightarrow> G n' m"
    and G_pending: "I n \<Longrightarrow> fmlookup (lc_pending (n_local n)) p = Some q \<Longrightarrow> G n (pq_msg q)"
    and R_admission: "I n \<Longrightarrow> \<not> stale_update p s (n_local n) \<Longrightarrow> R n (admission p pt s lifetime n)"
    and G_admission: "I n \<Longrightarrow> \<not> stale_update p s (n_local n) \<Longrightarrow>
      G (admission p pt s lifetime n) (admission_message p (nameHashesOf (e_hash env) p) len pt s x)"
    and R_open: "I n \<Longrightarrow> G n m \<Longrightarrow> R n (openRequest p s m n)"
    and R_request: "I n \<Longrightarrow> G n m \<Longrightarrow> R n (snd (node_schedule d (AcceptControl m) n))"
    and R_accept: "I n \<Longrightarrow> G n m \<Longrightarrow> acceptControl env m n = Inr n' \<Longrightarrow> R n n'"
begin

lemma R_submitFlowUpdate:
  assumes "I n" and "G n m" and "submitFlowUpdate env m n = Inr n'"
  shows "R n n'"
proof -
  let ?d = "drop_control env (count_central (packetIns_update incr) n)"
  have d: "R n (snd ?d)" by (intro R_more R_refl)
  have n: "R n (snd (delay_of env v b j (snd ?d)))" for v b j by (intro R_more d)
  note I = I_keep [OF assms(1) n] and G = G_keep [OF assms(1) n assms(2)]
  show ?thesis
    using assms(3) d R_trans [OF n R_accept [OF I G]] R_trans [OF n R_request [OF I G]]
    by (auto simp: submitFlowUpdate_def Let_def case_prod_beta split: if_splits intro!: R_more)
qed

lemma R_local_applyTraceUpdate:
  assumes "local_applyTraceUpdate env p (nameHashesOf (e_hash env) p) len pt s ttl n = Inr (b, n')"
  shows "R n n'"
proof (cases "I n")
  case I: True
  obtain lifetime where life: "route_lifetime ttl (n_local n) = Inr lifetime"
    using assms by (cases "route_lifetime ttl (n_local n)") (auto simp: local_applyTraceUpdate_def)
  show ?thesis
  proof (cases "stale_update p s (n_local n)")
    case True
    then show ?thesis
      using assms life local_calm_seen [of "n_local n" p s]
      by (auto simp: local_applyTraceUpdate_def stale_update_def Let_def
          split: if_splits option.splits intro!: R_more R_refl)
  next
    case False
    let ?a = "admission p pt s lifetime n"
    let ?c = "count_local (controlPackets_update incr) ?a"
    let ?m = "admission_message p (nameHashesOf (e_hash env) p) len pt s (expiry_at lifetime n)"
    have a: "R n ?a" by (rule R_admission [OF I False])
    have Ia: "I ?a" by (rule I_keep [OF I a])
    have c: "R ?a ?c" by simp
    have Ic: "I ?c" and Gc: "G ?c ?m" using I_keep [OF Ia c] G_keep [OF Ia c G_admission [OF I False]] .
    have o: "R ?c (openRequest p s ?m ?c)" by (rule R_open [OF Ic Gc])
    have "submitFlowUpdate env ?m (openRequest p s ?m ?c) = Inr n1 \<Longrightarrow> R n n1" for n1
      using R_submitFlowUpdate [OF I_keep [OF Ic o] G_keep [OF Ic o Gc]] a c o R_trans by blast
    then show ?thesis
      using assms local_applyTraceUpdate_fresh [OF life False refl refl, of env "nameHashesOf (e_hash env) p" len pt] a
      by (auto simp: bind_exn_Inr split: if_splits)
  qed
qed (rule R_vacuous)

lemma R_fwd_applyTraceUpdate: "fwd_applyTraceUpdate env p pt s ttl n = Inr (b, n') \<Longrightarrow> R n n'"
  by (auto simp: fwd_applyTraceUpdate_def Let_def bind_exn_Inr split: if_splits
      dest!: R_local_applyTraceUpdate intro!: R_more)

lemma R_trace_ports: "trace_ports env p s ttl ports n = Inr n' \<Longrightarrow> R n n'"
proof (induction ports arbitrary: n)
  case (Cons port ports)
  obtain b n1 where n1: "fwd_applyTraceUpdate env p port s ttl n = Inr (b, n1)"
    using Cons.prems by (auto simp: bind_exn_Inr)
  let ?n = "if en_telemetry (n_engine n1) \<and> b
    then on_engine (\<lambda>e. e\<lparr>en_tempSteerPending := True, en_tempSteerSeq := s, en_tempSteerPrefix := p\<rparr>) n1
    else n1"
  obtain n2 where n2: "(if b \<and> en_enableReforwarding (n_engine ?n)
      then pullPendingInterests env p port ?n else Inr ?n) = Inr n2" "trace_ports env p s ttl ports n2 = Inr n'"
    using Cons.prems n1 by (auto simp: bind_exn_Inr Let_def)
  have "R n ?n" using R_fwd_applyTraceUpdate [OF n1] by (auto intro: R_more)
  then have "R n n2" using n2(1) R_pullPendingInterests by (auto split: if_splits intro: R_trans)
  then show ?case using Cons.IH [OF n2(2)] by (rule R_trans)
qed (simp add: R_refl)

lemma R_handleTraceData: "handleTraceData env d ports ttl n = Inr n' \<Longrightarrow> R n n'"
  by (auto simp: handleTraceData_def Let_def bind_exn_Inr split: if_splits
      intro: R_trans R_counts R_trace_ports R_refl)

lemma R_processDataAfterDelay:
  assumes "processDataAfterDelay env inPort d h n = Inr n'"
  shows "R n n'"
  using assms
  by (auto simp: processDataAfterDelay_def Let_def case_prod_beta bind_exn_Inr split: if_splits
      intro!: R_sendData [THEN [2] R_trans] R_more R_refl
      elim!: R_handleTraceData [THEN [2] R_trans, rotated])

lemma R_retryRequest:
  assumes I: "I n" and r: "fmlookup (lc_pending (n_local n)) p = Some r" and n': "retryRequest env p s r n = Inr n'"
  shows "R n n'"
proof -
  let ?a = "on_local (\<lambda>l. l\<lparr>lc_pending := fmupd p (r\<lparr>pq_retriesLeft := pq_retriesLeft r - 1\<rparr>) (lc_pending l)\<rparr>) n"
  let ?b = "count_local (controlPackets_update incr) (count_local (controllerRetries_update incr) ?a)"
  define rearm where "rearm n1 = (case fmlookup (lc_pending (n_local n1)) p of
      Some r' \<Rightarrow>
        if pq_seq r' = s
        then let (i, n) = node_schedule (lc_retryTimeout (n_local n1)) (ControllerRetryTimeout p s) n1
             in Inr (on_local (\<lambda>l. l\<lparr>lc_pending := fmupd p (r'\<lparr>pq_timer := i\<rparr>) (lc_pending l)\<rparr>) n)
        else Inr n1
    | None \<Rightarrow> (Inr n1 :: exn + node))" for n1
  obtain n1 where n1: "(if lc_hasSyncRequestCb (n_local ?b) then submitFlowUpdate env (pq_msg r) ?b else Inr ?b) = Inr n1"
    and re: "rearm n1 = Inr n'"
    using n' unfolding retryRequest_def Let_def bind_exn_Inr rearm_def by blast
  have b: "R n ?b" using r by (intro R_more R_refl) (auto intro: local_calm_request)
  then have "R n n1"
    using n1 R_submitFlowUpdate [OF I_keep [OF I b] G_keep [OF I b G_pending [OF I r]]]
    by (auto split: if_splits intro: R_trans)
  moreover have "R n1 n'"
    using re R_schedule [of "ControllerRetryTimeout p s"]
    by (auto simp: rearm_def Let_def case_prod_beta local_calm_request
        split: option.splits if_splits intro!: R_more R_refl)
  ultimately show ?thesis by (rule R_trans)
qed

end

text \<open>All handlers, and the progress of the clock.\<close>

locale step_relation = frame_relation R + handler_relation R env I G for R env I G +
  assumes G_live: "I n \<Longrightarrow> ProcessOneEvent (n_sim n) = Some (Some (AcceptControl m), sm) \<Longrightarrow> G n m"
    and R_attempt: "I n \<Longrightarrow> ProcessOneEvent (n_sim n) = Some (Some (AttemptFlowMod m), sm) \<Longrightarrow>
      attemptFlowMod env m (n\<lparr>n_sim := sm\<rparr>) = Inr n' \<Longrightarrow> R n n'"
    and R_pop: "ProcessOneEvent (n_sim n) = Some (r, sm) \<Longrightarrow> R n (n\<lparr>n_sim := sm\<rparr>)"
    and R_foreign: "foreign_event t v u (n_sim n) = Some sm \<Longrightarrow> R n (n\<lparr>n_sim := sm\<rparr>)"
begin

lemma R_onControllerRetryTimeout:
  assumes "onControllerRetryTimeout env p s n = Inr n'"
  shows "R n n'"
proof (cases "I n")
  case True
  then show ?thesis
    using assms R_retryRequest
    by (auto simp: onControllerRetryTimeout_def Let_def split: option.splits if_splits
        intro!: R_more R_forget R_refl)
qed (rule R_vacuous)

text \<open>Every step of the node respects the relation.\<close>

lemma R_step:
  assumes "node_step env n n'"
  shows "R n n'"
proof (cases "I n")
  case I: True
  from assms show ?thesis
  proof (rule node_stepE)
    fix a sm assume pop: "ProcessOneEvent (n_sim n) = Some (Some a, sm)"
      and r: "run_act env a (n\<lparr>n_sim := sm\<rparr>) = Inr n'"
    note p = R_pop [OF pop]
    show ?thesis
    proof (cases a)
      case (AttemptFlowMod m)
      then show ?thesis using pop r by (auto simp: run_act_def intro: R_attempt [OF I])
    next
      case (AcceptControl m)
      then have "G (n\<lparr>n_sim := sm\<rparr>) m" using pop by (intro G_keep [OF I p]) (auto intro: G_live [OF I])
      then show ?thesis
        using AcceptControl r R_trans [OF p R_accept [OF I_keep [OF I p]]] by (simp add: run_act_def)
    qed (use r p in \<open>auto simp: run_act_def R_expireEntryBySeq
          R_processInterestAfterDelay R_doDelayedPullSend
          intro: R_trans R_deliverSyncAck R_onControllerRetryTimeout R_processDataAfterDelay\<close>)
  qed (auto intro: R_onReceiveRawPacket R_pop R_foreign)
qed (rule R_vacuous)

lemma R_steps: "(node_step env)\<^sup>*\<^sup>* n n' \<Longrightarrow> R n n'"
  by (induction rule: rtranclp_induct) (auto intro: R_refl R_trans R_step)

end

text \<open>A relation that looks at the ports and the frames sent only.\<close>

locale output_relation = free_relation +
  assumes R_sim: "R n (n\<lparr>n_sim := sm\<rparr>)"
    and R_switch_any: "R n (n\<lparr>n_switch := sw\<rparr>)"
    and R_central_any: "R n (on_central h n)"
begin

lemma R_schedule_all: "R n (snd (node_schedule d a n))"
  by (simp add: node_schedule_def case_prod_beta Let_def R_sim)

lemma R_set_prefix_state: "R n (set_prefix_state p st n)"
  unfolding set_prefix_state_def by (rule R_central_any)

lemmas R_all = R_sim [THEN [2] R_trans] R_switch_any [THEN [2] R_trans] R_set_prefix_state [THEN [2] R_trans]
  R_schedule_all [THEN [2] R_trans] R_free

lemma R_scheduleFlowMod: "R n (scheduleFlowMod env m n)"
  by (auto simp: scheduleFlowMod_def Let_def case_prod_beta intro!: R_all R_refl)

lemma R_acceptControl:
  assumes "acceptControl env m n = Inr n'"
  shows "R n n'"
  using assms
  by (auto simp: acceptControl_def Let_def split: if_splits
      intro!: R_scheduleFlowMod [THEN [2] R_trans] R_all R_refl elim!: R_scheduleSyncAck [THEN [2] R_trans, rotated])

lemma R_onFlowTableFlowMod: "R n (snd (onFlowTableFlowMod env m n))"
  by (auto simp: onFlowTableFlowMod_def Let_def intro!: R_all R_refl)

lemma R_applyFlowMod:
  assumes "applyFlowMod env m n = Inr n'"
  shows "R n n'"
proof -
  let ?d = "drop_flowMod env n"
  have f: "R n (snd (onFlowTableFlowMod env (m\<lparr>cm_type := CT_FLOW_MOD\<rparr>) (snd ?d)))"
    by (rule R_trans [OF R_random(2) R_onFlowTableFlowMod])
  show ?thesis
    using assms f
    by (auto simp: applyFlowMod_def Let_def case_prod_beta split: if_splits
        intro!: R_all R_refl elim!: R_scheduleSyncAck [THEN [2] R_trans, rotated])
qed

lemma R_attemptFlowMod:
  assumes "attemptFlowMod env m n = Inr n'"
  shows "R n n'"
  using assms
  by (auto simp: attemptFlowMod_def Let_def split: if_splits
      intro!: R_all R_refl elim!: R_scheduleSyncAck [THEN [2] R_trans, rotated] R_applyFlowMod [THEN [2] R_trans, rotated])

end

sublocale output_relation \<subseteq> output_step: step_relation R env "\<lambda>_. True" "\<lambda>_ _. True" for env
proof
  show "R n n'" if "attemptFlowMod env m (n\<lparr>n_sim := sm\<rparr>) = Inr n'" for n m sm n'
    by (rule R_trans [OF R_sim R_attemptFlowMod [OF that]])
qed (auto intro: R_sim R_schedule_all R_any_admission R_openRequest R_acceptControl)

end
