(* ===== verification/Samples.thy ===== *)
theory Samples
  imports Engine_Invariant
begin

text \<open>
  A concrete environment and a concrete node, on which the witnesses of the node-level
  properties run: component hashes by length, the stable sort, a counter as the source of
  nonces, and exact conversions between nanoseconds and seconds.
\<close>

definition sample_env :: env where
  "sample_env = \<lparr>e_hash = (\<lambda>s. of_nat (length s)), e_sort = stable_sort, e_words = of_nat,
     e_rands = (\<lambda>_. 0), e_uniform = (\<lambda>_ _. 1 / 2), e_getSeconds = (\<lambda>t. of_int t / 10 ^ 9),
     e_Seconds = (\<lambda>x. \<lfloor>x * 10 ^ 9\<rfloor>)\<rparr>"

lemma sample_words: "\<exists>j \<ge> k. (of_nat j :: u32) \<noteq> w"
proof (cases "(of_nat k :: u32) = w")
  case True
  then have "(of_nat (Suc k) :: u32) \<noteq> w" by simp
  then show ?thesis by (intro exI [of _ "Suc k"]) simp
qed blast

lemma env_ok_sample: "env_ok sample_env"
  unfolding env_ok_def sample_env_def
  using stable.priority_sorter_axioms sample_words by simp

lemma sample_delay [simp]:
  "sampleDelay sample_env d 0 g pos = (if 0 \<le> d then d else 0, pos)"
  by (simp add: sampleDelay_def sample_env_def Let_def max_def)

definition sample_node :: node where
  "sample_node = node_new sample_env"

lemma sample_node_start: "node_start sample_env sample_node"
  unfolding sample_node_def by (rule node_start_new [OF env_ok_sample])

lemma sample_node_inv: "node_inv sample_env sample_node"
  by (rule node_start_inv [OF sample_node_start])

lemma sample_node_simps [simp]:
  "n_local sample_node = local_new\<lparr>lc_hasSyncRequestCb := True\<rparr>"
  "n_central sample_node = flow_controller_new\<lparr>fc_hasFlowModApplyCb := True, fc_hasSyncAckCb := True\<rparr>"
  "n_sim sample_node = sim_init" "n_switch sample_node = sample_switch" "n_engine sample_node = engine_new"
  "n_sent sample_node = []"
  by (simp_all add: sample_node_def node_new_def sample_env_def sample_switch_def local_new_def
      flow_controller_new_def)

end
