(* ===== verification/Generation_Order.thy ===== *)
theory Generation_Order
  imports Node_Relations Samples
begin

text \<open>
  The order of generations.  With the generation guard the flow-table controller keeps, per
  prefix, the highest accepted and the highest applied sequence number.  Shown here: no step
  of a node makes either number smaller, an application always raises the applied one, and
  the applied generation never overtakes the accepted one, whatever the loss, the delays and
  the reordering of the control legs.
\<close>

section \<open>Well-formed generations\<close>

definition same_generation :: "control_message \<Rightarrow> name \<Rightarrow> u64 \<Rightarrow> bool" where
  "same_generation m p s \<longleftrightarrow> cm_prefix m = p \<and> cm_seq m = s"

definition state_ok :: "name \<Rightarrow> prefix_state \<Rightarrow> bool" where
  "state_ok p st \<longleftrightarrow>
     (ps_hasAccepted st \<longrightarrow> same_generation (ps_acceptedMessage st) p (ps_highestAccepted st)) \<and>
     (ps_hasApplied st \<longrightarrow> ps_hasAccepted st \<and> ps_highestApplied st \<le> ps_highestAccepted st \<and>
        same_generation (ps_appliedMessage st) p (ps_highestApplied st) \<and>
        (ps_highestApplied st = ps_highestAccepted st \<longrightarrow>
           sameUpdate (ps_appliedMessage st) (ps_acceptedMessage st)))"

text \<open>A FlowMod on its way belongs to an accepted generation; the latest one is the accepted
  update itself.\<close>

definition attempt_ok :: "(name, prefix_state) fmap \<Rightarrow> control_message \<Rightarrow> bool" where
  "attempt_ok sts m \<longleftrightarrow>
     (\<exists>st. fmlookup sts (cm_prefix m) = Some st \<and> ps_hasAccepted st \<and>
        (cm_seq m < ps_highestAccepted st \<or>
         cm_seq m = ps_highestAccepted st \<and> sameUpdate m (ps_acceptedMessage st)))"

definition attempts :: "node \<Rightarrow> control_message set" where
  "attempts n = {m. \<exists>i. (AttemptFlowMod m, i) \<in> live_timers (n_sim n)}"

abbreviation states :: "node \<Rightarrow> (name, prefix_state) fmap" where
  "states n \<equiv> fc_prefixStates (n_central n)"

definition generations_ok :: "node \<Rightarrow> bool" where
  "generations_ok n \<longleftrightarrow> fc_guard (n_central n) \<and>
     (\<forall>p st. fmlookup (states n) p = Some st \<longrightarrow> state_ok p st) \<and>
     (\<forall>m \<in> attempts n. attempt_ok (states n) m)"

section \<open>Progress of the generations\<close>

definition mark_le :: "bool \<times> u64 \<times> control_message \<Rightarrow> bool \<times> u64 \<times> control_message \<Rightarrow> bool" where
  "mark_le = (\<lambda>(b, h, m) (b', h', m'). b \<longrightarrow> b' \<and> h \<le> h' \<and> (h' = h \<longrightarrow> m' = m))"

lemma mark_le_trans: "mark_le a b \<Longrightarrow> mark_le b c \<Longrightarrow> mark_le a c"
  by (cases a; cases b; cases c) (auto simp: mark_le_def)

definition accepted_mark :: "prefix_state \<Rightarrow> bool \<times> u64 \<times> control_message" where
  "accepted_mark st = (ps_hasAccepted st, ps_highestAccepted st, ps_acceptedMessage st)"

definition applied_mark :: "prefix_state \<Rightarrow> bool \<times> u64 \<times> control_message" where
  "applied_mark st = (ps_hasApplied st, ps_highestApplied st, ps_appliedMessage st)"

definition state_le :: "prefix_state \<Rightarrow> prefix_state \<Rightarrow> bool" where
  "state_le st st' \<longleftrightarrow> mark_le (accepted_mark st) (accepted_mark st') \<and>
     mark_le (applied_mark st) (applied_mark st')"

lemmas state_le_defs = state_le_def mark_le_def accepted_mark_def applied_mark_def

lemma state_le_refl [simp]: "state_le st st"
  by (simp add: state_le_defs)

lemma state_le_trans: "state_le a b \<Longrightarrow> state_le b c \<Longrightarrow> state_le a c"
  unfolding state_le_def using mark_le_trans by blast

definition states_le :: "(name, prefix_state) fmap \<Rightarrow> (name, prefix_state) fmap \<Rightarrow> bool" where
  "states_le sts sts' \<longleftrightarrow>
     (\<forall>p st. fmlookup sts p = Some st \<longrightarrow> (\<exists>st'. fmlookup sts' p = Some st' \<and> state_le st st'))"

lemma states_le_refl [simp]: "states_le sts sts"
  by (simp add: states_le_def)

lemma states_le_trans: "states_le a b \<Longrightarrow> states_le b c \<Longrightarrow> states_le a c"
  unfolding states_le_def by (metis state_le_trans)

lemma states_le_upd:
  "(\<And>st0. fmlookup sts p = Some st0 \<Longrightarrow> state_le st0 st) \<Longrightarrow> states_le sts (fmupd p st sts)"
  by (auto simp: states_le_def)

lemma attempt_ok_le:
  assumes "attempt_ok sts m" and "states_le sts sts'"
  shows "attempt_ok sts' m"
proof -
  obtain st where st: "fmlookup sts (cm_prefix m) = Some st" "ps_hasAccepted st"
    "cm_seq m < ps_highestAccepted st \<or>
     cm_seq m = ps_highestAccepted st \<and> sameUpdate m (ps_acceptedMessage st)"
    using assms(1) by (auto simp: attempt_ok_def)
  then obtain st' where st': "fmlookup sts' (cm_prefix m) = Some st'" "state_le st st'"
    using assms(2) by (auto simp: states_le_def)
  then show ?thesis
    using st by (cases "ps_highestAccepted st' = ps_highestAccepted st")
      (auto simp: attempt_ok_def state_le_defs)
qed

text \<open>What a step does to the generations.\<close>

definition advances :: "node \<Rightarrow> node \<Rightarrow> bool" where
  "advances n n' \<longleftrightarrow> (generations_ok n \<longrightarrow> generations_ok n' \<and> states_le (states n) (states n'))"

lemma advances_trans: "advances a b \<Longrightarrow> advances b c \<Longrightarrow> advances a c"
  unfolding advances_def using states_le_trans by blast

lemma quiet_advances:
  assumes "fc_guard (n_central n') = fc_guard (n_central n)" and "states n' = states n"
    and "attempts n' \<subseteq> attempts n"
  shows "advances n n'"
  using assms by (auto simp: advances_def generations_ok_def)

lemma attempts_schedule:
  "attempts (snd (node_schedule d a n)) = attempts n \<union> {m. a = AttemptFlowMod m}"
  by (auto simp: attempts_def live_timers_Schedule)

lemma attempts_cancel: "attempts (node_cancel i n) \<subseteq> attempts n"
  using live_timers_Cancel_subset by (fastforce simp: attempts_def)

lemma attempts_frame [simp]:
  "attempts (on_local f n) = attempts n" "attempts (on_engine g n) = attempts n"
  "attempts (on_central h n) = attempts n" "attempts (n\<lparr>n_switch := sw\<rparr>) = attempts n"
  "attempts (n\<lparr>n_sent := fs\<rparr>) = attempts n" "attempts (count_central k n) = attempts n"
  by (simp_all add: attempts_def)

interpretation quiet: free_relation advances
proof
  show "advances n (node_cancel i n)" for n i
    by (rule quiet_advances) (simp_all add: attempts_cancel)
  show "advances n (snd (node_schedule d a n))" if "\<not> attempt_act a" for a n d
    using that by (intro quiet_advances) (auto simp: attempts_schedule attempt_act_def)
  show "advances n (snd (node_schedule d a n))" if "act_msg a = None" for a n d
    using that by (intro quiet_advances) (auto simp: attempts_schedule)
  show "advances n n1 \<Longrightarrow> advances n1 n2 \<Longrightarrow> advances n n2" for n n1 n2 by (rule advances_trans)
qed (rule quiet_advances; simp)+

section \<open>Decisions of the flow-table controller\<close>

lemma set_state_advances:
  assumes "\<And>st0. generations_ok n \<Longrightarrow> fmlookup (states n) p = Some st0 \<Longrightarrow> state_le st0 st"
    and "generations_ok n \<Longrightarrow> state_ok p st"
  shows "advances n (set_prefix_state p st n)"
  unfolding advances_def
proof (intro impI)
  assume ok: "generations_ok n"
  then have le: "states_le (states n) (fmupd p st (states n))" by (intro states_le_upd assms(1))
  then show "generations_ok (set_prefix_state p st n) \<and>
      states_le (states n) (states (set_prefix_state p st n))"
    using ok assms(2) attempt_ok_le [OF _ le] by (auto simp: generations_ok_def set_prefix_state_def)
qed

lemma scheduleFlowMod_advances:
  assumes "generations_ok n \<Longrightarrow> attempt_ok (states n) m"
  shows "advances n (scheduleFlowMod env m n)"
proof -
  have sch: "advances n' (snd (node_schedule d (AttemptFlowMod m) n'))"
    if "generations_ok n' \<Longrightarrow> attempt_ok (states n') m" for n' d
    using that by (auto simp: advances_def generations_ok_def attempts_schedule)
  have "generations_ok (snd (delay_of env v b j n)) = generations_ok n"
    "states (snd (delay_of env v b j n)) = states n" for v b j
    by (simp_all add: delay_of_def case_prod_beta Let_def generations_ok_def)
  then show ?thesis
    using assms unfolding scheduleFlowMod_def Let_def case_prod_beta
    by (intro advances_trans [OF quiet.R_random(4) sch]) simp
qed

lemma sameUpdate_refl [simp]: "sameUpdate m m"
  by (simp add: sameUpdate_def)

lemma get_prefix_state_ok: "generations_ok n \<Longrightarrow> state_ok p (get_prefix_state p n)"
  by (auto simp: generations_ok_def get_prefix_state_def state_ok_def prefix_state_default_def
      split: option.splits)

lemma acceptControl_advances:
  assumes "acceptControl env m n = Inr n'"
  shows "advances n n'"
proof (cases "fc_guard (n_central n)")
  case False
  then show ?thesis by (simp add: advances_def generations_ok_def)
next
  case True
  let ?p = "cm_prefix m"
  let ?c = "count_central (packetInsDelivered_update incr) n"
  let ?s = "get_prefix_state ?p ?c"
  let ?n = "set_prefix_state ?p ?s ?c"
  let ?new = "?s\<lparr>ps_hasAccepted := True, ps_highestAccepted := cm_seq m, ps_acceptedMessage := m\<rparr>"
  have n: "advances n ?n"
    by (rule advances_trans [OF quiet.R_counts(3) set_state_advances [OF _ get_prefix_state_ok]])
      (simp_all add: get_prefix_state_def)
  have dup: "advances n (scheduleFlowMod env m (count_central f ?n))"
    if "ps_hasAccepted ?s" "cm_seq m = ps_highestAccepted ?s" "sameUpdate m (ps_acceptedMessage ?s)" for f
    using that by (intro advances_trans [OF quiet.R_more(8) [OF n] scheduleFlowMod_advances])
      (simp add: attempt_ok_def set_prefix_state_def)
  have fresh: "advances n (scheduleFlowMod env m (set_prefix_state ?p ?new ?n))"
    if "\<not> (ps_hasAccepted ?s \<and> cm_seq m \<le> ps_highestAccepted ?s)"
  proof (rule advances_trans [OF advances_trans [OF n set_state_advances] scheduleFlowMod_advances])
    show "state_le st0 ?new" if "fmlookup (states ?n) ?p = Some st0" for st0
      using that \<open>\<not> (ps_hasAccepted ?s \<and> _)\<close>
      by (auto simp: set_prefix_state_def state_le_defs)
    show "state_ok ?p ?new" if "generations_ok ?n"
      using get_prefix_state_ok [OF that, of ?p] \<open>\<not> (ps_hasAccepted ?s \<and> _)\<close>
      by (auto simp: set_prefix_state_def get_prefix_state_def state_ok_def same_generation_def)
  qed (simp add: attempt_ok_def set_prefix_state_def)
  show ?thesis
    using assms True n dup fresh
    by (auto simp: acceptControl_def Let_def not_le order.order_iff_strict split: if_splits
        intro!: quiet.R_more quiet.R_refl elim!: quiet.R_scheduleSyncAck [THEN [2] advances_trans, rotated])
qed

text \<open>The FlowMod callback changes the switch and the engine only.\<close>

lemma onFlowTableFlowMod_frame:
  "n_central (snd (onFlowTableFlowMod env m n)) = n_central n"
  "n_sim (snd (onFlowTableFlowMod env m n)) = n_sim n"
  "n_local (snd (onFlowTableFlowMod env m n)) = n_local n"
  by (simp_all add: onFlowTableFlowMod_def Let_def)

lemma set_applied_advances:
  assumes now: "attempt_ok (states n) m"
    and st: "fmlookup (states n) (cm_prefix m) = Some st" "\<not> cm_seq m < ps_highestAccepted st"
      "\<not> (ps_hasApplied st \<and> ps_highestApplied st = cm_seq m)"
  shows "advances n (set_prefix_state (cm_prefix m)
    (st\<lparr>ps_hasApplied := True, ps_highestApplied := cm_seq m, ps_appliedMessage := m\<rparr>) n)"
proof (rule set_state_advances)
  let ?new = "st\<lparr>ps_hasApplied := True, ps_highestApplied := cm_seq m, ps_appliedMessage := m\<rparr>"
  have acc: "ps_hasAccepted st" "cm_seq m = ps_highestAccepted st" "sameUpdate m (ps_acceptedMessage st)"
    using now st(1,2) by (auto simp: attempt_ok_def)
  assume ok: "generations_ok n"
  then have *: "state_ok (cm_prefix m) st" using st(1) by (simp add: generations_ok_def)
  then show "state_ok (cm_prefix m) ?new" using acc by (auto simp: state_ok_def same_generation_def)
  have "ps_hasApplied st \<Longrightarrow> ps_highestApplied st \<le> cm_seq m"
    using * acc(2) by (simp add: state_ok_def)
  then have "state_le st ?new" using st(3) by (auto simp: state_le_defs)
  then show "state_le st0 ?new" if "fmlookup (states n) (cm_prefix m) = Some st0" for st0
    using that st(1) by simp
qed

lemma applyFlowMod_advances:
  assumes r: "applyFlowMod env m n = Inr n'"
    and now: "attempt_ok (states n) m"
    and st: "fmlookup (states n) (cm_prefix m) = Some st" "\<not> cm_seq m < ps_highestAccepted st"
      "\<not> (ps_hasApplied st \<and> ps_highestApplied st = cm_seq m)"
  shows "advances n n'"
proof -
  let ?p = "cm_prefix m"
  let ?new = "st\<lparr>ps_hasApplied := True, ps_highestApplied := cm_seq m, ps_appliedMessage := m\<rparr>"
  let ?d = "snd (drop_flowMod env n)"
  let ?f = "onFlowTableFlowMod env (m\<lparr>cm_type := CT_FLOW_MOD\<rparr>) ?d"
  let ?c = "count_central (flowModsApplied_update incr) (snd ?f)"
  have d: "states ?d = states n" by (simp add: drop_flowMod_def case_prod_beta Let_def)
  have "advances ?d (snd ?f)"
    by (rule quiet_advances) (simp_all add: onFlowTableFlowMod_frame attempts_def)
  then have f: "advances n (snd ?f)" by (rule advances_trans [OF quiet.R_random(2)])
  have c: "states ?c = states n" "get_prefix_state ?p ?c = st"
    using st(1) by (simp_all add: onFlowTableFlowMod_frame d get_prefix_state_def)
  have "advances ?c (set_prefix_state ?p ?new ?c)"
    using now st unfolding c(1) [symmetric] by (rule set_applied_advances)
  then have new: "advances n (set_prefix_state ?p ?new ?c)"
    by (rule advances_trans [OF quiet.R_more(8) [OF f]])
  have ack: "scheduleSyncAck env m False n1 = Inr n' \<Longrightarrow> advances n n1 \<Longrightarrow> advances n n'" for n1
    by (rule advances_trans [OF _ quiet.R_scheduleSyncAck])
  show ?thesis
    using r f new c
    by (auto simp: applyFlowMod_def Let_def case_prod_beta split: if_splits
        intro!: quiet.R_more quiet.R_refl elim!: ack)
qed

text \<open>An attempt takes the FlowMod from the queue, where it was known to be accepted.\<close>

lemma attempts_pop:
  assumes "ProcessOneEvent (n_sim n) = Some (r, sm)"
  shows "attempts (n\<lparr>n_sim := sm\<rparr>) \<subseteq> attempts n" and "r = Some (AttemptFlowMod m) \<Longrightarrow> m \<in> attempts n"
  using assms
  by (auto simp: ProcessOneEvent_def attempts_def live_timers_def split: list.splits if_splits) metis

lemma attemptFlowMod_advances:
  assumes pop: "ProcessOneEvent (n_sim n) = Some (Some (AttemptFlowMod m), sm)"
    and r: "attemptFlowMod env m (n\<lparr>n_sim := sm\<rparr>) = Inr n'"
  shows "advances n n'"
  unfolding advances_def
proof (intro impI)
  assume ok: "generations_ok n"
  let ?n = "n\<lparr>n_sim := sm\<rparr>"
  let ?c = "count_central (flowModAttempts_update incr) ?n"
  have now: "attempt_ok (states ?c) m" using ok attempts_pop(2) [OF pop refl] by (simp add: generations_ok_def)
  then obtain st where st: "fmlookup (states ?c) (cm_prefix m) = Some st" "ps_hasAccepted st"
    by (auto simp: attempt_ok_def)
  then have g: "get_prefix_state (cm_prefix m) ?c = st" by (simp add: get_prefix_state_def)
  have c: "advances n ?c"
    by (rule advances_trans [OF quiet_advances quiet.R_counts(3)]) (simp_all add: attempts_pop(1) [OF pop])
  have app: "advances n n'" if "applyFlowMod env m ?c = Inr n'" "\<not> cm_seq m < ps_highestAccepted st"
      "\<not> (ps_hasApplied st \<and> ps_highestApplied st = cm_seq m)"
    by (rule advances_trans [OF c applyFlowMod_advances [OF that(1) now st(1) that(2,3)]])
  have "fc_guard (n_central ?c)" using ok by (simp add: generations_ok_def)
  then have "advances n n'"
    using r c st g app
    by (auto simp: attemptFlowMod_def Let_def split: if_splits
        intro!: quiet.R_more elim!: quiet.R_scheduleSyncAck [THEN [2] advances_trans, rotated])
  with ok show "generations_ok n' \<and> states_le (states n) (states n')" by (simp add: advances_def)
qed

interpretation generation: step_relation advances env "\<lambda>_. True" "\<lambda>_ _. True" for env
proof
  show "advances n (n\<lparr>n_sim := sm\<rparr>)" if "ProcessOneEvent (n_sim n) = Some (r, sm)" for n r sm
    by (rule quiet_advances) (simp_all add: attempts_pop(1) [OF that])
  show "advances n (n\<lparr>n_sim := sm\<rparr>)" if "foreign_event t v u (n_sim n) = Some sm" for n t v u sm
    using that by (intro quiet_advances)
      (auto simp: foreign_event_def attempts_def live_timers_def split: if_splits)
  show "advances n (snd (node_schedule d (AcceptControl m) n))" for n d m
    by (rule quiet.R_schedule_any) (simp add: attempt_act_def)
qed (auto intro: acceptControl_advances attemptFlowMod_advances quiet.R_any_admission quiet.R_openRequest)

section \<open>What the generation guard promises\<close>

text \<open>A configured node with the guard on; its generation table is well formed, e.g. empty.\<close>

definition guarded_start :: "env \<Rightarrow> node \<Rightarrow> bool" where
  "guarded_start env n \<longleftrightarrow> node_start env n \<and> fc_guard (n_central n) \<and>
     (\<forall>p st. fmlookup (states n) p = Some st \<longrightarrow> state_ok p st)"

interpretation guarded: invariant_system "guarded_start env" "node_step env"
  "\<lambda>n. node_inv env n \<and> generations_ok n" for env
proof
  show "node_inv env n \<and> generations_ok n" if "guarded_start env n" for n
    using that node_start_inv
    by (auto simp: guarded_start_def generations_ok_def attempts_def live_timers_def node_start_def)
  show "node_inv env n' \<and> generations_ok n'"
    if "node_inv env n \<and> generations_ok n" "node_step env n n'" for n n'
    using that node_system.step_inv [of env n n'] generation.R_step [of env n n']
    by (simp add: advances_def)
qed

lemma applied_le_accepted:
  assumes "generations_ok n" and "getHighestApplied p (n_central n) = Some (s, pt)"
  shows "\<exists>s'. s \<le> s' \<and> getHighestAccepted p (n_central n) = Some s'"
  using assms
  by (auto simp: getHighestApplied_def getHighestAccepted_def generations_ok_def state_ok_def
      split: option.splits if_splits)

text \<open>C10. With the generation guard, at every reachable node the applied generation of a prefix
  never exceeds its accepted one, and a FlowMod that is still on its way belongs to an accepted
  generation.\<close>

theorem generations_ordered:
  assumes "reach (guarded_start env) (node_step env) n"
  shows "(\<forall>p s pt. getHighestApplied p (n_central n) = Some (s, pt) \<longrightarrow>
      (\<exists>s'. s \<le> s' \<and> getHighestAccepted p (n_central n) = Some s')) \<and>
    (\<forall>m i. (AttemptFlowMod m, i) \<in> live_timers (n_sim n) \<longrightarrow>
      (\<exists>s'. cm_seq m \<le> s' \<and> getHighestAccepted (cm_prefix m) (n_central n) = Some s'))"
proof -
  have ok: "generations_ok n" using guarded.reachable_inv [OF assms] by blast
  then have "attempt_ok (states n) m" if "(AttemptFlowMod m, i) \<in> live_timers (n_sim n)" for m i
    using that by (auto simp: generations_ok_def attempts_def)
  then show ?thesis
    using applied_le_accepted [OF ok]
    by (fastforce simp: attempt_ok_def getHighestAccepted_def)
qed

text \<open>A node whose generation table holds generation 5 of the empty prefix, installed on port 7.\<close>

definition guarded_node :: node where
  "guarded_node = on_central (\<lambda>c. c\<lparr>fc_guard := True, fc_prefixStates := fmupd []
     \<lparr>ps_hasAccepted = True, ps_highestAccepted = 5,
      ps_acceptedMessage = message_default\<lparr>cm_seq := 5, cm_outputPort := 7\<rparr>, ps_hasApplied = True,
      ps_highestApplied = 5, ps_appliedMessage = message_default\<lparr>cm_seq := 5, cm_outputPort := 7\<rparr>\<rparr>
     fmempty\<rparr>) sample_node"

lemma guarded_node_start: "guarded_start sample_env guarded_node"
  using sample_node_start
  by (auto simp: guarded_start_def guarded_node_def node_start_def state_ok_def same_generation_def
      message_default_def split: if_splits)

lemma guarded_node_reach: "reach (guarded_start sample_env) (node_step sample_env) guarded_node"
  by (rule reach_start) (rule guarded_node_start)

lemma guarded_node_applied:
  "getHighestApplied [] (n_central guarded_node) = Some (5, 7)"
  by (simp add: guarded_node_def getHighestApplied_def message_default_def)

theorem generations_ordered_witness:
  "\<exists>s'. 5 \<le> s' \<and> getHighestAccepted [] (n_central guarded_node) = Some s'"
  using generations_ordered [OF guarded_node_reach] guarded_node_applied by blast

text \<open>C8. No run takes a generation back: from a reachable node on, the applied sequence number of
  a prefix only grows, and while it stays the same so does the installed port.\<close>

theorem applied_monotone:
  assumes "reach (guarded_start env) (node_step env) n" and "(node_step env)\<^sup>*\<^sup>* n n'"
    and "getHighestApplied p (n_central n) = Some (s, pt)"
  shows "\<exists>s' pt'. getHighestApplied p (n_central n') = Some (s', pt') \<and> s \<le> s' \<and> (s' = s \<longrightarrow> pt' = pt)"
proof -
  have "generations_ok n" using guarded.reachable_inv [OF assms(1)] by blast
  then have "states_le (states n) (states n')"
    using generation.R_steps [OF assms(2)] by (simp add: advances_def)
  moreover obtain st where "fmlookup (states n) p = Some st" "ps_hasApplied st" "s = ps_highestApplied st"
    "pt = cm_outputPort (ps_appliedMessage st)"
    using assms(3) by (auto simp: getHighestApplied_def split: option.splits if_splits)
  ultimately show ?thesis
    by (fastforce simp: states_le_def state_le_defs getHighestApplied_def)
qed

theorem applied_monotone_witness:
  "let n' = guarded_node\<lparr>n_sim := (n_sim guarded_node)\<lparr>m_currentTs := 10, m_currentUid := 20, m_uid := 30\<rparr>\<rparr> in
   node_step sample_env guarded_node n' \<and>
   (\<exists>s' pt'. getHighestApplied [] (n_central n') = Some (s', pt') \<and> 5 \<le> s' \<and> (s' = 5 \<longrightarrow> pt' = 7))"
proof -
  have sim: "n_sim guarded_node = sim_init" by (simp add: guarded_node_def)
  have "node_step sample_env guarded_node
      (guarded_node\<lparr>n_sim := (n_sim guarded_node)\<lparr>m_currentTs := 10, m_currentUid := 20, m_uid := 30\<rparr>\<rparr>)"
    by (rule foreign [of 10 20 30]) (simp add: sim foreign_event_def sim_init_def)
  then show ?thesis
    using applied_monotone [OF guarded_node_reach r_into_rtranclp guarded_node_applied]
    by (simp only: Let_def)
qed

section \<open>Applying a FlowMod\<close>

lemma scheduleSyncAck_frame:
  assumes "scheduleSyncAck env m replay n = Inr n'"
  shows "n_switch n' = n_switch n \<and> states n' = states n \<and>
    flowModsApplied (fc_counters (n_central n')) = flowModsApplied (fc_counters (n_central n))"
proof -
  have ack: "n_switch n2 = n_switch n1 \<and> states n2 = states n1 \<and>
      flowModsApplied (fc_counters (n_central n2)) = flowModsApplied (fc_counters (n_central n1))"
    if "deliverSyncAck env m n1 = Inr n2" for n1 n2
    using that handleControlResponse_shrinks
    by (fastforce simp: deliverSyncAck_def Let_def case_prod_beta drop_syncAck_def bind_exn_Inr shrinks_def
        split: if_splits)
  show ?thesis
    using assms ack by (fastforce simp: scheduleSyncAck_def Let_def case_prod_beta delay_of_def
        split: if_splits)
qed

lemma applyFlowMod_applied:
  assumes r: "applyFlowMod env m n = Inr n'" and g: "fc_guard (n_central n)"
    and new: "flowModsApplied (fc_counters (n_central n')) \<noteq> flowModsApplied (fc_counters (n_central n))"
  shows "states n' = fmupd (cm_prefix m) ((get_prefix_state (cm_prefix m) n)\<lparr>ps_hasApplied := True,
      ps_highestApplied := cm_seq m, ps_appliedMessage := m\<rparr>) (states n)"
    and "n_switch n' = installFibEntry (e_sort env) (cm_nameHashes m) (cm_outputPort m) (cm_routeExpiry m) (n_switch n)"
proof -
  let ?d = "snd (drop_flowMod env n)"
  let ?f = "onFlowTableFlowMod env (m\<lparr>cm_type := CT_FLOW_MOD\<rparr>) ?d"
  let ?c = "count_central (flowModsApplied_update incr) (snd ?f)"
  let ?st = "(get_prefix_state (cm_prefix m) n)\<lparr>ps_hasApplied := True, ps_highestApplied := cm_seq m,
      ps_appliedMessage := m\<rparr>"
  have d: "states ?d = states n" "fc_guard (n_central ?d)" "n_switch ?d = n_switch n"
    "flowModsApplied (fc_counters (n_central ?d)) = flowModsApplied (fc_counters (n_central n))"
    using g by (simp_all add: drop_flowMod_def case_prod_beta Let_def)
  have c: "fc_guard (n_central ?c)" "states ?c = states n"
    "get_prefix_state (cm_prefix m) ?c = get_prefix_state (cm_prefix m) n"
    using d by (simp_all add: onFlowTableFlowMod_frame get_prefix_state_def)
  have ok: "fst ?f" and ack: "scheduleSyncAck env m False (set_prefix_state (cm_prefix m) ?st ?c) = Inr n'"
    using r new d c
    by (auto simp: applyFlowMod_def Let_def case_prod_beta onFlowTableFlowMod_frame split: if_splits)
  note frame = scheduleSyncAck_frame [OF ack]
  show "states n' = fmupd (cm_prefix m) ?st (states n)"
    using frame c(2) by (simp add: set_prefix_state_def)
  show "n_switch n' = installFibEntry (e_sort env) (cm_nameHashes m) (cm_outputPort m) (cm_routeExpiry m) (n_switch n)"
    using frame ok d(3) by (simp add: set_prefix_state_def onFlowTableFlowMod_def Let_def split: if_splits)
qed


text \<open>The same node after the acceptance of generation 6 on port 9, with its FlowMod under way.\<close>

definition update6 :: control_message where
  "update6 = message_default\<lparr>cm_nameHashes := nameHashesOf (e_hash sample_env) [], cm_seq := 6,
     cm_outputPort := 9\<rparr>"

definition accepted_node :: node where
  "accepted_node = on_central (\<lambda>c. c\<lparr>fc_prefixStates := fmupd []
     \<lparr>ps_hasAccepted = True, ps_highestAccepted = 6, ps_acceptedMessage = update6,
      ps_hasApplied = True, ps_highestApplied = 5,
      ps_appliedMessage = message_default\<lparr>cm_seq := 5, cm_outputPort := 7\<rparr>\<rparr>
     fmempty\<rparr>) guarded_node"

definition flowMod_node :: node where
  "flowMod_node = snd (node_schedule 100 (AttemptFlowMod update6) accepted_node)"

lemma flowMod_node_ok: "node_inv sample_env flowMod_node" "generations_ok flowMod_node"
proof -
  have inv: "node_inv sample_env accepted_node"
    using sample_node_inv by (simp add: accepted_node_def guarded_node_def)
  then show "node_inv sample_env flowMod_node"
    unfolding flowMod_node_def
    by (rule node_rel_schedule) (auto simp: timer_act_def msg_ok_def update6_def message_default_def)
  have "attempts accepted_node = {}"
    by (simp add: attempts_def accepted_node_def guarded_node_def)
  then show "generations_ok flowMod_node"
    unfolding flowMod_node_def generations_ok_def attempts_schedule
    by (auto simp: accepted_node_def guarded_node_def state_ok_def same_generation_def attempt_ok_def
        update6_def message_default_def)
qed

lemma flowMod_node_run:
  "\<exists>sm n'. ProcessOneEvent (n_sim flowMod_node) = Some (Some (AttemptFlowMod update6), sm) \<and>
     attemptFlowMod sample_env update6 (flowMod_node\<lparr>n_sim := sm\<rparr>) = Inr n' \<and>
     flowModsApplied (fc_counters (n_central n')) = 1"
proof -
  have "ProcessOneEvent (n_sim flowMod_node) = Some (Some (AttemptFlowMod update6),
      sim_init\<lparr>m_currentTs := 100, m_currentUid := m_uid sim_init, m_uid := m_uid sim_init + 1\<rparr>)"
    by (simp add: flowMod_node_def node_schedule_def Schedule_def ProcessOneEvent_def
        accepted_node_def guarded_node_def sim_init_def Let_def)
  moreover have "\<exists>n'. attemptFlowMod sample_env update6 (flowMod_node\<lparr>n_sim := sm\<rparr>) = Inr n' \<and>
      flowModsApplied (fc_counters (n_central n')) = 1" for sm
    by (simp add: attemptFlowMod_def applyFlowMod_def scheduleSyncAck_def deliverSyncAck_def Let_def
        flowMod_node_def accepted_node_def guarded_node_def update6_def message_default_def
        isExpiredAt_def drop_flowMod_def shouldDrop_def drop_syncAck_def delay_of_def
        onFlowTableFlowMod_def get_prefix_state_def set_prefix_state_def getDelayProfile_def
        handleControlResponse_def flow_controller_new_def flow_counters_zero_def local_new_def)
  ultimately show ?thesis by blast
qed


end
