(* ===== verification/Trace_Updates.thy ===== *)
theory Trace_Updates
  imports Generation_Order
begin

text \<open>
  What a Trace Data packet does to a node: the route that it leaves in the temporary FIB, the
  pending Interests that it pulls, and the nonces that the pull overwrites.
\<close>

section \<open>Pulling pending Interests\<close>

definition nonce_ok :: "nonce_store \<Rightarrow> interest \<Rightarrow> bool" where
  "nonce_ok st i \<longleftrightarrow> (\<exists>a. i_nonce i = Some a \<and> length (ns_bytes st a) = 4)"

lemma pull_one_effect:
  assumes "env_ok env" and "nonce_ok (en_store (n_engine n)) i"
  shows "\<exists>st n'. pull_one env port i n = Inr n' \<and>
    (\<forall>j. nonce_ok (en_store (n_engine n)) j \<longrightarrow> nonce_ok st j) \<and>
    (\<forall>a. i_nonce i = Some a \<longrightarrow> nonce_at st a \<noteq> nonce_at (en_store (n_engine n)) a) \<and>
    (\<forall>a. i_nonce i \<noteq> Some a \<longrightarrow> ns_bytes st a = ns_bytes (en_store (n_engine n)) a) \<and>
    n' = snd (node_schedule 0 (DoDelayedPullSend i port)
          (count_engine (pendingPullsScheduled_update incr) (on_engine (\<lambda>e. e\<lparr>en_store := st\<rparr>) n)))"
proof -
  let ?st = "en_store (n_engine n)"
  obtain a where a: "i_nonce i = Some a" "length (ns_bytes ?st a) = 4"
    using assms(2) by (auto simp: nonce_ok_def)
  obtain i' st where r: "refreshNonce (e_words env) i ?st = Inr (i', st)"
    using refreshNonce_returns [OF a, of "e_words env"] assms(1) by (auto simp: env_ok_def)
  note eff = refreshNonce_in_place [OF a r]
  have "length (ns_bytes st b) = 4" if "length (ns_bytes ?st b) = 4" for b
    using that eff(3,5) by (cases "b = a") simp_all
  then have "nonce_ok st j" if "nonce_ok ?st j" for j using that by (auto simp: nonce_ok_def)
  moreover have "nonce_at st a \<noteq> nonce_at ?st a" using eff(2) by auto
  ultimately show ?thesis
    using r eff(1,3) a(1) by (intro exI [of _ st]) (auto simp: pull_one_def Let_def)
qed

text \<open>A pull changes the buffers of the nonces, the counters of the engine and the events.\<close>

definition pulled :: "node \<Rightarrow> node \<Rightarrow> bool" where
  "pulled n n' \<longleftrightarrow> en_pit (n_engine n') = en_pit (n_engine n) \<and>
     en_ports (n_engine n') = en_ports (n_engine n) \<and> en_cs (n_engine n') = en_cs (n_engine n) \<and>
     en_enableReforwarding (n_engine n') = en_enableReforwarding (n_engine n) \<and>
     en_telemetry (n_engine n') = en_telemetry (n_engine n) \<and>
     n_local n' = n_local n \<and> n_central n' = n_central n \<and> n_switch n' = n_switch n \<and>
     n_sent n' = n_sent n \<and> node_now n' = node_now n"

lemma pulled_refl [simp]: "pulled n n"
  by (simp add: pulled_def)

lemma pulled_trans: "pulled a b \<Longrightarrow> pulled b c \<Longrightarrow> pulled a c"
  by (simp add: pulled_def)

text \<open>The resends of the listed Interests, numbered from \<open>u\<close> on.\<close>

definition resends :: "port \<Rightarrow> sim_time \<Rightarrow> nat \<Rightarrow> interest list \<Rightarrow> (act \<times> event_id) list" where
  "resends port now u is =
     map (\<lambda>(v, i). (DoDelayedPullSend i port, \<lparr>id_ts = now, id_uid = v\<rparr>)) (enumerate u is)"

lemma pull_loop_effect:
  assumes "env_ok env" and "\<And>i. i \<in> set is \<Longrightarrow> nonce_ok (en_store (n_engine n)) i"
  shows "\<exists>n'. pull_loop env port is n = Inr n' \<and> pulled n n' \<and>
    live_timers (n_sim n') = live_timers (n_sim n) \<union>
      set (resends port (node_now n) (m_uid (n_sim n)) is)"
  using assms(2)
proof (induction "is" arbitrary: n)
  case Nil
  then show ?case by (simp add: resends_def)
next
  case (Cons i "is")
  obtain st n1 where n1: "pull_one env port i n = Inr n1"
    "\<And>j. nonce_ok (en_store (n_engine n)) j \<Longrightarrow> nonce_ok st j"
    "n1 = snd (node_schedule 0 (DoDelayedPullSend i port)
          (count_engine (pendingPullsScheduled_update incr) (on_engine (\<lambda>e. e\<lparr>en_store := st\<rparr>) n)))"
    using pull_one_effect [OF assms(1), of n i port] Cons.prems by auto
  have p: "pulled n n1" by (simp add: n1(3) pulled_def)
  have uid: "m_uid (n_sim n1) = Suc (m_uid (n_sim n))" "node_now n1 = node_now n"
    by (simp_all add: n1(3) Schedule_def Let_def Now_def)
  have live: "live_timers (n_sim n1) = insert (DoDelayedPullSend i port,
      \<lparr>id_ts = node_now n, id_uid = m_uid (n_sim n)\<rparr>) (live_timers (n_sim n))"
    by (simp add: n1(3) live_timers_Schedule Schedule_id)
  have "nonce_ok (en_store (n_engine n1)) j" if "j \<in> set is" for j
    using that Cons.prems n1(2) by (simp add: n1(3))
  from Cons.IH [OF this] obtain n' where "pull_loop env port is n1 = Inr n'" "pulled n1 n'"
    "live_timers (n_sim n') = live_timers (n_sim n1) \<union>
      set (resends port (node_now n1) (m_uid (n_sim n1)) is)"
    by blast
  then show ?case
    using n1(1) pulled_trans [OF p] by (simp add: uid live resends_def)
qed

section \<open>Admission of an update\<close>

text \<open>A request for a generation that has not been applied is not answered at once: the local
  controller, the engine and the switch stay as they are.\<close>

definition not_applied :: "name \<Rightarrow> u64 \<Rightarrow> node \<Rightarrow> bool" where
  "not_applied p s n \<longleftrightarrow>
     \<not> (fc_guard (n_central n) \<and> (\<exists>pt. getHighestApplied p (n_central n) = Some (s, pt)))"

definition asked :: "node \<Rightarrow> node \<Rightarrow> bool" where
  "asked n n' \<longleftrightarrow> n_local n' = n_local n \<and> n_engine n' = n_engine n \<and> n_switch n' = n_switch n \<and>
     n_sent n' = n_sent n \<and> node_now n' = node_now n"

lemma asked_simps [simp]:
  "asked n n" "asked n (on_central f n1) = asked n n1" "asked n (count_central g n1) = asked n n1"
  "asked n (set_prefix_state p st n1) = asked n n1"
  "asked n (snd (node_schedule d a n1)) = asked n n1"
  by (simp_all add: asked_def set_prefix_state_def)

lemma asked_random [simp]:
  "asked n (snd (drop_control env n1)) = asked n n1" "asked n (snd (delay_of env v b j n1)) = asked n n1"
  by (simp_all add: drop_control_def delay_of_def case_prod_beta Let_def)

lemma acceptControl_asked:
  assumes "acceptControl env m n1 = Inr n'" and "asked n n1" and "not_applied (cm_prefix m) (cm_seq m) n1"
  shows "asked n n'"
proof -
  let ?c = "count_central (packetInsDelivered_update incr) n1"
  have "fc_guard (n_central n1) \<Longrightarrow> \<not> (ps_hasApplied (get_prefix_state (cm_prefix m) ?c) \<and>
      ps_highestApplied (get_prefix_state (cm_prefix m) ?c) = cm_seq m)"
    using assms(3)
    by (auto simp: not_applied_def getHighestApplied_def get_prefix_state_def prefix_state_default_def
        split: option.splits)
  then show ?thesis
    using assms(1,2)
    by (auto simp: acceptControl_def Let_def scheduleFlowMod_def case_prod_beta split: if_splits)
qed

lemma submitFlowUpdate_asked:
  assumes "submitFlowUpdate env m n = Inr n'" and "not_applied (cm_prefix m) (cm_seq m) n"
  shows "asked n n'"
proof -
  let ?d = "snd (drop_control env (count_central (packetIns_update incr) n))"
  have "not_applied (cm_prefix m) (cm_seq m) (snd (delay_of env v b j ?d))" for v b j
    using assms(2)
    by (simp add: not_applied_def getHighestApplied_def delay_of_def drop_control_def case_prod_beta Let_def)
  then show ?thesis
    using assms(1) acceptControl_asked
    by (auto simp: submitFlowUpdate_def Let_def case_prod_beta split: if_splits)
qed

definition route_at :: "name \<Rightarrow> port \<Rightarrow> u64 \<Rightarrow> sim_time \<Rightarrow> local_controller \<Rightarrow> bool" where
  "route_at p pt s x l \<longleftrightarrow> fmlookup (lc_seqMap l) p = Some s \<and> fmlookup (lc_routeExpiries l) p = Some x \<and>
     fmlookup (lc_fib l) p = Some (single_hop p pt (deadline_of x))"

lemma publishRoute_frame [simp]:
  "n_engine (publishRoute p pt s life x n) = n_engine n"
  "n_central (publishRoute p pt s life x n) = n_central n"
  "n_sent (publishRoute p pt s life x n) = n_sent n"
  "node_now (publishRoute p pt s life x n) = node_now n"
  "lc_hasSyncRequestCb (n_local (publishRoute p pt s life x n)) = lc_hasSyncRequestCb (n_local n)"
  "lc_entryLifetime (n_local (publishRoute p pt s life x n)) = lc_entryLifetime (n_local n)"
  by (simp_all add: publishRoute_def storeRoute_def cancelLifetimeTimer_def Let_def case_prod_beta
      split: option.splits)

lemma admission_frame [simp]:
  "n_engine (admission p pt s life n) = n_engine n"
  "n_central (admission p pt s life n) = n_central n" "n_sent (admission p pt s life n) = n_sent n"
  "node_now (admission p pt s life n) = node_now n"
  "lc_hasSyncRequestCb (n_local (admission p pt s life n)) = lc_hasSyncRequestCb (n_local n)"
  "lc_entryLifetime (n_local (admission p pt s life n)) = lc_entryLifetime (n_local n)"
  by (simp_all add: admission_def)

lemma openRequest_frame2 [simp]:
  "n_engine (openRequest p s m n) = n_engine n" "n_central (openRequest p s m n) = n_central n"
  "n_sent (openRequest p s m n) = n_sent n" "node_now (openRequest p s m n) = node_now n"
  "lc_entryLifetime (n_local (openRequest p s m n)) = lc_entryLifetime (n_local n)"
  by (simp_all add: openRequest_def dropPending_def Let_def case_prod_beta split: option.splits)

lemma fwd_applyTraceUpdate_fresh:
  assumes inv: "node_inv env n" and life: "route_lifetime ttl (n_local n) = Inr lifetime"
    and fresh: "\<not> stale_update p s (n_local n)" and na: "not_applied p s n"
  shows "\<exists>n'. fwd_applyTraceUpdate env p pt s ttl n = Inr (True, n') \<and>
    route_at p pt s (expiry_at lifetime n) (n_local n') \<and> node_now n' = node_now n \<and>
    lc_entryLifetime (n_local n') = lc_entryLifetime (n_local n) \<and>
    (\<exists>f. n_engine n' = (n_engine n)\<lparr>f_traceUpdatesAccepted := f\<rparr>)"
proof -
  have l: "local_inv n" using inv by (simp add: node_rel_def)
  have nonneg: "0 \<le> lifetime"
    using l by (intro route_lifetime_nonneg [OF life]) (simp add: linv_def routes_ok_def)
  define len where "len = (if length p > STATIM_NAME_HASH_COUNT then STATIM_NAME_HASH_COUNT else length p)"
  define h where "h = m_nameHashes (header_of_name (e_hash env) p)"
  obtain n1 where n1: "local_applyTraceUpdate env p h len pt s ttl n = Inr (True, n1)"
    using local_applyTraceUpdate_node [OF inv _ life, of h p len pt s] fresh by (auto simp: h_def)
  note a = admission_inv [OF l nonneg, of p pt s]
  let ?a = "admission p pt s lifetime n"
  let ?m = "admission_message p h len pt s (expiry_at lifetime n)"
  let ?o = "openRequest p s ?m (count_local (controlPackets_update incr) ?a)"
  note eq = local_applyTraceUpdate_fresh [OF life fresh refl refl, of env h len pt, unfolded n1]
  have "route_at p pt s (expiry_at lifetime n) (n_local n1) \<and> node_now n1 = node_now n \<and>
      lc_entryLifetime (n_local n1) = lc_entryLifetime (n_local n) \<and> n_engine n1 = n_engine n"
  proof (cases "lc_hasSyncRequestCb (n_local n)")
    case True
    then have "bind_exn (submitFlowUpdate env ?m ?o) (\<lambda>n. Inr (True, n)) = Inr (True, n1)"
      using eq by simp
    then have sub: "submitFlowUpdate env ?m ?o = Inr n1" by (auto simp: bind_exn_Inr)
    have "not_applied (cm_prefix ?m) (cm_seq ?m) ?o"
      using na by (simp add: not_applied_def admission_message_def)
    from submitFlowUpdate_asked [OF sub this] show ?thesis using a by (simp add: asked_def route_at_def)
  next
    case False
    then show ?thesis using eq a by (simp add: route_at_def)
  qed
  then show ?thesis
    using n1 by (auto simp: fwd_applyTraceUpdate_def Let_def h_def len_def)
qed

lemma fwd_applyTraceUpdate_stale:
  assumes "stale_update p s (n_local n)" and "route_lifetime ttl (n_local n) = Inr lifetime"
    and "local_inv n"
  shows "\<exists>n' c. fwd_applyTraceUpdate env p pt s ttl n = Inr (False, n') \<and>
    n_local n' = (n_local n)\<lparr>lc_counters := c\<rparr> \<and> n_sim n' = n_sim n"
proof -
  obtain n' c where "local_applyTraceUpdate env p (m_nameHashes (header_of_name (e_hash env) p))
      (if length p > STATIM_NAME_HASH_COUNT then STATIM_NAME_HASH_COUNT else length p) pt s ttl n =
      Inr (False, n')" "n_local n' = (n_local n)\<lparr>lc_counters := c\<rparr>" "n_sim n' = n_sim n"
    using local_applyTraceUpdate_stale [OF assms(2,1,3)] by blast
  then show ?thesis
    by (intro exI [of _ n'] exI [of _ c]) (simp only: fwd_applyTraceUpdate_def Let_def bind_exn.simps prod.case if_False simp_thms)
qed

lemma counters_irrelevant [simp]:
  "route_lifetime ttl (l\<lparr>lc_counters := c\<rparr>) = route_lifetime ttl l"
  "stale_update p s (l\<lparr>lc_counters := c\<rparr>) = stale_update p s l"
  by (simp_all add: route_lifetime_def stale_update_def Let_def)

lemma trace_ports_stale:
  assumes "stale_update p s (n_local n)" and "route_lifetime ttl (n_local n) = Inr lifetime"
    and "node_inv env n"
  shows "\<exists>n' c. trace_ports env p s ttl ports n = Inr n' \<and>
    n_local n' = (n_local n)\<lparr>lc_counters := c\<rparr> \<and> n_sim n' = n_sim n"
  using assms
proof (induction ports arbitrary: n)
  case Nil
  then show ?case by (auto intro: exI [where x = "lc_counters (n_local n)"])
next
  case (Cons port ports)
  then have l: "local_inv n" by (simp add: node_rel_def)
  obtain n1 c where n1: "fwd_applyTraceUpdate env p port s ttl n = Inr (False, n1)"
    "n_local n1 = (n_local n)\<lparr>lc_counters := c\<rparr>" "n_sim n1 = n_sim n"
    using fwd_applyTraceUpdate_stale [OF Cons.prems(1,2) l] by blast
  have "stale_update p s (n_local n1)" "route_lifetime ttl (n_local n1) = Inr lifetime" "node_inv env n1"
    using Cons.prems n1 fwd_applyTraceUpdate_node(1) [OF Cons.prems(3) n1(1)]
    by simp_all
  from Cons.IH [OF this] n1 show ?case by auto
qed

lemma pullPendingInterests_effect:
  assumes "env_ok env" and "\<And>i. i \<in> set (findByPrefix p (en_pit (n_engine n))) \<Longrightarrow> nonce_ok (en_store (n_engine n)) i"
  shows "\<exists>n'. pullPendingInterests env p port n = Inr n' \<and> pulled n n' \<and>
    live_timers (n_sim n') = live_timers (n_sim n) \<union>
      set (resends port (node_now n) (m_uid (n_sim n))
        (take (nat (en_reforwardingLimit (n_engine n))) (findByPrefix p (en_pit (n_engine n)))))"
proof -
  let ?c = "count_engine (pullInvocations_update incr) n"
  let ?is = "take (nat (en_reforwardingLimit (n_engine n))) (findByPrefix p (en_pit (n_engine n)))"
  have "\<And>i. i \<in> set ?is \<Longrightarrow> nonce_ok (en_store (n_engine ?c)) i"
    using assms(2) by (auto dest: in_set_takeD)
  from pull_loop_effect [OF assms(1) this] have
    "\<exists>n'. pull_loop env port ?is ?c = Inr n' \<and> pulled ?c n' \<and> live_timers (n_sim n') =
      live_timers (n_sim ?c) \<union> set (resends port (node_now ?c) (m_uid (n_sim ?c)) ?is)" .
  then show ?thesis
    by (simp add: pullPendingInterests_def Let_def pulled_def)
qed

text \<open>The first return port gets the route; the others find the generation already seen.\<close>

lemma trace_ports_route:
  assumes inv: "node_inv env n" and life: "route_lifetime ttl (n_local n) = Inr lifetime"
    and fresh: "\<not> stale_update p s (n_local n)" and na: "not_applied p s n"
    and nonces: "\<And>i. i \<in> set (findByPrefix p (en_pit (n_engine n))) \<Longrightarrow> nonce_ok (en_store (n_engine n)) i"
  shows "\<exists>n'. trace_ports env p s ttl (port # ports) n = Inr n' \<and>
    route_at p port s (expiry_at lifetime n) (n_local n') \<and> node_now n' = node_now n"
proof -
  have env: "env_ok env" using inv by (simp add: node_rel_env)
  obtain n1 f where n1: "fwd_applyTraceUpdate env p port s ttl n = Inr (True, n1)"
    "route_at p port s (expiry_at lifetime n) (n_local n1)" "node_now n1 = node_now n"
    "lc_entryLifetime (n_local n1) = lc_entryLifetime (n_local n)"
    "n_engine n1 = (n_engine n)\<lparr>f_traceUpdatesAccepted := f\<rparr>"
    using fwd_applyTraceUpdate_fresh [OF inv life fresh na] by blast
  define m where "m = (if en_telemetry (n_engine n1)
    then on_engine (\<lambda>e. e\<lparr>en_tempSteerPending := True, en_tempSteerSeq := s, en_tempSteerPrefix := p\<rparr>) n1
    else n1)"
  have same: "n_local m = n_local n1" "node_now m = node_now n" "en_pit (n_engine m) = en_pit (n_engine n)"
    "en_store (n_engine m) = en_store (n_engine n)" by (simp_all add: m_def n1)
  have "node_inv env n1" by (rule fwd_applyTraceUpdate_node(1) [OF inv n1(1)])
  then have inv1: "node_inv env m" by (simp add: m_def node_rel_engine node_rel_env engine_ok_def)
  obtain n2 where n2: "(if en_enableReforwarding (n_engine m)
      then pullPendingInterests env p port m else Inr m) = Inr n2" "pulled m n2"
    using pullPendingInterests_effect [OF env, of p m port] nonces same(3,4) pulled_refl by metis
  then have inv2: "node_inv env n2"
    using inv1 pullPendingInterests_node [OF inv1] by (auto split: if_splits)
  have l2: "n_local n2 = n_local n1" "node_now n2 = node_now n" using n2(2) same by (simp_all add: pulled_def)
  have "route_lifetime ttl (n_local n2) = Inr lifetime" 
    using life unfolding route_lifetime_def l2(1) n1(4) .
  moreover have "stale_update p s (n_local n2)" using n1(2) l2 by (simp add: stale_update_def route_at_def)
  ultimately obtain n' c where n': "trace_ports env p s ttl ports n2 = Inr n'"
    "n_local n' = (n_local n2)\<lparr>lc_counters := c\<rparr>" "n_sim n' = n_sim n2"
    using trace_ports_stale [OF _ _ inv2] by blast
  have "trace_ports env p s ttl (port # ports) n =
      bind_exn (if en_enableReforwarding (n_engine m) then pullPendingInterests env p port m else Inr m)
        (trace_ports env p s ttl ports)"
    using n1(1) by (simp add: Let_def m_def)
  then have "trace_ports env p s ttl (port # ports) n = Inr n'"
    unfolding n2(1) by (simp only: bind_exn.simps n'(1))
  moreover have "route_at p port s (expiry_at lifetime n) (n_local n')"
    using n1(2) unfolding n'(2) l2(1) by (simp add: route_at_def)
  ultimately show ?thesis using n'(3) l2(2) by auto
qed

section \<open>What a Trace Data packet does\<close>

lemma finite_return_ports: "finite (fst (takeDataMatchPorts nm m))"
proof -
  have "{k. prefix k nm} = set (prefixes nm)" by auto
  then have "finite {k. prefix k nm}" by (metis finite_set)
  moreover have "finite (case fmlookup m k of None \<Rightarrow> {} | Some e \<Rightarrow> entry_ports e)" for k
    by (simp add: entry_ports_def split: option.splits)
  ultimately have "finite (\<Union>k \<in> {k. prefix k nm}. case fmlookup m k of None \<Rightarrow> {} | Some e \<Rightarrow> entry_ports e)"
    by blast
  moreover have "fst (takeDataMatchPorts nm m) \<subseteq>
      (\<Union>k \<in> {k. prefix k nm}. case fmlookup m k of None \<Rightarrow> {} | Some e \<Rightarrow> entry_ports e)"
    by (force simp: takeDataMatchPorts_eq)
  ultimately show ?thesis by (rule finite_subset [rotated])
qed

lemma send_frame [simp]:
  "n_local (sendToPort port f n) = n_local n" "n_sim (sendToPort port f n) = n_sim n"
  "n_local (sendDataToPort env port d n) = n_local n" "n_sim (sendDataToPort env port d n) = n_sim n"
  "n_local (sendInterestToPort env port i n) = n_local n" "n_sim (sendInterestToPort env port i n) = n_sim n"
  "n_engine (sendToPort port f n) = n_engine n" "n_engine (sendDataToPort env port d n) = n_engine n"
  "n_engine (sendInterestToPort env port i n) = n_engine n"
  by (simp_all add: sendToPort_def sendDataToPort_def sendInterestToPort_def Let_def split: option.splits)

lemma fold_send_frame [simp]:
  "n_local (fold (\<lambda>port. sendDataToPort env port d) ps n) = n_local n"
  "n_sim (fold (\<lambda>port. sendDataToPort env port d) ps n) = n_sim n"
  by (induction ps arbitrary: n) simp_all

lemma sendData_frame [simp]:
  "n_local (sendData env d h ports n) = n_local n" "n_sim (sendData env d h ports n) = n_sim n"
  by (simp_all add: sendData_def pipeline_def Let_def case_prod_beta)

text \<open>The part of a Trace Data's processing after the PIT has released the return ports.\<close>

lemma processTraceData:
  assumes "judgeNameIsTrace (d_name d)" and "fst (takeDataMatchPorts (d_name d) (en_pit (n_engine n))) \<noteq> {}"
    and "0 < saved_lifetime (d_name d) (en_pit (n_engine n))"
    and "validateRouteLifetime (us_to_ns (saved_lifetime (d_name d) (en_pit (n_engine n)))) (n_engine n) = Inr ()"
    and "getTraceSequence (d_name d) = Inr s"
  shows "processDataAfterDelay env inPort d h n =
    bind_exn (trace_ports env (extractDataNameFromTrace (d_name d)) s
        (saved_lifetime (d_name d) (en_pit (n_engine n)))
        (sorted_list_of_set (fst (takeDataMatchPorts (d_name d) (en_pit (n_engine n)))))
        (count_engine (traceUpdatesHandled_update incr)
          (on_engine (\<lambda>e. e\<lparr>en_pit := snd (takeDataMatchPorts (d_name d) (en_pit (n_engine n)))\<rparr>) n)))
      (\<lambda>n'. Inr (sendData env d h (fst (takeDataMatchPorts (d_name d) (en_pit (n_engine n)))) n'))"
proof -
  have "length (d_name d) \<ge> 4" using assms(1) by (simp add: judgeNameIsTrace_def split: if_splits)
  then have "extractDataNameFromTrace (d_name d) \<noteq> []" by (simp add: extractDataNameFromTrace_def)
  moreover have "validateRouteLifetime l ((n_engine n)\<lparr>en_pit := pit\<rparr>) = validateRouteLifetime l (n_engine n)" for l pit
    by (simp add: validateRouteLifetime_def)
  ultimately show ?thesis
    using assms by (simp add: processDataAfterDelay_def handleTraceData_def Let_def case_prod_beta not_le)
qed

lemma trace_data_route:
  assumes inv: "node_inv env n"
    and "judgeNameIsTrace (d_name d)" and "getTraceSequence (d_name d) = Inr s"
    and "p = extractDataNameFromTrace (d_name d)"
    and "ports = fst (takeDataMatchPorts (d_name d) (en_pit (n_engine n)))" and "ports \<noteq> {}"
    and "l = saved_lifetime (d_name d) (en_pit (n_engine n))" and "0 < l"
    and "validateRouteLifetime (us_to_ns l) (n_engine n) = Inr ()"
    and "route_lifetime l (n_local n) = Inr (us_to_ns l)"
    and "\<not> stale_update p s (n_local n)" and "not_applied p s n"
    and "\<forall>i \<in> set (findByPrefix p (en_pit (n_engine n))). nonce_ok (en_store (n_engine n)) i"
  shows "\<exists>n'. processDataAfterDelay env inPort d h n = Inr n' \<and> node_inv env n' \<and>
    route_at p (Min ports) s (node_now n + us_to_ns l) (n_local n')"
proof -
  let ?n = "count_engine (traceUpdatesHandled_update incr)
      (on_engine (\<lambda>e. e\<lparr>en_pit := snd (takeDataMatchPorts (d_name d) (en_pit (n_engine n)))\<rparr>) n)"
  have "node_inv env (on_engine (\<lambda>e. e\<lparr>en_pit := snd (takeDataMatchPorts (d_name d) (en_pit (n_engine n)))\<rparr>) n)"
    using inv pit_ok_take by (intro node_rel_engine [OF inv]) (auto simp: node_rel_env engine_ok_def)
  then have inv': "node_inv env ?n" by simp
  have fin: "finite ports" using assms(5) finite_return_ports by simp
  have nonces: "nonce_ok (en_store (n_engine ?n)) i" if "i \<in> set (findByPrefix p (en_pit (n_engine ?n)))" for i
    using that assms(13) [unfolded Ball_def set_findByPrefix]
    by (auto simp: set_findByPrefix takeDataMatchPorts_eq split: if_splits)
  have na: "not_applied p s ?n" using assms(12) by (simp add: not_applied_def)
  have x: "expiry_at (us_to_ns l) ?n = node_now n + us_to_ns l" using assms(8) by (simp add: expiry_at_def)
  obtain ps where ps: "sorted_list_of_set ports = Min ports # ps"
    using sorted_list_of_set_nonempty [OF fin assms(6)] by blast
  obtain n1 where n1: "trace_ports env p s l (Min ports # ps) ?n = Inr n1"
    "route_at p (Min ports) s (node_now n + us_to_ns l) (n_local n1)"
    using trace_ports_route [OF inv' _ _ na nonces, of l "us_to_ns l" "Min ports" ps] assms(10,11)
    unfolding x by auto
  have "processDataAfterDelay env inPort d h n = Inr (sendData env d h ports n1)"
    using processTraceData [of d n s env inPort h] assms(2-9) n1(1) ps by simp
  then show ?thesis using n1(2) processDataAfterDelay_node [OF inv] by simp
qed

text \<open>C3. Trace Data that answers a remembered Trace Interest and carries a new generation leaves a
  temporary route of the mobile's prefix: one hop, on the lowest-numbered port the Trace
  Interests came from, with the sequence number of the Data and a lease that lasts the lifetime
  of the remembered Trace Interest.\<close>

theorem trace_data_installs_route:
  assumes inv: "node_inv env n"
    and "judgeNameIsTrace (d_name d)" and "getTraceSequence (d_name d) = Inr s"
    and "p = extractDataNameFromTrace (d_name d)"
    and "ports = fst (takeDataMatchPorts (d_name d) (en_pit (n_engine n)))" and "ports \<noteq> {}"
    and "l = saved_lifetime (d_name d) (en_pit (n_engine n))" and "0 < l"
    and "validateRouteLifetime (us_to_ns l) (n_engine n) = Inr ()"
    and "route_lifetime l (n_local n) = Inr (us_to_ns l)"
    and "\<not> stale_update p s (n_local n)" and "not_applied p s n"
    and "\<forall>i \<in> set (findByPrefix p (en_pit (n_engine n))). nonce_ok (en_store (n_engine n)) i"
  shows "\<exists>n'. processDataAfterDelay env inPort d h n = Inr n' \<and> node_inv env n' \<and>
    route_at p (Min ports) s (node_now n + us_to_ns l) (n_local n')"
  using assms by (rule trace_data_route)

text \<open>The lease is the lifetime of the Interest remembered under exactly the Data's name.\<close>

lemma saved_lifetime_entry:
  assumes "pit_ok m" and "fmlookup m nm = Some e"
  shows "saved_lifetime nm m = lifetime_us (pe_interest e)"
proof -
  have mem: "pe_interest e \<in> set (findByPrefix nm m)" "i_name (pe_interest e) = nm"
    using assms by (auto simp: set_findByPrefix pit_ok_def)
  have "j = pe_interest e" if "j \<in> set (findByPrefix nm m)" "i_name j = nm" for j
    using that assms by (auto simp: set_findByPrefix pit_ok_def)
  moreover obtain j where "find (\<lambda>i. i_name i = nm) (findByPrefix nm m) = Some j"
    using mem by (cases "find (\<lambda>i. i_name i = nm) (findByPrefix nm m)") (auto simp: find_None_iff)
  ultimately show ?thesis using find_Some_D [of "\<lambda>i. i_name i = nm"] by (auto simp: saved_lifetime_def)
qed

text \<open>A node that remembers a Trace Interest of two seconds from port 3.\<close>

definition sample_trace :: name where
  "sample_trace = traceName [component_of_string ''rv''] [component_of_string ''alice''] 7"

definition sample_interest :: interest where
  "sample_interest = \<lparr>i_name = sample_trace, i_nonce = Some 0, i_lifetime = 2000\<rparr>"

definition trace_node :: node where
  "trace_node = on_engine (\<lambda>e. e\<lparr>en_pit := fmupd sample_trace
     \<lparr>pe_interest = sample_interest, pe_ingress = [new_ingress 0 sample_interest 3]\<rparr> fmempty\<rparr>) sample_node"

definition sample_data :: data_packet where
  "sample_data = \<lparr>d_name = sample_trace, d_content = [], d_hopCount = None\<rparr>"

lemma sample_trace_simps [simp]:
  "judgeNameIsTrace sample_trace" "getTraceSequence sample_trace = Inr 7"
  "extractDataNameFromTrace sample_trace = [component_of_string ''rv'', component_of_string ''alice'']"
  unfolding sample_trace_def
  by (simp_all add: traceName_def MakeTracePrefix_def judgeNameIsTrace_def getTraceSequence_def
      extractDataName_shape component_toUri_trace component_of_string_def)

lemma trace_node_start: "node_start sample_env trace_node"
  using sample_node_start
  by (auto simp: node_start_def trace_node_def engine_ok_def pit_ok_def sample_interest_def split: if_splits)

lemma trace_node_ports: "fst (takeDataMatchPorts sample_trace (en_pit (n_engine trace_node))) = {3}"
  by (auto simp: takeDataMatchPorts_eq trace_node_def entry_ports_def new_ingress_def split: if_splits)

lemma trace_node_lifetime: "saved_lifetime sample_trace (en_pit (n_engine trace_node)) = 2000000"
proof -
  have "pit_ok (en_pit (n_engine trace_node))"
    using trace_node_start by (simp add: node_start_def engine_ok_def)
  from saved_lifetime_entry [OF this, of sample_trace] show ?thesis
    by (simp add: trace_node_def sample_interest_def lifetime_us_def)
qed

lemma trace_node_no_pending:
  "set (findByPrefix [component_of_string ''rv'', component_of_string ''alice'']
     (en_pit (n_engine trace_node))) = {}"
proof -
  have "\<not> prefix [component_of_string ''rv'', component_of_string ''alice''] sample_trace"
    by (simp add: sample_trace_def traceName_def MakeTracePrefix_def component_of_string_def bytes_of_def)
  then have "i \<notin> set (findByPrefix [component_of_string ''rv'', component_of_string ''alice'']
      (en_pit (n_engine trace_node)))" for i
    unfolding set_findByPrefix by (auto simp: trace_node_def split: if_splits)
  then show ?thesis by (simp only: set_eq_iff empty_iff simp_thms)
qed

theorem trace_data_installs_route_witness:
  "\<exists>n'. processDataAfterDelay sample_env 5 sample_data header_default trace_node = Inr n' \<and>
     node_inv sample_env n' \<and>
     route_at [component_of_string ''rv'', component_of_string ''alice''] 3 7 2000000000 (n_local n')"
proof -
  have inv: "node_inv sample_env trace_node" by (rule node_start_inv [OF trace_node_start])
  have now: "node_now trace_node = 0" by (simp add: trace_node_def sim_init_def Now_def)
  have cfg: "validateRouteLifetime 2000000000 (n_engine trace_node) = Inr ()"
    "route_lifetime 2000000 (n_local trace_node) = Inr 2000000000"
    "\<not> stale_update q 7 (n_local trace_node)" "not_applied q 7 trace_node" for q
    by (simp_all add: trace_node_def validateRouteLifetime_def engine_new_def route_lifetime_def
        stale_update_def local_new_def not_applied_def flow_controller_new_def)
  show ?thesis
    using trace_data_installs_route [OF inv, of sample_data 7
        "[component_of_string ''rv'', component_of_string ''alice'']" "{3}" 2000000 5 header_default]
    by (simp add: sample_data_def trace_node_ports trace_node_lifetime trace_node_no_pending cfg now)
qed


definition seen_node :: node where
  "seen_node = on_local (\<lambda>l. l\<lparr>lc_guard := True, lc_highestSeenSeq :=
     fmupd [component_of_string ''rv'', component_of_string ''alice''] 9 fmempty\<rparr>) trace_node"


section \<open>What a pull does\<close>


definition pending_node :: node where
  "pending_node = on_engine (\<lambda>e. e\<lparr>en_pit := fmupd sample_trace
     \<lparr>pe_interest = sample_interest, pe_ingress = [new_ingress 0 sample_interest 3]\<rparr> fmempty,
     en_store := \<lparr>ns_bytes = (\<lambda>_. [1, 2, 3, 4]), ns_next = 2, ns_rand = 0\<rparr>\<rparr>) sample_node"


text \<open>C39. The refreshed nonce is written into the buffer that the remembered Interest shares with
  its copy: after a pull the table no longer recognises a retransmission of the Interest that it
  remembers as a duplicate.\<close>

theorem pull_defeats_duplicate_check:
  assumes "env_ok env" and "fmlookup (en_pit (n_engine n)) k = Some e"
    and "i_nonce (pe_interest e) = Some a" and "length (ns_bytes (en_store (n_engine n)) a) = 4"
    and "i_nonce j = Some b" and "b \<noteq> a" and "length (ns_bytes (en_store (n_engine n)) b) = 4"
    and "same_nonce (en_store (n_engine n)) (pe_interest e) j = Inr True"
    and "pull_one env port (pe_interest e) n = Inr n'"
  shows "fmlookup (en_pit (n_engine n')) k = Some e \<and>
    same_nonce (en_store (n_engine n')) (pe_interest e) j = Inr False"
proof -
  have ok: "nonce_ok (en_store (n_engine n)) (pe_interest e)"
    using assms(3,4) by (simp add: nonce_ok_def)
  obtain st where st: "nonce_ok st (pe_interest e)" "nonce_at st a \<noteq> nonce_at (en_store (n_engine n)) a"
    "ns_bytes st b = ns_bytes (en_store (n_engine n)) b"
    "n' = snd (node_schedule 0 (DoDelayedPullSend (pe_interest e) port)
          (count_engine (pendingPullsScheduled_update incr) (on_engine (\<lambda>e. e\<lparr>en_store := st\<rparr>) n)))"
    using pull_one_effect [OF assms(1) ok, of port] assms(3,6,9) ok by auto
  then have "length (ns_bytes st a) = 4" using assms(3) by (simp add: nonce_ok_def)
  then show ?thesis
    using assms st by (auto simp: same_nonce_def nonce_at_def split: if_splits)
qed

theorem pull_defeats_duplicate_check_witness:
  "\<exists>n'. pull_one sample_env 6 sample_interest pending_node = Inr n' \<and>
     same_nonce (en_store (n_engine pending_node)) sample_interest (sample_interest\<lparr>i_nonce := Some 1\<rparr>) = Inr True \<and>
     same_nonce (en_store (n_engine n')) sample_interest (sample_interest\<lparr>i_nonce := Some 1\<rparr>) = Inr False"
proof -
  let ?e = "\<lparr>pe_interest = sample_interest, pe_ingress = [new_ingress 0 sample_interest 3]\<rparr>"
  have before: "same_nonce (en_store (n_engine pending_node)) sample_interest (sample_interest\<lparr>i_nonce := Some 1\<rparr>) = Inr True"
    by (simp add: same_nonce_def nonce_at_def pending_node_def sample_interest_def)
  obtain n' where n': "pull_one sample_env 6 sample_interest pending_node = Inr n'"
    using pull_one_effect [OF env_ok_sample, of pending_node sample_interest 6]
    by (auto simp: nonce_ok_def pending_node_def sample_interest_def)
  have "fmlookup (en_pit (n_engine pending_node)) sample_trace = Some ?e" by (simp add: pending_node_def)
  from pull_defeats_duplicate_check [OF env_ok_sample this, of 0 "sample_interest\<lparr>i_nonce := Some 1\<rparr>" 1 6 n']
  show ?thesis
    using n' before by (auto simp: sample_interest_def pending_node_def)
qed

end
