(* ===== verification/Route_Lifecycle.thy ===== *)
theory Route_Lifecycle
  imports Trace_Updates
begin

text \<open>
  The life of a temporary route in a reachable node: its lease and the timer that ends it, the
  acknowledgement that completes it, the retries of its request and its withdrawal.  \<open>Run\<close> is
  the loop of \<^verbatim>\<open>DefaultSimulatorImpl::Run\<close> on the events of the node.
\<close>

section \<open>Well-formed nodes\<close>

text \<open>C29. Every reachable node is well formed: the switch keeps its six tables with their fixed entries and a FIB of
  well-formed routes, the pending Interests and the cached Data stand under their own names, the cache is
  within its capacity, each temporary FIB entry has exactly one hop, which ends with the prefix's lease, and the
  pending control requests are for the routes the node holds.\<close>

theorem reachable_node_well_formed:
  assumes "reach (node_start env) (node_step env) n"
  shows "switch_ok (n_switch n) \<and> pit_ok (en_pit (n_engine n)) \<and> cs_ok (en_cs (n_engine n)) \<and> sim_ok (n_sim n) \<and>
    (\<forall>p e. fmlookup (lc_fib (n_local n)) p = Some e \<longrightarrow>
       (\<exists>pt x. fmlookup (lc_routeExpiries (n_local n)) p = Some x \<and> e = single_hop p pt (deadline_of x))) \<and>
    (\<forall>p r. fmlookup (lc_pending (n_local n)) p = Some r \<longrightarrow>
       fmlookup (lc_seqMap (n_local n)) p = Some (pq_seq r) \<and> cm_prefix (pq_msg r) = p)"
  using node_system.reachable_inv [OF assms]
  by (auto simp: node_rel_def plane_ok_def engine_ok_def linv_defs)

theorem reachable_node_well_formed_witness: "switch_ok (n_switch sample_node) \<and> cs_ok (en_cs (n_engine sample_node))"
  using reachable_node_well_formed [OF reach_start [of "node_start sample_env" sample_node, OF sample_node_start]] by blast

section \<open>A reachable node with a lease\<close>

lemma live_now_le: "sim_ok s \<Longrightarrow> (a, i) \<in> live_timers s \<Longrightarrow> Now s \<le> id_ts i"
  by (auto simp: sim_ok_def live_timers_def event_id_of_def list_all_iff after_now_def Now_def)

definition sample_frame :: frame where
  "sample_frame = \<lparr>fr_header = Serialize (header_of_name (e_hash sample_env) sample_trace),
     fr_payload = DataPayload sample_trace []\<rparr>"

lemma header_of_name_valid: "header_isValid (header_of_name hash n)"
  by (simp add: header_isValid_def header_of_name_def computeNameHashes_def header_default_def
      isValidPacketType_def)

lemma receive_unprocessed:
  assumes "switch_ok (n_switch n)" and "header_isValid h" and "m_type h = UNPROCESSED"
    and "fr_header f = Serialize h @ rest"
  shows "\<exists>sw. onReceiveRawPacket env inPort f n = receivePayload env inPort (fr_payload f) h (n\<lparr>n_switch := sw\<rparr>)"
proof -
  have d: "Deserialize (fr_header f) h0 = (SERIALIZED_SIZE, h)" for h0
    using Deserialize_Serialize [OF assms(2)] assms(4) by simp
  let ?h = "h\<lparr>m_packetInPort := inPort\<rparr>"
  have "fst (processPacket (node_now n) ?h (n_switch n)) =
      \<lparr>pr_matched = True, pr_packetIn = False, pr_dropped = False,
       pr_outputPorts = {STATEFUL_MODULE}, pr_modifiedHeader = Serialize ?h\<rparr>"
    using local_pass [OF assms(1), of ?h "node_now n"] assms(2,3)
    by (simp add: uses_fib_def uses_bitmap_def header_isValid_def)
  then show ?thesis
    by (auto simp: onReceiveRawPacket_def d pipeline_def Let_def case_prod_beta)
qed

text \<open>The node that remembers a Trace Interest receives the Trace Data in a frame and then runs the
  event that the reception schedules.\<close>

lemma leased_node_reach:
  "\<exists>n. reach (node_start sample_env) (node_step sample_env) n \<and>
     route_at [component_of_string ''rv'', component_of_string ''alice''] 3 7 2000000000 (n_local n)"
proof -
  let ?h = "header_of_name (e_hash sample_env) sample_trace"
  let ?d = "\<lparr>d_name = sample_trace, d_content = [], d_hopCount = Some 1\<rparr>"
  let ?act = "ProcessDataAfterDelay 5 ?d (?h\<lparr>m_switchId := 1\<rparr>)"
  have h: "m_type ?h = UNPROCESSED" "m_switchId ?h = 0" by (simp_all add: header_of_name_def computeNameHashes_def header_default_def)
  have start: "reach (node_start sample_env) (node_step sample_env) trace_node"
    by (rule reach_start, rule trace_node_start)
  have sw: "switch_ok (n_switch trace_node)" using trace_node_start by (simp add: node_start_def)
  obtain sw where "onReceiveRawPacket sample_env 5 sample_frame trace_node =
      receivePayload sample_env 5 (DataPayload sample_trace []) ?h (trace_node\<lparr>n_switch := sw\<rparr>)"
    using receive_unprocessed [OF sw header_of_name_valid h(1), of sample_frame "[]" sample_env 5]
    by (auto simp: sample_frame_def)
  then obtain n1 where recv: "onReceiveRawPacket sample_env 5 sample_frame trace_node = Inr n1"
    and n1: "n1 = snd (node_schedule 0 ?act (count_engine (dataReceived_update incr) (trace_node\<lparr>n_switch := sw\<rparr>)))"
    by (simp add: receivePayload_def processStatefulData_def h Let_def trace_node_def engine_new_def)
  have r1: "reach (node_start sample_env) (node_step sample_env) n1"
    by (rule reach_step, rule start, rule node_step.receive [OF recv])
  have inv1: "node_inv sample_env n1" by (rule node_system.reachable_inv [OF r1])
  have sim1: "n_sim n1 = snd (Schedule 0 ?act sim_init)" by (simp add: n1 trace_node_def)
  obtain sm where pop: "ProcessOneEvent (n_sim n1) = Some (Some ?act, sm)" "Now sm = 0"
    by (simp add: sim1 Schedule_def sim_init_def ProcessOneEvent_def Now_def Let_def)
  let ?n = "n1\<lparr>n_sim := sm\<rparr>"
  have l: "n_local n1 = n_local trace_node" "n_central n1 = n_central trace_node"
    "en_pit (n_engine n1) = en_pit (n_engine trace_node)"
    "en_flowTableLifetime (n_engine n1) = 0" "en_temporaryLifetime (n_engine n1) = 0"
    by (simp_all add: n1 trace_node_def engine_new_def)
  have inv: "node_inv sample_env ?n"
    using pop_inv [of n1 "Some ?act" sm] plane_ok_pop(1) [OF inv1 pop(1)] inv1 pop(1) by (simp add: node_rel_def)
  have cfg: "validateRouteLifetime 2000000000 (n_engine ?n) = Inr ()"
    "route_lifetime 2000000 (n_local ?n) = Inr 2000000000"
    "\<not> stale_update q 7 (n_local ?n)" "not_applied q 7 ?n" for q
    by (simp_all add: l trace_node_def validateRouteLifetime_def route_lifetime_def
        stale_update_def local_new_def not_applied_def flow_controller_new_def)
  obtain n' where n': "processDataAfterDelay sample_env 5 ?d (?h\<lparr>m_switchId := 1\<rparr>) ?n = Inr n'"
    "route_at [component_of_string ''rv'', component_of_string ''alice''] 3 7 2000000000 (n_local n')"
    using trace_data_route [OF inv, of ?d 7 "[component_of_string ''rv'', component_of_string ''alice'']"
        "{3}" 2000000 5 "?h\<lparr>m_switchId := 1\<rparr>"] cfg pop(2)
    by (auto simp: l trace_node_ports trace_node_lifetime trace_node_no_pending)
  have "node_step sample_env n1 n'"
    by (rule node_step.run [OF pop(1)]) (simp add: run_act_def n'(1))
  with r1 have "reach (node_start sample_env) (node_step sample_env) n'" by (rule reach_step)
  then show ?thesis using n'(2) by blast
qed

section \<open>Leases\<close>

lemma routes_ok_fib:
  "routes_ok l \<Longrightarrow> fmlookup (lc_fib l) p = Some e \<Longrightarrow>
   \<exists>pt x. fmlookup (lc_routeExpiries l) p = Some x \<and> e = single_hop p pt (deadline_of x)"
  by (simp add: routes_ok_def)

text \<open>C15. In every reachable node a route with a finite lease has exactly one live lease timer; it
  carries the sequence number of the route and fires exactly when the lease ends, which is not
  in the past; and the temporary FIB holds at most one hop for the prefix, with that deadline.\<close>

theorem lease_has_one_timer:
  assumes "reach (node_start env) (node_step env) n"
    and "fmlookup (lc_routeExpiries (n_local n)) p = Some x" and "x \<noteq> 0"
  shows "\<exists>s i. fmlookup (lc_seqMap (n_local n)) p = Some s \<and>
    {(a, j). (a, j) \<in> live_timers (n_sim n) \<and> lease_act p a} = {(ExpireEntryBySeq p s, i)} \<and>
    id_ts i = x \<and> node_now n \<le> x \<and>
    (\<forall>e. fmlookup (lc_fib (n_local n)) p = Some e \<longrightarrow> (\<exists>pt. e = single_hop p pt x))"
proof -
  have inv: "local_inv n" using node_system.reachable_inv [OF assms(1)] by (simp add: node_rel_def)
  then have L: "lease_ok {} (n_sim n) (n_local n)" and R: "routes_ok (n_local n)" and ok: "sim_ok (n_sim n)"
    by (auto simp: linv_def)
  obtain i where i: "fmlookup (lc_lifetimeTimers (n_local n)) p = Some i" "id_ts i = x"
  proof (cases "fmlookup (lc_lifetimeTimers (n_local n)) p")
    case None
    then show ?thesis using L assms(2,3) unfolding lease_ok_def by blast
  next
    case (Some i)
    then have "fmlookup (lc_routeExpiries (n_local n)) p = Some (id_ts i)"
      using L unfolding lease_ok_def by blast
    then show ?thesis using that Some assms(2) by simp
  qed
  have "fmdom (lc_seqMap (n_local n)) = fmdom (lc_routeExpiries (n_local n))"
    using R by (simp add: routes_ok_def)
  then obtain s where s: "fmlookup (lc_seqMap (n_local n)) p = Some s"
    using assms(2) by (metis fmdomI fmdom_notI not_None_eq)
  have iff: "(ExpireEntryBySeq p u, j) \<in> live_timers (n_sim n) \<longleftrightarrow> j = i \<and> u = s" for u j
    using L i(1) s by (auto simp: lease_ok_def)
  then have "node_now n \<le> x" using live_now_le [OF ok] i(2) by blast
  moreover have "{(a, j). (a, j) \<in> live_timers (n_sim n) \<and> lease_act p a} = {(ExpireEntryBySeq p s, i)}"
    using iff by (auto simp: lease_act_def)
  moreover have "\<exists>pt. e = single_hop p pt x" if e: "fmlookup (lc_fib (n_local n)) p = Some e" for e
  proof -
    obtain pt y where "fmlookup (lc_routeExpiries (n_local n)) p = Some y" "e = single_hop p pt (deadline_of y)"
      using routes_ok_fib [OF R e] by blast
    then show ?thesis using assms(2,3) by (auto simp: deadline_of_def)
  qed
  ultimately show ?thesis using s i(2) by blast
qed

theorem lease_has_one_timer_witness:
  "\<exists>n i. reach (node_start sample_env) (node_step sample_env) n \<and>
     (ExpireEntryBySeq [component_of_string ''rv'', component_of_string ''alice''] 7, i) \<in> live_timers (n_sim n) \<and>
     id_ts i = 2000000000"
proof -
  let ?p = "[component_of_string ''rv'', component_of_string ''alice'']"
  obtain n where n: "reach (node_start sample_env) (node_step sample_env) n"
    and r: "fmlookup (lc_routeExpiries (n_local n)) ?p = Some 2000000000"
      "fmlookup (lc_seqMap (n_local n)) ?p = Some 7"
    using leased_node_reach by (auto simp: route_at_def)
  from lease_has_one_timer [OF n r(1)] r(2) n show ?thesis by fastforce
qed

text \<open>When the lease timer of a prefix runs, at the instant its lease ends, the local
  controller forgets everything about the route: hop, sequence number, deadline, timer and
  pending request; it forgets nothing else, and the flow tables stay as they are.\<close>

lemma lease_end_forgets_route:
  assumes "node_inv env n" and "ProcessOneEvent (n_sim n) = Some (Some (ExpireEntryBySeq p s), sm)"
  shows "\<exists>n'. run_act env (ExpireEntryBySeq p s) (n\<lparr>n_sim := sm\<rparr>) = Inr n' \<and>
    n_local n' = forgotten p (n_local n) \<and> n_switch n' = n_switch n \<and> n_central n' = n_central n \<and>
    fmlookup (lc_routeExpiries (n_local n)) p = Some (node_now n') \<and>
    (\<forall>a i. (a, i) \<in> live_timers (n_sim n') \<longrightarrow> \<not> lease_act p a \<and> \<not> retry_act p a)"
proof -
  let ?n = "n\<lparr>n_sim := sm\<rparr>" and ?n' = "expireEntryBySeq p s (n\<lparr>n_sim := sm\<rparr>)"
  have p: "linv {p} {} {} ?n" "fmlookup (lc_seqMap (n_local n)) p = Some s"
    "fmlookup (lc_routeExpiries (n_local n)) p = Some (Now sm)"
    using pop_inv [of n "Some (ExpireEntryBySeq p s)" sm] assms by (auto simp: node_rel_def)
  have l: "n_local ?n' = forgotten p (n_local n)" and inv: "local_inv ?n'"
    using expireEntryBySeq_inv [OF p(1), of s] p(2) by simp_all
  have sh: "shrinks ?n ?n'"
    by (auto simp: expireEntryBySeq_def Let_def intro!: shrinks_steps split: option.splits)
  have "\<not> lease_act p a \<and> \<not> retry_act p a" if "(a, i) \<in> live_timers (n_sim ?n')" for a i
    using inv that by (auto simp: linv_def lease_ok_def retry_ok_def l forgotten_def lease_act_def retry_act_def)
  then show ?thesis
    using l sh p(3) by (auto simp: run_act_def shrinks_def)
qed

text \<open>A node with one route, without request, whose lease ends at 5.\<close>

definition lease_node :: node where
  "lease_node = on_local (\<lambda>l. l\<lparr>lc_fib := fmupd [] (single_hop [] 3 5) fmempty, lc_seqMap := fmupd [] 1 fmempty,
       lc_routeExpiries := fmupd [] 5 fmempty, lc_lifetimeTimers := fmupd [] \<lparr>id_ts = 5, id_uid = 4\<rparr> fmempty\<rparr>)
     (snd (node_schedule 5 (ExpireEntryBySeq [] 1) sample_node))"

lemma lease_node_inv: "node_inv sample_env lease_node"
proof -
  have "plane_ok sample_env sample_node" using sample_node_inv by (simp add: node_rel_def)
  then have "plane_ok sample_env lease_node"
    unfolding lease_node_def by (intro plane_ok_local plane_ok_schedule) simp_all
  moreover have live: "live_timers (n_sim lease_node) = {(ExpireEntryBySeq [] 1, \<lparr>id_ts = 5, id_uid = 4\<rparr>)}"
    by (auto simp: lease_node_def live_timers_Schedule Schedule_id Now_def sim_init_def)
      (auto simp: live_timers_def)
  moreover have "sim_ok (n_sim lease_node)"
    using sim_ok_Schedule [OF sim_ok_init, of 5 "ExpireEntryBySeq [] 1"] by (simp add: lease_node_def)
  moreover have "node_now lease_node = 0"
    by (simp add: lease_node_def) (simp add: Now_def sim_init_def)
  ultimately show ?thesis
    by (auto simp: node_rel_def linv_defs lease_node_def local_new_def deadline_of_def
        split: if_splits)
qed

section \<open>Acknowledgements\<close>


definition ack_of :: "sim_time \<Rightarrow> control_message" where
  "ack_of x = message_default\<lparr>cm_type := CT_SYNC_ACK, cm_seq := 1, cm_routeExpiry := x\<rparr>"


section \<open>Retries under loss\<close>

text \<open>\<^verbatim>\<open>DefaultSimulatorImpl::Run\<close> for at most \<open>k\<close> events of the node.\<close>

fun Run :: "env \<Rightarrow> nat \<Rightarrow> node \<Rightarrow> exn + node" where
  "Run env 0 n = Inr n"
| "Run env (Suc k) n =
     (case ProcessOneEvent (n_sim n) of
        None \<Rightarrow> Inr n
      | Some (None, sm) \<Rightarrow> Run env k (n\<lparr>n_sim := sm\<rparr>)
      | Some (Some a, sm) \<Rightarrow> bind_exn (run_act env a (n\<lparr>n_sim := sm\<rparr>)) (Run env k))"

definition control_lost :: "node \<Rightarrow> bool" where
  "control_lost n \<longleftrightarrow> 1 \<le> fc_controlLossRate (n_central n)"

text \<open>Only timers of \<open>p\<close> are live.\<close>

definition only_timers_of :: "name \<Rightarrow> node \<Rightarrow> bool" where
  "only_timers_of p n \<longleftrightarrow> (\<forall>a i. (a, i) \<in> live_timers (n_sim n) \<longrightarrow> lease_act p a \<or> retry_act p a)"

lemma shouldDrop_certain: "1 \<le> q \<Longrightarrow> \<exists>b k. shouldDrop g q budget pos = (True, b, k)"
  by (cases "0 < budget") (auto simp: shouldDrop_def)

lemma submit_lost:
  assumes "control_lost n"
  shows "\<exists>f. submitFlowUpdate env m n = Inr (on_central f n) \<and> control_lost (on_central f n)"
proof -
  let ?c = "count_central (packetIns_update incr) n"
  obtain b q where d: "shouldDrop (e_uniform env ControlLoss) (fc_controlLossRate (n_central ?c))
      (fc_controlDropFirstN (n_central ?c)) (fc_rvPos (n_central ?c) ControlLoss) = (True, b, q)"
    using assms shouldDrop_certain [of "fc_controlLossRate (n_central ?c)" "e_uniform env ControlLoss"
        "fc_controlDropFirstN (n_central ?c)" "fc_rvPos (n_central ?c) ControlLoss"]
    by (auto simp: control_lost_def)
  then have "submitFlowUpdate env m n = Inr (on_central (\<lambda>c. c\<lparr>fc_counters := packetInsDropped_update incr
      (packetIns_update incr (fc_counters c)), fc_controlDropFirstN := b,
      fc_rvPos := (fc_rvPos c)(ControlLoss := q)\<rparr>) n)"
    by (simp add: submitFlowUpdate_def drop_control_def count_central_def on_central_def Let_def)
  then show ?thesis using assms by (force simp: control_lost_def)
qed

lemma retry_lost:
  assumes inv: "linv {} {p} {} n" and lost: "control_lost n"
    and r: "fmlookup (lc_pending (n_local n)) p = Some r" "pq_seq r = s" "0 < pq_retriesLeft r"
  shows "\<exists>n' i. onControllerRetryTimeout env p s n = Inr n' \<and> control_lost n' \<and>
    live_timers (n_sim n') = insert (ControllerRetryTimeout p s, i) (live_timers (n_sim n)) \<and>
    (\<exists>r'. fmlookup (lc_pending (n_local n')) p = Some r' \<and> pq_retriesLeft r' = pq_retriesLeft r - 1)"
proof -
  let ?b = "count_local (controlPackets_update incr) (count_local (controllerRetries_update incr)
      (on_local (\<lambda>l. l\<lparr>lc_pending := fmupd p (r\<lparr>pq_retriesLeft := pq_retriesLeft r - 1\<rparr>) (lc_pending l)\<rparr>) n))"
  have s: "fmlookup (lc_seqMap (n_local n)) p = Some s" "lc_hasSyncRequestCb (n_local n)"
    using inv r by (auto simp: linv_def retry_ok_def request_ok_def)
  obtain f where f: "submitFlowUpdate env (pq_msg r) ?b = Inr (on_central f ?b)" "control_lost (on_central f ?b)"
    using submit_lost [of ?b] lost by (auto simp: control_lost_def)
  then show ?thesis
    using r s
    by (auto simp: onControllerRetryTimeout_def retryRequest_def Let_def case_prod_beta control_lost_def
        live_timers_Schedule)
qed

lemma length_Cancel [simp]: "length (m_events (Cancel i s)) = length (m_events s)"
  by (simp add: Cancel_def)

lemma length_expire [simp]:
  "length (m_events (n_sim (expireEntryBySeq p s n))) = length (m_events (n_sim n))"
  by (simp add: expireEntryBySeq_def dropPending_def Let_def split: option.splits)

lemma ProcessOneEvent_length:
  "ProcessOneEvent s = Some (r, s') \<Longrightarrow> length (m_events s') < length (m_events s)"
  by (auto simp: ProcessOneEvent_def split: list.splits)

text \<open>How many retry timeouts are still to come.\<close>

definition retry_rank :: "name \<Rightarrow> node \<Rightarrow> nat" where
  "retry_rank p n = (case fmlookup (lc_pending (n_local n)) p of None \<Rightarrow> 0 | Some r \<Rightarrow> Suc (nat (pq_retriesLeft r)))"

definition retry_order :: "name \<Rightarrow> node rel" where
  "retry_order p = inv_image (less_than <*lex*> less_than) (\<lambda>n. (retry_rank p n, length (m_events (n_sim n))))"

text \<open>What the run below keeps: the route is either waiting for its request or gone.\<close>

definition doomed :: "env \<Rightarrow> name \<Rightarrow> node \<Rightarrow> bool" where
  "doomed env p n \<longleftrightarrow> node_inv env n \<and> control_lost n \<and> only_timers_of p n \<and>
     (fmlookup (lc_pending (n_local n)) p = None \<longrightarrow> fmlookup (lc_seqMap (n_local n)) p = None)"

lemma doomed_idle:
  assumes "doomed env p n" and "m_events (n_sim n) = []"
  shows "fmlookup (lc_seqMap (n_local n)) p = None \<and> fmlookup (lc_fib (n_local n)) p = None"
proof -
  have inv: "local_inv n" using assms(1) by (simp add: doomed_def node_rel_def)
  have "live_timers (n_sim n) = {}" using assms(2) by (simp add: live_timers_def)
  then have "fmlookup (lc_pending (n_local n)) p = None"
    using inv by (auto simp: linv_def retry_ok_def) (metis not_None_eq)
  then have "fmlookup (lc_seqMap (n_local n)) p = None" using assms(1) by (simp add: doomed_def)
  moreover from this have "fmlookup (lc_routeExpiries (n_local n)) p = None"
    using inv by (metis fmdom_notD fmdom_notI linv_def routes_ok_def)
  then have "fmlookup (lc_fib (n_local n)) p = None"
    using inv routes_ok_fib [of "n_local n" p] by (cases "fmlookup (lc_fib (n_local n)) p") (auto simp: linv_def)
  ultimately show ?thesis by blast
qed

lemma doomed_step:
  assumes d: "doomed env p n" and pop: "ProcessOneEvent (n_sim n) = Some (Some a, sm)"
  shows "\<exists>n'. run_act env a (n\<lparr>n_sim := sm\<rparr>) = Inr n' \<and> doomed env p n' \<and> (n', n) \<in> retry_order p"
proof -
  let ?n = "n\<lparr>n_sim := sm\<rparr>"
  have inv: "node_inv env n" "local_inv n" and env: "env_ok env" and lost: "control_lost ?n"
    and quiet: "only_timers_of p n"
    using d by (auto simp: doomed_def node_rel_env control_lost_def)
  have ok: "sim_ok (n_sim n)" using inv(2) by (simp add: linv_def)
  obtain j where j: "(a, j) \<in> live_timers (n_sim n)" "live_timers sm \<subseteq> live_timers (n_sim n)"
    using live_timers_ProcessOneEvent [OF ok pop] by auto
  have keep: "only_timers_of p n'" if "live_timers (n_sim n') \<subseteq> live_timers sm \<union> {(b, i). retry_act p b}" for n'
    using that j(2) quiet by (fastforce simp: only_timers_of_def)
  have P: "node_inv env n'" if "run_act env a ?n = Inr n'" for n'
    by (rule run_act_node [OF inv(1) pop that])
  note pp = pop_inv [OF inv(2) pop]
  consider (e) s where "a = ExpireEntryBySeq p s" | (t) s where "a = ControllerRetryTimeout p s"
    using quiet j(1) by (auto simp: only_timers_of_def lease_act_def retry_act_def)
  then show ?thesis
  proof cases
    case e
    let ?n' = "expireEntryBySeq p s ?n"
    have l: "n_local ?n' = forgotten p (n_local n)"
      using pp e expireEntryBySeq_inv(2) [of p ?n s] by simp
    have sh: "shrinks ?n ?n'"
      by (auto simp: expireEntryBySeq_def Let_def intro!: shrinks_steps split: option.splits)
    have "(?n', n) \<in> retry_order p"
      using ProcessOneEvent_length [OF pop] by (auto simp: retry_order_def retry_rank_def l forgotten_def)
    moreover have "doomed env p ?n'"
      using P [of ?n'] e lost sh keep [of ?n'] l
      by (auto simp: doomed_def run_act_def shrinks_def control_lost_def forgotten_def)
    ultimately show ?thesis using e by (simp add: run_act_def)
  next
    case t
    then obtain r where r: "fmlookup (lc_pending (n_local n)) p = Some r" "pq_seq r = s"
      and inv': "linv {} {p} {} ?n"
      using pp by auto
    show ?thesis
    proof (cases "0 < pq_retriesLeft r")
      case True
      then obtain n' i r' where n': "onControllerRetryTimeout env p s ?n = Inr n'" "control_lost n'"
        "live_timers (n_sim n') = insert (ControllerRetryTimeout p s, i) (live_timers sm)"
        "fmlookup (lc_pending (n_local n')) p = Some r'" "pq_retriesLeft r' = pq_retriesLeft r - 1"
        using retry_lost [OF inv' lost, of r s env] r by auto
      have "doomed env p n'"
        using P [of n'] n' t keep [of n'] by (auto simp: doomed_def run_act_def)
      moreover have "(n', n) \<in> retry_order p"
        using True r n' by (auto simp: retry_order_def retry_rank_def)
      ultimately show ?thesis using t n'(1) by (simp add: run_act_def)
    next
      case False
      let ?m = "count_local (temporaryRouteWithdrawals_update incr) ?n"
      let ?n' = "on_local (\<lambda>l. l\<lparr>lc_pending := fmdrop p (lc_pending l)\<rparr>) (cancelLifetimeTimer p (dropRoute p ?m))"
      have "fmlookup (lc_seqMap (n_local n)) p = Some s"
        using inv' r by (auto simp: linv_def retry_ok_def request_ok_def)
      then have run: "onControllerRetryTimeout env p s ?n = Inr ?n'"
        using r False by (simp add: onControllerRetryTimeout_def Let_def)
      have sh: "shrinks ?n ?n'" by (auto intro!: shrinks_steps)
      have gone: "fmlookup (lc_pending (n_local ?n')) p = None" "fmlookup (lc_seqMap (n_local ?n')) p = None"
        by (simp_all add: cancelLifetimeTimer_def split: option.splits)
      have "doomed env p ?n'"
        using P [of ?n'] run t lost sh keep [of ?n'] gone
        by (auto simp: doomed_def run_act_def shrinks_def control_lost_def simp del: on_local_frame)
      moreover have "(?n', n) \<in> retry_order p"
        using gone(1) r(1) by (simp add: retry_order_def retry_rank_def del: on_local_frame)
      ultimately show ?thesis using t run by (auto simp: run_act_def simp del: on_local_frame)
    qed
  qed
qed

lemma Run_lost:
  assumes "doomed env p n"
  shows "\<exists>k n'. (\<forall>f \<ge> k. Run env f n = Inr n') \<and> doomed env p n' \<and> m_events (n_sim n') = []"
proof -
  have "wf (retry_order p)" by (simp add: retry_order_def wf_lex_prod)
  then show ?thesis using assms
  proof (induction n rule: wf_induct_rule)
    case (less n)
    have more: "\<exists>k n'. (\<forall>f \<ge> k. Run env f n = Inr n') \<and> doomed env p n' \<and> m_events (n_sim n') = []"
      if s: "\<And>f. Run env (Suc f) n = Run env f n1" and o: "(n1, n) \<in> retry_order p" "doomed env p n1" for n1
    proof -
      obtain k n' where k: "\<forall>f \<ge> k. Run env f n1 = Inr n'" "doomed env p n'" "m_events (n_sim n') = []"
        using less.IH [OF o] by blast
      have "Run env f n = Inr n'" if "Suc k \<le> f" for f
        using that k(1) s by (cases f) auto
      then show ?thesis using k(2,3) by blast
    qed
    show ?case
    proof (cases "ProcessOneEvent (n_sim n)")
      case None
      then have "Run env f n = Inr n" for f by (cases f) simp_all
      then show ?thesis
        using None less.prems by (auto simp: ProcessOneEvent_def split: list.splits)
    next
      case (Some q)
      then obtain r sm where pop: "ProcessOneEvent (n_sim n) = Some (r, sm)" by (cases q) auto
      show ?thesis
      proof (cases r)
        case None
        let ?n = "n\<lparr>n_sim := sm\<rparr>"
        have inv: "local_inv n" "node_inv env n" using less.prems by (simp_all add: doomed_def node_rel_def)
        then have "sim_ok (n_sim n)" by (simp add: linv_def)
        then have live: "live_timers sm = live_timers (n_sim n)"
          using live_timers_ProcessOneEvent pop None by fastforce
        have "node_inv env ?n"
          using pop_inv [OF inv(1) pop] plane_ok_pop(1) [OF inv(2) pop] None by (simp add: node_rel_def)
        then have "doomed env p ?n"
          using less.prems live by (simp add: doomed_def control_lost_def only_timers_of_def)
        moreover have "(?n, n) \<in> retry_order p"
          using ProcessOneEvent_length [OF pop] by (simp add: retry_order_def retry_rank_def)
        ultimately show ?thesis using more [of ?n] pop None by simp
      next
        case (Some a)
        then show ?thesis using doomed_step [OF less.prems, of a sm] more pop by auto
      qed
    qed
  qed
qed

text \<open>C14. When every control message is lost, a route that waits for its request does not stay: the
  retries run out or its lease ends, the event loop comes to its end, and the prefix is left
  with no temporary route.\<close>

theorem lost_control_withdraws_route:
  assumes "node_inv env n" and "fmlookup (lc_pending (n_local n)) p \<noteq> None"
    and "1 \<le> fc_controlLossRate (n_central n)"
    and "\<forall>a i. (a, i) \<in> live_timers (n_sim n) \<longrightarrow> lease_act p a \<or> retry_act p a"
  shows "\<exists>k n'. (\<forall>f \<ge> k. Run env f n = Inr n') \<and> m_events (n_sim n') = [] \<and>
    fmlookup (lc_seqMap (n_local n')) p = None \<and> fmlookup (lc_fib (n_local n')) p = None"
proof -
  have "doomed env p n" using assms by (auto simp: doomed_def control_lost_def only_timers_of_def)
  from Run_lost [OF this] show ?thesis using doomed_idle by blast
qed

text \<open>A node whose route waits for its request with two retries left.\<close>

definition waiting_message :: control_message where
  "waiting_message = message_default\<lparr>cm_seq := 1, cm_nameHashes := nameHashesOf (e_hash sample_env) []\<rparr>"

definition waiting_node :: node where
  "waiting_node = on_central (\<lambda>c. c\<lparr>fc_controlLossRate := 1\<rparr>) (on_local (\<lambda>l. l\<lparr>
       lc_fib := fmupd [] (single_hop [] 3 TimePoint_max) fmempty, lc_seqMap := fmupd [] 1 fmempty,
       lc_routeExpiries := fmupd [] 0 fmempty, lc_retryTimeout := 10,
       lc_pending := fmupd [] \<lparr>pq_seq = 1, pq_retriesLeft = 2, pq_timer = \<lparr>id_ts = 10, id_uid = 4\<rparr>,
         pq_msg = waiting_message\<rparr> fmempty\<rparr>)
     (snd (node_schedule 10 (ControllerRetryTimeout [] 1) sample_node)))"

lemma waiting_node_live:
  "live_timers (n_sim waiting_node) = {(ControllerRetryTimeout [] 1, \<lparr>id_ts = 10, id_uid = 4\<rparr>)}"
  by (auto simp: waiting_node_def live_timers_Schedule Schedule_id Now_def sim_init_def)
    (auto simp: live_timers_def)

lemma waiting_node_inv: "node_inv sample_env waiting_node"
proof -
  have "plane_ok sample_env sample_node" using sample_node_inv by (simp add: node_rel_def)
  then have "plane_ok sample_env (snd (node_schedule 10 (ControllerRetryTimeout [] 1) sample_node))"
    by (rule plane_ok_schedule) simp
  then have "plane_ok sample_env waiting_node"
    by (auto simp: waiting_node_def plane_ok_def msgs_ok_def msg_ok_def waiting_message_def message_default_def
        split: if_splits)
  moreover have "sim_ok (n_sim waiting_node)"
    using sim_ok_Schedule [OF sim_ok_init, of 10 "ControllerRetryTimeout [] 1"] by (simp add: waiting_node_def)
  moreover have "node_now waiting_node = 0"
    by (simp add: waiting_node_def) (simp add: Now_def sim_init_def)
  ultimately show ?thesis
    using waiting_node_live
    by (auto simp: node_rel_def linv_defs waiting_node_def local_new_def deadline_of_def waiting_message_def
        message_default_def split: if_splits)
qed

theorem lost_control_withdraws_route_witness:
  "fmlookup (lc_seqMap (n_local waiting_node)) [] = Some 1 \<and>
   (\<exists>k n'. Run sample_env k waiting_node = Inr n' \<and> fmlookup (lc_seqMap (n_local n')) [] = None)"
proof -
  have p: "fmlookup (lc_pending (n_local waiting_node)) [] \<noteq> None"
    "1 \<le> fc_controlLossRate (n_central waiting_node)" "fmlookup (lc_seqMap (n_local waiting_node)) [] = Some 1"
    by (simp_all add: waiting_node_def)
  from lost_control_withdraws_route [OF waiting_node_inv p(1,2)] p(3) show ?thesis
    by (auto simp: waiting_node_live)
qed

section \<open>Exceptions\<close>

lemma readNonNegativeInteger_error: "readNonNegativeInteger k bs = Inl e \<Longrightarrow> e = TlvError"
  by (auto simp: readNonNegativeInteger_def split: if_splits)

lemma nonce_at_error: "nonce_at st a = Inl e \<Longrightarrow> e = TlvError"
  by (cases "readNonNegativeInteger (length (ns_bytes st a)) (ns_bytes st a)")
    (auto simp: nonce_at_def Let_def dest: readNonNegativeInteger_error split: if_splits)

lemma pit_insert_error: "pit_insert st now i pt m = Inl e \<Longrightarrow> e = TlvError"
  by (auto simp: pit_insert_def same_nonce_def Let_def split: option.splits sum.splits bool.splits
      dest: nonce_at_error)

lemma receivePayload_returns: "\<exists>n'. receivePayload env inPort pl h n = Inr n'"
proof (cases pl)
  case (InterestPayload nm nonce lifetime)
  obtain a st where a: "alloc_nonce nonce (en_store (n_engine n)) = (a, st)" by (meson surj_pair)
  let ?i = "\<lparr>i_name = nm, i_nonce = Some a, i_lifetime = lifetime\<rparr>"
  obtain x n1 where r: "processStatefulInterest env inPort ?i h (on_engine (\<lambda>e. e\<lparr>en_store := st\<rparr>) n) = (x, n1)"
    by (meson surj_pair)
  then have "x = None \<or> x = Some TlvError"
    by (auto simp: processStatefulInterest_def Let_def dest: pit_insert_error
        split: sum.splits prod.splits if_splits option.splits)
  then show ?thesis using InterestPayload a r by (auto simp: receivePayload_def)
qed (auto simp: receivePayload_def)

lemma onReceiveRawPacket_returns: "\<exists>n'. onReceiveRawPacket env inPort f n = Inr n'"
  using receivePayload_returns by (simp add: onReceiveRawPacket_def Let_def case_prod_beta)

text \<open>C28. No reception throws, and of the scheduled events only the processing of Trace Data can
  throw: the two controllers, the expiry and retry timers, Interests, pulls and other Data are
  handled to the end in every node that satisfies the invariant.\<close>

theorem only_trace_data_throws:
  assumes "node_inv env n"
  shows "(\<exists>n'. onReceiveRawPacket env inPort f n = Inr n') \<and>
    (\<forall>a sm. ProcessOneEvent (n_sim n) = Some (Some a, sm) \<longrightarrow>
       (\<forall>q d h. a = ProcessDataAfterDelay q d h \<longrightarrow> \<not> judgeNameIsTrace (d_name d)) \<longrightarrow>
       (\<exists>n'. run_act env a (n\<lparr>n_sim := sm\<rparr>) = Inr n'))"
proof -
  have "\<exists>n'. run_act env a (n\<lparr>n_sim := sm\<rparr>) = Inr n'"
    if pop: "ProcessOneEvent (n_sim n) = Some (Some a, sm)"
      and d: "\<And>q d h. a = ProcessDataAfterDelay q d h \<Longrightarrow> \<not> judgeNameIsTrace (d_name d)" for a sm
  proof -
    let ?n = "n\<lparr>n_sim := sm\<rparr>"
    have l: "local_inv n" and env: "env_ok env" using assms by (auto simp: node_rel_env)
    note p = pop_inv [OF l pop] and P = plane_ok_pop [OF assms pop]
    have n: "node_inv env ?n" if "\<not> timer_act a"
      using p P(1) that by (cases a) (auto simp: node_rel_def timer_act_def)
    show ?thesis
    proof (cases a)
      case (ControllerRetryTimeout q s)
      then show ?thesis using p onControllerRetryTimeout_inv [of q ?n env] env by (fastforce simp: run_act_def)
    next
      case (AcceptControl m)
      then show ?thesis
        using node_control.acceptControl_keeps [OF env n P(2) [OF refl]] by (auto simp: run_act_def timer_act_def)
    next
      case (AttemptFlowMod m)
      then show ?thesis
        using node_control.attemptFlowMod_keeps [OF n P(2) [OF refl]] by (auto simp: run_act_def timer_act_def)
    next
      case (DeliverSyncAck m)
      then show ?thesis
        using node_control.deliverSyncAck_keeps [OF n P(2) [OF refl]] by (auto simp: run_act_def timer_act_def)
    next
      case (ProcessDataAfterDelay q d' h)
      then show ?thesis
        using d by (simp add: run_act_def processDataAfterDelay_def Let_def case_prod_beta)
    qed (simp_all add: run_act_def)
  qed
  then show ?thesis using onReceiveRawPacket_returns by blast
qed

theorem only_trace_data_throws_witness:
  "(\<exists>n'. onReceiveRawPacket sample_env 5 sample_frame trace_node = Inr n') \<and>
   (\<exists>sm n'. ProcessOneEvent (n_sim lease_node) = Some (Some (ExpireEntryBySeq [] 1), sm) \<and>
      run_act sample_env (ExpireEntryBySeq [] 1) (lease_node\<lparr>n_sim := sm\<rparr>) = Inr n')"
proof -
  obtain sm where "ProcessOneEvent (n_sim lease_node) = Some (Some (ExpireEntryBySeq [] 1), sm)"
    by (simp add: lease_node_def Schedule_def sim_init_def ProcessOneEvent_def Let_def)
  then show ?thesis
    using only_trace_data_throws [OF lease_node_inv]
      only_trace_data_throws [OF node_start_inv [OF trace_node_start], of 5 sample_frame] by blast
qed

text \<open>Trace Data whose last component is not a sequence number throws out of the scheduled
  event, past the handler that \<^verbatim>\<open>onReceiveRawPacket\<close> has for malformed packets.\<close>

lemma malformed_trace_data_throws:
  assumes "judgeNameIsTrace (d_name d)" and "getTraceSequence (d_name d) = Inl e"
    and "fst (takeDataMatchPorts (d_name d) (en_pit (n_engine n))) \<noteq> {}"
    and "0 < saved_lifetime (d_name d) (en_pit (n_engine n))"
    and "validateRouteLifetime (us_to_ns (saved_lifetime (d_name d) (en_pit (n_engine n)))) (n_engine n) = Inr ()"
  shows "run_act env (ProcessDataAfterDelay inPort d h) n = Inl e"
proof -
  have "validateRouteLifetime l ((n_engine n)\<lparr>en_pit := pit\<rparr>) = validateRouteLifetime l (n_engine n)" for l pit
    by (simp add: validateRouteLifetime_def)
  then show ?thesis
    using assms by (simp add: run_act_def processDataAfterDelay_def handleTraceData_def Let_def case_prod_beta not_le)
qed

definition bad_trace :: name where
  "bad_trace = MakeTracePrefix [component_of_string ''rv''] [component_of_string ''alice''] @ [component_of_string ''x'']"

definition bad_trace_node :: node where
  "bad_trace_node = on_engine (\<lambda>e. e\<lparr>en_pit := fmupd bad_trace
     \<lparr>pe_interest = sample_interest\<lparr>i_name := bad_trace\<rparr>, pe_ingress = [new_ingress 0 sample_interest 3]\<rparr> fmempty\<rparr>)
     sample_node"

end
