(* ===== verification/Packet_Forwarding.thy ===== *)
theory Packet_Forwarding
  imports Route_Lifecycle
begin

text \<open>
  What a node transmits: the composition of the temporary FIB, the switch, the pending Interest
  table and the port table in the handlers of \<^verbatim>\<open>forwarding-engine.cpp\<close>.  \<open>out\<close> is the
  transmission of a frame on a port: nothing when no device has that port.
\<close>

section \<open>Transmissions\<close>

definition out :: "port \<Rightarrow> frame \<Rightarrow> node \<Rightarrow> (device \<times> frame) list" where
  "out pt f n = (case getDevice pt (en_ports (n_engine n)) of None \<Rightarrow> [] | Some dev \<Rightarrow> [(dev, f)])"

definition interest_frame :: "env \<Rightarrow> interest \<Rightarrow> node \<Rightarrow> frame" where
  "interest_frame env i n = \<lparr>fr_header = Serialize (header_of_name (e_hash env) (i_name i)),
     fr_payload = InterestPayload (i_name i) (nonce_bytes i n) (i_lifetime i)\<rparr>"

definition data_frame :: "env \<Rightarrow> data_packet \<Rightarrow> frame" where
  "data_frame env d = \<lparr>fr_header = Serialize ((header_of_name (e_hash env) (d_name d))
       \<lparr>m_switchId := (case d_hopCount d of Some c \<Rightarrow> ucast c | None \<Rightarrow> 0)\<rparr>),
     fr_payload = DataPayload (d_name d) (d_content d)\<rparr>"

lemma header_of_name_fields [simp]:
  "m_type (header_of_name hash n) = UNPROCESSED" "m_outPorts (header_of_name hash n) = 0"
  "m_switchId (header_of_name hash n) = 0"
  by (simp_all add: header_of_name_def computeNameHashes_def header_default_def)

lemma sendToPort_sent: "n_sent (sendToPort pt f n) = n_sent n @ out pt f n"
  by (simp add: sendToPort_def out_def split: option.splits)

lemma sendInterestToPort_sent:
  "n_sent (sendInterestToPort env pt i n) = n_sent n @ out pt (interest_frame env i n) n"
proof -
  have "(header_of_name (e_hash env) (i_name i))\<lparr>m_type := UNPROCESSED, m_outPorts := 0\<rparr> =
      header_of_name (e_hash env) (i_name i)"
    by (intro packet_header.equality) simp_all
  then show ?thesis
    unfolding sendInterestToPort_def Let_def sendToPort_sent interest_frame_def by (simp only: refl)
qed

lemma sendDataToPort_sent:
  "n_sent (sendDataToPort env pt d n) = n_sent n @ out pt (data_frame env d) n"
proof -
  have "(case d_hopCount d of
        Some c \<Rightarrow> (header_of_name (e_hash env) (d_name d))\<lparr>m_type := UNPROCESSED, m_outPorts := 0\<rparr>\<lparr>m_switchId := ucast c\<rparr>
      | None \<Rightarrow> (header_of_name (e_hash env) (d_name d))\<lparr>m_type := UNPROCESSED, m_outPorts := 0\<rparr>) =
      (header_of_name (e_hash env) (d_name d))\<lparr>m_switchId := (case d_hopCount d of Some c \<Rightarrow> ucast c | None \<Rightarrow> 0)\<rparr>"
    by (cases "d_hopCount d") (simp_all add: packet_header.equality)
  then show ?thesis
    unfolding sendDataToPort_def Let_def sendToPort_sent data_frame_def by (simp only: refl)
qed

lemma steer_telemetry_out [simp]:
  "n_sent (steer_telemetry u i n) = n_sent n"
  "en_ports (n_engine (steer_telemetry u i n)) = en_ports (n_engine n)"
  "en_store (n_engine (steer_telemetry u i n)) = en_store (n_engine n)"
  by (simp_all add: steer_telemetry_def Let_def)

lemma interest_out_cong:
  assumes "en_ports (n_engine n') = en_ports (n_engine n)" and "en_store (n_engine n') = en_store (n_engine n)"
  shows "out pt (interest_frame env i n') n' = out pt (interest_frame env i n) n"
  using assms by (simp add: out_def interest_frame_def nonce_bytes_def cong: option.case_cong)

lemma forward_on_sent:
  "n_sent (forward_on env inPort i u pt n) =
     n_sent n @ (if pt = inPort then [] else out pt (interest_frame env i n) n)"
proof -
  have "out pt (interest_frame env i (count_engine g (steer_telemetry u i n))) (count_engine g (steer_telemetry u i n)) =
      out pt (interest_frame env i n) n" for g
    by (rule interest_out_cong) simp_all
  then show ?thesis by (simp add: forward_on_def Let_def sendInterestToPort_sent)
qed

lemma fold_sendData_sent:
  "n_sent (fold (\<lambda>pt. sendDataToPort env pt d) ps n) =
     n_sent n @ concat (map (\<lambda>pt. out pt (data_frame env d) n) ps)"
proof (induction ps arbitrary: n)
  case (Cons pt ps)
  have "out q f (sendDataToPort env pt d n) = out q f n" for q f by (simp add: out_def)
  then show ?case using Cons by (simp add: sendDataToPort_sent)
qed simp

section \<open>Interests\<close>

text \<open>The second pass of an Interest through the switch, with the bitmap that the temporary FIB
  chose, or none.\<close>

definition steered :: "port set option \<Rightarrow> packet_header \<Rightarrow> packet_header" where
  "steered ports h = h\<lparr>m_type := INTEREST,
     m_outPorts := (case ports of Some ps \<Rightarrow> encodeOutPortsMask ps | None \<Rightarrow> 0)\<rparr>"

definition temporary_ports :: "interest \<Rightarrow> node \<Rightarrow> port set option" where
  "temporary_ports i n =
     (if en_enableTemporaryFib (n_engine n)
      then map_option entry_hop_ports (fst (findLongestPrefix (node_now n) (i_name i) (lc_fib (n_local n))))
      else None)"

lemma interest_pass:
  assumes "temporary_ports i n \<noteq> Some {}"
  shows "\<exists>l u. processInterestAfterDelay env inPort i h n =
    (let pass2 = processPacket (node_now n) (steered (temporary_ports i n) h) (n_switch n);
         n' = (on_local l n)\<lparr>n_switch := snd pass2\<rparr>
     in if pr_dropped (fst pass2) \<or> pr_outputPorts (fst pass2) = {}
        then count_engine (noRouteRejections_update incr) (count_engine (statimLookupMisses_update incr) n')
        else fold (forward_on env inPort i u) (sorted_list_of_set (pr_outputPorts (fst pass2))) n')"
proof -
  let ?f = "findLongestPrefix (node_now n) (i_name i) (lc_fib (n_local n))"
  let ?l = "\<lambda>l. l\<lparr>lc_fib := snd ?f\<rparr>" and ?u = "case fst ?f of Some e \<Rightarrow> en_enableTemporaryFib (n_engine n) | None \<Rightarrow> False"
  show ?thesis
    by (intro exI [of _ ?l] exI [of _ ?u], cases "fst ?f"; cases "en_enableTemporaryFib (n_engine n)")
      (use assms in \<open>simp_all add: processInterestAfterDelay_def temporary_ports_def steered_def pipeline_def
        Let_def case_prod_beta\<close>)
qed

lemma interest_one_port:
  assumes "temporary_ports i n \<noteq> Some {}"
    and "fst (processPacket (node_now n) (steered (temporary_ports i n) h) (n_switch n)) =
      \<lparr>pr_matched = True, pr_packetIn = False, pr_dropped = False, pr_outputPorts = {pt}, pr_modifiedHeader = b\<rparr>"
  shows "n_sent (processInterestAfterDelay env inPort i h n) =
      n_sent n @ (if pt = inPort then [] else out pt (interest_frame env i n) n)"
  using interest_pass [OF assms(1), of env inPort h] assms(2)
    interest_out_cong [of "(on_local _ n)\<lparr>n_switch := _\<rparr>" n pt env i]
  by (auto simp: Let_def forward_on_sent)

lemma interest_no_port:
  assumes "temporary_ports i n \<noteq> Some {}"
    and "pr_dropped (fst (processPacket (node_now n) (steered (temporary_ports i n) h) (n_switch n)))"
  shows "n_sent (processInterestAfterDelay env inPort i h n) = n_sent n \<and>
    noRouteRejections (en_counters (n_engine (processInterestAfterDelay env inPort i h n))) =
      incr (noRouteRejections (en_counters (n_engine n)))"
  using interest_pass [OF assms(1), of env inPort h] assms(2) by (auto simp: Let_def)

lemma temporary_ports_live:
  assumes "en_enableTemporaryFib (n_engine n)"
    and "fmlookup (lc_fib (n_local n)) p = Some (single_hop p pt d)" and "node_now n < d"
    and "prefix p (i_name i)"
    and "\<And>q. prefix q (i_name i) \<Longrightarrow> length p < length q \<Longrightarrow> live_view (node_now n) (lc_fib (n_local n)) q = None"
  shows "temporary_ports i n = Some {pt}"
proof -
  have "live_view (node_now n) (lc_fib (n_local n)) p = Some (single_hop p pt d)"
    using assms(2,3) by (simp add: live_view_def live_hops_single_hop) (simp add: single_hop_def)
  then have "fst (findLongestPrefix (node_now n) (i_name i) (lc_fib (n_local n))) = Some (single_hop p pt d)"
    unfolding findLongestPrefix_view using assms(4,5) by blast
  moreover have "entry_hop_ports (single_hop p pt d) = {pt}"
  proof -
    have "set (fmentries (m_nextHops (single_hop p pt d))) = {(pt, \<lparr>nh_port = pt, nh_deadline = d\<rparr>)}"
      by (auto simp: set_fmentries single_hop_def split: if_splits)
    then show ?thesis by (simp add: entry_hop_ports_def)
  qed
  ultimately show ?thesis using assms(1) by (simp add: temporary_ports_def)
qed

lemma temporary_ports_none:
  "(\<And>p. prefix p (i_name i) \<Longrightarrow> live_view (node_now n) (lc_fib (n_local n)) p = None) \<Longrightarrow> temporary_ports i n = None"
  using findLongestPrefix_None [of "node_now n" "i_name i" "lc_fib (n_local n)"]
  by (simp add: temporary_ports_def)


text \<open>A node with three devices, and one that also has a flow-table route to port 2.\<close>

definition wired :: "node \<Rightarrow> node" where
  "wired = on_engine (\<lambda>e. e\<lparr>en_ports := snd (addDevice 13 (snd (addDevice 12 (snd (addDevice 11 (en_ports e))))))\<rparr>)"

lemma wired_frame [simp]:
  "n_local (wired n) = n_local n" "n_sim (wired n) = n_sim n" "n_switch (wired n) = n_switch n"
  "n_sent (wired n) = n_sent n" "en_enableTemporaryFib (n_engine (wired n)) = en_enableTemporaryFib (n_engine n)"
  "en_pit (n_engine (wired n)) = en_pit (n_engine n)" "en_cs (n_engine (wired n)) = en_cs (n_engine n)"
  by (simp_all add: wired_def)

lemma wired_inv: "node_inv env n \<Longrightarrow> node_inv env (wired n)"
  unfolding wired_def by (rule node_rel_engine) (simp_all add: node_rel_env engine_ok_def)

lemma wired_device:
  assumes "en_ports (n_engine n) = ports_new"
  shows "getDevice 1 (en_ports (n_engine (wired n))) = Some 11" "getDevice 2 (en_ports (n_engine (wired n))) = Some 12"
    "getDevice 3 (en_ports (n_engine (wired n))) = Some 13"
  using assms by (simp_all add: wired_def addDevice_def getDevice_def ports_new_def)

lemma lease_node_simps:
  "node_now lease_node = 0" "n_sent lease_node = []" "n_engine lease_node = engine_new"
  "fmlookup (lc_fib (n_local lease_node)) q = (if q = [] then Some (single_hop [] 3 5) else None)"
  "n_switch lease_node = sample_switch"
  by (simp_all add: lease_node_def) (simp add: Now_def sim_init_def)


text \<open>When no prefix of its name has a live temporary hop, an Interest leaves the node on the port
  of the live flow-table route with the longest prefix that covers the hash tuple of its name,
  unless it came from there.\<close>

lemma interest_follows_flow_table:
  assumes "node_inv env n" and "m_nameHashes h = nameHashesOf (e_hash env) (i_name i)"
    and "\<And>p. prefix p (i_name i) \<Longrightarrow> live_view (node_now n) (lc_fib (n_local n)) p = None"
    and "has_route (fib_entries (n_switch n)) hs pt x" and "live (node_now n) x" and "covers hs (m_nameHashes h)"
    and "\<And>hs' p' x'. has_route (fib_entries (n_switch n)) hs' p' x' \<Longrightarrow> live (node_now n) x' \<Longrightarrow>
       covers hs' (m_nameHashes h) \<Longrightarrow> match_len hs' \<le> match_len hs"
  shows "n_sent (processInterestAfterDelay env inPort i h n) =
    n_sent n @ (if pt = inPort then [] else out pt (interest_frame env i n) n)"
proof -
  have none: "temporary_ports i n = None" by (rule temporary_ports_none [OF assms(3)])
  have sw: "switch_ok (n_switch n)" using assms(1) by (simp add: node_rel_env)
  show ?thesis
    using fib_pass [OF sw, of "steered None h" hs pt x "node_now n"] assms(2,4-7) none
    by (intro interest_one_port) (simp_all add: steered_def uses_fib_def)
qed

definition routed_node :: node where
  "routed_node = wired (sample_node\<lparr>n_switch := installFibEntry stable_sort sample_hashes 2 100 sample_switch\<rparr>)"

lemma routed_node_inv: "node_inv sample_env routed_node"
  unfolding routed_node_def
  by (intro wired_inv node_rel_switch sample_node_inv stable.installFibEntry_ok(1) sample_switch_ok sample_hashes_ok)

lemma routed_node_route:
  "has_route (fib_entries (n_switch routed_node)) hs p x \<longleftrightarrow> hs = sample_hashes \<and> p = 2 \<and> x = 100"
proof -
  have "has_route (fib_entries (installFibEntry stable_sort sample_hashes 2 100 sample_switch)) hs p x \<longleftrightarrow>
      hashes_ok hs \<and> fib_entry hs p x = fib_entry sample_hashes 2 100"
    using stable.installFibEntry_ok(2) [OF sample_switch_ok sample_hashes_ok, of 2 100] sample_no_route
    by (auto simp: has_route_def)
  then show ?thesis
    using fib_entry_inject [OF _ sample_hashes_ok, of hs p x 2 100] sample_hashes_ok
    by (auto simp: routed_node_def max_def split: if_splits)
qed

definition covered_interest :: interest where
  "covered_interest = \<lparr>i_name = [component_of_string ''a'', component_of_string ''ab'', component_of_string ''c''],
     i_nonce = None, i_lifetime = 2000\<rparr>"

lemma covered_hashes: "nameHashesOf (e_hash sample_env) (i_name covered_interest) = [1, 2, 1, 0xff]"
  by (simp add: covered_interest_def nameHashesOf_def computeComponentHash_def sample_env_def upt_4
      component_of_string_def component_toUri_def bytes_of_def uri_escape_def uri_plain_def char_of_def)

text \<open>With neither a live temporary route nor a live flow-table route that covers its name, an
  Interest is not transmitted and is counted as rejected.\<close>

lemma interest_without_route_rejected:
  assumes "node_inv env n" and "m_nameHashes h = nameHashesOf (e_hash env) (i_name i)"
    and "\<And>p. prefix p (i_name i) \<Longrightarrow> live_view (node_now n) (lc_fib (n_local n)) p = None"
    and "\<And>hs p x. has_route (fib_entries (n_switch n)) hs p x \<Longrightarrow> live (node_now n) x \<Longrightarrow> \<not> covers hs (m_nameHashes h)"
  shows "n_sent (processInterestAfterDelay env inPort i h n) = n_sent n \<and>
    noRouteRejections (en_counters (n_engine (processInterestAfterDelay env inPort i h n))) =
      incr (noRouteRejections (en_counters (n_engine n)))"
proof -
  have none: "temporary_ports i n = None" by (rule temporary_ports_none [OF assms(3)])
  have sw: "switch_ok (n_switch n)" using assms(1) by (simp add: node_rel_env)
  show ?thesis
    using miss_pass [OF sw, of "steered None h" "node_now n"] assms(2,4) none
    by (intro interest_no_port) (simp_all add: steered_def uses_fib_def)
qed

text \<open>C40. A temporary route whose port has no bit in the bitmap does not steer: the Interest is looked
  up in the flow tables, and still counted as a transmission of the temporary FIB.\<close>

theorem wide_port_not_steered:
  assumes "node_inv env n" and "m_nameHashes h = nameHashesOf (e_hash env) (i_name i)"
    and "en_enableTemporaryFib (n_engine n)"
    and "fmlookup (lc_fib (n_local n)) p = Some (single_hop p pt d)" and "node_now n < d" and "32 < pt"
    and "prefix p (i_name i)"
    and "\<And>q. prefix q (i_name i) \<Longrightarrow> length p < length q \<Longrightarrow> live_view (node_now n) (lc_fib (n_local n)) q = None"
    and "has_route (fib_entries (n_switch n)) hs ft x" and "live (node_now n) x" and "covers hs (m_nameHashes h)"
    and "\<And>hs' p' x'. has_route (fib_entries (n_switch n)) hs' p' x' \<Longrightarrow> live (node_now n) x' \<Longrightarrow>
       covers hs' (m_nameHashes h) \<Longrightarrow> match_len hs' \<le> match_len hs"
    and "ft \<noteq> inPort"
  shows "n_sent (processInterestAfterDelay env inPort i h n) = n_sent n @ out ft (interest_frame env i n) n \<and>
    temporaryFibInterestTransmissions (en_counters (n_engine (processInterestAfterDelay env inPort i h n))) =
      incr (temporaryFibInterestTransmissions (en_counters (n_engine n)))"
proof -
  have ports: "temporary_ports i n = Some {pt}" by (rule temporary_ports_live [OF assms(3-5,7,8)])
  have sw: "switch_ok (n_switch n)" using assms(1) by (simp add: node_rel_env)
  have mask: "encodeOutPortsMask {pt} = 0" using assms(6) by (simp add: encodeOutPortsMask_eq_0 not_le)
  have pass: "fst (processPacket (node_now n) (h\<lparr>m_type := INTEREST, m_outPorts := 0\<rparr>) (n_switch n)) =
      \<lparr>pr_matched = True, pr_packetIn = False, pr_dropped = False, pr_outputPorts = {ft},
       pr_modifiedHeader = (Serialize (h\<lparr>m_type := INTEREST, m_outPorts := 0\<rparr>))[0 := 0]\<rparr>"
    by (rule fib_pass [OF sw]) (use assms in \<open>simp_all add: uses_fib_def\<close>)
  have sent: "n_sent (processInterestAfterDelay env inPort i h n) = n_sent n @ out ft (interest_frame env i n) n"
    using interest_one_port [of i n h ft _ env inPort] ports pass mask assms(13) by (simp add: steered_def)
  obtain e where e: "fst (findLongestPrefix (node_now n) (i_name i) (lc_fib (n_local n))) = Some e"
    "entry_hop_ports e = {pt}"
    using ports assms(3) by (auto simp: temporary_ports_def)
  have tel: "temporaryFibInterestTransmissions (en_counters (n_engine (steer_telemetry u j m))) =
      temporaryFibInterestTransmissions (en_counters (n_engine m))" for u j m
    by (simp add: steer_telemetry_def Let_def)
  show ?thesis
    using sent e pass mask assms(3,13)
    by (simp add: processInterestAfterDelay_def Let_def case_prod_beta pipeline_def forward_on_def tel)
qed

definition wide_node :: node where
  "wide_node = on_local (\<lambda>l. l\<lparr>lc_fib := fmupd [] (single_hop [] 40 TimePoint_max) fmempty,
     lc_seqMap := fmupd [] 1 fmempty, lc_routeExpiries := fmupd [] 0 fmempty\<rparr>) routed_node"

lemma wide_node_inv: "node_inv sample_env wide_node"
proof -
  have "plane_ok sample_env wide_node"
    unfolding wide_node_def by (rule plane_ok_local) (use routed_node_inv in \<open>simp_all add: node_rel_def\<close>)
  moreover have "sim_ok (n_sim wide_node)" "0 \<le> node_now wide_node" "live_timers (n_sim wide_node) = {}"
    by (simp_all add: wide_node_def routed_node_def sim_ok_init) (simp add: Now_def sim_init_def)
  ultimately show ?thesis
    by (auto simp: node_rel_def linv_defs wide_node_def routed_node_def local_new_def deadline_of_def split: if_splits)
qed

theorem wide_port_not_steered_witness:
  "n_sent (processInterestAfterDelay sample_env 1 covered_interest
     (header_of_name (e_hash sample_env) (i_name covered_interest)) wide_node) =
   [(12, interest_frame sample_env covered_interest wide_node)]"
proof -
  let ?h = "header_of_name (e_hash sample_env) (i_name covered_interest)"
  have fib: "fmlookup (lc_fib (n_local wide_node)) q = (if q = [] then Some (single_hop [] 40 TimePoint_max) else None)" for q
    by (simp add: wide_node_def)
  have view: "live_view now (lc_fib (n_local wide_node)) q = None" if "0 < length q" for q now
    using that by (auto simp: live_view_def fib)
  have cov: "covers sample_hashes [1, 2, 1, 0xff]" by (auto simp: covers_def sample_hashes_def below_4)
  have now: "node_now wide_node = 0" "n_sent wide_node = []" "n_switch wide_node = n_switch routed_node"
    "n_engine wide_node = n_engine routed_node" "en_enableTemporaryFib (n_engine routed_node)"
    by (simp_all add: wide_node_def routed_node_def Now_def sim_init_def engine_new_def)
  have dev: "getDevice 2 (en_ports (n_engine routed_node)) = Some 12"
    unfolding routed_node_def by (rule wired_device) (simp add: engine_new_def)
  have "0 < TimePoint_max" by (simp add: TimePoint_max_def)
  then show ?thesis
    using wide_port_not_steered [OF wide_node_inv, of ?h covered_interest "[]" 40 TimePoint_max sample_hashes 2 100 1]
    by (simp add: covered_hashes routed_node_route live_def out_def fib view cov now dev)
qed

section \<open>Data\<close>

lemma fold_sendData_frame:
  "n_engine (fold (\<lambda>pt. sendDataToPort env pt d) ps n) = n_engine n \<and>
   n_central (fold (\<lambda>pt. sendDataToPort env pt d) ps n) = n_central n \<and>
   n_switch (fold (\<lambda>pt. sendDataToPort env pt d) ps n) = n_switch n"
  by (induction ps arbitrary: n) (simp_all add: sendDataToPort_def sendToPort_def Let_def split: option.splits)

lemma processPacket_tables: "sw_tables (snd (processPacket now h sw)) = sw_tables sw"
  by (simp add: processPacket_def processPacketBuf_def Let_def split: option.splits if_splits)

lemma sendData_keeps:
  "n_engine (sendData env d h ports n) = n_engine n" "n_central (sendData env d h ports n) = n_central n"
  "fib_entries (n_switch (sendData env d h ports n)) = fib_entries (n_switch n)"
  by (simp_all add: sendData_def pipeline_def Let_def case_prod_beta fold_sendData_frame
      processPacket_tables fib_entries_def)

lemma sendData_sent:
  assumes "switch_ok (n_switch n)" and "finite ports"
  shows "n_sent (sendData env d h ports n) =
    n_sent n @ concat (map (\<lambda>pt. out pt (data_frame env d) n) (sorted_list_of_set {pt \<in> ports. 1 \<le> pt \<and> pt \<le> 32}))"
proof -
  let ?h = "(computeNameHashes (e_hash env) (d_name d) h)\<lparr>m_type := DATA, m_outPorts := encodeOutPortsMask ports\<rparr>"
  let ?r = "processPacket (node_now n) ?h (n_switch n)"
  have pass: "fst ?r = \<lparr>pr_matched = True, pr_packetIn = False, pr_dropped = (encodeOutPortsMask ports = 0),
      pr_outputPorts = {pt \<in> ports. 1 \<le> pt \<and> pt \<le> 32}, pr_modifiedHeader = (Serialize ?h)[0 := 0]\<rparr>"
    using bitmap_pass [OF assms(1), of ?h "node_now n"] mask_ports_encode [OF assms(2)]
    by (simp add: uses_bitmap_def)
  have none: "encodeOutPortsMask ports = 0 \<longleftrightarrow> {pt \<in> ports. 1 \<le> pt \<and> pt \<le> 32} = {}"
    using encodeOutPortsMask_eq_0 [OF assms(2)] by auto
  have "out pt f (n\<lparr>n_switch := sw\<rparr>) = out pt f n" for pt f sw by (simp add: out_def)
  then show ?thesis
    unfolding sendData_def Let_def pipeline_def case_prod_beta
    by (auto simp: pass none fold_sendData_sent)
qed

text \<open>C9. Data that answers no Trace Interest is transmitted, in ascending order of the ports, on
  exactly the ports from which the pending Interests that it satisfies arrived, as far as they
  have a bit in the bitmap and a device; it consumes those Interests and touches no route.
  Unsolicited Data is not transmitted.\<close>

theorem data_returned_to_requesters:
  assumes "node_inv env n" and "\<not> judgeNameIsTrace (d_name d)"
  shows "\<exists>n'. processDataAfterDelay env inPort d h n = Inr n' \<and>
    n_sent n' = n_sent n @ concat (map (\<lambda>pt. out pt (data_frame env d) n)
      (sorted_list_of_set {pt. 1 \<le> pt \<and> pt \<le> 32 \<and>
         (\<exists>k e. prefix k (d_name d) \<and> fmlookup (en_pit (n_engine n)) k = Some e \<and> pt \<in> entry_ports e)})) \<and>
    en_pit (n_engine n') = fmfilter (\<lambda>k. \<not> prefix k (d_name d)) (en_pit (n_engine n)) \<and>
    n_local n' = n_local n \<and> n_central n' = n_central n \<and> fib_entries (n_switch n') = fib_entries (n_switch n)"
proof -
  let ?ports = "fst (takeDataMatchPorts (d_name d) (en_pit (n_engine n)))"
  let ?S = "{pt. 1 \<le> pt \<and> pt \<le> 32 \<and>
         (\<exists>k e. prefix k (d_name d) \<and> fmlookup (en_pit (n_engine n)) k = Some e \<and> pt \<in> entry_ports e)}"
  have S: "{pt \<in> ?ports. 1 \<le> pt \<and> pt \<le> 32} = ?S" by (auto simp: takeDataMatchPorts_eq)
  obtain cs pos where cs: "cs_insert (e_rands env) (en_randPos (n_engine n)) d (en_cs (n_engine n)) = (pos, cs)"
    by (meson surj_pair)
  define m where "m = on_engine (\<lambda>e. e\<lparr>en_pit := snd (takeDataMatchPorts (d_name d) (en_pit (n_engine n)))\<rparr>) n"
  define m' where "m' = on_engine (\<lambda>e. e\<lparr>en_cs := cs, en_randPos := pos\<rparr>) m"
  have run: "processDataAfterDelay env inPort d h n = Inr (if ?ports = {} then m else sendData env d h ?ports m')"
    using assms(2) cs by (simp add: processDataAfterDelay_def Let_def case_prod_beta m_def m'_def)
  have sw: "switch_ok (n_switch m')" using assms(1) by (simp add: node_rel_env m_def m'_def)
  have "out pt f m' = out pt f n" for pt f by (simp add: out_def m_def m'_def)
  then have sent: "n_sent (sendData env d h ?ports m') =
      n_sent n @ concat (map (\<lambda>pt. out pt (data_frame env d) n) (sorted_list_of_set ?S))"
    using sendData_sent [OF sw finite_return_ports, of env d h "d_name d" "en_pit (n_engine n)"]
    unfolding S by (simp only:) (simp add: m_def m'_def)
  have pit: "snd (takeDataMatchPorts (d_name d) (en_pit (n_engine n))) =
      fmfilter (\<lambda>k. \<not> prefix k (d_name d)) (en_pit (n_engine n))" by (simp add: takeDataMatchPorts_eq)
  show ?thesis
  proof (cases "?ports = {}")
    case True
    then have "?S = {}" using S by auto
    then show ?thesis unfolding run by (simp only: True if_True) (simp add: m_def pit)
  next
    case False
    then show ?thesis unfolding run using sent by (simp add: sendData_keeps) (simp add: m_def m'_def pit)
  qed
qed

text \<open>A node that waits for data on ports 1 and 3.\<close>

definition requested :: interest where
  "requested = \<lparr>i_name = [component_of_string ''a''], i_nonce = None, i_lifetime = 2000\<rparr>"

definition requested_node :: node where
  "requested_node = wired (on_engine (\<lambda>e. e\<lparr>en_pit := fmupd (i_name requested) \<lparr>pe_interest = requested,
     pe_ingress = [new_ingress 0 requested 3, new_ingress 0 requested 1]\<rparr> fmempty\<rparr>) sample_node)"

lemma requested_node_inv: "node_inv sample_env requested_node"
  unfolding requested_node_def
  by (intro wired_inv node_rel_engine [OF sample_node_inv])
    (simp add: engine_ok_def pit_ok_def engine_new_def cs_ok_new)

theorem data_returned_to_requesters_witness:
  "let d = \<lparr>d_name = [component_of_string ''a'', component_of_string ''b''], d_content = [], d_hopCount = None\<rparr> in
   \<exists>n'. processDataAfterDelay sample_env 2 d header_default requested_node = Inr n' \<and>
     n_sent n' = [(11, data_frame sample_env d), (13, data_frame sample_env d)]"
proof -
  let ?d = "\<lparr>d_name = [component_of_string ''a'', component_of_string ''b''], d_content = [], d_hopCount = None\<rparr>"
  have pit: "fmlookup (en_pit (n_engine requested_node)) k =
      (if k = i_name requested then Some \<lparr>pe_interest = requested,
         pe_ingress = [new_ingress 0 requested 3, new_ingress 0 requested 1]\<rparr> else None)" for k
    by (simp add: requested_node_def)
  have S: "{pt. 1 \<le> pt \<and> pt \<le> 32 \<and> (\<exists>k e. prefix k (d_name ?d) \<and>
      fmlookup (en_pit (n_engine requested_node)) k = Some e \<and> pt \<in> entry_ports e)} = {1, 3}"
    by (auto simp: pit entry_ports_def new_ingress_def requested_def split: if_splits)
  have ports: "en_ports (n_engine (on_engine (\<lambda>e. e\<lparr>en_pit := m\<rparr>) sample_node)) = ports_new" for m
    by (simp add: engine_new_def)
  have "\<not> judgeNameIsTrace (d_name ?d)" by (simp add: judgeNameIsTrace_def)
  from data_returned_to_requesters [OF requested_node_inv this, of 2 header_default]
  have "\<exists>n'. processDataAfterDelay sample_env 2 ?d header_default requested_node = Inr n' \<and>
      n_sent n' = n_sent requested_node @ concat (map (\<lambda>pt. out pt (data_frame sample_env ?d) requested_node)
        (sorted_list_of_set {1, 3}))"
    unfolding S by blast
  moreover have "n_sent requested_node = []" by (simp add: requested_node_def)
  ultimately show ?thesis
    using wired_device [OF ports] by (simp add: out_def requested_node_def)
qed

lemma accept_new:
  assumes "fmlookup (en_pit (n_engine n)) (i_name i) = None" and "cs_find (i_name i) (en_cs (n_engine n)) = None"
  shows "\<exists>n1. processStatefulInterest env a i h n = (None, n1) \<and>
    fmlookup (en_pit (n_engine n1)) (i_name i) = Some \<lparr>pe_interest = i, pe_ingress = [new_ingress (node_now n) i a]\<rparr> \<and>
    en_ports (n_engine n1) = en_ports (n_engine n)"
  by (cases "en_telemetry (n_engine n)"; cases "judgeNameIsTrace (i_name i)")
    (use assms in \<open>simp_all add: processStatefulInterest_def pit_insert_def Let_def\<close>)



end
