(* ===== verification/Seamless_Completion.thy ===== *)
theory Seamless_Completion
  imports Packet_Forwarding
begin

text \<open>
  The hand-over from the temporary route to the permanent one.  A SyncAck makes the local
  controller drop the temporary route of its prefix.  Shown here, with the generation guards of
  both controllers: whatever was lost, delayed, reordered or retried before, at that moment the
  switch already routes the hash tuple of the prefix to the port of the temporary route, until
  the same deadline.
\<close>

section \<open>What the node knows of its messages\<close>

text \<open>The generation of a message has been seen, and the temporary route of that generation, if it is
  still there, has the port of the message.\<close>

definition msg_known :: "env \<Rightarrow> local_controller \<Rightarrow> control_message \<Rightarrow> bool" where
  "msg_known env l m \<longleftrightarrow> msg_ok env m \<and>
     (\<exists>h. fmlookup (lc_highestSeenSeq l) (cm_prefix m) = Some h \<and> cm_seq m \<le> h) \<and>
     (fmlookup (lc_seqMap l) (cm_prefix m) = Some (cm_seq m) \<longrightarrow>
        (\<forall>pt. hop_in (lc_fib l) (cm_prefix m) pt \<longrightarrow> pt = cm_outputPort m))"

text \<open>Generations that were seen before are not opened again.\<close>

definition local_progress :: "local_controller \<Rightarrow> local_controller \<Rightarrow> bool" where
  "local_progress l l' \<longleftrightarrow>
     (\<forall>p h. fmlookup (lc_highestSeenSeq l) p = Some h \<longrightarrow>
        (\<exists>h'. fmlookup (lc_highestSeenSeq l') p = Some h' \<and> h \<le> h') \<and>
        (\<forall>s pt. s \<le> h \<longrightarrow> fmlookup (lc_seqMap l') p = Some s \<longrightarrow> hop_in (lc_fib l') p pt \<longrightarrow>
           fmlookup (lc_seqMap l) p = Some s \<and> hop_in (lc_fib l) p pt))"

lemma local_progress_refl [simp]: "local_progress l l"
  by (auto simp: local_progress_def)

lemma local_progressD:
  assumes "local_progress l l'" and "fmlookup (lc_highestSeenSeq l) p = Some h"
  shows "\<exists>h'. fmlookup (lc_highestSeenSeq l') p = Some h' \<and> h \<le> h'"
    and "s \<le> h \<Longrightarrow> fmlookup (lc_seqMap l') p = Some s \<Longrightarrow> hop_in (lc_fib l') p pt \<Longrightarrow>
      fmlookup (lc_seqMap l) p = Some s \<and> hop_in (lc_fib l) p pt"
  using assms unfolding local_progress_def by blast+

lemma local_progress_trans:
  assumes "local_progress a b" and "local_progress b c"
  shows "local_progress a c"
  unfolding local_progress_def
proof (intro allI impI)
  fix p h assume h: "fmlookup (lc_highestSeenSeq a) p = Some h"
  then obtain h' where h': "fmlookup (lc_highestSeenSeq b) p = Some h'" "h \<le> h'"
    using local_progressD(1) [OF assms(1)] by blast
  then obtain h'' where h'': "fmlookup (lc_highestSeenSeq c) p = Some h''" "h' \<le> h''"
    using local_progressD(1) [OF assms(2)] by blast
  have "fmlookup (lc_seqMap a) p = Some s \<and> hop_in (lc_fib a) p pt"
    if "s \<le> h" "fmlookup (lc_seqMap c) p = Some s" "hop_in (lc_fib c) p pt" for s pt
  proof -
    have "fmlookup (lc_seqMap b) p = Some s \<and> hop_in (lc_fib b) p pt"
      using local_progressD(2) [OF assms(2) h'(1) order_trans [OF that(1) h'(2)] that(2,3)] .
    then show ?thesis using local_progressD(2) [OF assms(1) h] that(1) by blast
  qed
  then show "(\<exists>h'. fmlookup (lc_highestSeenSeq c) p = Some h' \<and> h \<le> h') \<and>
      (\<forall>s pt. s \<le> h \<longrightarrow> fmlookup (lc_seqMap c) p = Some s \<longrightarrow> hop_in (lc_fib c) p pt \<longrightarrow>
         fmlookup (lc_seqMap a) p = Some s \<and> hop_in (lc_fib a) p pt)"
    using h'(2) h'' by auto
qed

lemma local_quiet_progress: "local_quiet l l' \<Longrightarrow> local_progress l l'"
  by (auto simp: local_progress_def local_quiet_def)

lemma known_progress:
  assumes "msg_known env l m" and "local_progress l l'"
  shows "msg_known env l' m"
proof -
  obtain h where h: "fmlookup (lc_highestSeenSeq l) (cm_prefix m) = Some h" "cm_seq m \<le> h"
    using assms(1) by (auto simp: msg_known_def)
  then obtain h' where h': "fmlookup (lc_highestSeenSeq l') (cm_prefix m) = Some h'" "h \<le> h'"
    using local_progressD(1) [OF assms(2)] by blast
  have "pt = cm_outputPort m"
    if "fmlookup (lc_seqMap l') (cm_prefix m) = Some (cm_seq m)" "hop_in (lc_fib l') (cm_prefix m) pt" for pt
    using local_progressD(2) [OF assms(2) h that] assms(1) by (auto simp: msg_known_def)
  with assms(1) h(2) h' show ?thesis by (auto simp: msg_known_def)
qed

text \<open>A SyncAck on its way confirms an applied generation.\<close>

definition ack_ok :: "(name, prefix_state) fmap \<Rightarrow> control_message \<Rightarrow> bool" where
  "ack_ok sts m \<longleftrightarrow>
     (\<exists>st. fmlookup sts (cm_prefix m) = Some st \<and> ps_hasApplied st \<and>
        (cm_seq m < ps_highestApplied st \<or>
         cm_seq m = ps_highestApplied st \<and> sameUpdate m (ps_appliedMessage st)))"

lemma ack_ok_le:
  assumes "ack_ok sts m" and "states_le sts sts'"
  shows "ack_ok sts' m"
proof -
  obtain st where st: "fmlookup sts (cm_prefix m) = Some st" "ps_hasApplied st"
    "cm_seq m < ps_highestApplied st \<or> cm_seq m = ps_highestApplied st \<and> sameUpdate m (ps_appliedMessage st)"
    using assms(1) by (auto simp: ack_ok_def)
  then obtain st' where st': "fmlookup sts' (cm_prefix m) = Some st'" "state_le st st'"
    using assms(2) by (auto simp: states_le_def)
  then show ?thesis
    using st by (cases "ps_highestApplied st' = ps_highestApplied st") (auto simp: ack_ok_def state_le_defs)
qed

text \<open>The update that was applied last for a prefix is in the switch, unless another prefix with the same
  hash tuple has been applied too.\<close>

definition applied_update :: "(name, prefix_state) fmap \<Rightarrow> name \<Rightarrow> control_message option" where
  "applied_update sts p =
     (case fmlookup sts p of
        Some st \<Rightarrow> if ps_hasApplied st then Some (ps_appliedMessage st) else None
      | None \<Rightarrow> None)"

definition only_owner :: "(name, prefix_state) fmap \<Rightarrow> name \<Rightarrow> byte list \<Rightarrow> bool" where
  "only_owner sts p hs \<longleftrightarrow> (\<forall>q m. applied_update sts q = Some m \<longrightarrow> q \<noteq> p \<longrightarrow> cm_nameHashes m \<noteq> hs)"

definition routes_kept :: "(name, prefix_state) fmap \<Rightarrow> switch \<Rightarrow> bool" where
  "routes_kept sts sw \<longleftrightarrow> (\<forall>p m. applied_update sts p = Some m \<longrightarrow> only_owner sts p (cm_nameHashes m) \<longrightarrow>
     has_route (fib_entries sw) (cm_nameHashes m) (cm_outputPort m) (cm_routeExpiry m))"

definition state_messages :: "prefix_state \<Rightarrow> control_message set" where
  "state_messages st = {m. ps_hasAccepted st \<and> m = ps_acceptedMessage st \<or>
     ps_hasApplied st \<and> m = ps_appliedMessage st}"

definition messages :: "node \<Rightarrow> control_message set" where
  "messages n = {m. \<exists>a i. (a, i) \<in> live_timers (n_sim n) \<and> act_msg a = Some m} \<union>
     {m. \<exists>p r. fmlookup (lc_pending (n_local n)) p = Some r \<and> m = pq_msg r} \<union>
     {m. \<exists>p st. fmlookup (states n) p = Some st \<and> m \<in> state_messages st}"

definition acks :: "node \<Rightarrow> control_message set" where
  "acks n = {m. \<exists>i. (DeliverSyncAck m, i) \<in> live_timers (n_sim n)}"

definition fib_owned :: "local_controller \<Rightarrow> bool" where
  "fib_owned l \<longleftrightarrow> (\<forall>p pt. hop_in (lc_fib l) p pt \<longrightarrow> fmlookup (lc_seqMap l) p \<noteq> None)"

definition seam_ok :: "env \<Rightarrow> node \<Rightarrow> bool" where
  "seam_ok env n \<longleftrightarrow> priority_sorter (e_sort env) \<and> switch_ok (n_switch n) \<and> lc_guard (n_local n) \<and>
     generations_ok n \<and> fib_owned (n_local n) \<and> (\<forall>m \<in> messages n. msg_known env (n_local n) m) \<and>
     (\<forall>m \<in> acks n. ack_ok (states n) m) \<and> routes_kept (states n) (n_switch n)"

definition seam :: "env \<Rightarrow> node \<Rightarrow> node \<Rightarrow> bool" where
  "seam env n n' \<longleftrightarrow> (seam_ok env n \<longrightarrow> seam_ok env n' \<and>
     local_progress (n_local n) (n_local n') \<and> states_le (states n) (states n'))"

lemma seam_trans: "seam env a b \<Longrightarrow> seam env b c \<Longrightarrow> seam env a c"
  unfolding seam_def using local_progress_trans states_le_trans by blast

lemma seam_refl: "seam env n n"
  by (simp add: seam_def)

text \<open>What a change has to give.\<close>

lemma seamI:
  assumes "advances n n'"
    and "seam_ok env n \<Longrightarrow> local_progress (n_local n) (n_local n') \<and> lc_guard (n_local n') \<and> fib_owned (n_local n')"
    and "seam_ok env n \<Longrightarrow> switch_ok (n_switch n') \<and> routes_kept (states n') (n_switch n')"
    and "seam_ok env n \<Longrightarrow> \<forall>m \<in> messages n' - messages n. msg_known env (n_local n') m"
    and "seam_ok env n \<Longrightarrow> \<forall>m \<in> acks n' - acks n. ack_ok (states n') m"
  shows "seam env n n'"
  unfolding seam_def
proof (intro impI)
  assume ok: "seam_ok env n"
  have g: "generations_ok n'" "states_le (states n) (states n')"
    using assms(1) ok by (auto simp: advances_def seam_ok_def)
  have p: "local_progress (n_local n) (n_local n')" using assms(2) [OF ok] by simp
  have "msg_known env (n_local n') m" if "m \<in> messages n'" for m
    using assms(4) [OF ok] that ok p known_progress by (cases "m \<in> messages n") (auto simp: seam_ok_def)
  moreover have "ack_ok (states n') m" if "m \<in> acks n'" for m
    using assms(5) [OF ok] that ok g(2) ack_ok_le by (cases "m \<in> acks n") (auto simp: seam_ok_def)
  ultimately show "seam_ok env n' \<and> local_progress (n_local n) (n_local n') \<and> states_le (states n) (states n')"
    using ok g p assms(2,3) [OF ok] by (simp add: seam_ok_def)
qed

lemma local_quiet_owned: "local_quiet l l' \<Longrightarrow> fib_owned l \<Longrightarrow> fib_owned l'"
  unfolding local_quiet_def fib_owned_def by metis

text \<open>Changes outside the switch and the generation table.\<close>

lemma seam_frame:
  assumes "advances n n'" and "states n' = states n" and "sw_tables (n_switch n') = sw_tables (n_switch n)"
    and "local_quiet (n_local n) (n_local n')"
    and "seam_ok env n \<Longrightarrow> \<forall>m \<in> messages n' - messages n. msg_known env (n_local n') m"
    and "seam_ok env n \<Longrightarrow> \<forall>m \<in> acks n' - acks n. ack_ok (states n') m"
  shows "seam env n n'"
proof (rule seamI [OF assms(1) _ _ assms(5,6)])
  assume ok: "seam_ok env n"
  show "local_progress (n_local n) (n_local n') \<and> lc_guard (n_local n') \<and> fib_owned (n_local n')"
    using ok local_quiet_progress [OF assms(4)] local_quiet_owned [OF assms(4)] assms(4)
    by (simp add: seam_ok_def local_quiet_def)
  show "switch_ok (n_switch n') \<and> routes_kept (states n') (n_switch n')"
    using ok assms(2,3)
    by (simp add: seam_ok_def switch_ok_def routes_kept_def fib_entries_def)
qed

lemma messages_schedule:
  "messages (snd (node_schedule d a n)) = messages n \<union> {m. act_msg a = Some m}"
  by (auto simp: messages_def live_timers_Schedule)

lemma messages_sim:
  "live_timers (n_sim n') \<subseteq> live_timers (n_sim n) \<Longrightarrow> n_local n' = n_local n \<Longrightarrow> states n' = states n \<Longrightarrow>
   messages n' \<subseteq> messages n"
  by (fastforce simp: messages_def)

lemma messages_local: "local_quiet (n_local n) (f (n_local n)) \<Longrightarrow> messages (on_local f n) \<subseteq> messages n"
  by (fastforce simp: messages_def local_quiet_def)

lemma messages_same [simp]:
  "messages (on_engine g n) = messages n" "messages (n\<lparr>n_switch := sw\<rparr>) = messages n"
  "messages (n\<lparr>n_sent := fs\<rparr>) = messages n"
  by (simp_all add: messages_def)

lemma acks_schedule: "acks (snd (node_schedule d a n)) = acks n \<union> {m. a = DeliverSyncAck m}"
  by (auto simp: acks_def live_timers_Schedule)

lemma acks_sim: "live_timers (n_sim n') \<subseteq> live_timers (n_sim n) \<Longrightarrow> acks n' \<subseteq> acks n"
  by (auto simp: acks_def)

lemma acks_same [simp]:
  "acks (on_local f n) = acks n" "acks (on_engine g n) = acks n" "acks (on_central h n) = acks n"
  "acks (n\<lparr>n_switch := sw\<rparr>) = acks n" "acks (n\<lparr>n_sent := fs\<rparr>) = acks n"
  by (simp_all add: acks_def)

lemma seam_sim:
  assumes "live_timers sm \<subseteq> live_timers (n_sim n)"
  shows "seam env n (n\<lparr>n_sim := sm\<rparr>)"
proof (rule seam_frame)
  show "advances n (n\<lparr>n_sim := sm\<rparr>)"
    using assms by (intro quiet_advances) (auto simp: attempts_def)
qed (use assms messages_sim [of "n\<lparr>n_sim := sm\<rparr>" n] acks_sim [of "n\<lparr>n_sim := sm\<rparr>" n] in auto)

lemma seam_schedule:
  assumes "\<And>m. seam_ok env n \<Longrightarrow> act_msg a = Some m \<Longrightarrow> msg_known env (n_local n) m"
    and "\<And>m. seam_ok env n \<Longrightarrow> a = AttemptFlowMod m \<Longrightarrow> attempt_ok (states n) m"
    and "\<And>m. seam_ok env n \<Longrightarrow> a = DeliverSyncAck m \<Longrightarrow> ack_ok (states n) m"
  shows "seam env n (snd (node_schedule d a n))"
proof (cases "seam_ok env n")
  case True
  show ?thesis
  proof (rule seam_frame)
    show "advances n (snd (node_schedule d a n))"
      using assms(2) True by (auto simp: advances_def generations_ok_def attempts_schedule)
  qed (use assms in \<open>auto simp: messages_schedule acks_schedule\<close>)
qed (simp add: seam_def)

interpretation quiet_seam: frame_relation "seam env" for env
proof
  show "seam env n n1 \<Longrightarrow> seam env n1 n2 \<Longrightarrow> seam env n n2" for n n1 n2 by (rule seam_trans)
  show quiet: "seam env n (on_local f n)" if "local_quiet (n_local n) (f (n_local n))" for n f
    using that messages_local [of n f] by (intro seam_frame quiet.R_local_any) auto
  show "seam env n (on_local f n)" if "local_calm (n_local n) (f (n_local n))" for n f
    using that by (intro quiet) (simp add: local_calm_def)
  show "seam env n (on_central h n)"
    if "fc_guard (h (n_central n)) = fc_guard (n_central n)" "fc_prefixStates (h (n_central n)) = states n" for h n
    using that by (intro seam_frame quiet.R_central) (auto simp: messages_def)
  show "seam env n (node_cancel i n)" for n i
    using seam_sim [where n = n and env = env, OF live_timers_Cancel_subset [of i "n_sim n"]] by (simp add: node_cancel_def)
qed (auto intro!: seam_refl seam_frame quiet.R_engine quiet.R_send quiet.R_switch seam_schedule)

section \<open>Decision points\<close>

lemma known_message:
  assumes "seam_ok env n"
  shows "(a, i) \<in> live_timers (n_sim n) \<Longrightarrow> act_msg a = Some m \<Longrightarrow> msg_known env (n_local n) m"
    and "fmlookup (lc_pending (n_local n)) p = Some r \<Longrightarrow> msg_known env (n_local n) (pq_msg r)"
    and "fmlookup (states n) p = Some st \<Longrightarrow> m \<in> state_messages st \<Longrightarrow> msg_known env (n_local n) m"
proof -
  have *: "m \<in> messages n \<Longrightarrow> msg_known env (n_local n) m" for m using assms by (simp add: seam_ok_def)
  show "(a, i) \<in> live_timers (n_sim n) \<Longrightarrow> act_msg a = Some m \<Longrightarrow> msg_known env (n_local n) m"
    and "fmlookup (lc_pending (n_local n)) p = Some r \<Longrightarrow> msg_known env (n_local n) (pq_msg r)"
    and "fmlookup (states n) p = Some st \<Longrightarrow> m \<in> state_messages st \<Longrightarrow> msg_known env (n_local n) m"
    by (rule *, auto simp: messages_def)+
qed

lemma delay_of_frame:
  "n_local (snd (delay_of env v b j n)) = n_local n" "states (snd (delay_of env v b j n)) = states n"
  by (simp_all add: delay_of_def case_prod_beta Let_def)

lemma scheduleFlowMod_seam:
  assumes "msg_known env (n_local n) m" and "attempt_ok (states n) m"
  shows "seam env n (scheduleFlowMod env m n)"
  unfolding scheduleFlowMod_def Let_def case_prod_beta
  by (rule seam_trans [OF quiet_seam.R_random(4) seam_schedule])
    (use assms in \<open>simp_all add: delay_of_frame\<close>)

lemma scheduleSyncAck_seam:
  assumes "msg_known env (n_local n) m" and "ack_ok (states n) m" and "scheduleSyncAck env m replay n = Inr n'"
  shows "seam env n n'"
proof -
  let ?n = "if replay then count_central (idempotentAckReplays_update incr) n else n"
  have n: "seam env n (snd (delay_of env v b j ?n))" for v b j
    by (auto intro!: quiet_seam.R_more seam_refl)
  have "seam env n (snd (node_schedule d (DeliverSyncAck m) (snd (delay_of env v b j ?n))))" for v b j d
    by (rule seam_trans [OF n seam_schedule]) (use assms(1,2) in \<open>auto simp: delay_of_frame\<close>)
  then show ?thesis
    using assms(3) seam_trans [OF n quiet_seam.R_deliverSyncAck]
    by (auto simp: scheduleSyncAck_def Let_def case_prod_beta split: if_splits)
qed

text \<open>An acceptance changes the accepted mark only.\<close>

lemma set_state_seam:
  assumes "advances n (set_prefix_state p st n)"
    and "\<And>m. seam_ok env n \<Longrightarrow> m \<in> state_messages st \<Longrightarrow> msg_known env (n_local n) m"
    and "ps_hasApplied st = ps_hasApplied (get_prefix_state p n)"
      "ps_appliedMessage st = ps_appliedMessage (get_prefix_state p n)"
  shows "seam env n (set_prefix_state p st n)"
proof (rule seamI [OF assms(1)])
  assume ok: "seam_ok env n"
  have "applied_update (fmupd p st (states n)) q = applied_update (states n) q" for q
    using assms(3,4)
    by (auto simp: applied_update_def get_prefix_state_def prefix_state_default_def split: option.splits)
  then show "switch_ok (n_switch (set_prefix_state p st n)) \<and>
      routes_kept (states (set_prefix_state p st n)) (n_switch (set_prefix_state p st n))"
    using ok by (simp add: set_prefix_state_def seam_ok_def routes_kept_def only_owner_def)
  have "m \<in> state_messages st" if "m \<in> messages (set_prefix_state p st n)" "m \<notin> messages n" for m
    using that by (auto simp: messages_def set_prefix_state_def split: if_splits)
  then show "\<forall>m \<in> messages (set_prefix_state p st n) - messages n. msg_known env (n_local (set_prefix_state p st n)) m"
    using assms(2) [OF ok] by (simp add: set_prefix_state_def)
qed (auto simp: set_prefix_state_def seam_ok_def)

lemma seam_ok_from: "seam env n n1 \<Longrightarrow> seam_ok env n \<Longrightarrow> seam_ok env n1"
  by (simp add: seam_def)

lemma acceptControl_seam:
  assumes ok: "seam_ok env n" and m: "msg_known env (n_local n) m" and r: "acceptControl env m n = Inr n'"
  shows "seam env n n'"
proof -
  let ?p = "cm_prefix m"
  let ?c = "count_central (packetInsDelivered_update incr) n"
  let ?s = "get_prefix_state ?p ?c"
  let ?n = "set_prefix_state ?p ?s ?c"
  let ?new = "?s\<lparr>ps_hasAccepted := True, ps_highestAccepted := cm_seq m, ps_acceptedMessage := m\<rparr>"
  have guard: "fc_guard (n_central n)" using ok by (simp add: seam_ok_def generations_ok_def)
  have msgs: "msg_known env (n_local ?c) m'" if "m' \<in> state_messages ?s" for m'
    using that known_message(3) [OF ok]
    by (auto simp: get_prefix_state_def prefix_state_default_def state_messages_def split: option.splits)
  have s: "state_ok ?p ?s"
    using ok by (intro get_prefix_state_ok) (simp add: seam_ok_def generations_ok_def)
  have n: "seam env n ?n"
    by (rule seam_trans [OF quiet_seam.R_counts(3) set_state_seam [OF set_state_advances [OF _ get_prefix_state_ok]]])
      (use msgs in \<open>simp_all add: get_prefix_state_def\<close>)
  have same: "n_local ?n = n_local n" "get_prefix_state ?p ?n = ?s" "fmlookup (states ?n) ?p = Some ?s"
    by (simp_all add: set_prefix_state_def get_prefix_state_def)
  have fresh: "seam env n (scheduleFlowMod env m (set_prefix_state ?p ?new ?n))"
    if new: "\<not> (ps_hasAccepted ?s \<and> cm_seq m \<le> ps_highestAccepted ?s)"
  proof (rule seam_trans [OF seam_trans [OF n set_state_seam [OF set_state_advances]] scheduleFlowMod_seam])
    show "state_le st0 ?new" if "fmlookup (states ?n) ?p = Some st0" for st0
      using that new by (auto simp: set_prefix_state_def state_le_defs)
    show "state_ok ?p ?new" using s new by (auto simp: state_ok_def same_generation_def)
    show "msg_known env (n_local ?n) m'" if "m' \<in> state_messages ?new" for m'
      using that m msgs by (auto simp: state_messages_def same)
  qed (use m same in \<open>simp_all add: attempt_ok_def set_prefix_state_def\<close>)
  have dup: "seam env n (scheduleFlowMod env m (count_central f ?n))"
    if "ps_hasAccepted ?s" "cm_seq m = ps_highestAccepted ?s" "sameUpdate m (ps_acceptedMessage ?s)" for f
    by (rule seam_trans [OF quiet_seam.R_more(8) [OF n] scheduleFlowMod_seam])
      (use that m same in \<open>simp_all add: attempt_ok_def set_prefix_state_def\<close>)
  have ack: "seam env n n'"
    if "ps_hasAccepted ?s" "cm_seq m = ps_highestAccepted ?s" "sameUpdate m (ps_acceptedMessage ?s)"
      "ps_hasApplied ?s" "ps_highestApplied ?s = cm_seq m"
      "scheduleSyncAck env m True (count_central f ?n) = Inr n'" for f
  proof (rule seam_trans [OF quiet_seam.R_more(8) [OF n] scheduleSyncAck_seam])
    show "ack_ok (states (count_central f ?n)) m"
      using that s same(3) by (auto simp: ack_ok_def state_ok_def sameUpdate_def)
  qed (use that m same in simp_all)
  show ?thesis
    using r guard n dup fresh ack
    by (auto simp: acceptControl_def Let_def not_le order.order_iff_strict split: if_splits
        intro!: quiet_seam.R_more seam_refl)
qed

text \<open>An application puts the route into the switch and records it.\<close>

lemma install_keeps:
  assumes sort: "priority_sorter (e_sort env)" and sw: "switch_ok sw" and kept: "routes_kept sts sw"
    and m: "msg_ok env m" and p: "cm_prefix m = p"
    and sts: "\<And>q m'. applied_update sts q = Some m' \<Longrightarrow> msg_ok env m' \<and> cm_prefix m' = q"
    and new: "\<And>q. applied_update sts' q = (if q = p then Some m else applied_update sts q)"
  shows "routes_kept sts' (installFibEntry (e_sort env) (cm_nameHashes m) (cm_outputPort m) (cm_routeExpiry m) sw)"
  unfolding routes_kept_def
proof (intro allI impI)
  let ?sw = "installFibEntry (e_sort env) (cm_nameHashes m) (cm_outputPort m) (cm_routeExpiry m) sw"
  have es: "set (fib_entries ?sw) = insert (fib_entry (cm_nameHashes m) (cm_outputPort m) (cm_routeExpiry m))
      {e \<in> set (fib_entries sw). \<not> same_fib_key (cm_nameHashes m) e}"
    by (rule priority_sorter.installFibEntry_ok(2) [OF sort sw msg_ok_hashes [OF m]])
  fix q m' assume a: "applied_update sts' q = Some m'" and only: "only_owner sts' q (cm_nameHashes m')"
  show "has_route (fib_entries ?sw) (cm_nameHashes m') (cm_outputPort m') (cm_routeExpiry m')"
  proof (cases "q = p")
    case True
    then have "m' = m" using a new by simp
    then show ?thesis using msg_ok_hashes [OF m] by (simp add: has_route_def es)
  next
    case False
    then have old: "applied_update sts q = Some m'" using a new by simp
    have ne: "cm_nameHashes m' \<noteq> cm_nameHashes m"
      using only [unfolded only_owner_def, rule_format, of p m] new False by auto
    have "only_owner sts q (cm_nameHashes m')"
      unfolding only_owner_def
    proof (intro allI impI)
      fix q' m'' assume q': "applied_update sts q' = Some m''" "q' \<noteq> q"
      show "cm_nameHashes m'' \<noteq> cm_nameHashes m'"
      proof (cases "q' = p")
        case True
        then have "cm_nameHashes m'' = cm_nameHashes m" using sts [OF q'(1)] m p by (simp add: msg_ok_def)
        with ne show ?thesis by simp
      next
        case False
        then show ?thesis
          using only [unfolded only_owner_def, rule_format, of q' m''] q' new by simp
      qed
    qed
    then have "has_route (fib_entries sw) (cm_nameHashes m') (cm_outputPort m') (cm_routeExpiry m')"
      using kept old by (simp add: routes_kept_def)
    then have "has_route (filter (\<lambda>e. \<not> same_fib_key (cm_nameHashes m) e) (fib_entries sw))
        (cm_nameHashes m') (cm_outputPort m') (cm_routeExpiry m')"
      using has_route_filter [OF msg_ok_hashes [OF m]] ne by simp
    then show ?thesis by (auto simp: has_route_def es)
  qed
qed

lemma seam_applied_update:
  assumes "seam_ok env n" and "applied_update (states n) q = Some m"
  shows "msg_ok env m \<and> cm_prefix m = q"
proof -
  obtain st where st: "fmlookup (states n) q = Some st" "ps_hasApplied st" "m = ps_appliedMessage st"
    using assms(2) by (auto simp: applied_update_def split: option.splits if_splits)
  then show ?thesis
    using assms(1) known_message(3) [OF assms(1) st(1), of m]
    by (auto simp: seam_ok_def generations_ok_def state_ok_def same_generation_def state_messages_def msg_known_def)
qed

lemma apply_seam:
  assumes m: "msg_known env (n_local n) m" and adv: "advances n n1"
    and frame: "n_local n1 = n_local n" "n_sim n1 = n_sim n"
    and st: "fmlookup (states n) (cm_prefix m) = Some st"
      "states n1 = fmupd (cm_prefix m)
        (st\<lparr>ps_hasApplied := True, ps_highestApplied := cm_seq m, ps_appliedMessage := m\<rparr>) (states n)"
    and sw: "n_switch n1 = installFibEntry (e_sort env) (cm_nameHashes m) (cm_outputPort m) (cm_routeExpiry m) (n_switch n)"
  shows "seam env n n1"
proof (rule seamI [OF adv])
  assume ok: "seam_ok env n"
  have sort: "priority_sorter (e_sort env)" "switch_ok (n_switch n)" "routes_kept (states n) (n_switch n)"
    using ok by (simp_all add: seam_ok_def)
  have mok: "msg_ok env m" using m by (simp add: msg_known_def)
  have "switch_ok (n_switch n1)"
    unfolding sw by (rule priority_sorter.installFibEntry_ok(1) [OF sort(1,2) msg_ok_hashes [OF mok]])
  moreover have "routes_kept (states n1) (n_switch n1)"
    unfolding sw
    by (rule install_keeps [OF sort mok refl seam_applied_update [OF ok]]) (simp_all add: st(2) applied_update_def)
  ultimately show "switch_ok (n_switch n1) \<and> routes_kept (states n1) (n_switch n1)" ..
  have "m' = m" if "m' \<in> messages n1" "m' \<notin> messages n" for m'
    using that st frame by (fastforce simp: messages_def state_messages_def split: if_splits)
  then show "\<forall>m' \<in> messages n1 - messages n. msg_known env (n_local n1) m'" using m frame(1) by auto
qed (use frame in \<open>auto simp: seam_ok_def acks_def\<close>)

lemma applyFlowMod_seam:
  assumes ok: "seam_ok env n" and m: "msg_known env (n_local n) m" and r: "applyFlowMod env m n = Inr n'"
    and now: "attempt_ok (states n) m"
    and st: "fmlookup (states n) (cm_prefix m) = Some st" "\<not> cm_seq m < ps_highestAccepted st"
      "\<not> (ps_hasApplied st \<and> ps_highestApplied st = cm_seq m)"
  shows "seam env n n'"
proof -
  let ?p = "cm_prefix m"
  let ?new = "st\<lparr>ps_hasApplied := True, ps_highestApplied := cm_seq m, ps_appliedMessage := m\<rparr>"
  let ?d = "snd (drop_flowMod env n)"
  let ?f = "onFlowTableFlowMod env (m\<lparr>cm_type := CT_FLOW_MOD\<rparr>) ?d"
  let ?c = "count_central (flowModsApplied_update incr) (snd ?f)"
  let ?n = "set_prefix_state ?p ?new ?c"
  have d: "seam env n ?d" by simp
  have same: "states ?d = states n" "n_local ?d = n_local n" "fc_guard (n_central ?d) = fc_guard (n_central n)"
    by (simp_all add: drop_flowMod_def case_prod_beta Let_def)
  have guard: "fc_guard (n_central n)" using ok by (simp add: seam_ok_def generations_ok_def)
  have c: "get_prefix_state ?p ?c = st"
    using st(1) same by (simp add: onFlowTableFlowMod_frame get_prefix_state_def)
  have gen: "generations_ok n" using ok by (simp add: seam_ok_def)
  have new: "seam env n n'" if fst: "fst ?f" and ack: "scheduleSyncAck env m False ?n = Inr n'"
  proof (rule seam_trans [OF d seam_trans [OF apply_seam scheduleSyncAck_seam]])
    have "advances ?d (snd ?f)"
      by (rule quiet_advances) (simp_all add: onFlowTableFlowMod_frame attempts_def)
    moreover have "advances ?c ?n"
      by (rule set_applied_advances)
        (use now st in \<open>simp_all add: same onFlowTableFlowMod_frame\<close>)
    ultimately show "advances ?d ?n" using advances_trans quiet.R_counts(3) by blast
    show "n_switch ?n = installFibEntry (e_sort env) (cm_nameHashes m) (cm_outputPort m) (cm_routeExpiry m) (n_switch ?d)"
      using fst by (simp add: set_prefix_state_def onFlowTableFlowMod_def Let_def split: if_splits)
  qed (use that same m st in \<open>simp_all add: set_prefix_state_def onFlowTableFlowMod_frame ack_ok_def\<close>)
  have rejected: "\<not> fst ?f \<Longrightarrow> snd ?f = ?d"
    by (simp add: onFlowTableFlowMod_def Let_def split: if_splits)
  show ?thesis
    using r d new c guard same(3) rejected
    by (auto simp: applyFlowMod_def Let_def case_prod_beta onFlowTableFlowMod_frame split: if_splits
        intro!: quiet_seam.R_more seam_refl)
qed

lemma attemptFlowMod_seam:
  assumes ok: "seam_ok env n" and pop: "ProcessOneEvent (n_sim n) = Some (Some (AttemptFlowMod m), sm)"
    and r: "attemptFlowMod env m (n\<lparr>n_sim := sm\<rparr>) = Inr n'"
  shows "seam env n n'"
proof -
  let ?c = "count_central (flowModAttempts_update incr) (n\<lparr>n_sim := sm\<rparr>)"
  obtain i where i: "(AttemptFlowMod m, i) \<in> live_timers (n_sim n)"
    using attempts_pop(2) [OF pop refl] by (auto simp: attempts_def)
  have m: "msg_known env (n_local ?c) m" using known_message(1) [OF ok i] by simp
  have gen: "generations_ok n" using ok by (simp add: seam_ok_def)
  have now: "attempt_ok (states ?c) m"
    using gen attempts_pop(2) [OF pop refl] by (simp add: generations_ok_def)
  then obtain st where st: "fmlookup (states ?c) (cm_prefix m) = Some st" "ps_hasAccepted st"
    by (auto simp: attempt_ok_def)
  then have g: "get_prefix_state (cm_prefix m) ?c = st" by (simp add: get_prefix_state_def)
  have s: "state_ok (cm_prefix m) st" using gen st(1) by (simp add: generations_ok_def)
  have "live_timers sm \<subseteq> live_timers (n_sim n)"
    using pop by (auto simp: ProcessOneEvent_def live_timers_def split: list.splits if_splits)
  then have c: "seam env n ?c" by (intro quiet_seam.R_more(8) seam_sim)
  have app: "seam env n n'" if "applyFlowMod env m ?c = Inr n'" "\<not> cm_seq m < ps_highestAccepted st"
      "\<not> (ps_hasApplied st \<and> ps_highestApplied st = cm_seq m)"
    by (rule seam_trans [OF c applyFlowMod_seam [OF seam_ok_from [OF c ok] m that(1) now st(1) that(2,3)]])
  have ack: "seam env n n'"
    if "scheduleSyncAck env m True (count_central f ?c) = Inr n'" "\<not> cm_seq m < ps_highestAccepted st"
      "ps_hasApplied st" "ps_highestApplied st = cm_seq m" for f
  proof (rule seam_trans [OF quiet_seam.R_more(8) [OF c] scheduleSyncAck_seam])
    show "ack_ok (states (count_central f ?c)) m"
      using that now st s by (auto simp: ack_ok_def attempt_ok_def state_ok_def sameUpdate_def)
  qed (use that m in simp_all)
  have "fc_guard (n_central ?c)" using gen by (simp add: generations_ok_def)
  then show ?thesis
    using r c st g app ack
    by (auto simp: attemptFlowMod_def Let_def split: if_splits intro!: quiet_seam.R_more)
qed

text \<open>An admission opens a generation that was not seen before.\<close>

definition admit :: "name \<Rightarrow> port \<Rightarrow> u64 \<Rightarrow> sim_time \<Rightarrow> node \<Rightarrow> node" where
  "admit p pt s lifetime n = storeRoute p pt s lifetime (expiry_at lifetime n)
     (on_local (\<lambda>l. l\<lparr>lc_highestSeenSeq := fmupd p s (lc_highestSeenSeq l)\<rparr>) n)"

lemma admit_frame [simp]:
  "n_sim (admit p pt s lifetime n) = n_sim n" "n_central (admit p pt s lifetime n) = n_central n"
  "n_switch (admit p pt s lifetime n) = n_switch n"
  "lc_guard (n_local (admit p pt s lifetime n)) = lc_guard (n_local n)"
  "lc_pending (n_local (admit p pt s lifetime n)) = lc_pending (n_local n)"
  "lc_seqMap (n_local (admit p pt s lifetime n)) = fmupd p s (lc_seqMap (n_local n))"
  "lc_highestSeenSeq (n_local (admit p pt s lifetime n)) = fmupd p s (lc_highestSeenSeq (n_local n))"
  by (simp_all add: admit_def storeRoute_def Let_def)

lemma admit_hops:
  assumes "fib_owned (n_local n)"
  shows "hop_in (lc_fib (n_local (admit p pt s lifetime n))) q pt' \<longleftrightarrow>
    (if q = p then pt' = pt else hop_in (lc_fib (n_local n)) q pt')"
proof -
  have "fmlookup (lc_seqMap (n_local n)) p = None \<Longrightarrow> fmlookup (lc_fib (n_local n)) p = Some e \<Longrightarrow>
      m_nextHops (live_hops (node_now n) e) = fmempty" for e
    using assms by (intro fmap_ext) (fastforce simp: fib_owned_def hop_in_def live_hops_lookup split: option.splits)
  then show ?thesis
    by (auto simp: admit_def storeRoute_def Let_def hop_in_def insertUntil_def tfib_erase_def
        ForwardingEntry_def pruneExpiredHops_def split: option.splits if_splits)
qed

lemma admit_seam:
  assumes ok: "seam_ok env n" and new: "\<not> stale_update p s (n_local n)"
  shows "seam env n (admit p pt s lifetime n)"
proof (rule seamI)
  have owned: "fib_owned (n_local n)" and guard: "lc_guard (n_local n)" using ok by (simp_all add: seam_ok_def)
  have seen: "h < s" if "fmlookup (lc_highestSeenSeq (n_local n)) p = Some h" for h
    using new guard that by (auto simp: stale_update_def)
  show "local_progress (n_local n) (n_local (admit p pt s lifetime n)) \<and>
      lc_guard (n_local (admit p pt s lifetime n)) \<and> fib_owned (n_local (admit p pt s lifetime n))"
    using owned guard seen
    by (auto simp: local_progress_def fib_owned_def admit_hops less_imp_le dest: leD)
  show "advances n (admit p pt s lifetime n)"
    by (rule quiet_advances) (simp_all add: attempts_def)
qed (use ok in \<open>auto simp: seam_ok_def messages_def acks_def\<close>)

lemma known_admit:
  assumes "seam_ok env n"
  shows "msg_known env (n_local (admit p pt s lifetime n)) (admission_message p (nameHashesOf (e_hash env) p) len pt s x)"
  using assms by (simp add: msg_known_def msg_ok_def admission_message_def seam_ok_def admit_hops)

lemma admission_admit:
  assumes "lc_guard (n_local n)"
  shows "seam env (admit p pt s lifetime n) (admission p pt s lifetime n)"
proof -
  have "seam env (admit p pt s lifetime n) (cancelLifetimeTimer p (admit p pt s lifetime n))"
    by (rule quiet_seam.R_cancelLifetimeTimer)
  from seam_trans [OF this quiet_seam.R_schedule [of "ExpireEntryBySeq p s"]] this show ?thesis
    using assms
    by (auto simp: admission_def publishRoute_def admit_def Let_def case_prod_beta intro!: quiet_seam.R_more)
qed

lemma openRequest_seam:
  assumes "msg_known env (n_local n) m"
  shows "seam env n (openRequest p s m n)"
proof -
  let ?d = "snd (node_schedule (lc_retryTimeout (n_local (dropPending p n))) (ControllerRetryTimeout p s) (dropPending p n))"
  have d: "seam env n ?d" by (rule seam_trans [OF quiet_seam.R_dropPending quiet_seam.R_schedule]) simp
  have "seam env ?d (on_local (\<lambda>l. l\<lparr>lc_pending := fmupd p (r l) (lc_pending l)\<rparr>) ?d)" (is "seam env _ ?n")
    if r: "\<And>l. pq_msg (r l) = m" for r
  proof (rule seamI [OF quiet.R_local_any])
    have k: "msg_known env (n_local ?n) m"
      using assms by (simp add: msg_known_def dropPending_def split: option.splits)
    have "m' = m" if "m' \<in> messages ?n" "m' \<notin> messages ?d" for m'
      using that r by (auto simp: messages_def split: if_splits)
    with k show "\<forall>m \<in> messages ?n - messages ?d. msg_known env (n_local ?n) m" by auto
  qed (auto simp: seam_ok_def local_progress_def fib_owned_def)
  from seam_trans [OF d this] show ?thesis
    unfolding openRequest_def Let_def case_prod_beta by (simp add: seam_refl)
qed

interpretation seam: step_relation "seam env" env "seam_ok env" "\<lambda>n. msg_known env (n_local n)" for env
proof
  show "seam env n n'" if "\<not> seam_ok env n" for n n' using that by (simp add: seam_def)
  show "seam_ok env n'" if "seam_ok env n" "seam env n n'" for n n' using that by (simp add: seam_def)
  show "msg_known env (n_local n') m" if "seam_ok env n" "seam env n n'" "msg_known env (n_local n) m" for n n' m
    using that known_progress by (auto simp: seam_def)
  show "msg_known env (n_local n) (pq_msg q)" if "seam_ok env n" "fmlookup (lc_pending (n_local n)) p = Some q" for n p q
    using that by (rule known_message(2))
  show "msg_known env (n_local n) m"
    if "seam_ok env n" "ProcessOneEvent (n_sim n) = Some (Some (AcceptControl m), sm)" for n m sm
  proof -
    have "\<exists>i. (AcceptControl m, i) \<in> live_timers (n_sim n)"
      using that(2) by (auto simp: ProcessOneEvent_def live_timers_def split: list.splits if_splits) metis
    with known_message(1) [OF that(1)] show ?thesis by fastforce
  qed
  show adm: "seam env n (admission p pt s lifetime n)"
    if "seam_ok env n" "\<not> stale_update p s (n_local n)" for n p pt s lifetime
    using that by (intro seam_trans [OF admit_seam admission_admit]) (simp_all add: seam_ok_def)
  show "msg_known env (n_local (admission p pt s lifetime n)) (admission_message p (nameHashesOf (e_hash env) p) len pt s x)"
    if "seam_ok env n" "\<not> stale_update p s (n_local n)" for n p pt s lifetime len x
  proof -
    have "seam_ok env (admit p pt s lifetime n)" by (rule seam_ok_from [OF admit_seam [OF that] that(1)])
    moreover have "seam env (admit p pt s lifetime n) (admission p pt s lifetime n)"
      using that(1) by (intro admission_admit) (simp add: seam_ok_def)
    ultimately have "local_progress (n_local (admit p pt s lifetime n)) (n_local (admission p pt s lifetime n))"
      by (simp add: seam_def)
    with known_admit [OF that(1)] show ?thesis by (rule known_progress)
  qed
  show "seam env n (openRequest p s m n)" if "msg_known env (n_local n) m" for n p s m
    using that by (rule openRequest_seam)
  show "seam env n (snd (node_schedule d (AcceptControl m) n))" if "msg_known env (n_local n) m" for n d m
    using that by (intro seam_schedule) auto
  show "seam env n n'" if "seam_ok env n" "msg_known env (n_local n) m" "acceptControl env m n = Inr n'" for n m n'
    using that by (rule acceptControl_seam)
  show "seam env n n'" if "seam_ok env n" "ProcessOneEvent (n_sim n) = Some (Some (AttemptFlowMod m), sm)"
    "attemptFlowMod env m (n\<lparr>n_sim := sm\<rparr>) = Inr n'" for n m sm n'
    using that by (rule attemptFlowMod_seam)
  show "seam env n (n\<lparr>n_sim := sm\<rparr>)" if "ProcessOneEvent (n_sim n) = Some (r, sm)" for n r sm
    using that by (intro seam_sim) (auto simp: ProcessOneEvent_def live_timers_def split: list.splits if_splits)
  show "seam env n (n\<lparr>n_sim := sm\<rparr>)" if "foreign_event t v u (n_sim n) = Some sm" for n t v u sm
    using that by (intro seam_sim) (auto simp: foreign_event_def live_timers_def split: if_splits)
qed

section \<open>The hand-over\<close>

text \<open>A configured node with both guards on and nothing applied yet.\<close>

definition seamless_start :: "env \<Rightarrow> node \<Rightarrow> bool" where
  "seamless_start env n \<longleftrightarrow> node_start env n \<and> fc_guard (n_central n) \<and> lc_guard (n_local n) \<and>
     states n = fmempty"

lemma seamless_start_ok: "seamless_start env n \<Longrightarrow> seam_ok env n"
  by (auto simp: seamless_start_def seam_ok_def generations_ok_def node_start_def env_ok_def attempts_def
      live_timers_def messages_def acks_def routes_kept_def applied_update_def fib_owned_def hop_in_def)

interpretation seamless: invariant_system "seamless_start env" "node_step env"
  "\<lambda>n. node_inv env n \<and> seam_ok env n" for env
proof
  show "node_inv env n \<and> seam_ok env n" if "seamless_start env n" for n
    using that node_start_inv seamless_start_ok by (auto simp: seamless_start_def)
  show "node_inv env n' \<and> seam_ok env n'" if "node_inv env n \<and> seam_ok env n" "node_step env n n'" for n n'
    using that node_system.step_inv [of env n n'] seam.R_step [of env n n'] by (simp add: seam_def)
qed

lemma ack_is_latest:
  assumes inv: "node_inv env n" and ok: "seam_ok env n" and ack: "(DeliverSyncAck m, i) \<in> live_timers (n_sim n)"
    and acc: "fmlookup (lc_seqMap (n_local n)) (cm_prefix m) = Some (cm_seq m)"
  shows "\<exists>a. applied_update (states n) (cm_prefix m) = Some a \<and> sameUpdate m a"
proof -
  have "ack_ok (states n) m" using ok ack by (auto simp: seam_ok_def acks_def)
  then obtain st where st: "fmlookup (states n) (cm_prefix m) = Some st" "ps_hasApplied st"
    "cm_seq m < ps_highestApplied st \<or> cm_seq m = ps_highestApplied st \<and> sameUpdate m (ps_appliedMessage st)"
    by (auto simp: ack_ok_def)
  have s: "state_ok (cm_prefix m) st" using ok st(1) by (simp add: seam_ok_def generations_ok_def)
  have seen: "fmlookup (lc_highestSeenSeq (n_local n)) (cm_prefix m) = Some (cm_seq m)"
    using inv ok acc by (simp add: node_rel_def linv_def routes_ok_def seam_ok_def)
  have "msg_known env (n_local n) (ps_appliedMessage st)"
    using known_message(3) [OF ok st(1)] st(2) by (simp add: state_messages_def)
  then have "ps_highestApplied st \<le> cm_seq m"
    using s st(2) seen by (auto simp: msg_known_def state_ok_def same_generation_def)
  with st show ?thesis by (auto simp: applied_update_def)
qed

text \<open>C2. The hand-over to the permanent route is seamless.  With the generation guards of both
  controllers, at every node reachable from a configured one: when a SyncAck arrives that the local
  controller accepts, so that it drops the temporary route, the switch already holds a live route for
  the hash tuple of the prefix to the port of the update, with its deadline, and the temporary route
  has no other port.  The claim leaves out a prefix whose hash tuple collides with the tuple of another
  applied prefix, for which the switch has one entry only.\<close>

theorem completion_is_seamless:
  assumes "reach (seamless_start env) (node_step env) n"
    and "(DeliverSyncAck m, i) \<in> live_timers (n_sim n)"
    and "ack_accepted (m\<lparr>cm_type := CT_SYNC_ACK\<rparr>) n"
    and "only_owner (states n) (cm_prefix m) (nameHashesOf (e_hash env) (cm_prefix m))"
  shows "has_route (fib_entries (n_switch n)) (nameHashesOf (e_hash env) (cm_prefix m))
      (cm_outputPort m) (cm_routeExpiry m) \<and>
    live (node_now n) (cm_routeExpiry m) \<and>
    (\<forall>pt. hop_in (lc_fib (n_local n)) (cm_prefix m) pt \<longrightarrow> pt = cm_outputPort m)"
proof -
  have inv: "node_inv env n" and ok: "seam_ok env n"
    using seamless.reachable_inv [OF assms(1)] by auto
  have guard: "lc_guard (n_local n)" using ok by (simp add: seam_ok_def)
  have acc: "fmlookup (lc_seqMap (n_local n)) (cm_prefix m) = Some (cm_seq m)"
    and live: "live (node_now n) (cm_routeExpiry m)"
    using assms(3) guard by (auto simp: ack_accepted_def live_def)
  have k: "msg_known env (n_local n) m" using known_message(1) [OF ok assms(2)] by simp
  obtain a where a: "applied_update (states n) (cm_prefix m) = Some a" "sameUpdate m a"
    using ack_is_latest [OF inv ok assms(2) acc] by blast
  have hs: "cm_nameHashes a = nameHashesOf (e_hash env) (cm_prefix m)"
  proof -
    have "cm_nameHashes m = nameHashesOf (e_hash env) (cm_prefix m)" using k by (simp add: msg_known_def msg_ok_def)
    with a(2) show ?thesis unfolding sameUpdate_def by metis
  qed
  have "has_route (fib_entries (n_switch n)) (cm_nameHashes a) (cm_outputPort a) (cm_routeExpiry a)"
    using ok a(1) assms(4) unfolding hs [symmetric] seam_ok_def routes_kept_def by blast
  then show ?thesis
    using a(2) k acc live unfolding hs by (simp add: sameUpdate_def msg_known_def)
qed

text \<open>A controller without loss whose acknowledgements take 50 ns.\<close>

definition handover_central :: flow_controller where
  "handover_central = flow_controller_new\<lparr>fc_hasFlowModApplyCb := True, fc_hasSyncAckCb := True, fc_guard := True,
     fc_syncAckLegDelay := 50\<rparr>"

definition handover_node :: node where
  "handover_node = trace_node\<lparr>n_central := handover_central, n_local := (n_local trace_node)\<lparr>lc_guard := True\<rparr>,
     n_engine := (n_engine trace_node)\<lparr>en_enableReforwarding := False\<rparr>\<rparr>"

lemma handover_start: "seamless_start sample_env handover_node"
  using trace_node_start
  by (simp add: seamless_start_def node_start_def handover_node_def handover_central_def flow_controller_new_def engine_ok_def)

lemma fun_upd_const [simp]: "(\<lambda>_. c)(v := c) = (\<lambda>_. c)" by auto

lemma handover_submit:
  assumes "n_central n = handover_central\<lparr>fc_counters := k\<rparr>" and "node_now n < cm_routeExpiry m"
  shows "\<exists>n' k. submitFlowUpdate sample_env m n = Inr n' \<and> n_local n' = n_local n \<and> n_engine n' = n_engine n \<and>
    n_switch n' = n_switch n \<and> n_sim n' = snd (Schedule 1000000000 (AttemptFlowMod m) (n_sim n)) \<and>
    n_central n' = handover_central\<lparr>fc_counters := k, fc_prefixStates := fmupd (cm_prefix m)
      (prefix_state_default\<lparr>ps_hasAccepted := True, ps_highestAccepted := cm_seq m, ps_acceptedMessage := m\<rparr>) fmempty\<rparr>"
  using assms
  by (simp add: submitFlowUpdate_def drop_control_def shouldDrop_def delay_of_def handover_central_def flow_controller_new_def
      getDelayProfile_def acceptControl_def isExpiredAt_def get_prefix_state_def set_prefix_state_def Let_def
      scheduleFlowMod_def prefix_state_default_def count_central_def)

lemma handover_attempt:
  assumes "n_central n = handover_central\<lparr>fc_counters := k, fc_prefixStates := fmupd (cm_prefix m)
      (prefix_state_default\<lparr>ps_hasAccepted := True, ps_highestAccepted := cm_seq m, ps_acceptedMessage := m\<rparr>) fmempty\<rparr>"
     and "node_now n < cm_routeExpiry m"
  shows "\<exists>n'. attemptFlowMod sample_env m n = Inr n' \<and> n_local n' = n_local n \<and>
    n_sim n' = snd (Schedule 50 (DeliverSyncAck m) (n_sim n)) \<and> (\<forall>q. q \<noteq> cm_prefix m \<longrightarrow> fmlookup (states n') q = None)"
  using assms
  by (simp add: attemptFlowMod_def applyFlowMod_def drop_flowMod_def shouldDrop_def delay_of_def handover_central_def flow_controller_new_def
      getDelayProfile_def isExpiredAt_def get_prefix_state_def set_prefix_state_def Let_def
      scheduleSyncAck_def onFlowTableFlowMod_def prefix_state_default_def count_central_def)


abbreviation (input) alice :: name where "alice \<equiv> [component_of_string ''rv'', component_of_string ''alice'']"

definition handover_update :: control_message where
  "handover_update = admission_message alice (nameHashesOf (e_hash sample_env) alice) 2 3 7 2000000000"

lemma handover_data:
  assumes c: "n_central n = handover_central" and l: "n_local n = n_local handover_node" 
    and e: "en_pit (n_engine n) = en_pit (n_engine trace_node)" "\<not> en_enableReforwarding (n_engine n)" "\<not> en_telemetry (n_engine n)"
       "en_flowTableLifetime (n_engine n) = 0" "en_temporaryLifetime (n_engine n) = 0" 
    and sm: "n_sim n = \<lparr>m_currentTs = 0, m_currentUid = u, m_uid = v, m_events = []\<rparr>"
  shows "\<exists>n' k. processDataAfterDelay sample_env 5 (sample_data\<lparr>d_hopCount := hc\<rparr>) h n = Inr n' \<and>
    route_at alice 3 7 2000000000 (n_local n') \<and>
    n_sim n' = \<lparr>m_currentTs = 0, m_currentUid = u, m_uid = v + 2, m_events =
      [\<lparr>m_ts = 1000000000, m_event_uid = v + 1, m_cancel = False, m_impl = AttemptFlowMod handover_update\<rparr>,
       \<lparr>m_ts = 2000000000, m_event_uid = v, m_cancel = False, m_impl = ExpireEntryBySeq alice 7\<rparr>]\<rparr> \<and>
    n_central n' = handover_central\<lparr>fc_counters := k, fc_prefixStates := fmupd alice
      (prefix_state_default\<lparr>ps_hasAccepted := True, ps_highestAccepted := 7, ps_acceptedMessage := handover_update\<rparr>) fmempty\<rparr>"
proof -
  let ?n = "count_engine (traceUpdatesHandled_update incr)
      (on_engine (\<lambda>e. e\<lparr>en_pit := snd (takeDataMatchPorts sample_trace (en_pit (n_engine n)))\<rparr>) n)"
  let ?a = "admission alice 3 7 2000000000 ?n"
  let ?c = "count_local (controlPackets_update incr) ?a"
  have L: "n_local ?n = local_new\<lparr>lc_hasSyncRequestCb := True, lc_guard := True\<rparr>"
    by (simp add: l handover_node_def trace_node_def)
  have now: "node_now ?n = 0" by (simp add: sm Now_def)
  have x: "expiry_at 2000000000 ?n = 2000000000" using now by (simp add: expiry_at_def)
  have life: "route_lifetime 2000000 (n_local ?n) = Inr 2000000000" "\<not> stale_update alice 7 (n_local ?n)"
    unfolding L by (simp_all add: route_lifetime_def local_new_def stale_update_def)
  have a: "route_at alice 3 7 2000000000 (n_local ?a)"
    "n_sim ?a = snd (Schedule 2000000000 (ExpireEntryBySeq alice 7) (n_sim ?n))"
    "lc_retryTimeout (n_local ?a) = 0" "lc_hasSyncRequestCb (n_local ?a)"
    using L now x
    by (simp_all add: admission_def publishRoute_def storeRoute_def cancelLifetimeTimer_def Let_def case_prod_beta
        local_new_def route_at_def insertUntil_def tfib_new_def ForwardingEntry_def single_hop_def deadline_of_def)
  obtain n1 k where n1: "submitFlowUpdate sample_env handover_update ?c = Inr n1" "n_local n1 = n_local ?c"
    "n_engine n1 = n_engine ?c" "n_sim n1 = snd (Schedule 1000000000 (AttemptFlowMod handover_update) (n_sim ?c))"
    "n_central n1 = handover_central\<lparr>fc_counters := k, fc_prefixStates := fmupd alice
      (prefix_state_default\<lparr>ps_hasAccepted := True, ps_highestAccepted := 7, ps_acceptedMessage := handover_update\<rparr>) fmempty\<rparr>"
    using handover_submit [of ?c "fc_counters handover_central" handover_update] now
    by (auto simp: c handover_update_def admission_message_def)
  have "local_applyTraceUpdate sample_env alice (nameHashesOf (e_hash sample_env) alice) 2 3 7 2000000 ?n = Inr (True, n1)"
    using local_applyTraceUpdate_fresh [OF life refl refl, of sample_env "nameHashesOf (e_hash sample_env) alice" 2 3]
      a(3,4) n1(1)
    unfolding x handover_update_def [symmetric] by (simp add: openRequest_def)
  then have "fwd_applyTraceUpdate sample_env alice 3 7 2000000 ?n =
      Inr (True, on_engine (\<lambda>e. e\<lparr>f_traceUpdatesAccepted := incr (f_traceUpdatesAccepted e)\<rparr>) n1)"
    by (simp add: fwd_applyTraceUpdate_def Let_def numeral_2_eq_2)
  moreover have "validateRouteLifetime 2000000000 (n_engine n) = Inr ()"
    using e by (simp add: validateRouteLifetime_def)
  ultimately have run: "processDataAfterDelay sample_env 5 (sample_data\<lparr>d_hopCount := hc\<rparr>) h n =
      Inr (sendData sample_env (sample_data\<lparr>d_hopCount := hc\<rparr>) h {3}
        (on_engine (\<lambda>e. e\<lparr>f_traceUpdatesAccepted := incr (f_traceUpdatesAccepted e)\<rparr>) n1))" (is "_ = Inr ?m")
    using processTraceData [of "sample_data\<lparr>d_hopCount := hc\<rparr>" n 7 sample_env 5 h] e n1(3)
    by (simp add: sample_data_def trace_node_ports trace_node_lifetime Let_def)
  have "route_at alice 3 7 2000000000 (n_local ?m)" using a(1) by (simp add: n1(2) route_at_def)
  moreover have "n_sim ?m = \<lparr>m_currentTs = 0, m_currentUid = u, m_uid = v + 2, m_events =
      [\<lparr>m_ts = 1000000000, m_event_uid = v + 1, m_cancel = False, m_impl = AttemptFlowMod handover_update\<rparr>,
       \<lparr>m_ts = 2000000000, m_event_uid = v, m_cancel = False, m_impl = ExpireEntryBySeq alice 7\<rparr>]\<rparr>"
    by (simp add: n1(4) a(2) sm Schedule_def Let_def key_less_def)
  moreover have "n_central ?m = handover_central\<lparr>fc_counters := k, fc_prefixStates := fmupd alice
      (prefix_state_default\<lparr>ps_hasAccepted := True, ps_highestAccepted := 7, ps_acceptedMessage := handover_update\<rparr>) fmempty\<rparr>"
    by (simp add: sendData_keeps n1(5))
  ultimately show ?thesis using run by blast
qed

text \<open>The node receives the Trace Data, runs the event that the reception schedules, then the FlowMod.\<close>

lemma handover_reach:
  "\<exists>n i. reach (seamless_start sample_env) (node_step sample_env) n \<and>
     (DeliverSyncAck handover_update, i) \<in> live_timers (n_sim n) \<and>
     ack_accepted (handover_update\<lparr>cm_type := CT_SYNC_ACK\<rparr>) n \<and>
     (\<forall>q. q \<noteq> alice \<longrightarrow> fmlookup (states n) q = None)"
proof -
  let ?R = "reach (seamless_start sample_env) (node_step sample_env)"
  let ?h = "header_of_name (e_hash sample_env) sample_trace"
  let ?d = "sample_data\<lparr>d_hopCount := Some 1\<rparr>"
  let ?act = "ProcessDataAfterDelay 5 ?d (?h\<lparr>m_switchId := 1\<rparr>)"
  have start: "?R handover_node" by (rule reach_start, rule handover_start)
  have h: "m_type ?h = UNPROCESSED" "m_switchId ?h = 0"
    by (simp_all add: header_of_name_def computeNameHashes_def header_default_def)
  have sw: "switch_ok (n_switch handover_node)"
    using handover_start by (simp add: seamless_start_def node_start_def)
  obtain sw where "onReceiveRawPacket sample_env 5 sample_frame handover_node =
      receivePayload sample_env 5 (DataPayload sample_trace []) ?h (handover_node\<lparr>n_switch := sw\<rparr>)"
    using receive_unprocessed [OF sw header_of_name_valid h(1), of sample_frame "[]" sample_env 5]
    by (auto simp: sample_frame_def)
  then obtain n1 where recv: "onReceiveRawPacket sample_env 5 sample_frame handover_node = Inr n1"
    and n1: "n1 = snd (node_schedule 0 ?act (count_engine (dataReceived_update incr) (handover_node\<lparr>n_switch := sw\<rparr>)))"
    by (simp add: receivePayload_def processStatefulData_def h Let_def handover_node_def trace_node_def
        engine_new_def sample_data_def)
  have r1: "?R n1" by (rule reach_step, rule start, rule node_step.receive [OF recv])
  let ?sm = "\<lparr>m_currentTs = 0, m_currentUid = 4, m_uid = 5, m_events = []\<rparr>"
  have pop: "ProcessOneEvent (n_sim n1) = Some (Some ?act, ?sm)"
    by (simp add: n1 handover_node_def trace_node_def Schedule_def sim_init_def ProcessOneEvent_def Let_def)
  obtain n2 k where n2: "processDataAfterDelay sample_env 5 ?d (?h\<lparr>m_switchId := 1\<rparr>) (n1\<lparr>n_sim := ?sm\<rparr>) = Inr n2"
    "route_at alice 3 7 2000000000 (n_local n2)"
    "n_sim n2 = \<lparr>m_currentTs = 0, m_currentUid = 4, m_uid = 5 + 2, m_events =
      [\<lparr>m_ts = 1000000000, m_event_uid = 5 + 1, m_cancel = False, m_impl = AttemptFlowMod handover_update\<rparr>,
       \<lparr>m_ts = 2000000000, m_event_uid = 5, m_cancel = False, m_impl = ExpireEntryBySeq alice 7\<rparr>]\<rparr>"
    "n_central n2 = handover_central\<lparr>fc_counters := k, fc_prefixStates := fmupd alice
      (prefix_state_default\<lparr>ps_hasAccepted := True, ps_highestAccepted := 7, ps_acceptedMessage := handover_update\<rparr>) fmempty\<rparr>"
    using handover_data [of "n1\<lparr>n_sim := ?sm\<rparr>" 4 5 "Some 1" "?h\<lparr>m_switchId := 1\<rparr>"]
    by (auto simp: n1 handover_node_def trace_node_def engine_new_def)
  have r2: "?R n2"
    by (rule reach_step, rule r1, rule node_step.run [OF pop]) (simp add: run_act_def n2(1))
  let ?sm2 = "(n_sim n2)\<lparr>m_currentTs := 1000000000, m_currentUid := 6, m_events := tl (m_events (n_sim n2))\<rparr>"
  have pop2: "ProcessOneEvent (n_sim n2) = Some (Some (AttemptFlowMod handover_update), ?sm2)"
    by (simp add: n2(3) ProcessOneEvent_def)
  obtain n3 where n3: "attemptFlowMod sample_env handover_update (n2\<lparr>n_sim := ?sm2\<rparr>) = Inr n3"
    "n_local n3 = n_local n2" "n_sim n3 = snd (Schedule 50 (DeliverSyncAck handover_update) ?sm2)"
    "\<forall>q. q \<noteq> alice \<longrightarrow> fmlookup (states n3) q = None"
    using handover_attempt [of "n2\<lparr>n_sim := ?sm2\<rparr>" handover_update k] n2(4)
    by (auto simp: handover_update_def admission_message_def Now_def)
  have r3: "?R n3"
    by (rule reach_step, rule r2, rule node_step.run [OF pop2]) (simp add: run_act_def n3(1))
  have "(DeliverSyncAck handover_update, fst (Schedule 50 (DeliverSyncAck handover_update) ?sm2)) \<in> live_timers (n_sim n3)"
    by (simp add: n3(3) live_timers_Schedule)
  moreover have "ack_accepted (handover_update\<lparr>cm_type := CT_SYNC_ACK\<rparr>) n3"
    using n2(2,3) n3(2,3)
    by (simp add: ack_accepted_def handover_update_def admission_message_def route_at_def Now_def Schedule_def Let_def)
  ultimately show ?thesis using r3 n3(4) by blast
qed

theorem completion_is_seamless_witness:
  "\<exists>n. reach (seamless_start sample_env) (node_step sample_env) n \<and>
     ack_accepted (handover_update\<lparr>cm_type := CT_SYNC_ACK\<rparr>) n \<and>
     has_route (fib_entries (n_switch n)) (nameHashesOf (e_hash sample_env) alice) 3 2000000000"
proof -
  obtain n i where n: "reach (seamless_start sample_env) (node_step sample_env) n"
    "(DeliverSyncAck handover_update, i) \<in> live_timers (n_sim n)"
    "ack_accepted (handover_update\<lparr>cm_type := CT_SYNC_ACK\<rparr>) n"
    "\<forall>q. q \<noteq> alice \<longrightarrow> fmlookup (states n) q = None"
    using handover_reach by blast
  have "only_owner (states n) (cm_prefix handover_update) (nameHashesOf (e_hash sample_env) (cm_prefix handover_update))"
    using n(4) by (auto simp: only_owner_def applied_update_def handover_update_def admission_message_def
        split: option.splits)
  from completion_is_seamless [OF n(1-3) this] n(1,3) show ?thesis
    by (auto simp: handover_update_def admission_message_def)
qed

end
