(* ===== verification/Installation.thy ===== *)
theory Installation
  imports Seamless_Completion
begin

text \<open>
  Setting up the nodes: the installation helper (\<^verbatim>\<open>statim/helper/statim-helper.cpp\<close>) with the parts of
  the NDN stack that it relies on for an engine node (\<^verbatim>\<open>model/ndn-l3-protocol.cpp\<close>,
  \<^verbatim>\<open>helper/ndn-stack-helper.cpp\<close>), and the computation of the static routes.  Shortest paths come from
  the Boost graph library and are a parameter: for each router the list of the other routers, in the
  order of the distance map, with the face of the first hop.
  Shown: an installed node is a start state of every run considered in this development, with the
  ports numbered in the order of its devices; and after the routes are computed its switch has
  exactly the static routes of the last assignment to each hash tuple.
\<close>

section \<open>Setters of the engine\<close>

definition setEnableTemporaryFib :: "bool \<Rightarrow> node \<Rightarrow> node" where
  "setEnableTemporaryFib v = on_engine (\<lambda>e. e\<lparr>en_enableTemporaryFib := v\<rparr>)"

definition setStatefulDelay :: "sim_time \<Rightarrow> node \<Rightarrow> node" where
  "setStatefulDelay d = on_engine (\<lambda>e. e\<lparr>en_statefulDelay := d\<rparr>)"

definition setInterestReforwardingLimit :: "int \<Rightarrow> node \<Rightarrow> node" where
  "setInterestReforwardingLimit k = on_engine (\<lambda>e. e\<lparr>en_reforwardingLimit := k\<rparr>)"

definition setNodeId :: "u32 \<Rightarrow> node \<Rightarrow> node" where
  "setNodeId i = on_engine (\<lambda>e. e\<lparr>en_nodeId := i\<rparr>)"

definition setControllerRetryTimeout :: "sim_time \<Rightarrow> node \<Rightarrow> node" where
  "setControllerRetryTimeout t = on_local (\<lambda>l. l\<lparr>lc_retryTimeout := t\<rparr>)"

definition setControllerRetryLimit :: "int \<Rightarrow> node \<Rightarrow> node" where
  "setControllerRetryLimit k = on_local (\<lambda>l. l\<lparr>lc_retryLimit := k\<rparr>)"

definition setSyncAckLossRate :: "real \<Rightarrow> node \<Rightarrow> node" where
  "setSyncAckLossRate p = on_central (\<lambda>c. c\<lparr>fc_syncAckLossRate := p\<rparr>)"

section \<open>The NDN stack of a node\<close>

text \<open>The attributes of \<^verbatim>\<open>L3Protocol\<close> that the helper sets, with their defaults.\<close>

record stack_attributes =
  EnableStatimPacket :: bool
  DoPull :: bool
  UseStatimEngine :: bool

definition stack_defaults :: stack_attributes where
  "stack_defaults = \<lparr>EnableStatimPacket = False, DoPull = False, UseStatimEngine = False\<rparr>"

text \<open>\<^verbatim>\<open>L3Protocol\<close>: without the engine it creates an NFD forwarder, which is not modelled.  A face is a network
  device, or \<open>None\<close> for the face of an application.\<close>

record l3_protocol =
  l3_attributes :: stack_attributes
  l3_statimEngine :: "node option"
  l3_statimFaces :: "device option list"

definition l3_initialize :: "env \<Rightarrow> stack_attributes \<Rightarrow> l3_protocol" where
  "l3_initialize env a =
     \<lparr>l3_attributes = a,
      l3_statimEngine = (if UseStatimEngine a
                         then Some (setEnableInterestReforwarding (DoPull a) (node_new env)) else None),
      l3_statimFaces = []\<rparr>"

definition addFace :: "device option \<Rightarrow> l3_protocol \<Rightarrow> l3_protocol" where
  "addFace face l3 =
     (case l3_statimEngine l3 of
        Some n \<Rightarrow>
          if UseStatimEngine (l3_attributes l3)
          then let l3 = l3\<lparr>l3_statimFaces := l3_statimFaces l3 @ [face]\<rparr> in
               (case face of
                  Some dev \<Rightarrow> l3\<lparr>l3_statimEngine :=
                    Some (on_engine (\<lambda>e. e\<lparr>en_ports := snd (addDevice dev (en_ports e))\<rparr>) n)\<rparr>
                | None \<Rightarrow> l3)
          else l3
      | None \<Rightarrow> l3)"

text \<open>\<^verbatim>\<open>StackHelper::Install\<close> on a node with the given devices; a second installation is a fatal error, \<open>None\<close>.\<close>

definition stack_Install :: "env \<Rightarrow> stack_attributes \<Rightarrow> device list \<Rightarrow> l3_protocol option \<Rightarrow> l3_protocol option" where
  "stack_Install env a devs l3 =
     (case l3 of
        Some _ \<Rightarrow> None
      | None \<Rightarrow> Some (fold (\<lambda>dev. addFace (Some dev)) devs (l3_initialize env a)))"

section \<open>The helper\<close>

record statim_helper =
  sh_stackAttributes :: stack_attributes
  sh_controllerDelay :: sim_time
  sh_flowTableFibEntryLifetime :: sim_time
  sh_temporaryFibEntryLifetime :: sim_time
  sh_statefulDelay :: sim_time
  sh_controllerRetryTimeout :: sim_time
  sh_enableInterestReforwarding :: bool
  sh_enableTemporaryFib :: bool
  sh_enableStatimPacket :: bool
  sh_experimentTelemetryEnabled :: bool
  sh_generationGuardEnabled :: bool
  sh_interestReforwardingLimit :: int
  sh_controllerRetryLimit :: int
  sh_syncAckLossRate :: real

definition helper_new :: statim_helper where
  "helper_new = \<lparr>sh_stackAttributes = \<lparr>EnableStatimPacket = True, DoPull = True, UseStatimEngine = True\<rparr>,
     sh_controllerDelay = 2000000000, sh_flowTableFibEntryLifetime = 0, sh_temporaryFibEntryLifetime = 0,
     sh_statefulDelay = 0, sh_controllerRetryTimeout = 0, sh_enableInterestReforwarding = True,
     sh_enableTemporaryFib = True, sh_enableStatimPacket = True, sh_experimentTelemetryEnabled = False,
     sh_generationGuardEnabled = False, sh_interestReforwardingLimit = 30, sh_controllerRetryLimit = 3,
     sh_syncAckLossRate = 0\<rparr>"

definition helper_SetEnableInterestReforwarding :: "bool \<Rightarrow> statim_helper \<Rightarrow> statim_helper" where
  "helper_SetEnableInterestReforwarding v h =
     h\<lparr>sh_enableInterestReforwarding := v, sh_stackAttributes := (sh_stackAttributes h)\<lparr>DoPull := v\<rparr>\<rparr>"

definition helper_SetEnableStatimPacket :: "bool \<Rightarrow> statim_helper \<Rightarrow> statim_helper" where
  "helper_SetEnableStatimPacket v h =
     h\<lparr>sh_enableStatimPacket := v, sh_stackAttributes := (sh_stackAttributes h)\<lparr>EnableStatimPacket := v\<rparr>\<rparr>"

definition ShouldEnableStatimPacketOnNode :: "statim_helper \<Rightarrow> bool" where
  "ShouldEnableStatimPacketOnNode h = sh_enableStatimPacket h"

definition ConfigureInstalledNode :: "nat \<Rightarrow> statim_helper \<Rightarrow> l3_protocol \<Rightarrow> l3_protocol" where
  "ConfigureInstalledNode node h l3 =
     (if UseStatimEngine (l3_attributes l3)
      then case l3_statimEngine l3 of
             None \<Rightarrow> l3
           | Some n \<Rightarrow>
               let l3 = l3\<lparr>l3_attributes := (l3_attributes l3)\<lparr>DoPull := sh_enableInterestReforwarding h\<rparr>\<rparr>;
                   n = setExperimentTelemetryEnabled (sh_experimentTelemetryEnabled h) n;
                   n = (if sh_experimentTelemetryEnabled h then setNodeId (of_nat node) n else n);
                   n = setControllerDelay (sh_controllerDelay h) n;
                   n = setEnableInterestReforwarding (sh_enableInterestReforwarding h) n;
                   n = setEnableTemporaryFib (sh_enableTemporaryFib h) n;
                   n = setStatefulDelay (sh_statefulDelay h) n;
                   n = setInterestReforwardingLimit (sh_interestReforwardingLimit h) n;
                   n = setControllerRetryTimeout (sh_controllerRetryTimeout h) n;
                   n = setControllerRetryLimit (sh_controllerRetryLimit h) n;
                   n = setGenerationGuardEnabled (sh_generationGuardEnabled h) n;
                   n = setSyncAckLossRate (sh_syncAckLossRate h) n
               in l3\<lparr>l3_statimEngine := Some n\<rparr>
      else l3)"

definition ConfigureEntryLifetimes :: "sim_time \<Rightarrow> sim_time \<Rightarrow> l3_protocol \<Rightarrow> exn + l3_protocol" where
  "ConfigureEntryLifetimes flowTable temporary l3 =
     (if UseStatimEngine (l3_attributes l3)
      then case l3_statimEngine l3 of
             None \<Rightarrow> Inr l3
           | Some n \<Rightarrow>
               bind_exn (if flowTable > 0 then setFlowTableFibEntryLifetime flowTable n else Inr n) (\<lambda>n.
               bind_exn (if temporary > 0 then setTemporaryFibEntryLifetime temporary n else Inr n) (\<lambda>n.
                 Inr (l3\<lparr>l3_statimEngine := Some n\<rparr>)))
      else Inr l3)"

definition helper_Install :: "env \<Rightarrow> statim_helper \<Rightarrow> nat \<Rightarrow> device list \<Rightarrow> l3_protocol option \<Rightarrow>
    (exn + l3_protocol) option" where
  "helper_Install env h node devs l3 =
     (let attrs = (sh_stackAttributes h)\<lparr>EnableStatimPacket := ShouldEnableStatimPacketOnNode h\<rparr> in
      case stack_Install env attrs devs l3 of
        None \<Rightarrow> None
      | Some l3 \<Rightarrow>
          let l3 = ConfigureInstalledNode node h l3 in
          Some (if sh_flowTableFibEntryLifetime h > 0 \<or> sh_temporaryFibEntryLifetime h > 0
                then ConfigureEntryLifetimes (sh_flowTableFibEntryLifetime h) (sh_temporaryFibEntryLifetime h) l3
                else Inr l3))"

section \<open>Static routes\<close>

text \<open>The face of the first hop towards a router: none, one without a device, or a network device.\<close>

datatype next_face = NullFace | OtherFace | DeviceFace device

record sim_node =
  sn_localPrefixes :: "name list option"
  sn_l3 :: "l3_protocol option"

text \<open>The routes to the local prefixes of one router.\<close>

definition install_prefixes :: "env \<Rightarrow> port \<Rightarrow> name list \<Rightarrow> switch \<Rightarrow> switch" where
  "install_prefixes env port names =
     fold (\<lambda>p. installFibEntry (e_sort env) (m_nameHashes (header_of_name (e_hash env) p)) port 0) names"

definition install_distance :: "env \<Rightarrow> (nat \<Rightarrow> name list) \<Rightarrow> nat \<Rightarrow> port_table \<Rightarrow> nat \<times> next_face \<Rightarrow> switch \<Rightarrow> switch" where
  "install_distance env names source ports = (\<lambda>(router, face) sw.
     if router = source then sw
     else case face of
            DeviceFace dev \<Rightarrow> install_prefixes env (getPort dev ports) (names router) sw
          | _ \<Rightarrow> sw)"

definition routes_of_node :: "env \<Rightarrow> (nat \<Rightarrow> (nat \<times> next_face) list) \<Rightarrow> (nat \<Rightarrow> sim_node) \<Rightarrow> nat \<Rightarrow> sim_node" where
  "routes_of_node env distances nodes k =
     (let sn = nodes k; names = (\<lambda>r. case sn_localPrefixes (nodes r) of Some ps \<Rightarrow> ps | None \<Rightarrow> []) in
      case (sn_localPrefixes sn, sn_l3 sn) of
        (Some _, Some l3) \<Rightarrow>
          if UseStatimEngine (l3_attributes l3)
          then case l3_statimEngine l3 of
                 Some n \<Rightarrow> sn\<lparr>sn_l3 := Some (l3\<lparr>l3_statimEngine :=
                   Some (n\<lparr>n_switch := fold (install_distance env names k (en_ports (n_engine n)))
                                         (distances k) (n_switch n)\<rparr>)\<rparr>)\<rparr>
               | None \<Rightarrow> sn
          else sn
      | _ \<Rightarrow> sn)"

definition CalculateStatimRoutes ::
  "env \<Rightarrow> (nat \<Rightarrow> (nat \<times> next_face) list) \<Rightarrow> nat list \<Rightarrow> (nat \<Rightarrow> sim_node) \<Rightarrow> nat \<Rightarrow> sim_node" where
  "CalculateStatimRoutes env distances nodeList nodes =
     fold (\<lambda>k nodes. nodes(k := routes_of_node env distances nodes k)) nodeList nodes"

section \<open>Installed nodes\<close>

lemma fold_addFace:
  assumes "l3_statimEngine l3 = Some n" and "UseStatimEngine (l3_attributes l3)"
  shows "\<exists>fs. fold (\<lambda>dev. addFace (Some dev)) devs l3 =
    l3\<lparr>l3_statimFaces := fs, l3_statimEngine := Some (on_engine (\<lambda>e. e\<lparr>en_ports := addDevices devs (en_ports e)\<rparr>) n)\<rparr>"
  using assms
proof (induction devs arbitrary: l3 n)
  case Nil
  then show ?case by (intro exI [of _ "l3_statimFaces l3"]) (simp add: addDevices_def on_engine_def)
next
  case (Cons d devs)
  let ?n = "on_engine (\<lambda>e. e\<lparr>en_ports := snd (addDevice d (en_ports e))\<rparr>) n"
  let ?l = "l3\<lparr>l3_statimFaces := l3_statimFaces l3 @ [Some d], l3_statimEngine := Some ?n\<rparr>"
  have step: "addFace (Some d) l3 = ?l" using Cons.prems by (simp add: addFace_def)
  obtain fs where "fold (\<lambda>dev. addFace (Some dev)) devs ?l =
      ?l\<lparr>l3_statimFaces := fs, l3_statimEngine := Some (on_engine (\<lambda>e. e\<lparr>en_ports := addDevices devs (en_ports e)\<rparr>) ?n)\<rparr>"
    using Cons.IH [of ?l ?n] Cons.prems by auto
  then show ?case by (auto simp: step addDevices_def on_engine_def)
qed

text \<open>A helper that installs engines.\<close>

definition helper_ok :: "statim_helper \<Rightarrow> bool" where
  "helper_ok h \<longleftrightarrow> UseStatimEngine (sh_stackAttributes h) \<and> 0 \<le> sh_statefulDelay h"

text \<open>The installed engine: the new one with its ports and the configuration.\<close>

lemma helper_Install_node:
  assumes env: "env_ok env" and h: "helper_ok h"
  shows "\<exists>l3 n. helper_Install env h k devs None = Some (Inr l3) \<and> UseStatimEngine (l3_attributes l3) \<and>
    l3_statimEngine l3 = Some n \<and> node_start env n \<and> n_switch n = initPipeline (e_sort env) switch_new \<and>
    en_ports (n_engine n) = addDevices devs ports_new \<and>
    (sh_generationGuardEnabled h \<longrightarrow> seamless_start env n)"
proof -
  let ?a = "(sh_stackAttributes h)\<lparr>EnableStatimPacket := ShouldEnableStatimPacketOnNode h\<rparr>"
  let ?n0 = "on_engine (\<lambda>e. e\<lparr>en_ports := addDevices devs (en_ports e)\<rparr>)
     (setEnableInterestReforwarding (DoPull ?a) (node_new env))"
  obtain fs where stack: "stack_Install env ?a devs None =
      Some ((l3_initialize env ?a)\<lparr>l3_statimFaces := fs, l3_statimEngine := Some ?n0\<rparr>)"
    using fold_addFace [of "l3_initialize env ?a"] h
    by (force simp: stack_Install_def l3_initialize_def helper_ok_def)
  have new: "node_start env (node_new env)" by (rule node_start_new [OF env])
  define n1 where "n1 = the (l3_statimEngine (ConfigureInstalledNode k h
      ((l3_initialize env ?a)\<lparr>l3_statimFaces := fs, l3_statimEngine := Some ?n0\<rparr>)))"
  have n1: "node_start env n1" "n_switch n1 = initPipeline (e_sort env) switch_new"
    "en_ports (n_engine n1) = addDevices devs ports_new"
    "sh_generationGuardEnabled h \<Longrightarrow> seamless_start env n1"
    "\<exists>a. UseStatimEngine a \<and> ConfigureInstalledNode k h
      ((l3_initialize env ?a)\<lparr>l3_statimFaces := fs, l3_statimEngine := Some ?n0\<rparr>) =
      \<lparr>l3_attributes = a, l3_statimEngine = Some n1, l3_statimFaces = fs\<rparr>"
    using h new
    by (simp_all add: n1_def ConfigureInstalledNode_def l3_initialize_def helper_ok_def Let_def
        node_start_def seamless_start_def engine_ok_def node_new_def flow_controller_new_def
        setExperimentTelemetryEnabled_def setNodeId_def setControllerDelay_def setEnableInterestReforwarding_def
        setEnableTemporaryFib_def setStatefulDelay_def setInterestReforwardingLimit_def
        setControllerRetryTimeout_def setControllerRetryLimit_def setGenerationGuardEnabled_def
        setSyncAckLossRate_def engine_new_def)
  then obtain a where a: "UseStatimEngine a" "ConfigureInstalledNode k h
      ((l3_initialize env ?a)\<lparr>l3_statimFaces := fs, l3_statimEngine := Some ?n0\<rparr>) =
      \<lparr>l3_attributes = a, l3_statimEngine = Some n1, l3_statimFaces = fs\<rparr>" (is "_ = ?l3") by blast
  let ?ft = "sh_flowTableFibEntryLifetime h" and ?tt = "sh_temporaryFibEntryLifetime h"
  define n2 where "n2 = (if ?ft > 0 then on_engine (\<lambda>e. e\<lparr>en_flowTableLifetime := ?ft\<rparr>) n1 else n1)"
  define n3 where "n3 = (if ?tt > 0 then (on_engine (\<lambda>e. e\<lparr>en_temporaryLifetime := ?tt\<rparr>) n2)
      \<lparr>n_local := (n_local n2)\<lparr>lc_entryLifetime := ?tt\<rparr>\<rparr> else n2)"
  have life: "(if ?ft > 0 \<or> ?tt > 0 then ConfigureEntryLifetimes ?ft ?tt ?l3 else Inr ?l3) =
      Inr (?l3\<lparr>l3_statimEngine := Some n3\<rparr>)"
    using a(1) by (simp add: ConfigureEntryLifetimes_def setFlowTableFibEntryLifetime_def
        setTemporaryFibEntryLifetime_def setEntryLifetime_def n2_def n3_def Let_def)
  have n3: "node_start env n3" "n_switch n3 = n_switch n1" "en_ports (n_engine n3) = en_ports (n_engine n1)"
    "seamless_start env n1 \<Longrightarrow> seamless_start env n3"
    using n1(1) by (auto simp: n2_def n3_def node_start_def seamless_start_def engine_ok_def)
  have "helper_Install env h k devs None = Some (Inr (?l3\<lparr>l3_statimEngine := Some n3\<rparr>))"
    using life unfolding helper_Install_def Let_def stack option.case a(2) by (simp only:)
  then show ?thesis using a(1) n1 n3 by force
qed

section \<open>Routes of the installed nodes\<close>

text \<open>The assignments of ports to hash tuples at one node, in the order of the code.\<close>

definition static_routes :: "env \<Rightarrow> (nat \<Rightarrow> name list) \<Rightarrow> nat \<Rightarrow> port_table \<Rightarrow> (nat \<times> next_face) list \<Rightarrow>
    (byte list \<times> port) list" where
  "static_routes env names source ports ds =
     [(nameHashesOf (e_hash env) p, getPort dev ports). (router, face) \<leftarrow> ds, router \<noteq> source,
        dev \<leftarrow> (case face of DeviceFace dev \<Rightarrow> [dev] | _ \<Rightarrow> []), p \<leftarrow> names router]"

definition install_all :: "env \<Rightarrow> (byte list \<times> port) list \<Rightarrow> switch \<Rightarrow> switch" where
  "install_all env = fold (\<lambda>(hs, p). installFibEntry (e_sort env) hs p 0)"

lemma install_distances:
  "fold (install_distance env names k ports) ds sw = install_all env (static_routes env names k ports ds) sw"
proof (induction ds arbitrary: sw)
  case (Cons d ds)
  have one: "fold (\<lambda>p. installFibEntry (e_sort env) (nameHashesOf (e_hash env) p) pt 0) ps sw =
      install_all env (map (\<lambda>p. (nameHashesOf (e_hash env) p, pt)) ps) sw" for pt ps sw
    by (induction ps arbitrary: sw) (simp_all add: install_all_def)
  have app: "install_all env (xs @ ys) sw = install_all env ys (install_all env xs sw)" for xs ys sw
    by (simp add: install_all_def)
  have nil: "install_all env [] sw = sw" for sw by (simp add: install_all_def)
  show ?case
    using Cons.IH
    by (cases d; cases "snd d")
      (auto simp: static_routes_def install_distance_def install_prefixes_def one app nil)
qed (simp add: static_routes_def install_all_def)

lemma install_all_routes:
  assumes "priority_sorter (e_sort env)" and "switch_ok sw" and "\<And>hs p. (hs, p) \<in> set rs \<Longrightarrow> hashes_ok hs"
  shows "switch_ok (install_all env rs sw) \<and>
    (has_route (fib_entries (install_all env rs sw)) hs p x \<longleftrightarrow>
       (case map_of (rev rs) hs of Some q \<Rightarrow> p = q \<and> x \<le> 0 | None \<Rightarrow> has_route (fib_entries sw) hs p x))"
  using assms(2,3)
proof (induction rs arbitrary: sw)
  case (Cons r rs)
  obtain h q where r: "r = (h, q)" by fastforce
  let ?sw = "installFibEntry (e_sort env) h q 0 sw"
  have "hashes_ok h" using Cons.prems(2) [of h q] r by simp
  have tail: "\<And>hs p. (hs, p) \<in> set rs \<Longrightarrow> hashes_ok hs" using Cons.prems(2) r by auto
  note one = installed_route [OF assms(1) Cons.prems(1) \<open>hashes_ok h\<close>]
  have ok: "switch_ok ?sw" using one by blast
  have "max x 0 = max 0 0 \<longleftrightarrow> x \<le> 0" by auto
  then have "has_route (fib_entries ?sw) hs p x \<longleftrightarrow> (if hs = h then p = q \<and> x \<le> 0 else has_route (fib_entries sw) hs p x)"
    using one [of q 0 hs p x] by simp
  then show ?case
    using Cons.IH [OF ok tail] r by (simp add: install_all_def map_add_def split: option.splits)
qed (simp add: install_all_def)

lemma CalculateStatimRoutes_node:
  assumes "distinct ids" and "k \<in> set ids"
  shows "CalculateStatimRoutes env distances ids nodes k = routes_of_node env distances nodes k"
proof -
  have same: "routes_of_node env distances nodes1 k = routes_of_node env distances nodes2 k"
    if "nodes1 k = nodes2 k" "\<And>r. sn_localPrefixes (nodes1 r) = sn_localPrefixes (nodes2 r)" for nodes1 nodes2 k
    using that by (simp add: routes_of_node_def)
  have keep: "sn_localPrefixes (routes_of_node env distances nodes k) = sn_localPrefixes (nodes k)" for nodes k
    by (simp add: routes_of_node_def Let_def split: option.splits)
  have other: "j \<notin> set ids \<Longrightarrow> CalculateStatimRoutes env distances ids nodes j = nodes j" for ids nodes j
    unfolding CalculateStatimRoutes_def by (induction ids arbitrary: nodes) auto
  show ?thesis
    using assms
  proof (induction ids arbitrary: nodes)
    case (Cons j ids)
    let ?nodes = "nodes(j := routes_of_node env distances nodes j)"
    have step: "CalculateStatimRoutes env distances (j # ids) nodes = CalculateStatimRoutes env distances ids ?nodes"
      by (simp add: CalculateStatimRoutes_def)
    show ?case
    proof (cases "k = j")
      case True
      then show ?thesis using Cons.prems(1) other [of j ids ?nodes] by (simp add: step)
    next
      case False
      then have "routes_of_node env distances ?nodes k = routes_of_node env distances nodes k"
        by (intro same) (auto simp: keep)
      then show ?thesis using Cons False by (simp add: step)
    qed
  qed simp
qed

text \<open>The names a router announces.\<close>

definition local_names :: "(nat \<Rightarrow> sim_node) \<Rightarrow> nat \<Rightarrow> name list" where
  "local_names nodes r = (case sn_localPrefixes (nodes r) of Some ps \<Rightarrow> ps | None \<Rightarrow> [])"

text \<open>C17. After installation and the computation of routes, a router node with the engine is a start
  state of the runs considered here, also with the generation guards when they are configured;
  its devices have the ports 1, 2, ... in order; and its switch holds, for every hash tuple, exactly
  the permanent route of the last assignment that the shortest paths make to the tuple.\<close>

theorem installed_router_routes:
  assumes "env_ok env" and "helper_ok h" and "helper_Install env h k devs None = Some (Inr l3)"
    and "sn_l3 (nodes k) = Some l3" and "sn_localPrefixes (nodes k) \<noteq> None"
    and "distinct ids" and "k \<in> set ids" and "distinct devs" and "length devs \<le> 65535"
  shows "\<exists>l3' n. sn_l3 (CalculateStatimRoutes env distances ids nodes k) = Some l3' \<and>
    l3_statimEngine l3' = Some n \<and> node_start env n \<and>
    (sh_generationGuardEnabled h \<longrightarrow> seamless_start env n) \<and>
    (\<forall>i < length devs. getDevice (of_nat (i + 1)) (en_ports (n_engine n)) = Some (devs ! i) \<and>
       getPort (devs ! i) (en_ports (n_engine n)) = of_nat (i + 1)) \<and>
    (\<forall>hs p x. has_route (fib_entries (n_switch n)) hs p x \<longleftrightarrow>
       map_of (rev (static_routes env (local_names nodes) k (en_ports (n_engine n)) (distances k))) hs = Some p \<and> x \<le> 0)"
proof -
  obtain n where n: "UseStatimEngine (l3_attributes l3)" "l3_statimEngine l3 = Some n" "node_start env n"
    "n_switch n = initPipeline (e_sort env) switch_new" "en_ports (n_engine n) = addDevices devs ports_new"
    "sh_generationGuardEnabled h \<Longrightarrow> seamless_start env n"
    using helper_Install_node [OF assms(1,2), of k devs] assms(3) by auto
  let ?rs = "static_routes env (local_names nodes) k (en_ports (n_engine n)) (distances k)"
  let ?n = "n\<lparr>n_switch := install_all env ?rs (n_switch n)\<rparr>"
  have names: "local_names nodes = (\<lambda>r. case sn_localPrefixes (nodes r) of Some ps \<Rightarrow> ps | None \<Rightarrow> [])"
    by (simp add: fun_eq_iff local_names_def)
  have node: "sn_l3 (CalculateStatimRoutes env distances ids nodes k) = Some (l3\<lparr>l3_statimEngine := Some ?n\<rparr>)"
    using CalculateStatimRoutes_node [OF assms(6,7), of env distances nodes] assms(4,5) n(1,2)
    by (auto simp: routes_of_node_def Let_def names install_distances)
  have sort: "priority_sorter (e_sort env)" using assms(1) by (simp add: env_ok_def)
  have hs: "hashes_ok hs" if "(hs, p) \<in> set ?rs" for hs p
    using that by (auto simp: static_routes_def hashes_ok_of_name split: if_splits)
  have sw: "switch_ok (n_switch n)" using n(3) by (simp add: node_start_def)
  have "\<not> has_route (fib_entries (n_switch n)) hs p x" for hs p x
    using initPipeline_well_formed [OF sort]
    by (auto simp: n(4) has_route_def fib_entry_def fib_default_def mkEntry_def fib_fields_def)
  then have routes: "has_route (fib_entries (n_switch ?n)) hs p x \<longleftrightarrow> map_of (rev ?rs) hs = Some p \<and> x \<le> 0" for hs p x
    using install_all_routes [OF sort sw hs, where hs = hs and p = p and x = x] by (auto split: option.splits)
  have "switch_ok (n_switch ?n)" using install_all_routes [OF sort sw hs] by simp
  then have start: "node_start env ?n" "sh_generationGuardEnabled h \<Longrightarrow> seamless_start env ?n"
    using n(3,6) by (auto simp: node_start_def seamless_start_def)
  show ?thesis
    using node start routes port_table_sequential [OF assms(8,9)]
    by (intro exI [of _ "l3\<lparr>l3_statimEngine := Some ?n\<rparr>"] exI [of _ ?n]) (simp add: n(5))
qed

text \<open>Two routers joined by one link; the second announces \<open>/rv\<close>.\<close>

definition sample_topology :: "l3_protocol \<Rightarrow> nat \<Rightarrow> sim_node" where
  "sample_topology l3 k = (if k = 0 then \<lparr>sn_localPrefixes = Some [], sn_l3 = Some l3\<rparr>
     else \<lparr>sn_localPrefixes = Some [[component_of_string ''rv'']], sn_l3 = None\<rparr>)"

definition sample_distances :: "nat \<Rightarrow> (nat \<times> next_face) list" where
  "sample_distances k = [(0, NullFace), (1, DeviceFace 40)]"

theorem installed_router_routes_witness:
  "\<exists>l3 l3' n. helper_Install sample_env helper_new 0 [40] None = Some (Inr l3) \<and>
     sn_l3 (CalculateStatimRoutes sample_env sample_distances [0, 1] (sample_topology l3) 0) = Some l3' \<and>
     l3_statimEngine l3' = Some n \<and>
     has_route (fib_entries (n_switch n)) (nameHashesOf (e_hash sample_env) [component_of_string ''rv'']) 1 0"
proof -
  have ok: "helper_ok helper_new" by (simp add: helper_ok_def helper_new_def)
  obtain l3 where l3: "helper_Install sample_env helper_new 0 [40] None = Some (Inr l3)"
    using helper_Install_node [OF env_ok_sample ok] by blast
  obtain l3' n where n: "sn_l3 (CalculateStatimRoutes sample_env sample_distances [0, 1] (sample_topology l3) 0) = Some l3'"
    "l3_statimEngine l3' = Some n" "getPort 40 (en_ports (n_engine n)) = 1"
    "\<And>hs p x. has_route (fib_entries (n_switch n)) hs p x \<longleftrightarrow>
       map_of (rev (static_routes sample_env (local_names (sample_topology l3)) 0 (en_ports (n_engine n))
         (sample_distances 0))) hs = Some p \<and> x \<le> 0"
    using installed_router_routes [OF env_ok_sample ok l3, of "sample_topology l3" "[0, 1]" sample_distances]
    by (auto simp: sample_topology_def)
  have "static_routes sample_env (local_names (sample_topology l3)) 0 (en_ports (n_engine n)) (sample_distances 0) =
      [(nameHashesOf (e_hash sample_env) [component_of_string ''rv''], 1)]"
    using n(3) by (simp add: static_routes_def sample_distances_def local_names_def sample_topology_def)
  with n l3 show ?thesis by auto
qed

end
