(* ===== verification/Event_Loop.thy ===== *)
theory Event_Loop
  imports Simulator
begin

text \<open>
  What the clients of the event loop rely on: \<^verbatim>\<open>EventId\<close> variables that may be unset,
  cancellation through an id that was obtained from \<^verbatim>\<open>Schedule\<close>, and the loop of
  \<^verbatim>\<open>DefaultSimulatorImpl::Run\<close> over the events of one client.  The locale \<open>event_loop\<close> is the
  interface of that loop; the nodes and the applications interpret it.
\<close>

section \<open>Event ids\<close>

definition IsRunning :: "event_id option \<Rightarrow> 'e sim \<Rightarrow> bool" where
  "IsRunning i s = (case i of None \<Rightarrow> False | Some i \<Rightarrow> \<not> IsExpired i s)"

definition CancelId :: "event_id option \<Rightarrow> 'e sim \<Rightarrow> 'e sim" where
  "CancelId i s = (case i of None \<Rightarrow> s | Some i \<Rightarrow> Cancel i s)"

definition Remove :: "event_id option \<Rightarrow> 'e sim \<Rightarrow> 'e sim" where
  "Remove i s =
     (case i of
        None \<Rightarrow> s
      | Some i \<Rightarrow> if IsExpired i s then s else s\<lparr>m_events := filter (\<lambda>e. m_event_uid e \<noteq> id_uid i) (m_events s)\<rparr>)"

text \<open>An id that \<^verbatim>\<open>Schedule\<close> returned for the action \<open>a\<close>: its event has left the queue or is
  still there, cancelled or not.\<close>

definition known_id :: "'e sim \<Rightarrow> 'e \<Rightarrow> event_id \<Rightarrow> bool" where
  "known_id s a i \<longleftrightarrow> past_id s i \<or> (\<exists>e \<in> set (m_events s). event_id_of e = i \<and> m_impl e = a)"

definition known :: "'e sim \<Rightarrow> 'e \<Rightarrow> event_id option \<Rightarrow> bool" where
  "known s a i \<longleftrightarrow> (case i of None \<Rightarrow> True | Some i \<Rightarrow> known_id s a i)"

lemma known_None [simp]: "known s a None"
  by (simp add: known_def)

lemma known_Schedule: "known s a i \<Longrightarrow> known (snd (Schedule d b s)) a i"
  by (auto simp: known_def known_id_def Schedule_def Let_def past_id_def split: option.splits)

lemma known_Schedule_new: "known (snd (Schedule d a s)) a (Some (fst (Schedule d a s)))"
  by (simp add: known_def known_id_def Schedule_def Let_def event_id_of_def)

lemma known_Cancel: "known s a i \<Longrightarrow> known (Cancel j s) a i"
proof -
  let ?f = "\<lambda>e. if m_event_uid e = id_uid j then e\<lparr>m_cancel := True\<rparr> else e"
  have f: "event_id_of (?f e) = event_id_of e" "m_impl (?f e) = m_impl e" for e by (simp_all add: event_id_of_def)
  have "\<exists>x \<in> set (m_events (Cancel j s)). event_id_of x = event_id_of e \<and> m_impl x = m_impl e"
    if "e \<in> set (m_events s)" for e
  proof (cases "IsExpired j s")
    case False
    then have "set (m_events (Cancel j s)) = ?f ` set (m_events s)" by (simp only: Cancel_def) simp
    then have "?f e \<in> set (m_events (Cancel j s))" using imageI [OF that, of ?f] by (simp only:)
    with conjI [OF f] show ?thesis by (rule bexI)
  qed (use that in \<open>auto simp: Cancel_def\<close>)
  then show "known s a i \<Longrightarrow> known (Cancel j s) a i"
    by (cases i) (auto simp: known_def known_id_def)
qed

lemma known_CancelId: "known s a i \<Longrightarrow> known (CancelId j s) a i"
  by (simp add: CancelId_def known_Cancel split: option.splits)

lemma known_pop:
  assumes "sim_ok s" and "ProcessOneEvent s = Some (r, s')" and "known s a i"
  shows "known s' a i"
proof (cases i)
  case (Some j)
  obtain e es where es: "m_events s = e # es"
    and s': "s' = s\<lparr>m_currentTs := m_ts e, m_currentUid := m_event_uid e, m_events := es\<rparr>"
    using assms(2) by (auto simp: ProcessOneEvent_def split: list.splits)
  have "past_id s' (event_id_of e)" by (simp add: s' past_id_def event_id_of_def)
  then show ?thesis
    using assms(3) past_id_ProcessOneEvent [OF assms(1,2)] Some es
    by (auto simp: known_def known_id_def s')
qed simp

lemma live_timers_CancelId:
  assumes ok: "sim_ok s" and k: "known s a i"
  shows "live_timers (CancelId i s) = live_timers s - {(b, j). Some j = i}"
proof (cases i)
  case (Some j)
  have inj: "inj_on m_event_uid (set (m_events s))" using ok by (simp add: sim_ok_def distinct_map)
  show ?thesis
  proof (cases "\<exists>b. (b, j) \<in> live_timers s")
    case True
    then obtain b where "(b, j) \<in> live_timers s" by blast
    then show ?thesis
      using live_timers_Cancel [OF ok] live_id_unique [OF ok] Some by (fastforce simp: CancelId_def)
  next
    case False
    have "Cancel j s = s"
    proof (cases "past_id s j")
      case no: False
      then obtain e where e: "e \<in> set (m_events s)" "event_id_of e = j"
        using k Some by (auto simp: known_def known_id_def)
      then have "m_cancel e" using False by (auto simp: live_timers_def)
      then have "IsExpired j s" using e by (auto simp: IsExpired_def event_id_of_def)
      then show ?thesis by (simp add: Cancel_def)
    qed (rule Cancel_past)
    then show ?thesis using False Some by (auto simp: CancelId_def)
  qed
qed (simp add: CancelId_def)

lemma sim_ok_CancelId: "sim_ok s \<Longrightarrow> sim_ok (CancelId i s)"
  by (simp add: CancelId_def sim_ok_Cancel split: option.splits)

lemma CancelId_frame [simp, frame]:
  "Now (CancelId i s) = Now s" "m_uid (CancelId i s) = m_uid s" "past_id (CancelId i s) = past_id s"
  by (auto simp: CancelId_def Cancel_def Now_def past_id_def fun_eq_iff split: option.splits)

text \<open>\<^verbatim>\<open>Simulator::Remove\<close> takes the event out of the queue; an id whose event has left it is ignored.\<close>

lemma Remove_past: "past_id s i \<Longrightarrow> Remove (Some i) s = s"
  by (auto simp: Remove_def IsExpired_def past_id_def)

lemma Remove_frame [simp, frame]:
  "Now (Remove i s) = Now s" "m_uid (Remove i s) = m_uid s" "past_id (Remove i s) = past_id s"
  by (auto simp: Remove_def Now_def past_id_def fun_eq_iff split: option.splits)

lemma sim_ok_Remove: "sim_ok s \<Longrightarrow> sim_ok (Remove i s)"
  by (auto simp: Remove_def sim_ok_def list_all_iff after_now_def sorted_wrt_filter distinct_map_filter split: option.splits)

lemma live_timers_Remove:
  assumes ok: "sim_ok s" and live: "(a, i) \<in> live_timers s"
  shows "live_timers (Remove (Some i) s) = live_timers s - {(a, i)}"
proof -
  have inj: "inj_on m_event_uid (set (m_events s))" using ok by (simp add: sim_ok_def distinct_map)
  obtain e where e: "e \<in> set (m_events s)" "\<not> m_cancel e" "event_id_of e = i" "m_impl e = a"
    using live by (auto simp: live_timers_def)
  have "\<not> IsExpired i s"
    using e ok inj by (auto simp: IsExpired_def event_id_of_def sim_ok_def list_all_iff after_now_def dest: inj_onD)
  moreover have "x = e" if "x \<in> set (m_events s)" "m_event_uid x = id_uid i" for x
    using that e inj by (auto simp: event_id_of_def dest: inj_onD)
  moreover have "m_event_uid x = id_uid i" if "event_id_of x = i" for x using that by (auto simp: event_id_of_def)
  ultimately show ?thesis using e unfolding Remove_def live_timers_def by auto
qed

text \<open>\<^verbatim>\<open>if (id.IsRunning()) Simulator::Cancel(id)\<close> is \<^verbatim>\<open>Simulator::Cancel(id)\<close>.\<close>

lemma cancel_if_running [simp]: "(if IsRunning i s then CancelId i s else s) = CancelId i s"
  by (simp add: IsRunning_def CancelId_def Cancel_def split: option.splits)

lemma new_id_unknown: "sim_ok s \<Longrightarrow> 0 \<le> d \<Longrightarrow> \<not> known s b (Some (fst (Schedule d a s)))"
  by (auto simp: known_def known_id_def Schedule_id past_id_def event_id_of_def sim_ok_def list_all_iff
      after_now_def Now_def)

section \<open>The loop\<close>

locale event_loop =
  fixes sim_of :: "'s \<Rightarrow> 'e sim" and set_sim :: "'e sim \<Rightarrow> 's \<Rightarrow> 's"
    and handle :: "'e \<Rightarrow> 's \<Rightarrow> exn + 's" and loop :: "nat \<Rightarrow> 's \<Rightarrow> exn + 's"
  assumes sim_set: "sim_of (set_sim sm x) = sm"
    and set_set: "set_sim sm (set_sim sm' x) = set_sim sm x"
    and set_self: "set_sim (sim_of x) x = x"
    and loop_0: "loop 0 x = Inr x"
    and loop_idle: "ProcessOneEvent (sim_of x) = None \<Longrightarrow> loop k x = Inr x"
    and loop_skip: "ProcessOneEvent (sim_of x) = Some (None, sm) \<Longrightarrow> loop (Suc k) x = loop k (set_sim sm x)"
    and loop_run: "ProcessOneEvent (sim_of x) = Some (Some a, sm) \<Longrightarrow>
      loop (Suc k) x = bind_exn (handle a (set_sim sm x)) (loop k)"
begin

lemma loop_after:
  assumes "\<forall>f. loop (k + Suc f) x = loop f y" and "\<forall>f \<ge> k'. loop f y = r"
  shows "\<forall>f \<ge> k + Suc k'. loop f x = r"
proof (intro allI impI)
  fix f assume f: "k + Suc k' \<le> f"
  then have "k' \<le> f - Suc k" by simp
  then have "loop (k + Suc (f - Suc k)) x = r" using assms by metis
  moreover have "k + Suc (f - Suc k) = f" using f by simp
  ultimately show "loop f x = r" by simp
qed

text \<open>Cancelled events are skipped until the first live one is reached, or the queue is empty.\<close>

lemma loop_next:
  assumes "sim_ok (sim_of x)"
  shows "(live_timers (sim_of x) = {} \<longrightarrow>
      (\<exists>k sm. m_events sm = [] \<and> sim_ok sm \<and> (\<forall>f \<ge> k. loop f x = Inr (set_sim sm x)))) \<and>
    (live_timers (sim_of x) \<noteq> {} \<longrightarrow>
      (\<exists>k sm sm' a. ProcessOneEvent sm = Some (Some a, sm') \<and> sim_ok sm \<and> live_timers sm = live_timers (sim_of x) \<and>
        (\<forall>b i. known (sim_of x) b i \<longrightarrow> known sm b i) \<and>
        (\<forall>f. loop (k + Suc f) x = bind_exn (handle a (set_sim sm' x)) (loop f))))"
  using assms
proof (induction "length (m_events (sim_of x))" arbitrary: x)
  case 0
  then have p: "ProcessOneEvent (sim_of x) = None" "live_timers (sim_of x) = {}"
    by (auto simp: ProcessOneEvent_def live_timers_def)
  then have "loop f x = Inr (set_sim (sim_of x) x)" for f using loop_idle by (simp add: set_self)
  then show ?case using 0 p(2) by (metis length_0_conv)
next
  case (Suc l)
  then obtain e es where es: "m_events (sim_of x) = e # es" by (cases "m_events (sim_of x)") auto
  let ?sm = "(sim_of x)\<lparr>m_currentTs := m_ts e, m_currentUid := m_event_uid e, m_events := es\<rparr>"
  show ?case
  proof (cases "m_cancel e")
    case False
    then have pop: "ProcessOneEvent (sim_of x) = Some (Some (m_impl e), ?sm)"
      by (simp add: ProcessOneEvent_def es)
    moreover have "live_timers (sim_of x) \<noteq> {}" using False es by (auto simp: live_timers_def)
    moreover have "loop (0 + Suc f) x = bind_exn (handle (m_impl e) (set_sim ?sm x)) (loop f)" for f
      using loop_run [OF pop] by simp
    ultimately show ?thesis using Suc.prems by blast
  next
    case True
    then have pop: "ProcessOneEvent (sim_of x) = Some (None, ?sm)" by (simp add: ProcessOneEvent_def es)
    have ok: "sim_ok ?sm" using sim_ok_ProcessOneEvent [OF Suc.prems pop] by simp
    have live: "live_timers ?sm = live_timers (sim_of x)"
      using live_timers_ProcessOneEvent [OF Suc.prems pop] by simp
    have len: "l = length (m_events (sim_of (set_sim ?sm x)))" using Suc.hyps(2) es by (simp add: sim_set)
    note IH = Suc.hyps(1) [OF len, unfolded sim_set set_set, OF ok, unfolded live]
    have step: "loop (Suc f) x = loop f (set_sim ?sm x)" for f by (rule loop_skip [OF pop])
    show ?thesis
    proof (cases "live_timers (sim_of x) = {}")
      case True
      then obtain k sm where k: "m_events sm = []" "sim_ok sm" "\<forall>f \<ge> k. loop f (set_sim ?sm x) = Inr (set_sim sm x)"
        using IH by blast
      then have "loop f x = Inr (set_sim sm x)" if "Suc k \<le> f" for f using that step by (cases f) auto
      then show ?thesis using k True by blast
    next
      case False
      then obtain k sm sm' a where k: "ProcessOneEvent sm = Some (Some a, sm')" "sim_ok sm"
        "live_timers sm = live_timers (sim_of x)" "\<forall>b i. known ?sm b i \<longrightarrow> known sm b i"
        "\<forall>f. loop (k + Suc f) (set_sim ?sm x) = bind_exn (handle a (set_sim sm' x)) (loop f)"
        using IH by blast
      then have "loop (Suc k + Suc f) x = bind_exn (handle a (set_sim sm' x)) (loop f)" for f
        using step by simp
      then show ?thesis using k known_pop [OF Suc.prems pop] False by blast
    qed
  qed
qed

end

end
