(* ===== verification/Point_To_Point.thy ===== *)
theory Point_To_Point
  imports Complex_Main Event_Loop
begin

text \<open>
  The links between the nodes: the point-to-point devices and channels of ns-3
  (\<^verbatim>\<open>point-to-point/model/point-to-point-net-device.cc\<close>, \<^verbatim>\<open>point-to-point-channel.cc\<close>) with their
  drop-tail queues (\<^verbatim>\<open>network/utils/drop-tail-queue.cc\<close>, \<^verbatim>\<open>queue.cc\<close>) and the rate error model
  (\<^verbatim>\<open>error-model.cc\<close>) that the scenarios use to cut a link.  Shown: the assertions of the transmitter
  hold, it never idles with packets in its queue, and each direction of a link is a FIFO queue, whatever the
  sizes of the packets.

  The packets are those on the wire; the two octets of PPP header that \<^verbatim>\<open>Send\<close> adds and
  \<^verbatim>\<open>Receive\<close> removes count in their size.  Parameters: the sizes, the transmission time that the data
  rate gives a size (a floating-point division), the numbers drawn by the error models.
\<close>

section \<open>Drop-tail queue\<close>

datatype queue_mode = QUEUE_MODE_PACKETS | QUEUE_MODE_BYTES

record 'p drop_tail =
  dt_packets :: "'p list"
  dt_bytesInQueue :: u32
  dt_mode :: queue_mode
  dt_maxPackets :: u32
  dt_maxBytes :: u32
  q_nBytes :: u32
  q_nPackets :: u32
  q_nTotalReceivedBytes :: u32
  q_nTotalReceivedPackets :: u32
  q_nTotalDroppedBytes :: u32
  q_nTotalDroppedPackets :: u32

definition drop_tail_new :: "'p drop_tail" where
  "drop_tail_new = \<lparr>dt_packets = [], dt_bytesInQueue = 0, dt_mode = QUEUE_MODE_PACKETS, dt_maxPackets = 100,
     dt_maxBytes = 100 * 65535, q_nBytes = 0, q_nPackets = 0, q_nTotalReceivedBytes = 0,
     q_nTotalReceivedPackets = 0, q_nTotalDroppedBytes = 0, q_nTotalDroppedPackets = 0\<rparr>"

definition queue_Drop :: "u32 \<Rightarrow> 'p drop_tail \<Rightarrow> 'p drop_tail" where
  "queue_Drop k q =
     q\<lparr>q_nTotalDroppedPackets := q_nTotalDroppedPackets q + 1,
       q_nTotalDroppedBytes := q_nTotalDroppedBytes q + k\<rparr>"

text \<open>\<^verbatim>\<open>m_packets.size ()\<close> is a \<^verbatim>\<open>size_t\<close>, the sum of bytes is computed in 32 bits.\<close>

definition DoEnqueue :: "('p \<Rightarrow> u32) \<Rightarrow> 'p \<Rightarrow> 'p drop_tail \<Rightarrow> bool \<times> 'p drop_tail" where
  "DoEnqueue sz p q =
     (if dt_mode q = QUEUE_MODE_PACKETS \<and> length (dt_packets q) \<ge> unat (dt_maxPackets q)
      then (False, queue_Drop (sz p) q)
      else if dt_mode q = QUEUE_MODE_BYTES \<and> dt_bytesInQueue q + sz p \<ge> dt_maxBytes q
      then (False, queue_Drop (sz p) q)
      else (True, q\<lparr>dt_bytesInQueue := dt_bytesInQueue q + sz p, dt_packets := dt_packets q @ [p]\<rparr>))"

definition queue_Enqueue :: "('p \<Rightarrow> u32) \<Rightarrow> 'p \<Rightarrow> 'p drop_tail \<Rightarrow> bool \<times> 'p drop_tail" where
  "queue_Enqueue sz p q =
     (let (retval, q) = DoEnqueue sz p q in
      (retval,
       if retval
       then q\<lparr>q_nBytes := q_nBytes q + sz p, q_nTotalReceivedBytes := q_nTotalReceivedBytes q + sz p,
              q_nPackets := q_nPackets q + 1, q_nTotalReceivedPackets := q_nTotalReceivedPackets q + 1\<rparr>
       else q))"

definition DoDequeue :: "('p \<Rightarrow> u32) \<Rightarrow> 'p drop_tail \<Rightarrow> 'p option \<times> 'p drop_tail" where
  "DoDequeue sz q =
     (case dt_packets q of
        [] \<Rightarrow> (None, q)
      | p # ps \<Rightarrow> (Some p, q\<lparr>dt_packets := ps, dt_bytesInQueue := dt_bytesInQueue q - sz p\<rparr>))"

definition queue_Dequeue :: "('p \<Rightarrow> u32) \<Rightarrow> 'p drop_tail \<Rightarrow> 'p option \<times> 'p drop_tail" where
  "queue_Dequeue sz q =
     (let (packet, q) = DoDequeue sz q in
      (packet,
       case packet of
         Some p \<Rightarrow> q\<lparr>q_nBytes := q_nBytes q - sz p, q_nPackets := q_nPackets q - 1\<rparr>
       | None \<Rightarrow> q))"

section \<open>Error model\<close>

datatype error_unit = ERROR_UNIT_BIT | ERROR_UNIT_BYTE | ERROR_UNIT_PACKET

record rate_error_model =
  em_enabled :: bool
  em_unit :: error_unit
  em_rate :: real

text \<open>Whether the packet is corrupt, and how many numbers were drawn.\<close>

definition DoCorrupt :: "real \<Rightarrow> nat \<Rightarrow> rate_error_model \<Rightarrow> bool \<times> nat" where
  "DoCorrupt u k em =
     (if \<not> em_enabled em then (False, 0)
      else (case em_unit em of
              ERROR_UNIT_PACKET \<Rightarrow> (u < em_rate em, 1)
            | ERROR_UNIT_BYTE \<Rightarrow> (u < 1 - (1 - em_rate em) ^ k, 1)
            | ERROR_UNIT_BIT \<Rightarrow> (u < 1 - (1 - em_rate em) ^ (8 * k), 1)))"

section \<open>Devices and channels\<close>

datatype tx_state = READY | BUSY

record 'p p2p_device =
  pd_txMachineState :: tx_state
  pd_currentPkt :: "'p option"
  pd_linkUp :: bool
  pd_queue :: "'p drop_tail"
  pd_receiveErrorModel :: "rate_error_model option"
  pd_rvPos :: nat

datatype 'p link_act = TransmitComplete nat | Receive nat 'p

text \<open>All devices with their part of the event queue, and the packets that they have handed to their nodes.
  Devices are numbered.\<close>

record 'p links =
  ln_sim :: "'p link_act sim"
  ln_devs :: "nat \<Rightarrow> 'p p2p_device"
  ln_received :: "(nat \<times> 'p) list"

record 'p link_env =
  le_size :: "'p \<Rightarrow> u32"
  le_txTime :: "nat \<Rightarrow> u32 \<Rightarrow> sim_time"
  le_gap :: "nat \<Rightarrow> sim_time"
  le_delay :: "nat \<Rightarrow> sim_time"
  le_peer :: "nat \<Rightarrow> nat"
  le_uniform :: "nat \<Rightarrow> nat \<Rightarrow> real"

definition on_dev :: "nat \<Rightarrow> ('p p2p_device \<Rightarrow> 'p p2p_device) \<Rightarrow> 'p links \<Rightarrow> 'p links" where
  "on_dev d f s = s\<lparr>ln_devs := (ln_devs s)(d := f (ln_devs s d))\<rparr>"

definition link_schedule :: "sim_time \<Rightarrow> 'p link_act \<Rightarrow> 'p links \<Rightarrow> 'p links" where
  "link_schedule t a s = s\<lparr>ln_sim := snd (Schedule t a (ln_sim s))\<rparr>"

definition device_new :: "'p p2p_device" where
  "device_new = \<lparr>pd_txMachineState = READY, pd_currentPkt = None, pd_linkUp = False, pd_queue = drop_tail_new,
     pd_receiveErrorModel = None, pd_rvPos = 0\<rparr>"

text \<open>\<^verbatim>\<open>Attach\<close> brings the device up.\<close>

definition device_Attach :: "nat \<Rightarrow> 'p links \<Rightarrow> 'p links" where
  "device_Attach d = on_dev d (\<lambda>v. v\<lparr>pd_linkUp := True\<rparr>)"

definition channel_TransmitStart :: "'p link_env \<Rightarrow> 'p \<Rightarrow> nat \<Rightarrow> sim_time \<Rightarrow> 'p links \<Rightarrow> 'p links" where
  "channel_TransmitStart env p src txTime s =
     link_schedule (txTime + le_delay env src) (Receive (le_peer env src) p) s"

definition TransmitStart :: "'p link_env \<Rightarrow> 'p \<Rightarrow> nat \<Rightarrow> 'p links \<Rightarrow> 'p links" where
  "TransmitStart env p d s =
     (let s = on_dev d (\<lambda>v. v\<lparr>pd_txMachineState := BUSY, pd_currentPkt := Some p\<rparr>) s;
          txTime = le_txTime env d (le_size env p);
          s = link_schedule (txTime + le_gap env d) (TransmitComplete d) s
      in channel_TransmitStart env p d txTime s)"

definition device_TransmitComplete :: "'p link_env \<Rightarrow> nat \<Rightarrow> 'p links \<Rightarrow> 'p links" where
  "device_TransmitComplete env d s =
     (let s = on_dev d (\<lambda>v. v\<lparr>pd_txMachineState := READY, pd_currentPkt := None\<rparr>) s;
          (packet, q) = queue_Dequeue (le_size env) (pd_queue (ln_devs s d));
          s = on_dev d (\<lambda>v. v\<lparr>pd_queue := q\<rparr>) s
      in case packet of None \<Rightarrow> s | Some p \<Rightarrow> TransmitStart env p d s)"

definition device_Send :: "'p link_env \<Rightarrow> nat \<Rightarrow> 'p \<Rightarrow> 'p links \<Rightarrow> bool \<times> 'p links" where
  "device_Send env d p s =
     (if \<not> pd_linkUp (ln_devs s d) then (False, s)
      else
        let (ok, q) = queue_Enqueue (le_size env) p (pd_queue (ln_devs s d));
            s = on_dev d (\<lambda>v. v\<lparr>pd_queue := q\<rparr>) s
        in if ok
           then if pd_txMachineState (ln_devs s d) = READY
                then let (packet, q) = queue_Dequeue (le_size env) (pd_queue (ln_devs s d));
                         s = on_dev d (\<lambda>v. v\<lparr>pd_queue := q\<rparr>) s
                     in (True, case packet of Some p \<Rightarrow> TransmitStart env p d s | None \<Rightarrow> s)
                else (True, s)
           else (False, s))"

text \<open>\<^verbatim>\<open>m_receiveErrorModel && m_receiveErrorModel->IsCorrupt (packet)\<close>.\<close>

definition receive_corrupt :: "'p link_env \<Rightarrow> nat \<Rightarrow> 'p \<Rightarrow> 'p p2p_device \<Rightarrow> bool \<times> nat" where
  "receive_corrupt env d p v =
     (case pd_receiveErrorModel v of
        None \<Rightarrow> (False, 0)
      | Some em \<Rightarrow> DoCorrupt (le_uniform env d (pd_rvPos v)) (unat (le_size env p)) em)"

definition device_Receive :: "'p link_env \<Rightarrow> nat \<Rightarrow> 'p \<Rightarrow> 'p links \<Rightarrow> 'p links" where
  "device_Receive env d p s =
     (let v = ln_devs s d;
          (corrupt, k) = receive_corrupt env d p v;
          s = on_dev d (\<lambda>v. v\<lparr>pd_rvPos := pd_rvPos v + k\<rparr>) s
      in if corrupt then s else s\<lparr>ln_received := ln_received s @ [(d, p)]\<rparr>)"

definition link_run :: "'p link_env \<Rightarrow> 'p link_act \<Rightarrow> 'p links \<Rightarrow> 'p links" where
  "link_run env a s =
     (case a of
        TransmitComplete d \<Rightarrow> device_TransmitComplete env d s
      | Receive d p \<Rightarrow> device_Receive env d p s)"

section \<open>Cutting a link\<close>

text \<open>\<^verbatim>\<open>FailP2PLink\<close> and \<^verbatim>\<open>UpP2PLink\<close> of \<^verbatim>\<open>scenarios/common/wired-handover.hpp\<close> on the device of one node
  that faces the other node: both ends get a new error model.\<close>

definition fail_link :: "'p link_env \<Rightarrow> nat \<Rightarrow> 'p links \<Rightarrow> 'p links" where
  "fail_link env d s =
     (let em = \<lparr>em_enabled = True, em_unit = ERROR_UNIT_PACKET, em_rate = 1\<rparr> in
      on_dev (le_peer env d) (\<lambda>v. v\<lparr>pd_receiveErrorModel := Some em\<rparr>)
        (on_dev d (\<lambda>v. v\<lparr>pd_receiveErrorModel := Some em\<rparr>) s))"

definition up_link :: "'p link_env \<Rightarrow> nat \<Rightarrow> 'p links \<Rightarrow> 'p links" where
  "up_link env d s =
     (let em = \<lparr>em_enabled = False, em_unit = ERROR_UNIT_PACKET, em_rate = 0\<rparr> in
      on_dev (le_peer env d) (\<lambda>v. v\<lparr>pd_receiveErrorModel := Some em\<rparr>)
        (on_dev d (\<lambda>v. v\<lparr>pd_receiveErrorModel := Some em\<rparr>) s))"

section \<open>Order of the events\<close>

lemma filter_Insert_last:
  assumes "sorted_wrt key_less es" and "P ev" and "\<And>e. e \<in> set es \<Longrightarrow> P e \<Longrightarrow> key_less e ev"
  shows "filter P (Scheduler_Insert ev es) = filter P es @ [ev]"
  using assms
proof (induction es)
  case (Cons x xs)
  have "\<not> P y" if "key_less ev x" "y \<in> set (x # xs)" for y
    using Cons.prems that by (fastforce simp: key_less_iff)
  then show ?case using Cons by (auto simp: filter_empty_conv)
qed simp

lemma filter_Insert_other: "\<not> P ev \<Longrightarrow> filter P (Scheduler_Insert ev es) = filter P es"
  by (induction es) auto

fun completes :: "nat \<Rightarrow> 'p link_act sched_event \<Rightarrow> bool" where
  "completes d e = (m_impl e = TransmitComplete d)"

fun arrives :: "nat \<Rightarrow> 'p link_act sched_event \<Rightarrow> bool" where
  "arrives d e = (case m_impl e of Receive d' _ \<Rightarrow> d' = d | _ \<Rightarrow> False)"

fun packets_of :: "'p link_act sched_event \<Rightarrow> 'p list" where
  "packets_of e = (case m_impl e of Receive _ p \<Rightarrow> [p] | TransmitComplete _ \<Rightarrow> [])"

text \<open>What a device has sent and its peer has not got yet, oldest first.\<close>

definition flights :: "'p link_env \<Rightarrow> nat \<Rightarrow> 'p links \<Rightarrow> 'p list" where
  "flights env d s = concat (map packets_of (filter (arrives (le_peer env d)) (m_events (ln_sim s))))"

definition content :: "'p link_env \<Rightarrow> nat \<Rightarrow> 'p links \<Rightarrow> 'p list" where
  "content env d s = flights env d s @ dt_packets (pd_queue (ln_devs s d))"

definition link_env_ok :: "'p link_env \<Rightarrow> bool" where
  "link_env_ok env \<longleftrightarrow> inj (le_peer env) \<and> (\<forall>d. 0 \<le> le_gap env d \<and> 0 \<le> le_delay env d) \<and>
     (\<forall>d k. 0 \<le> le_txTime env d k)"

text \<open>The latest arrival of what a device has sent so far, seen from the moment at which it is free to send.\<close>

definition arrivals_by :: "'p link_env \<Rightarrow> nat \<Rightarrow> sim_time \<Rightarrow> 'p links \<Rightarrow> bool" where
  "arrivals_by env d t s \<longleftrightarrow> (\<forall>e \<in> set (m_events (ln_sim s)). arrives (le_peer env d) e \<longrightarrow> m_ts e \<le> t + le_delay env d)"

definition tx_free :: "'p link_env \<Rightarrow> nat \<Rightarrow> 'p links \<Rightarrow> bool" where
  "tx_free env d s \<longleftrightarrow> filter (completes d) (m_events (ln_sim s)) = [] \<and> arrivals_by env d (Now (ln_sim s)) s"

definition tx_ok :: "'p link_env \<Rightarrow> 'p links \<Rightarrow> nat \<Rightarrow> bool" where
  "tx_ok env s d \<longleftrightarrow>
     (case pd_txMachineState (ln_devs s d) of
        READY \<Rightarrow> tx_free env d s \<and> dt_packets (pd_queue (ln_devs s d)) = [] \<and> pd_currentPkt (ln_devs s d) = None
      | BUSY \<Rightarrow> (\<exists>e. filter (completes d) (m_events (ln_sim s)) = [e] \<and> arrivals_by env d (m_ts e - le_gap env d) s) \<and>
          pd_currentPkt (ln_devs s d) \<noteq> None)"

definition link_inv :: "'p link_env \<Rightarrow> 'p links \<Rightarrow> bool" where
  "link_inv env s \<longleftrightarrow> link_env_ok env \<and> sim_ok (ln_sim s) \<and> (\<forall>e \<in> set (m_events (ln_sim s)). \<not> m_cancel e) \<and>
     (\<forall>d. tx_ok env s d)"

text \<open>Before a transmission: everything is in order but the device itself, which is free.\<close>

definition link_pre :: "'p link_env \<Rightarrow> nat \<Rightarrow> 'p links \<Rightarrow> bool" where
  "link_pre env d s \<longleftrightarrow> link_env_ok env \<and> sim_ok (ln_sim s) \<and> (\<forall>e \<in> set (m_events (ln_sim s)). \<not> m_cancel e) \<and>
     (\<forall>d'. d' \<noteq> d \<longrightarrow> tx_ok env s d') \<and> tx_free env d s"

lemma on_dev_simps [simp]:
  "ln_sim (on_dev d f s) = ln_sim s" "ln_received (on_dev d f s) = ln_received s"
  "ln_devs (on_dev d f s) d' = (if d' = d then f (ln_devs s d) else ln_devs s d')"
  by (simp_all add: on_dev_def)

lemma link_schedule_simps [simp]:
  "ln_devs (link_schedule t a s) = ln_devs s" "ln_received (link_schedule t a s) = ln_received s"
  by (simp_all add: link_schedule_def)

lemma TransmitStart_inv:
  assumes pre: "link_pre env d s"
  shows "link_inv env (TransmitStart env p d s)"
    and "flights env d' (TransmitStart env p d s) = flights env d' s @ (if d' = d then [p] else [])"
proof -
  let ?sm = "ln_sim s" and ?tx = "le_txTime env d (le_size env p)"
  let ?c = "\<lparr>m_ts = ?tx + le_gap env d + m_currentTs ?sm, m_event_uid = m_uid ?sm, m_cancel = False,
      m_impl = TransmitComplete d\<rparr>"
  let ?r = "\<lparr>m_ts = ?tx + le_delay env d + m_currentTs ?sm, m_event_uid = m_uid ?sm + 1, m_cancel = False,
      m_impl = Receive (le_peer env d) p\<rparr>"
  let ?s = "TransmitStart env p d s"
  have env: "link_env_ok env" and ok: "sim_ok ?sm" using pre by (simp_all add: link_pre_def)
  have nonneg: "0 \<le> ?tx" "0 \<le> le_gap env d" "0 \<le> le_delay env d" "inj (le_peer env)"
    using env by (simp_all add: link_env_ok_def)
  have ev: "m_events (ln_sim ?s) = Scheduler_Insert ?r (Scheduler_Insert ?c (m_events ?sm))" "Now (ln_sim ?s) = Now ?sm"
    by (simp_all add: TransmitStart_def channel_TransmitStart_def link_schedule_def Schedule_def Let_def Now_def)
  have devs: "ln_devs ?s d' = (if d' = d then (ln_devs s d)\<lparr>pd_txMachineState := BUSY, pd_currentPkt := Some p\<rparr>
      else ln_devs s d')" for d'
    by (simp add: TransmitStart_def channel_TransmitStart_def Let_def)
  have sim: "sim_ok (ln_sim ?s)"
    using ok nonneg
    by (simp add: TransmitStart_def channel_TransmitStart_def link_schedule_def Let_def sim_ok_Schedule)
  have sorted: "sorted_wrt key_less (m_events ?sm)" "\<And>e. e \<in> set (m_events ?sm) \<Longrightarrow> m_event_uid e < m_uid ?sm"
    using ok by (auto simp: sim_ok_def list_all_iff after_now_def)
  then have sorted1: "sorted_wrt key_less (Scheduler_Insert ?c (m_events ?sm))"
    by (intro sorted_Scheduler_Insert) auto
  have comp: "filter (completes d') (m_events (ln_sim ?s)) =
      (if d' = d then [?c] else filter (completes d') (m_events ?sm))" for d'
  proof -
    have "filter (completes d) (Scheduler_Insert ?c (m_events ?sm)) = [?c]"
      using filter_Insert_last [OF sorted(1), of "completes d" ?c] pre
      by (simp add: link_pre_def tx_free_def filter_empty_conv)
    then show ?thesis by (simp add: ev filter_Insert_other)
  qed
  have arr: "filter (arrives (le_peer env d')) (m_events (ln_sim ?s)) =
      filter (arrives (le_peer env d')) (m_events ?sm) @ (if d' = d then [?r] else [])" for d'
  proof (cases "d' = d")
    case True
    have "key_less e ?r" if "e \<in> set (Scheduler_Insert ?c (m_events ?sm))" "arrives (le_peer env d) e" for e
      using that sorted(2) [of e] pre nonneg
      by (auto simp: link_pre_def tx_free_def arrivals_by_def key_less_iff Now_def)
    then have "filter (arrives (le_peer env d)) (m_events (ln_sim ?s)) =
        filter (arrives (le_peer env d)) (Scheduler_Insert ?c (m_events ?sm)) @ [?r]"
      unfolding ev by (intro filter_Insert_last [OF sorted1]) simp_all
    then show ?thesis using True by (simp add: filter_Insert_other)
  next
    case False
    then have "le_peer env d' \<noteq> le_peer env d" using nonneg(4) by (auto dest: injD)
    then show ?thesis using False by (simp add: ev filter_Insert_other)
  qed
  show "flights env d' ?s = flights env d' s @ (if d' = d then [p] else [])"
    by (simp add: flights_def arr)
  have "tx_ok env ?s d'" for d'
  proof (cases "d' = d")
    case True
    have "m_ts e \<le> ?tx + m_currentTs ?sm + le_delay env d" if "e \<in> set (m_events ?sm)" "arrives (le_peer env d) e" for e
      using that pre nonneg by (fastforce simp: link_pre_def tx_free_def arrivals_by_def Now_def)
    then show ?thesis
      using True comp [of d] by (auto simp: tx_ok_def devs arrivals_by_def ev)
  next
    case False
    then have "le_peer env d' \<noteq> le_peer env d" using nonneg(4) by (auto dest: injD)
    then have "arrivals_by env d' t ?s = arrivals_by env d' t s" for t by (auto simp: arrivals_by_def ev)
    then show ?thesis
      using False pre comp [of d'] ev(2) by (auto simp: link_pre_def tx_ok_def tx_free_def devs split: tx_state.splits)
  qed
  then show "link_inv env ?s"
    using env sim pre by (auto simp: link_inv_def link_pre_def ev)
qed

section \<open>The link as a FIFO queue\<close>

lemma queue_Dequeue_packets:
  "fst (queue_Dequeue sz q) = (case dt_packets q of [] \<Rightarrow> None | p # _ \<Rightarrow> Some p)"
  "dt_packets (snd (queue_Dequeue sz q)) = tl (dt_packets q)"
  by (simp_all add: queue_Dequeue_def DoDequeue_def split: list.splits)

lemma queue_Enqueue_packets:
  "dt_packets (snd (queue_Enqueue sz p q)) = dt_packets q @ (if fst (queue_Enqueue sz p q) then [p] else [])"
  by (simp add: queue_Enqueue_def DoEnqueue_def queue_Drop_def Let_def)

lemma flights_on_dev [simp]: "flights env d (on_dev d' f s) = flights env d s"
  by (simp add: flights_def)

lemma tx_on_dev [simp]:
  "tx_free env d (on_dev d' f s) = tx_free env d s" "arrivals_by env d t (on_dev d' f s) = arrivals_by env d t s"
  by (simp_all add: tx_free_def arrivals_by_def)

lemma tx_ok_on_dev: "d' \<noteq> d \<Longrightarrow> tx_ok env (on_dev d f s) d' = tx_ok env s d'"
  by (simp add: tx_ok_def split: tx_state.split)

lemma link_pre_on_dev [simp]: "link_pre env d (on_dev d f s) = link_pre env d s"
  by (simp add: link_pre_def tx_ok_on_dev)

lemma TransmitStart_frame [simp]:
  "pd_queue (ln_devs (TransmitStart env p d s) d') = pd_queue (ln_devs s d')"
  "ln_received (TransmitStart env p d s) = ln_received s"
  by (simp_all add: TransmitStart_def channel_TransmitStart_def Let_def)

lemma READY_pre: "link_inv env s \<Longrightarrow> pd_txMachineState (ln_devs s d) = READY \<Longrightarrow> link_pre env d s"
  by (auto simp: link_inv_def link_pre_def tx_ok_def dest: spec [of _ d])

lemma READY_empty: "link_inv env s \<Longrightarrow> pd_txMachineState (ln_devs s d) = READY \<Longrightarrow> dt_packets (pd_queue (ln_devs s d)) = []"
  by (auto simp: link_inv_def tx_ok_def dest: spec [of _ d])

text \<open>A device outside the transmitter changes: its queue while it is busy, its error model, its counters.\<close>

lemma link_inv_on_dev:
  assumes "link_inv env s" and "pd_txMachineState (f (ln_devs s d)) = pd_txMachineState (ln_devs s d)"
    and "pd_currentPkt (f (ln_devs s d)) = pd_currentPkt (ln_devs s d)"
    and "pd_txMachineState (ln_devs s d) = READY \<Longrightarrow> dt_packets (pd_queue (f (ln_devs s d))) = []"
  shows "link_inv env (on_dev d f s)"
proof -
  have "tx_ok env (on_dev d f s) d'" for d'
    using assms by (auto simp: link_inv_def tx_ok_def split: tx_state.splits dest: spec [of _ d'])
  then show ?thesis using assms(1) by (simp add: link_inv_def)
qed

lemma link_Send:
  assumes inv: "link_inv env s" and r: "device_Send env d p s = (ok, s')"
  shows "link_inv env s'" and "content env d' s' = content env d' s @ (if ok \<and> d' = d then [p] else [])"
    and "ln_received s' = ln_received s"
proof -
  let ?q = "pd_queue (ln_devs s d)"
  let ?e = "queue_Enqueue (le_size env) p ?q"
  let ?s = "on_dev d (\<lambda>v. v\<lparr>pd_queue := snd ?e\<rparr>) s"
  let ?d = "queue_Dequeue (le_size env) (snd ?e)"
  have "link_inv env s' \<and> content env d' s' = content env d' s @ (if ok \<and> d' = d then [p] else []) \<and>
      ln_received s' = ln_received s"
  proof (cases "pd_linkUp (ln_devs s d) \<and> fst ?e \<and> pd_txMachineState (ln_devs s d) = READY")
    case True
    then have q: "dt_packets ?q = []" and pre: "link_pre env d s"
      using READY_empty [OF inv] READY_pre [OF inv] by auto
    then have deq: "fst ?d = Some p" "dt_packets (snd ?d) = []"
      using True by (simp_all add: queue_Dequeue_packets queue_Enqueue_packets)
    have s': "s' = TransmitStart env p d (on_dev d (\<lambda>v. v\<lparr>pd_queue := snd ?d\<rparr>) ?s)" and ok: "ok"
      using r True deq(1) by (auto simp: device_Send_def Let_def case_prod_beta)
    have pre': "link_pre env d (on_dev d (\<lambda>v. v\<lparr>pd_queue := snd ?d\<rparr>) ?s)" using pre by simp
    show ?thesis
      using TransmitStart_inv [OF pre'] ok q deq(2) by (simp add: s' content_def)
  next
    case False
    then have s': "s' = s \<and> \<not> ok \<or> s' = ?s \<and> ok = fst ?e \<and> (\<not> fst ?e \<or> pd_txMachineState (ln_devs s d) = BUSY)"
      using r tx_state.exhaust [of "pd_txMachineState (ln_devs s d)"]
      by (auto simp: device_Send_def Let_def case_prod_beta split: if_splits)
    have "link_inv env ?s" if "\<not> fst ?e \<or> pd_txMachineState (ln_devs s d) = BUSY"
      using that READY_empty [OF inv, of d] by (intro link_inv_on_dev [OF inv]) (auto simp: queue_Enqueue_packets)
    then show ?thesis
      using s' inv by (auto simp: content_def queue_Enqueue_packets)
  qed
  then show "link_inv env s'" and "content env d' s' = content env d' s @ (if ok \<and> d' = d then [p] else [])"
    and "ln_received s' = ln_received s" by blast+
qed

text \<open>Taking the next event.\<close>

lemma link_pop:
  assumes inv: "link_inv env s" and es: "m_events (ln_sim s) = e # es"
    and s1: "s1 = s\<lparr>ln_sim := (ln_sim s)\<lparr>m_currentTs := m_ts e, m_currentUid := m_event_uid e, m_events := es\<rparr>\<rparr>"
  shows "sim_ok (ln_sim s1)" and "\<forall>x \<in> set es. \<not> m_cancel x" and "\<not> m_cancel e"
    and "arrives d e \<Longrightarrow> link_inv env s1"
    and "completes d e \<Longrightarrow> pd_txMachineState (ln_devs s d) = BUSY \<and> link_pre env d s1"
proof -
  have pop: "ProcessOneEvent (ln_sim s) = Some (if m_cancel e then None else Some (m_impl e), ln_sim s1)"
    by (simp add: ProcessOneEvent_def es s1)
  have ok: "sim_ok (ln_sim s)" using inv by (simp add: link_inv_def)
  show sim: "sim_ok (ln_sim s1)" and "\<forall>x \<in> set es. \<not> m_cancel x" and "\<not> m_cancel e"
    using sim_ok_ProcessOneEvent [OF ok pop] inv by (auto simp: link_inv_def es)
  have now: "Now (ln_sim s) \<le> Now (ln_sim s1)" "Now (ln_sim s1) = m_ts e"
    using sim_ok_ProcessOneEvent [OF ok pop] by (auto simp: s1 Now_def)
  have mono: "arrivals_by env d t s \<Longrightarrow> t \<le> t' \<Longrightarrow> arrivals_by env d t' s1" for d t t'
    by (fastforce simp: arrivals_by_def s1 es)
  have keep: "tx_ok env s1 d" if "\<not> completes d e" for d
  proof -
    have same: "filter (completes d) (m_events (ln_sim s1)) = filter (completes d) (m_events (ln_sim s))"
      "ln_devs s1 = ln_devs s"
      using that by (simp_all add: es s1)
    have t: "tx_ok env s d" using inv by (simp add: link_inv_def)
    show ?thesis
    proof (cases "pd_txMachineState (ln_devs s d)")
      case READY
      then show ?thesis using t mono [OF _ now(1), of d] by (simp add: tx_ok_def tx_free_def same)
    next
      case BUSY
      then show ?thesis using t mono [OF _ order_refl, of d] by (auto simp: tx_ok_def same)
    qed
  qed
  show "arrives d e \<Longrightarrow> link_inv env s1"
    using keep sim inv by (auto simp: link_inv_def s1 es split: link_act.splits)
  show "pd_txMachineState (ln_devs s d) = BUSY \<and> link_pre env d s1" if "completes d e"
  proof -
    have t: "tx_ok env s d" using inv by (simp add: link_inv_def)
    have busy: "pd_txMachineState (ln_devs s d) = BUSY" "filter (completes d) es = []"
      "arrivals_by env d (m_ts e - le_gap env d) s"
      using t that by (auto simp: tx_ok_def tx_free_def es split: tx_state.splits)
    have "0 \<le> le_gap env d" using inv by (simp add: link_inv_def link_env_ok_def)
    then have "tx_free env d s1" using busy(2) mono [OF busy(3), of "m_ts e"] now(2) by (simp add: tx_free_def s1)
    moreover have "tx_ok env s1 d'" if "d' \<noteq> d" for d' using that \<open>completes d e\<close> by (intro keep) simp
    ultimately show ?thesis using busy(1) sim inv by (auto simp: link_pre_def link_inv_def s1 es)
  qed
qed

lemma link_Complete:
  assumes inv: "link_inv env s" and pop: "ProcessOneEvent (ln_sim s) = Some (Some (TransmitComplete d), sm)"
  shows "link_inv env (device_TransmitComplete env d (s\<lparr>ln_sim := sm\<rparr>))"
    and "content env d' (device_TransmitComplete env d (s\<lparr>ln_sim := sm\<rparr>)) = content env d' s"
    and "pd_txMachineState (ln_devs s d) = BUSY" and "pd_currentPkt (ln_devs s d) \<noteq> None"
proof -
  obtain e es where es: "m_events (ln_sim s) = e # es" "m_impl e = TransmitComplete d"
    and sm: "sm = (ln_sim s)\<lparr>m_currentTs := m_ts e, m_currentUid := m_event_uid e, m_events := es\<rparr>"
    using pop by (auto simp: ProcessOneEvent_def split: list.splits if_splits)
  let ?s = "s\<lparr>ln_sim := sm\<rparr>"
  have busy: "pd_txMachineState (ln_devs s d) = BUSY" and pre: "link_pre env d ?s"
    using link_pop(5) [OF inv es(1) refl, of d] es(2) by (auto simp: sm)
  then show "pd_txMachineState (ln_devs s d) = BUSY" and "pd_currentPkt (ln_devs s d) \<noteq> None"
    using inv by (auto simp: link_inv_def tx_ok_def dest: spec [of _ d])
  have fl: "flights env d' ?s = flights env d' s" for d'
    using es by (simp add: flights_def sm)
  let ?q = "queue_Dequeue (le_size env) (pd_queue (ln_devs s d))"
  let ?r = "on_dev d (\<lambda>v. v\<lparr>pd_queue := snd ?q\<rparr>)
    (on_dev d (\<lambda>v. v\<lparr>pd_txMachineState := READY, pd_currentPkt := None\<rparr>) ?s)"
  have pre': "link_pre env d ?r" using pre by simp
  have run: "device_TransmitComplete env d ?s = (case dt_packets (pd_queue (ln_devs s d)) of
      [] \<Rightarrow> ?r | p # _ \<Rightarrow> TransmitStart env p d ?r)"
    by (simp add: device_TransmitComplete_def Let_def case_prod_beta queue_Dequeue_packets split: list.split)
  show "link_inv env (device_TransmitComplete env d ?s)"
  proof (cases "dt_packets (pd_queue (ln_devs s d))")
    case Nil
    have "tx_ok env ?r d" using pre' Nil by (simp add: tx_ok_def link_pre_def queue_Dequeue_packets)
    then have "tx_ok env ?r d'" for d' using pre' by (cases "d' = d") (simp_all add: link_pre_def)
    then show ?thesis using pre' Nil by (simp add: run link_inv_def link_pre_def)
  qed (use TransmitStart_inv(1) [OF pre'] in \<open>simp add: run\<close>)
  show "content env d' (device_TransmitComplete env d ?s) = content env d' s"
    using TransmitStart_inv(2) [OF pre'] fl
    by (cases "dt_packets (pd_queue (ln_devs s d))") (auto simp: run content_def queue_Dequeue_packets)
qed

lemma received_frame [simp]:
  "tx_ok env (s\<lparr>ln_received := c\<rparr>) d = tx_ok env s d"
  "link_inv env (s\<lparr>ln_received := c\<rparr>) = link_inv env s"
  "flights env d (s\<lparr>ln_received := c\<rparr>) = flights env d s"
proof -
  have "tx_ok env (s\<lparr>ln_received := c\<rparr>) d = tx_ok env s d" for d
    by (simp add: tx_ok_def tx_free_def arrivals_by_def split: tx_state.split)
  then show "tx_ok env (s\<lparr>ln_received := c\<rparr>) d = tx_ok env s d"
    and "link_inv env (s\<lparr>ln_received := c\<rparr>) = link_inv env s" by (simp_all add: link_inv_def)
qed (simp add: flights_def)

lemma link_Receive:
  assumes inv: "link_inv env s" and pop: "ProcessOneEvent (ln_sim s) = Some (Some (Receive d p), sm)"
  shows "link_inv env (device_Receive env d p (s\<lparr>ln_sim := sm\<rparr>))"
    and "content env d' s = (if le_peer env d' = d then [p] else []) @
      content env d' (device_Receive env d p (s\<lparr>ln_sim := sm\<rparr>))"
proof -
  obtain e es where es: "m_events (ln_sim s) = e # es" "m_impl e = Receive d p"
    and sm: "sm = (ln_sim s)\<lparr>m_currentTs := m_ts e, m_currentUid := m_event_uid e, m_events := es\<rparr>"
    using pop by (auto simp: ProcessOneEvent_def split: list.splits if_splits)
  let ?s = "s\<lparr>ln_sim := sm\<rparr>"
  let ?v = "ln_devs ?s d"
  let ?ck = "receive_corrupt env d p ?v"
  let ?d = "on_dev d (\<lambda>v. v\<lparr>pd_rvPos := pd_rvPos v + snd ?ck\<rparr>) ?s"
  define c where "c = (if fst ?ck then ln_received ?d else ln_received ?d @ [(d, p)])"
  have r: "device_Receive env d p ?s = ?d\<lparr>ln_received := c\<rparr>"
    by (simp add: device_Receive_def Let_def case_prod_beta c_def)
  have one: "link_inv env ?s" using link_pop(4) [OF inv es(1) refl, of d] es(2) by (simp add: sm)
  then have "link_inv env (on_dev d (\<lambda>v. v\<lparr>pd_rvPos := pd_rvPos v + snd ?ck\<rparr>) ?s)"
    using READY_empty [OF one, of d] by (intro link_inv_on_dev) auto
  then show "link_inv env (device_Receive env d p ?s)" by (simp add: r)
  show "content env d' s = (if le_peer env d' = d then [p] else []) @ content env d' (device_Receive env d p ?s)"
    using es by (simp add: r content_def) (simp add: flights_def sm)
qed

section \<open>Runs of the links\<close>

text \<open>What happens at the devices: a packet is accepted or refused for sending, or arrives at the other end.\<close>

datatype 'p link_label = Sent nat 'p | Refused nat 'p | Arrived nat 'p | Internal

inductive link_step :: "'p link_env \<Rightarrow> 'p links \<Rightarrow> 'p link_label \<Rightarrow> 'p links \<Rightarrow> bool" for env where
  send: "device_Send env d p s = (ok, s') \<Longrightarrow> link_step env s (if ok then Sent d p else Refused d p) s'"
| complete: "ProcessOneEvent (ln_sim s) = Some (Some (TransmitComplete d), sm) \<Longrightarrow>
    link_step env s Internal (link_run env (TransmitComplete d) (s\<lparr>ln_sim := sm\<rparr>))"
| arrive: "ProcessOneEvent (ln_sim s) = Some (Some (Receive d p), sm) \<Longrightarrow>
    link_step env s (Arrived d p) (link_run env (Receive d p) (s\<lparr>ln_sim := sm\<rparr>))"
| attach: "link_step env s Internal (device_Attach d s)"
| cut: "link_step env s Internal (fail_link env d s)"
| restore: "link_step env s Internal (up_link env d s)"
| other: "foreign_event t v u (ln_sim s) = Some sm \<Longrightarrow> link_step env s Internal (s\<lparr>ln_sim := sm\<rparr>)"

inductive link_trace :: "'p link_env \<Rightarrow> 'p links \<Rightarrow> 'p link_label list \<Rightarrow> 'p links \<Rightarrow> bool" for env where
  trace_nil: "link_trace env s [] s"
| trace_snoc: "link_trace env s ls s1 \<Longrightarrow> link_step env s1 l s2 \<Longrightarrow> link_trace env s (ls @ [l]) s2"

definition links_new :: "'p links" where
  "links_new = \<lparr>ln_sim = sim_init, ln_devs = (\<lambda>_. device_new), ln_received = []\<rparr>"

definition sent_by :: "nat \<Rightarrow> 'p link_label list \<Rightarrow> 'p list" where
  "sent_by d ls = concat (map (\<lambda>l. case l of Sent d' p \<Rightarrow> (if d' = d then [p] else []) | _ \<Rightarrow> []) ls)"

definition arrived_at :: "nat \<Rightarrow> 'p link_label list \<Rightarrow> 'p list" where
  "arrived_at d ls = concat (map (\<lambda>l. case l of Arrived d' p \<Rightarrow> (if d' = d then [p] else []) | _ \<Rightarrow> []) ls)"

lemma link_inv_device:
  assumes "link_inv env s" and "\<And>v. pd_txMachineState (f v) = pd_txMachineState v \<and>
    pd_currentPkt (f v) = pd_currentPkt v \<and> pd_queue (f v) = pd_queue v"
  shows "link_inv env (on_dev d f s)" and "content env d' (on_dev d f s) = content env d' s"
  using assms READY_empty [OF assms(1)] by (auto intro!: link_inv_on_dev simp: content_def)

lemma link_foreign:
  assumes "link_inv env s" and "foreign_event t v u (ln_sim s) = Some sm"
  shows "link_inv env (s\<lparr>ln_sim := sm\<rparr>)" and "content env d (s\<lparr>ln_sim := sm\<rparr>) = content env d s"
proof -
  have sm: "sm = (ln_sim s)\<lparr>m_currentTs := t, m_currentUid := v, m_uid := u\<rparr>" "Now (ln_sim s) \<le> t"
    using assms(2) by (auto simp: foreign_event_def Now_def split: if_splits)
  have ok: "sim_ok sm" using assms sim_ok_foreign by (auto simp: link_inv_def)
  have "arrivals_by env d x s \<Longrightarrow> x \<le> y \<Longrightarrow> arrivals_by env d y (s\<lparr>ln_sim := sm\<rparr>)" for d x y
    by (fastforce simp: arrivals_by_def sm(1))
  then have "tx_ok env s d \<Longrightarrow> tx_ok env (s\<lparr>ln_sim := sm\<rparr>) d" for d
    using sm(2) by (cases "pd_txMachineState (ln_devs s d)") (auto simp: tx_ok_def tx_free_def sm(1) Now_def)
  then have "tx_ok env (s\<lparr>ln_sim := sm\<rparr>) d" for d using assms(1) by (simp add: link_inv_def)
  then show "link_inv env (s\<lparr>ln_sim := sm\<rparr>)" using assms(1) ok by (simp add: link_inv_def sm(1))
  show "content env d (s\<lparr>ln_sim := sm\<rparr>) = content env d s" by (simp add: content_def flights_def sm(1))
qed

lemma link_step_fifo:
  assumes inv: "link_inv env s" and "link_step env s l s'"
  shows "link_inv env s' \<and>
    content env d s @ sent_by d [l] = arrived_at (le_peer env d) [l] @ content env d s'"
  using assms(2)
proof cases
  case (send d0 p ok)
  note link_Send [OF inv send(2)]
  then show ?thesis using send(1) by (auto simp: sent_by_def arrived_at_def)
next
  case (complete d0 sm)
  note link_Complete(1,2) [OF inv complete(3)]
  then show ?thesis using complete(1,2) by (simp add: sent_by_def arrived_at_def link_run_def)
next
  case (arrive d0 p sm)
  note link_Receive [OF inv arrive(3)]
  then show ?thesis using arrive(1,2) by (auto simp: sent_by_def arrived_at_def link_run_def)
next
  case (other t v u sm)
  note link_foreign [OF inv other(3)]
  then show ?thesis using other(1,2) by (simp add: sent_by_def arrived_at_def)
qed (use inv in \<open>auto simp: sent_by_def arrived_at_def device_Attach_def fail_link_def up_link_def Let_def
      intro!: link_inv_device simp: link_inv_device\<close>)

lemma links_new_inv: "link_env_ok env \<Longrightarrow> link_inv env links_new"
  by (simp add: link_inv_def links_new_def sim_ok_init tx_ok_def tx_free_def arrivals_by_def device_new_def
      drop_tail_new_def) (simp add: sim_init_def)

lemma link_trace_fifo:
  assumes "link_trace env s ls s'" and "link_inv env s"
  shows "link_inv env s' \<and> content env d s @ sent_by d ls = arrived_at (le_peer env d) ls @ content env d s'"
  using assms
proof (induction rule: link_trace.induct)
  case (trace_snoc s ls s1 l s2)
  have app: "sent_by d (ls @ [l]) = sent_by d ls @ sent_by d [l]" "arrived_at d (ls @ [l]) = arrived_at d ls @ arrived_at d [l]" for d
    by (simp_all add: sent_by_def arrived_at_def)
  have IH: "link_inv env s1" "content env d s @ sent_by d ls = arrived_at (le_peer env d) ls @ content env d s1"
    using trace_snoc by blast+
  have step: "link_inv env s2" "content env d s1 @ sent_by d [l] = arrived_at (le_peer env d) [l] @ content env d s2"
    using link_step_fifo [OF IH(1) trace_snoc.hyps(2)] by auto
  show ?case
    unfolding app append_assoc [symmetric] IH(2) using step by (simp del: append_assoc add: append_assoc)
qed (simp add: sent_by_def arrived_at_def)

lemma completion_only_busy:
  assumes "link_inv env s"
  shows "(if pd_txMachineState (ln_devs s d) = READY
          then pd_currentPkt (ln_devs s d) = None \<and> dt_packets (pd_queue (ln_devs s d)) = []
          else pd_currentPkt (ln_devs s d) \<noteq> None) \<and>
    length (filter (completes d) (m_events (ln_sim s))) = (if pd_txMachineState (ln_devs s d) = BUSY then 1 else 0)"
proof -
  have "tx_ok env s d" using assms by (simp add: link_inv_def)
  then show ?thesis by (cases "pd_txMachineState (ln_devs s d)") (auto simp: tx_ok_def tx_free_def simp del: completes.simps)
qed

text \<open>C16.  Each direction of a point-to-point link is a FIFO queue.  In every run of the links, from newly created
  devices and with packets of any sizes sent, refused, transmitted, received, lost by a cut link, and with
  foreign events in between: the packets a device accepted are, in order, the packets that have arrived at its
  peer, then those on the channel, then those in the device's queue; a device that is ready to transmit
  (\<^verbatim>\<open>READY\<close>) has an empty queue and no current packet, a busy one has a current packet and exactly one
  \<^verbatim>\<open>TransmitComplete\<close> event, so that the assertions of \<^verbatim>\<open>TransmitStart\<close> and
  \<^verbatim>\<open>TransmitComplete\<close> hold and a queued packet is never left behind.\<close>

theorem link_is_fifo:
  assumes "link_env_ok env" and "link_trace env links_new ls s"
  shows "sent_by d ls = arrived_at (le_peer env d) ls @ flights env d s @ dt_packets (pd_queue (ln_devs s d)) \<and>
    (if pd_txMachineState (ln_devs s d) = READY
     then pd_currentPkt (ln_devs s d) = None \<and> dt_packets (pd_queue (ln_devs s d)) = []
     else pd_currentPkt (ln_devs s d) \<noteq> None) \<and>
    length (filter (completes d) (m_events (ln_sim s))) = (if pd_txMachineState (ln_devs s d) = BUSY then 1 else 0)"
proof -
  have "content env d links_new = []"
    by (simp add: content_def flights_def links_new_def sim_init_def device_new_def drop_tail_new_def)
  then show ?thesis
    using link_trace_fifo [OF assms(2) links_new_inv [OF assms(1)], of d] completion_only_busy [of env s d]
    by (simp add: content_def)
qed

definition sample_link :: "nat link_env" where
  "sample_link = \<lparr>le_size = of_nat, le_txTime = (\<lambda>_ k. int (unat k)), le_gap = (\<lambda>_. 0), le_delay = (\<lambda>_. 5),
     le_peer = (\<lambda>d. if d = 0 then 1 else if d = 1 then 0 else d), le_uniform = (\<lambda>_ _. 1 / 2)\<rparr>"

definition sample_run :: "nat links" where
  "sample_run = snd (device_Send sample_link 0 8 (snd (device_Send sample_link 0 20 (device_Attach 0 links_new))))"

lemma sample_link_ok: "link_env_ok sample_link"
  by (auto simp: link_env_ok_def sample_link_def inj_def split: if_splits)

theorem link_is_fifo_witness:
  "link_env_ok sample_link \<and> link_trace sample_link links_new [Internal, Sent 0 20, Sent 0 8] sample_run \<and>
   flights sample_link 0 sample_run @ dt_packets (pd_queue (ln_devs sample_run 0)) = [20, 8]"
proof -
  let ?a = "device_Attach 0 links_new" and ?f = "device_Send sample_link 0"
  have ok: "fst (?f 20 ?a)" "fst (?f 8 (snd (?f 20 ?a)))"
    by (simp_all add: device_Send_def device_Attach_def links_new_def on_dev_def device_new_def drop_tail_new_def
        queue_Enqueue_def DoEnqueue_def queue_Dequeue_def DoDequeue_def TransmitStart_def channel_TransmitStart_def
        link_schedule_def Let_def)
  have "link_step sample_link links_new Internal ?a" by (rule link_step.attach)
  moreover have "link_step sample_link ?a (Sent 0 20) (snd (?f 20 ?a))"
    using link_step.send [of sample_link 0 20 ?a True "snd (?f 20 ?a)"] ok(1) by (simp add: prod_eq_iff)
  moreover have "link_step sample_link (snd (?f 20 ?a)) (Sent 0 8) sample_run"
    using link_step.send [of sample_link 0 8 "snd (?f 20 ?a)" True sample_run] ok(2)
    by (simp add: prod_eq_iff sample_run_def)
  ultimately have "link_trace sample_link links_new ([] @ [Internal] @ [Sent 0 20] @ [Sent 0 8]) sample_run"
    unfolding append_assoc [symmetric] by (blast intro: link_trace.intros)
  then have t: "link_trace sample_link links_new [Internal, Sent 0 20, Sent 0 8] sample_run" by simp
  show ?thesis
    using link_is_fifo [OF sample_link_ok t, of 0] t sample_link_ok by (simp add: sent_by_def arrived_at_def)
qed

end
