(* ===== verification/Network.thy ===== *)
theory Network
  imports Node_Relations Samples Point_To_Point
begin

text \<open>
  Nodes and links as one network.  The engine nodes run on their own parts of the event queue, the point-to-point
  devices on theirs, and one clock drives all: an event runs when no part has an earlier one; events of one
  instant in different parts may run in any order, which includes the order of ns-3.  What a handler of a node sends
  goes to its devices in order, what a device receives goes to the engine of its node through
  \<^verbatim>\<open>NetDeviceTransport::receiveFromNetDevice\<close> (\<^verbatim>\<open>model/ndn-net-device-transport.cpp\<close>).  The other nodes, with
  consumers, producers and mobiles on the NFD forwarder, may send any frame at any time; links may be cut and
  restored at any time.

  Shown: each node of a reachable network is a reachable node, so that everything proved of a node holds
  there; and what an engine receives on a link from another engine is a subsequence of what that one sent
  on it: no frame is forged, repeated or overtaken.
\<close>

section \<open>The network\<close>

record network =
  nw_nodes :: "nat \<Rightarrow> node"
  nw_links :: "frame links"

text \<open>The environment of each engine node (its random streams in particular), the links, which node has which
  device, and the nodes that run the engine.\<close>

record topology =
  tp_env :: "nat \<Rightarrow> env"
  tp_links :: "frame link_env"
  tp_owner :: "device \<Rightarrow> nat"
  tp_engines :: "nat list"

definition receiveFromNetDevice :: "env \<Rightarrow> device \<Rightarrow> frame \<Rightarrow> node \<Rightarrow> exn + node" where
  "receiveFromNetDevice env device p n =
     (let port = getPort device (en_ports (n_engine n)) in onReceiveRawPacket env port p n)"

fun send_frames :: "frame link_env \<Rightarrow> (device \<times> frame) list \<Rightarrow> frame links \<Rightarrow> frame links" where
  "send_frames le [] s = s"
| "send_frames le ((d, f) # fs) s = send_frames le fs (snd (device_Send le d f s))"

text \<open>No part of the network has anything to do before an instant; then the clock may move there.\<close>

definition quiet_until :: "topology \<Rightarrow> sim_time \<Rightarrow> network \<Rightarrow> bool" where
  "quiet_until tp t nw \<longleftrightarrow>
     list_all (\<lambda>k. list_all (\<lambda>e. t \<le> m_ts e) (m_events (n_sim (nw_nodes nw k)))) (tp_engines tp) \<and>
     list_all (\<lambda>e. t \<le> m_ts e) (m_events (ln_sim (nw_links nw)))"

definition net_advance :: "sim_time \<Rightarrow> network \<Rightarrow> network" where
  "net_advance t nw = nw\<lparr>nw_nodes := (\<lambda>k. (nw_nodes nw k)\<lparr>n_sim := advance t (n_sim (nw_nodes nw k))\<rparr>),
     nw_links := (nw_links nw)\<lparr>ln_sim := advance t (ln_sim (nw_links nw))\<rparr>\<rparr>"

text \<open>A handler of a node has run: its new frames go to the devices.\<close>

definition node_result :: "topology \<Rightarrow> nat \<Rightarrow> network \<Rightarrow> node \<Rightarrow> network" where
  "node_result tp k nw n =
     nw\<lparr>nw_nodes := (nw_nodes nw)(k := n),
        nw_links := send_frames (tp_links tp) (drop (length (n_sent (nw_nodes nw k))) (n_sent n)) (nw_links nw)\<rparr>"

definition map_exn :: "('a \<Rightarrow> 'b) \<Rightarrow> exn + 'a \<Rightarrow> exn + 'b" where
  "map_exn f r = (case r of Inl e \<Rightarrow> Inl e | Inr x \<Rightarrow> Inr (f x))"

definition node_event :: "topology \<Rightarrow> nat \<Rightarrow> network \<Rightarrow> (exn + network) option" where
  "node_event tp k nw =
     (case ProcessOneEvent (n_sim (nw_nodes nw k)) of
        None \<Rightarrow> None
      | Some (r, sm) \<Rightarrow>
          if \<not> quiet_until tp (Now sm) nw then None
          else
            let nw = net_advance (Now sm) nw;
                n = (nw_nodes nw k)\<lparr>n_sim := sm\<rparr>
            in Some (map_exn (node_result tp k nw)
                 (case r of None \<Rightarrow> Inr n | Some a \<Rightarrow> run_act (tp_env tp k) a n)))"

definition deliver :: "topology \<Rightarrow> (device \<times> frame) list \<Rightarrow> network \<Rightarrow> exn + network" where
  "deliver tp fs nw =
     (case fs of
        [] \<Rightarrow> Inr nw
      | (d, f) # _ \<Rightarrow>
          let k = tp_owner tp d in
          if k \<in> set (tp_engines tp)
          then map_exn (node_result tp k nw) (receiveFromNetDevice (tp_env tp k) d f (nw_nodes nw k))
          else Inr nw)"

definition link_event :: "topology \<Rightarrow> network \<Rightarrow> (exn + network) option" where
  "link_event tp nw =
     (case ProcessOneEvent (ln_sim (nw_links nw)) of
        Some (Some a, sm) \<Rightarrow>
          if \<not> quiet_until tp (Now sm) nw then None
          else
            let nw = net_advance (Now sm) nw;
                l = link_run (tp_links tp) a ((nw_links nw)\<lparr>ln_sim := sm\<rparr>)
            in Some (deliver tp (drop (length (ln_received (nw_links nw))) (ln_received l)) (nw\<lparr>nw_links := l\<rparr>))
      | _ \<Rightarrow> None)"

definition on_links :: "(frame links \<Rightarrow> frame links) \<Rightarrow> network \<Rightarrow> network" where
  "on_links f nw = nw\<lparr>nw_links := f (nw_links nw)\<rparr>"

inductive net_step :: "topology \<Rightarrow> network \<Rightarrow> network \<Rightarrow> bool" for tp where
  node_event: "k \<in> set (tp_engines tp) \<Longrightarrow> node_event tp k nw = Some (Inr nw') \<Longrightarrow> net_step tp nw nw'"
| link_event: "link_event tp nw = Some (Inr nw') \<Longrightarrow> net_step tp nw nw'"
| clock: "quiet_until tp t nw \<Longrightarrow> net_step tp nw (net_advance t nw)"
| inject: "tp_owner tp d \<notin> set (tp_engines tp) \<Longrightarrow>
    net_step tp nw (on_links (\<lambda>l. snd (device_Send (tp_links tp) d f l)) nw)"
| attach: "net_step tp nw (on_links (device_Attach d) nw)"
| cut: "net_step tp nw (on_links (fail_link (tp_links tp) d) nw)"
| restore: "net_step tp nw (on_links (up_link (tp_links tp) d) nw)"

text \<open>At the start the links are new, the engine nodes configured, and each has ports for its own devices only.\<close>

definition net_start :: "topology \<Rightarrow> network \<Rightarrow> bool" where
  "net_start tp nw \<longleftrightarrow> link_env_ok (tp_links tp) \<and> nw_links nw = links_new \<and>
     (\<forall>k \<in> set (tp_engines tp). node_start (tp_env tp k) (nw_nodes nw k) \<and> n_sent (nw_nodes nw k) = [] \<and>
        node_now (nw_nodes nw k) = 0 \<and>
        (\<forall>port d. getDevice port (en_ports (n_engine (nw_nodes nw k))) = Some d \<longrightarrow> tp_owner tp d = k))"

section \<open>What a step of a node sends\<close>

definition sends :: "node \<Rightarrow> node \<Rightarrow> bool" where
  "sends n n' \<longleftrightarrow> en_ports (n_engine n') = en_ports (n_engine n) \<and>
     (\<exists>fs. n_sent n' = n_sent n @ fs \<and>
        (\<forall>x \<in> set fs. \<exists>port. getDevice port (en_ports (n_engine n)) = Some (fst x)))"

lemma sends_same: "en_ports (n_engine n') = en_ports (n_engine n) \<Longrightarrow> n_sent n' = n_sent n \<Longrightarrow> sends n n'"
  by (simp add: sends_def)

lemma sends_trans:
  assumes "sends n n1" and "sends n1 n2"
  shows "sends n n2"
proof -
  obtain fs gs where fs: "n_sent n1 = n_sent n @ fs" "n_sent n2 = n_sent n1 @ gs"
    and "\<forall>x \<in> set fs. \<exists>port. getDevice port (en_ports (n_engine n)) = Some (fst x)"
    and "\<forall>x \<in> set gs. \<exists>port. getDevice port (en_ports (n_engine n1)) = Some (fst x)"
    using assms unfolding sends_def by blast
  then show ?thesis
    using assms unfolding sends_def by (intro conjI exI [of _ "fs @ gs"]) (auto simp: ball_Un)
qed

interpretation outgoing: output_relation sends
proof
  show "sends n n2" if "sends n n1" "sends n1 n2" for n n1 n2 using that by (rule sends_trans)
  show "sends n (n\<lparr>n_sent := n_sent n @ [(dev, fr)]\<rparr>)"
    if "getDevice port (en_ports (n_engine n)) = Some dev" for port n dev fr
    using that by (auto simp: sends_def)
qed (auto intro!: sends_same simp: node_schedule_def Let_def case_prod_beta)

section \<open>The links in a run of the network\<close>

lemma link_trace_one: "link_step le s l s' \<Longrightarrow> link_trace le s [l] s'"
  using link_trace.trace_snoc [OF link_trace.trace_nil] by fastforce

lemma link_trace_append: "link_trace le s2 ls' s3 \<Longrightarrow> link_trace le s1 ls s2 \<Longrightarrow> link_trace le s1 (ls @ ls') s3"
  by (induction rule: link_trace.induct) (auto simp flip: append_assoc intro: link_trace.trace_snoc)

definition received_at :: "device \<Rightarrow> frame links \<Rightarrow> frame list" where
  "received_at d s = map snd (filter (\<lambda>(d', f). d' = d) (ln_received s))"

definition sent_on :: "device \<Rightarrow> (device \<times> frame) list \<Rightarrow> frame list" where
  "sent_on d fs = map snd (filter (\<lambda>(d', f). d' = d) fs)"

lemma sent_by_append [simp]: "sent_by d (ls @ ls') = sent_by d ls @ sent_by d ls'"
  "arrived_at d (ls @ ls') = arrived_at d ls @ arrived_at d ls'"
  by (simp_all add: sent_by_def arrived_at_def)

lemma sent_on_append [simp]: "sent_on d (fs @ gs) = sent_on d fs @ sent_on d gs"
  by (simp add: sent_on_def)

text \<open>Sending: the accepted frames are among those handed to the device.\<close>

lemma send_frames_trace:
  "\<exists>ls. link_trace le s ls (send_frames le fs s) \<and> (\<forall>d. subseq (sent_by d ls) (sent_on d fs)) \<and>
     (\<forall>d. arrived_at d ls = []) \<and> ln_received (send_frames le fs s) = ln_received s"
proof (induction fs arbitrary: s)
  case Nil
  show ?case by (intro exI [of _ "[]"]) (simp add: link_trace.trace_nil sent_by_def arrived_at_def sent_on_def)
next
  case (Cons x fs)
  obtain d f where x: "x = (d, f)" by fastforce
  obtain ok s' where s': "device_Send le d f s = (ok, s')" by fastforce
  let ?l = "if ok then Sent d f else Refused d f"
  have one: "link_trace le s [?l] s'" by (rule link_trace_one [OF link_step.send [OF s']])
  have rec: "ln_received s' = ln_received s"
    using s' by (auto simp: device_Send_def Let_def case_prod_beta split: if_splits option.splits)
  obtain ls where ls: "link_trace le s' ls (send_frames le fs s')" "\<forall>d. subseq (sent_by d ls) (sent_on d fs)"
    "\<forall>d. arrived_at d ls = []" "ln_received (send_frames le fs s') = ln_received s'"
    using Cons.IH by blast
  have "subseq (sent_by d' (?l # ls)) (sent_on d' (x # fs))" for d'
    using ls(2) by (auto simp: sent_by_def sent_on_def x)
  then show ?case
    using link_trace_append [OF ls(1) one] ls(3,4) rec
    by (intro exI [of _ "?l # ls"]) (auto simp: x s' arrived_at_def)
qed

section \<open>Invariant of the network\<close>

text \<open>The links have run with some trace: each device handed up a subsequence of what arrived there, and
  accepted a subsequence of what the engine of its node sent.\<close>

definition net_wire_ok :: "topology \<Rightarrow> frame link_label list \<Rightarrow> network \<Rightarrow> bool" where
  "net_wire_ok tp ls nw \<longleftrightarrow> link_trace (tp_links tp) links_new ls (nw_links nw) \<and>
     (\<forall>d. subseq (received_at d (nw_links nw)) (arrived_at d ls)) \<and>
     (\<forall>k \<in> set (tp_engines tp). \<forall>d. tp_owner tp d = k \<longrightarrow> subseq (sent_by d ls) (sent_on d (n_sent (nw_nodes nw k)))) \<and>
     (\<forall>k \<in> set (tp_engines tp). \<forall>port d. getDevice port (en_ports (n_engine (nw_nodes nw k))) = Some d \<longrightarrow> tp_owner tp d = k)"

text \<open>The links make some steps while the nodes stay what they are for this purpose.\<close>

lemma net_wire_ok_links:
  assumes "net_wire_ok tp ls nw" and "link_trace (tp_links tp) (nw_links nw) ls' l"
    and "\<And>k. n_sent (f k) = n_sent (nw_nodes nw k) \<and> en_ports (n_engine (f k)) = en_ports (n_engine (nw_nodes nw k))"
    and "\<And>k d. tp_owner tp d = k \<Longrightarrow> k \<in> set (tp_engines tp) \<Longrightarrow> sent_by d ls' = []"
    and "\<exists>fs. ln_received l = ln_received (nw_links nw) @ fs \<and> (\<forall>d. subseq (sent_on d fs) (arrived_at d ls'))"
  shows "net_wire_ok tp (ls @ ls') (nw\<lparr>nw_nodes := f, nw_links := l\<rparr>)"
proof -
  obtain fs where "ln_received l = ln_received (nw_links nw) @ fs" "\<forall>d. subseq (sent_on d fs) (arrived_at d ls')"
    using assms(5) by blast
  then have "subseq (received_at d l) (arrived_at d (ls @ ls'))" for d
    using assms(1) by (simp add: net_wire_ok_def received_at_def sent_on_def list_emb_append_mono)
  moreover have "link_trace (tp_links tp) links_new (ls @ ls') l"
    using assms(1,2) link_trace_append by (auto simp: net_wire_ok_def)
  ultimately show ?thesis using assms(1,3,4) by (auto simp: net_wire_ok_def)
qed

lemma net_wire_ok_result:
  assumes "net_wire_ok tp ls nw" and "k \<in> set (tp_engines tp)" and "sends (nw_nodes nw k) n"
  shows "\<exists>ls'. net_wire_ok tp ls' (node_result tp k nw n)"
proof -
  obtain fs where fs: "n_sent n = n_sent (nw_nodes nw k) @ fs" "en_ports (n_engine n) = en_ports (n_engine (nw_nodes nw k))"
    and own: "\<forall>x \<in> set fs. \<exists>port. getDevice port (en_ports (n_engine (nw_nodes nw k))) = Some (fst x)"
    using assms(3) by (auto simp: sends_def)
  have k: "tp_owner tp (fst x) = k" if "x \<in> set fs" for x
    using own that assms(1,2) by (fastforce simp: net_wire_ok_def)
  obtain ls' where ls': "link_trace (tp_links tp) (nw_links nw) ls' (send_frames (tp_links tp) fs (nw_links nw))"
    "\<And>d. subseq (sent_by d ls') (sent_on d fs)" "\<And>d. arrived_at d ls' = []"
    "ln_received (send_frames (tp_links tp) fs (nw_links nw)) = ln_received (nw_links nw)"
    using send_frames_trace [of "tp_links tp" "nw_links nw" fs] by blast
  have other: "sent_by d ls' = []" if "tp_owner tp d \<noteq> k" for d
  proof -
    have "sent_on d fs = []" using that k by (auto simp: sent_on_def filter_empty_conv)
    then show ?thesis using ls'(2) [of d] by simp
  qed
  have "subseq (sent_by d (ls @ ls')) (sent_on d (n_sent (if j = k then n else nw_nodes nw j)))"
    if "j \<in> set (tp_engines tp)" "tp_owner tp d = j" for j d
    using that assms(1) ls'(2) [of d] other [of d]
    by (auto simp: net_wire_ok_def fs list_emb_append_mono)
  moreover have "link_trace (tp_links tp) links_new (ls @ ls') (send_frames (tp_links tp) fs (nw_links nw))"
    using assms(1) link_trace_append [OF ls'(1)] by (auto simp: net_wire_ok_def)
  ultimately have "net_wire_ok tp (ls @ ls') (node_result tp k nw n)"
    using assms(1) ls'(3,4) fs by (auto simp: net_wire_ok_def node_result_def received_at_def)
  then show ?thesis by blast
qed

lemma net_wire_ok_inv: "link_env_ok (tp_links tp) \<Longrightarrow> net_wire_ok tp ls nw \<Longrightarrow> link_inv (tp_links tp) (nw_links nw)"
  unfolding net_wire_ok_def using link_trace_fifo links_new_inv by blast

lemma net_wire_ok_advance:
  assumes "net_wire_ok tp ls nw" and "link_env_ok (tp_links tp)" and "quiet_until tp t nw"
  shows "\<exists>ls'. net_wire_ok tp ls' (net_advance t nw)"
proof -
  let ?l = "(nw_links nw)\<lparr>ln_sim := advance t (ln_sim (nw_links nw))\<rparr>"
  have "sim_ok (ln_sim (nw_links nw))" using net_wire_ok_inv [OF assms(2,1)] by (simp add: link_inv_def)
  moreover have "\<forall>e \<in> set (m_events (ln_sim (nw_links nw))). t \<le> m_ts e"
    using assms(3) by (simp add: quiet_until_def list_all_iff)
  ultimately consider "?l = nw_links nw"
    | "foreign_event t 0 (m_uid (ln_sim (nw_links nw))) (ln_sim (nw_links nw)) = Some (advance t (ln_sim (nw_links nw)))"
    using advance_foreign [of "ln_sim (nw_links nw)" t] by fastforce
  then have "\<exists>ls'. link_trace (tp_links tp) (nw_links nw) ls' ?l \<and> (\<forall>d. sent_by d ls' = [] \<and> arrived_at d ls' = [])"
  proof cases
    case 1
    then show ?thesis by (intro exI [of _ "[]"]) (simp add: sent_by_def arrived_at_def link_trace.trace_nil)
  next
    case 2
    then show ?thesis
      using link_trace_one [OF link_step.other]
      by (intro exI [of _ "[Internal]"]) (simp add: sent_by_def arrived_at_def)
  qed
  then obtain ls' where "link_trace (tp_links tp) (nw_links nw) ls' ?l" "\<forall>d. sent_by d ls' = [] \<and> arrived_at d ls' = []"
    by blast
  then show ?thesis
    unfolding net_advance_def
    by (intro exI [of _ "ls @ ls'"] net_wire_ok_links [OF assms(1)]) (auto simp: sent_on_def)
qed

text \<open>An event of the links: the devices hand up at most the frame that has arrived.\<close>

lemma link_run_received:
  "\<exists>fs. ln_received (link_run le a s) = ln_received s @ fs \<and>
     (case a of TransmitComplete d \<Rightarrow> fs = [] | Receive d f \<Rightarrow> fs = [] \<or> fs = [(d, f)])"
  by (auto simp: link_run_def device_TransmitComplete_def device_Receive_def Let_def case_prod_beta
      split: link_act.splits option.splits if_splits)

lemma net_wire_ok_event:
  assumes "net_wire_ok tp ls nw" and "ProcessOneEvent (ln_sim (nw_links nw)) = Some (Some a, sm)"
  shows "\<exists>ls'. net_wire_ok tp ls' ((net_advance t nw)\<lparr>nw_links := link_run (tp_links tp) a ((nw_links nw)\<lparr>ln_sim := sm\<rparr>)\<rparr>)"
proof -
  let ?l = "link_run (tp_links tp) a ((nw_links nw)\<lparr>ln_sim := sm\<rparr>)"
  let ?x = "case a of TransmitComplete d \<Rightarrow> Internal | Receive d f \<Rightarrow> Arrived d f"
  have "link_step (tp_links tp) (nw_links nw) ?x ?l"
    using assms(2) by (cases a) (auto intro: link_step.intros)
  then have t: "link_trace (tp_links tp) (nw_links nw) [?x] ?l" by (rule link_trace_one)
  obtain fs where fs: "ln_received ?l = ln_received (nw_links nw) @ fs"
    "case a of TransmitComplete d \<Rightarrow> fs = [] | Receive d f \<Rightarrow> fs = [] \<or> fs = [(d, f)]"
    using link_run_received [of "tp_links tp" a "(nw_links nw)\<lparr>ln_sim := sm\<rparr>"] by auto
  have "subseq (sent_on d fs) (arrived_at d [?x])" for d
    using fs(2) by (cases a) (auto simp: sent_on_def arrived_at_def)
  then have "net_wire_ok tp (ls @ [?x]) (nw\<lparr>nw_nodes := nw_nodes (net_advance t nw), nw_links := ?l\<rparr>)"
    using fs(1) by (intro net_wire_ok_links [OF assms(1) t]) (auto simp: net_advance_def sent_by_def split: link_act.split)
  moreover have "nw\<lparr>nw_nodes := nw_nodes (net_advance t nw), nw_links := ?l\<rparr> = (net_advance t nw)\<lparr>nw_links := ?l\<rparr>"
    by (simp add: net_advance_def)
  ultimately show ?thesis by metis
qed

text \<open>Steps of the links alone.\<close>

lemma net_wire_ok_step:
  assumes "net_wire_ok tp ls nw" and "link_step (tp_links tp) (nw_links nw) x l"
    and "\<And>d. tp_owner tp d \<in> set (tp_engines tp) \<Longrightarrow> sent_by d [x] = []" and "ln_received l = ln_received (nw_links nw)"
  shows "\<exists>ls'. net_wire_ok tp ls' (nw\<lparr>nw_links := l\<rparr>)"
proof -
  have "net_wire_ok tp (ls @ [x]) (nw\<lparr>nw_nodes := nw_nodes nw, nw_links := l\<rparr>)"
    using assms(3,4) by (intro net_wire_ok_links [OF assms(1) link_trace_one [OF assms(2)]]) (auto simp: sent_on_def)
  then show ?thesis by auto
qed

section \<open>Reachable networks\<close>

definition net_inv :: "topology \<Rightarrow> network \<Rightarrow> network \<Rightarrow> bool" where
  "net_inv tp nw0 nw \<longleftrightarrow>
     (\<forall>k \<in> set (tp_engines tp). (node_step (tp_env tp k))\<^sup>*\<^sup>* (nw_nodes nw0 k) (nw_nodes nw k)) \<and>
     (\<exists>ls. net_wire_ok tp ls nw)"

lemma node_advance:
  assumes "node_inv env n" and "\<forall>e \<in> set (m_events (n_sim n)). t \<le> m_ts e"
  shows "(node_step env)\<^sup>*\<^sup>* n (n\<lparr>n_sim := advance t (n_sim n)\<rparr>)"
proof -
  have "sim_ok (n_sim n)" using assms(1) by (simp add: node_rel_def linv_def)
  then consider "n\<lparr>n_sim := advance t (n_sim n)\<rparr> = n"
    | "foreign_event t 0 (m_uid (n_sim n)) (n_sim n) = Some (advance t (n_sim n))"
    using advance_foreign [of "n_sim n" t] assms(2) by fastforce
  then show ?thesis by cases (auto intro: node_step.foreign)
qed

lemma map_exn_Inr [simp]: "map_exn f r = Inr y \<longleftrightarrow> (\<exists>x. r = Inr x \<and> y = f x)"
  by (auto simp: map_exn_def split: sum.split)

lemma net_advance_nodes [simp]:
  "(nw_nodes (net_advance t nw) k)\<lparr>n_sim := sm\<rparr> = (nw_nodes nw k)\<lparr>n_sim := sm\<rparr>"
  "(nw_links (net_advance t nw))\<lparr>ln_sim := sm'\<rparr> = (nw_links nw)\<lparr>ln_sim := sm'\<rparr>"
  by (simp_all add: net_advance_def)

lemma node_event_cases:
  assumes "node_event tp k nw = Some (Inr nw')"
  obtains t n where "node_step (tp_env tp k) (nw_nodes nw k) n" and "quiet_until tp t nw"
    and "nw' = node_result tp k (net_advance t nw) n"
proof -
  obtain r sm where pop: "ProcessOneEvent (n_sim (nw_nodes nw k)) = Some (r, sm)"
    using assms by (auto simp: node_event_def split: option.splits)
  let ?n = "(nw_nodes nw k)\<lparr>n_sim := sm\<rparr>"
  have "quiet_until tp (Now sm) nw" using assms pop by (auto simp: node_event_def split: if_splits)
  moreover obtain n where n: "(case r of None \<Rightarrow> Inr ?n | Some a \<Rightarrow> run_act (tp_env tp k) a ?n) = Inr n"
    "nw' = node_result tp k (net_advance (Now sm) nw) n"
    using assms pop by (cases r) (auto simp: node_event_def Let_def split: if_splits)
  moreover have "node_step (tp_env tp k) (nw_nodes nw k) n"
    using n(1) pop by (cases r) (auto intro: node_step.skip node_step.run)
  ultimately show thesis using that by blast
qed

lemma link_event_cases:
  assumes "link_event tp nw = Some (Inr nw')"
  obtains a sm where "ProcessOneEvent (ln_sim (nw_links nw)) = Some (Some a, sm)" and "quiet_until tp (Now sm) nw"
    and "nw' = (net_advance (Now sm) nw)\<lparr>nw_links := link_run (tp_links tp) a ((nw_links nw)\<lparr>ln_sim := sm\<rparr>)\<rparr>"
  | a sm k n where "ProcessOneEvent (ln_sim (nw_links nw)) = Some (Some a, sm)" and "quiet_until tp (Now sm) nw"
    and "k \<in> set (tp_engines tp)" and "node_step (tp_env tp k) (nw_nodes (net_advance (Now sm) nw) k) n"
    and "nw' = node_result tp k
      ((net_advance (Now sm) nw)\<lparr>nw_links := link_run (tp_links tp) a ((nw_links nw)\<lparr>ln_sim := sm\<rparr>)\<rparr>) n"
proof -
  obtain a sm where pop: "ProcessOneEvent (ln_sim (nw_links nw)) = Some (Some a, sm)" and q: "quiet_until tp (Now sm) nw"
    using assms by (auto simp: link_event_def split: option.splits if_splits)
  let ?l = "link_run (tp_links tp) a ((nw_links nw)\<lparr>ln_sim := sm\<rparr>)"
  let ?nw = "(net_advance (Now sm) nw)\<lparr>nw_links := ?l\<rparr>"
  obtain fs where fs: "deliver tp fs ?nw = Inr nw'"
    using assms pop q by (auto simp: link_event_def Let_def)
  show thesis
  proof (cases "\<exists>d f gs. fs = (d, f) # gs \<and> tp_owner tp d \<in> set (tp_engines tp)")
    case True
    then obtain d f gs where d: "fs = (d, f) # gs" "tp_owner tp d \<in> set (tp_engines tp)" by blast
    let ?k = "tp_owner tp d"
    obtain n where "receiveFromNetDevice (tp_env tp ?k) d f (nw_nodes ?nw ?k) = Inr n" "nw' = node_result tp ?k ?nw n"
      using fs d by (auto simp: deliver_def Let_def)
    moreover from this(1) have "node_step (tp_env tp ?k) (nw_nodes (net_advance (Now sm) nw) ?k) n"
      by (auto simp: receiveFromNetDevice_def Let_def intro: node_step.receive)
    ultimately show thesis using that(2) [OF pop q d(2)] by blast
  next
    case False
    then have "nw' = ?nw" using fs by (auto simp: deliver_def Let_def split: list.splits if_splits)
    then show thesis by (rule that(1) [OF pop q])
  qed
qed

text \<open>The nodes along a step: one of them has run a handler, the clock of the others has moved.\<close>

lemma net_advance_node:
  assumes "node_inv (tp_env tp k) (nw_nodes nw k)" and "k \<in> set (tp_engines tp)" and "quiet_until tp t nw"
  shows "(node_step (tp_env tp k))\<^sup>*\<^sup>* (nw_nodes nw k) (nw_nodes (net_advance t nw) k)"
  using node_advance [OF assms(1), of t] assms(2,3) by (auto simp: net_advance_def quiet_until_def list_all_iff)

lemma sends_advance: "sends (nw_nodes (net_advance t nw) k) n \<longleftrightarrow> sends (nw_nodes nw k) n"
  by (simp add: sends_def net_advance_def)

lemma net_step_nodes:
  assumes inv: "\<And>k. k \<in> set (tp_engines tp) \<Longrightarrow> node_inv (tp_env tp k) (nw_nodes nw k)"
    and step: "net_step tp nw nw'" and k: "k \<in> set (tp_engines tp)"
  shows "(node_step (tp_env tp k))\<^sup>*\<^sup>* (nw_nodes nw k) (nw_nodes nw' k)"
  using step
proof cases
  case (node_event j)
  from node_event(2) show ?thesis
  proof (cases rule: node_event_cases)
    case (1 t n)
    then show ?thesis using net_advance_node [OF inv [OF k] k 1(2)] by (cases "k = j") (auto simp: node_result_def)
  qed
next
  case link_event
  then show ?thesis
  proof (cases rule: link_event_cases)
    case (1 a sm)
    then show ?thesis using net_advance_node [OF inv [OF k] k 1(2)] by simp
  next
    case (2 a sm j n)
    then show ?thesis
      using net_advance_node [OF inv [OF k] k 2(2)]
      by (cases "k = j") (auto simp: node_result_def intro: rtranclp.rtrancl_into_rtrancl)
  qed
next
  case (clock t)
  then show ?thesis using net_advance_node [OF inv [OF k] k] by simp
qed (simp_all add: on_links_def)

lemma Internal_labels [simp]: "sent_by d [Internal] = []" "sent_by d [Refused d' f] = []"
  "sent_by d [Sent d' f] = (if d' = d then [f] else [])"
  by (simp_all add: sent_by_def)

lemma device_Send_received: "ln_received (snd (device_Send le d f s)) = ln_received s"
  by (auto simp: device_Send_def Let_def case_prod_beta split: option.splits)

lemma net_step_wire:
  assumes ok: "net_wire_ok tp ls nw" and env: "link_env_ok (tp_links tp)" and step: "net_step tp nw nw'"
  shows "\<exists>ls'. net_wire_ok tp ls' nw'"
  using step
proof cases
  case (node_event k)
  from node_event(2) show ?thesis
  proof (cases rule: node_event_cases)
    case (1 t n)
    obtain ls' where "net_wire_ok tp ls' (net_advance t nw)" using net_wire_ok_advance [OF ok env 1(2)] by blast
    then show ?thesis
      unfolding 1(3) using node_event(1) outgoing.output_step.R_step [OF 1(1)] by (intro net_wire_ok_result) (simp_all add: sends_advance)
  qed
next
  case link_event
  then show ?thesis
  proof (cases rule: link_event_cases)
    case (1 a sm)
    then show ?thesis using net_wire_ok_event [OF ok 1(1)] by simp
  next
    case (2 a sm k n)
    let ?nw = "(net_advance (Now sm) nw)\<lparr>nw_links := link_run (tp_links tp) a ((nw_links nw)\<lparr>ln_sim := sm\<rparr>)\<rparr>"
    obtain ls' where "net_wire_ok tp ls' ?nw" using net_wire_ok_event [OF ok 2(1)] by blast
    then show ?thesis
      unfolding 2(5) using 2(3) outgoing.output_step.R_step [OF 2(4)] by (intro net_wire_ok_result) simp_all
  qed
next
  case (clock t)
  then show ?thesis using net_wire_ok_advance [OF ok env] by simp
next
  case (inject d f)
  obtain b l where l: "device_Send (tp_links tp) d f (nw_links nw) = (b, l)" by fastforce
  show ?thesis
    unfolding inject on_links_def
    using inject(2) device_Send_received [of "tp_links tp" d f "nw_links nw"]
    by (intro net_wire_ok_step [OF ok link_step.send, of d f b]) (auto simp: l)
next
  case (attach d)
  show ?thesis unfolding attach on_links_def
    by (intro net_wire_ok_step [OF ok link_step.attach]) (simp_all add: device_Attach_def)
next
  case (cut d)
  show ?thesis unfolding cut on_links_def
    by (intro net_wire_ok_step [OF ok link_step.cut]) (simp_all add: fail_link_def Let_def)
next
  case (restore d)
  show ?thesis unfolding restore on_links_def
    by (intro net_wire_ok_step [OF ok link_step.restore]) (simp_all add: up_link_def Let_def)
qed

interpretation network: invariant_system "\<lambda>nw. net_start tp nw \<and> nw = nw0" "net_step tp"
  "\<lambda>nw. net_start tp nw0 \<and> net_inv tp nw0 nw" for tp nw0
proof
  show "net_start tp nw0 \<and> net_inv tp nw0 nw" if "net_start tp nw \<and> nw = nw0" for nw
  proof -
    have "net_wire_ok tp [] nw"
      using that by (auto simp: net_wire_ok_def net_start_def links_new_def received_at_def arrived_at_def sent_by_def
          intro: link_trace.trace_nil)
    then show ?thesis using that by (auto simp: net_inv_def)
  qed
  show "net_start tp nw0 \<and> net_inv tp nw0 nw'"
    if inv: "net_start tp nw0 \<and> net_inv tp nw0 nw" and step: "net_step tp nw nw'" for nw nw'
  proof -
    have start: "node_inv (tp_env tp k) (nw_nodes nw0 k)" and run: "(node_step (tp_env tp k))\<^sup>*\<^sup>* (nw_nodes nw0 k) (nw_nodes nw k)"
      if "k \<in> set (tp_engines tp)" for k
      using inv that node_start_inv by (auto simp: net_start_def net_inv_def)
    then have "(node_step (tp_env tp k))\<^sup>*\<^sup>* (nw_nodes nw0 k) (nw_nodes nw' k)" if "k \<in> set (tp_engines tp)" for k
      using that net_step_nodes [OF node_system.steps_inv step that] by (meson rtranclp_trans)
    moreover have "\<exists>ls. net_wire_ok tp ls nw'"
      using inv net_step_wire [OF _ _ step] by (auto simp: net_inv_def net_start_def)
    ultimately show ?thesis using inv by (simp add: net_inv_def)
  qed
qed

text \<open>A reachable state is reachable from one start state.\<close>

lemma reach_origin: "reach start step s \<Longrightarrow> \<exists>s0. start s0 \<and> reach (\<lambda>s. start s \<and> s = s0) step s"
  by (induction rule: reach.induct) (blast intro: reach.intros)+

lemma reach_steps: "step\<^sup>*\<^sup>* s s' \<Longrightarrow> start s \<Longrightarrow> reach start step s'"
  by (induction rule: rtranclp_induct) (auto intro: reach.intros)

lemma reachable_net_inv:
  assumes "reach (net_start tp) (net_step tp) nw"
  obtains nw0 where "net_start tp nw0" and "net_inv tp nw0 nw"
  using reach_origin [OF assms] network.reachable_inv by blast

text \<open>Two engine nodes joined by a link, with their devices attached.\<close>

definition sample_tp :: topology where
  "sample_tp = \<lparr>tp_env = (\<lambda>_. sample_env),
     tp_links = \<lparr>le_size = (\<lambda>_. 100), le_txTime = (\<lambda>_ _. 15), le_gap = (\<lambda>_. 0), le_delay = (\<lambda>_. 2000),
       le_peer = (\<lambda>d. if d = 0 then 1 else if d = 1 then 0 else d), le_uniform = (\<lambda>_ _. 1 / 2)\<rparr>,
     tp_owner = id, tp_engines = [0, 1]\<rparr>"

definition sample_net :: network where
  "sample_net = \<lparr>nw_nodes = (\<lambda>k. on_engine (\<lambda>e. e\<lparr>en_ports := addDevices [k] ports_new\<rparr>) sample_node),
     nw_links = links_new\<rparr>"

definition attached_net :: network where
  "attached_net = on_links (device_Attach 1) (on_links (device_Attach 0) sample_net)"

lemma sample_net_start: "net_start sample_tp sample_net"
proof -
  have "node_start sample_env (on_engine (\<lambda>e. e\<lparr>en_ports := p\<rparr>) sample_node)" for p
    using sample_node_start by (simp add: node_start_def engine_ok_def)
  moreover have "n_sent sample_node = []" "node_now sample_node = 0"
    by (simp_all add: sample_node_def node_new_def sim_init_def Now_def)
  moreover have "link_env_ok (tp_links sample_tp)"
    by (auto simp: link_env_ok_def sample_tp_def inj_def split: if_splits)
  ultimately show ?thesis
    by (auto simp: net_start_def sample_net_def addDevices_def addDevice_def getDevice_def ports_new_def sample_tp_def
        split: if_splits)
qed

lemma attached_net_reach: "reach (net_start sample_tp) (net_step sample_tp) attached_net"
  unfolding attached_net_def
  by (meson reach.reach_step reach.reach_start net_step.attach sample_net_start)



text \<open>C5. In every reachable network, the frames that a node got from the device at the other end of a link of an
  engine node are a subsequence of the frames that this engine sent on the link: no frame is forged, repeated
  or overtaken on a link, only lost.\<close>

theorem received_frames_were_sent:
  assumes "reach (net_start tp) (net_step tp) nw" and "tp_owner tp d \<in> set (tp_engines tp)"
  shows "subseq (received_at (le_peer (tp_links tp) d) (nw_links nw))
    (sent_on d (n_sent (nw_nodes nw (tp_owner tp d))))"
proof -
  let ?e = "le_peer (tp_links tp) d"
  obtain nw0 where nw0: "net_start tp nw0" "net_inv tp nw0 nw" using reachable_net_inv [OF assms(1)] .
  then obtain ls where ls: "net_wire_ok tp ls nw" and env: "link_env_ok (tp_links tp)"
    by (auto simp: net_inv_def net_start_def)
  have "content (tp_links tp) d links_new = []"
    by (simp add: content_def flights_def links_new_def sim_init_def device_new_def drop_tail_new_def)
  then have "sent_by d ls = arrived_at ?e ls @ content (tp_links tp) d (nw_links nw)"
    using link_trace_fifo [OF _ links_new_inv [OF env], of ls "nw_links nw" d] ls by (simp add: net_wire_ok_def)
  then have "subseq (arrived_at ?e ls) (sent_by d ls)" by (auto intro: prefix_imp_subseq)
  moreover have "subseq (received_at ?e (nw_links nw)) (arrived_at ?e ls)"
    "subseq (sent_by d ls) (sent_on d (n_sent (nw_nodes nw (tp_owner tp d))))"
    using ls assms(2) by (auto simp: net_wire_ok_def)
  ultimately show ?thesis using subseq_order.trans by blast
qed

theorem received_frames_were_sent_witness:
  "tp_owner sample_tp 0 \<in> set (tp_engines sample_tp) \<and>
   reach (net_start sample_tp) (net_step sample_tp) attached_net \<and>
   subseq (received_at 1 (nw_links attached_net)) (sent_on 0 (n_sent (nw_nodes attached_net 0)))"
  using received_frames_were_sent [OF attached_net_reach, of 0] attached_net_reach by (simp add: sample_tp_def)

end
