(* ===== verification/Wired_Handover.thy ===== *)
theory Wired_Handover
  imports Point_To_Point
begin

text \<open>
  The handover of the mobile node in the wired scenarios
  (\<^verbatim>\<open>statim/scenarios/common/wired-handover.hpp\<close>): the mobile has a point-to-point link to every backbone
  node, all links but one are cut by their error models, and a periodic check moves the mobile to another access
  point when the current one is out of range.  Shown: the check picks the current access point while it is in
  range, else the nearest one; at every moment packets pass exactly on the link to the active access point, in
  both directions; the callbacks announce every change in order, and the check never stops.

  Coordinates and distances, floating-point numbers in the code, are real numbers here.  The callbacks of the
  scenario are recorded as the list of their calls.
\<close>

section \<open>Picking an access point\<close>

type_synonym vector = "real \<times> real \<times> real"

definition CalculateDistance :: "vector \<Rightarrow> vector \<Rightarrow> real" where
  "CalculateDistance = (\<lambda>(ax, ay, az) (bx, by', bz).
     let dx = bx - ax; dy = by' - ay; dz = bz - az in sqrt (dx * dx + dy * dy + dz * dz))"

definition RANGE_M :: real where
  "RANGE_M = 100"

text \<open>The loop of \<^verbatim>\<open>Pick\<close> over the distances to the backbone nodes from index \<open>i\<close> on.\<close>

fun pick_loop :: "real list \<Rightarrow> nat \<Rightarrow> int \<Rightarrow> real \<Rightarrow> int" where
  "pick_loop [] i best bestd = best"
| "pick_loop (d # ds) i best bestd =
     (if d \<le> RANGE_M \<and> d < bestd then pick_loop ds (Suc i) (int i) d else pick_loop ds (Suc i) best bestd)"

definition Pick :: "vector list \<Rightarrow> int \<Rightarrow> vector \<Rightarrow> int" where
  "Pick backbone active p =
     (if active \<ge> 0 \<and> CalculateDistance p (backbone ! nat active) \<le> RANGE_M then active
      else pick_loop (map (CalculateDistance p) backbone) 0 (- 1) (10 ^ 18))"

section \<open>The handover\<close>

datatype ho_act = Step_event real

datatype ho_call = Assoc int int | Deassoc int

text \<open>The scenario: the mobile with its point-to-point devices in order, the backbone nodes, the owner of each device,
  the position of each node over time, whether the callbacks are set, and the conversion of seconds.\<close>

record 'p ho_env =
  he_links :: "'p link_env"
  he_owner :: "nat \<Rightarrow> nat"
  he_mobile :: nat
  he_devices :: "nat list"
  he_backbone :: "nat list"
  he_position :: "nat \<Rightarrow> sim_time \<Rightarrow> vector"
  he_assocCb :: bool
  he_deassocCb :: bool
  he_Seconds :: "real \<Rightarrow> sim_time"

record 'p handover =
  wh_sim :: "ho_act sim"
  wh_links :: "'p links"
  wh_activeAp :: int
  wh_calls :: "ho_call list"

text \<open>The first device of the mobile whose channel leads to the node.\<close>

definition device_to :: "'p ho_env \<Rightarrow> nat \<Rightarrow> nat option" where
  "device_to env n2 = find (\<lambda>d. he_owner env (le_peer (he_links env) d) = n2) (he_devices env)"

definition FailP2PLink :: "'p ho_env \<Rightarrow> nat \<Rightarrow> 'p links \<Rightarrow> 'p links" where
  "FailP2PLink env n2 s = (case device_to env n2 of Some d \<Rightarrow> fail_link (he_links env) d s | None \<Rightarrow> s)"

definition UpP2PLink :: "'p ho_env \<Rightarrow> nat \<Rightarrow> 'p links \<Rightarrow> 'p links" where
  "UpP2PLink env n2 s = (case device_to env n2 of Some d \<Rightarrow> up_link (he_links env) d s | None \<Rightarrow> s)"

definition Step :: "'p ho_env \<Rightarrow> real \<Rightarrow> 'p handover \<Rightarrow> 'p handover" where
  "Step env interval s =
     (let now = Now (wh_sim s);
          best = Pick (map (\<lambda>b. he_position env b now) (he_backbone env)) (wh_activeAp s)
                   (he_position env (he_mobile env) now);
          s = (if best \<noteq> wh_activeAp s
               then let oldAp = wh_activeAp s;
                        s = (if oldAp \<ge> 0
                             then s\<lparr>wh_links := FailP2PLink env (he_backbone env ! nat oldAp) (wh_links s),
                                    wh_calls := wh_calls s @ (if he_deassocCb env then [Deassoc oldAp] else [])\<rparr>
                             else s);
                        s = (if best \<ge> 0
                             then s\<lparr>wh_links := UpP2PLink env (he_backbone env ! nat best) (wh_links s),
                                    wh_calls := wh_calls s @ (if he_assocCb env then [Assoc best oldAp] else [])\<rparr>
                             else s)
                    in s\<lparr>wh_activeAp := best\<rparr>
               else s)
      in s\<lparr>wh_sim := snd (Schedule (he_Seconds env interval) (Step_event interval) (wh_sim s))\<rparr>)"

definition Setup :: "'p ho_env \<Rightarrow> real \<Rightarrow> 'p handover \<Rightarrow> 'p handover" where
  "Setup env interval s =
     (let s = s\<lparr>wh_links := fold (FailP2PLink env) (he_backbone env) (wh_links s), wh_activeAp := - 1\<rparr>
      in s\<lparr>wh_sim := snd (Schedule (he_Seconds env (2 / 10)) (Step_event interval) (wh_sim s))\<rparr>)"

text \<open>One event of the check, or anything else in the simulation: traffic on the links leaves the error models
  alone, and other events move the clock.\<close>

inductive ho_step :: "'p ho_env \<Rightarrow> 'p handover \<Rightarrow> 'p handover \<Rightarrow> bool" for env where
  check: "ProcessOneEvent (wh_sim s) = Some (Some (Step_event interval), sm) \<Longrightarrow>
    ho_step env s (Step env interval (s\<lparr>wh_sim := sm\<rparr>))"
| traffic: "link_step (he_links env) (wh_links s) x l \<Longrightarrow>
    (\<And>d. pd_receiveErrorModel (ln_devs l d) = pd_receiveErrorModel (ln_devs (wh_links s) d)) \<Longrightarrow>
    ho_step env s (s\<lparr>wh_links := l\<rparr>)"
| other: "foreign_event t v u (wh_sim s) = Some sm \<Longrightarrow> ho_step env s (s\<lparr>wh_sim := sm\<rparr>)"

section \<open>Which access point is picked\<close>

text \<open>The scan keeps the first of the smallest distances in range.\<close>

definition nearest :: "real list \<Rightarrow> int \<Rightarrow> bool" where
  "nearest ds r \<longleftrightarrow> (if \<exists>d \<in> set ds. d \<le> RANGE_M
     then 0 \<le> r \<and> nat r < length ds \<and> ds ! nat r \<le> RANGE_M \<and> (\<forall>i < length ds. ds ! nat r \<le> ds ! i) \<and>
       (\<forall>i < nat r. ds ! nat r < ds ! i)
     else r = - 1)"

lemma pick_loop_spec:
  assumes "(best = - 1 \<and> RANGE_M < bestd \<and> (\<forall>d \<in> set xs. RANGE_M < d)) \<or>
    (0 \<le> best \<and> nat best < length xs \<and> xs ! nat best = bestd \<and> nearest xs best \<and> bestd \<le> RANGE_M)"
  shows "nearest (xs @ ds) (pick_loop ds (length xs) best bestd)"
  using assms
proof (induction ds arbitrary: xs best bestd)
  case Nil
  then show ?case by (auto simp: nearest_def split: if_splits)
next
  case (Cons d ds)
  show ?case
  proof (cases "d \<le> RANGE_M \<and> d < bestd")
    case True
    have least: "d < xs ! i" if "i < length xs" for i
      using Cons.prems True that by (auto simp: nearest_def split: if_splits) (fastforce dest: nth_mem)+
    then have "nearest (xs @ [d]) (int (length xs))"
      using True by (auto simp: nearest_def nth_append less_Suc_eq intro: less_imp_le)
    then show ?thesis using Cons.IH [of "int (length xs)" d "xs @ [d]"] True by (simp add: nth_append)
  next
    case False
    have "best = - 1 \<and> RANGE_M < bestd \<and> (\<forall>e \<in> set (xs @ [d]). RANGE_M < e) \<or>
      0 \<le> best \<and> nat best < length (xs @ [d]) \<and> (xs @ [d]) ! nat best = bestd \<and> nearest (xs @ [d]) best \<and> bestd \<le> RANGE_M"
      using Cons.prems False
      by (auto simp: nearest_def nth_append less_Suc_eq split: if_splits)
    then show ?thesis using Cons.IH [of best bestd "xs @ [d]"] False by auto
  qed
qed

lemma Pick_cases:
  "Pick bs a p = (if a \<ge> 0 \<and> CalculateDistance p (bs ! nat a) \<le> RANGE_M then a else Pick bs (- 1) p) \<and>
   nearest (map (CalculateDistance p) bs) (Pick bs (- 1) p)"
  using pick_loop_spec [of "- 1" "10 ^ 18" "[]"] by (simp add: Pick_def RANGE_M_def)

lemma Pick_range: "- 1 \<le> a \<Longrightarrow> a < int (length bs) \<Longrightarrow> - 1 \<le> Pick bs a p \<and> Pick bs a p < int (length bs)"
  using Pick_cases [of bs a p] by (auto simp: nearest_def split: if_splits)

text \<open>\<^verbatim>\<open>Pick\<close> keeps the active access point while it is within 100 m; otherwise it returns the nearest backbone
  node in range, the first of several at the same distance, and -1 when none is in range.\<close>

lemma Pick_nearest:
  "Pick bs a p =
     (if a \<ge> 0 \<and> CalculateDistance p (bs ! nat a) \<le> 100 then a else Pick bs (- 1) p) \<and>
   (let r = Pick bs (- 1) p; ds = map (CalculateDistance p) bs in
    if \<exists>d \<in> set ds. d \<le> 100
    then 0 \<le> r \<and> nat r < length bs \<and> ds ! nat r \<le> 100 \<and> list_all (\<lambda>d. ds ! nat r \<le> d) ds \<and>
      list_all (\<lambda>d. ds ! nat r < d) (take (nat r) ds)
    else r = - 1)"
  using Pick_cases [of bs a p]
  by (auto simp: nearest_def RANGE_M_def Let_def list_all_length split: if_splits)

section \<open>One link at a time\<close>

text \<open>The links as \<^verbatim>\<open>CreateLinks\<close> makes them: the mobile is not a backbone node and has a device towards each.\<close>

definition ho_env_ok :: "'p ho_env \<Rightarrow> bool" where
  "ho_env_ok env \<longleftrightarrow> distinct (he_backbone env) \<and> he_mobile env \<notin> set (he_backbone env) \<and>
     (\<forall>d \<in> set (he_devices env). he_owner env d = he_mobile env) \<and>
     (\<forall>b \<in> set (he_backbone env). \<exists>d \<in> set (he_devices env). he_owner env (le_peer (he_links env) d) = b) \<and>
     (\<forall>d k. le_uniform (he_links env) d k < 1)"

definition cut_model :: rate_error_model where
  "cut_model = \<lparr>em_enabled = True, em_unit = ERROR_UNIT_PACKET, em_rate = 1\<rparr>"

definition up_model :: rate_error_model where
  "up_model = \<lparr>em_enabled = False, em_unit = ERROR_UNIT_PACKET, em_rate = 0\<rparr>"

text \<open>Both ends of a link have the error model.\<close>

definition link_has :: "'p ho_env \<Rightarrow> rate_error_model \<Rightarrow> nat \<Rightarrow> 'p links \<Rightarrow> bool" where
  "link_has env em b s \<longleftrightarrow> (\<exists>d. device_to env b = Some d \<and> pd_receiveErrorModel (ln_devs s d) = Some em \<and>
     pd_receiveErrorModel (ln_devs s (le_peer (he_links env) d)) = Some em)"

lemma device_toD:
  assumes "device_to env b = Some d"
  shows "d \<in> set (he_devices env)" and "he_owner env (le_peer (he_links env) d) = b"
  using assms by (auto simp: device_to_def find_Some_iff)

lemma device_to_ex:
  assumes "ho_env_ok env" and "b \<in> set (he_backbone env)"
  obtains d where "device_to env b = Some d" and "he_owner env d = he_mobile env"
proof -
  have "device_to env b \<noteq> None" using assms by (auto simp: ho_env_ok_def device_to_def find_None_iff)
  then show thesis using that assms(1) device_toD(1) by (fastforce simp: ho_env_ok_def)
qed

lemma switch_link:
  assumes ok: "ho_env_ok env" and b: "b \<in> set (he_backbone env)"
  shows "link_has env cut_model b (FailP2PLink env b s)" and "link_has env up_model b (UpP2PLink env b s)"
    and "b' \<noteq> b \<Longrightarrow> b' \<in> set (he_backbone env) \<Longrightarrow> link_has env em b' s \<Longrightarrow>
      link_has env em b' (FailP2PLink env b s) \<and> link_has env em b' (UpP2PLink env b s)"
proof -
  obtain d where d: "device_to env b = Some d" "he_owner env d = he_mobile env" using device_to_ex [OF ok b] .
  show "link_has env cut_model b (FailP2PLink env b s)" and "link_has env up_model b (UpP2PLink env b s)"
    by (auto simp: link_has_def FailP2PLink_def UpP2PLink_def d fail_link_def up_link_def cut_model_def up_model_def Let_def)
  assume b': "b' \<noteq> b" "b' \<in> set (he_backbone env)" "link_has env em b' s"
  obtain d' where d': "device_to env b' = Some d'" "he_owner env d' = he_mobile env" using device_to_ex [OF ok b'(2)] .
  have "he_mobile env \<noteq> b" "he_mobile env \<noteq> b'" using ok b b'(2) by (auto simp: ho_env_ok_def)
  then have ne: "d' \<noteq> d" "d' \<noteq> le_peer (he_links env) d" "le_peer (he_links env) d' \<noteq> d"
    "le_peer (he_links env) d' \<noteq> le_peer (he_links env) d"
    using d(2) d'(2) device_toD(2) [OF d(1)] device_toD(2) [OF d'(1)] b'(1) by metis+
  have "pd_receiveErrorModel (ln_devs s d') = Some em" "pd_receiveErrorModel (ln_devs s (le_peer (he_links env) d')) = Some em"
    using b'(3) d'(1) by (simp_all add: link_has_def)
  then show "link_has env em b' (FailP2PLink env b s) \<and> link_has env em b' (UpP2PLink env b s)"
    using ne by (simp add: link_has_def FailP2PLink_def UpP2PLink_def d d' fail_link_def up_link_def Let_def)
qed

text \<open>What the callbacks have announced: the mobile leaves only the access point it has, and joins only when it
  has none.\<close>

fun announced :: "int \<Rightarrow> ho_call list \<Rightarrow> int option" where
  "announced a [] = Some a"
| "announced a (Deassoc old # cs) = (if a = old \<and> 0 \<le> a then announced (- 1) cs else None)"
| "announced a (Assoc ap old # cs) = (if a = - 1 \<and> 0 \<le> ap \<and> ap \<noteq> old then announced ap cs else None)"

lemma announced_append: "announced a (cs @ cs') = (case announced a cs of Some b \<Rightarrow> announced b cs' | None \<Rightarrow> None)"
  by (induction a cs rule: announced.induct) auto

definition ho_ok :: "'p ho_env \<Rightarrow> real \<Rightarrow> 'p handover \<Rightarrow> bool" where
  "ho_ok env interval s \<longleftrightarrow> - 1 \<le> wh_activeAp s \<and> wh_activeAp s < int (length (he_backbone env)) \<and>
     (\<forall>i < length (he_backbone env).
        link_has env (if int i = wh_activeAp s then up_model else cut_model) (he_backbone env ! i) (wh_links s)) \<and>
     (he_assocCb env \<and> he_deassocCb env \<longrightarrow> announced (- 1) (wh_calls s) = Some (wh_activeAp s)) \<and>
     map m_impl (m_events (wh_sim s)) = [Step_event interval] \<and> \<not> m_cancel (hd (m_events (wh_sim s)))"

lemma nth_backbone:
  "ho_env_ok env \<Longrightarrow> i < length (he_backbone env) \<Longrightarrow> j < length (he_backbone env) \<Longrightarrow>
   (he_backbone env ! i = he_backbone env ! j) = (i = j)"
  by (simp add: ho_env_ok_def nth_eq_iff_index_eq)

text \<open>Moving from one access point to another, or from and to none.\<close>

lemma move_links:
  assumes ok: "ho_env_ok env" and a: "- 1 \<le> a" "a < int (length (he_backbone env))"
    and b: "- 1 \<le> b" "b < int (length (he_backbone env))" and "b \<noteq> a"
    and inv: "\<And>i. i < length (he_backbone env) \<Longrightarrow>
      link_has env (if int i = a then up_model else cut_model) (he_backbone env ! i) s"
    and s1: "s1 = (if a \<ge> 0 then FailP2PLink env (he_backbone env ! nat a) s else s)"
    and s2: "s2 = (if b \<ge> 0 then UpP2PLink env (he_backbone env ! nat b) s1 else s1)"
    and i: "i < length (he_backbone env)"
  shows "link_has env (if int i = b then up_model else cut_model) (he_backbone env ! i) s2"
proof -
  let ?bb = "he_backbone env"
  have mem: "?bb ! j \<in> set ?bb" if "j < length ?bb" for j using that by simp
  have one: "link_has env cut_model (?bb ! i) s1"
  proof (cases "int i = a")
    case True
    then show ?thesis using switch_link(1) [OF ok mem [OF i]] by (auto simp: s1)
  next
    case False
    have "nat a < length ?bb" if "0 \<le> a" using that a(2) by simp
    then show ?thesis
      using inv [OF i] False switch_link(3) [OF ok mem [of "nat a"], of "?bb ! i"] nth_backbone [OF ok i, of "nat a"] i
      by (auto simp: s1)
  qed
  show ?thesis
  proof (cases "int i = b")
    case True
    then show ?thesis using switch_link(2) [OF ok mem [OF i]] by (auto simp: s2)
  next
    case False
    have "nat b < length ?bb" if "0 \<le> b" using that b(2) by simp
    then show ?thesis
      using one False switch_link(3) [OF ok mem [of "nat b"], of "?bb ! i"] nth_backbone [OF ok i, of "nat b"] i
      by (auto simp: s2)
  qed
qed

lemma Setup_ok:
  assumes ok: "ho_env_ok env" and "m_events (wh_sim s) = []" and "wh_calls s = []"
  shows "ho_ok env interval (Setup env interval s)"
proof -
  have "link_has env cut_model b (fold (FailP2PLink env) bs l)"
    if "set bs \<subseteq> set (he_backbone env)" "b \<in> set bs \<or> (b \<in> set (he_backbone env) \<and> link_has env cut_model b l)" for b bs l
    using that
  proof (induction bs arbitrary: l)
    case (Cons c bs)
    then show ?case
      using switch_link(1) [OF ok, of c l] switch_link(3) [OF ok, of c b cut_model l] by (cases "b = c") auto
  qed auto
  then show ?thesis
    using assms(2,3) by (auto simp: ho_ok_def Setup_def Let_def Schedule_def)
qed

lemma Step_ok:
  assumes ok: "ho_env_ok env" and inv: "ho_ok env interval s"
    and pop: "ProcessOneEvent (wh_sim s) = Some (Some (Step_event iv), sm)"
  shows "ho_ok env interval (Step env iv (s\<lparr>wh_sim := sm\<rparr>))"
proof -
  let ?a = "wh_activeAp s"
  let ?b = "Pick (map (\<lambda>b. he_position env b (Now sm)) (he_backbone env)) ?a (he_position env (he_mobile env) (Now sm))"
  define l1 where "l1 = (if ?a \<ge> 0 then FailP2PLink env (he_backbone env ! nat ?a) (wh_links s) else wh_links s)"
  define l2 where "l2 = (if ?b \<ge> 0 then UpP2PLink env (he_backbone env ! nat ?b) l1 else l1)"
  have a: "- 1 \<le> ?a" "?a < int (length (he_backbone env))" using inv by (simp_all add: ho_ok_def)
  have b: "- 1 \<le> ?b" "?b < int (length (he_backbone env))"
    using Pick_range [OF a(1), of "map (\<lambda>b. he_position env b (Now sm)) (he_backbone env)"] a(2) by simp_all
  have sm: "m_events sm = []" "iv = interval"
    using pop inv by (auto simp: ho_ok_def ProcessOneEvent_def split: list.splits if_splits)
  let ?s = "Step env iv (s\<lparr>wh_sim := sm\<rparr>)"
  have sim: "map m_impl (m_events (wh_sim ?s)) = [Step_event interval]" "\<not> m_cancel (hd (m_events (wh_sim ?s)))"
    using sm by (simp_all add: Step_def Let_def Schedule_def)
  show ?thesis
  proof (cases "?b = ?a")
    case True
    then have "wh_activeAp ?s = ?a" "wh_links ?s = wh_links s" "wh_calls ?s = wh_calls s"
      by (simp_all add: Step_def Let_def)
    then show ?thesis using inv sim unfolding ho_ok_def by metis
  next
    case False
    have s: "wh_activeAp ?s = ?b" "wh_links ?s = l2"
      "wh_calls ?s = wh_calls s @ (if ?a \<ge> 0 \<and> he_deassocCb env then [Deassoc ?a] else []) @
         (if ?b \<ge> 0 \<and> he_assocCb env then [Assoc ?b ?a] else [])"
      using False by (simp_all add: Step_def Let_def l1_def l2_def)
    have "link_has env (if int i = ?b then up_model else cut_model) (he_backbone env ! i) l2"
      if "i < length (he_backbone env)" for i
      using inv by (intro move_links [OF ok a b False _ l1_def l2_def that]) (simp add: ho_ok_def)
    moreover have "announced (- 1) (wh_calls ?s) = Some ?b" if "he_assocCb env" "he_deassocCb env"
      using inv a(1) b(1) that False by (auto simp: s(3) ho_ok_def announced_append)
    ultimately show ?thesis using b sim by (simp add: ho_ok_def s(1,2))
  qed
qed

interpretation handover_system: invariant_system
  "\<lambda>s. ho_env_ok env \<and> (\<exists>s0. m_events (wh_sim s0) = [] \<and> wh_calls s0 = [] \<and> s = Setup env interval s0)"
  "ho_step env" "\<lambda>s. ho_env_ok env \<and> ho_ok env interval s" for env :: "'p ho_env" and interval
proof
  show "ho_env_ok env \<and> ho_ok env interval s'" if "ho_env_ok env \<and> ho_ok env interval s" "ho_step env s s'" for s s'
    using that(2)
  proof cases
    case (check iv sm)
    then show ?thesis using Step_ok that(1) by blast
  next
    case (traffic x l)
    then show ?thesis using that(1) by (auto simp: ho_ok_def link_has_def)
  next
    case (other t v u sm)
    then show ?thesis using that(1) by (auto simp: ho_ok_def foreign_event_def split: if_splits)
  qed
qed (auto intro: Setup_ok)

lemma receive_on_link:
  assumes "ho_env_ok env" and "pd_receiveErrorModel (ln_devs s e) = Some (if up then up_model else cut_model)"
  shows "ln_received (device_Receive (he_links env) e p s) = ln_received s @ (if up then [(e, p)] else [])"
  using assms
  by (auto simp: device_Receive_def receive_corrupt_def DoCorrupt_def up_model_def cut_model_def ho_env_ok_def Let_def)

text \<open>C23. At every moment after \<^verbatim>\<open>Setup\<close>, whatever the traffic and the movement of the nodes: a packet that arrives
  at either end of the link to a backbone node is handed up exactly when that node is the active access point,
  otherwise it is lost; the calls of the callbacks announce exactly the way to the active access point, leaving
  before joining; and the next check is scheduled.\<close>

theorem one_link_up:
  assumes "ho_env_ok env" and "m_events (wh_sim s0) = []" and "wh_calls s0 = []"
    and "(ho_step env)\<^sup>*\<^sup>* (Setup env interval s0) s" and "i < length (he_backbone env)"
  shows "(\<exists>d. device_to env (he_backbone env ! i) = Some d \<and>
      (\<forall>e p. e \<in> {d, le_peer (he_links env) d} \<longrightarrow>
         ln_received (device_Receive (he_links env) e p (wh_links s)) =
           ln_received (wh_links s) @ (if int i = wh_activeAp s then [(e, p)] else []))) \<and>
    - 1 \<le> wh_activeAp s \<and> wh_activeAp s < int (length (he_backbone env)) \<and>
    (he_assocCb env \<and> he_deassocCb env \<longrightarrow> announced (- 1) (wh_calls s) = Some (wh_activeAp s)) \<and>
    map m_impl (m_events (wh_sim s)) = [Step_event interval]"
proof -
  have inv: "ho_ok env interval s"
    using handover_system.steps_inv [OF assms(4), of interval] Setup_ok [OF assms(1-3)] assms(1) by blast
  then obtain d where "device_to env (he_backbone env ! i) = Some d"
    "\<And>e. e \<in> {d, le_peer (he_links env) d} \<Longrightarrow> pd_receiveErrorModel (ln_devs (wh_links s) e) =
       Some (if int i = wh_activeAp s then up_model else cut_model)"
    using assms(5) by (auto simp: ho_ok_def link_has_def)
  then show ?thesis using inv receive_on_link [OF assms(1)] by (auto simp: ho_ok_def)
qed

text \<open>A mobile near the first of two backbone nodes, after the first check.\<close>

definition sample_ho :: "nat ho_env" where
  "sample_ho = \<lparr>he_links = \<lparr>le_size = of_nat, le_txTime = (\<lambda>_ _. 15), le_gap = (\<lambda>_. 0), le_delay = (\<lambda>_. 2000),
       le_peer = (\<lambda>d. if even d then d + 1 else d - 1), le_uniform = (\<lambda>_ _. 1 / 2)\<rparr>,
     he_owner = (\<lambda>d. if even d then 9 else d), he_mobile = 9, he_devices = [0, 2], he_backbone = [1, 3],
     he_position = (\<lambda>k _. if k = 1 then (0, 0, 0) else if k = 3 then (303, 404, 0) else (3, 4, 0)),
     he_assocCb = True, he_deassocCb = True, he_Seconds = (\<lambda>x. \<lfloor>x * 10 ^ 9\<rfloor>)\<rparr>"

definition sample_handover :: "nat handover" where
  "sample_handover = \<lparr>wh_sim = sim_init, wh_links = links_new, wh_activeAp = - 1, wh_calls = []\<rparr>"

lemma sample_ho_ok: "ho_env_ok sample_ho"
  by (simp add: ho_env_ok_def sample_ho_def)

lemma sample_Pick: "Pick [(0, 0, 0), (303, 404, 0)] (- 1) (3, 4, 0) = 0"
proof -
  have "sqrt 25 = (5 :: real)" "sqrt 250000 = (500 :: real)" by (simp_all add: real_sqrt_unique)
  then show ?thesis by (simp add: Pick_def CalculateDistance_def RANGE_M_def)
qed

theorem one_link_up_witness:
  "\<exists>s. (ho_step sample_ho)\<^sup>*\<^sup>* (Setup sample_ho 1 sample_handover) s \<and> wh_activeAp s = 0 \<and>
     announced (- 1) (wh_calls s) = Some 0 \<and>
     ln_received (device_Receive (he_links sample_ho) 1 42 (wh_links s)) = ln_received (wh_links s) @ [(1, 42)]"
proof -
  let ?s = "Setup sample_ho 1 sample_handover"
  obtain sm where sm: "ProcessOneEvent (wh_sim ?s) = Some (Some (Step_event 1), sm)"
    by (simp add: Setup_def sample_handover_def Let_def Schedule_def sim_init_def ProcessOneEvent_def)
  let ?t = "Step sample_ho 1 (?s\<lparr>wh_sim := sm\<rparr>)"
  have run: "(ho_step sample_ho)\<^sup>*\<^sup>* ?s ?t" using ho_step.check [OF sm] by blast
  have "wh_activeAp ?s = - 1" by (simp add: Setup_def Let_def)
  then have a: "wh_activeAp ?t = 0"
    using sample_Pick by (simp add: Step_def Let_def sample_ho_def)
  have "m_events (wh_sim sample_handover) = []" "wh_calls sample_handover = []"
    by (simp_all add: sample_handover_def sim_init_def)
  note one_link_up [OF sample_ho_ok this run, of 0]
  then show ?thesis
    using a run by (intro exI [of _ ?t]) (auto simp: device_to_def sample_ho_def)
qed

end
