(* ===== verification/Mobile_App.thy ===== *)
theory Mobile_App
  imports Samples Event_Loop
begin

text \<open>
  The mobile producer (\<^verbatim>\<open>statim/apps/statim-mobile.cpp\<close>, on top of \<^verbatim>\<open>ndn-producer.cpp\<close> and
  \<^verbatim>\<open>ndn-app.cpp\<close>): it announces its location with Trace Interests, repeats them on a refresh
  timer and on timeouts, and answers Interests.  What it hands to \<^verbatim>\<open>m_appLink\<close> is logged in
  \<open>mb_interests\<close> and \<open>mb_datas\<close>; a handover delay is kept as a number of nanoseconds.
  \<^verbatim>\<open>Seconds(t.GetSeconds())\<close> goes through the conversions of the environment.
\<close>

section \<open>State\<close>

datatype mobile_act = SendTrace_act | OnTraceTimeout_act

record trace_interest =
  ti_name :: name
  ti_nonce :: u32
  ti_lifetime :: int

record reply =
  rp_name :: name
  rp_freshness :: int
  rp_content :: "byte list"
  rp_keyLocator :: "name option"
  rp_signature :: u32

record mobile =
  mb_active :: bool
  mb_rvPrefix :: name
  mb_dataPrefix :: name
  mb_traceLifetime :: sim_time
  mb_refreshInterval :: sim_time
  mb_traceDelay :: sim_time
  mb_virtualPayloadSize :: nat
  mb_freshness :: sim_time
  mb_signature :: u32
  mb_keyLocator :: name
  mb_seq :: u64
  mb_traceRefreshEvent :: "event_id option"
  mb_traceTimeoutEvent :: "event_id option"
  mb_traceRetryCnt :: int
  mb_rvInterests :: int
  mb_rvData :: int
  mb_interestForData :: int
  mb_data :: int
  mb_current :: int
  mb_lastTraceSendTime :: sim_time
  mb_waitingForFirstInterest :: bool
  mb_handoverDelays :: "sim_time list"
  mb_useExternalAnchor :: bool
  mb_hoAnchor :: sim_time
  mb_randPos :: nat
  mb_sim :: "mobile_act sim"
  mb_interests :: "trace_interest list"
  mb_datas :: "reply list"

definition mobile_new :: "name \<Rightarrow> name \<Rightarrow> int \<Rightarrow> mobile" where
  "mobile_new rvPrefix dataPrefix current = \<lparr>mb_active = False, mb_rvPrefix = rvPrefix, mb_dataPrefix = dataPrefix,
     mb_traceLifetime = 2000000000, mb_refreshInterval = 1000000000, mb_traceDelay = 10000000,
     mb_virtualPayloadSize = 1024, mb_freshness = 0, mb_signature = 0, mb_keyLocator = [], mb_seq = 1,
     mb_traceRefreshEvent = None, mb_traceTimeoutEvent = None, mb_traceRetryCnt = 0, mb_rvInterests = 0,
     mb_rvData = 0, mb_interestForData = 0, mb_data = 0, mb_current = current, mb_lastTraceSendTime = 0,
     mb_waitingForFirstInterest = False, mb_handoverDelays = [], mb_useExternalAnchor = False,
     mb_hoAnchor = 0, mb_randPos = 0, mb_sim = sim_init, mb_interests = [], mb_datas = []\<rparr>"

section \<open>Operations\<close>

text \<open>\<^verbatim>\<open>Time::GetMilliSeconds\<close>: integer division, which truncates towards zero.\<close>

definition GetMilliSeconds :: "sim_time \<Rightarrow> int" where
  "GetMilliSeconds t = (if 0 \<le> t then t div 1000000 else - (- t div 1000000))"

definition through_seconds :: "env \<Rightarrow> sim_time \<Rightarrow> sim_time" where
  "through_seconds env t = e_Seconds env (e_getSeconds env t)"

definition mobile_schedule :: "sim_time \<Rightarrow> mobile_act \<Rightarrow> mobile \<Rightarrow> event_id \<times> mobile" where
  "mobile_schedule d a m = (let (i, s) = Schedule d a (mb_sim m) in (i, m\<lparr>mb_sim := s\<rparr>))"

definition OnAssociation :: "mobile \<Rightarrow> mobile" where
  "OnAssociation m = snd (mobile_schedule (mb_traceDelay m) SendTrace_act (m\<lparr>mb_waitingForFirstInterest := True\<rparr>))"

definition MarkHandover :: "sim_time \<Rightarrow> mobile \<Rightarrow> mobile" where
  "MarkHandover anchor m = m\<lparr>mb_waitingForFirstInterest := True, mb_useExternalAnchor := True, mb_hoAnchor := anchor\<rparr>"

definition mobile_StartApplication :: "mobile \<Rightarrow> mobile" where
  "mobile_StartApplication m = m\<lparr>mb_active := True\<rparr>"

definition mobile_StopApplication :: "mobile \<Rightarrow> mobile" where
  "mobile_StopApplication m = (if \<not> mb_active m then m else m\<lparr>mb_active := False\<rparr>)"

text \<open>The timers of \<^verbatim>\<open>SendTrace\<close>: each is replaced by a new one.\<close>

definition restart_refresh :: "env \<Rightarrow> mobile \<Rightarrow> mobile" where
  "restart_refresh env m =
     (let m = (if IsRunning (mb_traceRefreshEvent m) (mb_sim m)
               then m\<lparr>mb_sim := CancelId (mb_traceRefreshEvent m) (mb_sim m)\<rparr> else m)
      in if mb_refreshInterval m \<noteq> 0
         then let (i, m) = mobile_schedule (through_seconds env (mb_refreshInterval m)) SendTrace_act m
              in m\<lparr>mb_traceRefreshEvent := Some i\<rparr>
         else m)"

definition restart_timeout :: "env \<Rightarrow> mobile \<Rightarrow> mobile" where
  "restart_timeout env m =
     (let m = (if IsRunning (mb_traceTimeoutEvent m) (mb_sim m)
               then m\<lparr>mb_sim := CancelId (mb_traceTimeoutEvent m) (mb_sim m)\<rparr> else m);
          (i, m) = mobile_schedule (through_seconds env (mb_traceLifetime m)) OnTraceTimeout_act m
      in m\<lparr>mb_traceTimeoutEvent := Some i\<rparr>)"

definition SendTrace :: "env \<Rightarrow> mobile \<Rightarrow> mobile" where
  "SendTrace env m =
     (let nm = MakeTracePrefix (mb_rvPrefix m) (mb_dataPrefix m) @ [fromSequenceNumber (mb_seq m)];
          m = m\<lparr>mb_seq := mb_seq m + 1\<rparr>;
          interest = \<lparr>ti_name = nm, ti_nonce = e_words env (mb_randPos m),
                      ti_lifetime = GetMilliSeconds (mb_traceLifetime m)\<rparr>;
          m = m\<lparr>mb_randPos := mb_randPos m + 1, mb_rvInterests := mb_rvInterests m + 1,
                mb_interests := mb_interests m @ [interest], mb_lastTraceSendTime := Now (mb_sim m)\<rparr>
      in restart_timeout env (restart_refresh env m))"

definition mobile_OnData :: "data_packet \<Rightarrow> mobile \<Rightarrow> exn + mobile" where
  "mobile_OnData d m =
     (if \<not> mb_active m then Inr m
      else
        let m = m\<lparr>mb_rvData := mb_rvData m + 1\<rparr> in
        bind_exn (bind_exn (name_at (d_name d) (- 1)) toSequenceNumber) (\<lambda>s.
          if s \<noteq> mb_seq m - 1 then Inr m
          else Inr (m\<lparr>mb_sim := CancelId (mb_traceTimeoutEvent m) (mb_sim m), mb_traceRetryCnt := 0\<rparr>)))"

definition OnTraceTimeout :: "env \<Rightarrow> mobile \<Rightarrow> mobile" where
  "OnTraceTimeout env m =
     (let m = m\<lparr>mb_sim := CancelId (mb_traceRefreshEvent m) (mb_sim m)\<rparr> in
      if mb_traceRetryCnt m \<ge> 3 then m\<lparr>mb_traceRetryCnt := 0\<rparr>
      else let m = (if mb_seq m > 0 then SendTrace env m else m)
           in m\<lparr>mb_traceRetryCnt := mb_traceRetryCnt m + 1\<rparr>)"

definition mobile_OnInterest :: "name \<Rightarrow> mobile \<Rightarrow> mobile" where
  "mobile_OnInterest nm m =
     (if \<not> mb_active m then m
      else
        let m = (if mb_waitingForFirstInterest m
                 then let anchor = (if mb_useExternalAnchor m then mb_hoAnchor m else mb_lastTraceSendTime m)
                      in m\<lparr>mb_handoverDelays := mb_handoverDelays m @ [Now (mb_sim m) - anchor],
                           mb_waitingForFirstInterest := False\<rparr>
                 else m);
            m = m\<lparr>mb_interestForData := mb_interestForData m + 1, mb_data := mb_data m + 1\<rparr>
        in m\<lparr>mb_datas := mb_datas m @
             [\<lparr>rp_name = nm @ [fromSequenceNumber (word_of_int (mb_current m))],
               rp_freshness = GetMilliSeconds (mb_freshness m),
               rp_content = replicate (mb_virtualPayloadSize m) 0,
               rp_keyLocator = (if length (mb_keyLocator m) > 0 then Some (mb_keyLocator m) else None),
               rp_signature = mb_signature m\<rparr>]\<rparr>)"

text \<open>The statistics of \<^verbatim>\<open>StopApplication\<close>: count, sum, minimum and maximum, here in
  nanoseconds; the code divides each delay by a million first.\<close>

definition handover_stats :: "sim_time list \<Rightarrow> nat \<times> sim_time \<times> sim_time \<times> sim_time" where
  "handover_stats ds =
     (let (s, maxv, minv) = fold (\<lambda>d (s, maxv, minv). (s + d, if d > maxv then d else maxv, if d < minv then d else minv))
                              ds (0, 0, 10 ^ 18 * 1000000)
      in (length ds, s, minv, maxv))"

section \<open>Steps\<close>

fun run_mobile :: "env \<Rightarrow> mobile_act \<Rightarrow> mobile \<Rightarrow> exn + mobile" where
  "run_mobile env SendTrace_act m = Inr (SendTrace env m)"
| "run_mobile env OnTraceTimeout_act m = Inr (OnTraceTimeout env m)"

fun mobile_Run :: "env \<Rightarrow> nat \<Rightarrow> mobile \<Rightarrow> exn + mobile" where
  "mobile_Run env 0 m = Inr m"
| "mobile_Run env (Suc k) m =
     (case ProcessOneEvent (mb_sim m) of
        None \<Rightarrow> Inr m
      | Some (None, sm) \<Rightarrow> mobile_Run env k (m\<lparr>mb_sim := sm\<rparr>)
      | Some (Some a, sm) \<Rightarrow> bind_exn (run_mobile env a (m\<lparr>mb_sim := sm\<rparr>)) (mobile_Run env k))"

interpretation mobile_loop: event_loop mb_sim "\<lambda>sm m. m\<lparr>mb_sim := sm\<rparr>" "run_mobile env" "mobile_Run env" for env
proof
  show "mobile_Run env k x = Inr x" if "ProcessOneEvent (mb_sim x) = None" for x k
    using that by (cases k) simp_all
qed simp_all

inductive mobile_step :: "env \<Rightarrow> mobile \<Rightarrow> mobile \<Rightarrow> bool" for env where
  start_app: "mobile_step env m (mobile_StartApplication m)"
| stop_app: "mobile_step env m (mobile_StopApplication m)"
| associate: "mobile_step env m (OnAssociation m)"
| handover: "mobile_step env m (MarkHandover t m)"
| on_data: "mobile_OnData d m = Inr m' \<Longrightarrow> mobile_step env m m'"
| on_interest: "mobile_step env m (mobile_OnInterest nm m)"
| run_event: "ProcessOneEvent (mb_sim m) = Some (Some a, sm) \<Longrightarrow> run_mobile env a (m\<lparr>mb_sim := sm\<rparr>) = Inr m' \<Longrightarrow>
    mobile_step env m m'"
| skip_event: "ProcessOneEvent (mb_sim m) = Some (None, sm) \<Longrightarrow> mobile_step env m (m\<lparr>mb_sim := sm\<rparr>)"
| other_event: "foreign_event t v u (mb_sim m) = Some sm \<Longrightarrow> mobile_step env m (m\<lparr>mb_sim := sm\<rparr>)"

inductive_cases mobile_stepE: "mobile_step env m m'"

section \<open>Timers\<close>

lemma cancel_mobile:
  "(if IsRunning i (mb_sim m) then m\<lparr>mb_sim := CancelId i (mb_sim m)\<rparr> else m) = m\<lparr>mb_sim := CancelId i (mb_sim m)\<rparr>"
proof (cases "IsRunning i (mb_sim m)")
  case False
  then have "CancelId i (mb_sim m) = mb_sim m" using cancel_if_running [of i "mb_sim m"] by simp
  then show ?thesis using False by simp
qed simp

lemma restart_refresh_eq:
  "restart_refresh env m =
     (let s = CancelId (mb_traceRefreshEvent m) (mb_sim m) in
      if mb_refreshInterval m \<noteq> 0
      then m\<lparr>mb_sim := snd (Schedule (through_seconds env (mb_refreshInterval m)) SendTrace_act s),
             mb_traceRefreshEvent := Some (fst (Schedule (through_seconds env (mb_refreshInterval m)) SendTrace_act s))\<rparr>
      else m\<lparr>mb_sim := s\<rparr>)"
  unfolding restart_refresh_def Let_def cancel_mobile
  by (simp add: mobile_schedule_def case_prod_beta Let_def)

lemma restart_timeout_eq:
  "restart_timeout env m =
     (let s = CancelId (mb_traceTimeoutEvent m) (mb_sim m) in
      m\<lparr>mb_sim := snd (Schedule (through_seconds env (mb_traceLifetime m)) OnTraceTimeout_act s),
        mb_traceTimeoutEvent := Some (fst (Schedule (through_seconds env (mb_traceLifetime m)) OnTraceTimeout_act s))\<rparr>)"
  unfolding restart_timeout_def Let_def cancel_mobile
  by (simp add: mobile_schedule_def case_prod_beta Let_def)

text \<open>The simulator after \<^verbatim>\<open>SendTrace\<close>.\<close>

definition timers_ok :: "mobile \<Rightarrow> bool" where
  "timers_ok m \<longleftrightarrow> sim_ok (mb_sim m) \<and> known (mb_sim m) OnTraceTimeout_act (mb_traceTimeoutEvent m) \<and>
     known (mb_sim m) SendTrace_act (mb_traceRefreshEvent m) \<and>
     (\<forall>i. (OnTraceTimeout_act, i) \<in> live_timers (mb_sim m) \<longrightarrow> mb_traceTimeoutEvent m = Some i)"

definition delays_ok :: "env \<Rightarrow> mobile \<Rightarrow> bool" where
  "delays_ok env m \<longleftrightarrow> 0 \<le> mb_traceDelay m \<and> 0 \<le> through_seconds env (mb_refreshInterval m) \<and>
     0 \<le> through_seconds env (mb_traceLifetime m)"

lemma restart_refresh_timers:
  assumes t: "timers_ok m" and d: "delays_ok env m"
  shows "timers_ok (restart_refresh env m)"
    and "live_timers (mb_sim (restart_refresh env m)) =
      live_timers (mb_sim m) - {(b, j). Some j = mb_traceRefreshEvent m} \<union>
      (if mb_refreshInterval m = 0 then {}
       else {(SendTrace_act, \<lparr>id_ts = through_seconds env (mb_refreshInterval m) + Now (mb_sim m), id_uid = m_uid (mb_sim m)\<rparr>)})"
proof -
  let ?s = "CancelId (mb_traceRefreshEvent m) (mb_sim m)"
  have ok: "sim_ok ?s" and k: "known ?s OnTraceTimeout_act (mb_traceTimeoutEvent m)"
    "known ?s SendTrace_act (mb_traceRefreshEvent m)"
    using t by (auto simp: timers_ok_def sim_ok_CancelId known_CancelId)
  have live: "live_timers ?s = live_timers (mb_sim m) - {(b, j). Some j = mb_traceRefreshEvent m}"
    using live_timers_CancelId [of "mb_sim m" SendTrace_act] t by (simp add: timers_ok_def)
  show "timers_ok (restart_refresh env m)"
    using t ok k live d
    by (auto simp: restart_refresh_eq Let_def timers_ok_def delays_ok_def sim_ok_Schedule known_Schedule
        known_Schedule_new live_timers_Schedule)
  show "live_timers (mb_sim (restart_refresh env m)) =
      live_timers (mb_sim m) - {(b, j). Some j = mb_traceRefreshEvent m} \<union>
      (if mb_refreshInterval m = 0 then {}
       else {(SendTrace_act, \<lparr>id_ts = through_seconds env (mb_refreshInterval m) + Now (mb_sim m), id_uid = m_uid (mb_sim m)\<rparr>)})"
    using live by (auto simp: restart_refresh_eq Let_def live_timers_Schedule Schedule_id)
qed

lemma restart_timeout_timers:
  assumes t: "timers_ok m" and d: "delays_ok env m"
  shows "timers_ok (restart_timeout env m)"
    and "live_timers (mb_sim (restart_timeout env m)) =
      live_timers (mb_sim m) - {(b, j). Some j = mb_traceTimeoutEvent m} \<union>
      {(OnTraceTimeout_act, \<lparr>id_ts = through_seconds env (mb_traceLifetime m) + Now (mb_sim m), id_uid = m_uid (mb_sim m)\<rparr>)}"
proof -
  let ?s = "CancelId (mb_traceTimeoutEvent m) (mb_sim m)"
  have ok: "sim_ok ?s" and k: "known ?s SendTrace_act (mb_traceRefreshEvent m)"
    using t by (auto simp: timers_ok_def sim_ok_CancelId known_CancelId)
  have live: "live_timers ?s = live_timers (mb_sim m) - {(b, j). Some j = mb_traceTimeoutEvent m}"
    using live_timers_CancelId [of "mb_sim m" OnTraceTimeout_act] t by (simp add: timers_ok_def)
  show "timers_ok (restart_timeout env m)"
    using t ok k live d
    by (auto simp: restart_timeout_eq Let_def timers_ok_def delays_ok_def sim_ok_Schedule known_Schedule
        known_Schedule_new live_timers_Schedule)
  show "live_timers (mb_sim (restart_timeout env m)) =
      live_timers (mb_sim m) - {(b, j). Some j = mb_traceTimeoutEvent m} \<union>
      {(OnTraceTimeout_act, \<lparr>id_ts = through_seconds env (mb_traceLifetime m) + Now (mb_sim m), id_uid = m_uid (mb_sim m)\<rparr>)}"
    using live by (auto simp: restart_timeout_eq Let_def live_timers_Schedule Schedule_id)
qed

lemma restart_frame [simp]:
  "Now (mb_sim (restart_refresh env m)) = Now (mb_sim m)" "mb_traceTimeoutEvent (restart_refresh env m) = mb_traceTimeoutEvent m"
  "mb_traceRefreshEvent (restart_timeout env m) = mb_traceRefreshEvent m"
  "mb_traceLifetime (restart_refresh env m) = mb_traceLifetime m" "delays_ok e (restart_refresh env m) = delays_ok e m"
  "mb_interests (restart_refresh env m) = mb_interests m" "mb_seq (restart_refresh env m) = mb_seq m"
  "mb_interests (restart_timeout env m) = mb_interests m" "mb_seq (restart_timeout env m) = mb_seq m"
  "mb_rvPrefix (restart_refresh env m) = mb_rvPrefix m" "mb_dataPrefix (restart_refresh env m) = mb_dataPrefix m"
  "mb_rvPrefix (restart_timeout env m) = mb_rvPrefix m" "mb_dataPrefix (restart_timeout env m) = mb_dataPrefix m"
  "mb_traceRetryCnt (restart_refresh env m) = mb_traceRetryCnt m" "mb_traceRetryCnt (restart_timeout env m) = mb_traceRetryCnt m"
  "mb_refreshInterval (restart_refresh env m) = mb_refreshInterval m" "mb_refreshInterval (restart_timeout env m) = mb_refreshInterval m"
  "mb_traceLifetime (restart_timeout env m) = mb_traceLifetime m" "mb_traceDelay (restart_timeout env m) = mb_traceDelay m"
  "mb_traceDelay (restart_refresh env m) = mb_traceDelay m"
  by (simp_all add: restart_refresh_eq restart_timeout_eq Let_def delays_ok_def)

text \<open>\<^verbatim>\<open>SendTrace\<close> before it touches the timers.\<close>

definition announced :: "env \<Rightarrow> mobile \<Rightarrow> mobile" where
  "announced env m = m\<lparr>mb_seq := mb_seq m + 1, mb_randPos := mb_randPos m + 1, mb_rvInterests := mb_rvInterests m + 1,
     mb_interests := mb_interests m @ [\<lparr>ti_name = traceName (mb_rvPrefix m) (mb_dataPrefix m) (mb_seq m),
       ti_nonce = e_words env (mb_randPos m), ti_lifetime = GetMilliSeconds (mb_traceLifetime m)\<rparr>],
     mb_lastTraceSendTime := Now (mb_sim m)\<rparr>"

lemma SendTrace_eq: "SendTrace env m = restart_timeout env (restart_refresh env (announced env m))"
  by (simp add: SendTrace_def announced_def Let_def traceName_def)

lemma announced_frame [simp]:
  "mb_sim (announced env m) = mb_sim m" "timers_ok (announced env m) = timers_ok m"
  "delays_ok e (announced env m) = delays_ok e m" "mb_traceTimeoutEvent (announced env m) = mb_traceTimeoutEvent m"
  "mb_traceRefreshEvent (announced env m) = mb_traceRefreshEvent m" "mb_refreshInterval (announced env m) = mb_refreshInterval m"
  "mb_traceLifetime (announced env m) = mb_traceLifetime m" "mb_traceRetryCnt (announced env m) = mb_traceRetryCnt m"
  "mb_traceDelay (announced env m) = mb_traceDelay m" "mb_rvPrefix (announced env m) = mb_rvPrefix m"
  "mb_dataPrefix (announced env m) = mb_dataPrefix m"
  by (simp_all add: announced_def timers_ok_def delays_ok_def)

lemma SendTrace_timers:
  assumes t: "timers_ok m" and d: "delays_ok env m"
  shows "timers_ok (SendTrace env m) \<and> (\<exists>r t.
    live_timers (mb_sim (SendTrace env m)) =
      live_timers (mb_sim m) - {(b, j). Some j = mb_traceRefreshEvent m \<or> Some j = mb_traceTimeoutEvent m} \<union>
      (if mb_refreshInterval m = 0 then {} else {(SendTrace_act, r)}) \<union> {(OnTraceTimeout_act, t)} \<and>
    id_ts r = through_seconds env (mb_refreshInterval m) + Now (mb_sim m) \<and>
    id_ts t = through_seconds env (mb_traceLifetime m) + Now (mb_sim m) \<and>
    mb_traceRefreshEvent (SendTrace env m) = (if mb_refreshInterval m = 0 then mb_traceRefreshEvent m else Some r) \<and>
    mb_traceTimeoutEvent (SendTrace env m) = Some t)"
proof -
  let ?a = "announced env m" and ?s = "CancelId (mb_traceRefreshEvent m) (mb_sim m)"
  let ?b = "restart_refresh env ?a"
  let ?r = "\<lparr>id_ts = through_seconds env (mb_refreshInterval m) + Now (mb_sim m), id_uid = m_uid (mb_sim m)\<rparr>"
  let ?t = "\<lparr>id_ts = through_seconds env (mb_traceLifetime m) + Now (mb_sim m), id_uid = m_uid (mb_sim ?b)\<rparr>"
  have a: "timers_ok ?a" "delays_ok env ?a" using t d by simp_all
  note R = restart_refresh_timers [OF a] and T = restart_timeout_timers [of ?b env]
  have b: "timers_ok ?b" "delays_ok env ?b" using R(1) d by simp_all
  have ok: "sim_ok ?s" "known ?s OnTraceTimeout_act (mb_traceTimeoutEvent m)"
    using t by (auto simp: timers_ok_def sim_ok_CancelId known_CancelId)
  have "?r = fst (Schedule (through_seconds env (mb_refreshInterval m)) SendTrace_act ?s)" by (simp add: Schedule_id)
  then have new: "Some ?r \<noteq> mb_traceTimeoutEvent m"
    using new_id_unknown [OF ok(1), of "through_seconds env (mb_refreshInterval m)"] ok(2) d
    by (metis delays_ok_def)
  have ev: "mb_traceRefreshEvent ?b = (if mb_refreshInterval m = 0 then mb_traceRefreshEvent m else Some ?r)"
    "mb_traceTimeoutEvent (restart_timeout env ?b) = Some ?t"
    by (simp_all add: restart_refresh_eq restart_timeout_eq Let_def Schedule_id)
  have "live_timers (mb_sim (restart_timeout env ?b)) =
      live_timers (mb_sim ?b) - {(b, j). Some j = mb_traceTimeoutEvent m} \<union> {(OnTraceTimeout_act, ?t)}"
    using T(2) [OF b] by simp
  also have "live_timers (mb_sim ?b) - {(b, j). Some j = mb_traceTimeoutEvent m} =
      live_timers (mb_sim m) - {(b, j). Some j = mb_traceRefreshEvent m \<or> Some j = mb_traceTimeoutEvent m} \<union>
      (if mb_refreshInterval m = 0 then {} else {(SendTrace_act, ?r)})"
    using new unfolding R(2) by (cases "mb_refreshInterval m = 0") auto
  finally show ?thesis
    unfolding SendTrace_eq using T(1) [OF b] ev
    by (intro conjI exI [of _ ?r] exI [of _ ?t]) (simp_all only: restart_frame event_id.simps)
qed

section \<open>Invariant\<close>

definition names_ok :: "mobile \<Rightarrow> bool" where
  "names_ok m \<longleftrightarrow> mb_seq m = of_nat (Suc (length (mb_interests m))) \<and>
     map ti_name (mb_interests m) =
       map (\<lambda>k. traceName (mb_rvPrefix m) (mb_dataPrefix m) (of_nat k)) [1..<Suc (length (mb_interests m))]"

definition mobile_ok :: "env \<Rightarrow> mobile \<Rightarrow> bool" where
  "mobile_ok env m \<longleftrightarrow> timers_ok m \<and> delays_ok env m \<and> names_ok m \<and>
     0 \<le> mb_traceRetryCnt m \<and> mb_traceRetryCnt m \<le> 3"

definition mobile_start :: "env \<Rightarrow> mobile \<Rightarrow> bool" where
  "mobile_start env m \<longleftrightarrow> m_events (mb_sim m) = [] \<and> m_currentUid (mb_sim m) < m_uid (mb_sim m) \<and>
     mb_traceRefreshEvent m = None \<and> mb_traceTimeoutEvent m = None \<and> mb_traceRetryCnt m = 0 \<and>
     mb_interests m = [] \<and> mb_seq m = 1 \<and> delays_ok env m"

lemma names_ok_SendTrace: "names_ok m \<Longrightarrow> names_ok (SendTrace env m)"
  by (simp add: names_ok_def SendTrace_eq) (simp add: announced_def)

lemma mobile_ok_SendTrace: "mobile_ok env m \<Longrightarrow> mobile_ok env (SendTrace env m)"
  using SendTrace_timers [of m env] names_ok_SendTrace [of m env]
  by (auto simp: mobile_ok_def SendTrace_eq delays_ok_def)

lemma mobile_ok_sim:
  assumes "mobile_ok env m" and "sim_ok sm" and "\<And>a i. known (mb_sim m) a i \<Longrightarrow> known sm a i"
    and "live_timers sm \<subseteq> live_timers (mb_sim m)"
  shows "mobile_ok env (m\<lparr>mb_sim := sm\<rparr>)"
  using assms by (auto simp: mobile_ok_def timers_ok_def delays_ok_def names_ok_def)

lemma mobile_ok_pop:
  assumes "mobile_ok env m" and "ProcessOneEvent (mb_sim m) = Some (r, sm)"
  shows "mobile_ok env (m\<lparr>mb_sim := sm\<rparr>)"
proof -
  have ok: "sim_ok (mb_sim m)" using assms(1) by (simp add: mobile_ok_def timers_ok_def)
  have "live_timers sm \<subseteq> live_timers (mb_sim m)"
    using live_timers_ProcessOneEvent [OF ok assms(2)] by (auto split: option.splits)
  then show ?thesis
    using mobile_ok_sim [OF assms(1)] sim_ok_ProcessOneEvent [OF ok assms(2)] known_pop [OF ok assms(2)] by blast
qed

lemma foreign_timers:
  assumes "sim_ok s" and "foreign_event t v u s = Some sm"
  shows "sim_ok sm" and "live_timers sm = live_timers s" and "known s a i \<Longrightarrow> known sm a i"
proof -
  have sm: "sm = s\<lparr>m_currentTs := t, m_currentUid := v, m_uid := u\<rparr>"
    and c: "m_currentTs s < t \<or> m_currentTs s = t \<and> m_currentUid s < v" "v < u" "m_uid s \<le> u"
      "list_all (\<lambda>e. t < m_ts e \<or> t = m_ts e \<and> v < m_event_uid e) (m_events s)"
    using assms(2) by (auto simp: foreign_event_def split: if_splits)
  show "sim_ok sm" using assms(1) c by (auto simp: sm sim_ok_def after_now_def list_all_iff)
  show "live_timers sm = live_timers s" by (simp add: sm live_timers_def)
  show "known s a i \<Longrightarrow> known sm a i"
    using c(1) by (auto simp: known_def known_id_def sm past_id_def split: option.splits)
qed

lemma mobile_ok_CancelId:
  assumes "mobile_ok env m" and "known (mb_sim m) a i"
  shows "mobile_ok env (m\<lparr>mb_sim := CancelId i (mb_sim m)\<rparr>)"
proof -
  have ok: "sim_ok (mb_sim m)" using assms(1) by (simp add: mobile_ok_def timers_ok_def)
  show ?thesis
    by (rule mobile_ok_sim [OF assms(1) sim_ok_CancelId [OF ok] known_CancelId])
      (auto simp: live_timers_CancelId [OF ok assms(2)])
qed

lemma mobile_ok_OnTraceTimeout:
  assumes "mobile_ok env m"
  shows "mobile_ok env (OnTraceTimeout env m)"
proof -
  let ?m = "m\<lparr>mb_sim := CancelId (mb_traceRefreshEvent m) (mb_sim m)\<rparr>"
  have c: "mobile_ok env ?m"
    using assms by (intro mobile_ok_CancelId [where a = SendTrace_act]) (simp_all add: mobile_ok_def timers_ok_def)
  have cnt: "mobile_ok env (x\<lparr>mb_traceRetryCnt := k\<rparr>)" if "mobile_ok env x" "0 \<le> k" "k \<le> 3" for x k
    using that by (simp add: mobile_ok_def timers_ok_def delays_ok_def names_ok_def)
  have "mb_traceRetryCnt (SendTrace env ?m) = mb_traceRetryCnt m" by (simp add: SendTrace_eq)
  then show ?thesis
    using cnt [OF c, of 0] cnt [OF c, of "mb_traceRetryCnt m + 1"] assms
      cnt [OF mobile_ok_SendTrace [OF c], of "mb_traceRetryCnt m + 1"]
    by (auto simp: OnTraceTimeout_def Let_def mobile_ok_def)
qed

lemma mobile_ok_frame [simp]:
  "mobile_ok env (mobile_StartApplication m) = mobile_ok env m"
  "mobile_ok env (mobile_StopApplication m) = mobile_ok env m"
  "mobile_ok env (MarkHandover t m) = mobile_ok env m" "mobile_ok env (mobile_OnInterest nm m) = mobile_ok env m"
  by (simp_all add: mobile_StartApplication_def mobile_StopApplication_def MarkHandover_def mobile_OnInterest_def
      Let_def mobile_ok_def timers_ok_def delays_ok_def names_ok_def)

lemma mobile_ok_OnAssociation:
  assumes "mobile_ok env m"
  shows "mobile_ok env (OnAssociation m)"
  using assms
  by (auto simp: OnAssociation_def mobile_schedule_def case_prod_beta Let_def mobile_ok_def timers_ok_def delays_ok_def
      names_ok_def sim_ok_Schedule known_Schedule live_timers_Schedule)

lemma mobile_OnData_cases:
  assumes "mobile_OnData d m = Inr m'"
  shows "m' = m \<or> m' = m\<lparr>mb_rvData := mb_rvData m + 1\<rparr> \<or>
    m' = m\<lparr>mb_rvData := mb_rvData m + 1, mb_sim := CancelId (mb_traceTimeoutEvent m) (mb_sim m), mb_traceRetryCnt := 0\<rparr>"
  using assms
  by (cases "bind_exn (name_at (d_name d) (- 1)) toSequenceNumber") (auto simp: mobile_OnData_def Let_def split: if_splits)

lemma mobile_ok_OnData:
  assumes "mobile_ok env m" and "mobile_OnData d m = Inr m'"
  shows "mobile_ok env m'"
proof -
  have "mobile_ok env (m\<lparr>mb_sim := CancelId (mb_traceTimeoutEvent m) (mb_sim m)\<rparr>)"
    using assms(1) by (intro mobile_ok_CancelId [where a = OnTraceTimeout_act]) (simp_all add: mobile_ok_def timers_ok_def)
  then have "mobile_ok env (m\<lparr>mb_rvData := mb_rvData m + 1, mb_sim := CancelId (mb_traceTimeoutEvent m) (mb_sim m),
      mb_traceRetryCnt := 0\<rparr>)" and "mobile_ok env (m\<lparr>mb_rvData := mb_rvData m + 1\<rparr>)"
    using assms(1) by (simp_all add: mobile_ok_def timers_ok_def delays_ok_def names_ok_def)
  then show ?thesis using mobile_OnData_cases [OF assms(2)] assms(1) by metis
qed

interpretation mobile_system: invariant_system "mobile_start env" "mobile_step env" "mobile_ok env" for env
proof
  show "mobile_ok env m" if "mobile_start env m" for m
    using that by (auto simp: mobile_start_def mobile_ok_def timers_ok_def names_ok_def sim_ok_def live_timers_def)
  show "mobile_ok env m'" if "mobile_ok env m" "mobile_step env m m'" for m m'
    using that(2)
  proof (rule mobile_stepE)
    fix t v u sm assume m': "m' = m\<lparr>mb_sim := sm\<rparr>" and f: "foreign_event t v u (mb_sim m) = Some sm"
    have "sim_ok (mb_sim m)" using that(1) by (simp add: mobile_ok_def timers_ok_def)
    from foreign_timers [OF this f] show ?thesis unfolding m' by (intro mobile_ok_sim [OF that(1)]) simp_all
  next
    fix a sm assume "ProcessOneEvent (mb_sim m) = Some (Some a, sm)" and r: "run_mobile env a (m\<lparr>mb_sim := sm\<rparr>) = Inr m'"
    then have "mobile_ok env (m\<lparr>mb_sim := sm\<rparr>)" using mobile_ok_pop [OF that(1)] by blast
    then show ?thesis using r by (cases a) (auto intro: mobile_ok_SendTrace mobile_ok_OnTraceTimeout)
  qed (use that(1) in \<open>auto intro: mobile_ok_OnAssociation mobile_ok_OnData mobile_ok_pop\<close>)
qed

section \<open>What the mobile announces\<close>

lemma traceName_parsed:
  assumes "dp \<noteq> []"
  shows "judgeNameIsTrace (traceName [r] dp s)" "getTraceSequence (traceName [r] dp s) = Inr s"
    "extractDataNameFromTrace (traceName [r] dp s) = r # dp"
proof -
  have len: "4 \<le> length (traceName [r] dp s)" using assms by (cases dp) (simp_all add: traceName_def MakeTracePrefix_def)
  have "component_toUri (traceName [r] dp s ! 1) = ''trace''"
    by (simp add: traceName_def MakeTracePrefix_def component_toUri_trace component_of_string_def)
  then show "judgeNameIsTrace (traceName [r] dp s)" using len by (simp add: judgeNameIsTrace_def)
  have "name_at (traceName [r] dp s) (- 1) = Inr (fromSequenceNumber s)"
    using len by (simp add: name_at_def traceName_def nth_append)
  then show "getTraceSequence (traceName [r] dp s) = Inr s" by (simp add: getTraceSequence_def)
  show "extractDataNameFromTrace (traceName [r] dp s) = r # dp"
    unfolding extractDataName_shape [OF len] by (simp add: traceName_def MakeTracePrefix_def butlast_append)
qed

text \<open>C25. The k-th Trace Interest of the mobile is, to the nodes on its way, a Trace of the mobile's
  own data prefix with the sequence number k: whatever association, loss, timeout and refresh
  make of its timers, the announced generations are 1, 2, 3, and so on without gap or repetition.\<close>

theorem mobile_announces_generations:
  assumes "reach (mobile_start env) (mobile_step env) m" and "mb_rvPrefix m = [r]" and "mb_dataPrefix m \<noteq> []"
    and "k < length (mb_interests m)"
  shows "judgeNameIsTrace (ti_name (mb_interests m ! k)) \<and>
    getTraceSequence (ti_name (mb_interests m ! k)) = Inr (of_nat (Suc k)) \<and>
    extractDataNameFromTrace (ti_name (mb_interests m ! k)) = r # mb_dataPrefix m"
proof -
  have "names_ok m" using mobile_system.reachable_inv [OF assms(1)] by (simp add: mobile_ok_def)
  then have "map ti_name (mb_interests m) ! k =
      map (\<lambda>j. traceName (mb_rvPrefix m) (mb_dataPrefix m) (of_nat j)) [1..<Suc (length (mb_interests m))] ! k"
    by (simp add: names_ok_def)
  then have "ti_name (mb_interests m ! k) = traceName [r] (mb_dataPrefix m) (of_nat (Suc k))"
    using assms(2,4) by (simp del: upt_Suc of_nat_Suc)
  then show ?thesis using traceName_parsed [OF assms(3)] by simp
qed

text \<open>A mobile after its first association: it has announced itself once.\<close>

definition sample_mobile :: mobile where
  "sample_mobile = mobile_new [component_of_string ''rv''] [component_of_string ''alice''] 0"

lemma through_seconds_sample [simp]: "through_seconds sample_env t = t"
  by (simp add: through_seconds_def sample_env_def)

lemma sample_mobile_start: "mobile_start sample_env sample_mobile"
  by (simp add: mobile_start_def sample_mobile_def mobile_new_def delays_ok_def sim_init_def)

definition announced_mobile :: mobile where
  "announced_mobile = SendTrace sample_env ((OnAssociation sample_mobile)\<lparr>mb_sim :=
     \<lparr>m_currentTs = 10000000, m_currentUid = 4, m_uid = 5, m_events = []\<rparr>\<rparr>)"

lemma announced_mobile_reach: "reach (mobile_start sample_env) (mobile_step sample_env) announced_mobile"
proof -
  have 0: "reach (mobile_start sample_env) (mobile_step sample_env) sample_mobile"
    by (rule reach_start, rule sample_mobile_start)
  have 1: "reach (mobile_start sample_env) (mobile_step sample_env) (OnAssociation sample_mobile)"
    by (rule reach_step, rule 0, rule associate)
  have "ProcessOneEvent (mb_sim (OnAssociation sample_mobile)) =
      Some (Some SendTrace_act, \<lparr>m_currentTs = 10000000, m_currentUid = 4, m_uid = 5, m_events = []\<rparr>)"
    by (simp add: OnAssociation_def mobile_schedule_def sample_mobile_def mobile_new_def Schedule_def sim_init_def
        ProcessOneEvent_def Let_def)
  then have "mobile_step sample_env (OnAssociation sample_mobile) announced_mobile"
    by (rule run_event) (simp add: announced_mobile_def)
  with 1 show ?thesis by (rule reach_step)
qed

lemma announced_mobile_simps:
  "length (mb_interests announced_mobile) = 1" "mb_rvPrefix announced_mobile = [component_of_string ''rv'']"
  "mb_dataPrefix announced_mobile = [component_of_string ''alice'']" "mb_traceRetryCnt announced_mobile = 0"
  by (simp_all add: announced_mobile_def SendTrace_eq)
    (simp_all add: announced_def OnAssociation_def mobile_schedule_def case_prod_beta Let_def sample_mobile_def mobile_new_def)

theorem mobile_announces_generations_witness:
  "getTraceSequence (ti_name (mb_interests announced_mobile ! 0)) = Inr 1 \<and>
   extractDataNameFromTrace (ti_name (mb_interests announced_mobile ! 0)) =
     [component_of_string ''rv'', component_of_string ''alice'']"
  using mobile_announces_generations [OF announced_mobile_reach, of "component_of_string ''rv''" 0]
  by (simp add: announced_mobile_simps)

section \<open>Refresh and timeout\<close>

definition quick_refresh :: "env \<Rightarrow> mobile \<Rightarrow> bool" where
  "quick_refresh env m \<longleftrightarrow> mb_refreshInterval m \<noteq> 0 \<and>
     through_seconds env (mb_refreshInterval m) < through_seconds env (mb_traceLifetime m)"

definition preempted :: "env \<Rightarrow> mobile \<Rightarrow> bool" where
  "preempted env m \<longleftrightarrow> mobile_ok env m \<and> quick_refresh env m \<and> mb_traceRetryCnt m = 0 \<and>
     (\<forall>i. (OnTraceTimeout_act, i) \<in> live_timers (mb_sim m) \<longrightarrow>
        (\<exists>j. (SendTrace_act, j) \<in> live_timers (mb_sim m) \<and> id_ts j < id_ts i))"

lemma preempted_SendTrace:
  assumes "mobile_ok env m" and "quick_refresh env m" and "mb_traceRetryCnt m = 0"
  shows "preempted env (SendTrace env m)"
proof -
  have t: "timers_ok m" "delays_ok env m" using assms(1) by (simp_all add: mobile_ok_def)
  have old: "mb_traceTimeoutEvent m = Some i" if "(OnTraceTimeout_act, i) \<in> live_timers (mb_sim m)" for i
    using t(1) that by (simp add: timers_ok_def)
  have r: "mb_refreshInterval m \<noteq> 0" using assms(2) by (simp add: quick_refresh_def)
  obtain j i where live: "live_timers (mb_sim (SendTrace env m)) =
      live_timers (mb_sim m) - {(b, j). Some j = mb_traceRefreshEvent m \<or> Some j = mb_traceTimeoutEvent m} \<union>
      {(SendTrace_act, j)} \<union> {(OnTraceTimeout_act, i)}"
    and ts: "id_ts j = through_seconds env (mb_refreshInterval m) + Now (mb_sim m)"
      "id_ts i = through_seconds env (mb_traceLifetime m) + Now (mb_sim m)"
    using SendTrace_timers [OF t] r by auto
  have "id_ts j < id_ts i" using ts assms(2) by (simp add: quick_refresh_def)
  then have "\<exists>j. (SendTrace_act, j) \<in> live_timers (mb_sim (SendTrace env m)) \<and> id_ts j < id_ts k"
    if "(OnTraceTimeout_act, k) \<in> live_timers (mb_sim (SendTrace env m))" for k
    using that old unfolding live by auto
  then show ?thesis
    using mobile_ok_SendTrace [OF assms(1)] assms(2,3)
    by (simp add: preempted_def quick_refresh_def SendTrace_eq)
qed

lemma preempted_no_timeout:
  assumes "preempted env m"
  shows "ProcessOneEvent (mb_sim m) \<noteq> Some (Some OnTraceTimeout_act, sm)"
proof
  assume pop: "ProcessOneEvent (mb_sim m) = Some (Some OnTraceTimeout_act, sm)"
  have ok: "sim_ok (mb_sim m)" using assms by (simp add: preempted_def mobile_ok_def timers_ok_def)
  obtain e es where es: "m_events (mb_sim m) = e # es" "m_impl e = OnTraceTimeout_act" "\<not> m_cancel e"
    using pop by (auto simp: ProcessOneEvent_def split: list.splits if_splits)
  then have "(OnTraceTimeout_act, event_id_of e) \<in> live_timers (mb_sim m)"
    by (auto simp: live_timers_def intro!: exI [of _ e])
  then obtain j where "(SendTrace_act, j) \<in> live_timers (mb_sim m)" "id_ts j < id_ts (event_id_of e)"
    using assms by (auto simp: preempted_def)
  then obtain x where x: "x \<in> set es" "m_ts x < m_ts e"
    using es by (auto simp: live_timers_def event_id_of_def)
  show False using ProcessOneEvent_first [OF ok es(1) x(1)] x(2) by auto
qed

lemma preempted_sim:
  assumes "preempted env m" and "mobile_ok env (m\<lparr>mb_sim := sm\<rparr>)" and "live_timers sm = live_timers (mb_sim m)"
  shows "preempted env (m\<lparr>mb_sim := sm\<rparr>)"
  using assms by (simp add: preempted_def quick_refresh_def)

interpretation preempt_system: invariant_system "\<lambda>m. mobile_start env m \<and> quick_refresh env m"
  "mobile_step env" "preempted env" for env
proof
  show "preempted env m" if "mobile_start env m \<and> quick_refresh env m" for m
    using that mobile_system.start_inv [of env m] by (auto simp: preempted_def mobile_start_def live_timers_def)
  show "preempted env m'" if P: "preempted env m" "mobile_step env m m'" for m m'
  proof -
    have ok: "mobile_ok env m" and q: "quick_refresh env m" "mb_traceRetryCnt m = 0" and sim: "sim_ok (mb_sim m)"
      using P(1) by (auto simp: preempted_def mobile_ok_def timers_ok_def)
    have ok': "mobile_ok env m'" by (rule mobile_system.step_inv [OF ok P(2)])
    show ?thesis
      using P(2)
    proof (rule mobile_stepE)
      fix d assume "mobile_OnData d m = Inr m'"
      note c = mobile_OnData_cases [OF this]
      have "live_timers (CancelId (mb_traceTimeoutEvent m) (mb_sim m)) =
          live_timers (mb_sim m) - {(b, j). Some j = mb_traceTimeoutEvent m}"
        using live_timers_CancelId [OF sim, of OnTraceTimeout_act] ok by (simp add: mobile_ok_def timers_ok_def)
      moreover have "mb_traceTimeoutEvent m = Some i" if "(OnTraceTimeout_act, i) \<in> live_timers (mb_sim m)" for i
        using ok that by (simp add: mobile_ok_def timers_ok_def)
      ultimately have "(OnTraceTimeout_act, i) \<notin> live_timers (CancelId (mb_traceTimeoutEvent m) (mb_sim m))" for i
        by auto
      then show ?thesis using c P(1) ok' by (auto simp: preempted_def quick_refresh_def)
    next
      fix a sm assume pop: "ProcessOneEvent (mb_sim m) = Some (Some a, sm)" and r: "run_mobile env a (m\<lparr>mb_sim := sm\<rparr>) = Inr m'"
      have "a = SendTrace_act" using pop preempted_no_timeout [OF P(1)] by (cases a) auto
      then show ?thesis
        using r preempted_SendTrace [OF mobile_ok_pop [OF ok pop]] q by (auto simp: quick_refresh_def)
    next
      fix sm assume m': "m' = m\<lparr>mb_sim := sm\<rparr>" and pop: "ProcessOneEvent (mb_sim m) = Some (None, sm)"
      have "live_timers sm = live_timers (mb_sim m)" using live_timers_ProcessOneEvent [OF sim pop] by simp
      then show ?thesis using preempted_sim [OF P(1)] ok' m' by blast
    next
      fix t v u sm assume m': "m' = m\<lparr>mb_sim := sm\<rparr>" and f: "foreign_event t v u (mb_sim m) = Some sm"
      then show ?thesis using preempted_sim [OF P(1)] ok' foreign_timers(2) [OF sim f] by blast
    qed (use P(1) ok' in \<open>auto simp: preempted_def quick_refresh_def mobile_StartApplication_def mobile_StopApplication_def
        MarkHandover_def mobile_OnInterest_def OnAssociation_def mobile_schedule_def case_prod_beta Let_def
        live_timers_Schedule\<close>)
  qed
qed

text \<open>C37. While the refresh interval is shorter than the Trace lifetime, as with the default
  attributes, the timeout of a Trace Interest never runs and no retry is ever counted: the
  refresh comes first and restarts the timeout.\<close>

theorem refresh_preempts_timeout:
  assumes "reach (\<lambda>m. mobile_start env m \<and> quick_refresh env m) (mobile_step env) m"
  shows "ProcessOneEvent (mb_sim m) \<noteq> Some (Some OnTraceTimeout_act, sm) \<and> mb_traceRetryCnt m = 0"
  using preempt_system.reachable_inv [OF assms] preempted_no_timeout [of env m sm] by (simp add: preempted_def)

theorem refresh_preempts_timeout_witness:
  "\<exists>m. reach (\<lambda>m. mobile_start sample_env m \<and> quick_refresh sample_env m) (mobile_step sample_env) m \<and>
     m_events (mb_sim m) \<noteq> [] \<and> ProcessOneEvent (mb_sim m) \<noteq> Some (Some OnTraceTimeout_act, mb_sim m)"
proof -
  have 0: "reach (\<lambda>m. mobile_start sample_env m \<and> quick_refresh sample_env m) (mobile_step sample_env) sample_mobile"
    by (rule reach_start) (simp add: sample_mobile_start, simp add: quick_refresh_def sample_mobile_def mobile_new_def)
  have r: "reach (\<lambda>m. mobile_start sample_env m \<and> quick_refresh sample_env m) (mobile_step sample_env)
      (OnAssociation sample_mobile)"
    by (rule reach_step, rule 0, rule associate)
  have "m_events (mb_sim (OnAssociation sample_mobile)) \<noteq> []"
    by (simp add: OnAssociation_def mobile_schedule_def sample_mobile_def mobile_new_def Schedule_def sim_init_def Let_def)
  then show ?thesis using r refresh_preempts_timeout [OF r] by blast
qed

section \<open>Giving up\<close>

lemma OnTraceTimeout_step:
  assumes ok: "mobile_ok env m" and idle: "live_timers (mb_sim m) = {}" and r: "mb_refreshInterval m = 0"
    and seq: "mb_seq m \<noteq> 0"
  shows "if 3 \<le> mb_traceRetryCnt m
    then live_timers (mb_sim (OnTraceTimeout env m)) = {} \<and> mb_traceRetryCnt (OnTraceTimeout env m) = 0 \<and>
      mb_interests (OnTraceTimeout env m) = mb_interests m
    else (\<exists>i. live_timers (mb_sim (OnTraceTimeout env m)) = {(OnTraceTimeout_act, i)}) \<and>
      mb_traceRetryCnt (OnTraceTimeout env m) = mb_traceRetryCnt m + 1 \<and>
      length (mb_interests (OnTraceTimeout env m)) = Suc (length (mb_interests m)) \<and>
      mb_refreshInterval (OnTraceTimeout env m) = 0"
proof -
  let ?m = "m\<lparr>mb_sim := CancelId (mb_traceRefreshEvent m) (mb_sim m)\<rparr>"
  have k: "known (mb_sim m) SendTrace_act (mb_traceRefreshEvent m)" and sim: "sim_ok (mb_sim m)"
    using ok by (simp_all add: mobile_ok_def timers_ok_def)
  have live: "live_timers (mb_sim ?m) = {}" using live_timers_CancelId [OF sim k] idle by simp
  have "mobile_ok env ?m" by (rule mobile_ok_CancelId [OF ok k])
  then have t: "timers_ok ?m" "delays_ok env ?m" by (simp_all add: mobile_ok_def)
  obtain i where "live_timers (mb_sim (SendTrace env ?m)) = {(OnTraceTimeout_act, i)}"
    using SendTrace_timers [OF t] live r by auto
  moreover have "length (mb_interests (SendTrace env ?m)) = Suc (length (mb_interests m))"
    "mb_traceRetryCnt (SendTrace env ?m) = mb_traceRetryCnt m" "mb_refreshInterval (SendTrace env ?m) = 0"
    using r by (simp_all add: SendTrace_eq) (simp add: announced_def)
  moreover have "0 < mb_seq ?m" using seq by (simp add: word_neq_0_conv)
  ultimately show ?thesis using live by (auto simp: OnTraceTimeout_def Let_def)
qed

lemma mobile_seq_nonzero:
  assumes "mobile_ok env m" and "length (mb_interests m) + 1 < 2 ^ 64"
  shows "mb_seq m \<noteq> 0"
proof -
  have "unat (of_nat (Suc (length (mb_interests m))) :: u64) = Suc (length (mb_interests m))"
    using assms(2) by (simp add: unsigned_of_nat take_bit_nat_eq_self del: of_nat_Suc)
  then show ?thesis using assms(1) by (metis mobile_ok_def names_ok_def nat.distinct(1) unat_0)
qed

lemma timeout_next:
  assumes ok: "mobile_ok env m" and live: "live_timers (mb_sim m) = {(OnTraceTimeout_act, i)}"
  shows "\<exists>k sm. mobile_ok env (m\<lparr>mb_sim := sm\<rparr>) \<and> live_timers sm = {} \<and>
    (\<forall>f. mobile_Run env (k + Suc f) m = mobile_Run env f (OnTraceTimeout env (m\<lparr>mb_sim := sm\<rparr>)))"
proof -
  have sim: "sim_ok (mb_sim m)" using ok by (simp add: mobile_ok_def timers_ok_def)
  obtain k sm sm' a where k: "ProcessOneEvent sm = Some (Some a, sm')" "sim_ok sm"
    "live_timers sm = live_timers (mb_sim m)" "\<forall>b i. known (mb_sim m) b i \<longrightarrow> known sm b i"
    "\<forall>f. mobile_Run env (k + Suc f) m = bind_exn (run_mobile env a (m\<lparr>mb_sim := sm'\<rparr>)) (mobile_Run env f)"
    using mobile_loop.loop_next [OF sim, of env] live by blast
  have a: "a = OnTraceTimeout_act" "live_timers sm' = {}"
    using live_timers_ProcessOneEvent [OF k(2,1)] k(3) live by auto
  have "mobile_ok env (m\<lparr>mb_sim := sm\<rparr>)" using mobile_ok_sim [OF ok k(2)] k(3,4) by blast
  from mobile_ok_pop [OF this] have "mobile_ok env (m\<lparr>mb_sim := sm'\<rparr>)" using k(1) by simp
  then show ?thesis using k(5) a by (auto simp del: mobile_Run.simps)
qed

lemma mobile_idle:
  assumes "mobile_ok env m" and "live_timers (mb_sim m) = {}"
  shows "\<exists>k sm. m_events sm = [] \<and> (\<forall>f \<ge> k. mobile_Run env f m = Inr (m\<lparr>mb_sim := sm\<rparr>))"
  using mobile_loop.loop_next [of m env] assms unfolding mobile_ok_def timers_ok_def by blast

lemma mobile_tries:
  assumes "mobile_ok env m" and "mb_refreshInterval m = 0" and "mb_traceRetryCnt m = 3 - int j" and "j \<le> 3"
    and "live_timers (mb_sim m) = {(OnTraceTimeout_act, i)}" and "length (mb_interests m) + j + 1 < 2 ^ 64"
  shows "\<exists>k m'. (\<forall>f \<ge> k. mobile_Run env f m = Inr m') \<and> m_events (mb_sim m') = [] \<and>
    length (mb_interests m') = length (mb_interests m) + j \<and> mb_traceRetryCnt m' = 0"
  using assms
proof (induction j arbitrary: m i)
  case prems: 0
  obtain k sm where k: "mobile_ok env (m\<lparr>mb_sim := sm\<rparr>)" "live_timers sm = {}"
    "\<forall>f. mobile_Run env (k + Suc f) m = mobile_Run env f (OnTraceTimeout env (m\<lparr>mb_sim := sm\<rparr>))"
    using timeout_next [OF prems(1,5)] by blast
  let ?m = "OnTraceTimeout env (m\<lparr>mb_sim := sm\<rparr>)"
  have m: "live_timers (mb_sim ?m) = {}" "mb_traceRetryCnt ?m = 0" "mb_interests ?m = mb_interests m"
    using OnTraceTimeout_step [OF k(1)] k(2) prems mobile_seq_nonzero [OF k(1)] by simp_all
  obtain k' sm' where k': "m_events sm' = []" "\<forall>f \<ge> k'. mobile_Run env f ?m = Inr (?m\<lparr>mb_sim := sm'\<rparr>)"
    using mobile_idle [OF mobile_ok_OnTraceTimeout [OF k(1)] m(1)] by blast
  have "\<forall>f \<ge> k + Suc k'. mobile_Run env f m = Inr (?m\<lparr>mb_sim := sm'\<rparr>)"
    by (rule mobile_loop.loop_after [OF k(3) k'(2)])
  then show ?case using k'(1) m by (intro exI [of _ "k + Suc k'"] exI [of _ "?m\<lparr>mb_sim := sm'\<rparr>"]) simp
next
  case prems: (Suc j)
  obtain k sm where k: "mobile_ok env (m\<lparr>mb_sim := sm\<rparr>)" "live_timers sm = {}"
    "\<forall>f. mobile_Run env (k + Suc f) m = mobile_Run env f (OnTraceTimeout env (m\<lparr>mb_sim := sm\<rparr>))"
    using timeout_next [OF prems(2,6)] by blast
  let ?m = "OnTraceTimeout env (m\<lparr>mb_sim := sm\<rparr>)"
  obtain t where m: "live_timers (mb_sim ?m) = {(OnTraceTimeout_act, t)}" "mb_traceRetryCnt ?m = 3 - int j"
    "length (mb_interests ?m) = Suc (length (mb_interests m))" "mb_refreshInterval ?m = 0"
    using OnTraceTimeout_step [OF k(1)] k(2) prems mobile_seq_nonzero [OF k(1)] by auto
  obtain k' m' where k': "\<forall>f \<ge> k'. mobile_Run env f ?m = Inr m'" "m_events (mb_sim m') = []"
    "length (mb_interests m') = length (mb_interests ?m) + j" "mb_traceRetryCnt m' = 0"
    using prems(1) [OF mobile_ok_OnTraceTimeout [OF k(1)] m(4,2) _ m(1)] prems(5,7) m(3) by auto
  have "\<forall>f \<ge> k + Suc k'. mobile_Run env f m = Inr m'"
    by (rule mobile_loop.loop_after [OF k(3) k'(1)])
  then show ?case using k'(2-4) m(3) by (intro exI [of _ "k + Suc k'"] exI [of _ m']) simp
qed

text \<open>C33. Without refresh, a mobile whose Trace Interest is never answered sends it again exactly
  three times, then gives up: the event loop ends with nothing scheduled and the counter reset.\<close>

theorem mobile_gives_up:
  assumes "reach (mobile_start env) (mobile_step env) m" and "mb_refreshInterval m = 0" and "mb_traceRetryCnt m = 0"
    and "live_timers (mb_sim m) = {(OnTraceTimeout_act, i)}" and "length (mb_interests m) + 4 < 2 ^ 64"
  shows "\<exists>k m'. (\<forall>f \<ge> k. mobile_Run env f m = Inr m') \<and> m_events (mb_sim m') = [] \<and>
    length (mb_interests m') = length (mb_interests m) + 3 \<and> mb_traceRetryCnt m' = 0"
  using mobile_tries [OF mobile_system.reachable_inv [OF assms(1)], of 3 i] assms(2-5) by simp

definition unrefreshed_mobile :: mobile where
  "unrefreshed_mobile = SendTrace sample_env ((OnAssociation (sample_mobile\<lparr>mb_refreshInterval := 0\<rparr>))\<lparr>mb_sim :=
     \<lparr>m_currentTs = 10000000, m_currentUid = 4, m_uid = 5, m_events = []\<rparr>\<rparr>)"

lemma unrefreshed_mobile_reach: "reach (mobile_start sample_env) (mobile_step sample_env) unrefreshed_mobile"
proof -
  let ?m = "sample_mobile\<lparr>mb_refreshInterval := 0\<rparr>"
  have "mobile_start sample_env ?m" using sample_mobile_start by (simp add: mobile_start_def delays_ok_def)
  then have 0: "reach (mobile_start sample_env) (mobile_step sample_env) ?m" by (intro reach_start)
  have 1: "reach (mobile_start sample_env) (mobile_step sample_env) (OnAssociation ?m)"
    by (rule reach_step, rule 0, rule associate)
  have "ProcessOneEvent (mb_sim (OnAssociation ?m)) =
      Some (Some SendTrace_act, \<lparr>m_currentTs = 10000000, m_currentUid = 4, m_uid = 5, m_events = []\<rparr>)"
    by (simp add: OnAssociation_def mobile_schedule_def sample_mobile_def mobile_new_def Schedule_def sim_init_def
        ProcessOneEvent_def Let_def)
  then have "mobile_step sample_env (OnAssociation ?m) unrefreshed_mobile"
    by (rule run_event) (simp add: unrefreshed_mobile_def)
  with 1 show ?thesis by (rule reach_step)
qed

theorem mobile_gives_up_witness:
  "length (mb_interests unrefreshed_mobile) = 1 \<and>
   (\<exists>k m'. mobile_Run sample_env k unrefreshed_mobile = Inr m' \<and> length (mb_interests m') = 4 \<and>
      m_events (mb_sim m') = [])"
proof -
  have c: "mb_refreshInterval unrefreshed_mobile = 0" "mb_traceRetryCnt unrefreshed_mobile = 0"
    "length (mb_interests unrefreshed_mobile) = 1"
    by (simp_all add: unrefreshed_mobile_def SendTrace_eq)
      (simp_all add: announced_def OnAssociation_def mobile_schedule_def case_prod_beta Let_def sample_mobile_def mobile_new_def)
  obtain i where "live_timers (mb_sim unrefreshed_mobile) = {(OnTraceTimeout_act, i)}"
    by (auto simp: unrefreshed_mobile_def SendTrace_eq restart_timeout_eq restart_refresh_eq Let_def announced_def
        OnAssociation_def mobile_schedule_def case_prod_beta sample_mobile_def mobile_new_def CancelId_def
        live_timers_Schedule) (auto simp: live_timers_def)
  from mobile_gives_up [OF unrefreshed_mobile_reach c(1,2) this] c(3) show ?thesis
    by (auto simp del: mobile_Run.simps)
qed

section \<open>Replies and acknowledgements\<close>

text \<open>Only Data for the newest Trace Interest acknowledges it: it stops the timeout and resets the
  retries.  Data for an older one changes nothing but the count.\<close>

lemma mobile_acknowledges_newest:
  assumes "mobile_ok env m" and "mb_active m" and "getTraceSequence (d_name d) = Inr s"
  shows "\<exists>m'. mobile_OnData d m = Inr m' \<and>
    (if s = mb_seq m - 1
     then mb_traceRetryCnt m' = 0 \<and> (\<forall>i. (OnTraceTimeout_act, i) \<notin> live_timers (mb_sim m'))
     else m' = m\<lparr>mb_rvData := mb_rvData m + 1\<rparr>)"
proof -
  have t: "timers_ok m" using assms(1) by (simp add: mobile_ok_def)
  have "(OnTraceTimeout_act, i) \<notin> live_timers (CancelId (mb_traceTimeoutEvent m) (mb_sim m))" for i
    using t live_timers_CancelId [of "mb_sim m" OnTraceTimeout_act "mb_traceTimeoutEvent m"]
    by (auto simp: timers_ok_def)
  then show ?thesis
    using assms(2,3) by (auto simp: mobile_OnData_def getTraceSequence_def Let_def)
qed

text \<open>The reply to an Interest: its name, extended by the access point the mobile is at; the first
  reply after a handover records its delay, later ones do not.\<close>

lemma mobile_replies:
  assumes "mb_active m"
  shows "map rp_name (mb_datas (mobile_OnInterest nm m)) =
      map rp_name (mb_datas m) @ [nm @ [fromSequenceNumber (word_of_int (mb_current m))]]"
    and "\<not> mb_waitingForFirstInterest (mobile_OnInterest nm m)"
    and "length (mb_handoverDelays (mobile_OnInterest nm m)) =
      length (mb_handoverDelays m) + (if mb_waitingForFirstInterest m then 1 else 0)"
  using assms by (simp_all add: mobile_OnInterest_def Let_def)

text \<open>The statistics are the sum, minimum and maximum of the delays as long as these lie between
  zero and the initial value of the minimum.\<close>

lemma handover_fold:
  "fold (\<lambda>d (s, maxv, minv). (s + d, if d > maxv then d else maxv, if d < minv then d else minv)) ds (s, x, y) =
     (s + sum_list ds, fold max ds x, fold min ds (y :: int))"
  by (induction ds arbitrary: s x y) (auto simp: max_def min_def)

lemma fold_max_Max: "fold max ds (x :: int) = Max (insert x (set ds))"
  using Max.set_eq_fold [of x ds] by simp

lemma fold_min_Min: "fold min ds (x :: int) = Min (insert x (set ds))"
  using Min.set_eq_fold [of x ds] by simp

lemma handover_stats_spec:
  assumes "ds \<noteq> []" and "\<forall>d \<in> set ds. 0 \<le> d \<and> d \<le> 10 ^ 24"
  shows "handover_stats ds = (length ds, sum_list ds, Min (set ds), Max (set ds))"
proof -
  have ne: "set ds \<noteq> {}" using assms(1) by simp
  have "0 \<le> Max (set ds)" using assms ne by (meson List.finite_set Max_in)
  moreover have "Min (set ds) \<le> 10 ^ 24" using assms ne by (meson List.finite_set Min_in)
  ultimately show ?thesis
    using ne by (simp add: handover_stats_def handover_fold fold_max_Max fold_min_Min)
qed

end
