(* ===== verification/Rendezvous.thy ===== *)
theory Rendezvous
  imports Mobile_App
begin

text \<open>
  The rendezvous application (\<^verbatim>\<open>src/src/ndnSIM/apps/kite-rv.cpp\<close>), which answers the Trace Interests of the
  mobiles.  It may also hand consumer Interests on with a forwarding hint to the rendezvous point where the mobile
  is attached, or buffer them until the next Trace.  Shown: an acceptable Trace Interest is answered by Data of its
  name after the buffered Interests that are young enough, and the mobile that sent it takes the answer as
  current; Interests of consumers are never answered by Data; the buffer is bounded.

  The Interests it hands to the link share the wire buffer of the Interest received, so that the nonce is
  the one of the nonce store; the link object is the list of its delegations.  \<^verbatim>\<open>BOOST_ASSERT\<close> failing and
  exceptions are errors.  Attachment is set from outside.
\<close>

section \<open>State\<close>

record rv_interest =
  ri_name :: name
  ri_nonce :: nat
  ri_lifetime :: int
  ri_link :: "name list option"

text \<open>What the application hands to its link: Data with its content, or an Interest with its nonce.\<close>

datatype rv_out = RvData name "byte list" | RvInterest rv_interest u32

datatype rv_error = Thrown exn | AssertionFailed

record rendezvous =
  rv_active :: bool
  rv_rvPrefix :: name
  rv_instancePrefix :: name
  rv_isn :: u64
  rv_attached :: bool
  rv_attachedPrefix :: name
  rv_bufferedInterests :: "(rv_interest \<times> sim_time) list"
  rv_attachCalls :: nat
  rv_randPos :: nat
  rv_store :: nonce_store
  rv_out :: "rv_out list"

definition rv_new :: "name \<Rightarrow> name \<Rightarrow> rendezvous" where
  "rv_new rvPrefix instancePrefix = \<lparr>rv_active = False, rv_rvPrefix = rvPrefix, rv_instancePrefix = instancePrefix,
     rv_isn = 0, rv_attached = False, rv_attachedPrefix = [], rv_bufferedInterests = [], rv_attachCalls = 0,
     rv_randPos = 0, rv_store = store_init, rv_out = []\<rparr>"

definition rv_StartApplication :: "rendezvous \<Rightarrow> rendezvous" where
  "rv_StartApplication rv = rv\<lparr>rv_active := True\<rparr>"

definition rv_StopApplication :: "rendezvous \<Rightarrow> rendezvous" where
  "rv_StopApplication rv = (if \<not> rv_active rv then rv else rv\<lparr>rv_active := False\<rparr>)"

section \<open>Operations\<close>

definition lift_exn :: "exn + 'a \<Rightarrow> rv_error + 'a" where
  "lift_exn r = (case r of Inl e \<Rightarrow> Inl (Thrown e) | Inr x \<Rightarrow> Inr x)"

text \<open>\<^verbatim>\<open>setNonce(getNonce() + 1)\<close> on an Interest decoded from a wire buffer: the nonce it has then.\<close>

definition bump_nonce :: "rv_interest \<Rightarrow> nonce_store \<Rightarrow> exn + (u32 \<times> rv_interest \<times> nonce_store)" where
  "bump_nonce p st =
     bind_exn (nonce_at st (ri_nonce p)) (\<lambda>w.
       let (i, st) = setNonce (w + 1) \<lparr>i_name = ri_name p, i_nonce = Some (ri_nonce p), i_lifetime = ri_lifetime p\<rparr> st
       in Inr (w + 1, p\<lparr>ri_nonce := the (i_nonce i)\<rparr>, st))"

text \<open>A copy of the Interest with another nonce and the hint goes to the link.\<close>

definition send_hinted :: "name \<Rightarrow> rv_interest \<Rightarrow> rendezvous \<Rightarrow> rv_error + rendezvous" where
  "send_hinted hint p rv =
     bind_exn (lift_exn (bump_nonce p (rv_store rv))) (\<lambda>(w, p, st).
       Inr (rv\<lparr>rv_store := st, rv_out := rv_out rv @ [RvInterest (p\<lparr>ri_link := Some [hint]\<rparr>) w]\<rparr>))"

fun send_loop :: "sim_time \<Rightarrow> (rv_interest \<times> sim_time) list \<Rightarrow> rendezvous \<Rightarrow> rv_error + rendezvous" where
  "send_loop now [] rv = Inr rv"
| "send_loop now ((p, t) # ps) rv =
     (if now - t > 1000000000 then send_loop now ps rv
      else bind_exn (send_hinted (rv_attachedPrefix rv) p rv) (send_loop now ps))"

definition sendBuffered :: "sim_time \<Rightarrow> rendezvous \<Rightarrow> rv_error + rendezvous" where
  "sendBuffered now rv =
     bind_exn (send_loop now (rv_bufferedInterests rv) rv) (\<lambda>rv. Inr (rv\<lparr>rv_bufferedInterests := []\<rparr>))"

definition send_data :: "name \<Rightarrow> byte list \<Rightarrow> rendezvous \<Rightarrow> rendezvous" where
  "send_data nm content rv = rv\<lparr>rv_out := rv_out rv @ [RvData nm content]\<rparr>"

text \<open>An Interest of a consumer.  Both branches for an Interest with a hint return.\<close>

definition rv_consumer_interest :: "sim_time \<Rightarrow> rv_interest \<Rightarrow> rendezvous \<Rightarrow> rv_error + rendezvous" where
  "rv_consumer_interest now i rv =
     (case ri_link i of
        None \<Rightarrow>
          if rv_attached rv \<or> rv_attachedPrefix rv = [] then Inr rv
          else send_hinted (rv_attachedPrefix rv) i rv
      | Some ds \<Rightarrow>
          if \<not> (case ds of d # _ \<Rightarrow> d = rv_instancePrefix rv | [] \<Rightarrow> False) then Inl AssertionFailed
          else if \<not> rv_attached rv
          then if rv_attachedPrefix rv = rv_instancePrefix rv then Inl AssertionFailed
               else send_hinted (rv_attachedPrefix rv) i rv
          else if length (rv_bufferedInterests rv) < 40
          then Inr (rv\<lparr>rv_bufferedInterests := rv_bufferedInterests rv @ [(i, now)]\<rparr>)
          else Inr rv)"

text \<open>\<open>isns\<close> are the numbers that the random variable gives, as \<^verbatim>\<open>uint64_t\<close>.\<close>

definition rv_OnInterest :: "(nat \<Rightarrow> u64) \<Rightarrow> sim_time \<Rightarrow> rv_interest \<Rightarrow> rendezvous \<Rightarrow> rv_error + rendezvous" where
  "rv_OnInterest isns now i rv =
     (if \<not> rv_active rv then Inr rv
      else
        let dataName = ri_name i;
            negPrefix = rv_rvPrefix rv @ [component_of_string ''negotiate''];
            tracePrefix = rv_rvPrefix rv @ [component_of_string ''trace'']
        in if isPrefixOf negPrefix dataName
           then let rv = rv\<lparr>rv_isn := isns (rv_randPos rv), rv_randPos := rv_randPos rv + 1\<rparr>
                in Inr (send_data dataName (rev (be_bytes 8 (unat (rv_isn rv)))) rv)
           else if isPrefixOf tracePrefix dataName
           then bind_exn (lift_exn (bind_exn (name_at dataName (- 1)) toSequenceNumber)) (\<lambda>s.
                  if s < rv_isn rv then Inr rv
                  else bind_exn (sendBuffered now rv) (\<lambda>rv.
                    let rv = rv\<lparr>rv_attachCalls := rv_attachCalls rv + 1\<rparr>
                    in Inr (send_data dataName (replicate 32 0) rv)))
           else if isPrefixOf (rv_rvPrefix rv) dataName
           then rv_consumer_interest now i rv
           else Inr rv)"

section \<open>Sending the buffered Interests\<close>

text \<open>Four-byte nonces, as every Interest sent in this program has.\<close>

definition nonces_ok :: "rendezvous \<Rightarrow> bool" where
  "nonces_ok rv \<longleftrightarrow> (\<forall>x \<in> set (rv_bufferedInterests rv). length (ns_bytes (rv_store rv) (ri_nonce (fst x))) = 4)"

lemma send_hinted_returns:
  assumes "length (ns_bytes (rv_store rv) (ri_nonce p)) = 4"
  shows "\<exists>w st. send_hinted hint p rv =
      Inr (rv\<lparr>rv_store := st, rv_out := rv_out rv @ [RvInterest (p\<lparr>ri_link := Some [hint]\<rparr>) w]\<rparr>) \<and>
    nonce_at (rv_store rv) (ri_nonce p) = Inr (w - 1) \<and>
    (\<forall>a. length (ns_bytes (rv_store rv) a) = 4 \<longrightarrow> length (ns_bytes st a) = 4)"
proof -
  let ?w = "word_of_bytes (ns_bytes (rv_store rv) (ri_nonce p)) + 1"
  let ?st = "(rv_store rv)\<lparr>ns_bytes := (ns_bytes (rv_store rv))(ri_nonce p := bytes_of_word ?w)\<rparr>"
  show ?thesis
    using assms
    by (intro exI [of _ ?w] exI [of _ ?st])
      (simp add: send_hinted_def lift_exn_def bump_nonce_def nonce_at_def setNonce_def Let_def)
qed

definition young :: "sim_time \<Rightarrow> (rv_interest \<times> sim_time) list \<Rightarrow> rv_interest list" where
  "young now ps = map fst (filter (\<lambda>(p, t). now - t \<le> 1000000000) ps)"

lemma send_loop_returns:
  assumes "\<forall>x \<in> set ps. length (ns_bytes (rv_store rv) (ri_nonce (fst x))) = 4"
  shows "\<exists>st out. send_loop now ps rv = Inr (rv\<lparr>rv_store := st, rv_out := rv_out rv @ out\<rparr>) \<and>
    list_all2 (\<lambda>p x. \<exists>w. x = RvInterest (p\<lparr>ri_link := Some [rv_attachedPrefix rv]\<rparr>) w) (young now ps) out"
  using assms
proof (induction ps arbitrary: rv)
  case Nil
  show ?case by (intro exI [of _ "rv_store rv"] exI [of _ "[]"]) (simp add: young_def)
next
  case (Cons x ps)
  obtain p t where x: "x = (p, t)" by fastforce
  show ?case
  proof (cases "now - t > 1000000000")
    case True
    then show ?thesis using Cons by (simp add: x young_def)
  next
    case False
    obtain w st where st: "send_hinted (rv_attachedPrefix rv) p rv =
        Inr (rv\<lparr>rv_store := st, rv_out := rv_out rv @ [RvInterest (p\<lparr>ri_link := Some [rv_attachedPrefix rv]\<rparr>) w]\<rparr>)"
      "\<forall>a. length (ns_bytes (rv_store rv) a) = 4 \<longrightarrow> length (ns_bytes st a) = 4"
      using send_hinted_returns [of rv p "rv_attachedPrefix rv"] Cons.prems by (auto simp: x)
    let ?rv = "rv\<lparr>rv_store := st, rv_out := rv_out rv @ [RvInterest (p\<lparr>ri_link := Some [rv_attachedPrefix rv]\<rparr>) w]\<rparr>"
    obtain st' out where "send_loop now ps ?rv = Inr (?rv\<lparr>rv_store := st', rv_out := rv_out ?rv @ out\<rparr>)"
      "list_all2 (\<lambda>p x. \<exists>w. x = RvInterest (p\<lparr>ri_link := Some [rv_attachedPrefix rv]\<rparr>) w) (young now ps) out"
      using Cons.IH [of ?rv] Cons.prems st(2) by auto
    then show ?thesis
      using False st(1)
      by (intro exI [of _ st'] exI [of _ "RvInterest (p\<lparr>ri_link := Some [rv_attachedPrefix rv]\<rparr>) w # out"])
        (auto simp: x young_def)
  qed
qed

section \<open>What the rendezvous point answers\<close>

lemma not_negotiate: "\<not> prefix (p @ [component_of_string ''negotiate'']) (p @ component_of_string ''trace'' # q)"
  by (simp add: component_of_string_def bytes_of_def)

text \<open>An Interest of a consumer is never answered by Data, and the buffer holds at most forty Interests.\<close>

lemma consumer_interest_no_data:
  assumes "rv_consumer_interest now i rv = Inr rv'"
  shows "\<exists>out. rv_out rv' = rv_out rv @ out \<and> (\<forall>nm c. RvData nm c \<notin> set out) \<and>
    length (rv_bufferedInterests rv') \<le> max (length (rv_bufferedInterests rv)) 40"
proof -
  have hinted: "\<exists>out. rv_out rv1 = rv_out rv @ out \<and> (\<forall>nm c. RvData nm c \<notin> set out) \<and>
      rv_bufferedInterests rv1 = rv_bufferedInterests rv"
    if "send_hinted h i rv = Inr rv1" for h rv1
    using that by (auto simp: send_hinted_def bind_exn_Inr split: prod.splits)
  show ?thesis
    using assms hinted
    by (fastforce simp: rv_consumer_interest_def split: option.splits if_splits list.splits)
qed

text \<open>An active rendezvous point answers every Trace Interest under its prefix whose sequence number is not below
  the negotiated one: it first hands on, in order and with the hint of the attachment, exactly the buffered
  Interests of the last second, empties the buffer, reports the attachment, and then sends Data of exactly the
  name of the Trace Interest.\<close>

lemma rv_trace_reply:
  assumes "rv_active rv" and "nonces_ok rv" and "ri_name i = rv_rvPrefix rv @ component_of_string ''trace'' # q"
    and "bind_exn (name_at (ri_name i) (- 1)) toSequenceNumber = Inr s" and "rv_isn rv \<le> s"
  shows "\<exists>rv' out. rv_OnInterest isns now i rv = Inr rv' \<and>
    rv_out rv' = rv_out rv @ out @ [RvData (ri_name i) (replicate 32 0)] \<and>
    list_all2 (\<lambda>p x. \<exists>w. x = RvInterest (p\<lparr>ri_link := Some [rv_attachedPrefix rv]\<rparr>) w)
      (young now (rv_bufferedInterests rv)) out \<and>
    rv_bufferedInterests rv' = [] \<and> rv_attachCalls rv' = rv_attachCalls rv + 1 \<and> rv_isn rv' = rv_isn rv"
proof -
  obtain st out where loop: "send_loop now (rv_bufferedInterests rv) rv = Inr (rv\<lparr>rv_store := st, rv_out := rv_out rv @ out\<rparr>)"
    "list_all2 (\<lambda>p x. \<exists>w. x = RvInterest (p\<lparr>ri_link := Some [rv_attachedPrefix rv]\<rparr>) w)
      (young now (rv_bufferedInterests rv)) out"
    using send_loop_returns [of "rv_bufferedInterests rv" rv now] assms(2) by (auto simp: nonces_ok_def)
  let ?rv = "rv\<lparr>rv_store := st, rv_out := rv_out rv @ out @ [RvData (ri_name i) (replicate 32 0)],
    rv_bufferedInterests := [], rv_attachCalls := rv_attachCalls rv + 1\<rparr>"
  have "rv_OnInterest isns now i rv = Inr ?rv"
    using assms loop(1) not_negotiate
    by (simp add: rv_OnInterest_def Let_def lift_exn_def sendBuffered_def send_data_def not_less)
  then show ?thesis using loop(2) by (intro exI [of _ ?rv] exI [of _ out]) simp
qed

lemma timeout_cancelled:
  assumes "timers_ok m"
  shows "(OnTraceTimeout_act, j) \<notin> live_timers (CancelId (mb_traceTimeoutEvent m) (mb_sim m))"
  using assms live_timers_CancelId [of "mb_sim m" OnTraceTimeout_act "mb_traceTimeoutEvent m"] by (auto simp: timers_ok_def)

text \<open>C6. Mobile and rendezvous point agree.  The rendezvous point answers the last Trace Interest of a mobile that has its
  prefix: after the buffered Interests of the last second, in order and with the hint of the attachment, it
  sends Data of the name of the Trace; the mobile takes this Data as current, resets the retry counter, and no timeout
  of the Trace is left.\<close>

theorem trace_answer_accepted:
  assumes "reach (mobile_start env) (mobile_step env) m" and "mb_active m" and "mb_interests m \<noteq> []"
    and "rv_active rv" and "nonces_ok rv" and "rv_rvPrefix rv = mb_rvPrefix m" and "rv_isn rv = 0"
    and "ri_name i = ti_name (last (mb_interests m))"
  shows "\<exists>rv' d m' out. rv_OnInterest isns now i rv = Inr rv' \<and>
    rv_out rv' = rv_out rv @ out @ [RvData (d_name d) (d_content d)] \<and> d_name d = ri_name i \<and>
    list_all2 (\<lambda>p x. \<exists>w. x = RvInterest (p\<lparr>ri_link := Some [rv_attachedPrefix rv]\<rparr>) w)
      (young now (rv_bufferedInterests rv)) out \<and> rv_bufferedInterests rv' = [] \<and>
    mobile_OnData d m = Inr m' \<and> mb_traceRetryCnt m' = 0 \<and> mb_rvData m' = mb_rvData m + 1 \<and>
    (\<forall>j. (OnTraceTimeout_act, j) \<notin> live_timers (mb_sim m'))"
proof -
  let ?n = "length (mb_interests m)"
  have ok: "mobile_ok env m" by (rule mobile_system.reachable_inv [OF assms(1)])
  then have names: "map ti_name (mb_interests m) =
      map (\<lambda>k. traceName (mb_rvPrefix m) (mb_dataPrefix m) (of_nat k)) [1..<Suc ?n]" and seq: "mb_seq m = of_nat (Suc ?n)"
    by (simp_all add: mobile_ok_def names_ok_def)
  have n: "0 < ?n" using assms(3) by simp
  have "last (map ti_name (mb_interests m)) = traceName (mb_rvPrefix m) (mb_dataPrefix m) (of_nat ?n)"
    unfolding names using n by (simp add: Suc_le_eq)
  then have nm: "ri_name i = traceName (rv_rvPrefix rv) (mb_dataPrefix m) (of_nat ?n)"
    using assms(3,6,8) by (simp add: last_map)
  have at: "bind_exn (name_at (ri_name i) (- 1)) toSequenceNumber = Inr (of_nat ?n)"
    by (simp add: nm traceName_def name_at_def nth_append)
  obtain rv' out where rv': "rv_OnInterest isns now i rv = Inr rv'"
    "rv_out rv' = rv_out rv @ out @ [RvData (ri_name i) (replicate 32 0)]"
    "list_all2 (\<lambda>p x. \<exists>w. x = RvInterest (p\<lparr>ri_link := Some [rv_attachedPrefix rv]\<rparr>) w)
      (young now (rv_bufferedInterests rv)) out" "rv_bufferedInterests rv' = []"
    using rv_trace_reply [of rv i "mb_dataPrefix m @ [fromSequenceNumber (of_nat ?n)]" "of_nat ?n" isns now] assms(4,5,7) at
    by (auto simp: nm traceName_def MakeTracePrefix_def)
  let ?d = "\<lparr>d_name = ri_name i, d_content = replicate 32 0, d_hopCount = None\<rparr>"
  let ?m = "m\<lparr>mb_rvData := mb_rvData m + 1, mb_sim := CancelId (mb_traceTimeoutEvent m) (mb_sim m), mb_traceRetryCnt := 0\<rparr>"
  have "mobile_OnData ?d m = Inr ?m" using assms(2) at seq by (simp add: mobile_OnData_def)
  moreover have "(OnTraceTimeout_act, j) \<notin> live_timers (mb_sim ?m)" for j
    using ok timeout_cancelled [of m j] by (simp add: mobile_ok_def)
  ultimately show ?thesis using rv' by (intro exI [of _ rv'] exI [of _ ?d] exI [of _ ?m] exI [of _ out]) simp
qed

definition sample_rv :: rendezvous where
  "sample_rv = rv_StartApplication (rv_new [component_of_string ''rv''] [component_of_string ''rv''])"

theorem trace_answer_accepted_witness:
  "\<exists>rv' m'. rv_OnInterest (\<lambda>_. 1) 0 \<lparr>ri_name = ti_name (last (mb_interests announced_mobile)), ri_nonce = 0,
       ri_lifetime = 2000, ri_link = None\<rparr> sample_rv = Inr rv' \<and> length (rv_out rv') = 1 \<and>
     mobile_OnData \<lparr>d_name = ti_name (last (mb_interests announced_mobile)), d_content = replicate 32 0, d_hopCount = None\<rparr>
       (mobile_StartApplication announced_mobile) = Inr m' \<and> mb_traceRetryCnt m' = 0"
proof -
  let ?m = "mobile_StartApplication announced_mobile"
  have reach: "reach (mobile_start sample_env) (mobile_step sample_env) ?m"
    by (rule reach_step [OF announced_mobile_reach start_app])
  have m: "mb_active ?m" "mb_interests ?m = mb_interests announced_mobile" "mb_rvPrefix ?m = [component_of_string ''rv'']"
    "mb_interests announced_mobile \<noteq> []"
    using announced_mobile_simps by (auto simp: mobile_StartApplication_def)
  have rv: "rv_active sample_rv" "nonces_ok sample_rv" "rv_rvPrefix sample_rv = mb_rvPrefix ?m" "rv_isn sample_rv = 0"
    "rv_out sample_rv = []" "rv_bufferedInterests sample_rv = []"
    using m(3) by (simp_all add: sample_rv_def rv_StartApplication_def rv_new_def nonces_ok_def)
  note answer = trace_answer_accepted [OF reach m(1) _ rv(1-4), of _ "\<lambda>_. 1" 0, unfolded m(2)]
  from answer [of "\<lparr>ri_name = ti_name (last (mb_interests announced_mobile)), ri_nonce = 0, ri_lifetime = 2000, ri_link = None\<rparr>"]
  show ?thesis
    using m(4) rv(5,6) by (auto simp: young_def mobile_OnData_def split: if_splits)
qed

end
