(* ===== verification/Rtt_Estimator.thy ===== *)
theory Rtt_Estimator
  imports Node_State
begin

text \<open>
  The retransmission timer of the consumers (\<^verbatim>\<open>ndnSIM/utils/ndn-rtt-estimator.cpp\<close> and
  \<^verbatim>\<open>ndn-rtt-mean-deviation.cpp\<close>).  Conversions between times and seconds are those of the
  environment; the arithmetic on seconds is exact.
\<close>

record rtt_history =
  rh_seq :: u32
  rh_count :: u32
  rh_time :: sim_time
  rh_retx :: bool

record rtt =
  r_next :: u32
  r_maxMultiplier :: u16
  r_initialEstimatedRtt :: sim_time
  r_currentEstimatedRtt :: sim_time
  r_minRto :: sim_time
  r_maxRto :: sim_time
  r_nSamples :: u32
  r_multiplier :: u16
  r_history :: "rtt_history list"
  r_gain :: real
  r_gain2 :: real
  r_variance :: sim_time

definition rtt_new :: rtt where
  "rtt_new = \<lparr>r_next = 1, r_maxMultiplier = 64, r_initialEstimatedRtt = 1000000000,
     r_currentEstimatedRtt = 1000000000, r_minRto = 200000000, r_maxRto = 200000000000, r_nSamples = 0,
     r_multiplier = 1, r_history = [], r_gain = 1 / 8, r_gain2 = 1 / 4, r_variance = 0\<rparr>"

definition Measurement :: "('a env_scheme) \<Rightarrow> sim_time \<Rightarrow> rtt \<Rightarrow> rtt" where
  "Measurement env m r =
     (let r = (if r_nSamples r \<noteq> 0
               then let err = m - r_currentEstimatedRtt r;
                        gErr = e_getSeconds env err * r_gain r;
                        r = r\<lparr>r_currentEstimatedRtt := r_currentEstimatedRtt r + e_Seconds env gErr\<rparr>;
                        difference = \<bar>err\<bar> - r_variance r
                    in r\<lparr>r_variance := r_variance r + e_Seconds env (e_getSeconds env difference * r_gain2 r)\<rparr>
               else r\<lparr>r_currentEstimatedRtt := m, r_variance := e_Seconds env (e_getSeconds env m / 2)\<rparr>)
      in r\<lparr>r_nSamples := r_nSamples r + 1\<rparr>)"

definition RetransmitTimeout :: "('a env_scheme) \<Rightarrow> rtt \<Rightarrow> sim_time" where
  "RetransmitTimeout env r =
     (let k = real (unat (r_multiplier r));
          retval = min (e_getSeconds env (r_maxRto r))
                     (max (k * e_getSeconds env (r_minRto r))
                        (k * (e_getSeconds env (r_currentEstimatedRtt r) + 4 * e_getSeconds env (r_variance r))))
      in e_Seconds env retval)"

definition ResetMultiplier :: "rtt \<Rightarrow> rtt" where
  "ResetMultiplier r = r\<lparr>r_multiplier := 1\<rparr>"

definition rtt_base_Reset :: "rtt \<Rightarrow> rtt" where
  "rtt_base_Reset r =
     ResetMultiplier (r\<lparr>r_next := 1, r_currentEstimatedRtt := r_initialEstimatedRtt r, r_history := [], r_nSamples := 0\<rparr>)"

definition rtt_Reset :: "rtt \<Rightarrow> rtt" where
  "rtt_Reset r = rtt_base_Reset (r\<lparr>r_variance := 0\<rparr>)"

text \<open>Mark the first record of the sequence number as retransmitted, or append a new one.\<close>

fun mark_retx :: "u32 \<Rightarrow> rtt_history list \<Rightarrow> rtt_history list option" where
  "mark_retx s [] = None"
| "mark_retx s (h # hs) = (if s = rh_seq h then Some (h\<lparr>rh_retx := True\<rparr> # hs) else map_option (Cons h) (mark_retx s hs))"

definition SentSeq :: "sim_time \<Rightarrow> u32 \<Rightarrow> u32 \<Rightarrow> rtt \<Rightarrow> rtt" where
  "SentSeq now s sz r =
     (case mark_retx s (r_history r) of
        Some hs \<Rightarrow> r\<lparr>r_history := hs\<rparr>
      | None \<Rightarrow> r\<lparr>r_history := r_history r @ [\<lparr>rh_seq = s, rh_count = sz, rh_time = now, rh_retx = False\<rparr>]\<rparr>)"

definition AckSeq :: "('a env_scheme) \<Rightarrow> sim_time \<Rightarrow> u32 \<Rightarrow> rtt \<Rightarrow> rtt" where
  "AckSeq env now s r =
     (case find (\<lambda>h. s = rh_seq h) (r_history r) of
        None \<Rightarrow> r
      | Some h \<Rightarrow>
          let r = (if \<not> rh_retx h then ResetMultiplier (Measurement env (now - rh_time h) r) else r)
          in r\<lparr>r_history := remove1 h (r_history r)\<rparr>)"

section \<open>Estimators that have not learnt anything\<close>

definition pristine :: "rtt \<Rightarrow> bool" where
  "pristine r \<longleftrightarrow> r_currentEstimatedRtt r = r_initialEstimatedRtt r \<and> r_variance r = 0 \<and> r_multiplier r = 1"

definition rtt_config :: "rtt \<Rightarrow> sim_time \<times> sim_time \<times> sim_time" where
  "rtt_config r = (r_initialEstimatedRtt r, r_minRto r, r_maxRto r)"

lemma pristine_new: "pristine rtt_new"
  by (simp add: pristine_def rtt_new_def)

lemma pristine_SentSeq [simp]: "pristine (SentSeq now s sz r) = pristine r" "rtt_config (SentSeq now s sz r) = rtt_config r"
  by (simp_all add: SentSeq_def pristine_def rtt_config_def split: option.splits)

lemma pristine_Reset [simp]: "pristine (rtt_Reset r)" "rtt_config (rtt_Reset r) = rtt_config r"
  by (simp_all add: rtt_Reset_def rtt_base_Reset_def ResetMultiplier_def pristine_def rtt_config_def Let_def)

lemma rtt_config_AckSeq [simp]: "rtt_config (AckSeq env now s r) = rtt_config r"
  by (simp add: AckSeq_def Measurement_def ResetMultiplier_def rtt_config_def Let_def split: option.splits)

lemma RetransmitTimeout_pristine:
  assumes "pristine r" and "pristine q" and "rtt_config r = rtt_config q"
  shows "RetransmitTimeout env r = RetransmitTimeout env q"
  using assms by (simp add: RetransmitTimeout_def pristine_def rtt_config_def)

text \<open>A measurement does change the timeout: what the resets undo is not vacuous.\<close>

lemma Measurement_learns:
  "r_currentEstimatedRtt (Measurement env m rtt_new) = m"
  by (simp add: Measurement_def rtt_new_def)

end
