(* ===== verification/Consumer_App.thy ===== *)
theory Consumer_App
  imports Samples Event_Loop Rtt_Estimator
begin

text \<open>
  The consumer (\<^verbatim>\<open>statim/apps/statim-consumer.cpp\<close> on top of \<^verbatim>\<open>apps/ndn-consumer.cpp\<close>): it
  requests consecutive sequence numbers, retransmits those whose timeout has expired, and
  accounts for requests that are never satisfied.  A \<^verbatim>\<open>SeqTimeoutsContainer\<close> is the list of its
  elements in the order of its time-stamp index; a sequence number occurs once in it.  The
  names handed to \<^verbatim>\<open>m_appLink\<close> are logged in \<open>c_interests\<close>, the delay traces in \<open>c_delays\<close>.
\<close>

section \<open>State\<close>

datatype consumer_act = SendPacket_act | CheckRetxTimeout_act

record app_env = env +
  ae_interval :: "nat \<Rightarrow> real"

type_synonym seq_timeouts = "(u32 \<times> sim_time) list"

record sent_interest =
  si_name :: name
  si_nonce :: u32
  si_lifetime :: int

datatype delay_trace = LastDelay u32 sim_time int | FirstDelay u32 sim_time u32 int

record consumer =
  c_active :: bool
  c_seq :: u32
  c_seqMax :: u32
  c_sendEvent :: "event_id option"
  c_retxTimer :: sim_time
  c_retxEvent :: "event_id option"
  c_rtt :: rtt
  c_interestName :: name
  c_interestLifeTime :: sim_time
  c_retxSeqs :: "u32 fset"
  c_seqTimeouts :: seq_timeouts
  c_seqLastDelay :: seq_timeouts
  c_seqFullDelay :: seq_timeouts
  c_seqRetxCounts :: "(u32, u32) fmap"
  c_frequency :: real
  c_firstTime :: bool
  c_random :: bool
  c_randomType :: string
  c_interestSent :: u64
  c_dataReceived :: u64
  c_timeoutCount :: u64
  c_seqSendTime :: "(u32, sim_time) fmap"
  c_timeoutsBySendBin :: "(int, u32) fmap"
  c_seqFirstSent :: "(u32, sim_time) fmap"
  c_seqSatisfied :: "u32 fset"
  c_lossWindowStart :: sim_time
  c_lossWindowLen :: sim_time
  c_randPos :: nat
  c_intervalPos :: nat
  c_sim :: "consumer_act sim"
  c_interests :: "sent_interest list"
  c_delays :: "delay_trace list"

text \<open>The state before the attribute \<^verbatim>\<open>RetxTimer\<close> is set, which schedules the first check.\<close>

definition consumer_new :: "name \<Rightarrow> consumer" where
  "consumer_new nm = \<lparr>c_active = False, c_seq = 0, c_seqMax = 0xffffffff, c_sendEvent = None, c_retxTimer = 0,
     c_retxEvent = None, c_rtt = rtt_new, c_interestName = nm, c_interestLifeTime = 2000000000,
     c_retxSeqs = {||}, c_seqTimeouts = [], c_seqLastDelay = [], c_seqFullDelay = [], c_seqRetxCounts = fmempty,
     c_frequency = 1, c_firstTime = True, c_random = False, c_randomType = [], c_interestSent = 0, c_dataReceived = 0,
     c_timeoutCount = 0, c_seqSendTime = fmempty, c_timeoutsBySendBin = fmempty, c_seqFirstSent = fmempty,
     c_seqSatisfied = {||}, c_lossWindowStart = 0, c_lossWindowLen = 4000000000, c_randPos = 0,
     c_intervalPos = 0, c_sim = sim_init, c_interests = [], c_delays = []\<rparr>"

section \<open>Containers\<close>

text \<open>\<^verbatim>\<open>insert\<close> refuses a sequence number that is there, and otherwise inserts behind the
  elements that are not later.\<close>

definition timeouts_insert :: "u32 \<Rightarrow> sim_time \<Rightarrow> seq_timeouts \<Rightarrow> seq_timeouts" where
  "timeouts_insert s t ts =
     (if s \<in> fst ` set ts then ts
      else takeWhile (\<lambda>x. snd x \<le> t) ts @ [(s, t)] @ dropWhile (\<lambda>x. snd x \<le> t) ts)"

definition timeouts_erase :: "u32 \<Rightarrow> seq_timeouts \<Rightarrow> seq_timeouts" where
  "timeouts_erase s ts = filter (\<lambda>x. fst x \<noteq> s) ts"

definition timeouts_find :: "u32 \<Rightarrow> seq_timeouts \<Rightarrow> sim_time option" where
  "timeouts_find s ts = map_option snd (find (\<lambda>x. fst x = s) ts)"

section \<open>Operations\<close>

definition consumer_schedule :: "sim_time \<Rightarrow> consumer_act \<Rightarrow> consumer \<Rightarrow> event_id \<times> consumer" where
  "consumer_schedule d a c = (let (i, s) = Schedule d a (c_sim c) in (i, c\<lparr>c_sim := s\<rparr>))"

definition SetRetxTimer :: "sim_time \<Rightarrow> consumer \<Rightarrow> consumer" where
  "SetRetxTimer t c =
     (let c = c\<lparr>c_retxTimer := t\<rparr>;
          c = (if IsRunning (c_retxEvent c) (c_sim c) then c\<lparr>c_sim := Remove (c_retxEvent c) (c_sim c)\<rparr> else c);
          (i, c) = consumer_schedule t CheckRetxTimeout_act c
      in c\<lparr>c_retxEvent := Some i\<rparr>)"

definition ScheduleNextPacket :: "app_env \<Rightarrow> consumer \<Rightarrow> consumer" where
  "ScheduleNextPacket env c =
     (if c_firstTime c
      then let (i, c) = consumer_schedule (e_Seconds env 0) SendPacket_act c
           in c\<lparr>c_sendEvent := Some i, c_firstTime := False\<rparr>
      else if \<not> IsRunning (c_sendEvent c) (c_sim c)
      then let (d, pos) = (if \<not> c_random c then (e_Seconds env (1 / c_frequency c), c_intervalPos c)
                           else (e_Seconds env (ae_interval env (c_intervalPos c)), c_intervalPos c + 1));
               (i, c) = consumer_schedule d SendPacket_act (c\<lparr>c_intervalPos := pos\<rparr>)
           in c\<lparr>c_sendEvent := Some i\<rparr>
      else c)"

definition Consumer_OnTimeout :: "app_env \<Rightarrow> u32 \<Rightarrow> consumer \<Rightarrow> consumer" where
  "Consumer_OnTimeout env s c =
     ScheduleNextPacket env (c\<lparr>c_rtt := SentSeq (Now (c_sim c)) s 1 (c_rtt c), c_retxSeqs := finsert s (c_retxSeqs c)\<rparr>)"

definition OnTimeout :: "app_env \<Rightarrow> u32 \<Rightarrow> consumer \<Rightarrow> consumer" where
  "OnTimeout env s c =
     (let c = c\<lparr>c_timeoutCount := c_timeoutCount c + 1\<rparr>;
          c = (case fmlookup (c_seqSendTime c) s of
                 Some sendTime \<Rightarrow>
                   let bin = \<lfloor>e_getSeconds env sendTime * 10\<rfloor>
                   in c\<lparr>c_timeoutsBySendBin := fmupd bin
                          ((case fmlookup (c_timeoutsBySendBin c) bin of Some k \<Rightarrow> k | None \<Rightarrow> 0) + 1)
                          (c_timeoutsBySendBin c)\<rparr>
               | None \<Rightarrow> c)
      in Consumer_OnTimeout env s c)"

lemma OnTimeout_timeouts [simp]: "c_seqTimeouts (OnTimeout env s c) = c_seqTimeouts c"
  by (simp add: OnTimeout_def Consumer_OnTimeout_def ScheduleNextPacket_def consumer_schedule_def Let_def
      split: option.splits prod.splits)

text \<open>The loop of \<^verbatim>\<open>CheckRetxTimeout\<close>.\<close>

function check_loop :: "app_env \<Rightarrow> sim_time \<Rightarrow> consumer \<Rightarrow> consumer" where
  "check_loop env rto c =
     (case c_seqTimeouts c of
        [] \<Rightarrow> c
      | (s, t) # ts \<Rightarrow>
          if t + rto \<le> Now (c_sim c) then check_loop env rto (OnTimeout env s (c\<lparr>c_seqTimeouts := ts\<rparr>)) else c)"
  by pat_completeness auto
termination
  by (relation "measure (\<lambda>(env, rto, c). length (c_seqTimeouts c))") auto

declare check_loop.simps [simp del]

definition CheckRetxTimeout :: "app_env \<Rightarrow> consumer \<Rightarrow> consumer" where
  "CheckRetxTimeout env c =
     (let rto = RetransmitTimeout env (c_rtt c);
          c = check_loop env rto c;
          (i, c) = consumer_schedule (c_retxTimer c) CheckRetxTimeout_act c
      in c\<lparr>c_retxEvent := Some i\<rparr>)"

definition Consumer_WillSendOutInterest :: "u32 \<Rightarrow> consumer \<Rightarrow> consumer" where
  "Consumer_WillSendOutInterest s c =
     (let now = Now (c_sim c) in
      c\<lparr>c_seqTimeouts := timeouts_insert s now (c_seqTimeouts c),
        c_seqFullDelay := timeouts_insert s now (c_seqFullDelay c),
        c_seqLastDelay := timeouts_insert s now (timeouts_erase s (c_seqLastDelay c)),
        c_seqRetxCounts := fmupd s ((case fmlookup (c_seqRetxCounts c) s of Some k \<Rightarrow> k | None \<Rightarrow> 0) + 1) (c_seqRetxCounts c),
        c_rtt := SentSeq now s 1 (c_rtt c)\<rparr>)"

definition WillSendOutInterest :: "u32 \<Rightarrow> consumer \<Rightarrow> consumer" where
  "WillSendOutInterest s c =
     (let now = Now (c_sim c);
          c = c\<lparr>c_interestSent := c_interestSent c + 1, c_seqSendTime := fmupd s now (c_seqSendTime c)\<rparr>;
          c = (if fmlookup (c_seqFirstSent c) s = None then c\<lparr>c_seqFirstSent := fmupd s now (c_seqFirstSent c)\<rparr> else c)
      in Consumer_WillSendOutInterest s c)"

text \<open>The part of \<^verbatim>\<open>SendPacket\<close> that picks the sequence number: the lowest one that waits for
  retransmission, or a new one; nothing when all have been requested.\<close>

definition pick_seq :: "consumer \<Rightarrow> u32 option \<times> consumer" where
  "pick_seq c =
     (let (s, c) = (if c_retxSeqs c \<noteq> {||}
                    then let s = Min (fset (c_retxSeqs c)) in (s, c\<lparr>c_retxSeqs := c_retxSeqs c |-| {|s|}\<rparr>)
                    else (0xffffffff, c))
      in if s = 0xffffffff
         then if c_seqMax c \<noteq> 0xffffffff \<and> c_seq c \<ge> c_seqMax c then (None, c)
              else (Some (c_seq c), c\<lparr>c_seq := c_seq c + 1\<rparr>)
         else (Some s, c))"

definition transmit :: "app_env \<Rightarrow> u32 \<Rightarrow> consumer \<Rightarrow> consumer" where
  "transmit env s c =
     (let i = \<lparr>si_name = c_interestName c @ [fromSequenceNumber (ucast s)], si_nonce = e_words env (c_randPos c),
               si_lifetime = (if 0 \<le> c_interestLifeTime c then c_interestLifeTime c div 1000000
                              else - (- c_interestLifeTime c div 1000000))\<rparr>;
          c = WillSendOutInterest s (c\<lparr>c_randPos := c_randPos c + 1\<rparr>)
      in c\<lparr>c_interests := c_interests c @ [i]\<rparr>)"

definition SendPacket :: "app_env \<Rightarrow> consumer \<Rightarrow> consumer" where
  "SendPacket env c =
     (if \<not> c_active c then c
      else case pick_seq c of
             (None, c) \<Rightarrow> c
           | (Some s, c) \<Rightarrow> ScheduleNextPacket env (transmit env s c))"

definition Consumer_OnData :: "app_env \<Rightarrow> name \<Rightarrow> int \<Rightarrow> consumer \<Rightarrow> exn + consumer" where
  "Consumer_OnData env nm hopCount c =
     (if \<not> c_active c then Inr c
      else bind_exn (bind_exn (name_at nm (- 1)) toSequenceNumber) (\<lambda>n.
        let s = ucast n; now = Now (c_sim c);
            lastT = (case timeouts_find s (c_seqLastDelay c) of Some t \<Rightarrow> [LastDelay s (now - t) hopCount] | None \<Rightarrow> []);
            fullT = (case timeouts_find s (c_seqFullDelay c) of
                      Some t \<Rightarrow> [FirstDelay s (now - t)
                        (case fmlookup (c_seqRetxCounts c) s of Some k \<Rightarrow> k | None \<Rightarrow> 0) hopCount] | None \<Rightarrow> [])
        in Inr (c\<lparr>c_delays := c_delays c @ lastT @ fullT, c_seqRetxCounts := fmdrop s (c_seqRetxCounts c),
                  c_seqFullDelay := timeouts_erase s (c_seqFullDelay c),
                  c_seqLastDelay := timeouts_erase s (c_seqLastDelay c),
                  c_seqTimeouts := timeouts_erase s (c_seqTimeouts c),
                  c_retxSeqs := c_retxSeqs c |-| {|s|},
                  c_rtt := rtt_Reset (AckSeq env now s (c_rtt c))\<rparr>)))"

text \<open>The copy of the Data that is passed on is decoded anew from the wire, so it has no hop-count tag.\<close>

definition consumer_OnData :: "app_env \<Rightarrow> data_packet \<Rightarrow> consumer \<Rightarrow> exn + consumer" where
  "consumer_OnData env d c =
     (let c = c\<lparr>c_dataReceived := c_dataReceived c + 1\<rparr>;
          dataName = d_name d;
          newName = getPrefix dataName (int (length dataName) - 1)
      in bind_exn (if length dataName \<ge> 2
                   then bind_exn (bind_exn (name_at dataName (- 2)) toSequenceNumber)
                          (\<lambda>n. Inr (c\<lparr>c_seqSatisfied := finsert (ucast n) (c_seqSatisfied c)\<rparr>))
                   else Inr c)
           (Consumer_OnData env newName 0))"

definition consumer_StartApplication :: "app_env \<Rightarrow> consumer \<Rightarrow> consumer" where
  "consumer_StartApplication env c = ScheduleNextPacket env (c\<lparr>c_active := True\<rparr>)"

definition consumer_StopApplication :: "consumer \<Rightarrow> consumer" where
  "consumer_StopApplication c =
     (let c = c\<lparr>c_sim := CancelId (c_sendEvent c) (c_sim c)\<rparr>
      in if \<not> c_active c then c else c\<lparr>c_active := False\<rparr>)"

text \<open>\<open>c_random\<close> says whether there is a random variable; its values are the parameter \<open>ae_interval\<close>.\<close>

definition SetRandomize :: "string \<Rightarrow> consumer \<Rightarrow> consumer" where
  "SetRandomize v c = c\<lparr>c_random := (v = ''uniform'' \<or> v = ''exponential''), c_randomType := v\<rparr>"

section \<open>Loss statistics\<close>

text \<open>The loops of \<^verbatim>\<open>StopApplication\<close>: requests first sent in the window and those of them that
  were never satisfied, then the latter over the whole run.\<close>

definition window_loss :: "consumer \<Rightarrow> u32 \<times> u32" where
  "window_loss c =
     (let wEnd = c_lossWindowStart c + c_lossWindowLen c
      in fold (\<lambda>(s, t) (sentInWin, neverSat).
           if t \<ge> c_lossWindowStart c \<and> t < wEnd
           then (sentInWin + 1, if s |\<notin>| c_seqSatisfied c then neverSat + 1 else neverSat)
           else (sentInWin, neverSat)) (fmentries (c_seqFirstSent c)) (0, 0))"

definition run_loss :: "consumer \<Rightarrow> u32" where
  "run_loss c = fold (\<lambda>(s, t) n. if s |\<notin>| c_seqSatisfied c then n + 1 else n) (fmentries (c_seqFirstSent c)) 0"

section \<open>Steps\<close>

fun run_consumer :: "app_env \<Rightarrow> consumer_act \<Rightarrow> consumer \<Rightarrow> consumer" where
  "run_consumer env SendPacket_act c = SendPacket env c"
| "run_consumer env CheckRetxTimeout_act c = CheckRetxTimeout env c"

inductive consumer_step :: "app_env \<Rightarrow> consumer \<Rightarrow> consumer \<Rightarrow> bool" for env where
  start_app: "consumer_step env c (consumer_StartApplication env c)"
| stop_app: "consumer_step env c (consumer_StopApplication c)"
| set_retx: "consumer_step env c (SetRetxTimer t c)"
| set_random: "consumer_step env c (SetRandomize v c)"
| on_data: "consumer_OnData env d c = Inr c' \<Longrightarrow> consumer_step env c c'"
| run_event: "ProcessOneEvent (c_sim c) = Some (Some a, sm) \<Longrightarrow> consumer_step env c (run_consumer env a (c\<lparr>c_sim := sm\<rparr>))"
| skip_event: "ProcessOneEvent (c_sim c) = Some (None, sm) \<Longrightarrow> consumer_step env c (c\<lparr>c_sim := sm\<rparr>)"
| other_event: "foreign_event t v u (c_sim c) = Some sm \<Longrightarrow> consumer_step env c (c\<lparr>c_sim := sm\<rparr>)"

inductive_cases consumer_stepE: "consumer_step env c c'"

section \<open>What an operation leaves alone\<close>

lemma ScheduleNextPacket_frame [simp]:
  "c_seq (ScheduleNextPacket env c) = c_seq c" "c_seqMax (ScheduleNextPacket env c) = c_seqMax c"
  "c_rtt (ScheduleNextPacket env c) = c_rtt c" "c_retxSeqs (ScheduleNextPacket env c) = c_retxSeqs c"
  "c_seqTimeouts (ScheduleNextPacket env c) = c_seqTimeouts c" "c_seqFirstSent (ScheduleNextPacket env c) = c_seqFirstSent c"
  "c_seqSatisfied (ScheduleNextPacket env c) = c_seqSatisfied c" "c_interests (ScheduleNextPacket env c) = c_interests c"
  "c_interestName (ScheduleNextPacket env c) = c_interestName c"
  by (simp_all add: ScheduleNextPacket_def consumer_schedule_def Let_def split: prod.splits)

lemma configure_frame [simp]:
  "c_seq (SetRetxTimer d c) = c_seq c" "c_seqMax (SetRetxTimer d c) = c_seqMax c" "c_rtt (SetRetxTimer d c) = c_rtt c"
  "c_retxSeqs (SetRetxTimer d c) = c_retxSeqs c" "c_seqTimeouts (SetRetxTimer d c) = c_seqTimeouts c"
  "c_seqFirstSent (SetRetxTimer d c) = c_seqFirstSent c" "c_seqSatisfied (SetRetxTimer d c) = c_seqSatisfied c"
  "c_interests (SetRetxTimer d c) = c_interests c" "c_interestName (SetRetxTimer d c) = c_interestName c"
  "c_rtt (SetRandomize v c) = c_rtt c"
  by (simp_all add: SetRetxTimer_def SetRandomize_def consumer_schedule_def Let_def split: prod.splits)

lemma OnTimeout_frame [simp]:
  "c_seq (OnTimeout env s c) = c_seq c" "c_seqMax (OnTimeout env s c) = c_seqMax c"
  "c_rtt (OnTimeout env s c) = SentSeq (Now (c_sim c)) s 1 (c_rtt c)" "c_retxSeqs (OnTimeout env s c) = finsert s (c_retxSeqs c)"
  "c_seqFirstSent (OnTimeout env s c) = c_seqFirstSent c"
  "c_seqSatisfied (OnTimeout env s c) = c_seqSatisfied c" "c_interests (OnTimeout env s c) = c_interests c"
  "c_interestName (OnTimeout env s c) = c_interestName c"
  by (simp_all add: OnTimeout_def Consumer_OnTimeout_def Let_def split: option.splits)

lemma transmit_frame [simp]:
  "c_seq (transmit env s c) = c_seq c" "c_seqMax (transmit env s c) = c_seqMax c"
  "c_rtt (transmit env s c) = SentSeq (Now (c_sim c)) s 1 (c_rtt c)" "c_retxSeqs (transmit env s c) = c_retxSeqs c"
  "c_seqTimeouts (transmit env s c) = timeouts_insert s (Now (c_sim c)) (c_seqTimeouts c)"
  "c_seqFirstSent (transmit env s c) =
     (if fmlookup (c_seqFirstSent c) s = None then fmupd s (Now (c_sim c)) (c_seqFirstSent c) else c_seqFirstSent c)"
  "c_seqSatisfied (transmit env s c) = c_seqSatisfied c" "c_interestName (transmit env s c) = c_interestName c"
  "map si_name (c_interests (transmit env s c)) = map si_name (c_interests c) @ [c_interestName c @ [fromSequenceNumber (ucast s)]]"
  by (simp_all add: transmit_def WillSendOutInterest_def Consumer_WillSendOutInterest_def Let_def)

lemma timeouts_insert_seqs: "fst ` set (timeouts_insert s t ts) = insert s (fst ` set ts)"
proof -
  have "set (takeWhile P ts) \<union> set (dropWhile P ts) = set ts" for P :: "u32 \<times> sim_time \<Rightarrow> bool"
    using set_append [of "takeWhile P ts" "dropWhile P ts"] by simp
  then show ?thesis by (auto simp: timeouts_insert_def simp flip: image_Un)
qed

lemma distinct_timeouts_insert:
  assumes "distinct (map fst ts)"
  shows "distinct (map fst (timeouts_insert s t ts))"
proof -
  have "distinct (map fst (takeWhile P ts @ dropWhile P ts))" for P :: "u32 \<times> sim_time \<Rightarrow> bool" using assms by simp
  then have d: "distinct (map fst (takeWhile P ts)) \<and> distinct (map fst (dropWhile P ts)) \<and>
      fst ` set (takeWhile P ts) \<inter> fst ` set (dropWhile P ts) = {}" for P :: "u32 \<times> sim_time \<Rightarrow> bool"
    by (metis distinct_append map_append set_map)
  have "x \<in> fst ` set (takeWhile P ts) \<Longrightarrow> x \<in> fst ` set ts" "x \<in> fst ` set (dropWhile P ts) \<Longrightarrow> x \<in> fst ` set ts"
    for P :: "u32 \<times> sim_time \<Rightarrow> bool" and x
    by (auto dest: set_takeWhileD set_dropWhileD)
  then show ?thesis
    using d [of "\<lambda>x. snd x \<le> t"] assms
    by (cases "s \<in> fst ` set ts") (auto simp: timeouts_insert_def dest: set_takeWhileD set_dropWhileD rev_image_eqI)
qed

lemma sorted_timeouts_insert:
  assumes "sorted (map snd ts)"
  shows "sorted (map snd (timeouts_insert s t ts))"
proof -
  let ?P = "\<lambda>x. snd x \<le> t"
  have split: "sorted (map snd (takeWhile ?P ts) @ map snd (dropWhile ?P ts))"
    using assms by (simp flip: map_append)
  have "\<forall>x \<in> set (dropWhile ?P ts). t \<le> snd x"
  proof (cases "dropWhile ?P ts")
    case (Cons y ys)
    then have "t < snd y" using hd_dropWhile [of ?P ts] by auto
    moreover have "sorted (map snd (y # ys))" using split Cons by (simp add: sorted_append)
    ultimately show ?thesis using Cons by auto
  next
    case Nil
    then show ?thesis by (simp only: list.set ball_empty)
  qed
  moreover have "\<forall>x \<in> set (takeWhile ?P ts). snd x \<le> t" by (auto dest: set_takeWhileD)
  ultimately show ?thesis
    using split assms by (fastforce simp: timeouts_insert_def sorted_append)
qed

lemma sorted_timeouts_erase: "sorted (map snd ts) \<Longrightarrow> sorted (map snd (timeouts_erase s ts))"
  by (simp add: timeouts_erase_def sorted_filter)

lemma timeouts_erase_seqs: "fst ` set (timeouts_erase s ts) = fst ` set ts - {s}"
  by (auto simp: timeouts_erase_def)

lemma distinct_timeouts_erase: "distinct (map fst ts) \<Longrightarrow> distinct (map fst (timeouts_erase s ts))"
  by (simp add: timeouts_erase_def distinct_map_filter)

text \<open>What \<^verbatim>\<open>OnData\<close> does when it returns: nothing but counting while the application is
  stopped, otherwise it settles the sequence number of the Data.\<close>

lemma consumer_OnData_cases:
  assumes "consumer_OnData env d c = Inr c'"
  shows "\<exists>sat. fset (c_seqSatisfied c) \<subseteq> fset sat \<and> c_seqSatisfied c' = sat \<and>
    c_seq c' = c_seq c \<and> c_seqMax c' = c_seqMax c \<and> c_seqFirstSent c' = c_seqFirstSent c \<and>
    c_interests c' = c_interests c \<and> c_interestName c' = c_interestName c \<and>
    (c_rtt c' = c_rtt c \<and> c_seqTimeouts c' = c_seqTimeouts c \<and> c_retxSeqs c' = c_retxSeqs c \<or>
     (\<exists>s. s |\<in>| sat \<and> c_seqTimeouts c' = timeouts_erase s (c_seqTimeouts c) \<and> c_retxSeqs c' = c_retxSeqs c |-| {|s|} \<and>
        c_rtt c' = rtt_Reset (AckSeq env (Now (c_sim c)) s (c_rtt c))))"
proof -
  let ?nm = "d_name d" and ?new = "getPrefix (d_name d) (int (length (d_name d)) - 1)"
  show ?thesis
  proof (cases "2 \<le> length ?nm")
    case True
    have "int (length ?nm) - 1 = int (length ?nm - 1)" using True by simp
    then have new: "?new = take (length ?nm - 1) ?nm" by (simp only: getPrefix_take)
    have "name_at ?new (- 1) = name_at ?nm (- 2)"
      using True by (auto simp: new name_at_def nat_diff_distrib' nth_append)
    moreover obtain n where "bind_exn (name_at ?nm (- 2)) toSequenceNumber = Inr n"
      using assms True by (cases "bind_exn (name_at ?nm (- 2)) toSequenceNumber")
        (auto simp: consumer_OnData_def Let_def)
    ultimately show ?thesis
      using assms True
      by (auto simp: consumer_OnData_def Consumer_OnData_def Let_def split: if_splits)
  next
    case False
    then have "?new = []" by (cases ?nm) (auto simp: getPrefix_def getSubName_def)
    then have "name_at ?new (- 1) = Inl TlvError" by (simp add: name_at_def)
    then show ?thesis
      using assms False by (auto simp: consumer_OnData_def Consumer_OnData_def Let_def split: if_splits)
  qed
qed

section \<open>Invariant of the requests\<close>

text \<open>Every number requested is outstanding, queued for retransmission, or satisfied; \<open>S\<close> holds
  the number that has been picked and is not sent yet.\<close>

definition requests_but :: "u32 set \<Rightarrow> u32 \<Rightarrow> consumer \<Rightarrow> bool" where
  "requests_but S s0 c \<longleftrightarrow> s0 \<le> c_seq c \<and> c_seq c \<le> c_seqMax c \<and>
     S \<subseteq> {s0..<c_seq c} \<and> S \<inter> fset (c_retxSeqs c) = {} \<and>
     fset (fmdom (c_seqFirstSent c)) \<union> S = {s0..<c_seq c} \<and>
     fst ` set (c_seqTimeouts c) \<subseteq> {s0..<c_seq c} \<and> fset (c_retxSeqs c) \<subseteq> {s0..<c_seq c} \<and>
     fst ` set (c_seqTimeouts c) \<inter> fset (c_retxSeqs c) = {} \<and> distinct (map fst (c_seqTimeouts c)) \<and> sorted (map snd (c_seqTimeouts c)) \<and>
     {s0..<c_seq c} \<subseteq> fst ` set (c_seqTimeouts c) \<union> fset (c_retxSeqs c) \<union> fset (c_seqSatisfied c) \<union> S \<and>
     si_name ` set (c_interests c) \<subseteq> (\<lambda>s. c_interestName c @ [fromSequenceNumber (ucast s)]) ` {s0..<c_seq c}"

abbreviation requests_ok :: "u32 \<Rightarrow> consumer \<Rightarrow> bool" where
  "requests_ok \<equiv> requests_but {}"

lemma requests_ok_cong:
  assumes "c_seq c' = c_seq c" "c_seqMax c' = c_seqMax c" "c_seqFirstSent c' = c_seqFirstSent c"
    "c_seqTimeouts c' = c_seqTimeouts c" "c_retxSeqs c' = c_retxSeqs c" "c_seqSatisfied c' = c_seqSatisfied c"
    "c_interests c' = c_interests c" "c_interestName c' = c_interestName c"
  shows "requests_ok s0 c' = requests_ok s0 c"
  using assms by (simp add: requests_but_def)

lemma requests_ok_Schedule [simp]: "requests_ok s0 (ScheduleNextPacket env c) = requests_ok s0 c"
  by (rule requests_ok_cong) simp_all

lemma requests_ok_configure [simp]:
  "requests_ok s0 (SetRetxTimer d c) = requests_ok s0 c" "requests_ok s0 (SetRandomize v c) = requests_ok s0 c"
  by (rule requests_ok_cong; simp)+ (simp add: requests_but_def SetRandomize_def)

lemma requests_ok_sim [simp]: "requests_ok s0 (c\<lparr>c_sim := sm\<rparr>) = requests_ok s0 c"
  by (rule requests_ok_cong) simp_all

lemma requests_ok_timeout:
  assumes "requests_ok s0 c" and "c_seqTimeouts c = (s, t) # ts"
  shows "requests_ok s0 (OnTimeout env s (c\<lparr>c_seqTimeouts := ts\<rparr>))"
  using assms unfolding requests_but_def by auto

lemma requests_ok_check_loop: "requests_ok s0 c \<Longrightarrow> requests_ok s0 (check_loop env rto c)"
proof (induction env rto c rule: check_loop.induct)
  case (1 env rto c)
  show ?case
  proof (cases "c_seqTimeouts c")
    case Nil
    then show ?thesis using 1(2) by (simp add: check_loop.simps)
  next
    case (Cons x ts)
    then show ?thesis
      using 1 requests_ok_timeout [OF 1(2), of "fst x" "snd x" ts env]
      by (cases x) (simp add: check_loop.simps [of env rto c])
  qed
qed

lemma requests_ok_CheckRetxTimeout:
  assumes "requests_ok s0 c"
  shows "requests_ok s0 (CheckRetxTimeout env c)"
proof -
  have "requests_ok s0 (check_loop env rto c)" for rto by (rule requests_ok_check_loop [OF assms])
  then show ?thesis
    by (simp add: CheckRetxTimeout_def consumer_schedule_def Let_def case_prod_beta)
      (simp add: requests_but_def)
qed

text \<open>Sending the number that was picked.\<close>

lemma requests_ok_transmit:
  assumes "requests_but {s} s0 c"
  shows "requests_ok s0 (transmit env s c)"
proof -
  have names: "si_name ` set (c_interests (transmit env s c)) =
      insert (c_interestName c @ [fromSequenceNumber (ucast s)]) (si_name ` set (c_interests c))"
    using transmit_frame(9) [of env s c, THEN arg_cong [of _ _ set]] by (simp del: transmit_frame)
  have first: "fset (fmdom (c_seqFirstSent (transmit env s c))) = insert s (fset (fmdom (c_seqFirstSent c)))"
    by (auto simp: fmdom_notD dest: fmdomI)
  show ?thesis
    using assms unfolding requests_but_def unfolding names first unfolding transmit_frame timeouts_insert_seqs
    by (auto simp: distinct_timeouts_insert sorted_timeouts_insert)
qed

lemma u32_le_max: "x \<le> 0xffffffff" for x :: u32
proof -
  have "unat x < 2 ^ 32" using unsigned_less [of x] by simp
  then show ?thesis by (simp add: word_le_nat_alt)
qed

lemma u32_next:
  fixes x :: u32
  assumes "x \<le> x + 1"
  shows "unat (x + 1) = Suc (unat x)"
proof -
  have "Suc (unat x) \<le> 2 ^ 32" using u32_le_max [of x] by (simp add: word_le_nat_alt)
  moreover have "unat x \<le> Suc (unat x) mod 2 ^ 32"
    using assms by (simp add: word_le_nat_alt unat_word_ariths)
  ultimately show ?thesis by (cases "Suc (unat x) = 2 ^ 32") (simp_all add: unat_word_ariths)
qed

text \<open>A new number is the next one; \<open>c_seq\<close> is 32 bits wide and starts over after
  \<open>0xffffffff\<close> when no maximum is configured, which the second premise excludes.\<close>

lemma requests_ok_pick:
  assumes ok: "requests_ok s0 c" and p: "pick_seq c = (r, c')" and up: "c_seq c \<le> c_seq c'"
  shows "case r of None \<Rightarrow> requests_ok s0 c' | Some s \<Rightarrow> requests_but {s} s0 c'"
proof -
  note top = u32_le_max
  then have max: "s \<noteq> 0xffffffff" if "s < c_seq c" for s using that by (metis not_less)
  show ?thesis
  proof (cases "c_retxSeqs c = {||}")
    case True
    have next_seq: "{s0..<c_seq c + 1} = insert (c_seq c) {s0..<c_seq c}" "c_seq c + 1 \<le> c_seqMax c" "s0 \<le> c_seq c + 1"
      if "c_seq c \<le> c_seq c + 1" "c_seqMax c = 0xffffffff \<or> c_seq c < c_seqMax c" "s0 \<le> c_seq c"
      using that u32_next [of "c_seq c"] top [of "c_seq c + 1"]
      by (auto simp: word_le_nat_alt word_less_nat_alt less_Suc_eq word_unat_eq_iff)
    show ?thesis
    proof (cases "c_seqMax c \<noteq> 0xffffffff \<and> c_seqMax c \<le> c_seq c")
      case True
      then show ?thesis using ok p \<open>c_retxSeqs c = {||}\<close> by (auto simp: pick_seq_def)
    next
      case False
      then have r: "r = Some (c_seq c)" "c' = c\<lparr>c_seq := c_seq c + 1\<rparr>"
        using p \<open>c_retxSeqs c = {||}\<close> by (auto simp: pick_seq_def)
      have "s0 \<le> c_seq c" using ok by (simp add: requests_but_def)
      then have "{s0..<c_seq c + 1} = insert (c_seq c) {s0..<c_seq c}" "c_seq c + 1 \<le> c_seqMax c" "s0 \<le> c_seq c + 1"
        using next_seq False up linorder_not_le [of "c_seqMax c" "c_seq c"] unfolding r by simp_all
      then show ?thesis using ok \<open>c_retxSeqs c = {||}\<close> unfolding requests_but_def by (auto simp: r)
    qed
  next
    case False
    define m where "m = Min (fset (c_retxSeqs c))"
    have "fset (c_retxSeqs c) \<noteq> {}" using False by (metis bot_fset.rep_eq fset_inject)
    then have m: "m |\<in>| c_retxSeqs c" using Min_in [of "fset (c_retxSeqs c)"] by (simp add: m_def)
    then have range: "m \<in> {s0..<c_seq c}" using ok unfolding requests_but_def by blast
    then have "r = Some m" "c' = c\<lparr>c_retxSeqs := c_retxSeqs c |-| {|m|}\<rparr>"
      using p False max [of m] by (auto simp: pick_seq_def Let_def m_def)
    moreover have "requests_but {m} s0 (c\<lparr>c_retxSeqs := c_retxSeqs c |-| {|m|}\<rparr>)"
      using ok m range unfolding requests_but_def by (simp, blast)
    ultimately show ?thesis by simp
  qed
qed

lemma requests_ok_SendPacket:
  assumes "requests_ok s0 c" and "c_seq c \<le> c_seq (SendPacket env c)"
  shows "requests_ok s0 (SendPacket env c)"
proof (cases "c_active c")
  case True
  obtain r c' where p: "pick_seq c = (r, c')" by fastforce
  then have "c_seq (SendPacket env c) = c_seq c'" using True by (simp add: SendPacket_def split: option.splits)
  with assms have "case r of None \<Rightarrow> requests_ok s0 c' | Some s \<Rightarrow> requests_but {s} s0 c'"
    using requests_ok_pick [OF assms(1) p] by simp
  then show ?thesis using p True by (auto simp: SendPacket_def intro: requests_ok_transmit split: option.splits)
qed (use assms in \<open>simp add: SendPacket_def\<close>)

lemma requests_ok_OnData:
  assumes "requests_ok s0 c" and "consumer_OnData env d c = Inr c'"
  shows "requests_ok s0 c'"
proof -
  obtain sat where sat: "fset (c_seqSatisfied c) \<subseteq> fset sat" "c_seqSatisfied c' = sat"
    and same: "c_seq c' = c_seq c" "c_seqMax c' = c_seqMax c" "c_seqFirstSent c' = c_seqFirstSent c"
      "c_interests c' = c_interests c" "c_interestName c' = c_interestName c"
    and upd: "c_seqTimeouts c' = c_seqTimeouts c \<and> c_retxSeqs c' = c_retxSeqs c \<or>
      (\<exists>s. s |\<in>| sat \<and> c_seqTimeouts c' = timeouts_erase s (c_seqTimeouts c) \<and> c_retxSeqs c' = c_retxSeqs c |-| {|s|})"
    using consumer_OnData_cases [OF assms(2)] by blast
  from upd show ?thesis
  proof (elim disjE exE conjE)
    fix s assume "s |\<in>| sat" "c_seqTimeouts c' = timeouts_erase s (c_seqTimeouts c)" "c_retxSeqs c' = c_retxSeqs c |-| {|s|}"
    then show ?thesis
      using assms(1) sat same unfolding requests_but_def
      by (auto simp: timeouts_erase_seqs distinct_timeouts_erase sorted_timeouts_erase)
  qed (use assms(1) sat same in \<open>auto simp: requests_but_def\<close>)
qed

definition consumer_start :: "u32 \<Rightarrow> consumer \<Rightarrow> bool" where
  "consumer_start s0 c \<longleftrightarrow> c_seq c = s0 \<and> s0 \<le> c_seqMax c \<and> c_retxSeqs c = {||} \<and> c_seqTimeouts c = [] \<and>
     c_seqFirstSent c = fmempty \<and> c_interests c = [] \<and> pristine (c_rtt c)"

abbreviation consumer_up :: "app_env \<Rightarrow> consumer \<Rightarrow> consumer \<Rightarrow> bool" where
  "consumer_up env c c' \<equiv> consumer_step env c c' \<and> c_seq c \<le> c_seq c'"

interpretation request_system: invariant_system "consumer_start s0" "consumer_up env" "requests_ok s0" for s0 env
proof
  show "requests_ok s0 c" if "consumer_start s0 c" for c
    using that by (simp add: consumer_start_def requests_but_def)
  show "requests_ok s0 c'" if "requests_ok s0 c" "consumer_up env c c'" for c c'
    using that(2)
  proof (elim conjE consumer_stepE)
    fix a sm assume c': "c' = run_consumer env a (c\<lparr>c_sim := sm\<rparr>)" and up: "c_seq c \<le> c_seq c'"
    show ?thesis
    proof (cases a)
      case SendPacket_act
      then show ?thesis using c' up that(1) requests_ok_SendPacket [of s0 "c\<lparr>c_sim := sm\<rparr>" env] by simp
    next
      case CheckRetxTimeout_act
      then show ?thesis using c' that(1) by (simp add: requests_ok_CheckRetxTimeout)
    qed
  next
    assume "c' = consumer_StartApplication env c"
    then show ?thesis using that(1) by (simp add: consumer_StartApplication_def requests_but_def)
  next
    assume "c' = consumer_StopApplication c"
    then show ?thesis using that(1) by (simp add: consumer_StopApplication_def Let_def requests_but_def)
  qed (use that(1) requests_ok_OnData in \<open>auto simp del: requests_but_def\<close>)
qed

section \<open>A run that sends one request\<close>

definition sample_app_env :: app_env where
  "sample_app_env = env.extend sample_env \<lparr>ae_interval = (\<lambda>_. 1)\<rparr>"

definition sample_consumer :: consumer where
  "sample_consumer = consumer_StartApplication sample_app_env (consumer_new [component_of_string ''alice''])"

definition asking_consumer :: consumer where
  "asking_consumer = SendPacket sample_app_env
     (sample_consumer\<lparr>c_sim := snd (the (ProcessOneEvent (c_sim sample_consumer)))\<rparr>)"

lemma consumer_new_start: "consumer_start 0 (consumer_new nm)"
  by (simp add: consumer_start_def consumer_new_def pristine_new)

lemma asking_consumer_steps:
  "consumer_up sample_app_env (consumer_new [component_of_string ''alice'']) sample_consumer"
  "consumer_up sample_app_env sample_consumer asking_consumer"
proof -
  show "consumer_up sample_app_env (consumer_new [component_of_string ''alice'']) sample_consumer"
    unfolding sample_consumer_def
    by (rule conjI, rule start_app) (simp add: consumer_StartApplication_def)
  have pop: "ProcessOneEvent (c_sim sample_consumer) =
      Some (Some SendPacket_act, snd (the (ProcessOneEvent (c_sim sample_consumer))))"
    by (simp add: sample_consumer_def consumer_StartApplication_def ScheduleNextPacket_def consumer_new_def
        consumer_schedule_def Schedule_def sim_init_def ProcessOneEvent_def Let_def)
  have "consumer_step sample_app_env sample_consumer asking_consumer"
    using run_event [OF pop, of sample_app_env] by (simp add: asking_consumer_def)
  moreover have "c_seq sample_consumer = 0"
    by (simp add: sample_consumer_def consumer_StartApplication_def consumer_new_def)
  ultimately show "consumer_up sample_app_env sample_consumer asking_consumer" by simp
qed

lemma asking_consumer_reach: "reach (consumer_start 0) (consumer_up sample_app_env) asking_consumer"
proof -
  have "reach (consumer_start 0) (consumer_up sample_app_env) (consumer_new [component_of_string ''alice''])"
    by (rule reach_start) (rule consumer_new_start)
  then have "reach (consumer_start 0) (consumer_up sample_app_env) sample_consumer"
    by (rule reach_step) (rule asking_consumer_steps)
  then show ?thesis by (rule reach_step) (rule asking_consumer_steps)
qed

lemma asking_consumer_simps: "c_seq asking_consumer = 1" "c_seqSatisfied asking_consumer = {||}"
  by (simp_all add: asking_consumer_def SendPacket_def pick_seq_def sample_consumer_def
      consumer_StartApplication_def) (simp_all add: ScheduleNextPacket_def consumer_new_def
        consumer_schedule_def Let_def case_prod_beta)

section \<open>Properties\<close>

text \<open>C24. The consumer never loses track of a request: at every moment the sequence numbers it has
  sent are exactly the consecutive ones from the start value, none beyond the configured maximum; each of them is
  outstanding, or queued for retransmission, or satisfied, never outstanding and queued at once;
  and every Interest it has sent carries one of these numbers.  (Runs in which the 32-bit counter starts
  over are left out.)\<close>

theorem no_request_forgotten:
  assumes "reach (consumer_start s0) (consumer_up env) c"
  shows "fset (fmdom (c_seqFirstSent c)) = {s0..<c_seq c} \<and> c_seq c \<le> c_seqMax c \<and>
    {s0..<c_seq c} \<subseteq> fst ` set (c_seqTimeouts c) \<union> fset (c_retxSeqs c) \<union> fset (c_seqSatisfied c) \<and>
    fst ` set (c_seqTimeouts c) \<inter> fset (c_retxSeqs c) = {} \<and>
    si_name ` set (c_interests c) \<subseteq> (\<lambda>s. c_interestName c @ [fromSequenceNumber (ucast s)]) ` {s0..<c_seq c}"
  using request_system.reachable_inv [OF assms] unfolding requests_but_def by simp

theorem no_request_forgotten_witness:
  "{0..<c_seq asking_consumer} \<noteq> {} \<and> (0 \<in> fst ` set (c_seqTimeouts asking_consumer) \<or> 0 |\<in>| c_retxSeqs asking_consumer)"
proof -
  have "0 \<in> {0..<c_seq asking_consumer}" by (simp add: asking_consumer_simps)
  moreover from this have "0 \<in> fst ` set (c_seqTimeouts asking_consumer) \<union> fset (c_retxSeqs asking_consumer) \<union>
      fset (c_seqSatisfied asking_consumer)"
    using no_request_forgotten [OF asking_consumer_reach] by blast
  ultimately show ?thesis using asking_consumer_simps(2) by auto
qed

text \<open>The retransmission check.\<close>

lemma OnTimeout_Now [simp]: "Now (c_sim (OnTimeout env s c)) = Now (c_sim c)"
  by (simp add: OnTimeout_def Consumer_OnTimeout_def ScheduleNextPacket_def consumer_schedule_def Schedule_def
      Now_def Let_def split: option.splits prod.splits)

lemma check_loop_spec:
  "c_seqTimeouts (check_loop env rto c) = dropWhile (\<lambda>x. snd x + rto \<le> Now (c_sim c)) (c_seqTimeouts c) \<and>
   fset (c_retxSeqs (check_loop env rto c)) =
     fset (c_retxSeqs c) \<union> fst ` set (takeWhile (\<lambda>x. snd x + rto \<le> Now (c_sim c)) (c_seqTimeouts c))"
proof (induction env rto c rule: check_loop.induct)
  case (1 env rto c)
  show ?case
  proof (cases "c_seqTimeouts c")
    case (Cons x ts)
    obtain s t where x: "x = (s, t)" by fastforce
    show ?thesis
    proof (cases "t + rto \<le> Now (c_sim c)")
      case True
      then show ?thesis using 1 [OF Cons x [symmetric] True] Cons x by (simp add: check_loop.simps [of env rto c])
    qed (simp add: check_loop.simps [of env rto c] Cons x)
  qed (simp add: check_loop.simps [of env rto c])
qed

lemma sorted_filter_dropWhile:
  fixes f :: "'a \<Rightarrow> int"
  assumes "sorted (map f xs)"
  shows "dropWhile (\<lambda>x. f x + r \<le> k) xs = filter (\<lambda>x. k < f x + r) xs"
    and "takeWhile (\<lambda>x. f x + r \<le> k) xs = filter (\<lambda>x. f x + r \<le> k) xs"
proof -
  have "(dropWhile (\<lambda>x. f x + r \<le> k) xs = filter (\<lambda>x. k < f x + r) xs) \<and>
      (takeWhile (\<lambda>x. f x + r \<le> k) xs = filter (\<lambda>x. f x + r \<le> k) xs)"
    using assms
  proof (induction xs)
    case (Cons x xs)
    have "k < f y + r" if "\<not> f x + r \<le> k" "y \<in> set xs" for y using Cons.prems that by force
    then show ?case using Cons by (auto simp: not_le filter_id_conv filter_empty_conv)
  qed simp
  then show "dropWhile (\<lambda>x. f x + r \<le> k) xs = filter (\<lambda>x. k < f x + r) xs"
    "takeWhile (\<lambda>x. f x + r \<le> k) xs = filter (\<lambda>x. f x + r \<le> k) xs" by simp_all
qed

text \<open>A retransmission check moves exactly the expired requests: afterwards the outstanding ones are those whose
  timeout has not elapsed yet, and the queue for retransmission holds what it held and every request whose timeout
  has elapsed.  The scan may stop at the first entry that has not expired because the container is ordered by time.\<close>

lemma expired_requests_requeued:
  assumes "reach (consumer_start s0) (consumer_up env) c"
  defines "expired \<equiv> \<lambda>t. t + RetransmitTimeout env (c_rtt c) \<le> Now (c_sim c)"
  shows "set (c_seqTimeouts (CheckRetxTimeout env c)) = {(s, t) \<in> set (c_seqTimeouts c). \<not> expired t} \<and>
    fset (c_retxSeqs (CheckRetxTimeout env c)) = fset (c_retxSeqs c) \<union> {s. \<exists>t. (s, t) \<in> set (c_seqTimeouts c) \<and> expired t}"
proof -
  define rto where "rto = RetransmitTimeout env (c_rtt c)"
  have "sorted (map snd (c_seqTimeouts c))"
    using request_system.reachable_inv [OF assms(1)] by (simp add: requests_but_def)
  note filters = sorted_filter_dropWhile [OF this]
  have "c_seqTimeouts (CheckRetxTimeout env c) = c_seqTimeouts (check_loop env rto c)"
    "c_retxSeqs (CheckRetxTimeout env c) = c_retxSeqs (check_loop env rto c)"
    by (simp_all add: CheckRetxTimeout_def consumer_schedule_def Let_def case_prod_beta rto_def)
  moreover have "set (filter (\<lambda>x. Now (c_sim c) < snd x + rto) (c_seqTimeouts c)) = {(s, t) \<in> set (c_seqTimeouts c). \<not> expired t}"
    "fst ` set (filter (\<lambda>x. snd x + rto \<le> Now (c_sim c)) (c_seqTimeouts c)) = {s. \<exists>t. (s, t) \<in> set (c_seqTimeouts c) \<and> expired t}"
    by (auto simp: expired_def rto_def image_iff)
  ultimately show ?thesis using check_loop_spec [of env rto c] unfolding filters by simp
qed

text \<open>Loss statistics as cardinalities.\<close>

lemma fold_count: "fold (\<lambda>(s, t) n. if P s t then n + 1 else n) xs k = k + of_nat (length (filter (\<lambda>(s, t). P s t) xs))"
  for k :: u32
  by (induction xs arbitrary: k) (auto simp: algebra_simps)

lemma fold_counts:
  "fold (\<lambda>(s, t) (a, b). if W t then (a + 1, if Q s then b + 1 else b) else (a, b)) xs (k, l) =
     (k + of_nat (length (filter (\<lambda>(s, t). W t) xs)), l + of_nat (length (filter (\<lambda>(s, t). W t \<and> Q s) xs)))"
  for k l :: u32
  by (induction xs arbitrary: k l) (auto simp: algebra_simps split: if_splits)

lemma count_entries:
  "length (filter (\<lambda>(s, t). P s t) (fmentries m)) = card {s. \<exists>t. fmlookup m s = Some t \<and> P s t}"
proof -
  have keys: "distinct (map fst (fmentries m))" by (simp add: fmentries_keys sorted_fset_list)
  then have "distinct (map fst (filter (\<lambda>(s, t). P s t) (fmentries m)))" by (rule distinct_map_filter)
  then have "length (filter (\<lambda>(s, t). P s t) (fmentries m)) = card (fst ` set (filter (\<lambda>(s, t). P s t) (fmentries m)))"
    using distinct_card [of "map fst (filter (\<lambda>(s, t). P s t) (fmentries m))"] by simp
  also have "fst ` set (filter (\<lambda>(s, t). P s t) (fmentries m)) = {s. \<exists>t. fmlookup m s = Some t \<and> P s t}"
    by (force simp: set_fmentries image_iff)
  finally show ?thesis .
qed

text \<open>The loss figures the consumer reports when it stops are the cardinalities they stand for: of the requests
  first sent in the window, how many there are and how many were never satisfied; over the whole run,
  how many of the requested sequence numbers were never satisfied, and each of these is still outstanding or
  waits for its retransmission.\<close>

lemma loss_figures:
  assumes "reach (consumer_start s0) (consumer_up env) c"
  shows "run_loss c = of_nat (card ({s0..<c_seq c} - fset (c_seqSatisfied c))) \<and>
    {s0..<c_seq c} - fset (c_seqSatisfied c) \<subseteq> fst ` set (c_seqTimeouts c) \<union> fset (c_retxSeqs c) \<and>
    (let sent = {s. \<exists>t. fmlookup (c_seqFirstSent c) s = Some t \<and>
            c_lossWindowStart c \<le> t \<and> t < c_lossWindowStart c + c_lossWindowLen c}
     in window_loss c = (of_nat (card sent), of_nat (card (sent - fset (c_seqSatisfied c)))))"
proof -
  have ok: "requests_ok s0 c" by (rule request_system.reachable_inv [OF assms])
  have "{s. \<exists>t. fmlookup (c_seqFirstSent c) s = Some t \<and> s |\<notin>| c_seqSatisfied c} =
      fset (fmdom (c_seqFirstSent c)) - fset (c_seqSatisfied c)"
    by (auto simp: fmlookup_dom_iff)
  then have "run_loss c = of_nat (card ({s0..<c_seq c} - fset (c_seqSatisfied c)))"
    using ok by (simp add: run_loss_def fold_count count_entries requests_but_def)
  moreover have "{s0..<c_seq c} - fset (c_seqSatisfied c) \<subseteq> fst ` set (c_seqTimeouts c) \<union> fset (c_retxSeqs c)"
    using ok unfolding requests_but_def by blast
  moreover define W where "W t \<longleftrightarrow> c_lossWindowStart c \<le> t \<and> t < c_lossWindowStart c + c_lossWindowLen c" for t
  have "{s. \<exists>t. fmlookup (c_seqFirstSent c) s = Some t \<and> W t \<and> s |\<notin>| c_seqSatisfied c} =
      {s. \<exists>t. fmlookup (c_seqFirstSent c) s = Some t \<and> W t} - fset (c_seqSatisfied c)"
    by auto
  then have "let sent = {s. \<exists>t. fmlookup (c_seqFirstSent c) s = Some t \<and> W t}
     in window_loss c = (of_nat (card sent), of_nat (card (sent - fset (c_seqSatisfied c))))"
    by (simp add: window_loss_def fold_counts count_entries Let_def W_def)
  ultimately show ?thesis by (simp only: W_def)
qed

text \<open>The estimator under the consumer.\<close>

definition rto_fixed :: "sim_time \<times> sim_time \<times> sim_time \<Rightarrow> consumer \<Rightarrow> bool" where
  "rto_fixed cfg c \<longleftrightarrow> pristine (c_rtt c) \<and> rtt_config (c_rtt c) = cfg"

lemma rto_fixed_check_loop: "rto_fixed cfg c \<Longrightarrow> rto_fixed cfg (check_loop env rto c)"
proof (induction env rto c rule: check_loop.induct)
  case (1 env rto c)
  then show ?case
    by (cases "c_seqTimeouts c") (auto simp: check_loop.simps [of env rto c] rto_fixed_def split: prod.splits)
qed

lemma rto_fixed_SendPacket: "rto_fixed cfg c \<Longrightarrow> rto_fixed cfg (SendPacket env c)"
  by (auto simp: SendPacket_def pick_seq_def rto_fixed_def Let_def split: option.splits prod.splits if_splits)

lemma rto_fixed_CheckRetxTimeout: "rto_fixed cfg c \<Longrightarrow> rto_fixed cfg (CheckRetxTimeout env c)"
  using rto_fixed_check_loop [of cfg c env]
  by (simp add: CheckRetxTimeout_def consumer_schedule_def Let_def case_prod_beta rto_fixed_def)

interpretation rto_system: invariant_system "\<lambda>c. consumer_start s0 c \<and> rtt_config (c_rtt c) = cfg"
  "consumer_step env" "rto_fixed cfg" for s0 cfg env
proof
  show "rto_fixed cfg c" if "consumer_start s0 c \<and> rtt_config (c_rtt c) = cfg" for c
    using that by (simp add: consumer_start_def rto_fixed_def)
  show "rto_fixed cfg c'" if "rto_fixed cfg c" "consumer_step env c c'" for c c'
    using that(2)
  proof (rule consumer_stepE)
    fix a sm assume "c' = run_consumer env a (c\<lparr>c_sim := sm\<rparr>)"
    moreover have "rto_fixed cfg (c\<lparr>c_sim := sm\<rparr>)" using that(1) by (simp add: rto_fixed_def)
    ultimately show ?thesis by (cases a) (simp_all add: rto_fixed_SendPacket rto_fixed_CheckRetxTimeout)
  next
    fix d assume "consumer_OnData env d c = Inr c'"
    from consumer_OnData_cases [OF this] show ?thesis using that(1) by (auto simp: rto_fixed_def)
  qed (use that(1) in \<open>auto simp: rto_fixed_def consumer_StartApplication_def consumer_StopApplication_def Let_def\<close>)
qed

text \<open>C36. The consumer's retransmission timeout never adapts: \<^verbatim>\<open>Consumer::OnData\<close> resets the
  estimator right after it has fed it a measurement, so that in every state the timeout is the one of a
  fresh estimator with the same attributes.\<close>

theorem rto_never_adapts:
  assumes "reach (\<lambda>c. consumer_start s0 c \<and> rtt_config (c_rtt c) = rtt_config r) (consumer_step env) c"
    and "pristine r"
  shows "RetransmitTimeout env (c_rtt c) = RetransmitTimeout env r"
  using rto_system.reachable_inv [OF assms(1)] assms(2)
  by (intro RetransmitTimeout_pristine) (simp_all add: rto_fixed_def)

theorem rto_never_adapts_witness:
  "c_seq asking_consumer \<noteq> 0 \<and> RetransmitTimeout sample_app_env (c_rtt asking_consumer) = RetransmitTimeout sample_app_env rtt_new"
proof -
  have start: "reach (\<lambda>c. consumer_start 0 c \<and> rtt_config (c_rtt c) = rtt_config rtt_new) (consumer_step sample_app_env)
      (consumer_new [component_of_string ''alice''])"
    by (rule reach_start) (simp add: consumer_new_start, simp add: consumer_new_def)
  have mid: "reach (\<lambda>c. consumer_start 0 c \<and> rtt_config (c_rtt c) = rtt_config rtt_new) (consumer_step sample_app_env)
      sample_consumer"
    by (rule reach_step, rule start) (simp add: asking_consumer_steps)
  have "reach (\<lambda>c. consumer_start 0 c \<and> rtt_config (c_rtt c) = rtt_config rtt_new) (consumer_step sample_app_env)
      asking_consumer"
    by (rule reach_step, rule mid) (simp add: asking_consumer_steps)
  from rto_never_adapts [OF this pristine_new] show ?thesis by (simp add: asking_consumer_simps)
qed

end
