(* ===== verification/Tlv_Blocks.thy ===== *)
theory Tlv_Blocks
  imports Names
begin

text \<open>
  TLV blocks (ndn-cxx \<^verbatim>\<open>encoding/block.cpp\<close>): reading a block from a buffer, the lazy parsing of its elements,
  looking them up, changing and encoding them again.  Shown: what is written is parsed back element by element;
  a buffer is consumed block by block; and what a parse that throws leaves behind.
\<close>

section \<open>Blocks\<close>

text \<open>A block points into a buffer: to its wire encoding, type and length included, and to its value.  A block that was
  made from a value has no wire encoding yet (\<open>b_wire\<close> is empty), one that was made from a type has no buffer at
  all.  The elements are filled in by \<^verbatim>\<open>parse\<close>.\<close>

datatype block = Block (b_type: u32) (b_wire: "byte list") (b_value: "byte list option") (b_elements: "block list")

definition block_empty :: block where
  "block_empty = Block (- 1) [] None []"

definition block_of_type :: "u32 \<Rightarrow> block" where
  "block_of_type t = Block t [] None []"

definition block_of_value :: "u32 \<Rightarrow> byte list \<Rightarrow> block" where
  "block_of_value t v = Block t [] (Some v) []"

definition isEmpty :: "block \<Rightarrow> bool" where
  "isEmpty b \<longleftrightarrow> b_type b = - 1"

definition hasWire :: "block \<Rightarrow> bool" where
  "hasWire b \<longleftrightarrow> b_value b \<noteq> None \<and> b_wire b \<noteq> []"

definition hasValue :: "block \<Rightarrow> bool" where
  "hasValue b \<longleftrightarrow> b_value b \<noteq> None"

definition block_value :: "block \<Rightarrow> byte list" where
  "block_value b = (case b_value b of None \<Rightarrow> [] | Some v \<Rightarrow> v)"

definition value_size :: "block \<Rightarrow> nat" where
  "value_size b = length (block_value b)"

definition block_size :: "block \<Rightarrow> exn + nat" where
  "block_size b =
     (if hasWire b then Inr (length (b_wire b))
      else if hasValue b
      then Inr (sizeOfVarNumber (unat (b_type b)) + sizeOfVarNumber (value_size b) + value_size b)
      else Inl TlvError)"

text \<open>Reading type and length; \<open>None\<close> stands for the exception.\<close>

definition read_header :: "byte list \<Rightarrow> (u32 \<times> nat \<times> byte list) option" where
  "read_header bs =
     (case readType bs of
        None \<Rightarrow> None
      | Some (t, r) \<Rightarrow>
          (case readVarNumber r of None \<Rightarrow> None | Some (len, r') \<Rightarrow> Some (of_nat t, len, r')))"

text \<open>The constructor from a range of a buffer, which has to be exactly one block unless \<open>verifyLength\<close> is off.\<close>

definition block_of_wire :: "byte list \<Rightarrow> bool \<Rightarrow> exn + block" where
  "block_of_wire bs verifyLength =
     (case read_header bs of
        None \<Rightarrow> Inl TlvError
      | Some (t, len, v) \<Rightarrow>
          if verifyLength \<and> len \<noteq> length v then Inl TlvError else Inr (Block t bs (Some v) []))"

text \<open>The constructor from the front of a buffer.\<close>

definition block_of_buffer :: "byte list \<Rightarrow> exn + block" where
  "block_of_buffer bs =
     (case read_header bs of
        None \<Rightarrow> Inl TlvError
      | Some (t, len, r) \<Rightarrow>
          if len > length r then Inl TlvError
          else Inr (Block t (take (length bs - length r + len) bs) (Some (take len r)) []))"

definition fromBuffer :: "byte list \<Rightarrow> nat \<Rightarrow> bool \<times> block" where
  "fromBuffer buffer offset =
     (let bs = drop offset buffer in
      case readType bs of
        None \<Rightarrow> (False, block_empty)
      | Some (t, r1) \<Rightarrow>
          (case readVarNumber r1 of
             None \<Rightarrow> (False, block_empty)
           | Some (len, r) \<Rightarrow>
               if len > length r then (False, block_empty)
               else (True, Block (of_nat t) (take (length bs - length r + len) bs) (Some (take len r)) [])))"

definition resetWire :: "block \<Rightarrow> block" where
  "resetWire b = Block (b_type b) [] None (b_elements b)"

section \<open>Elements\<close>

lemma read_be_rest: "read_be k bs = Some (n, r) \<Longrightarrow> \<exists>us. bs = us @ r \<and> length us = k"
  by (auto simp: read_be_def split: if_splits intro!: exI [of _ "take k bs"])

lemma readVarNumber_rest: "readVarNumber bs = Some (n, r) \<Longrightarrow> \<exists>us. us \<noteq> [] \<and> bs = us @ r"
proof (cases bs)
  case (Cons b bs')
  assume "readVarNumber bs = Some (n, r)"
  then have "bs' = r \<or> (\<exists>k. read_be k bs' = Some (n, r))"
    using Cons by (auto split: if_splits)
  then obtain us where "bs' = us @ r" using read_be_rest by fastforce
  then show ?thesis using Cons by (intro exI [of _ "b # us"]) simp
qed simp

lemma readType_rest: "readType bs = Some (n, r) \<Longrightarrow> \<exists>us. us \<noteq> [] \<and> bs = us @ r"
  by (rule readVarNumber_rest) (auto simp: readType_def split: option.splits if_splits)

lemma read_header_rest:
  assumes "read_header bs = Some (t, len, r)"
  shows "\<exists>us. us \<noteq> [] \<and> bs = us @ r"
proof -
  obtain t' r' where h: "readType bs = Some (t', r')" "readVarNumber r' = Some (len, r)"
    using assms by (auto simp: read_header_def split: option.splits)
  obtain us vs where "us \<noteq> []" "bs = us @ r'" "r' = vs @ r"
    using readType_rest [OF h(1)] readVarNumber_rest [OF h(2)] by blast
  then show ?thesis by (intro exI [of _ "us @ vs"]) simp
qed

lemma read_header_shorter: "read_header bs = Some (t, len, r) \<Longrightarrow> length r < length bs"
  using read_header_rest by fastforce

text \<open>The loop of \<^verbatim>\<open>parse\<close>.  A length that exceeds the buffer clears the elements found so far; a type or a
  length that cannot be read does not.\<close>

function parse_loop :: "byte list \<Rightarrow> block list \<Rightarrow> exn option \<times> block list" where
  "parse_loop bs elements =
     (if bs = [] then (None, elements)
      else case read_header bs of
        None \<Rightarrow> (Some TlvError, elements)
      | Some (t, len, r) \<Rightarrow>
          if len > length r then (Some TlvError, [])
          else parse_loop (drop len r)
                 (elements @ [Block t (take (length bs - length r + len) bs) (Some (take len r)) []]))"
  by auto
termination
  by (relation "measure (length \<circ> fst)") (auto dest: read_header_shorter)

definition parse :: "block \<Rightarrow> exn option \<times> block" where
  "parse b =
     (if b_elements b \<noteq> [] \<or> value_size b = 0 then (None, b)
      else let (e, elements) = parse_loop (block_value b) []
           in (e, Block (b_type b) (b_wire b) (b_value b) elements))"

text \<open>A client of \<^verbatim>\<open>parse\<close> sees the exception or the block with its elements.\<close>

definition parsed :: "block \<Rightarrow> exn + block" where
  "parsed b = (case parse b of (None, b') \<Rightarrow> Inr b' | (Some e, _) \<Rightarrow> Inl e)"

definition block_find :: "u32 \<Rightarrow> block \<Rightarrow> block option" where
  "block_find t b = find (\<lambda>subBlock. b_type subBlock = t) (b_elements b)"

definition block_get :: "u32 \<Rightarrow> block \<Rightarrow> exn + block" where
  "block_get t b = (case block_find t b of Some e \<Rightarrow> Inr e | None \<Rightarrow> Inl TlvError)"

definition block_remove :: "u32 \<Rightarrow> block \<Rightarrow> block" where
  "block_remove t b =
     (let b = resetWire b in
      Block (b_type b) (b_wire b) (b_value b) (filter (\<lambda>subBlock. b_type subBlock \<noteq> t) (b_elements b)))"

definition block_push_back :: "block \<Rightarrow> block \<Rightarrow> block" where
  "block_push_back element b =
     (let b = resetWire b in Block (b_type b) (b_wire b) (b_value b) (b_elements b @ [element]))"

definition blockFromValue :: "block \<Rightarrow> exn + block" where
  "blockFromValue b =
     (if value_size b = 0 then Inl TlvError
      else case read_header (block_value b) of
        None \<Rightarrow> Inl TlvError
      | Some (t, len, r) \<Rightarrow>
          if len \<noteq> length r then Inl TlvError else Inr (Block t (block_value b) (Some r) []))"

text \<open>\<^verbatim>\<open>encode\<close>.  The sizes of the elements are added up before any of them is written.\<close>

fun sum_sizes :: "block list \<Rightarrow> exn + nat" where
  "sum_sizes [] = Inr 0"
| "sum_sizes (b # bs) = bind_exn (block_size b) (\<lambda>n. bind_exn (sum_sizes bs) (\<lambda>m. Inr (n + m)))"

definition write_block :: "block \<Rightarrow> byte list" where
  "write_block b =
     (if hasWire b then b_wire b
      else writeVarNumber (unat (b_type b)) @ writeVarNumber (value_size b) @ block_value b)"

definition block_encode :: "block \<Rightarrow> exn + block" where
  "block_encode b =
     (if hasWire b then Inr b
      else bind_exn
        (if hasValue b then Inr (writeVarNumber (value_size b) @ block_value b)
         else if b_elements b = [] then Inr (writeVarNumber 0)
         else bind_exn (sum_sizes (b_elements b))
                (\<lambda>valueSize. Inr (writeVarNumber valueSize @ concat (map write_block (b_elements b)))))
        (\<lambda>rest. let os = writeVarNumber (unat (b_type b)) @ rest in
           case read_header os of
             None \<Rightarrow> Inl TlvError
           | Some (_, _, v) \<Rightarrow> Inr (Block (b_type b) os (Some v) (b_elements b))))"

text \<open>\<^verbatim>\<open>operator==\<close>: equal sizes and equal bytes.\<close>

definition block_equals :: "block \<Rightarrow> block \<Rightarrow> exn + bool" where
  "block_equals a b =
     bind_exn (block_size a) (\<lambda>n. bind_exn (block_size b) (\<lambda>m.
       if n \<noteq> m then Inr False
       else if hasWire a \<and> hasWire b then Inr (b_wire a = b_wire b)
       else Inl TlvError))"

section \<open>Well-formed blocks\<close>

text \<open>The encoding with the shortest numbers, and the block it makes.\<close>

definition tlv :: "u32 \<Rightarrow> byte list \<Rightarrow> byte list" where
  "tlv t v = writeVarNumber (unat t) @ writeVarNumber (length v) @ v"

definition tlv_block :: "u32 \<Rightarrow> byte list \<Rightarrow> block" where
  "tlv_block t v = Block t (tlv t v) (Some v) []"

text \<open>A block whose wire encoding is its own; the numbers need not be the shortest.\<close>

definition wire_ok :: "block \<Rightarrow> bool" where
  "wire_ok b \<longleftrightarrow> block_of_wire (b_wire b) True = Inr b"

lemma readVarNumber_append: "readVarNumber bs = Some (n, r) \<Longrightarrow> readVarNumber (bs @ xs) = Some (n, r @ xs)"
  by (cases bs) (auto simp: read_be_def split: if_splits)

lemma readType_append: "readType bs = Some (n, r) \<Longrightarrow> readType (bs @ xs) = Some (n, r @ xs)"
  by (auto simp: readType_def readVarNumber_append split: option.splits if_splits)

lemma read_header_append: "read_header bs = Some (t, len, r) \<Longrightarrow> read_header (bs @ xs) = Some (t, len, r @ xs)"
  by (auto simp: read_header_def readType_append readVarNumber_append split: option.splits)

lemma unat_type_less [simp]: "unat (t :: u32) < 4294967296"
  using unsigned_less [where 'a = nat, of t] by simp

lemma read_header_tlv:
  assumes "length v < 2 ^ 64"
  shows "read_header (tlv t v @ rest) = Some (t, length v, v @ rest)"
proof -
  have "readType (tlv t v @ rest) = Some (unat t, writeVarNumber (length v) @ v @ rest)"
    using unat_type_less [of t]
    by (simp add: readType_def tlv_def readVarNumber_writeVarNumber not_less less_Suc_eq_le [symmetric] del: unat_type_less)
  then show ?thesis
    using assms by (simp add: read_header_def readVarNumber_writeVarNumber)
qed

lemma wire_ok_header:
  assumes "wire_ok b"
  shows "\<exists>v. b_value b = Some v \<and> b_elements b = [] \<and> b_wire b \<noteq> [] \<and> length v < length (b_wire b) \<and>
    (\<forall>rest. read_header (b_wire b @ rest) = Some (b_type b, length v, v @ rest))"
proof -
  obtain t v where h: "read_header (b_wire b) = Some (t, length v, v)" and b: "b = Block t (b_wire b) (Some v) []"
    using assms unfolding wire_ok_def block_of_wire_def by (auto split: option.splits if_splits)
  have "b_wire b \<noteq> []" using read_header_shorter [OF h] by auto
  then show ?thesis
    using b read_header_append [OF h] read_header_shorter [OF h] by (metis block.sel)
qed

lemma wire_ok_hasWire [simp]: "wire_ok b \<Longrightarrow> hasWire b"
  using wire_ok_header by (fastforce simp: hasWire_def)

lemma wire_ok_tlv: "length v < 2 ^ 64 \<Longrightarrow> wire_ok (tlv_block t v)"
  using read_header_tlv [of v t "[]"] by (simp add: wire_ok_def block_of_wire_def tlv_block_def)

declare parse_loop.simps [simp del]

lemma parse_loop_ok:
  assumes "wire_ok b"
  shows "parse_loop (b_wire b @ rest) acc = parse_loop rest (acc @ [b])"
proof -
  obtain v where v: "b_value b = Some v" "b_elements b = []" "b_wire b \<noteq> []" "length v < length (b_wire b)"
    "read_header (b_wire b @ rest) = Some (b_type b, length v, v @ rest)"
    using wire_ok_header [OF assms] by blast
  have b: "Block (b_type b) (b_wire b) (Some v) [] = b" using v by (cases b) simp
  show ?thesis
    using v b by (subst parse_loop.simps) simp
qed

lemma parse_loop_all: "list_all wire_ok bs \<Longrightarrow> parse_loop (concat (map b_wire bs)) acc = (None, acc @ bs)"
  by (induction bs arbitrary: acc) (auto simp: parse_loop_ok parse_loop.simps [of "[]"])

lemma concat_wires_empty: "list_all wire_ok bs \<Longrightarrow> concat (map b_wire bs) = [] \<longleftrightarrow> bs = []"
  using wire_ok_header by (cases bs) fastforce+

text \<open>The elements of a block are parsed back as they were written.\<close>

lemma parsed_elements:
  assumes "list_all wire_ok bs"
  shows "parsed (Block t w (Some (concat (map b_wire bs))) []) = Inr (Block t w (Some (concat (map b_wire bs))) bs)"
  using assms parse_loop_all [of bs "[]"] concat_wires_empty [of bs]
  by (auto simp: parsed_def parse_def value_size_def block_value_def)

lemma parsed_tlv_block:
  "list_all wire_ok bs \<Longrightarrow>
   parsed (tlv_block t (concat (map b_wire bs))) = Inr (Block t (tlv t (concat (map b_wire bs))) (Some (concat (map b_wire bs))) bs)"
  by (simp add: tlv_block_def parsed_elements)

text \<open>What \<^verbatim>\<open>encode\<close> writes for a block with elements is parsed back to them.\<close>

lemma write_block_ok [simp]: "wire_ok b \<Longrightarrow> write_block b = b_wire b"
  by (simp add: write_block_def)

lemma sum_sizes_ok: "list_all wire_ok bs \<Longrightarrow> sum_sizes bs = Inr (length (concat (map b_wire bs)))"
  by (induction bs) (simp_all add: block_size_def)

lemma block_encode_elements:
  assumes "list_all wire_ok bs" and "length (concat (map b_wire bs)) < 2 ^ 64"
  shows "block_encode (Block t [] None bs) =
    Inr (Block t (tlv t (concat (map b_wire bs))) (Some (concat (map b_wire bs))) bs)"
proof -
  have w: "map write_block bs = map b_wire bs" using assms(1) by (auto simp: list_all_iff)
  show ?thesis
    using read_header_tlv [OF assms(2), of t "[]"] sum_sizes_ok [OF assms(1)]
    by (cases "bs = []") (simp_all add: block_encode_def hasWire_def hasValue_def w tlv_def)
qed

lemma block_encode_value:
  "length v < 2 ^ 64 \<Longrightarrow> block_encode (block_of_value t v) = Inr (tlv_block t v)"
  using read_header_tlv [of v t "[]"]
  by (simp add: block_encode_def block_of_value_def hasWire_def hasValue_def value_size_def block_value_def
      tlv_block_def tlv_def)

text \<open>A range of a buffer that was accepted as a block is that block wherever it stands.\<close>

lemma fromBuffer_block:
  assumes "wire_ok b"
  shows "fromBuffer (pre @ b_wire b @ rest) (length pre) = (True, b)"
proof -
  obtain v where v: "b_value b = Some v" "b_elements b = []" "length v < length (b_wire b)"
    "read_header (b_wire b @ rest) = Some (b_type b, length v, v @ rest)"
    using wire_ok_header [OF assms] by blast
  have b: "Block (b_type b) (b_wire b) (Some v) [] = b" using v by (cases b) simp
  then show ?thesis
    using v by (auto simp: fromBuffer_def read_header_def Let_def split: option.splits)
qed

text \<open>When a type or a length cannot be read, \<^verbatim>\<open>parse\<close> throws and leaves the elements it has found; a second
  \<^verbatim>\<open>parse\<close> of the same block then returns normally with these.\<close>

lemma parse_after_error:
  assumes "list_all wire_ok bs" and "bs \<noteq> []" and "rest \<noteq> []" and "read_header rest = None"
    and b: "b = Block t w (Some (concat (map b_wire bs) @ rest)) []" and b': "b' = Block t w (Some (concat (map b_wire bs) @ rest)) bs"
  shows "parse b = (Some TlvError, b')" and "parse b' = (None, b')"
proof -
  have "parse_loop (concat (map b_wire bs) @ rest) acc = (Some TlvError, acc @ bs)" for acc
    using assms(1)
  proof (induction bs arbitrary: acc)
    case Nil
    then show ?case using assms(3,4) by (simp add: parse_loop.simps [of rest])
  next
    case (Cons c cs)
    then show ?case using parse_loop_ok [of c "concat (map b_wire cs) @ rest" acc] by simp
  qed
  then show "parse b = (Some TlvError, b')"
    using assms(3) by (simp add: parse_def b b' value_size_def block_value_def)
  show "parse b' = (None, b')" using assms(2) by (simp add: parse_def b')
qed

end
