(* ===== verification/Tlv_Encoder.thy ===== *)
theory Tlv_Encoder
  imports Tlv_Blocks
begin

text \<open>
  The encoder of TLV blocks (ndn-cxx \<^verbatim>\<open>encoding/encoder.cpp\<close>, \<^verbatim>\<open>encoding/estimator.cpp\<close>,
  \<^verbatim>\<open>encoding/block-helpers.cpp\<close>).  An encoder fills a buffer from the back; an estimator only adds up the sizes.
  Encoding functions are templates over both, so both are one type here.  Shown: what an encoding function puts in
  front of the contents, that the estimate is its length, that a buffer of the estimated size is filled without
  being moved, and the block that the two passes give.
\<close>

section \<open>Buffers\<close>

datatype encoder = Estimator | Encoder (eb_buffer: "byte list") (eb_begin: nat) (eb_end: nat)

definition Encoder_new :: "nat \<Rightarrow> nat \<Rightarrow> encoder" where
  "Encoder_new totalReserve reserveFromBack =
     (let k = totalReserve - (if reserveFromBack < totalReserve then reserveFromBack else 0)
      in Encoder (replicate totalReserve 0) k k)"

fun reserve :: "nat \<Rightarrow> bool \<Rightarrow> encoder \<Rightarrow> encoder" where
  "reserve sz addInFront Estimator = Estimator"
| "reserve sz addInFront (Encoder buf b e) =
     (let sz = (if sz < length buf then length buf else sz);
          more = replicate (sz - length buf) 0
      in if addInFront
         then let diffEnd = length buf - e; diffBegin = length buf - b
              in Encoder (more @ buf) (sz - diffBegin) (sz - diffEnd)
         else Encoder (buf @ more) b e)"

fun reserveBack :: "nat \<Rightarrow> encoder \<Rightarrow> encoder" where
  "reserveBack sz Estimator = Estimator"
| "reserveBack sz (Encoder buf b e) =
     (if e + sz > length buf then reserve (length buf * 2 + sz) False (Encoder buf b e) else Encoder buf b e)"

fun reserveFront :: "nat \<Rightarrow> encoder \<Rightarrow> encoder" where
  "reserveFront sz Estimator = Estimator"
| "reserveFront sz (Encoder buf b e) =
     (if sz > b then reserve (length buf * 2 + sz) True (Encoder buf b e) else Encoder buf b e)"

text \<open>\<^verbatim>\<open>std::copy\<close> into the buffer.\<close>

definition copy_at :: "nat \<Rightarrow> byte list \<Rightarrow> byte list \<Rightarrow> byte list" where
  "copy_at i xs buf = take i buf @ xs @ drop (i + length xs) buf"

fun put_front :: "byte list \<Rightarrow> encoder \<Rightarrow> encoder" where
  "put_front xs Estimator = Estimator"
| "put_front xs (Encoder buf b e) = Encoder (copy_at (b - length xs) xs buf) (b - length xs) e"

fun put_back :: "byte list \<Rightarrow> encoder \<Rightarrow> encoder" where
  "put_back xs Estimator = Estimator"
| "put_back xs (Encoder buf b e) = Encoder (copy_at e xs buf) b (e + length xs)"

definition prependByteArray :: "byte list \<Rightarrow> encoder \<Rightarrow> nat \<times> encoder" where
  "prependByteArray xs en = (length xs, put_front xs (reserveFront (length xs) en))"

definition appendByteArray :: "byte list \<Rightarrow> encoder \<Rightarrow> nat \<times> encoder" where
  "appendByteArray xs en = (length xs, put_back xs (reserveBack (length xs) en))"

definition prependByte :: "byte \<Rightarrow> encoder \<Rightarrow> nat \<times> encoder" where
  "prependByte v en = (1, put_front [v] (reserveFront 1 en))"

definition appendByte :: "byte \<Rightarrow> encoder \<Rightarrow> nat \<times> encoder" where
  "appendByte v en = (1, put_back [v] (reserveBack 1 en))"

definition prependVarNumber :: "nat \<Rightarrow> encoder \<Rightarrow> nat \<times> encoder" where
  "prependVarNumber n en =
     (if n < 253 then (1, snd (prependByte (of_nat n) en))
      else if n \<le> 2 ^ 16 - 1 then (3, snd (prependByte 253 (snd (prependByteArray (be_bytes 2 n) en))))
      else if n \<le> 2 ^ 32 - 1 then (5, snd (prependByte 254 (snd (prependByteArray (be_bytes 4 n) en))))
      else (9, snd (prependByte 255 (snd (prependByteArray (be_bytes 8 n) en)))))"

definition appendVarNumber :: "nat \<Rightarrow> encoder \<Rightarrow> nat \<times> encoder" where
  "appendVarNumber n en =
     (if n < 253 then (1, snd (appendByte (of_nat n) en))
      else if n \<le> 2 ^ 16 - 1 then (3, snd (appendByteArray (be_bytes 2 n) (snd (appendByte 253 en))))
      else if n \<le> 2 ^ 32 - 1 then (5, snd (appendByteArray (be_bytes 4 n) (snd (appendByte 254 en))))
      else (9, snd (appendByteArray (be_bytes 8 n) (snd (appendByte 255 en)))))"

definition prependInteger :: "u64 \<Rightarrow> encoder \<Rightarrow> nat \<times> encoder" where
  "prependInteger v en =
     (let n = unat v in
      if n \<le> 2 ^ 8 - 1 then prependByte (of_nat n) en
      else if n \<le> 2 ^ 16 - 1 then prependByteArray (be_bytes 2 n) en
      else if n \<le> 2 ^ 32 - 1 then prependByteArray (be_bytes 4 n) en
      else prependByteArray (be_bytes 8 n) en)"

section \<open>Encoding functions\<close>

text \<open>An encoding function changes an encoder and returns how much it wrote, or throws.  \<open>enc_then\<close> is the sequence
  with the sum \<^verbatim>\<open>totalLength\<close>, \<open>enc_tlv\<close> the end of every encoding function: the length so far and the type.\<close>

type_synonym encoding = "encoder \<Rightarrow> exn + (nat \<times> encoder)"

definition enc_nothing :: encoding where
  "enc_nothing en = Inr (0, en)"

definition enc_throw :: encoding where
  "enc_throw en = Inl TlvError"

definition enc_of :: "(encoder \<Rightarrow> nat \<times> encoder) \<Rightarrow> encoding" where
  "enc_of f en = Inr (f en)"

definition enc_then :: "encoding \<Rightarrow> encoding \<Rightarrow> encoding" where
  "enc_then f g en = bind_exn (f en) (\<lambda>(n, en). bind_exn (g en) (\<lambda>(m, en). Inr (n + m, en)))"

definition enc_when :: "bool \<Rightarrow> encoding \<Rightarrow> encoding" where
  "enc_when c f = (if c then f else enc_nothing)"

fun enc_all :: "('a \<Rightarrow> encoding) \<Rightarrow> 'a list \<Rightarrow> encoding" where
  "enc_all f [] = enc_nothing"
| "enc_all f (x # xs) = enc_then (f x) (enc_all f xs)"

definition enc_tlv :: "u32 \<Rightarrow> encoding \<Rightarrow> encoding" where
  "enc_tlv t f en =
     bind_exn (f en) (\<lambda>(n, en).
       let (k, en) = prependVarNumber n en;
           (k', en) = prependVarNumber (unat t) en
       in Inr (n + k + k', en))"

definition prependByteArrayBlock :: "u32 \<Rightarrow> byte list \<Rightarrow> encoding" where
  "prependByteArrayBlock t v = enc_tlv t (enc_of (prependByteArray v))"

definition appendByteArrayBlock :: "u32 \<Rightarrow> byte list \<Rightarrow> encoding" where
  "appendByteArrayBlock t v en =
     (let (k, en) = appendVarNumber (unat t) en;
          (k', en) = appendVarNumber (length v) en;
          (n, en) = appendByteArray v en
      in Inr (k + k' + n, en))"

definition prependBlock :: "block \<Rightarrow> encoding" where
  "prependBlock b =
     (if hasWire b then enc_of (prependByteArray (b_wire b)) else prependByteArrayBlock (b_type b) (block_value b))"

definition appendBlock :: "block \<Rightarrow> encoding" where
  "appendBlock b =
     (if hasWire b then enc_of (appendByteArray (b_wire b)) else appendByteArrayBlock (b_type b) (block_value b))"

definition prependNonNegativeIntegerBlock :: "u32 \<Rightarrow> u64 \<Rightarrow> encoding" where
  "prependNonNegativeIntegerBlock t v = enc_tlv t (enc_of (prependInteger v))"

definition prependEmptyBlock :: "u32 \<Rightarrow> encoding" where
  "prependEmptyBlock t = enc_tlv t enc_nothing"

definition prependNestedBlock :: "u32 \<Rightarrow> encoding \<Rightarrow> encoding" where
  "prependNestedBlock t f = enc_tlv t f"

text \<open>The two passes of a \<^verbatim>\<open>wireEncode()\<close> or \<^verbatim>\<open>make...Block\<close>: estimate, fill a buffer of that size, and take
  its contents as a block.\<close>

fun contents :: "encoder \<Rightarrow> byte list" where
  "contents Estimator = []"
| "contents (Encoder buf b e) = take (e - b) (drop b buf)"

definition encoder_block :: "encoder \<Rightarrow> exn + block" where
  "encoder_block en = block_of_wire (contents en) True"

definition two_passes :: "encoding \<Rightarrow> exn + block" where
  "two_passes f =
     bind_exn (f Estimator) (\<lambda>(estimatedSize, _).
       bind_exn (f (Encoder_new estimatedSize 0)) (\<lambda>(_, en). encoder_block en))"

definition makeNonNegativeIntegerBlock :: "u32 \<Rightarrow> u64 \<Rightarrow> exn + block" where
  "makeNonNegativeIntegerBlock t v = two_passes (prependNonNegativeIntegerBlock t v)"

definition makeEmptyBlock :: "u32 \<Rightarrow> exn + block" where
  "makeEmptyBlock t = two_passes (prependEmptyBlock t)"

definition makeBinaryBlock :: "u32 \<Rightarrow> byte list \<Rightarrow> exn + block" where
  "makeBinaryBlock t v = two_passes (prependByteArrayBlock t v)"

definition makeNestedBlock :: "u32 \<Rightarrow> encoding \<Rightarrow> exn + block" where
  "makeNestedBlock t f = two_passes (prependNestedBlock t f)"

text \<open>\<^verbatim>\<open>readNonNegativeInteger\<close> of a block.\<close>

definition block_integer :: "block \<Rightarrow> exn + u64" where
  "block_integer b = readNonNegativeInteger (value_size b) (block_value b)"

section \<open>What is written\<close>

fun encoder_ok :: "encoder \<Rightarrow> bool" where
  "encoder_ok Estimator \<longleftrightarrow> True"
| "encoder_ok (Encoder buf b e) \<longleftrightarrow> b \<le> e \<and> e \<le> length buf"

text \<open>From one encoder to the next, bytes were put in front and behind.  What fits in front of the contents does not
  move them.\<close>

fun wrote :: "byte list \<Rightarrow> byte list \<Rightarrow> encoder \<Rightarrow> encoder \<Rightarrow> bool" where
  "wrote f k Estimator en \<longleftrightarrow> en = Estimator"
| "wrote f k (Encoder buf b e) Estimator \<longleftrightarrow> False"
| "wrote f k (Encoder buf b e) (Encoder buf' b' e') \<longleftrightarrow>
     encoder_ok (Encoder buf' b' e') \<and>
     contents (Encoder buf' b' e') = f @ contents (Encoder buf b e) @ k \<and>
     (length f \<le> b \<and> k = [] \<longrightarrow> length buf' = length buf \<and> b' = b - length f \<and> e' = e)"

lemma wrote_ok: "wrote f k en en' \<Longrightarrow> encoder_ok en'"
  by (cases en; cases en') auto

lemma wrote_refl: "encoder_ok en \<Longrightarrow> wrote [] [] en en"
  by (cases en) auto

lemma wrote_trans: "wrote f k en en1 \<Longrightarrow> wrote f' k' en1 en2 \<Longrightarrow> wrote (f' @ f) (k @ k') en en2"
  by (cases en; cases en1; cases en2) auto

lemma wrote_contents: "wrote f k en en' \<Longrightarrow> en \<noteq> Estimator \<Longrightarrow> contents en' = f @ contents en @ k"
  by (cases en; cases en') simp_all

lemma wrote_Estimator [simp]: "wrote f k Estimator en \<longleftrightarrow> en = Estimator"
  by simp

text \<open>More room in front or behind changes nothing in the contents.\<close>

lemma reserveFront_keeps:
  assumes "encoder_ok (Encoder buf b e)"
  shows "\<exists>buf' b' e'. reserveFront n (Encoder buf b e) = Encoder buf' b' e' \<and> encoder_ok (Encoder buf' b' e') \<and>
    n \<le> b' \<and> contents (Encoder buf' b' e') = contents (Encoder buf b e) \<and>
    (n \<le> b \<longrightarrow> Encoder buf' b' e' = Encoder buf b e)"
proof (cases "n > b")
  case True
  let ?more = "replicate (length buf + n) (0 :: byte)"
  have "reserveFront n (Encoder buf b e) =
      Encoder (?more @ buf) (length buf + n + b) (length buf + n + e)"
    using True assms by (simp add: Let_def)
  then show ?thesis using assms by auto
qed (use assms in auto)

lemma reserveBack_keeps:
  assumes "encoder_ok (Encoder buf b e)"
  shows "\<exists>buf'. reserveBack n (Encoder buf b e) = Encoder buf' b e \<and> encoder_ok (Encoder buf' b e) \<and>
    e + n \<le> length buf' \<and> contents (Encoder buf' b e) = contents (Encoder buf b e)"
  using assms by (auto simp: Let_def)

lemma drop_copy_at: "i \<le> length buf \<Longrightarrow> drop i (copy_at i xs buf) = xs @ drop (i + length xs) buf"
  by (simp add: copy_at_def)

lemma length_copy_at: "i + length xs \<le> length buf \<Longrightarrow> length (copy_at i xs buf) = length buf"
  by (simp add: copy_at_def)

lemma wrote_front:
  assumes "encoder_ok en"
  shows "wrote xs [] en (put_front xs (reserveFront (length xs) en))"
proof (cases en)
  case (Encoder buf b e)
  obtain buf' b' e' where r: "reserveFront (length xs) en = Encoder buf' b' e'" "encoder_ok (Encoder buf' b' e')"
    "length xs \<le> b'" "contents (Encoder buf' b' e') = contents en"
    "length xs \<le> b \<longrightarrow> Encoder buf' b' e' = Encoder buf b e"
    using reserveFront_keeps [of buf b e "length xs"] assms Encoder by auto
  have "drop (b' - length xs) (copy_at (b' - length xs) xs buf') = xs @ drop b' buf'"
    using r(2,3) drop_copy_at [of "b' - length xs" buf' xs] by fastforce
  moreover have "take (e' - (b' - length xs)) (xs @ drop b' buf') = xs @ take (e' - b') (drop b' buf')"
    using r(2,3) by auto
  ultimately have "contents (put_front xs (Encoder buf' b' e')) = xs @ contents (Encoder buf b e)"
    using r(4) Encoder by simp
  moreover have "length (copy_at (b' - length xs) xs buf') = length buf'"
    using r(2,3) by (intro length_copy_at) simp
  ultimately have "wrote xs [] (Encoder buf b e) (put_front xs (Encoder buf' b' e'))"
    using r(2,3,5) by auto
  then show ?thesis unfolding r(1) unfolding Encoder .
qed simp

lemma wrote_back:
  assumes "encoder_ok en"
  shows "wrote [] xs en (put_back xs (reserveBack (length xs) en))"
proof (cases en)
  case (Encoder buf b e)
  obtain buf' where r: "reserveBack (length xs) en = Encoder buf' b e" "encoder_ok (Encoder buf' b e)"
    "e + length xs \<le> length buf'" "contents (Encoder buf' b e) = contents en"
    using reserveBack_keeps [of buf b e "length xs"] assms Encoder by auto
  have "drop b (copy_at e xs buf') = drop b (take e buf') @ xs @ drop (e + length xs) buf'"
    using r(2,3) by (simp add: copy_at_def)
  moreover have "length (drop b (take e buf')) = e - b" using r(2,3) by simp
  ultimately have "take (e + length xs - b) (drop b (copy_at e xs buf')) = drop b (take e buf') @ xs"
    using r(2) by simp
  then have c: "contents (put_back xs (Encoder buf' b e)) = contents (Encoder buf b e) @ xs"
    using r(4) Encoder by (simp add: drop_take)
  have l: "length (copy_at e xs buf') = length buf'" using r(3) by (rule length_copy_at)
  have m: "xs = [] \<longrightarrow> length buf' = length buf"
    using r(1) assms unfolding Encoder by auto
  have "wrote [] xs (Encoder buf b e) (put_back xs (Encoder buf' b e))"
    using r(2,3) c l m by (cases "xs = []") simp_all
  then show ?thesis unfolding r(1) unfolding Encoder .
qed simp

lemma prependByteArray_wrote:
  "encoder_ok en \<Longrightarrow> \<exists>en'. prependByteArray xs en = (length xs, en') \<and> wrote xs [] en en'"
  "encoder_ok en \<Longrightarrow> \<exists>en'. prependByte v en = (1, en') \<and> wrote [v] [] en en'"
  using wrote_front [of en xs] wrote_front [of en "[v]"]
  by (auto simp: prependByteArray_def prependByte_def)

lemma appendByteArray_wrote:
  "encoder_ok en \<Longrightarrow> \<exists>en'. appendByteArray xs en = (length xs, en') \<and> wrote [] xs en en'"
  "encoder_ok en \<Longrightarrow> \<exists>en'. appendByte v en = (1, en') \<and> wrote [] [v] en en'"
  using wrote_back [of en xs] wrote_back [of en "[v]"]
  by (auto simp: appendByteArray_def appendByte_def)

text \<open>The numbers are written as \<open>writeVarNumber\<close> and \<open>prependNonNegativeInteger\<close> have them.\<close>

lemma prepend_two_wrote:
  assumes "encoder_ok en"
  shows "wrote (v # xs) [] en (snd (prependByte v (snd (prependByteArray xs en))))"
proof -
  obtain en1 where en1: "prependByteArray xs en = (length xs, en1)" "wrote xs [] en en1"
    using prependByteArray_wrote(1) [OF assms] by blast
  obtain en2 where "prependByte v en1 = (1, en2)" "wrote [v] [] en1 en2"
    using prependByteArray_wrote(2) [OF wrote_ok [OF en1(2)]] by blast
  with en1 wrote_trans [of xs "[]" en en1 "[v]" "[]" en2] show ?thesis by simp
qed

lemma append_two_wrote:
  assumes "encoder_ok en"
  shows "wrote [] (v # xs) en (snd (appendByteArray xs (snd (appendByte v en))))"
proof -
  obtain en1 where en1: "appendByte v en = (1, en1)" "wrote [] [v] en en1"
    using appendByteArray_wrote(2) [OF assms] by blast
  obtain en2 where "appendByteArray xs en1 = (length xs, en2)" "wrote [] xs en1 en2"
    using appendByteArray_wrote(1) [OF wrote_ok [OF en1(2)]] by blast
  with en1 wrote_trans [of "[]" "[v]" en en1 "[]" xs en2] show ?thesis by simp
qed

lemma prependVarNumber_wrote:
  assumes "encoder_ok en"
  shows "\<exists>en'. prependVarNumber n en = (sizeOfVarNumber n, en') \<and> wrote (writeVarNumber n) [] en en'"
  using prependByteArray_wrote(2) [OF assms, of "of_nat n"] prepend_two_wrote [OF assms]
  by (auto simp: prependVarNumber_def writeVarNumber_def sizeOfVarNumber_def simp del: be_bytes.simps)

lemma appendVarNumber_wrote:
  assumes "encoder_ok en"
  shows "\<exists>en'. appendVarNumber n en = (sizeOfVarNumber n, en') \<and> wrote [] (writeVarNumber n) en en'"
  using appendByteArray_wrote(2) [OF assms, of "of_nat n"] append_two_wrote [OF assms]
  by (auto simp: appendVarNumber_def writeVarNumber_def sizeOfVarNumber_def simp del: be_bytes.simps)

text \<open>An encoding function that puts \<open>w\<close> in front.\<close>

definition writes :: "encoding \<Rightarrow> byte list \<Rightarrow> bool" where
  "writes f w \<longleftrightarrow> (\<forall>en. encoder_ok en \<longrightarrow> (\<exists>en'. f en = Inr (length w, en') \<and> wrote w [] en en'))"

lemma writesD: "writes f w \<Longrightarrow> encoder_ok en \<Longrightarrow> \<exists>en'. f en = Inr (length w, en') \<and> wrote w [] en en'"
  by (simp add: writes_def)

lemma writes_nothing [intro!]: "writes enc_nothing []"
  by (auto simp: writes_def enc_nothing_def intro: wrote_refl)

lemma writes_array [intro!]: "writes (enc_of (prependByteArray xs)) xs"
  using prependByteArray_wrote(1) by (fastforce simp: writes_def enc_of_def)

lemma writes_then:
  assumes "writes f w" and "writes g v"
  shows "writes (enc_then f g) (v @ w)"
  unfolding writes_def
proof (intro allI impI)
  fix en assume ok: "encoder_ok en"
  obtain en1 where en1: "f en = Inr (length w, en1)" "wrote w [] en en1" using writesD [OF assms(1) ok] by blast
  obtain en2 where en2: "g en1 = Inr (length v, en2)" "wrote v [] en1 en2"
    using writesD [OF assms(2) wrote_ok [OF en1(2)]] by blast
  show "\<exists>en'. enc_then f g en = Inr (length (v @ w), en') \<and> wrote (v @ w) [] en en'"
    using en1(1) en2(1) wrote_trans [OF en1(2) en2(2)] by (simp add: enc_then_def)
qed

lemma writes_when: "(c \<Longrightarrow> writes f w) \<Longrightarrow> writes (enc_when c f) (if c then w else [])"
  by (simp add: enc_when_def writes_nothing)

lemma writes_all: "(\<And>x. x \<in> set xs \<Longrightarrow> writes (f x) (w x)) \<Longrightarrow> writes (enc_all f xs) (concat (map w (rev xs)))"
proof (induction xs)
  case (Cons x xs)
  then show ?case using writes_then [of "f x" "w x" "enc_all f xs" "concat (map w (rev xs))"] by simp
qed (simp add: writes_nothing)

lemma writes_number: "writes (enc_of (prependVarNumber n)) (writeVarNumber n)"
  using prependVarNumber_wrote [of _ n]
  by (simp add: writes_def enc_of_def length_writeVarNumber)

lemma writes_tlv:
  assumes "writes f w"
  shows "writes (enc_tlv t f) (tlv t w)"
proof -
  let ?g = "\<lambda>n. enc_then (enc_of (prependVarNumber n)) (enc_of (prependVarNumber (unat t)))"
  have "writes (?g (length w)) (writeVarNumber (unat t) @ writeVarNumber (length w))"
    by (rule writes_then [OF writes_number writes_number])
  from writes_then [OF assms this] have "writes (enc_then f (?g (length w))) (tlv t w)"
    by (simp add: tlv_def)
  moreover have "enc_tlv t f en = enc_then f (?g (length w)) en" if "encoder_ok en" for en
    using writesD [OF assms that]
    by (auto simp: enc_tlv_def enc_then_def enc_of_def case_prod_beta Let_def)
  ultimately show ?thesis by (simp add: writes_def)
qed

lemma writes_integer: "writes (enc_of (prependInteger v)) (prependNonNegativeInteger v)"
proof -
  let ?n = "unat v"
  have byte: "writes (enc_of (prependByte b)) [b]" for b
    using prependByteArray_wrote(2) by (fastforce simp: writes_def enc_of_def)
  have "enc_of (prependInteger v) =
      (if ?n \<le> 2 ^ 8 - 1 then enc_of (prependByte (of_nat ?n))
       else if ?n \<le> 2 ^ 16 - 1 then enc_of (prependByteArray (be_bytes 2 ?n))
       else if ?n \<le> 2 ^ 32 - 1 then enc_of (prependByteArray (be_bytes 4 ?n))
       else enc_of (prependByteArray (be_bytes 8 ?n)))"
    by (auto simp: enc_of_def prependInteger_def Let_def simp del: be_bytes.simps)
  moreover have "prependNonNegativeInteger v =
      (if ?n \<le> 2 ^ 8 - 1 then [of_nat ?n]
       else if ?n \<le> 2 ^ 16 - 1 then be_bytes 2 ?n
       else if ?n \<le> 2 ^ 32 - 1 then be_bytes 4 ?n
       else be_bytes 8 ?n)"
    by (auto simp: prependNonNegativeInteger_def Let_def)
  ultimately show ?thesis by (auto simp del: be_bytes.simps intro: byte)
qed

lemma writes_integer_block: "writes (prependNonNegativeIntegerBlock t v) (tlv t (prependNonNegativeInteger v))"
  unfolding prependNonNegativeIntegerBlock_def by (rule writes_tlv [OF writes_integer])

lemma writes_empty_block: "writes (prependEmptyBlock t) (tlv t [])"
  unfolding prependEmptyBlock_def by (rule writes_tlv [OF writes_nothing])

lemma writes_nested: "writes f w \<Longrightarrow> writes (prependNestedBlock t f) (tlv t w)"
  unfolding prependNestedBlock_def by (rule writes_tlv)

lemma writes_array_block: "writes (prependByteArrayBlock t v) (tlv t v)"
  unfolding prependByteArrayBlock_def by (rule writes_tlv [OF writes_array])

lemma writes_block: "writes (prependBlock b) (write_block b)"
  using writes_array_block [of "b_type b" "block_value b"]
  by (auto simp: prependBlock_def write_block_def tlv_def value_size_def)

section \<open>Two passes\<close>

text \<open>The estimate is exact: a buffer of that size is filled from the back to the front and is never moved.\<close>

lemma two_passes_fill:
  assumes "writes f w"
  shows "\<exists>buf. f Estimator = Inr (length w, Estimator) \<and>
    f (Encoder_new (length w) 0) = Inr (length w, Encoder buf 0 (length w)) \<and> buf = w"
proof -
  let ?n = "Encoder_new (length w) 0"
  have new: "?n = Encoder (replicate (length w) 0) (length w) (length w)"
    by (cases "w = []") (simp_all add: Encoder_new_def Let_def)
  have est: "f Estimator = Inr (length w, Estimator)" using writesD [OF assms, of Estimator] by simp
  obtain en where en: "f ?n = Inr (length w, en)" "wrote w [] ?n en"
    using writesD [OF assms, of ?n] by (auto simp: new)
  from en(2) show ?thesis using en(1) est by (cases en) (auto simp: new)
qed

lemma two_passes_writes:
  assumes "writes f (tlv t v)" and "length v < 2 ^ 64"
  shows "two_passes f = Inr (tlv_block t v)"
  using two_passes_fill [OF assms(1)] wire_ok_tlv [OF assms(2), of t]
  by (auto simp: two_passes_def encoder_block_def wire_ok_def tlv_block_def)

lemma make_blocks:
  "makeNonNegativeIntegerBlock t v' = Inr (tlv_block t (prependNonNegativeInteger v'))"
  "makeEmptyBlock t = Inr (tlv_block t [])"
  "length v < 2 ^ 64 \<Longrightarrow> makeBinaryBlock t v = Inr (tlv_block t v)"
  "writes f v \<Longrightarrow> length v < 2 ^ 64 \<Longrightarrow> makeNestedBlock t f = Inr (tlv_block t v)"
  using length_prependNonNegativeInteger [of v']
  by (auto simp: makeNonNegativeIntegerBlock_def makeEmptyBlock_def makeBinaryBlock_def makeNestedBlock_def
      intro!: two_passes_writes writes_integer_block writes_empty_block writes_array_block writes_nested)

lemma block_integer_tlv [simp]: "block_integer (tlv_block t (prependNonNegativeInteger v)) = Inr v"
  using readNonNegativeInteger_prepend [of v]
  by (simp add: block_integer_def tlv_block_def value_size_def block_value_def)

text \<open>The interface of a type with a wire encoding: its encoding function writes the elements of the value as one
  block of a type of its own, and the constructor from a block gives the value back.\<close>

locale wire_type =
  fixes enc :: "'a \<Rightarrow> encoding" and dec :: "block \<Rightarrow> exn + 'b" and ok :: "'a \<Rightarrow> bool"
    and tag :: u32 and elements :: "'a \<Rightarrow> block list" and read_back :: "'a \<Rightarrow> 'b"
  assumes enc_writes: "ok x \<Longrightarrow> writes (enc x) (tlv tag (concat (map b_wire (elements x))))"
    and elements_ok: "ok x \<Longrightarrow> list_all wire_ok (elements x)"
    and elements_short: "ok x \<Longrightarrow> length (concat (map b_wire (elements x))) < 2 ^ 64"
    and dec_elements: "ok x \<Longrightarrow> w = concat (map b_wire (elements x)) \<Longrightarrow>
      dec (tlv_block tag w) = Inr (read_back x)"
begin

definition wire :: "'a \<Rightarrow> block" where
  "wire x = tlv_block tag (concat (map b_wire (elements x)))"

lemma writes_wire: "ok x \<Longrightarrow> writes (enc x) (b_wire (wire x))"
  using enc_writes by (simp add: wire_def tlv_block_def)

lemma wire_ok_wire: "ok x \<Longrightarrow> wire_ok (wire x)"
  unfolding wire_def using elements_short by (rule wire_ok_tlv)

lemma encode_wire: "ok x \<Longrightarrow> two_passes (enc x) = Inr (wire x)"
  unfolding wire_def using enc_writes elements_short by (intro two_passes_writes)

lemma roundtrip: "ok x \<Longrightarrow> bind_exn (two_passes (enc x)) dec = Inr (read_back x)"
  using encode_wire dec_elements by (simp add: wire_def)

lemma dec_wire: "ok x \<Longrightarrow> dec (wire x) = Inr (read_back x)"
  using dec_elements by (simp add: wire_def)

end

end
