(* ===== verification/Packet_Fields.thy ===== *)
theory Packet_Fields
  imports Tlv_Encoder
begin

text \<open>
  The fields of Interest and Data packets with their wire encodings (ndn-cxx \<^verbatim>\<open>name-component.cpp\<close>, \<^verbatim>\<open>name.cpp\<close>,
  \<^verbatim>\<open>key-locator.cpp\<close>, \<^verbatim>\<open>meta-info.cpp\<close>, \<^verbatim>\<open>signature-info.cpp\<close>).  Each type is an instance of the
  interface \<open>wire_type\<close>, so what it encodes is decoded to the same value.  Two places do not give the value back:
  a \<open>SignatureInfo\<close> with several extra elements reverses them, and a \<open>MetaInfo\<close> that decodes its own encoding has
  its application elements twice.
\<close>

section \<open>Lists of elements\<close>

text \<open>An element that is there under a condition.\<close>

definition opt :: "bool \<Rightarrow> block \<Rightarrow> block list" where
  "opt c b = (if c then [b] else [])"

lemma opt_simps [simp]:
  "list_all P (opt c b) \<longleftrightarrow> (c \<longrightarrow> P b)" "concat (map b_wire (opt c b)) = (if c then b_wire b else [])"
  "set (opt c b) = (if c then {b} else {})"
  by (simp_all add: opt_def)

lemma find_opt [simp]: "find P (opt c b @ bs) = (if c \<and> P b then Some b else find P bs)" "find P (opt c b) = (if c \<and> P b then Some b else None)"
  by (simp_all add: opt_def)

lemma tlv_block_sel [simp]:
  "b_type (tlv_block t v) = t" "b_wire (tlv_block t v) = tlv t v" "b_value (tlv_block t v) = Some v"
  "b_elements (tlv_block t v) = []" "block_value (tlv_block t v) = v" "value_size (tlv_block t v) = length v"
  "hasWire (tlv_block t v)" "hasValue (tlv_block t v)"
  by (simp_all add: tlv_block_def block_value_def value_size_def hasWire_def hasValue_def tlv_def writeVarNumber_def)

lemma writes_cong: "writes f w \<Longrightarrow> w = w' \<Longrightarrow> writes f w'"
  by simp

lemma length_tlv: "length v < length (tlv t v)"
  by (simp add: tlv_def length_writeVarNumber sizeOfVarNumber_def)

text \<open>Each element is shorter than the whole.\<close>

lemma element_short:
  assumes "b \<in> set bs" and "length (concat (map b_wire bs)) < n"
  shows "length (b_wire b) < n"
proof -
  have "length (b_wire b) \<le> length (concat (map b_wire bs))"
    using assms(1) by (induction bs) auto
  with assms(2) show ?thesis by simp
qed

lemma tlv_element_short:
  assumes "tlv_block t v \<in> set bs" and "length (concat (map b_wire bs)) < n"
  shows "length v < n"
  using element_short [OF assms] length_tlv [of v t] by simp

section \<open>Names\<close>

definition Component_wireEncode :: "component \<Rightarrow> encoding" where
  "Component_wireEncode c =
     enc_tlv (c_type c) (enc_when (length (c_value c) > 0) (enc_of (prependByteArray (c_value c))))"

text \<open>The constructor from a block.\<close>

definition component_of_block :: "block \<Rightarrow> exn + component" where
  "component_of_block b =
     (if b_type b = NameComponent \<or> b_type b = ImplicitSha256DigestComponent \<and> value_size b = 32
      then Inr (Component (b_type b) (block_value b)) else Inl TlvError)"

definition Name_wireEncode :: "name \<Rightarrow> encoding" where
  "Name_wireEncode n = enc_tlv 7 (enc_all Component_wireEncode (rev n))"

text \<open>The elements of a name are taken as components without a look at their types.\<close>

definition Name_wireDecode :: "block \<Rightarrow> exn + name" where
  "Name_wireDecode wire =
     (if b_type wire \<noteq> 7 then Inl TlvError
      else bind_exn (parsed wire) (\<lambda>b. Inr (map (\<lambda>e. Component (b_type e) (block_value e)) (b_elements b))))"

definition name_blocks :: "name \<Rightarrow> block list" where
  "name_blocks n = map (\<lambda>c. tlv_block (c_type c) (c_value c)) n"

definition name_short :: "name \<Rightarrow> bool" where
  "name_short n \<longleftrightarrow> length (concat (map b_wire (name_blocks n))) < 2 ^ 64"

lemma Component_writes: "writes (Component_wireEncode c) (tlv (c_type c) (c_value c))"
  unfolding Component_wireEncode_def
  by (rule writes_tlv, rule writes_cong, rule writes_when, rule writes_array) simp

lemma name_blocks_ok:
  assumes "name_short n"
  shows "list_all wire_ok (name_blocks n)"
  unfolding list_all_iff
proof
  fix b assume "b \<in> set (name_blocks n)"
  then obtain t v where b: "b = tlv_block t v" "tlv_block t v \<in> set (name_blocks n)"
    by (auto simp: name_blocks_def)
  then have "length v < 2 ^ 64"
    using assms unfolding name_short_def by (blast intro: tlv_element_short)
  with b(1) show "wire_ok b" by (simp add: wire_ok_tlv)
qed

interpretation name_wire: wire_type Name_wireEncode Name_wireDecode name_short 7 name_blocks id
proof
  fix n :: name and w
  assume n: "name_short n"
  have "writes (enc_all Component_wireEncode (rev n)) (concat (map (\<lambda>c. tlv (c_type c) (c_value c)) (rev (rev n))))"
    by (rule writes_all) (rule Component_writes)
  then show "writes (Name_wireEncode n) (tlv 7 (concat (map b_wire (name_blocks n))))"
    unfolding Name_wireEncode_def by (intro writes_tlv) (simp add: name_blocks_def o_def)
  show "list_all wire_ok (name_blocks n)" using n by (rule name_blocks_ok)
  show "length (concat (map b_wire (name_blocks n))) < 2 ^ 64" using n by (simp add: name_short_def)
  show "Name_wireDecode (tlv_block 7 w) = Inr (id n)" if "w = concat (map b_wire (name_blocks n))"
    using that name_blocks_ok [OF n]
    by (simp add: Name_wireDecode_def parsed_tlv_block) (simp add: name_blocks_def o_def)
qed

section \<open>Key locators\<close>

datatype key_locator = KeyLocator_None | KeyLocator_Name name | KeyLocator_KeyDigest block | KeyLocator_Unknown

definition KeyLocator_wireEncode :: "key_locator \<Rightarrow> encoding" where
  "KeyLocator_wireEncode k =
     enc_tlv 28
       (case k of
          KeyLocator_None \<Rightarrow> enc_nothing
        | KeyLocator_Name n \<Rightarrow> Name_wireEncode n
        | KeyLocator_KeyDigest d \<Rightarrow> prependBlock d
        | KeyLocator_Unknown \<Rightarrow> enc_throw)"

definition KeyLocator_wireDecode :: "block \<Rightarrow> exn + key_locator" where
  "KeyLocator_wireDecode wire =
     (if b_type wire \<noteq> 28 then Inl TlvError
      else bind_exn (parsed wire) (\<lambda>b.
        case b_elements b of
          [] \<Rightarrow> Inr KeyLocator_None
        | e # _ \<Rightarrow>
            if b_type e = 7 then bind_exn (Name_wireDecode e) (\<lambda>n. Inr (KeyLocator_Name n))
            else if b_type e = 29 then Inr (KeyLocator_KeyDigest e)
            else Inr KeyLocator_Unknown))"

fun setKeyDigest :: "block \<Rightarrow> exn + key_locator" where
  "setKeyDigest d = (if b_type d \<noteq> 29 then Inl TlvError else Inr (KeyLocator_KeyDigest d))"

fun key_locator_blocks :: "key_locator \<Rightarrow> block list" where
  "key_locator_blocks KeyLocator_None = []"
| "key_locator_blocks (KeyLocator_Name n) = [name_wire.wire n]"
| "key_locator_blocks (KeyLocator_KeyDigest d) = [d]"
| "key_locator_blocks KeyLocator_Unknown = []"

definition key_locator_ok :: "key_locator \<Rightarrow> bool" where
  "key_locator_ok k \<longleftrightarrow>
     (case k of
        KeyLocator_None \<Rightarrow> True
      | KeyLocator_Name n \<Rightarrow> name_short n
      | KeyLocator_KeyDigest d \<Rightarrow> wire_ok d \<and> b_type d = 29
      | KeyLocator_Unknown \<Rightarrow> False) \<and>
     length (concat (map b_wire (key_locator_blocks k))) < 2 ^ 64"

lemma name_wire_type [simp]: "b_type (name_wire.wire n) = 7"
  by (simp add: name_wire.wire_def)

lemma writes_block_ok: "wire_ok b \<Longrightarrow> writes (prependBlock b) (b_wire b)"
  using writes_block [of b] by simp

interpretation key_locator_wire:
  wire_type KeyLocator_wireEncode KeyLocator_wireDecode key_locator_ok 28 key_locator_blocks id
proof
  fix k w
  assume k: "key_locator_ok k"
  show "writes (KeyLocator_wireEncode k) (tlv 28 (concat (map b_wire (key_locator_blocks k))))"
    unfolding KeyLocator_wireEncode_def
    using k by (intro writes_tlv)
      (auto simp: key_locator_ok_def split: key_locator.splits intro: name_wire.writes_wire writes_block_ok)
  show ok: "list_all wire_ok (key_locator_blocks k)"
    using k by (cases k) (simp_all add: key_locator_ok_def name_wire.wire_ok_wire)
  show "length (concat (map b_wire (key_locator_blocks k))) < 2 ^ 64" using k by (simp add: key_locator_ok_def)
  show "KeyLocator_wireDecode (tlv_block 28 w) = Inr (id k)" if "w = concat (map b_wire (key_locator_blocks k))"
    using that k ok parsed_tlv_block [OF ok, of 28]
    by (cases k) (simp_all add: KeyLocator_wireDecode_def key_locator_ok_def name_wire.dec_wire)
qed

lemma key_locator_wire_type [simp]: "b_type (key_locator_wire.wire k) = 28"
  by (simp add: key_locator_wire.wire_def)

section \<open>Meta information\<close>

text \<open>The freshness period counts milliseconds, with a 64-bit signed representation; a final block id without value is
  none.\<close>

record meta_info =
  mi_type :: u32
  mi_freshness :: int
  mi_finalBlockId :: component
  mi_app :: "block list"

definition meta_info_new :: meta_info where
  "meta_info_new = \<lparr>mi_type = 0, mi_freshness = - 1, mi_finalBlockId = Component NameComponent [], mi_app = []\<rparr>"

definition milliseconds_min :: int where
  "milliseconds_min = - (2 ^ 63)"

definition app_block :: "block \<Rightarrow> bool" where
  "app_block b \<longleftrightarrow> 128 \<le> b_type b \<and> b_type b \<le> 252"

definition setAppMetaInfo :: "block list \<Rightarrow> meta_info \<Rightarrow> exn + meta_info" where
  "setAppMetaInfo bs m = (if \<not> list_all app_block bs then Inl TlvError else Inr (m\<lparr>mi_app := bs\<rparr>))"

definition addAppMetaInfo :: "block \<Rightarrow> meta_info \<Rightarrow> exn + meta_info" where
  "addAppMetaInfo b m = (if \<not> app_block b then Inl TlvError else Inr (m\<lparr>mi_app := mi_app m @ [b]\<rparr>))"

fun remove_app :: "u32 \<Rightarrow> block list \<Rightarrow> (block list) option" where
  "remove_app t [] = None"
| "remove_app t (b # bs) = (if b_type b = t then Some bs else map_option ((#) b) (remove_app t bs))"

definition removeAppMetaInfo :: "u32 \<Rightarrow> meta_info \<Rightarrow> bool \<times> meta_info" where
  "removeAppMetaInfo t m =
     (case remove_app t (mi_app m) of None \<Rightarrow> (False, m) | Some bs \<Rightarrow> (True, m\<lparr>mi_app := bs\<rparr>))"

definition findAppMetaInfo :: "u32 \<Rightarrow> meta_info \<Rightarrow> block option" where
  "findAppMetaInfo t m = find (\<lambda>b. b_type b = t) (mi_app m)"

definition MetaInfo_wireEncode :: "meta_info \<Rightarrow> encoding" where
  "MetaInfo_wireEncode m =
     enc_tlv 20
       (enc_then (enc_all prependBlock (rev (mi_app m)))
       (enc_then (enc_when (c_value (mi_finalBlockId m) \<noteq> [])
                    (prependNestedBlock 26 (Component_wireEncode (mi_finalBlockId m))))
       (enc_then (enc_when (mi_freshness m \<ge> 0)
                    (prependNonNegativeIntegerBlock 25 (of_int (mi_freshness m))))
                 (enc_when (mi_type m \<noteq> 0) (prependNonNegativeIntegerBlock 24 (ucast (mi_type m)))))))"

text \<open>Decoding goes through the elements in order; what is left over is appended to the application elements that the
  object already has.  A 64-bit count of milliseconds is read as a signed one.\<close>

definition take_element :: "u32 \<Rightarrow> (block \<Rightarrow> exn + 'a) \<Rightarrow> 'a \<Rightarrow> block list \<Rightarrow> exn + ('a \<times> block list)" where
  "take_element t f absent val =
     (if val \<noteq> [] \<and> b_type (hd val) = t then bind_exn (f (hd val)) (\<lambda>x. Inr (x, tl val)) else Inr (absent, val))"

definition final_block_id :: "block \<Rightarrow> exn + component" where
  "final_block_id b =
     bind_exn (blockFromValue b) (\<lambda>f. bind_exn (component_of_block f) (\<lambda>c.
       Inr (if c_type c \<noteq> NameComponent then Component NameComponent [] else c)))"

definition MetaInfo_wireDecode :: "meta_info \<Rightarrow> block \<Rightarrow> exn + meta_info" where
  "MetaInfo_wireDecode m wire =
     bind_exn (parsed wire) (\<lambda>b.
       bind_exn (take_element 24 block_integer 0 (b_elements b)) (\<lambda>(type, val).
       bind_exn (take_element 25 (\<lambda>e. map_sum id sint (block_integer e)) milliseconds_min val) (\<lambda>(freshness, val).
       bind_exn (take_element 26 final_block_id (Component NameComponent []) val) (\<lambda>(final, val).
         Inr (m\<lparr>mi_type := ucast type, mi_freshness := freshness, mi_finalBlockId := final,
                mi_app := mi_app m @ val\<rparr>)))))"

definition meta_info_blocks :: "meta_info \<Rightarrow> block list" where
  "meta_info_blocks m =
     opt (mi_type m \<noteq> 0) (tlv_block 24 (prependNonNegativeInteger (ucast (mi_type m)))) @
     opt (mi_freshness m \<ge> 0) (tlv_block 25 (prependNonNegativeInteger (of_int (mi_freshness m)))) @
     opt (c_value (mi_finalBlockId m) \<noteq> [])
       (tlv_block 26 (tlv (c_type (mi_finalBlockId m)) (c_value (mi_finalBlockId m)))) @
     mi_app m"

definition meta_info_ok :: "meta_info \<Rightarrow> bool" where
  "meta_info_ok m \<longleftrightarrow>
     mi_freshness m < 2 ^ 63 \<and> c_type (mi_finalBlockId m) = NameComponent \<and>
     list_all wire_ok (mi_app m) \<and> list_all app_block (mi_app m) \<and>
     length (concat (map b_wire (meta_info_blocks m))) < 2 ^ 64"

text \<open>A negative freshness period is not encoded, and reads back as the smallest one.\<close>

definition meta_info_read :: "meta_info \<Rightarrow> meta_info \<Rightarrow> meta_info" where
  "meta_info_read m0 m =
     m\<lparr>mi_freshness := (if mi_freshness m \<ge> 0 then mi_freshness m else milliseconds_min),
       mi_app := mi_app m0 @ mi_app m\<rparr>"

lemma short_integer: "length (prependNonNegativeInteger v) < 2 ^ 64"
  using length_prependNonNegativeInteger [of v] by auto

lemma wire_ok_integer [simp]: "wire_ok (tlv_block t (prependNonNegativeInteger v))"
  by (rule wire_ok_tlv [OF short_integer])

lemma meta_info_final_short:
  assumes "meta_info_ok m" and "c_value (mi_finalBlockId m) \<noteq> []"
  shows "length (tlv (c_type (mi_finalBlockId m)) (c_value (mi_finalBlockId m))) < 2 ^ 64"
    and "length (c_value (mi_finalBlockId m)) < 2 ^ 64"
proof -
  have "tlv_block 26 (tlv (c_type (mi_finalBlockId m)) (c_value (mi_finalBlockId m))) \<in> set (meta_info_blocks m)"
    using assms(2) by (simp add: meta_info_blocks_def)
  then show "length (tlv (c_type (mi_finalBlockId m)) (c_value (mi_finalBlockId m))) < 2 ^ 64"
    by (rule tlv_element_short) (use assms(1) in \<open>simp add: meta_info_ok_def\<close>)
  then show "length (c_value (mi_finalBlockId m)) < 2 ^ 64"
    using length_tlv [of "c_value (mi_finalBlockId m)" "c_type (mi_finalBlockId m)"] by simp
qed

lemma meta_info_blocks_ok: "meta_info_ok m \<Longrightarrow> list_all wire_ok (meta_info_blocks m)"
  using meta_info_final_short(1) [of m] by (auto simp: meta_info_blocks_def meta_info_ok_def intro: wire_ok_tlv)

lemma sint_of_int_id: "0 \<le> k \<Longrightarrow> k < 2 ^ 63 \<Longrightarrow> sint (of_int k :: u64) = k"
  by (simp add: signed_of_int signed_take_bit_int_eq_self)

lemma sint_ucast_of_int:
  assumes "- (2 ^ 31) \<le> k" and "k < 2 ^ 31"
  shows "sint (ucast (of_int k :: u64) :: u32) = k"
proof -
  have "(ucast (of_int k :: u64) :: u32) = of_int k"
    by (rule bit_word_eqI) (simp add: bit_simps)
  then show ?thesis using assms by (simp add: signed_of_int signed_take_bit_int_eq_self)
qed

lemma ucast_u32_u64: "(ucast (ucast (t :: u32) :: u64) :: u32) = t"
  by (rule bit_word_eqI) (simp add: bit_simps)

definition starts :: "u32 \<Rightarrow> block list \<Rightarrow> bool" where
  "starts t bs \<longleftrightarrow> bs \<noteq> [] \<and> b_type (hd bs) = t"

lemma starts_opt [simp]: "starts t (opt c b @ bs) \<longleftrightarrow> (if c then b_type b = t else starts t bs)"
  by (simp add: starts_def opt_def)

lemma take_element_opt:
  "\<not> starts t rest \<Longrightarrow> b_type b = t \<Longrightarrow>
   take_element t f d (opt c b @ rest) = (if c then bind_exn (f b) (\<lambda>x. Inr (x, rest)) else Inr (d, rest))"
  by (auto simp: take_element_def opt_def starts_def)

lemma final_block_id_tlv:
  assumes "length v < 2 ^ 64" and "v \<noteq> []"
  shows "final_block_id (tlv_block 26 (tlv NameComponent v)) = Inr (Component NameComponent v)"
proof -
  have "blockFromValue (tlv_block 26 (tlv NameComponent v)) = Inr (tlv_block NameComponent v)"
    using read_header_tlv [OF assms(1), of NameComponent "[]"]
    by (simp add: blockFromValue_def tlv_block_def value_size_def block_value_def) (simp add: tlv_def writeVarNumber_def)
  then show ?thesis by (simp add: final_block_id_def component_of_block_def)
qed

lemma app_not_meta: "app_block b \<Longrightarrow> b_type b \<noteq> 24 \<and> b_type b \<noteq> 25 \<and> b_type b \<noteq> 26"
  by (auto simp: app_block_def word_le_nat_alt)

interpretation meta_info_wire:
  wire_type MetaInfo_wireEncode "MetaInfo_wireDecode m0" meta_info_ok 20 meta_info_blocks "meta_info_read m0" for m0
proof
  fix m w
  assume m: "meta_info_ok m"
  have app: "writes (enc_all prependBlock (rev (mi_app m))) (concat (map b_wire (rev (rev (mi_app m)))))"
    using m by (intro writes_all writes_block_ok) (auto simp: meta_info_ok_def list_all_iff)
  show "writes (MetaInfo_wireEncode m) (tlv 20 (concat (map b_wire (meta_info_blocks m))))"
    unfolding MetaInfo_wireEncode_def
    by (rule writes_tlv, rule writes_cong,
        (rule writes_then writes_when app writes_integer_block writes_nested Component_writes)+)
      (simp add: meta_info_blocks_def)
  show ok: "list_all wire_ok (meta_info_blocks m)" using m by (rule meta_info_blocks_ok)
  show "length (concat (map b_wire (meta_info_blocks m))) < 2 ^ 64" using m by (simp add: meta_info_ok_def)
  show "MetaInfo_wireDecode m0 (tlv_block 20 w) = Inr (meta_info_read m0 m)"
    if w: "w = concat (map b_wire (meta_info_blocks m))"
  proof -
    have app: "\<not> starts 24 (mi_app m)" "\<not> starts 25 (mi_app m)" "\<not> starts 26 (mi_app m)"
      using m app_not_meta by (cases "mi_app m"; auto simp: meta_info_ok_def starts_def)+
    have final: "c_value (mi_finalBlockId m) \<noteq> [] \<Longrightarrow>
        final_block_id (tlv_block 26 (tlv (c_type (mi_finalBlockId m)) (c_value (mi_finalBlockId m)))) = Inr (mi_finalBlockId m)"
      using m meta_info_final_short [OF m] final_block_id_tlv [of "c_value (mi_finalBlockId m)"]
      by (cases "mi_finalBlockId m") (auto simp: meta_info_ok_def)
    have none: "c_value (mi_finalBlockId m) = [] \<Longrightarrow> mi_finalBlockId m = Component NameComponent []"
      using m by (cases "mi_finalBlockId m") (simp add: meta_info_ok_def)
    have fresh: "mi_freshness m \<ge> 0 \<Longrightarrow> sint (of_int (mi_freshness m) :: u64) = mi_freshness m"
      using m by (intro sint_of_int_id) (simp_all add: meta_info_ok_def)
    have type: "ucast (ucast (mi_type m) :: u64) = mi_type m"
      by (rule ucast_u32_u64)
    let ?f = "opt (c_value (mi_finalBlockId m) \<noteq> [])
        (tlv_block 26 (tlv (c_type (mi_finalBlockId m)) (c_value (mi_finalBlockId m)))) @ mi_app m"
    let ?g = "opt (mi_freshness m \<ge> 0) (tlv_block 25 (prependNonNegativeInteger (of_int (mi_freshness m)))) @ ?f"
    have "take_element 26 final_block_id (Component NameComponent []) ?f = Inr (mi_finalBlockId m, mi_app m)"
      using app final none by (subst take_element_opt) simp_all
    moreover have "take_element 25 (\<lambda>e. map_sum id sint (block_integer e)) milliseconds_min ?g =
        Inr (if mi_freshness m \<ge> 0 then mi_freshness m else milliseconds_min, ?f)"
      using app fresh by (subst take_element_opt) simp_all
    moreover have "take_element 24 block_integer 0 (meta_info_blocks m) = Inr (ucast (mi_type m), ?g)"
      unfolding meta_info_blocks_def using app by (subst take_element_opt) simp_all
    ultimately show ?thesis
      unfolding w MetaInfo_wireDecode_def parsed_tlv_block [OF ok]
      by (simp add: meta_info_read_def type)
  qed
qed

end
