(* ===== verification/Selector_Fields.thy ===== *)
theory Selector_Fields
  imports Packet_Fields
begin

text \<open>
  The selectors of an Interest (ndn-cxx \<^verbatim>\<open>exclude.cpp\<close>, \<^verbatim>\<open>selectors.cpp\<close>).  An exclude filter is a map from components
  to a flag that says that everything up to the next component is excluded as well; it is ordered from the greatest
  component down.  Shown: which components each operation adds to the excluded ones, and that filters and selectors
  are decoded to what was encoded.
\<close>

section \<open>Exclude filters\<close>

datatype exclude_component = NegInf | ExcludeComponent component

instantiation exclude_component :: linorder
begin

fun less_exclude_component :: "exclude_component \<Rightarrow> exclude_component \<Rightarrow> bool" where
  "(NegInf < ExcludeComponent _) = True"
| "(ExcludeComponent a < ExcludeComponent b) = (a < b)"
| "(_ < NegInf) = False"

definition less_eq_exclude_component :: "exclude_component \<Rightarrow> exclude_component \<Rightarrow> bool" where
  "a \<le> b \<longleftrightarrow> (a :: exclude_component) < b \<or> a = b"

instance
proof
  fix x y z :: exclude_component
  show "(x < y) = (x \<le> y \<and> \<not> y \<le> x)" by (cases x; cases y) (auto simp: less_eq_exclude_component_def)
  show "x \<le> x" by (simp add: less_eq_exclude_component_def)
  show "x \<le> y \<Longrightarrow> y \<le> z \<Longrightarrow> x \<le> z" by (cases x; cases y; cases z) (auto simp: less_eq_exclude_component_def)
  show "x \<le> y \<Longrightarrow> y \<le> x \<Longrightarrow> x = y" by (cases x; cases y) (auto simp: less_eq_exclude_component_def)
  show "x \<le> y \<or> y \<le> x" by (cases x; cases y) (auto simp: less_eq_exclude_component_def)
qed

end

type_synonym exclude = "(exclude_component \<times> bool) list"

text \<open>\<^verbatim>\<open>std::map::emplace\<close> keeps an entry that is there.  \<^verbatim>\<open>lower_bound\<close> in the descending order is the first entry that
  is not greater.\<close>

fun appendEntry :: "exclude_component \<Rightarrow> bool \<Rightarrow> exclude \<Rightarrow> exclude" where
  "appendEntry k any [] = [(k, any)]"
| "appendEntry k any ((k', any') # es) =
     (if k < k' then (k', any') # appendEntry k any es
      else if k' = k then (k', any') # es
      else (k, any) # (k', any') # es)"

definition lower_bound :: "exclude_component \<Rightarrow> exclude \<Rightarrow> exclude" where
  "lower_bound k es = dropWhile (\<lambda>(k', _). k < k') es"

definition isExcluded :: "component \<Rightarrow> exclude \<Rightarrow> bool" where
  "isExcluded c es =
     (case lower_bound (ExcludeComponent c) es of
        [] \<Rightarrow> False
      | (k, any) # _ \<Rightarrow> any \<or> k = ExcludeComponent c)"

definition excludeOne :: "component \<Rightarrow> exclude \<Rightarrow> exclude" where
  "excludeOne c es = (if \<not> isExcluded c es then appendEntry (ExcludeComponent c) False es else es)"

text \<open>The start of a range: an entry that covers it, or an entry of its own with the flag set.\<close>

definition set_any :: "exclude_component \<Rightarrow> exclude \<Rightarrow> exclude" where
  "set_any k es = map (\<lambda>(k', any). (k', any \<or> k' = k)) (appendEntry k True es)"

definition range_start :: "exclude_component \<Rightarrow> exclude \<Rightarrow> exclude_component \<times> exclude" where
  "range_start from es =
     (case lower_bound from es of
        (k, True) # _ \<Rightarrow> (k, es)
      | _ \<Rightarrow> (from, set_any from es))"

definition excludeRange :: "exclude_component \<Rightarrow> component \<Rightarrow> exclude \<Rightarrow> exn + exclude" where
  "excludeRange from to es =
     (if from \<noteq> NegInf \<and> ExcludeComponent to \<le> from then Inl TlvError
      else let (newFrom, es) = range_start from es
           in case lower_bound (ExcludeComponent to) es of
                [] \<Rightarrow> Inl TlvError
              | (k, any) # _ \<Rightarrow>
                  if k = newFrom \<or> \<not> any
                  then Inr (filter (\<lambda>(k', _). \<not> (newFrom < k' \<and> k' < ExcludeComponent to))
                         (appendEntry (ExcludeComponent to) False es))
                  else Inr (filter (\<lambda>(k', _). \<not> (newFrom < k' \<and> k' \<le> k)) es))"

definition excludeBefore :: "component \<Rightarrow> exclude \<Rightarrow> exn + exclude" where
  "excludeBefore to es = excludeRange NegInf to es"

definition excludeAfter :: "component \<Rightarrow> exclude \<Rightarrow> exclude" where
  "excludeAfter from es =
     (let (newFrom, es) = range_start (ExcludeComponent from) es in filter (\<lambda>(k', _). \<not> newFrom < k') es)"

text \<open>Encoding goes down the map, so the bytes go up.\<close>

definition Exclude_wireEncode :: "exclude \<Rightarrow> encoding" where
  "Exclude_wireEncode es =
     (if es = [] then enc_throw
      else enc_tlv 16 (enc_all (\<lambda>(k, any).
        enc_then (enc_when any (prependEmptyBlock 19))
          (case k of NegInf \<Rightarrow> enc_nothing | ExcludeComponent c \<Rightarrow> Component_wireEncode c)) es))"

fun exclude_loop :: "block list \<Rightarrow> exclude \<Rightarrow> exn + exclude" where
  "exclude_loop [] es = Inr es"
| "exclude_loop [b] es = bind_exn (component_of_block b) (\<lambda>c. Inr (appendEntry (ExcludeComponent c) False es))"
| "exclude_loop (b # b' # bs) es =
     bind_exn (component_of_block b) (\<lambda>c.
       if b_type b' = 19 then exclude_loop bs (appendEntry (ExcludeComponent c) True es)
       else exclude_loop (b' # bs) (appendEntry (ExcludeComponent c) False es))"

definition Exclude_wireDecode :: "block \<Rightarrow> exn + exclude" where
  "Exclude_wireDecode wire =
     (if b_type wire \<noteq> 16 then Inl TlvError
      else bind_exn (parsed wire) (\<lambda>b.
        case b_elements b of
          [] \<Rightarrow> Inl TlvError
        | e # es \<Rightarrow> if b_type e = 19 then exclude_loop es (appendEntry NegInf True []) else exclude_loop (e # es) []))"

text \<open>A range inside one that is already excluded cuts that one off: after \<open>a\<close> and everything above it is excluded, excluding
  the range from \<open>b\<close> to \<open>c\<close> makes \<open>d\<close> pass.\<close>

lemma excludeRange_inside_cuts:
  assumes "a < b" and "b < c" and "c < d"
  shows "isExcluded d (excludeAfter a [])" and "\<exists>es. excludeRange (ExcludeComponent b) c (excludeAfter a []) = Inr es \<and> \<not> isExcluded d es"
proof -
  have after: "excludeAfter a [] = [(ExcludeComponent a, True)]"
    by (simp add: excludeAfter_def range_start_def lower_bound_def set_any_def)
  have "\<not> b < a" "\<not> d < a" "\<not> c < a" "\<not> c \<le> b" "\<not> d < c" using assms by auto
  then show "isExcluded d (excludeAfter a [])"
    by (simp add: after isExcluded_def lower_bound_def)
  show "\<exists>es. excludeRange (ExcludeComponent b) c (excludeAfter a []) = Inr es \<and> \<not> isExcluded d es"
    using assms \<open>\<not> b < a\<close> \<open>\<not> c < a\<close> \<open>\<not> c \<le> b\<close> \<open>\<not> d < c\<close>
    by (auto simp: after excludeRange_def range_start_def lower_bound_def isExcluded_def less_eq_exclude_component_def)
qed

lemma excludeOne_excludes: "isExcluded c (excludeOne c es)"
  unfolding excludeOne_def
proof (cases "isExcluded c es")
  case False
  have "case lower_bound (ExcludeComponent c) (appendEntry (ExcludeComponent c) any es) of
      [] \<Rightarrow> False | (k, any) # _ \<Rightarrow> any \<or> k = ExcludeComponent c" for any
    by (induction es) (auto simp: lower_bound_def split: if_splits)
  with False show "isExcluded c (if \<not> isExcluded c es then appendEntry (ExcludeComponent c) False es else es)"
    by (simp add: isExcluded_def)
qed simp

subsection \<open>Round trip\<close>

definition keys_down :: "exclude \<Rightarrow> bool" where
  "keys_down es \<longleftrightarrow> sorted_wrt (\<lambda>a b. fst b < fst a) es"

fun entry_ok :: "exclude_component \<times> bool \<Rightarrow> bool" where
  "entry_ok (NegInf, any) \<longleftrightarrow> any"
| "entry_ok (ExcludeComponent c, any) \<longleftrightarrow>
     c_type c = NameComponent \<or> c_type c = ImplicitSha256DigestComponent \<and> length (c_value c) = 32"

fun entry_blocks :: "exclude_component \<times> bool \<Rightarrow> block list" where
  "entry_blocks (NegInf, any) = opt any (tlv_block 19 [])"
| "entry_blocks (ExcludeComponent c, any) = tlv_block (c_type c) (c_value c) # opt any (tlv_block 19 [])"

definition exclude_blocks :: "exclude \<Rightarrow> block list" where
  "exclude_blocks es = concat (map entry_blocks (rev es))"

definition exclude_ok :: "exclude \<Rightarrow> bool" where
  "exclude_ok es \<longleftrightarrow> es \<noteq> [] \<and> keys_down es \<and> list_all entry_ok es \<and>
     length (concat (map b_wire (exclude_blocks es))) < 2 ^ 64"

lemma appendEntry_top: "\<forall>e \<in> set es. fst e < k \<Longrightarrow> appendEntry k any es = (k, any) # es"
  by (cases es) auto

lemma entry_block: "b \<in> set (entry_blocks e) \<Longrightarrow> \<exists>t v. b = tlv_block t v"
  by (cases e rule: entry_blocks.cases) (auto split: if_splits)

lemma exclude_blocks_ok:
  assumes "exclude_ok es"
  shows "list_all wire_ok (exclude_blocks es)"
  unfolding list_all_iff
proof
  fix b assume b: "b \<in> set (exclude_blocks es)"
  then obtain t v where tv: "b = tlv_block t v"
    using entry_block by (fastforce simp: exclude_blocks_def)
  then have "length v < 2 ^ 64"
    using b assms unfolding exclude_ok_def by (blast intro: tlv_element_short)
  with tv show "wire_ok b" by (simp add: wire_ok_tlv)
qed

text \<open>Going up, each entry is put on top of the ones before.\<close>

lemma exclude_loop_up:
  assumes "list_all entry_ok up" and "sorted_wrt (\<lambda>a b. fst a < fst b) up"
    and "\<forall>e \<in> set up. fst e \<noteq> NegInf" and "\<forall>e \<in> set up. \<forall>d \<in> set es. fst d < fst e"
  shows "exclude_loop (concat (map entry_blocks up)) es = Inr (rev up @ es)"
  using assms
proof (induction up arbitrary: es)
  case (Cons e up)
  obtain c any where e: "e = (ExcludeComponent c, any)"
    using Cons.prems(3) by (cases e; cases "fst e") auto
  let ?b = "tlv_block (c_type c) (c_value c)"
  have c: "component_of_block ?b = Inr c"
    using Cons.prems(1) e by (cases c) (auto simp: component_of_block_def)
  have top: "appendEntry (ExcludeComponent c) any' es = (ExcludeComponent c, any') # es" for any'
    using Cons.prems(4) e by (intro appendEntry_top) auto
  have IH: "exclude_loop (concat (map entry_blocks up)) ((ExcludeComponent c, any) # es) =
      Inr (rev up @ (ExcludeComponent c, any) # es)"
    using Cons.prems e by (intro Cons.IH) auto
  have next_type: "b_type b' \<noteq> 19" if "concat (map entry_blocks up) = b' # bs" for b' bs
  proof (cases up)
    case (Cons e' up')
    then obtain c' any' where "e' = (ExcludeComponent c', any')"
      using Cons.prems(3) by (cases e'; cases "fst e'") auto
    then show ?thesis using that Cons Cons.prems(1) by auto
  qed (use that in simp)
  show ?case
  proof (cases any)
    case True
    then show ?thesis using IH e c top by (simp add: opt_def)
  next
    case False
    then show ?thesis
      using IH e c top next_type by (cases "concat (map entry_blocks up)") (auto simp: opt_def)
  qed
qed simp

lemma Exclude_entry_writes:
  "writes (case e of (k, any) \<Rightarrow> enc_then (enc_when any (prependEmptyBlock 19))
      (case k of NegInf \<Rightarrow> enc_nothing | ExcludeComponent c \<Rightarrow> Component_wireEncode c))
    (concat (map b_wire (entry_blocks e)))"
proof (cases e rule: entry_blocks.cases)
  case (1 any)
  have "writes (enc_then (enc_when any (prependEmptyBlock 19)) enc_nothing) ([] @ (if any then tlv 19 [] else []))"
    by (intro writes_then writes_when writes_empty_block writes_nothing)
  with 1 show ?thesis by (cases any) simp_all
next
  case (2 c any)
  have "writes (enc_then (enc_when any (prependEmptyBlock 19)) (Component_wireEncode c))
      (tlv (c_type c) (c_value c) @ (if any then tlv 19 [] else []))"
    by (intro writes_then writes_when writes_empty_block Component_writes)
  with 2 show ?thesis by (cases any) simp_all
qed

text \<open>Only the last entry can be the infinite one.\<close>

lemma exclude_decode:
  assumes "exclude_ok es"
  shows "(case exclude_blocks es of [] \<Rightarrow> Inl TlvError
    | e # bs \<Rightarrow> if b_type e = 19 then exclude_loop bs (appendEntry NegInf True []) else exclude_loop (e # bs) []) = Inr es"
proof -
  obtain e down where es: "es = down @ [e]" using assms by (metis exclude_ok_def rev_exhaust)
  have up: "sorted_wrt (\<lambda>a b. fst a < fst b) (rev es)" "list_all entry_ok (rev es)"
    using assms by (auto simp: exclude_ok_def keys_down_def sorted_wrt_rev)
  have above: "\<forall>d \<in> set (rev down). fst e < fst d" using up(1) es by simp
  have finite: "\<forall>d \<in> set (rev down). fst d \<noteq> NegInf"
  proof
    fix d assume "d \<in> set (rev down)"
    with above have "fst e < fst d" by blast
    then show "fst d \<noteq> NegInf" by (cases "fst e"; cases "fst d") auto
  qed
  show ?thesis
  proof (cases "fst e")
    case NegInf
    then have e: "e = (NegInf, True)" using up(2) es by (cases e) auto
    have "exclude_loop (concat (map entry_blocks (rev down))) [e] = Inr (rev (rev down) @ [e])"
      using up es finite above by (intro exclude_loop_up) auto
    then show ?thesis using es e by (simp add: exclude_blocks_def opt_def)
  next
    case (ExcludeComponent c)
    then obtain any where e: "e = (ExcludeComponent c, any)" by (cases e) auto
    have loop: "exclude_loop (concat (map entry_blocks (rev es))) [] = Inr (rev (rev es) @ [])"
      using up es finite e by (intro exclude_loop_up) auto
    have first: "concat (map entry_blocks (rev es)) =
        tlv_block (c_type c) (c_value c) # (opt any (tlv_block 19 []) @ concat (map entry_blocks (rev down)))"
      using es e by simp
    have "c_type c \<noteq> 19" using up(2) es e by auto
    then show ?thesis using loop unfolding exclude_blocks_def first by simp
  qed
qed

interpretation exclude_wire: wire_type Exclude_wireEncode Exclude_wireDecode exclude_ok 16 exclude_blocks id
proof
  fix es :: exclude and w
  assume es: "exclude_ok es"
  let ?f = "\<lambda>(k, any). enc_then (enc_when any (prependEmptyBlock 19))
      (case k of NegInf \<Rightarrow> enc_nothing | ExcludeComponent c \<Rightarrow> Component_wireEncode c)"
  have "writes (enc_all ?f es) (concat (map (\<lambda>e. concat (map b_wire (entry_blocks e))) (rev es)))"
    by (rule writes_all) (rule Exclude_entry_writes)
  moreover have "concat (map (\<lambda>e. concat (map b_wire (entry_blocks e))) xs) = concat (map b_wire (concat (map entry_blocks xs)))" for xs
    by (induction xs) simp_all
  ultimately show "writes (Exclude_wireEncode es) (tlv 16 (concat (map b_wire (exclude_blocks es))))"
    using es by (simp add: Exclude_wireEncode_def exclude_ok_def exclude_blocks_def writes_tlv)
  show ok: "list_all wire_ok (exclude_blocks es)" using es by (rule exclude_blocks_ok)
  show "length (concat (map b_wire (exclude_blocks es))) < 2 ^ 64" using es by (simp add: exclude_ok_def)
  show "Exclude_wireDecode (tlv_block 16 w) = Inr (id es)" if w: "w = concat (map b_wire (exclude_blocks es))"
    using exclude_decode [OF es] unfolding w Exclude_wireDecode_def parsed_tlv_block [OF ok] by simp
qed

section \<open>Selectors\<close>

text \<open>The suffix bounds and the child selector are C \<^verbatim>\<open>int\<close>s; a negative one is absent.\<close>

record selectors =
  se_minSuffixComponents :: int
  se_maxSuffixComponents :: int
  se_publisherPublicKeyLocator :: key_locator
  se_exclude :: exclude
  se_childSelector :: int
  se_mustBeFresh :: bool

definition selectors_new :: selectors where
  "selectors_new = \<lparr>se_minSuffixComponents = - 1, se_maxSuffixComponents = - 1,
     se_publisherPublicKeyLocator = KeyLocator_None, se_exclude = [], se_childSelector = - 1, se_mustBeFresh = False\<rparr>"

definition Selectors_empty :: "selectors \<Rightarrow> bool" where
  "Selectors_empty s \<longleftrightarrow> se_minSuffixComponents s < 0 \<and> se_maxSuffixComponents s < 0 \<and>
     se_publisherPublicKeyLocator s = KeyLocator_None \<and> se_exclude s = [] \<and> se_childSelector s < 0 \<and> \<not> se_mustBeFresh s"

definition Selectors_wireEncode :: "selectors \<Rightarrow> encoding" where
  "Selectors_wireEncode s =
     enc_tlv 9
       (enc_then (enc_when (se_mustBeFresh s) (prependEmptyBlock 18))
       (enc_then (enc_when (se_childSelector s \<ge> 0) (prependNonNegativeIntegerBlock 17 (of_int (se_childSelector s))))
       (enc_then (enc_when (se_exclude s \<noteq> []) (Exclude_wireEncode (se_exclude s)))
       (enc_then (enc_when (se_publisherPublicKeyLocator s \<noteq> KeyLocator_None)
                    (KeyLocator_wireEncode (se_publisherPublicKeyLocator s)))
       (enc_then (enc_when (se_maxSuffixComponents s \<ge> 0)
                    (prependNonNegativeIntegerBlock 14 (of_int (se_maxSuffixComponents s))))
                 (enc_when (se_minSuffixComponents s \<ge> 0)
                    (prependNonNegativeIntegerBlock 13 (of_int (se_minSuffixComponents s)))))))))"

text \<open>A field is decoded from the first element of its type, if there is one.\<close>

definition from_element :: "u32 \<Rightarrow> (block \<Rightarrow> exn + 'a) \<Rightarrow> 'a \<Rightarrow> block \<Rightarrow> exn + 'a" where
  "from_element t f absent b = (case block_find t b of Some e \<Rightarrow> f e | None \<Rightarrow> Inr absent)"

definition int_element :: "block \<Rightarrow> exn + int" where
  "int_element e = map_sum id (\<lambda>v. sint (ucast v :: u32)) (block_integer e)"

definition Selectors_wireDecode :: "block \<Rightarrow> exn + selectors" where
  "Selectors_wireDecode wire =
     (if b_type wire \<noteq> 9 then Inl TlvError
      else bind_exn (parsed wire) (\<lambda>b.
        bind_exn (from_element 13 int_element (- 1) b) (\<lambda>mn.
        bind_exn (from_element 14 int_element (- 1) b) (\<lambda>mx.
        bind_exn (from_element 28 KeyLocator_wireDecode KeyLocator_None b) (\<lambda>k.
        bind_exn (from_element 16 Exclude_wireDecode [] b) (\<lambda>ex.
        bind_exn (from_element 17 int_element (- 1) b) (\<lambda>ch.
          Inr \<lparr>se_minSuffixComponents = mn, se_maxSuffixComponents = mx, se_publisherPublicKeyLocator = k,
            se_exclude = ex, se_childSelector = ch, se_mustBeFresh = (block_find 18 b \<noteq> None)\<rparr>)))))))"

definition selectors_blocks :: "selectors \<Rightarrow> block list" where
  "selectors_blocks s =
     opt (se_minSuffixComponents s \<ge> 0) (tlv_block 13 (prependNonNegativeInteger (of_int (se_minSuffixComponents s)))) @
     opt (se_maxSuffixComponents s \<ge> 0) (tlv_block 14 (prependNonNegativeInteger (of_int (se_maxSuffixComponents s)))) @
     opt (se_publisherPublicKeyLocator s \<noteq> KeyLocator_None) (key_locator_wire.wire (se_publisherPublicKeyLocator s)) @
     opt (se_exclude s \<noteq> []) (exclude_wire.wire (se_exclude s)) @
     opt (se_childSelector s \<ge> 0) (tlv_block 17 (prependNonNegativeInteger (of_int (se_childSelector s)))) @
     opt (se_mustBeFresh s) (tlv_block 18 [])"

definition selectors_ok :: "selectors \<Rightarrow> bool" where
  "selectors_ok s \<longleftrightarrow>
     se_minSuffixComponents s < 2 ^ 31 \<and> se_maxSuffixComponents s < 2 ^ 31 \<and> se_childSelector s < 2 ^ 31 \<and>
     key_locator_ok (se_publisherPublicKeyLocator s) \<and> (se_exclude s \<noteq> [] \<longrightarrow> exclude_ok (se_exclude s)) \<and>
     length (concat (map b_wire (selectors_blocks s))) < 2 ^ 64"

definition or_absent :: "int \<Rightarrow> int" where
  "or_absent k = (if k \<ge> 0 then k else - 1)"

definition selectors_read :: "selectors \<Rightarrow> selectors" where
  "selectors_read s = s\<lparr>se_minSuffixComponents := or_absent (se_minSuffixComponents s),
     se_maxSuffixComponents := or_absent (se_maxSuffixComponents s), se_childSelector := or_absent (se_childSelector s)\<rparr>"

lemma exclude_wire_type [simp]: "b_type (exclude_wire.wire es) = 16"
  by (simp add: exclude_wire.wire_def)

lemma int_element_tlv:
  assumes "0 \<le> k" and "k < 2 ^ 31"
  shows "int_element (tlv_block t (prependNonNegativeInteger (of_int k))) = Inr k"
  using sint_ucast_of_int [of k] assms by (simp add: int_element_def)

interpretation selectors_wire:
  wire_type Selectors_wireEncode Selectors_wireDecode selectors_ok 9 selectors_blocks selectors_read
proof
  fix s w
  assume s: "selectors_ok s"
  have ex: "se_exclude s \<noteq> [] \<Longrightarrow> exclude_ok (se_exclude s)" and k: "key_locator_ok (se_publisherPublicKeyLocator s)"
    using s by (simp_all add: selectors_ok_def)
  show "writes (Selectors_wireEncode s) (tlv 9 (concat (map b_wire (selectors_blocks s))))"
    unfolding Selectors_wireEncode_def
    by (rule writes_tlv, rule writes_cong,
        (rule writes_then writes_when writes_empty_block writes_integer_block
          exclude_wire.writes_wire [OF ex] key_locator_wire.writes_wire [OF k] | assumption)+)
      (simp add: selectors_blocks_def)
  show ok: "list_all wire_ok (selectors_blocks s)"
    using exclude_wire.wire_ok_wire [OF ex] key_locator_wire.wire_ok_wire [OF k]
    by (simp add: selectors_blocks_def wire_ok_tlv)
  show "length (concat (map b_wire (selectors_blocks s))) < 2 ^ 64" using s by (simp add: selectors_ok_def)
  show "Selectors_wireDecode (tlv_block 9 w) = Inr (selectors_read s)" if w: "w = concat (map b_wire (selectors_blocks s))"
  proof -
    let ?b = "Block 9 (tlv 9 w) (Some w) (selectors_blocks s)"
    note find = block_find_def selectors_blocks_def from_element_def or_absent_def
    have "from_element 13 int_element (- 1) ?b = Inr (or_absent (se_minSuffixComponents s))"
      "from_element 14 int_element (- 1) ?b = Inr (or_absent (se_maxSuffixComponents s))"
      "from_element 17 int_element (- 1) ?b = Inr (or_absent (se_childSelector s))"
      using s by (simp_all add: find int_element_tlv selectors_ok_def)
    moreover have "from_element 28 KeyLocator_wireDecode KeyLocator_None ?b = Inr (se_publisherPublicKeyLocator s)"
      using key_locator_wire.dec_wire [OF k] by (simp add: find)
    moreover have "from_element 16 Exclude_wireDecode [] ?b = Inr (se_exclude s)"
      using exclude_wire.dec_wire [OF ex] by (simp add: find)
    moreover have "block_find 18 ?b \<noteq> None \<longleftrightarrow> se_mustBeFresh s" by (simp add: find)
    moreover have "parsed (tlv_block 9 w) = Inr ?b" using parsed_tlv_block [OF ok, of 9] by (simp add: w)
    ultimately show ?thesis
      unfolding Selectors_wireDecode_def by (simp add: selectors_read_def)
  qed
qed

end
