(* ===== verification/Signature_Fields.thy ===== *)
theory Signature_Fields
  imports Packet_Fields
begin

text \<open>
  The signature information of a Data packet (ndn-cxx \<^verbatim>\<open>signature-info.cpp\<close>, \<^verbatim>\<open>signature.cpp\<close>).  Its encoding function puts
  the type and the key locator in front and appends the extra elements behind, the last one first.  Shown: what is
  encoded is decoded to the same information, with the extra elements in reverse order.
\<close>

record signature_info =
  si_type :: int
  si_keyLocator :: "key_locator option"
  si_otherTlvs :: "block list"
  si_wire :: block

definition signature_info_new :: "int \<Rightarrow> signature_info" where
  "signature_info_new t = \<lparr>si_type = t, si_keyLocator = None, si_otherTlvs = [], si_wire = block_empty\<rparr>"

definition setSignatureType :: "int \<Rightarrow> signature_info \<Rightarrow> signature_info" where
  "setSignatureType t si = si\<lparr>si_wire := block_empty, si_type := t\<rparr>"

definition setKeyLocator :: "key_locator \<Rightarrow> signature_info \<Rightarrow> signature_info" where
  "setKeyLocator k si = si\<lparr>si_wire := block_empty, si_keyLocator := Some k\<rparr>"

definition unsetKeyLocator :: "signature_info \<Rightarrow> signature_info" where
  "unsetKeyLocator si = si\<lparr>si_wire := block_empty, si_keyLocator := None\<rparr>"

definition getKeyLocator :: "signature_info \<Rightarrow> exn + key_locator" where
  "getKeyLocator si = (case si_keyLocator si of Some k \<Rightarrow> Inr k | None \<Rightarrow> Inl TlvError)"

definition appendTypeSpecificTlv :: "block \<Rightarrow> signature_info \<Rightarrow> signature_info" where
  "appendTypeSpecificTlv b si = si\<lparr>si_wire := block_empty, si_otherTlvs := si_otherTlvs si @ [b]\<rparr>"

definition getTypeSpecificTlv :: "u32 \<Rightarrow> signature_info \<Rightarrow> exn + block" where
  "getTypeSpecificTlv t si =
     (case find (\<lambda>b. b_type b = t) (si_otherTlvs si) of Some b \<Rightarrow> Inr b | None \<Rightarrow> Inl TlvError)"

definition SignatureInfo_encode :: "signature_info \<Rightarrow> encoding" where
  "SignatureInfo_encode si =
     enc_tlv 22
       (enc_then (enc_all appendBlock (rev (si_otherTlvs si)))
       (enc_then (case si_keyLocator si of None \<Rightarrow> enc_nothing | Some k \<Rightarrow> KeyLocator_wireEncode k)
                 (prependNonNegativeIntegerBlock 27 (of_int (si_type si)))))"

text \<open>The encoding is kept until a setter resets it.\<close>

definition SignatureInfo_wireEncode :: "signature_info \<Rightarrow> exn + (block \<times> signature_info)" where
  "SignatureInfo_wireEncode si =
     (if hasWire (si_wire si) then Inr (si_wire si, si)
      else bind_exn (two_passes (SignatureInfo_encode si)) (\<lambda>b. Inr (b, si\<lparr>si_wire := b\<rparr>)))"

definition SignatureInfo_wireDecode :: "block \<Rightarrow> exn + signature_info" where
  "SignatureInfo_wireDecode wire =
     (if \<not> hasWire wire then Inl TlvError
      else bind_exn (parsed wire) (\<lambda>b.
        if b_type b \<noteq> 22 then Inl TlvError
        else if \<not> (b_elements b \<noteq> [] \<and> b_type (hd (b_elements b)) = 27) then Inl TlvError
        else bind_exn (block_integer (hd (b_elements b))) (\<lambda>v.
          bind_exn (take_element 28 (\<lambda>e. map_sum id Some (KeyLocator_wireDecode e)) None (tl (b_elements b)))
            (\<lambda>(k, val). Inr \<lparr>si_type = sint (ucast v :: u32), si_keyLocator = k, si_otherTlvs = val, si_wire = wire\<rparr>))))"

section \<open>Round trip\<close>

definition signature_blocks :: "signature_info \<Rightarrow> block list" where
  "signature_blocks si =
     tlv_block 27 (prependNonNegativeInteger (of_int (si_type si))) #
     opt (si_keyLocator si \<noteq> None) (key_locator_wire.wire (the (si_keyLocator si))) @ rev (si_otherTlvs si)"

definition signature_ok :: "signature_info \<Rightarrow> bool" where
  "signature_ok si \<longleftrightarrow>
     - (2 ^ 31) \<le> si_type si \<and> si_type si < 2 ^ 31 \<and>
     (\<forall>k. si_keyLocator si = Some k \<longrightarrow> key_locator_ok k) \<and>
     list_all wire_ok (si_otherTlvs si) \<and> (si_keyLocator si = None \<longrightarrow> \<not> starts 28 (rev (si_otherTlvs si))) \<and>
     length (concat (map b_wire (signature_blocks si))) < 2 ^ 64"

lemma appendBlock_wrote:
  assumes "wire_ok b" and "encoder_ok en"
  shows "\<exists>en'. appendBlock b en = Inr (length (b_wire b), en') \<and> wrote [] (b_wire b) en en'"
  using appendByteArray_wrote(1) [OF assms(2), of "b_wire b"] assms(1)
  by (auto simp: appendBlock_def enc_of_def)

lemma append_all_wrote:
  "list_all wire_ok bs \<Longrightarrow> encoder_ok en \<Longrightarrow>
   \<exists>en'. enc_all appendBlock bs en = Inr (length (concat (map b_wire bs)), en') \<and>
     wrote [] (concat (map b_wire bs)) en en'"
proof (induction bs arbitrary: en)
  case Nil
  then show ?case by (auto simp: enc_nothing_def intro: wrote_refl)
next
  case (Cons b bs)
  obtain en1 where en1: "appendBlock b en = Inr (length (b_wire b), en1)" "wrote [] (b_wire b) en en1"
    using appendBlock_wrote [of b en] Cons.prems by auto
  obtain en2 where en2: "enc_all appendBlock bs en1 = Inr (length (concat (map b_wire bs)), en2)"
    "wrote [] (concat (map b_wire bs)) en1 en2"
    using Cons.IH [OF _ wrote_ok [OF en1(2)]] Cons.prems(1) by auto
  show ?case using en1 en2 wrote_trans [OF en1(2) en2(2)] by (simp add: enc_then_def)
qed

text \<open>Two passes over a function that writes in front after elements were appended.\<close>

lemma two_passes_append:
  assumes bs: "list_all wire_ok bs" and f: "writes f w" and short: "length (w @ concat (map b_wire bs)) < 2 ^ 64"
  shows "two_passes (enc_tlv t (enc_then (enc_all appendBlock bs) f)) = Inr (tlv_block t (w @ concat (map b_wire bs)))"
proof -
  let ?v = "w @ concat (map b_wire bs)"
  let ?h = "\<lambda>n. enc_then (enc_of (prependVarNumber n)) (enc_of (prependVarNumber (unat t)))"
  have h: "writes (?h n) (writeVarNumber (unat t) @ writeVarNumber n)" for n
    by (rule writes_then [OF writes_number writes_number])
  have run: "\<exists>en'. enc_tlv t (enc_then (enc_all appendBlock bs) f) en = Inr (length (tlv t ?v), en') \<and>
      wrote (writeVarNumber (unat t) @ writeVarNumber (length ?v) @ w) (concat (map b_wire bs)) en en'"
    if en: "encoder_ok en" for en
  proof -
    obtain en1 where en1: "enc_all appendBlock bs en = Inr (length (concat (map b_wire bs)), en1)"
      "wrote [] (concat (map b_wire bs)) en en1"
      using append_all_wrote [OF bs en] by blast
    obtain en2 where en2: "f en1 = Inr (length w, en2)" "wrote w [] en1 en2"
      using writesD [OF f wrote_ok [OF en1(2)]] by blast
    obtain en3 where en3: "?h (length ?v) en2 = Inr (length (writeVarNumber (unat t) @ writeVarNumber (length ?v)), en3)"
      "wrote (writeVarNumber (unat t) @ writeVarNumber (length ?v)) [] en2 en3"
      using writesD [OF h wrote_ok [OF en2(2)], of "length ?v"] by blast
    have "enc_tlv t (enc_then (enc_all appendBlock bs) f) en = Inr (length (tlv t ?v), en3)"
      using en1(1) en2(1) en3(1)
      by (auto simp: enc_tlv_def enc_then_def enc_of_def case_prod_beta Let_def tlv_def add.commute)
    with wrote_trans [OF wrote_trans [OF en1(2) en2(2)] en3(2)] show ?thesis by auto
  qed
  let ?n = "Encoder_new (length (tlv t ?v)) 0"
  have new: "encoder_ok ?n" "contents ?n = []" "?n \<noteq> Estimator" by (simp_all add: Encoder_new_def Let_def)
  obtain en where en: "enc_tlv t (enc_then (enc_all appendBlock bs) f) ?n = Inr (length (tlv t ?v), en)"
    "wrote (writeVarNumber (unat t) @ writeVarNumber (length ?v) @ w) (concat (map b_wire bs)) ?n en"
    using run [OF new(1)] by blast
  have "contents en = tlv t ?v"
    using wrote_contents [OF en(2) new(3)] new(2) by (simp add: tlv_def)
  moreover obtain en' where "enc_tlv t (enc_then (enc_all appendBlock bs) f) Estimator = Inr (length (tlv t ?v), en')"
    using run [of Estimator] by auto
  ultimately show ?thesis
    using en(1) wire_ok_tlv [OF short, of t]
    by (simp add: two_passes_def encoder_block_def wire_ok_def tlv_block_def)
qed

lemma signature_blocks_ok: "signature_ok si \<Longrightarrow> list_all wire_ok (signature_blocks si)"
  by (auto simp: signature_ok_def signature_blocks_def key_locator_wire.wire_ok_wire)

lemma SignatureInfo_encode_wire:
  assumes "signature_ok si"
  shows "two_passes (SignatureInfo_encode si) = Inr (tlv_block 22 (concat (map b_wire (signature_blocks si))))"
proof -
  let ?w = "tlv 27 (prependNonNegativeInteger (of_int (si_type si))) @
    (if si_keyLocator si = None then [] else b_wire (key_locator_wire.wire (the (si_keyLocator si))))"
  have "writes (case si_keyLocator si of None \<Rightarrow> enc_nothing | Some k \<Rightarrow> KeyLocator_wireEncode k)
      (if si_keyLocator si = None then [] else b_wire (key_locator_wire.wire (the (si_keyLocator si))))"
    using assms by (cases "si_keyLocator si") (auto simp: signature_ok_def intro: key_locator_wire.writes_wire)
  then have f: "writes (enc_then (case si_keyLocator si of None \<Rightarrow> enc_nothing | Some k \<Rightarrow> KeyLocator_wireEncode k)
      (prependNonNegativeIntegerBlock 27 (of_int (si_type si)))) ?w"
    by (rule writes_then [OF _ writes_integer_block])
  have "concat (map b_wire (signature_blocks si)) = ?w @ concat (map b_wire (rev (si_otherTlvs si)))"
    by (simp add: signature_blocks_def)
  then show ?thesis
    unfolding SignatureInfo_encode_def
    using two_passes_append [OF _ f, of "rev (si_otherTlvs si)" 22] assms by (simp add: signature_ok_def)
qed

lemma SignatureInfo_decode_wire:
  assumes "signature_ok si"
  shows "SignatureInfo_wireDecode (tlv_block 22 (concat (map b_wire (signature_blocks si)))) =
    Inr (si\<lparr>si_otherTlvs := rev (si_otherTlvs si), si_wire := tlv_block 22 (concat (map b_wire (signature_blocks si)))\<rparr>)"
proof -
  have type: "sint (ucast (of_int (si_type si) :: u64) :: u32) = si_type si"
    using assms by (intro sint_ucast_of_int) (simp_all add: signature_ok_def)
  have "take_element 28 (\<lambda>e. map_sum id Some (KeyLocator_wireDecode e)) None (tl (signature_blocks si)) =
      Inr (si_keyLocator si, rev (si_otherTlvs si))"
  proof (cases "si_keyLocator si")
    case None
    then show ?thesis using assms by (auto simp: signature_blocks_def signature_ok_def opt_def take_element_def starts_def)
  next
    case (Some k)
    then show ?thesis
      using assms by (simp add: signature_blocks_def signature_ok_def opt_def take_element_def key_locator_wire.dec_wire)
  qed
  moreover have "hd (signature_blocks si) = tlv_block 27 (prependNonNegativeInteger (of_int (si_type si)))"
    "signature_blocks si \<noteq> []"
    by (simp_all add: signature_blocks_def)
  ultimately show ?thesis
    unfolding SignatureInfo_wireDecode_def parsed_tlv_block [OF signature_blocks_ok [OF assms]]
    by (simp add: type)
qed

text \<open>Two extra elements change places.\<close>

lemma signature_info_reverses:
  assumes "signature_ok si" and "si_otherTlvs si = [a, b]" and "\<not> hasWire (si_wire si)"
  shows "\<exists>w si'. SignatureInfo_wireEncode si = Inr (w, si\<lparr>si_wire := w\<rparr>) \<and> SignatureInfo_wireDecode w = Inr si' \<and>
    si_otherTlvs si' = [b, a]"
  using SignatureInfo_encode_wire [OF assms(1)] SignatureInfo_decode_wire [OF assms(1)] assms(2,3)
  by (simp add: SignatureInfo_wireEncode_def)

end
