(* ===== verification/Packet_Wire.thy ===== *)
theory Packet_Wire
  imports Selector_Fields Signature_Fields
begin

text \<open>
  The wire encoding of Interest and Data packets (ndn-cxx \<^verbatim>\<open>interest.cpp\<close>, \<^verbatim>\<open>data.cpp\<close>) and of a block in a frame
  (\<^verbatim>\<open>model/ndn-block-header.cpp\<close>).  A packet keeps its encoding until a setter resets it.  Shown: what is encoded is
  decoded to the same packet, up to the defaults that are not encoded.
\<close>

section \<open>Interests\<close>

text \<open>\<open>ip_lifetime\<close> counts milliseconds; an Interest without a selected delegation has the largest index in the code,
  \<open>None\<close> here.\<close>

record interest_packet =
  ip_name :: name
  ip_selectors :: selectors
  ip_nonce :: block
  ip_lifetime :: int
  ip_link :: block
  ip_selectedDelegation :: "nat option"
  ip_wire :: block

abbreviation DEFAULT_INTEREST_LIFETIME :: int where
  "DEFAULT_INTEREST_LIFETIME \<equiv> 4000"

definition Interest_new :: "name \<Rightarrow> int \<Rightarrow> interest_packet" where
  "Interest_new n lifetime = \<lparr>ip_name = n, ip_selectors = selectors_new, ip_nonce = block_empty, ip_lifetime = lifetime,
     ip_link = block_empty, ip_selectedDelegation = None, ip_wire = block_empty\<rparr>"

definition setLink :: "block \<Rightarrow> interest_packet \<Rightarrow> exn + interest_packet" where
  "setLink link i =
     (if \<not> hasWire link then Inl TlvError
      else Inr (i\<lparr>ip_link := link, ip_wire := block_empty, ip_selectedDelegation := None\<rparr>))"

definition unsetLink :: "interest_packet \<Rightarrow> interest_packet" where
  "unsetLink i = i\<lparr>ip_link := block_empty, ip_wire := block_empty, ip_selectedDelegation := None\<rparr>"

definition setInterestLifetime :: "int \<Rightarrow> interest_packet \<Rightarrow> interest_packet" where
  "setInterestLifetime ms i = i\<lparr>ip_lifetime := ms, ip_wire := block_empty\<rparr>"

text \<open>\<^verbatim>\<open>getNonce\<close> draws one when there is none; the random word is an argument, its bytes are those of a little-endian
  machine.\<close>

definition ensure_nonce :: "byte list \<Rightarrow> interest_packet \<Rightarrow> exn + interest_packet" where
  "ensure_nonce random i =
     (if hasWire (ip_nonce i) then Inr i
      else bind_exn (makeBinaryBlock 10 random) (\<lambda>b. Inr (i\<lparr>ip_nonce := b, ip_wire := block_empty\<rparr>)))"

definition Interest_encode :: "interest_packet \<Rightarrow> encoding" where
  "Interest_encode i =
     enc_tlv 5
       (enc_then (if hasWire (ip_link i)
                  then enc_then (case ip_selectedDelegation i of
                           None \<Rightarrow> enc_nothing
                         | Some k \<Rightarrow> prependNonNegativeIntegerBlock 32 (of_nat k))
                         (prependBlock (ip_link i))
                  else enc_nothing)
       (enc_then (enc_when (ip_lifetime i \<ge> 0 \<and> ip_lifetime i \<noteq> DEFAULT_INTEREST_LIFETIME)
                    (prependNonNegativeIntegerBlock 12 (of_int (ip_lifetime i))))
       (enc_then (prependBlock (ip_nonce i))
       (enc_then (enc_when (\<not> Selectors_empty (ip_selectors i)) (Selectors_wireEncode (ip_selectors i)))
                 (Name_wireEncode (ip_name i))))))"

definition countDelegationsFromWire :: "block \<Rightarrow> exn + nat" where
  "countDelegationsFromWire b =
     bind_exn (parsed b) (\<lambda>b. bind_exn (block_get 21 b) (\<lambda>content. bind_exn (parsed content) (\<lambda>content.
       Inr (length (b_elements content)))))"

definition Interest_wireDecode :: "block \<Rightarrow> exn + interest_packet" where
  "Interest_wireDecode wire =
     bind_exn (parsed wire) (\<lambda>b.
       if b_type b \<noteq> 5 then Inl TlvError
       else
         bind_exn (bind_exn (block_get 7 b) Name_wireDecode) (\<lambda>n.
         bind_exn (from_element 9 Selectors_wireDecode selectors_new b) (\<lambda>s.
         bind_exn (block_get 10 b) (\<lambda>nonce.
         bind_exn (from_element 12 (\<lambda>e. map_sum id sint (block_integer e)) DEFAULT_INTEREST_LIFETIME b) (\<lambda>lifetime.
         bind_exn (from_element 6 Inr block_empty b) (\<lambda>link.
         bind_exn (from_element 32 (\<lambda>e.
             if \<not> hasWire link then Inl TlvError
             else bind_exn (block_integer e) (\<lambda>k. bind_exn (countDelegationsFromWire link) (\<lambda>cnt.
               if unat k < cnt then Inr (Some (unat k)) else Inl TlvError))) None b) (\<lambda>sel.
           Inr \<lparr>ip_name = n, ip_selectors = s, ip_nonce = nonce, ip_lifetime = lifetime, ip_link = link,
             ip_selectedDelegation = sel, ip_wire = wire\<rparr>)))))))"

text \<open>\<^verbatim>\<open>wireEncode()\<close> decodes what it has encoded, so that the nonce points into the new buffer.\<close>

definition Interest_wireEncode :: "byte list \<Rightarrow> interest_packet \<Rightarrow> exn + (block \<times> interest_packet)" where
  "Interest_wireEncode random i =
     (if hasWire (ip_wire i) then Inr (ip_wire i, i)
      else bind_exn (ensure_nonce random i) (\<lambda>i.
        bind_exn (two_passes (Interest_encode i)) (\<lambda>b.
        bind_exn (Interest_wireDecode b) (\<lambda>i'. Inr (b, i')))))"

section \<open>Data\<close>

record data_full =
  dp_name :: name
  dp_metaInfo :: meta_info
  dp_content :: block
  dp_info :: signature_info
  dp_signature :: block
  dp_wire :: block

text \<open>\<^verbatim>\<open>Data()\<close> has an empty content, \<^verbatim>\<open>Data(name)\<close> none, which \<^verbatim>\<open>getContent\<close> replaces by an empty one.\<close>

definition Data_default :: data_full where
  "Data_default = \<lparr>dp_name = [], dp_metaInfo = meta_info_new, dp_content = block_of_type 21,
     dp_info = signature_info_new (- 1), dp_signature = block_empty, dp_wire = block_empty\<rparr>"

definition Data_new :: "name \<Rightarrow> data_full" where
  "Data_new n = \<lparr>dp_name = n, dp_metaInfo = meta_info_new, dp_content = block_empty, dp_info = signature_info_new (- 1),
     dp_signature = block_empty, dp_wire = block_empty\<rparr>"

definition setDataName :: "name \<Rightarrow> data_full \<Rightarrow> data_full" where
  "setDataName n d = d\<lparr>dp_wire := block_empty, dp_name := n\<rparr>"

definition setFreshnessPeriod :: "int \<Rightarrow> data_full \<Rightarrow> data_full" where
  "setFreshnessPeriod ms d = d\<lparr>dp_wire := block_empty, dp_metaInfo := (dp_metaInfo d)\<lparr>mi_freshness := ms\<rparr>\<rparr>"

definition setSignature :: "signature_info \<Rightarrow> block \<Rightarrow> data_full \<Rightarrow> data_full" where
  "setSignature info value d = d\<lparr>dp_wire := block_empty, dp_info := info, dp_signature := value\<rparr>"

definition setContent :: "byte list \<Rightarrow> data_full \<Rightarrow> data_full" where
  "setContent v d = d\<lparr>dp_wire := block_empty, dp_content := block_of_value 21 v\<rparr>"

definition Signature_setValue :: "block \<Rightarrow> data_full \<Rightarrow> exn + data_full" where
  "Signature_setValue b d = (if b_type b \<noteq> 23 then Inl TlvError else Inr (d\<lparr>dp_signature := b\<rparr>))"

definition getContent :: "data_full \<Rightarrow> exn + block" where
  "getContent d =
     bind_exn (if isEmpty (dp_content d) then makeEmptyBlock 21 else Inr (dp_content d))
       (\<lambda>c. if \<not> hasWire c then block_encode c else Inr c)"

definition Data_encode :: "data_full \<Rightarrow> bool \<Rightarrow> encoding" where
  "Data_encode d unsignedPortion en =
     (if \<not> unsignedPortion \<and> si_type (dp_info d) = - 1 then Inl TlvError
      else bind_exn (if unsignedPortion then Inr block_empty else block_encode (dp_signature d)) (\<lambda>value.
        bind_exn (SignatureInfo_wireEncode (dp_info d)) (\<lambda>(info, _).
        bind_exn (getContent d) (\<lambda>content.
          let body = enc_then (enc_when (\<not> unsignedPortion) (prependBlock value))
                    (enc_then (prependBlock info)
                    (enc_then (prependBlock content)
                    (enc_then (MetaInfo_wireEncode (dp_metaInfo d))
                              (Name_wireEncode (dp_name d)))))
          in if \<not> unsignedPortion then enc_tlv 6 body en else body en))))"

text \<open>Decoding into an object: the meta information is decoded into the one that is there.\<close>

definition Data_wireDecode :: "data_full \<Rightarrow> block \<Rightarrow> exn + data_full" where
  "Data_wireDecode d wire =
     bind_exn (parsed wire) (\<lambda>b.
       bind_exn (bind_exn (block_get 7 b) Name_wireDecode) (\<lambda>n.
       bind_exn (bind_exn (block_get 20 b) (MetaInfo_wireDecode (dp_metaInfo d))) (\<lambda>m.
       bind_exn (block_get 21 b) (\<lambda>content.
       bind_exn (bind_exn (block_get 22 b) SignatureInfo_wireDecode) (\<lambda>info.
         (case block_find 23 b of
            Some v \<Rightarrow> Signature_setValue v | None \<Rightarrow> Inr)
           (d\<lparr>dp_name := n, dp_metaInfo := m, dp_content := content, dp_info := info, dp_wire := wire\<rparr>))))))"

definition Data_wireEncode :: "data_full \<Rightarrow> exn + (block \<times> data_full)" where
  "Data_wireEncode d =
     (if hasWire (dp_wire d) then Inr (dp_wire d, d)
      else bind_exn (two_passes (Data_encode d False)) (\<lambda>b. bind_exn (Data_wireDecode d b) (\<lambda>d'. Inr (b, d'))))"

section \<open>Round trips\<close>

text \<open>An Interest that is complete: it has a nonce, its link object is a Data block, and the selected delegation is one of
  the link.\<close>

definition interest_blocks :: "interest_packet \<Rightarrow> block list" where
  "interest_blocks i =
     name_wire.wire (ip_name i) #
     opt (\<not> Selectors_empty (ip_selectors i)) (selectors_wire.wire (ip_selectors i)) @
     ip_nonce i #
     opt (ip_lifetime i \<ge> 0 \<and> ip_lifetime i \<noteq> DEFAULT_INTEREST_LIFETIME)
       (tlv_block 12 (prependNonNegativeInteger (of_int (ip_lifetime i)))) @
     opt (hasWire (ip_link i)) (ip_link i) @
     opt (hasWire (ip_link i) \<and> ip_selectedDelegation i \<noteq> None)
       (tlv_block 32 (prependNonNegativeInteger (of_nat (the (ip_selectedDelegation i)))))"

definition interest_ok :: "interest_packet \<Rightarrow> bool" where
  "interest_ok i \<longleftrightarrow>
     name_short (ip_name i) \<and> selectors_ok (ip_selectors i) \<and>
     wire_ok (ip_nonce i) \<and> b_type (ip_nonce i) = 10 \<and> ip_lifetime i < 2 ^ 63 \<and>
     (if hasWire (ip_link i)
      then wire_ok (ip_link i) \<and> b_type (ip_link i) = 6 \<and>
        (\<forall>k. ip_selectedDelegation i = Some k \<longrightarrow>
           k < 2 ^ 64 \<and> (\<exists>cnt. countDelegationsFromWire (ip_link i) = Inr cnt \<and> k < cnt))
      else ip_link i = block_empty \<and> ip_selectedDelegation i = None) \<and>
     length (concat (map b_wire (interest_blocks i))) < 2 ^ 64"

text \<open>What is read back: negative bounds and lifetimes have their defaults.\<close>

definition interest_read :: "interest_packet \<Rightarrow> interest_packet" where
  "interest_read i = i\<lparr>
     ip_selectors := (if Selectors_empty (ip_selectors i) then selectors_new else selectors_read (ip_selectors i)),
     ip_lifetime := (if ip_lifetime i \<ge> 0 then ip_lifetime i else DEFAULT_INTEREST_LIFETIME),
     ip_wire := tlv_block 5 (concat (map b_wire (interest_blocks i)))\<rparr>"

lemma selectors_wire_type [simp]: "b_type (selectors_wire.wire s) = 9"
  by (simp add: selectors_wire.wire_def)

lemma interest_blocks_ok: "interest_ok i \<Longrightarrow> list_all wire_ok (interest_blocks i)"
  by (auto simp: interest_blocks_def interest_ok_def name_wire.wire_ok_wire selectors_wire.wire_ok_wire split: if_splits)

interpretation interest_wire:
  wire_type Interest_encode Interest_wireDecode interest_ok 5 interest_blocks interest_read
proof
  fix i w
  assume i: "interest_ok i"
  have n: "name_short (ip_name i)" and s: "selectors_ok (ip_selectors i)" and nonce: "wire_ok (ip_nonce i)"
    using i by (simp_all add: interest_ok_def)
  have "writes (enc_then (case ip_selectedDelegation i of None \<Rightarrow> enc_nothing
        | Some k \<Rightarrow> prependNonNegativeIntegerBlock 32 (of_nat k)) (prependBlock (ip_link i)))
      (b_wire (ip_link i) @ (if ip_selectedDelegation i = None then []
        else tlv 32 (prependNonNegativeInteger (of_nat (the (ip_selectedDelegation i))))))"
    if "hasWire (ip_link i)"
    using that i by (intro writes_then writes_block_ok)
      (auto simp: interest_ok_def writes_integer_block split: option.splits)
  then have link: "writes (if hasWire (ip_link i)
        then enc_then (case ip_selectedDelegation i of None \<Rightarrow> enc_nothing
          | Some k \<Rightarrow> prependNonNegativeIntegerBlock 32 (of_nat k)) (prependBlock (ip_link i))
        else enc_nothing)
      (if hasWire (ip_link i)
       then b_wire (ip_link i) @ (if ip_selectedDelegation i = None then []
         else tlv 32 (prependNonNegativeInteger (of_nat (the (ip_selectedDelegation i)))))
       else [])"
    by (simp add: writes_nothing)
  show "writes (Interest_encode i) (tlv 5 (concat (map b_wire (interest_blocks i))))"
    unfolding Interest_encode_def
    by (rule writes_tlv, rule writes_cong,
        (rule writes_then [OF link] writes_then writes_when writes_integer_block writes_block_ok [OF nonce]
          selectors_wire.writes_wire [OF s] name_wire.writes_wire [OF n])+)
      (simp add: interest_blocks_def)
  show ok: "list_all wire_ok (interest_blocks i)" using i by (rule interest_blocks_ok)
  show "length (concat (map b_wire (interest_blocks i))) < 2 ^ 64" using i by (simp add: interest_ok_def)
  show "Interest_wireDecode (tlv_block 5 w) = Inr (interest_read i)" if w: "w = concat (map b_wire (interest_blocks i))"
  proof -
    let ?b = "Block 5 (tlv 5 w) (Some w) (interest_blocks i)"
    note find = block_get_def block_find_def interest_blocks_def from_element_def
    have t: "b_type (ip_nonce i) = 10" "hasWire (ip_link i) \<Longrightarrow> b_type (ip_link i) = 6"
      using i by (simp_all add: interest_ok_def split: if_splits)
    have "bind_exn (block_get 7 ?b) Name_wireDecode = Inr (ip_name i)"
      using name_wire.dec_wire [OF n] by (simp add: find)
    moreover have "from_element 9 Selectors_wireDecode selectors_new ?b =
        Inr (if Selectors_empty (ip_selectors i) then selectors_new else selectors_read (ip_selectors i))"
      using selectors_wire.dec_wire [OF s] t by (auto simp: find)
    moreover have "block_get 10 ?b = Inr (ip_nonce i)" using t by (simp add: find)
    moreover have "from_element 12 (\<lambda>e. map_sum id sint (block_integer e)) DEFAULT_INTEREST_LIFETIME ?b =
        Inr (if ip_lifetime i \<ge> 0 then ip_lifetime i else DEFAULT_INTEREST_LIFETIME)"
      using t i by (auto simp: find interest_ok_def sint_of_int_id)
    moreover have "from_element 6 Inr block_empty ?b = Inr (ip_link i)"
      using t i by (simp add: find interest_ok_def split: if_splits)
    moreover have "from_element 32 (\<lambda>e.
             if \<not> hasWire (ip_link i) then Inl TlvError
             else bind_exn (block_integer e) (\<lambda>k. bind_exn (countDelegationsFromWire (ip_link i)) (\<lambda>cnt.
               if unat k < cnt then Inr (Some (unat k)) else Inl TlvError))) None ?b = Inr (ip_selectedDelegation i)"
      using t i by (auto simp: find interest_ok_def unat_of_nat split: if_splits)
    moreover have "parsed (tlv_block 5 w) = Inr ?b" using parsed_tlv_block [OF ok, of 5] by (simp add: w)
    ultimately show ?thesis
      unfolding Interest_wireDecode_def by (simp add: interest_read_def w)
  qed
qed

text \<open>A Data packet whose parts have their encodings: the content, the signature information and the signature value.\<close>

definition data_blocks :: "data_full \<Rightarrow> block \<Rightarrow> block \<Rightarrow> block \<Rightarrow> block list" where
  "data_blocks d content info value =
     [name_wire.wire (dp_name d), meta_info_wire.wire (dp_metaInfo d), content, info, value]"

definition data_parts :: "data_full \<Rightarrow> block \<Rightarrow> block \<Rightarrow> block \<Rightarrow> bool" where
  "data_parts d content info value \<longleftrightarrow>
     name_short (dp_name d) \<and> meta_info_ok (dp_metaInfo d) \<and> si_type (dp_info d) \<noteq> - 1 \<and>
     getContent d = Inr content \<and> wire_ok content \<and> b_type content = 21 \<and>
     (\<exists>si. SignatureInfo_wireEncode (dp_info d) = Inr (info, si)) \<and> wire_ok info \<and> b_type info = 22 \<and>
     block_encode (dp_signature d) = Inr value \<and> wire_ok value \<and> b_type value = 23 \<and>
     length (concat (map b_wire (data_blocks d content info value))) < 2 ^ 64"

lemma meta_info_wire_type [simp]: "b_type (meta_info_wire.wire m) = 20"
  by (simp add: meta_info_wire.wire_def)

lemma data_blocks_ok: "data_parts d c i v \<Longrightarrow> list_all wire_ok (data_blocks d c i v)"
  by (simp add: data_parts_def data_blocks_def name_wire.wire_ok_wire meta_info_wire.wire_ok_wire)

lemma Data_encode_wire:
  assumes "data_parts d content info value"
  shows "two_passes (Data_encode d False) = Inr (tlv_block 6 (concat (map b_wire (data_blocks d content info value))))"
proof (rule two_passes_writes)
  let ?body = "enc_then (enc_when True (prependBlock value)) (enc_then (prependBlock info) (enc_then (prependBlock content)
      (enc_then (MetaInfo_wireEncode (dp_metaInfo d)) (Name_wireEncode (dp_name d)))))"
  have n: "name_short (dp_name d)" and m: "meta_info_ok (dp_metaInfo d)"
    and b: "wire_ok value" "wire_ok info" "wire_ok content"
    using assms by (simp_all add: data_parts_def)
  have "Data_encode d False = enc_tlv 6 ?body"
    using assms by (auto simp: Data_encode_def data_parts_def fun_eq_iff)
  moreover have "writes (enc_tlv 6 ?body) (tlv 6 (concat (map b_wire (data_blocks d content info value))))"
    by (rule writes_tlv, rule writes_cong,
        (rule writes_then writes_when writes_block_ok [OF b(1)] writes_block_ok [OF b(2)] writes_block_ok [OF b(3)]
          meta_info_wire.writes_wire [OF m] name_wire.writes_wire [OF n])+)
      (simp add: data_blocks_def)
  ultimately show "writes (Data_encode d False) (tlv 6 (concat (map b_wire (data_blocks d content info value))))" by simp
qed (use assms in \<open>simp add: data_parts_def\<close>)

text \<open>Decoding into any object \<open>d0\<close>; the application elements of the object that decodes come first.\<close>

lemma Data_decode_wire:
  assumes "data_parts d content info value" and "SignatureInfo_wireDecode info = Inr si"
  shows "Data_wireDecode d0 (tlv_block 6 (concat (map b_wire (data_blocks d content info value)))) =
    Inr \<lparr>dp_name = dp_name d, dp_metaInfo = meta_info_read (dp_metaInfo d0) (dp_metaInfo d), dp_content = content,
      dp_info = si, dp_signature = value, dp_wire = tlv_block 6 (concat (map b_wire (data_blocks d content info value)))\<rparr>"
proof -
  let ?w = "concat (map b_wire (data_blocks d content info value))"
  let ?b = "Block 6 (tlv 6 ?w) (Some ?w) (data_blocks d content info value)"
  note find = block_get_def block_find_def data_blocks_def
  have t: "b_type content = 21" "b_type info = 22" "b_type value = 23"
    and n: "name_short (dp_name d)" and m: "meta_info_ok (dp_metaInfo d)"
    using assms(1) by (simp_all add: data_parts_def)
  have "bind_exn (block_get 7 ?b) Name_wireDecode = Inr (dp_name d)"
    using name_wire.dec_wire [OF n] by (simp add: find)
  moreover have "bind_exn (block_get 20 ?b) (MetaInfo_wireDecode (dp_metaInfo d0)) =
      Inr (meta_info_read (dp_metaInfo d0) (dp_metaInfo d))"
    using meta_info_wire.dec_wire [OF m] by (simp add: find)
  moreover have "block_get 21 ?b = Inr content" "bind_exn (block_get 22 ?b) SignatureInfo_wireDecode = Inr si"
    "block_find 23 ?b = Some value"
    using t assms(2) by (simp_all add: find)
  moreover have "parsed (tlv_block 6 ?w) = Inr ?b" using parsed_tlv_block [OF data_blocks_ok [OF assms(1)], of 6] .
  ultimately show ?thesis
    unfolding Data_wireDecode_def by (simp add: Signature_setValue_def t)
qed

text \<open>\<^verbatim>\<open>wireEncode()\<close> of a Data packet decodes the encoding into the packet itself, and so doubles its application elements.\<close>

lemma Data_wireEncode_doubles:
  assumes "data_parts d content info value" and "SignatureInfo_wireDecode info = Inr si" and "\<not> hasWire (dp_wire d)"
  shows "\<exists>b d'. Data_wireEncode d = Inr (b, d') \<and>
    mi_app (dp_metaInfo d') = mi_app (dp_metaInfo d) @ mi_app (dp_metaInfo d)"
  using assms(3) Data_encode_wire [OF assms(1)] Data_decode_wire [OF assms(1,2), of d]
  by (simp add: Data_wireEncode_def meta_info_read_def)

section \<open>The expiry in the content of Trace Data\<close>

text \<open>\<^verbatim>\<open>extractTraceTtl\<close> of \<^verbatim>\<open>statim/packet-utils.hpp\<close>, in milliseconds: five minutes when the nested field is not there.\<close>

definition extractTraceTtl :: "data_full \<Rightarrow> int" where
  "extractTraceTtl d =
     (case bind_exn (bind_exn (getContent d) parsed) (\<lambda>content.
        bind_exn (bind_exn (block_get 6 content) parsed) (\<lambda>innerData.
        bind_exn (bind_exn (block_get 21 innerData) parsed) (\<lambda>innerContent.
          block_get 0x6d innerContent))) of
        Inl _ \<Rightarrow> 5 * 60000
      | Inr expiryBlock \<Rightarrow>
          if value_size expiryBlock \<noteq> 2 then 5 * 60000
          else let val = block_value expiryBlock
               in uint (push_bit 8 (ucast (val ! 0)) OR ucast (val ! 1) :: u64))"

lemma parsed_one: "wire_ok b \<Longrightarrow> parsed (tlv_block t (b_wire b)) = Inr (Block t (tlv t (b_wire b)) (Some (b_wire b)) [b])"
  using parsed_tlv_block [of "[b]" t] by simp

lemma uint_two_bytes:
  fixes b0 b1 :: byte
  shows "uint (push_bit 8 (ucast b0) OR ucast b1 :: u64) = uint b0 * 256 + uint b1"
proof -
  have b: "uint b < 256" "0 \<le> uint b" for b :: byte using unsigned_less [where 'a = int, of b] by simp_all
  have u: "uint (ucast b :: u64) = uint b" for b :: byte
    using b [of b] by (simp add: unsigned_ucast_eq take_bit_int_eq_self)
  have p: "uint (push_bit 8 (ucast b0 :: u64)) = push_bit 8 (uint b0)"
  proof -
    have "uint (push_bit 8 (ucast b0 :: u64)) = take_bit 64 (push_bit 8 (uint b0))"
      by (simp only: unsigned_push_bit_eq u len_num1 len_bit0 mult_1_right) simp
    also have "\<dots> = push_bit 8 (uint b0)"
      using b [of b0] by (intro take_bit_int_eq_self) (simp_all add: push_bit_eq_mult)
    finally show ?thesis .
  qed
  have "push_bit 8 (uint b0) AND uint b1 = 0"
  proof (rule bit_eqI)
    fix n
    have "bit (uint b1) n \<Longrightarrow> n < 8" by (auto dest: bit_imp_le_length simp: bit_uint_iff)
    then show "bit (push_bit 8 (uint b0) AND uint b1) n = bit 0 n" by (auto simp: bit_simps)
  qed
  then have "push_bit 8 (uint b0) OR uint b1 = push_bit 8 (uint b0) + uint b1"
    by (simp add: disjunctive_add_eq_or)
  then show ?thesis unfolding unsigned_or_eq p u by (simp add: push_bit_eq_mult)
qed

lemma extractTraceTtl_encoded:
  fixes b0 b1 :: byte
  assumes "getContent d = Inr (tlv_block 21 (b_wire (tlv_block 6 (b_wire (tlv_block 21 (b_wire (tlv_block 0x6d [b0, b1])))))))"
  shows "extractTraceTtl d = uint b0 * 256 + uint b1"
proof -
  have ok: "wire_ok (tlv_block 0x6d [b0, b1])" "wire_ok (tlv_block 21 (b_wire (tlv_block 0x6d [b0, b1])))"
    "wire_ok (tlv_block 6 (b_wire (tlv_block 21 (b_wire (tlv_block 0x6d [b0, b1])))))"
    by (rule wire_ok_tlv, simp add: tlv_def length_writeVarNumber sizeOfVarNumber_def)+
  have "bind_exn (bind_exn (getContent d) parsed) (\<lambda>content. bind_exn (bind_exn (block_get 6 content) parsed) (\<lambda>innerData.
      bind_exn (bind_exn (block_get 21 innerData) parsed) (\<lambda>innerContent. block_get 0x6d innerContent))) =
      Inr (tlv_block 0x6d [b0, b1])"
    unfolding assms using parsed_one [OF ok(1)] parsed_one [OF ok(2)] parsed_one [OF ok(3)]
    by (simp add: block_get_def block_find_def)
  moreover have "uint (push_bit 8 (ucast b0) OR ucast b1 :: u64) = uint b0 * 256 + uint b1"
    by (rule uint_two_bytes)
  ultimately show ?thesis by (simp add: extractTraceTtl_def)
qed

end
