(* ===== verification/Frame_Wire.thy ===== *)
theory Frame_Wire
  imports Packet_Wire Mobile_App
begin

text \<open>
  From packets to frames and back (\<^verbatim>\<open>model/ndn-block-header.cpp\<close>, the decoding in \<^verbatim>\<open>forwarding-engine.cpp\<close>): a frame holds a
  Statim header and one block, which the receiver reads as a stream.  Shown: the payload that a node decodes from the
  bytes of an Interest, and from the Data that the mobile producer answers with; and that a packet whose value is
  longer than 8800 bytes never arrives.
\<close>

section \<open>Blocks in a stream\<close>

text \<open>\<^verbatim>\<open>readVarNumber\<close> on a stream reads byte by byte.\<close>

fun stream_number :: "nat \<Rightarrow> nat \<Rightarrow> byte list \<Rightarrow> (nat \<times> byte list) option" where
  "stream_number 0 v bs = Some (v, bs)"
| "stream_number (Suc k) v [] = None"
| "stream_number (Suc k) v (b # bs) = stream_number k (v * 256 + unat b) bs"

fun readVarNumber_stream :: "byte list \<Rightarrow> (nat \<times> byte list) option" where
  "readVarNumber_stream [] = None"
| "readVarNumber_stream (firstOctet # bs) =
     (if firstOctet < 253 then Some (unat firstOctet, bs)
      else if firstOctet = 253 then stream_number 2 0 bs
      else if firstOctet = 254 then stream_number 4 0 bs
      else stream_number 8 0 bs)"

definition read_header_stream :: "byte list \<Rightarrow> (u32 \<times> nat \<times> byte list) option" where
  "read_header_stream bs =
     (case readVarNumber_stream bs of
        None \<Rightarrow> None
      | Some (t, r) \<Rightarrow>
          if t > 2 ^ 32 - 1 then None
          else (case readVarNumber_stream r of None \<Rightarrow> None | Some (len, r') \<Rightarrow> Some (of_nat t, len, r')))"

abbreviation MAX_SIZE_OF_BLOCK_FROM_STREAM :: nat where
  "MAX_SIZE_OF_BLOCK_FROM_STREAM \<equiv> 8800"

text \<open>\<^verbatim>\<open>Block::fromStream\<close>.  The first byte of the value is the one that the stream iterator already holds; at the end of
  the stream that is \<open>stale\<close>, on which the language says nothing.\<close>

definition fromStream :: "byte \<Rightarrow> byte list \<Rightarrow> exn + block" where
  "fromStream stale bs =
     (case read_header_stream bs of
        None \<Rightarrow> Inl TlvError
      | Some (t, len, r) \<Rightarrow>
          if len = 0 then makeEmptyBlock t
          else if len > MAX_SIZE_OF_BLOCK_FROM_STREAM then Inl TlvError
          else let first = (case r of [] \<Rightarrow> stale | b # _ \<Rightarrow> b); got = take (len - 1) (tl r)
               in if len \<noteq> length got + 1 then Inl TlvError else makeBinaryBlock t (first # got))"

lemma stream_number_val:
  "stream_number k v bs = (if length bs < k then None else Some (v * 256 ^ k + be_val (take k bs), drop k bs))"
proof (induction k v bs rule: stream_number.induct)
  case (3 k v b bs)
  then show ?case by (auto simp: algebra_simps min_def)
qed simp_all

lemma stream_number_be: "stream_number k 0 bs = read_be k bs"
  by (simp add: stream_number_val read_be_def)

lemma readVarNumber_stream_eq: "readVarNumber_stream bs = readVarNumber bs"
  by (cases bs) (simp_all add: stream_number_be del: stream_number.simps)

lemma read_header_stream_eq: "read_header_stream bs = read_header bs"
  by (auto simp: read_header_stream_def read_header_def readType_def readVarNumber_stream_eq split: option.splits)

text \<open>The bytes of a block are read back as the block with the shortest numbers, unless it is too long.\<close>

lemma fromStream_tlv:
  assumes "length v < 2 ^ 64"
  shows "fromStream stale (tlv t v @ rest) =
    (if length v \<le> MAX_SIZE_OF_BLOCK_FROM_STREAM then Inr (tlv_block t v) else Inl TlvError)"
proof (cases v)
  case Nil
  then show ?thesis
    using read_header_tlv [of v t rest] by (simp add: fromStream_def read_header_stream_eq make_blocks)
next
  case (Cons b bs)
  then have h: "read_header (tlv t v @ rest) = Some (t, Suc (length bs), b # bs @ rest)"
    using read_header_tlv [OF assms, of t rest] by simp
  show ?thesis
    using assms unfolding Cons fromStream_def read_header_stream_eq h [unfolded Cons]
    by (simp add: make_blocks)
qed

text \<open>A block that announces one byte and has none is accepted.\<close>

lemma truncated_block_accepted: "fromStream stale (writeVarNumber (unat t) @ writeVarNumber 1) = Inr (tlv_block t [stale])"
proof -
  have "read_header (writeVarNumber (unat t) @ writeVarNumber 1) = Some (t, 1, [])"
    using unat_type_less [of t] readVarNumber_writeVarNumber [of 1 "[]"]
    by (simp add: read_header_def readType_def readVarNumber_writeVarNumber del: unat_type_less)
  then show ?thesis by (simp add: fromStream_def read_header_stream_eq make_blocks)
qed

section \<open>Payloads\<close>

text \<open>The decoding inside the \<^verbatim>\<open>try\<close> block of \<^verbatim>\<open>onReceiveRawPacket\<close>: the payload of the forwarding engine's frames.\<close>

definition payload_of_bytes :: "byte \<Rightarrow> byte list \<Rightarrow> payload" where
  "payload_of_bytes stale bs =
     (case fromStream stale bs of
        Inl _ \<Rightarrow> MalformedPayload
      | Inr block \<Rightarrow>
          if b_type block = 5
          then (case Interest_wireDecode block of
                  Inl _ \<Rightarrow> MalformedPayload
                | Inr i \<Rightarrow> InterestPayload (ip_name i) (block_value (ip_nonce i)) (ip_lifetime i))
          else if b_type block = 6
          then (case Data_wireDecode Data_default block of
                  Inl _ \<Rightarrow> MalformedPayload
                | Inr d \<Rightarrow> DataPayload (dp_name d) (block_value (dp_content d)))
          else OtherPayload)"

text \<open>C12. An Interest arrives as it was sent.  A complete Interest, with any selectors and link object, is encoded in two passes
  of which the first gives the exact size; decoding the bytes gives the Interest back, up to defaults; and a node that
  reads them from a frame, whatever follows, decodes its name, the bytes of its nonce and its lifetime, unless the
  value is longer than 8800 bytes: then it counts a malformed packet.\<close>

theorem interest_bytes_arrive:
  assumes "interest_ok i" and "\<not> hasWire (ip_wire i)"
  shows "\<exists>b. Interest_wireEncode random i = Inr (b, interest_read i) \<and>
    Interest_encode i Estimator = Inr (length (b_wire b), Estimator) \<and>
    value_size b = length (concat (map b_wire (interest_blocks i))) \<and>
    payload_of_bytes stale (b_wire b @ rest) =
      (if value_size b \<le> MAX_SIZE_OF_BLOCK_FROM_STREAM
       then InterestPayload (ip_name i) (block_value (ip_nonce i))
         (if ip_lifetime i \<ge> 0 then ip_lifetime i else DEFAULT_INTEREST_LIFETIME)
       else MalformedPayload)"
proof -
  let ?b = "interest_wire.wire i"
  have "hasWire (ip_nonce i)" using assms(1) by (simp add: interest_ok_def)
  then have enc: "Interest_wireEncode random i = Inr (?b, interest_read i)"
    using assms by (simp add: Interest_wireEncode_def ensure_nonce_def interest_wire.encode_wire interest_wire.dec_wire)
  have "payload_of_bytes stale (b_wire ?b @ rest) =
      (if value_size ?b \<le> MAX_SIZE_OF_BLOCK_FROM_STREAM
       then InterestPayload (ip_name i) (block_value (ip_nonce i))
         (if ip_lifetime i \<ge> 0 then ip_lifetime i else DEFAULT_INTEREST_LIFETIME)
       else MalformedPayload)"
    using interest_wire.dec_wire [OF assms(1)] interest_wire.elements_short [OF assms(1)]
    unfolding interest_wire.wire_def payload_of_bytes_def
    by (simp add: fromStream_tlv interest_read_def)
  moreover have "Interest_encode i Estimator = Inr (length (b_wire ?b), Estimator)"
    using two_passes_fill [OF interest_wire.writes_wire [OF assms(1)]] by blast
  moreover have "value_size ?b = length (concat (map b_wire (interest_blocks i)))"
    by (simp add: interest_wire.wire_def)
  ultimately show ?thesis using enc by blast
qed

definition sample_packet :: interest_packet where
  "sample_packet = (Interest_new [component_of_string ''a''] 2000)\<lparr>ip_nonce := tlv_block 10 [1, 2, 3, 4],
     ip_selectors := selectors_new\<lparr>se_mustBeFresh := True, se_maxSuffixComponents := 2\<rparr>\<rparr>"

theorem interest_bytes_arrive_witness:
  "\<exists>b. Interest_wireEncode [] sample_packet = Inr (b, interest_read sample_packet) \<and>
     payload_of_bytes 0 (b_wire b @ [7]) = InterestPayload [component_of_string ''a''] [1, 2, 3, 4] 2000"
proof -
  have size: "length (concat (map b_wire (interest_blocks sample_packet))) = 22"
    by (simp add: sample_packet_def Interest_new_def interest_blocks_def name_wire.wire_def name_blocks_def
        selectors_wire.wire_def selectors_blocks_def selectors_new_def Selectors_empty_def tlv_def writeVarNumber_def
        component_of_string_def bytes_of_def prependNonNegativeInteger_def opt_def hasWire_def block_empty_def)
  have sel: "length (concat (map b_wire (selectors_blocks (ip_selectors sample_packet)))) = 5"
    by (simp add: sample_packet_def selectors_blocks_def selectors_new_def tlv_def writeVarNumber_def
        prependNonNegativeInteger_def opt_def)
  have ok: "interest_ok sample_packet"
    using size sel unfolding interest_ok_def selectors_ok_def
    by (simp add: sample_packet_def Interest_new_def name_short_def name_blocks_def component_of_string_def bytes_of_def
        tlv_def writeVarNumber_def selectors_new_def key_locator_ok_def wire_ok_tlv hasWire_def block_empty_def)
  have "\<not> hasWire (ip_wire sample_packet)" by (simp add: sample_packet_def Interest_new_def hasWire_def block_empty_def)
  from interest_bytes_arrive [OF ok this, of "[]" 0 "[7]"] size show ?thesis
    by (auto simp: sample_packet_def Interest_new_def)
qed

text \<open>A Data packet whose parts have their encodings.\<close>

lemma data_bytes_payload:
  assumes "data_parts d content info value" and "SignatureInfo_wireDecode info = Inr si" and "\<not> hasWire (dp_wire d)"
  shows "\<exists>b d'. Data_wireEncode d = Inr (b, d') \<and>
    b = tlv_block 6 (concat (map b_wire (data_blocks d content info value))) \<and>
    payload_of_bytes stale (b_wire b @ rest) =
      (if value_size b \<le> MAX_SIZE_OF_BLOCK_FROM_STREAM then DataPayload (dp_name d) (block_value content) else MalformedPayload)"
proof -
  let ?v = "concat (map b_wire (data_blocks d content info value))"
  have short: "length ?v < 2 ^ 64" using assms(1) by (simp add: data_parts_def)
  have "\<exists>d'. Data_wireEncode d = Inr (tlv_block 6 ?v, d')"
    using assms(3) unfolding Data_wireEncode_def Data_encode_wire [OF assms(1)]
    by (simp add: Data_decode_wire [OF assms(1,2)])
  moreover have "payload_of_bytes stale (tlv 6 ?v @ rest) =
      (if length ?v \<le> MAX_SIZE_OF_BLOCK_FROM_STREAM then DataPayload (dp_name d) (block_value content) else MalformedPayload)"
    using short unfolding payload_of_bytes_def by (simp add: fromStream_tlv Data_decode_wire [OF assms(1,2)])
  ultimately show ?thesis by simp
qed

section \<open>Packets of the applications\<close>

text \<open>The Data packet that \<^verbatim>\<open>StatimMobile::OnInterest\<close> builds, up to \<^verbatim>\<open>data->wireEncode()\<close>.\<close>

definition reply_info :: "reply \<Rightarrow> signature_info" where
  "reply_info r =
     (case rp_keyLocator r of
        None \<Rightarrow> signature_info_new 255
      | Some k \<Rightarrow> setKeyLocator (KeyLocator_Name k) (signature_info_new 255))"

definition reply_data :: "reply \<Rightarrow> exn + data_full" where
  "reply_data r =
     (let d = setContent (rp_content r) (setFreshnessPeriod (rp_freshness r) (setDataName (rp_name r) Data_default))
      in bind_exn (makeNonNegativeIntegerBlock 23 (ucast (rp_signature r)))
           (\<lambda>value. Inr (setSignature (reply_info r) value d)))"

text \<open>The Trace Interest that \<^verbatim>\<open>SendTrace\<close> builds: name, nonce and lifetime are set.\<close>

definition trace_packet :: "trace_interest \<Rightarrow> exn + interest_packet" where
  "trace_packet ti =
     bind_exn (makeBinaryBlock 10 (bytes_of_word (ti_nonce ti)))
       (\<lambda>nonce. Inr ((Interest_new (ti_name ti) (ti_lifetime ti))\<lparr>ip_nonce := nonce\<rparr>))"

definition name_size :: "name \<Rightarrow> nat" where
  "name_size n = length (concat (map b_wire (name_blocks n)))"

definition reply_small :: "reply \<Rightarrow> bool" where
  "reply_small r \<longleftrightarrow> name_size (rp_name r) < 2 ^ 60 \<and> length (rp_content r) < 2 ^ 60 \<and>
     (\<forall>k. rp_keyLocator r = Some k \<longrightarrow> name_size k < 2 ^ 60) \<and> rp_freshness r < 2 ^ 63"

lemma length_tlv_le: "length (tlv t v) \<le> length v + 18"
  by (simp add: tlv_def length_writeVarNumber sizeOfVarNumber_def)

lemma length_integer_le: "length (prependNonNegativeInteger v) \<le> 8"
  using length_prependNonNegativeInteger [of v] by auto

lemma length_integer_tlv: "length (tlv t (prependNonNegativeInteger v)) \<le> 26"
  using length_tlv_le [of t "prependNonNegativeInteger v"] length_integer_le [of v] by linarith

lemma name_wire_small: "name_size n < 2 ^ 60 \<Longrightarrow> name_short n \<and> length (b_wire (name_wire.wire n)) \<le> name_size n + 18"
  using length_tlv_le [of 7 "concat (map b_wire (name_blocks n))"]
  by (simp add: name_size_def name_short_def name_wire.wire_def)

definition locator_size :: "reply \<Rightarrow> nat" where
  "locator_size r = (case rp_keyLocator r of None \<Rightarrow> 0 | Some k \<Rightarrow> name_size k)"

lemma reply_signature_ok:
  assumes "reply_small r"
  shows "signature_ok (reply_info r)"
    and "length (tlv 22 (concat (map b_wire (signature_blocks (reply_info r))))) \<le> locator_size r + 80"
proof -
  let ?info = "reply_info r"
  let ?t = "tlv 27 (prependNonNegativeInteger 255)"
  have t: "length ?t \<le> 26" by (rule length_integer_tlv)
  have k: "key_locator_ok (KeyLocator_Name k) \<and> length (b_wire (key_locator_wire.wire (KeyLocator_Name k))) \<le> name_size k + 36"
    if "rp_keyLocator r = Some k" for k
    using that assms name_wire_small [of k] length_tlv_le [of 28 "b_wire (name_wire.wire k)"]
    by (simp add: reply_small_def key_locator_ok_def key_locator_wire.wire_def)
  have len: "length (concat (map b_wire (signature_blocks ?info))) \<le> locator_size r + 62"
    using k t by (cases "rp_keyLocator r")
      (auto simp: locator_size_def reply_info_def signature_blocks_def signature_info_new_def setKeyLocator_def opt_def)
  then show "length (tlv 22 (concat (map b_wire (signature_blocks ?info)))) \<le> locator_size r + 80"
    using length_tlv_le [of 22 "concat (map b_wire (signature_blocks ?info))"] by linarith
  have "- (2 ^ 31) \<le> si_type ?info" "si_type ?info < 2 ^ 31" "si_otherTlvs ?info = []"
    "\<forall>k. si_keyLocator ?info = Some k \<longrightarrow> key_locator_ok k"
    using k by (auto simp: reply_info_def signature_info_new_def setKeyLocator_def split: option.splits)
  moreover have "locator_size r < 2 ^ 60" using assms by (auto simp: locator_size_def reply_small_def split: option.splits)
  ultimately show "signature_ok ?info"
    using len by (simp add: signature_ok_def starts_def)
qed

lemma reply_data_parts:
  assumes "reply_small r"
  shows "\<exists>d. reply_data r = Inr d \<and> \<not> hasWire (dp_wire d) \<and> dp_name d = rp_name r \<and>
    data_parts d (tlv_block 21 (rp_content r)) (tlv_block 22 (concat (map b_wire (signature_blocks (reply_info r)))))
      (tlv_block 23 (prependNonNegativeInteger (ucast (rp_signature r)))) \<and>
    length (concat (map b_wire (data_blocks d (tlv_block 21 (rp_content r))
        (tlv_block 22 (concat (map b_wire (signature_blocks (reply_info r)))))
        (tlv_block 23 (prependNonNegativeInteger (ucast (rp_signature r)))))))
      \<le> name_size (rp_name r) + length (rp_content r) + locator_size r + 186"
proof -
  let ?sig = "tlv_block 23 (prependNonNegativeInteger (ucast (rp_signature r)))"
  let ?info = "tlv_block 22 (concat (map b_wire (signature_blocks (reply_info r))))"
  let ?content = "tlv_block 21 (rp_content r)"
  let ?d = "setSignature (reply_info r) ?sig (setContent (rp_content r) (setFreshnessPeriod (rp_freshness r)
      (setDataName (rp_name r) Data_default)))"
  note small = assms [unfolded reply_small_def]
  have name: "name_short (rp_name r)" "length (b_wire (name_wire.wire (rp_name r))) \<le> name_size (rp_name r) + 18"
    using small name_wire_small by simp_all
  have content: "length (rp_content r) < 2 ^ 64" "length (b_wire ?content) \<le> length (rp_content r) + 18"
    using small length_tlv_le [of 21 "rp_content r"] by simp_all
  have info: "SignatureInfo_wireEncode (reply_info r) = Inr (?info, (reply_info r)\<lparr>si_wire := ?info\<rparr>)"
    "wire_ok ?info" "length (b_wire ?info) \<le> locator_size r + 80"
  proof -
    have "\<not> hasWire (si_wire (reply_info r))"
      by (simp add: reply_info_def signature_info_new_def setKeyLocator_def hasWire_def block_empty_def split: option.splits)
    then show "SignatureInfo_wireEncode (reply_info r) = Inr (?info, (reply_info r)\<lparr>si_wire := ?info\<rparr>)"
      unfolding SignatureInfo_wireEncode_def SignatureInfo_encode_wire [OF reply_signature_ok(1) [OF assms]] by simp
    show "wire_ok ?info" using reply_signature_ok(1) [OF assms] by (intro wire_ok_tlv) (simp add: signature_ok_def)
    show "length (b_wire ?info) \<le> locator_size r + 80" using reply_signature_ok(2) [OF assms] by simp
  qed
  have meta: "meta_info_ok (dp_metaInfo ?d)" "length (b_wire (meta_info_wire.wire (dp_metaInfo ?d))) \<le> 44"
  proof -
    have m: "dp_metaInfo ?d = meta_info_new\<lparr>mi_freshness := rp_freshness r\<rparr>"
      by (simp add: setSignature_def setContent_def setFreshnessPeriod_def setDataName_def Data_default_def)
    have b: "concat (map b_wire (meta_info_blocks (dp_metaInfo ?d))) =
        (if rp_freshness r \<ge> 0 then tlv 25 (prependNonNegativeInteger (of_int (rp_freshness r))) else [])"
      by (simp add: m meta_info_blocks_def meta_info_new_def)
    have l: "length (concat (map b_wire (meta_info_blocks (dp_metaInfo ?d)))) \<le> 26"
      unfolding b by (simp add: length_integer_tlv)
    then show "meta_info_ok (dp_metaInfo ?d)"
      using small by (simp add: meta_info_ok_def m meta_info_new_def)
    show "length (b_wire (meta_info_wire.wire (dp_metaInfo ?d))) \<le> 44"
      using l length_tlv_le [of 20 "concat (map b_wire (meta_info_blocks (dp_metaInfo ?d)))"]
      by (simp add: meta_info_wire.wire_def)
  qed
  have sigv: "block_encode ?sig = Inr ?sig" "wire_ok ?sig" "length (b_wire ?sig) \<le> 26"
    using length_integer_tlv by (simp_all add: block_encode_def)
  have d: "getContent ?d = Inr ?content" "si_type (dp_info ?d) \<noteq> - 1" "dp_info ?d = reply_info r"
    "dp_signature ?d = ?sig" "dp_name ?d = rp_name r" "\<not> hasWire (dp_wire ?d)"
    using block_encode_value [OF content(1), of 21]
    by (simp_all add: getContent_def setSignature_def setContent_def setFreshnessPeriod_def setDataName_def Data_default_def
        isEmpty_def block_of_value_def hasWire_def block_empty_def reply_info_def signature_info_new_def setKeyLocator_def
        split: option.splits)
  have len: "length (concat (map b_wire (data_blocks ?d ?content ?info ?sig)))
      \<le> name_size (rp_name r) + length (rp_content r) + locator_size r + 186"
    using name(2) content(2) info(3) meta(2) sigv(3) d(5) by (simp add: data_blocks_def)
  moreover have "locator_size r < 2 ^ 60" "name_size (rp_name r) < 2 ^ 60" "length (rp_content r) < 2 ^ 60"
    using small by (auto simp: locator_size_def split: option.splits)
  moreover have "(3 * 2 ^ 60 + 186 :: nat) < 2 ^ 64" by simp
  ultimately have "length (concat (map b_wire (data_blocks ?d ?content ?info ?sig))) < 2 ^ 64"
    by linarith
  then have "data_parts ?d ?content ?info ?sig"
    using name content info meta sigv d by (simp add: data_parts_def wire_ok_tlv)
  moreover have "reply_data r = Inr ?d" by (simp add: reply_data_def make_blocks)
  ultimately show ?thesis using d len by blast
qed

text \<open>C13. The answer of a mobile producer arrives.  The Data packet that it builds for an Interest has a wire encoding, and a
  node that reads these bytes from a frame, whatever follows them, decodes the name of the Interest with the sequence
  number of the producer appended, and the content; when the value of the packet is longer than 8800 bytes, the node
  counts a malformed packet instead.  The value is at most 186 bytes longer than the name, the content and the key locator.\<close>

theorem mobile_reply_arrives:
  assumes "mb_active m" and "r = last (mb_datas (mobile_OnInterest nm m))" and "reply_small r"
  shows "\<exists>d b d'. reply_data r = Inr d \<and> Data_wireEncode d = Inr (b, d') \<and>
    value_size b \<le> name_size (rp_name r) + length (rp_content r) + locator_size r + 186 \<and>
    payload_of_bytes stale (b_wire b @ rest) =
      (if value_size b \<le> MAX_SIZE_OF_BLOCK_FROM_STREAM
       then DataPayload (nm @ [fromSequenceNumber (word_of_int (mb_current m))]) (replicate (mb_virtualPayloadSize m) 0)
       else MalformedPayload)"
proof -
  obtain d where d: "reply_data r = Inr d" "\<not> hasWire (dp_wire d)" "dp_name d = rp_name r"
    "data_parts d (tlv_block 21 (rp_content r)) (tlv_block 22 (concat (map b_wire (signature_blocks (reply_info r)))))
      (tlv_block 23 (prependNonNegativeInteger (ucast (rp_signature r))))"
    "length (concat (map b_wire (data_blocks d (tlv_block 21 (rp_content r))
        (tlv_block 22 (concat (map b_wire (signature_blocks (reply_info r)))))
        (tlv_block 23 (prependNonNegativeInteger (ucast (rp_signature r)))))))
      \<le> name_size (rp_name r) + length (rp_content r) + locator_size r + 186"
    using reply_data_parts [OF assms(3)] by blast
  have "rp_name r = nm @ [fromSequenceNumber (word_of_int (mb_current m))]"
    "rp_content r = replicate (mb_virtualPayloadSize m) 0"
    using assms(1,2) by (simp_all add: mobile_OnInterest_def Let_def)
  with data_bytes_payload [OF d(4) SignatureInfo_decode_wire [OF reply_signature_ok(1) [OF assms(3)]] d(2), of stale rest] d(1,3,5)
  show ?thesis by fastforce
qed

definition answering_mobile :: mobile where
  "answering_mobile = (mobile_new [] [] 0)\<lparr>mb_active := True\<rparr>"

theorem mobile_reply_arrives_witness:
  "\<exists>d b d'. reply_data (last (mb_datas (mobile_OnInterest [component_of_string ''a''] answering_mobile))) = Inr d \<and>
     Data_wireEncode d = Inr (b, d') \<and>
     payload_of_bytes 0 (b_wire b) =
       DataPayload [component_of_string ''a'', fromSequenceNumber 0] (replicate 1024 0)"
proof -
  let ?r = "last (mb_datas (mobile_OnInterest [component_of_string ''a''] answering_mobile))"
  have r: "rp_name ?r = [component_of_string ''a'', fromSequenceNumber 0]" "rp_content ?r = replicate 1024 0"
    "rp_keyLocator ?r = None" "rp_freshness ?r = 0"
    by (simp_all add: mobile_OnInterest_def Let_def answering_mobile_def mobile_new_def GetMilliSeconds_def)
  have n: "name_size (rp_name ?r) = 7"
    unfolding r by (simp add: name_size_def name_blocks_def tlv_def writeVarNumber_def component_of_string_def bytes_of_def
        fromSequenceNumber_def fromNumberWithMarker_def prependNonNegativeInteger_def)
  show ?thesis
    using mobile_reply_arrives [of answering_mobile ?r "[component_of_string ''a'']" 0 "[]"] r n
    by (auto simp: reply_small_def locator_size_def answering_mobile_def mobile_new_def)
qed

end
