(* ===== verification/Name_Tree.thy ===== *)
theory Name_Tree
  imports Names
begin

text \<open>
  The name tree of the KITE baseline (\<^verbatim>\<open>src/src/ndnSIM/NFD/daemon/table/name-tree*.cpp\<close>), the index that its FIB, TIB and PIT
  share: a hash table of nodes, one per name, which is resized with its load, and on the nodes a tree by prefixes.
  A node is identified with its name, so that a pointer to an entry is a name; what the tables attach to an entry is
  a value of the type parameter.  CityHash and the products of floating-point factors are parameters.  Shown: the
  hash table finds exactly the nodes that were inserted and not erased, whatever the hash function and whenever it
  is resized; the tree stays closed under prefixes; and no operation of the tree changes what is attached.
\<close>

section \<open>Hash values\<close>

type_synonym hash_value = u64

definition computeHash :: "(byte list \<Rightarrow> hash_value) \<Rightarrow> name \<Rightarrow> nat \<Rightarrow> hash_value" where
  "computeHash H name prefixLen = fold (\<lambda>c h. h XOR H (component_wire c)) (take prefixLen name) 0"

fun hashes_from :: "(byte list \<Rightarrow> hash_value) \<Rightarrow> hash_value \<Rightarrow> name \<Rightarrow> hash_value list" where
  "hashes_from H h [] = [h]"
| "hashes_from H h (c # name) = h # hashes_from H (h XOR H (component_wire c)) name"

definition computeHashes :: "(byte list \<Rightarrow> hash_value) \<Rightarrow> name \<Rightarrow> hash_value list" where
  "computeHashes H name = hashes_from H 0 name"

section \<open>The hash table\<close>

text \<open>A node with its entry: hash value, parent, children in the order of their insertion, attached table entries.\<close>

record 'a nt_entry =
  nt_hash :: hash_value
  nt_parent :: "name option"
  nt_children :: "name list"
  nt_table :: 'a

text \<open>The four functions are the number of buckets times a factor, converted to \<^verbatim>\<open>size_t\<close>.\<close>

record hashtable_options =
  initialSize :: nat
  minSize :: nat
  expandLoad :: "nat \<Rightarrow> nat"
  expandSize :: "nat \<Rightarrow> nat"
  shrinkLoad :: "nat \<Rightarrow> nat"
  shrinkSize :: "nat \<Rightarrow> nat"

text \<open>A bucket is a list of nodes, the linked list from its head; \<open>ht_nodes\<close> holds the nodes.\<close>

record 'a hashtable =
  ht_buckets :: "name list list"
  ht_nodes :: "(name, 'a nt_entry) fmap"
  ht_options :: hashtable_options
  ht_size :: nat
  ht_expandThreshold :: nat
  ht_shrinkThreshold :: nat

definition getNBuckets :: "'a hashtable \<Rightarrow> nat" where
  "getNBuckets ht = length (ht_buckets ht)"

definition computeBucketIndex :: "hash_value \<Rightarrow> 'a hashtable \<Rightarrow> nat" where
  "computeBucketIndex h ht = unat h mod getNBuckets ht"

definition node_hash :: "'a hashtable \<Rightarrow> name \<Rightarrow> hash_value" where
  "node_hash ht n = (case fmlookup (ht_nodes ht) n of None \<Rightarrow> 0 | Some e \<Rightarrow> nt_hash e)"

definition computeThresholds :: "'a hashtable \<Rightarrow> 'a hashtable" where
  "computeThresholds ht =
     ht\<lparr>ht_expandThreshold := expandLoad (ht_options ht) (getNBuckets ht),
        ht_shrinkThreshold := shrinkLoad (ht_options ht) (getNBuckets ht)\<rparr>"

definition hashtable_new :: "hashtable_options \<Rightarrow> 'a hashtable" where
  "hashtable_new options =
     computeThresholds \<lparr>ht_buckets = replicate (initialSize options) [], ht_nodes = fmempty, ht_options = options,
       ht_size = 0, ht_expandThreshold = 0, ht_shrinkThreshold = 0\<rparr>"

definition attach :: "nat \<Rightarrow> name \<Rightarrow> 'a hashtable \<Rightarrow> 'a hashtable" where
  "attach bucket node ht = ht\<lparr>ht_buckets := (ht_buckets ht)[bucket := node # (ht_buckets ht ! bucket)]\<rparr>"

definition detach :: "nat \<Rightarrow> name \<Rightarrow> 'a hashtable \<Rightarrow> 'a hashtable" where
  "detach bucket node ht = ht\<lparr>ht_buckets := (ht_buckets ht)[bucket := remove1 node (ht_buckets ht ! bucket)]\<rparr>"

definition resize :: "nat \<Rightarrow> 'a hashtable \<Rightarrow> 'a hashtable" where
  "resize newNBuckets ht =
     (if getNBuckets ht = newNBuckets then ht
      else computeThresholds
        (fold (\<lambda>node ht. attach (computeBucketIndex (node_hash ht node) ht) node ht) (concat (ht_buckets ht))
           (ht\<lparr>ht_buckets := replicate newNBuckets []\<rparr>)))"

text \<open>The search of \<^verbatim>\<open>findOrInsert\<close>.  Its comparison of names is equality (\<open>component_compare_eq\<close>).\<close>

definition find_node :: "name \<Rightarrow> nat \<Rightarrow> hash_value \<Rightarrow> 'a hashtable \<Rightarrow> name option" where
  "find_node name prefixLen h ht =
     find (\<lambda>node. node_hash ht node = h \<and> take prefixLen name = node) (ht_buckets ht ! computeBucketIndex h ht)"

definition findOrInsert :: "'a \<Rightarrow> name \<Rightarrow> nat \<Rightarrow> hash_value \<Rightarrow> bool \<Rightarrow> 'a hashtable \<Rightarrow> (name option \<times> bool) \<times> 'a hashtable" where
  "findOrInsert tables0 name prefixLen h allowInsert ht =
     (let bucket = computeBucketIndex h ht in
      case find_node name prefixLen h ht of
        Some node \<Rightarrow> ((Some node, False), ht)
      | None \<Rightarrow>
          if \<not> allowInsert then ((None, False), ht)
          else let node = take prefixLen name;
                   ht = ht\<lparr>ht_nodes := fmupd node \<lparr>nt_hash = h, nt_parent = None, nt_children = [], nt_table = tables0\<rparr>
                                            (ht_nodes ht)\<rparr>;
                   ht = attach bucket node ht;
                   ht = ht\<lparr>ht_size := ht_size ht + 1\<rparr>;
                   ht = (if ht_size ht > ht_expandThreshold ht
                         then resize (expandSize (ht_options ht) (getNBuckets ht)) ht else ht)
               in ((Some node, True), ht))"

definition ht_find :: "(byte list \<Rightarrow> hash_value) \<Rightarrow> name \<Rightarrow> nat \<Rightarrow> 'a hashtable \<Rightarrow> name option" where
  "ht_find H name prefixLen ht = find_node name prefixLen (computeHash H name prefixLen) ht"

definition ht_erase :: "name \<Rightarrow> 'a hashtable \<Rightarrow> 'a hashtable" where
  "ht_erase node ht =
     (let ht = detach (computeBucketIndex (node_hash ht node) ht) node ht;
          ht = ht\<lparr>ht_nodes := fmdrop node (ht_nodes ht), ht_size := ht_size ht - 1\<rparr>
      in if ht_size ht < ht_shrinkThreshold ht
         then resize (max (minSize (ht_options ht)) (shrinkSize (ht_options ht) (getNBuckets ht))) ht else ht)"

section \<open>The tree\<close>

definition upd_entry :: "name \<Rightarrow> ('a nt_entry \<Rightarrow> 'a nt_entry) \<Rightarrow> 'a hashtable \<Rightarrow> 'a hashtable" where
  "upd_entry n f ht =
     (case fmlookup (ht_nodes ht) n of
        None \<Rightarrow> ht
      | Some e \<Rightarrow> ht\<lparr>ht_nodes := fmupd n (f e) (ht_nodes ht)\<rparr>)"

definition setParent :: "name \<Rightarrow> name \<Rightarrow> 'a hashtable \<Rightarrow> 'a hashtable" where
  "setParent n p ht =
     upd_entry p (\<lambda>e. e\<lparr>nt_children := nt_children e @ [n]\<rparr>) (upd_entry n (\<lambda>e. e\<lparr>nt_parent := Some p\<rparr>) ht)"

definition unsetParent :: "name \<Rightarrow> name \<Rightarrow> 'a hashtable \<Rightarrow> 'a hashtable" where
  "unsetParent n p ht =
     upd_entry n (\<lambda>e. e\<lparr>nt_parent := None\<rparr>) (upd_entry p (\<lambda>e. e\<lparr>nt_children := remove1 n (nt_children e)\<rparr>) ht)"

text \<open>\<^verbatim>\<open>NameTree::lookup\<close>: the entry of the name, created with all its ancestors when it is missing.\<close>

fun lookup_loop :: "'a \<Rightarrow> hash_value list \<Rightarrow> name \<Rightarrow> nat list \<Rightarrow> name option \<Rightarrow> 'a hashtable \<Rightarrow> 'a hashtable" where
  "lookup_loop tables0 hashes name [] parent ht = ht"
| "lookup_loop tables0 hashes name (prefixLen # ls) parent ht =
     (let ((node, isNew), ht) = findOrInsert tables0 name prefixLen (hashes ! prefixLen) True ht;
          ht = (case (isNew, parent, node) of (True, Some p, Some n) \<Rightarrow> setParent n p ht | _ \<Rightarrow> ht)
      in lookup_loop tables0 hashes name ls node ht)"

definition nt_lookup :: "(byte list \<Rightarrow> hash_value) \<Rightarrow> 'a \<Rightarrow> name \<Rightarrow> 'a hashtable \<Rightarrow> 'a hashtable" where
  "nt_lookup H tables0 name ht =
     lookup_loop tables0 (computeHashes H name) name [0..<Suc (length name)] None ht"

text \<open>\<^verbatim>\<open>eraseIfEmpty\<close> climbs while the entry has neither children nor table entries (\<open>hasTable\<close>).\<close>

definition nt_isEmpty :: "('a \<Rightarrow> bool) \<Rightarrow> 'a nt_entry \<Rightarrow> bool" where
  "nt_isEmpty hasTable e \<longleftrightarrow> nt_children e = [] \<and> \<not> hasTable (nt_table e)"

lemma nodes_upd_entry [simp]: "fmdom (ht_nodes (upd_entry n f ht)) = fmdom (ht_nodes ht)"
  by (auto simp: upd_entry_def fmdomI split: option.splits)

lemma ht_nodes_resize [simp]: "ht_nodes (resize k ht) = ht_nodes ht"
proof -
  have "ht_nodes (fold (\<lambda>node ht. attach (computeBucketIndex (node_hash ht node) ht) node ht) ns ht) = ht_nodes ht"
    for ns and ht :: "'a hashtable"
    by (induction ns arbitrary: ht) (simp_all add: attach_def)
  then show ?thesis by (simp add: resize_def computeThresholds_def)
qed

lemma ht_nodes_erase [simp]: "ht_nodes (ht_erase n ht) = fmdrop n (ht_nodes ht)"
  by (simp add: ht_erase_def detach_def Let_def)

function eraseIfEmpty :: "('a \<Rightarrow> bool) \<Rightarrow> name \<Rightarrow> bool \<Rightarrow> 'a hashtable \<Rightarrow> nat \<times> 'a hashtable" where
  "eraseIfEmpty hasTable n canEraseAncestors ht =
     (case fmlookup (ht_nodes ht) n of
        None \<Rightarrow> (0, ht)
      | Some e \<Rightarrow>
          if \<not> nt_isEmpty hasTable e then (0, ht)
          else let ht1 = (case nt_parent e of None \<Rightarrow> ht | Some p \<Rightarrow> unsetParent n p ht);
                   ht2 = ht_erase n ht1
               in if \<not> canEraseAncestors then (1, ht2)
                  else (case nt_parent e of
                          None \<Rightarrow> (1, ht2)
                        | Some p \<Rightarrow> let (nErased, ht3) = eraseIfEmpty hasTable p canEraseAncestors ht2
                                   in (Suc nErased, ht3)))"
  by pat_completeness auto

termination
proof (relation "measure (\<lambda>(_, _, _, ht). fcard (fmdom (ht_nodes ht)))")
  fix n and ht ht1 ht2 :: "'a hashtable" and e p
  assume "fmlookup (ht_nodes ht) n = Some e" and "ht1 = (case nt_parent e of None \<Rightarrow> ht | Some p \<Rightarrow> unsetParent n p ht)"
    and "ht2 = ht_erase n ht1"
  then have "fmdom (ht_nodes ht2) = fmdom (ht_nodes ht) |-| {|n|}" "n |\<in>| fmdom (ht_nodes ht)"
    by (auto simp: unsetParent_def fmdomI split: option.splits)
  then have "fcard (fmdom (ht_nodes ht2)) < fcard (fmdom (ht_nodes ht))"
    by (metis fcard_fminus1_less)
  then show "((hasTable, p, canEraseAncestors, ht2), hasTable, n, canEraseAncestors, ht)
      \<in> measure (\<lambda>(_, _, _, ht). fcard (fmdom (ht_nodes ht)))" for hasTable :: "'a \<Rightarrow> bool" and canEraseAncestors
    by simp
qed simp

declare eraseIfEmpty.simps [simp del]

section \<open>Matching and enumeration\<close>

definition nt_selects :: "('a \<Rightarrow> bool) \<Rightarrow> 'a hashtable \<Rightarrow> name \<Rightarrow> bool" where
  "nt_selects sel ht n = (case fmlookup (ht_nodes ht) n of None \<Rightarrow> False | Some e \<Rightarrow> sel (nt_table e))"

definition nt_parent_of :: "'a hashtable \<Rightarrow> name \<Rightarrow> name option" where
  "nt_parent_of ht n = (case fmlookup (ht_nodes ht) n of None \<Rightarrow> None | Some e \<Rightarrow> nt_parent e)"

definition nt_findExactMatch :: "(byte list \<Rightarrow> hash_value) \<Rightarrow> name \<Rightarrow> 'a hashtable \<Rightarrow> name option" where
  "nt_findExactMatch H name ht = ht_find H name (length name) ht"

fun lpm_loop :: "('a \<Rightarrow> bool) \<Rightarrow> hash_value list \<Rightarrow> name \<Rightarrow> nat list \<Rightarrow> 'a hashtable \<Rightarrow> name option" where
  "lpm_loop sel hashes name [] ht = None"
| "lpm_loop sel hashes name (prefixLen # ls) ht =
     (case find_node name prefixLen (hashes ! prefixLen) ht of
        None \<Rightarrow> lpm_loop sel hashes name ls ht
      | Some node \<Rightarrow> if nt_selects sel ht node then Some node else lpm_loop sel hashes name ls ht)"

definition nt_findLongestPrefixMatch :: "(byte list \<Rightarrow> hash_value) \<Rightarrow> ('a \<Rightarrow> bool) \<Rightarrow> name \<Rightarrow> 'a hashtable \<Rightarrow> name option" where
  "nt_findLongestPrefixMatch H sel name ht =
     lpm_loop sel (computeHashes H name) name (rev [0..<Suc (length name)]) ht"

text \<open>The overload that starts at an entry climbs along the parents; the number bounds the steps.\<close>

fun climb :: "nat \<Rightarrow> ('a \<Rightarrow> bool) \<Rightarrow> name \<Rightarrow> 'a hashtable \<Rightarrow> name option" where
  "climb 0 sel n ht = None"
| "climb (Suc k) sel n ht =
     (if nt_selects sel ht n then Some n
      else case nt_parent_of ht n of None \<Rightarrow> None | Some p \<Rightarrow> climb k sel p ht)"

definition nt_findLongestPrefixMatch_at :: "('a \<Rightarrow> bool) \<Rightarrow> name \<Rightarrow> 'a hashtable \<Rightarrow> name option" where
  "nt_findLongestPrefixMatch_at sel entry ht = climb (Suc (length entry)) sel entry ht"

text \<open>\<^verbatim>\<open>PrefixMatchImpl\<close>: from the longest match up to the root.\<close>

fun prefix_range :: "nat \<Rightarrow> ('a \<Rightarrow> bool) \<Rightarrow> name \<Rightarrow> 'a hashtable \<Rightarrow> name list" where
  "prefix_range 0 sel n ht = []"
| "prefix_range (Suc k) sel n ht =
     (let up = (case nt_parent_of ht n of None \<Rightarrow> [] | Some p \<Rightarrow> prefix_range k sel p ht)
      in if nt_selects sel ht n then n # up else up)"

definition nt_findAllMatches :: "(byte list \<Rightarrow> hash_value) \<Rightarrow> ('a \<Rightarrow> bool) \<Rightarrow> name \<Rightarrow> 'a hashtable \<Rightarrow> name list" where
  "nt_findAllMatches H sel name ht =
     (case nt_findLongestPrefixMatch H sel name ht of
        None \<Rightarrow> []
      | Some entry \<Rightarrow> prefix_range (Suc (length entry)) sel entry ht)"

text \<open>\<^verbatim>\<open>FullEnumerationImpl::advance\<close>: the first node of the first bucket that has one, the rest of its bucket,
  the buckets after it.\<close>

definition next_node :: "('a \<Rightarrow> bool) \<Rightarrow> 'a hashtable \<Rightarrow> name \<Rightarrow> name option" where
  "next_node sel ht n =
     (let currentBucket = computeBucketIndex (node_hash ht n) ht in
      case find (nt_selects sel ht) (tl (dropWhile (\<lambda>m. m \<noteq> n) (ht_buckets ht ! currentBucket))) of
        Some m \<Rightarrow> Some m
      | None \<Rightarrow> find (nt_selects sel ht) (concat (drop (Suc currentBucket) (ht_buckets ht))))"

definition full_advance :: "('a \<Rightarrow> bool) \<Rightarrow> 'a hashtable \<Rightarrow> name option \<Rightarrow> name option" where
  "full_advance sel ht i =
     (case i of
        Some n \<Rightarrow> next_node sel ht n
      | None \<Rightarrow>
          (case find (\<lambda>bucket. bucket \<noteq> []) (ht_buckets ht) of
             None \<Rightarrow> None
           | Some bucket \<Rightarrow> if nt_selects sel ht (hd bucket) then Some (hd bucket) else next_node sel ht (hd bucket)))"

fun full_range :: "nat \<Rightarrow> ('a \<Rightarrow> bool) \<Rightarrow> 'a hashtable \<Rightarrow> name option \<Rightarrow> name list" where
  "full_range 0 sel ht i = []"
| "full_range (Suc k) sel ht i =
     (case full_advance sel ht i of None \<Rightarrow> [] | Some n \<Rightarrow> n # full_range k sel ht (Some n))"

definition nt_fullEnumerate :: "('a \<Rightarrow> bool) \<Rightarrow> 'a hashtable \<Rightarrow> name list" where
  "nt_fullEnumerate sel ht = full_range (Suc (ht_size ht)) sel ht None"

section \<open>The hash table is a map\<close>

text \<open>Every node of the set \<open>N\<close> is in exactly one bucket, that of its index.\<close>

definition placed :: "'n list list \<Rightarrow> 'n set \<Rightarrow> ('n \<Rightarrow> nat) \<Rightarrow> bool" where
  "placed bs N idx \<longleftrightarrow> distinct (concat bs) \<and> set (concat bs) = N \<and> (\<forall>n \<in> N. idx n < length bs \<and> n \<in> set (bs ! idx n))"

lemma mset_concat_update:
  "i < length bs \<Longrightarrow> mset (concat (bs[i := ys])) + mset (bs ! i) = mset (concat bs) + mset ys"
proof (induction bs arbitrary: i)
  case (Cons b bs)
  then show ?case by (cases i) (auto simp: ac_simps)
qed simp

lemma mset_concat_cons: "i < length bs \<Longrightarrow> mset (concat (bs[i := x # bs ! i])) = add_mset x (mset (concat bs))"
  using mset_concat_update [of i bs "x # bs ! i"] by simp

lemma mset_concat_remove:
  assumes "i < length bs" and "x \<in> set (bs ! i)"
  shows "mset (concat (bs[i := remove1 x (bs ! i)])) = mset (concat bs) - {#x#}"
proof -
  let ?new = "mset (concat (bs[i := remove1 x (bs ! i)]))" and ?r = "mset (bs ! i) - {#x#}"
  have "mset (bs ! i) = add_mset x ?r" using assms(2) by (simp add: insert_DiffM)
  moreover have "?new + mset (bs ! i) = mset (concat bs) + ?r"
    using mset_concat_update [OF assms(1), of "remove1 x (bs ! i)"] by simp
  ultimately have "add_mset x ?new + ?r = mset (concat bs) + ?r"
    by (metis union_mset_add_mset_left union_mset_add_mset_right)
  then have "add_mset x ?new = mset (concat bs)" by (rule add_right_imp_eq)
  then show ?thesis by (metis add_mset_remove_trivial)
qed

lemma placedD: "placed bs N idx \<Longrightarrow> n \<in> N \<Longrightarrow> idx n < length bs \<and> n \<in> set (bs ! idx n)"
  by (simp add: placed_def)

lemma placed_attach:
  assumes "placed bs N idx" and "m \<notin> N" and "idx m < length bs"
  shows "placed (bs[idx m := m # bs ! idx m]) (insert m N) idx"
proof -
  let ?bs = "bs[idx m := m # bs ! idx m]"
  have ms: "mset (concat ?bs) = mset (m # concat bs)" using mset_concat_cons [OF assms(3)] by simp
  have "distinct (concat ?bs)"
    using assms(1,2) mset_eq_imp_distinct_iff [OF ms] by (simp add: placed_def)
  moreover have "set (concat ?bs) = insert m N"
    using assms(1) mset_eq_setD [OF ms] by (simp add: placed_def)
  moreover have "idx n < length ?bs \<and> n \<in> set (?bs ! idx n)" if "n \<in> insert m N" for n
    using that placedD [OF assms(1), of n] assms(3) by (cases "idx n = idx m") auto
  ultimately show ?thesis by (simp add: placed_def)
qed

lemma placed_detach:
  assumes "placed bs N idx" and "m \<in> N"
  shows "placed (bs[idx m := remove1 m (bs ! idx m)]) (N - {m}) idx"
proof -
  let ?bs = "bs[idx m := remove1 m (bs ! idx m)]"
  have i: "idx m < length bs" "m \<in> set (bs ! idx m)" using assms by (auto simp: placed_def)
  have "mset (concat ?bs) = mset (remove1 m (concat bs))" using mset_concat_remove [OF i] by simp
  note ms = this
  have d: "distinct (concat bs)" "set (concat bs) = N" using assms(1) by (simp_all add: placed_def)
  have "distinct (concat ?bs)" using d(1) mset_eq_imp_distinct_iff [OF ms] by simp
  moreover have "set (concat ?bs) = N - {m}" using d mset_eq_setD [OF ms] by simp
  moreover have "idx n < length ?bs \<and> n \<in> set (?bs ! idx n)" if "n \<in> N - {m}" for n
    using that placedD [OF assms(1), of n] i by (cases "idx n = idx m") auto
  ultimately show ?thesis by (simp add: placed_def)
qed

text \<open>A node is in no other bucket.\<close>

lemma distinct_concat_nth:
  "distinct (concat bs) \<Longrightarrow> i < length bs \<Longrightarrow> j < length bs \<Longrightarrow> n \<in> set (bs ! i) \<Longrightarrow> n \<in> set (bs ! j) \<Longrightarrow> i = j"
proof (induction bs arbitrary: i j)
  case (Cons b bs)
  have "n \<in> set (concat bs)" if "k < length bs" "n \<in> set (bs ! k)" for k using that by (auto simp del: in_set_conv_nth)
  then show ?case using Cons by (cases i; cases j) (auto simp: disjoint_iff)
qed simp

lemma placed_only:
  assumes "placed bs N idx" and "i < length bs" and "n \<in> set (bs ! i)"
  shows "i = idx n"
proof -
  have "n \<in> N" using assms nth_mem [OF assms(2)] by (auto simp: placed_def)
  with placedD [OF assms(1) this] assms show ?thesis
    using distinct_concat_nth [of bs i "idx n" n] by (simp add: placed_def)
qed

lemma placed_nil: "placed (replicate k []) {} idx"
  by (induction k) (simp_all add: placed_def)

lemma placed_cong: "placed bs N idx \<Longrightarrow> (\<And>n. n \<in> N \<Longrightarrow> idx' n = idx n) \<Longrightarrow> placed bs N idx'"
  by (simp add: placed_def)

text \<open>The constructor asserts these, except the last; a larger table has buckets.\<close>

definition options_ok :: "hashtable_options \<Rightarrow> bool" where
  "options_ok opt \<longleftrightarrow> 0 < minSize opt \<and> minSize opt \<le> initialSize opt \<and> (\<forall>n > 0. 0 < expandSize opt n)"

definition ht_names :: "'a hashtable \<Rightarrow> name set" where
  "ht_names ht = fset (fmdom (ht_nodes ht))"

definition bucket_of :: "'a hashtable \<Rightarrow> name \<Rightarrow> nat" where
  "bucket_of ht n = computeBucketIndex (node_hash ht n) ht"

definition ht_ok :: "(byte list \<Rightarrow> hash_value) \<Rightarrow> 'a hashtable \<Rightarrow> bool" where
  "ht_ok H ht \<longleftrightarrow> options_ok (ht_options ht) \<and> 0 < getNBuckets ht \<and>
     placed (ht_buckets ht) (ht_names ht) (bucket_of ht) \<and>
     (\<forall>n \<in> ht_names ht. node_hash ht n = computeHash H n (length n)) \<and> ht_size ht = card (ht_names ht)"

lemma computeHash_prefix: "computeHash H name k = computeHash H (take k name) (length (take k name))"
  unfolding computeHash_def by (simp only: take_all order_refl)

lemma hashes_from_nth: "k \<le> length name \<Longrightarrow> hashes_from H h name ! k = fold (\<lambda>c h. h XOR H (component_wire c)) (take k name) h"
proof (induction name arbitrary: h k)
  case (Cons c name)
  then show ?case by (cases k) auto
qed simp

lemma computeHashes_nth: "k \<le> length name \<Longrightarrow> computeHashes H name ! k = computeHash H name k"
  by (simp add: computeHashes_def computeHash_def hashes_from_nth)

text \<open>Searching with the right hash value finds exactly the nodes of the table.\<close>

lemma find_node_ok:
  assumes "ht_ok H ht" and "h = computeHash H name k"
  shows "find_node name k h ht = (if take k name \<in> ht_names ht then Some (take k name) else None)"
proof (cases "take k name \<in> ht_names ht")
  case True
  then have "node_hash ht (take k name) = h"
    using assms computeHash_prefix [of H name k] by (simp add: ht_ok_def)
  moreover have "take k name \<in> set (ht_buckets ht ! bucket_of ht (take k name))"
    using assms(1) True placedD by (fastforce simp: ht_ok_def)
  ultimately show ?thesis
    using True by (auto simp: find_node_def bucket_of_def intro!: find_unique)
next
  case False
  have "n \<in> ht_names ht" if "n \<in> set (ht_buckets ht ! computeBucketIndex h ht)" for n
  proof -
    have "ht_buckets ht ! computeBucketIndex h ht \<in> set (ht_buckets ht)"
      using assms(1) by (auto simp: ht_ok_def computeBucketIndex_def getNBuckets_def)
    then show ?thesis using that assms(1) by (auto simp: ht_ok_def placed_def)
  qed
  then show ?thesis using False by (auto simp: find_node_def intro!: find_None)
qed

lemma attach_frame [simp, frame]:
  "ht_nodes (attach b n ht) = ht_nodes ht" "ht_options (attach b n ht) = ht_options ht" "ht_size (attach b n ht) = ht_size ht"
  "getNBuckets (attach b n ht) = getNBuckets ht" "node_hash (attach b n ht) = node_hash ht"
  "bucket_of (attach b n ht) = bucket_of ht" "ht_names (attach b n ht) = ht_names ht"
  "computeBucketIndex h (attach b n ht) = computeBucketIndex h ht"
  by (auto simp: attach_def getNBuckets_def node_hash_def bucket_of_def computeBucketIndex_def ht_names_def fun_eq_iff)

lemma computeThresholds_frame [simp, frame]:
  "ht_nodes (computeThresholds ht) = ht_nodes ht" "ht_options (computeThresholds ht) = ht_options ht"
  "ht_size (computeThresholds ht) = ht_size ht" "ht_buckets (computeThresholds ht) = ht_buckets ht"
  "getNBuckets (computeThresholds ht) = getNBuckets ht" "node_hash (computeThresholds ht) = node_hash ht"
  "bucket_of (computeThresholds ht) = bucket_of ht" "ht_names (computeThresholds ht) = ht_names ht"
  by (auto simp: computeThresholds_def getNBuckets_def node_hash_def bucket_of_def computeBucketIndex_def ht_names_def fun_eq_iff)

lemma set_size_frame [simp, frame]:
  "getNBuckets (ht\<lparr>ht_size := k\<rparr>) = getNBuckets ht" "node_hash (ht\<lparr>ht_size := k\<rparr>) = node_hash ht"
  "bucket_of (ht\<lparr>ht_size := k\<rparr>) = bucket_of ht" "ht_names (ht\<lparr>ht_size := k\<rparr>) = ht_names ht"
  by (auto simp: getNBuckets_def node_hash_def bucket_of_def computeBucketIndex_def ht_names_def fun_eq_iff)

lemma getNBuckets_nodes [simp, frame]: "getNBuckets (ht\<lparr>ht_nodes := m\<rparr>) = getNBuckets ht"
  by (simp add: getNBuckets_def)

lemma bucket_of_less: "0 < getNBuckets ht \<Longrightarrow> bucket_of ht n < length (ht_buckets ht)"
  by (simp add: bucket_of_def computeBucketIndex_def getNBuckets_def)

lemma fold_attach:
  fixes ht :: "'a hashtable"
  assumes "placed (ht_buckets ht) N (bucket_of ht)" and "0 < getNBuckets ht" and "distinct ns" and "set ns \<inter> N = {}"
  defines "ht' \<equiv> fold (\<lambda>node ht. attach (computeBucketIndex (node_hash ht node) ht) node ht) ns ht"
  shows "placed (ht_buckets ht') (N \<union> set ns) (bucket_of ht) \<and> getNBuckets ht' = getNBuckets ht \<and>
    bucket_of ht' = bucket_of ht \<and> ht_nodes ht' = ht_nodes ht \<and> ht_options ht' = ht_options ht \<and> ht_size ht' = ht_size ht"
  using assms(1-4) unfolding ht'_def
proof (induction ns arbitrary: ht N)
  case (Cons n ns)
  let ?ht = "attach (computeBucketIndex (node_hash ht n) ht) n ht"
  have "placed (ht_buckets ?ht) (insert n N) (bucket_of ht)"
    using placed_attach [OF Cons.prems(1), of n] bucket_of_less [OF Cons.prems(2)] Cons.prems(4)
    by (simp add: attach_def bucket_of_def [symmetric])
  then show ?case using Cons.IH [of ?ht "insert n N"] Cons.prems by simp
qed simp

lemma resize_ok:
  assumes "ht_ok H ht" and "0 < k"
  shows "ht_ok H (resize k ht)"
proof (cases "getNBuckets ht = k")
  case False
  let ?ht = "ht\<lparr>ht_buckets := replicate k []\<rparr>"
  have "placed (ht_buckets ?ht) {} (bucket_of ?ht)" by (simp add: placed_nil)
  moreover have n: "0 < getNBuckets ?ht" using assms(2) by (simp add: getNBuckets_def)
  moreover have d: "distinct (concat (ht_buckets ht))" "set (concat (ht_buckets ht)) = ht_names ht"
    using assms(1) by (simp_all add: ht_ok_def placed_def)
  ultimately have "placed (ht_buckets (resize k ht)) (ht_names ht) (bucket_of (resize k ht)) \<and>
      getNBuckets (resize k ht) = getNBuckets ?ht \<and> ht_nodes (resize k ht) = ht_nodes ht \<and>
      ht_options (resize k ht) = ht_options ht \<and> ht_size (resize k ht) = ht_size ht"
    using False fold_attach [of ?ht "{}" "concat (ht_buckets ht)"] by (simp add: resize_def)
  then show ?thesis using assms(1) n by (simp add: ht_ok_def ht_names_def node_hash_def)
qed (use assms in \<open>simp add: resize_def\<close>)

lemma findOrInsert_present:
  "ht_ok H ht \<Longrightarrow> h = computeHash H name k \<Longrightarrow> take k name \<in> ht_names ht \<Longrightarrow>
   findOrInsert t0 name k h b ht = ((Some (take k name), False), ht)"
  by (simp add: findOrInsert_def find_node_ok Let_def)

lemma findOrInsert_absent:
  fixes ht :: "'a hashtable"
  assumes "ht_ok H ht" and "h = computeHash H name k" and "take k name \<notin> ht_names ht"
  shows "\<exists>ht'. findOrInsert t0 name k h True ht = ((Some (take k name), True), ht') \<and> ht_ok H ht' \<and>
    ht_nodes ht' = fmupd (take k name) \<lparr>nt_hash = h, nt_parent = None, nt_children = [], nt_table = t0\<rparr> (ht_nodes ht)"
proof -
  let ?n = "take k name"
  let ?e = "\<lparr>nt_hash = h, nt_parent = None, nt_children = [], nt_table = t0\<rparr>"
  let ?ht1 = "ht\<lparr>ht_nodes := fmupd ?n ?e (ht_nodes ht)\<rparr>"
  let ?ht2 = "attach (computeBucketIndex h ht) ?n ?ht1"
  let ?ht3 = "?ht2\<lparr>ht_size := ht_size ?ht2 + 1\<rparr>"
  note ok = assms(1) [unfolded ht_ok_def]
  have names: "ht_names ?ht1 = insert ?n (ht_names ht)" by (simp add: ht_names_def)
  have hash: "node_hash ?ht1 n = (if n = ?n then h else node_hash ht n)" for n by (simp add: node_hash_def)
  have idx: "bucket_of ?ht1 n = bucket_of ht n" if "n \<in> ht_names ht" for n
    using that assms(3) by (auto simp: bucket_of_def hash computeBucketIndex_def getNBuckets_def)
  have idx_n: "bucket_of ?ht1 ?n = computeBucketIndex h ht"
    by (simp add: bucket_of_def hash computeBucketIndex_def getNBuckets_def)
  have "placed (ht_buckets ht) (ht_names ht) (bucket_of ?ht1)"
    using ok placed_cong idx by blast
  then have "placed (ht_buckets ?ht2) (ht_names ?ht1) (bucket_of ?ht1)"
    using placed_attach [of "ht_buckets ht" "ht_names ht" "bucket_of ?ht1" ?n] assms(3) ok idx_n names
    by (simp add: attach_def getNBuckets_def computeBucketIndex_def)
  moreover have "finite (ht_names ht)" by (simp add: ht_names_def)
  ultimately have ok3: "ht_ok H ?ht3"
    using ok assms(2,3) names hash computeHash_prefix [of H name k] by (auto simp: ht_ok_def)
  let ?ht4 = "if ht_size ?ht3 > ht_expandThreshold ?ht3 then resize (expandSize (ht_options ?ht3) (getNBuckets ?ht3)) ?ht3 else ?ht3"
  have "0 < getNBuckets ?ht3" "options_ok (ht_options ?ht3)" using ok3 unfolding ht_ok_def by blast+
  then have "ht_ok H ?ht4" using ok3 by (auto intro!: resize_ok simp: options_ok_def)
  moreover have "ht_nodes ?ht4 = fmupd ?n ?e (ht_nodes ht)" by simp
  moreover have "findOrInsert t0 name k h True ht = ((Some ?n, True), ?ht4)"
    using find_node_ok [OF assms(1,2)] assms(3) by (simp add: findOrInsert_def Let_def)
  ultimately show ?thesis by blast
qed

lemma ht_erase_ok:
  assumes "ht_ok H ht" and "n \<in> ht_names ht"
  shows "ht_ok H (ht_erase n ht)"
proof -
  let ?ht1 = "detach (bucket_of ht n) n ht"
  let ?ht2 = "?ht1\<lparr>ht_nodes := fmdrop n (ht_nodes ?ht1), ht_size := ht_size ?ht1 - 1\<rparr>"
  note ok = assms(1) [unfolded ht_ok_def]
  have names: "ht_names ?ht2 = ht_names ht - {n}" by (simp add: ht_names_def detach_def)
  have idx: "bucket_of ?ht2 m = bucket_of ht m" if "m \<in> ht_names ht - {n}" for m
    using that by (auto simp: bucket_of_def node_hash_def computeBucketIndex_def getNBuckets_def detach_def)
  have "placed (ht_buckets ?ht2) (ht_names ht - {n}) (bucket_of ht)"
    using placed_detach [OF _ assms(2)] ok by (simp add: detach_def)
  then have "placed (ht_buckets ?ht2) (ht_names ?ht2) (bucket_of ?ht2)"
    unfolding names using idx by (rule placed_cong)
  moreover have "finite (ht_names ht)" by (simp add: ht_names_def)
  moreover have "node_hash ?ht2 m = node_hash ht m" if "m \<noteq> n" for m using that by (simp add: node_hash_def detach_def)
  ultimately have ok2: "ht_ok H ?ht2"
    using ok assms(2) names by (simp add: ht_ok_def getNBuckets_def detach_def)
  have "0 < max (minSize (ht_options ?ht2)) x" for x
    using ok by (simp add: options_ok_def detach_def less_max_iff_disj)
  then have "ht_ok H (resize (max (minSize (ht_options ?ht2)) x) ?ht2)" for x by (intro resize_ok [OF ok2])
  then show ?thesis using ok2 by (simp add: ht_erase_def Let_def bucket_of_def)
qed

lemma hashtable_new_ok: "options_ok opt \<Longrightarrow> ht_ok H (hashtable_new opt)"
  by (simp add: ht_ok_def hashtable_new_def options_ok_def getNBuckets_def ht_names_def placed_nil)

section \<open>The tree is closed under prefixes\<close>

definition tree_node_ok :: "'a hashtable \<Rightarrow> name \<Rightarrow> 'a nt_entry \<Rightarrow> bool" where
  "tree_node_ok ht n e \<longleftrightarrow>
     (if n = [] then nt_parent e = None
      else nt_parent e = Some (butlast n) \<and>
        (\<exists>pe. fmlookup (ht_nodes ht) (butlast n) = Some pe \<and> n \<in> set (nt_children pe))) \<and>
     distinct (nt_children e) \<and> (\<forall>c \<in> set (nt_children e). c \<noteq> [] \<and> butlast c = n \<and> c \<in> ht_names ht)"

definition nt_ok :: "(byte list \<Rightarrow> hash_value) \<Rightarrow> 'a hashtable \<Rightarrow> bool" where
  "nt_ok H ht \<longleftrightarrow> ht_ok H ht \<and> (\<forall>n e. fmlookup (ht_nodes ht) n = Some e \<longrightarrow> tree_node_ok ht n e)"

text \<open>What is attached at a name: nothing where there is no entry.\<close>

definition table_of :: "'a \<Rightarrow> 'a hashtable \<Rightarrow> name \<Rightarrow> 'a" where
  "table_of t0 ht n = (case fmlookup (ht_nodes ht) n of None \<Rightarrow> t0 | Some e \<Rightarrow> nt_table e)"

lemma in_ht_names: "n \<in> ht_names ht \<longleftrightarrow> (\<exists>e. fmlookup (ht_nodes ht) n = Some e)"
  by (cases "fmlookup (ht_nodes ht) n") (auto simp: ht_names_def fmdom_notI intro: fmdomI)

lemma nt_ok_ht: "nt_ok H ht \<Longrightarrow> ht_ok H ht"
  by (simp add: nt_ok_def)

lemma nt_ok_node: "nt_ok H ht \<Longrightarrow> fmlookup (ht_nodes ht) n = Some e \<Longrightarrow> tree_node_ok ht n e"
  by (simp add: nt_ok_def)

lemma nt_ok_new: "options_ok opt \<Longrightarrow> nt_ok H (hashtable_new opt)"
  by (simp add: nt_ok_def hashtable_new_ok) (simp add: hashtable_new_def)

lemma ht_names_upd [simp]: "ht_names (upd_entry n f ht) = ht_names ht"
  by (simp add: ht_names_def)

lemma upd_entry_ok:
  assumes "\<And>e. nt_hash (f e) = nt_hash e"
  shows "ht_ok H (upd_entry n f ht) = ht_ok H ht"
proof -
  have "node_hash (upd_entry n f ht) = node_hash ht"
    using assms by (auto simp: node_hash_def upd_entry_def fun_eq_iff split: option.splits)
  moreover have b: "ht_buckets (upd_entry n f ht) = ht_buckets ht" "ht_options (upd_entry n f ht) = ht_options ht"
    "ht_size (upd_entry n f ht) = ht_size ht"
    by (auto simp: upd_entry_def split: option.splits)
  moreover have "getNBuckets (upd_entry n f ht) = getNBuckets ht" by (simp add: getNBuckets_def b)
  ultimately show ?thesis
    by (simp add: ht_ok_def bucket_of_def [abs_def] computeBucketIndex_def cong del: ball_cong_simp)
qed

lemma lookup_upd_entry:
  "fmlookup (ht_nodes (upd_entry n f ht)) m = (if m = n then map_option f (fmlookup (ht_nodes ht) n) else fmlookup (ht_nodes ht) m)"
  by (auto simp: upd_entry_def split: option.splits)

lemma parent_ok: "ht_ok H (setParent n p ht) = ht_ok H ht" "ht_ok H (unsetParent n p ht) = ht_ok H ht"
  by (simp_all add: setParent_def unsetParent_def upd_entry_ok)

lemma ht_names_parent [simp]: "ht_names (setParent n p ht) = ht_names ht" "ht_names (unsetParent n p ht) = ht_names ht"
  by (simp_all add: setParent_def unsetParent_def)

text \<open>A new leaf under its parent.\<close>

lemma insert_leaf:
  assumes ok: "nt_ok H ht" and new: "n \<notin> ht_names ht" and parent: "n \<noteq> [] \<Longrightarrow> butlast n \<in> ht_names ht"
    and ht': "ht_ok H ht'" "ht_nodes ht' = fmupd n \<lparr>nt_hash = h, nt_parent = None, nt_children = [], nt_table = t0\<rparr> (ht_nodes ht)"
  defines "ht2 \<equiv> (if n = [] then ht' else setParent n (butlast n) ht')"
  shows "nt_ok H ht2 \<and> ht_names ht2 = insert n (ht_names ht) \<and> table_of t0 ht2 = table_of t0 ht"
proof -
  have names: "ht_names ht2 = insert n (ht_names ht)" by (simp add: ht2_def ht_names_def ht'(2) setParent_def)
  have neq: "butlast n \<noteq> n" if "n \<noteq> []" using that by (metis append_butlast_last_id append_self_conv list.discI)
  have nodes: "fmlookup (ht_nodes ht2) m =
      (if m = n then Some \<lparr>nt_hash = h, nt_parent = (if n = [] then None else Some (butlast n)), nt_children = [], nt_table = t0\<rparr>
       else if n \<noteq> [] \<and> m = butlast n then map_option (\<lambda>e. e\<lparr>nt_children := nt_children e @ [n]\<rparr>) (fmlookup (ht_nodes ht) m)
       else fmlookup (ht_nodes ht) m)" for m
    using neq by (auto simp: ht2_def ht'(2) setParent_def lookup_upd_entry)
  have "tree_node_ok ht2 m e" if e: "fmlookup (ht_nodes ht2) m = Some e" for m e
  proof (cases "m = n")
    case True
    then have "e = \<lparr>nt_hash = h, nt_parent = (if n = [] then None else Some (butlast n)), nt_children = [], nt_table = t0\<rparr>"
      using e nodes by simp
    then show ?thesis
      using True parent neq by (auto simp: tree_node_ok_def nodes in_ht_names)
  next
    case False
    then obtain e0 where e0: "fmlookup (ht_nodes ht) m = Some e0" using e nodes by (auto split: if_splits)
    note t = nt_ok_node [OF ok e0, unfolded tree_node_ok_def]
    have ch: "nt_children e = (if n \<noteq> [] \<and> m = butlast n then nt_children e0 @ [n] else nt_children e0)"
      "nt_parent e = nt_parent e0"
      using e e0 nodes False by (auto split: if_splits)
    have up: "\<exists>pe. fmlookup (ht_nodes ht2) (butlast m) = Some pe \<and> m \<in> set (nt_children pe)" if "m \<noteq> []"
    proof -
      obtain pe where "fmlookup (ht_nodes ht) (butlast m) = Some pe" "m \<in> set (nt_children pe)" using t \<open>m \<noteq> []\<close> by auto
      then show ?thesis using new nodes [of "butlast m"] by (auto simp: in_ht_names)
    qed
    have "n \<notin> set (nt_children e0)" using t new by auto
    then show ?thesis using t up ch names by (auto simp: tree_node_ok_def)
  qed
  moreover have "ht_ok H ht2" using ht'(1) by (simp add: ht2_def parent_ok)
  moreover have "table_of t0 ht2 m = table_of t0 ht m" for m
    using new by (auto simp: table_of_def nodes in_ht_names split: option.splits)
  ultimately show ?thesis using names by (auto simp: nt_ok_def)
qed

lemma lookup_loop_ok:
  assumes "nt_ok H ht" and "k \<le> Suc (length name)" and "\<forall>j < k. take j name \<in> ht_names ht"
    and "parent = (if k = 0 then None else Some (take (k - 1) name))"
  shows "nt_ok H (lookup_loop t0 (computeHashes H name) name [k..<Suc (length name)] parent ht) \<and>
    ht_names (lookup_loop t0 (computeHashes H name) name [k..<Suc (length name)] parent ht) =
      ht_names ht \<union> {take j name |j. j \<le> length name} \<and>
    table_of t0 (lookup_loop t0 (computeHashes H name) name [k..<Suc (length name)] parent ht) = table_of t0 ht"
  using assms
proof (induction "Suc (length name) - k" arbitrary: k ht parent)
  case 0
  then have "[k..<Suc (length name)] = []" "{take j name |j. j \<le> length name} \<subseteq> ht_names ht" by auto
  with 0 show ?case by (simp del: upt_Suc) blast
next
  case (Suc d)
  then have k: "k \<le> length name" by simp
  then have upt: "[k..<Suc (length name)] = k # [Suc k..<Suc (length name)]" by (simp add: upt_conv_Cons del: upt_Suc)
  let ?n = "take k name" and ?h = "computeHash H name k"
  have h: "computeHashes H name ! k = ?h" using k by (simp add: computeHashes_nth)
  have IH: "nt_ok H ht2 \<Longrightarrow> ht_names ht2 = insert ?n (ht_names ht) \<Longrightarrow> table_of t0 ht2 = table_of t0 ht \<Longrightarrow>
      nt_ok H (lookup_loop t0 (computeHashes H name) name [Suc k..<Suc (length name)] (Some ?n) ht2) \<and>
      ht_names (lookup_loop t0 (computeHashes H name) name [Suc k..<Suc (length name)] (Some ?n) ht2) =
        ht_names ht \<union> {take j name |j. j \<le> length name} \<and>
      table_of t0 (lookup_loop t0 (computeHashes H name) name [Suc k..<Suc (length name)] (Some ?n) ht2) = table_of t0 ht" for ht2
    using Suc.hyps(1) [of "Suc k" ht2 "Some ?n"] Suc.hyps(2) Suc.prems(3) k by (auto simp: less_Suc_eq simp del: upt_Suc)
  have ok: "ht_ok H ht" using Suc.prems(1) by (simp add: nt_ok_def)
  show ?case
  proof (cases "?n \<in> ht_names ht")
    case True
    then show ?thesis
      unfolding upt using IH [of ht] Suc.prems(1) findOrInsert_present [OF ok refl True] h
      by (auto simp: insert_absorb simp del: upt_Suc)
  next
    case False
    obtain ht' where ht': "findOrInsert t0 name k ?h True ht = ((Some ?n, True), ht')" "ht_ok H ht'"
      "ht_nodes ht' = fmupd ?n \<lparr>nt_hash = ?h, nt_parent = None, nt_children = [], nt_table = t0\<rparr> (ht_nodes ht)"
      using findOrInsert_absent [OF ok refl False] by blast
    let ?ht2 = "if ?n = [] then ht' else setParent ?n (butlast ?n) ht'"
    have "butlast ?n = take (k - 1) name" using k by (simp add: butlast_take)
    moreover have nil: "?n = [] \<longleftrightarrow> k = 0" using k False Suc.prems(3) by (cases k) (auto simp: take_eq_Nil)
    ultimately have ht2: "(case parent of None \<Rightarrow> ht' | Some p \<Rightarrow> setParent ?n p ht') = ?ht2"
      and up: "?n \<noteq> [] \<Longrightarrow> butlast ?n \<in> ht_names ht"
      using Suc.prems(3,4) by auto
    have "lookup_loop t0 (computeHashes H name) name (k # [Suc k..<Suc (length name)]) parent ht =
        lookup_loop t0 (computeHashes H name) name [Suc k..<Suc (length name)] (Some ?n) ?ht2"
      unfolding ht2 [symmetric] by (cases parent) (simp_all add: ht'(1) h del: upt_Suc)
    then show ?thesis
      unfolding upt using IH [of ?ht2] insert_leaf [OF Suc.prems(1) False up ht'(2,3)] by (simp del: upt_Suc take_eq_Nil)
  qed
qed

lemma takes_prefixes: "map (\<lambda>k. take k n) [0..<Suc (length n)] = prefixes n"
proof (induction n rule: rev_induct)
  case (snoc c n)
  have "map (\<lambda>k. take k (n @ [c])) [0..<Suc (length n)] = map (\<lambda>k. take k n) [0..<Suc (length n)]" by simp
  with snoc show ?case by simp
qed simp

lemma nt_lookup_ok:
  assumes "nt_ok H ht"
  shows "nt_ok H (nt_lookup H t0 name ht)" and "ht_names (nt_lookup H t0 name ht) = ht_names ht \<union> {p. prefix p name}"
    and "table_of t0 (nt_lookup H t0 name ht) = table_of t0 ht"
proof -
  have "{take j name |j. j \<le> length name} = set (map (\<lambda>k. take k name) [0..<Suc (length name)])" by (auto simp del: upt_Suc)
  then have "{take j name |j. j \<le> length name} = {p. prefix p name}" by (simp only: takes_prefixes) auto
  with lookup_loop_ok [OF assms, of 0 name None t0]
  show "nt_ok H (nt_lookup H t0 name ht)" "ht_names (nt_lookup H t0 name ht) = ht_names ht \<union> {p. prefix p name}"
    "table_of t0 (nt_lookup H t0 name ht) = table_of t0 ht"
    unfolding nt_lookup_def by (simp_all del: upt_Suc)
qed

text \<open>An entry without children leaves the tree.\<close>

lemma erase_leaf:
  assumes ok: "nt_ok H ht" and e: "fmlookup (ht_nodes ht) n = Some e" and leaf: "nt_children e = []" "nt_table e = t0"
  defines "ht2 \<equiv> ht_erase n (case nt_parent e of None \<Rightarrow> ht | Some p \<Rightarrow> unsetParent n p ht)"
  shows "nt_ok H ht2 \<and> ht_names ht2 = ht_names ht - {n} \<and> table_of t0 ht2 = table_of t0 ht"
proof -
  note t = nt_ok_node [OF ok e, unfolded tree_node_ok_def]
  have neq: "butlast n \<noteq> n" if "n \<noteq> []" using that by (metis append_butlast_last_id append_self_conv list.discI)
  have parent: "nt_parent e = (if n = [] then None else Some (butlast n))" using t by (auto split: if_splits)
  have nodes: "fmlookup (ht_nodes ht2) m =
      (if m = n then None
       else if n \<noteq> [] \<and> m = butlast n then map_option (\<lambda>e. e\<lparr>nt_children := remove1 n (nt_children e)\<rparr>) (fmlookup (ht_nodes ht) m)
       else fmlookup (ht_nodes ht) m)" for m
    using neq by (auto simp: ht2_def parent unsetParent_def lookup_upd_entry)
  have names: "ht_names ht2 = ht_names ht - {n}" by (auto simp: in_ht_names nodes split: if_splits)
  have "tree_node_ok ht2 m x" if x: "fmlookup (ht_nodes ht2) m = Some x" for m x
  proof -
    obtain x0 where x0: "fmlookup (ht_nodes ht) m = Some x0" "m \<noteq> n" using x nodes by (auto split: if_splits)
    note tm = nt_ok_node [OF ok x0(1), unfolded tree_node_ok_def]
    have ch: "nt_children x = (if n \<noteq> [] \<and> m = butlast n then remove1 n (nt_children x0) else nt_children x0)"
      "nt_parent x = nt_parent x0"
      using x x0 nodes by (auto split: if_splits)
    have "\<exists>pe. fmlookup (ht_nodes ht2) (butlast m) = Some pe \<and> m \<in> set (nt_children pe)" if "m \<noteq> []"
    proof -
      obtain pe where pe: "fmlookup (ht_nodes ht) (butlast m) = Some pe" "m \<in> set (nt_children pe)" using tm \<open>m \<noteq> []\<close> by auto
      then have "butlast m \<noteq> n" using e leaf(1) by auto
      then show ?thesis using pe nodes [of "butlast m"] x0(2) by (auto simp: in_set_remove1)
    qed
    moreover have "n \<notin> set (nt_children x)"
      using tm ch by (auto simp: set_remove1_eq)
    ultimately show ?thesis using tm ch names by (auto simp: tree_node_ok_def dest: notin_set_remove1 split: if_splits)
  qed
  moreover have "ht_ok H ht2"
    using ok e by (auto simp: ht2_def nt_ok_def parent_ok in_ht_names split: option.splits intro!: ht_erase_ok)
  moreover have "table_of t0 ht2 m = table_of t0 ht m" for m
    using e leaf(2) by (auto simp: table_of_def nodes split: option.splits)
  ultimately show ?thesis using names by (auto simp: nt_ok_def)
qed

text \<open>\<^verbatim>\<open>eraseIfEmpty\<close> returns the number of the entries it has erased; they had nothing attached and lie on the way to the root.\<close>

lemma eraseIfEmpty_ok:
  assumes "nt_ok H ht" and "\<And>t. \<not> hasTable t \<Longrightarrow> t = t0" and "eraseIfEmpty hasTable n anc ht = (k, ht')"
  shows "nt_ok H ht' \<and> table_of t0 ht' = table_of t0 ht \<and> ht_names ht' \<subseteq> ht_names ht \<and>
    (\<forall>m \<in> ht_names ht - ht_names ht'. prefix m n \<and> table_of t0 ht m = t0) \<and> k = card (ht_names ht - ht_names ht')"
  using assms
proof (induction hasTable n anc ht arbitrary: k ht' rule: eraseIfEmpty.induct)
  case (1 hasTable n anc ht)
  show ?case
  proof (cases "\<exists>e. fmlookup (ht_nodes ht) n = Some e \<and> nt_isEmpty hasTable e")
    case False
    then have "eraseIfEmpty hasTable n anc ht = (0, ht)" by (simp add: eraseIfEmpty.simps [of hasTable n] split: option.splits)
    then have "k = 0 \<and> ht' = ht" using "1.prems"(3) by simp
    then show ?thesis using "1.prems"(1) by simp
  next
    case True
    then obtain e where e: "fmlookup (ht_nodes ht) n = Some e" "nt_isEmpty hasTable e" by blast
    let ?ht1 = "case nt_parent e of None \<Rightarrow> ht | Some p \<Rightarrow> unsetParent n p ht"
    let ?ht2 = "ht_erase n ?ht1"
    have "\<not> hasTable (nt_table e)" and leaf: "nt_children e = []" using e(2) by (simp_all add: nt_isEmpty_def)
    then have t0: "nt_table e = t0" by (intro "1.prems"(2))
    have two: "nt_ok H ?ht2" "ht_names ?ht2 = ht_names ht - {n}" "table_of t0 ?ht2 = table_of t0 ht"
      using erase_leaf [OF "1.prems"(1) e(1) leaf t0] by simp_all
    have n: "n \<in> ht_names ht" "table_of t0 ht n = t0" using e(1) t0 by (auto simp: in_ht_names table_of_def)
    have one: "ht_names ht - ht_names ?ht2 = {n}" unfolding two(2) using n(1) by blast
    show ?thesis
    proof (cases "anc \<and> nt_parent e \<noteq> None")
      case False
      then have "eraseIfEmpty hasTable n anc ht = (1, ?ht2)"
        using e by (auto simp: eraseIfEmpty.simps [of hasTable n] Let_def split: option.splits)
      then have "k = 1 \<and> ht' = ?ht2" using "1.prems"(3) by simp
      then show ?thesis using two one n by simp
    next
      case anc: True
      then obtain p where p: "nt_parent e = Some p" by blast
      then have up: "prefix p n" 
        using nt_ok_node [OF "1.prems"(1) e(1)] prefixeq_butlast [of n] by (auto simp: tree_node_ok_def split: if_splits)
      have "eraseIfEmpty hasTable n anc ht = (Suc (fst (eraseIfEmpty hasTable p anc ?ht2)), snd (eraseIfEmpty hasTable p anc ?ht2))"
        using e anc p by (simp add: eraseIfEmpty.simps [of hasTable n] Let_def split: prod.splits)
      then obtain k3 where r: "eraseIfEmpty hasTable p anc ?ht2 = (k3, ht')" "k = Suc k3"
        using "1.prems"(3) by (metis fst_conv snd_conv surjective_pairing)
      have "nt_ok H ht' \<and> table_of t0 ht' = table_of t0 ?ht2 \<and> ht_names ht' \<subseteq> ht_names ?ht2 \<and>
          (\<forall>m \<in> ht_names ?ht2 - ht_names ht'. prefix m p \<and> table_of t0 ?ht2 m = t0) \<and> k3 = card (ht_names ?ht2 - ht_names ht')"
        using "1.IH" [OF e(1) _ refl refl _ p two(1) "1.prems"(2) r(1)] e(2) anc by blast
      note IH = this [unfolded two(2,3)]
      have diff: "ht_names ht - ht_names ht' = insert n (ht_names ht - {n} - ht_names ht')" using IH n(1) by blast
      have "finite (ht_names ht - {n} - ht_names ht')" by (simp add: ht_names_def)
      then have "card (ht_names ht - ht_names ht') = k" unfolding diff r(2) using IH by simp
      moreover have "prefix m n \<and> table_of t0 ht m = t0" if "m \<in> ht_names ht - ht_names ht'" for m
      proof (cases "m = n")
        case True
        then show ?thesis using n(2) by simp
      next
        case False
        then have "prefix m p \<and> table_of t0 ht m = t0" using that IH by blast
        then show ?thesis using up prefix_order.trans by blast
      qed
      moreover have "ht_names ht' \<subseteq> ht_names ht" using IH by blast
      ultimately show ?thesis using IH by simp
    qed
  qed
qed

section \<open>Searches\<close>

text \<open>The longest match is the first of the prefixes, from the longest on, that the selector accepts.\<close>

lemma lpm_loop_find:
  assumes "nt_ok H ht" and "\<forall>k \<in> set ls. k \<le> length name"
  shows "lpm_loop sel (computeHashes H name) name ls ht = find (nt_selects sel ht) (map (\<lambda>k. take k name) ls)"
  using assms(2)
proof (induction ls)
  case (Cons k ls)
  have "find_node name k (computeHashes H name ! k) ht = (if take k name \<in> ht_names ht then Some (take k name) else None)"
    using find_node_ok [OF nt_ok_ht [OF assms(1)], of _ name k] Cons.prems by (simp add: computeHashes_nth)
  then show ?case using Cons by (auto simp: nt_selects_def in_ht_names)
qed simp

lemma findLongestPrefixMatch_find:
  assumes "nt_ok H ht"
  shows "nt_findLongestPrefixMatch H sel name ht = find (nt_selects sel ht) (rev (prefixes name))"
  unfolding nt_findLongestPrefixMatch_def
  by (subst lpm_loop_find [OF assms]) (simp_all add: takes_prefixes [symmetric] rev_map [symmetric] del: upt_Suc)

lemma rev_prefixes_step: "rev (prefixes n) = (if n = [] then [[]] else n # rev (prefixes (butlast n)))"
  by (cases n rule: rev_cases) auto

lemma parent_of_ok:
  assumes "nt_ok H ht" and "n \<in> ht_names ht"
  shows "nt_parent_of ht n = (if n = [] then None else Some (butlast n))" and "n \<noteq> [] \<Longrightarrow> butlast n \<in> ht_names ht"
proof -
  obtain e where e: "fmlookup (ht_nodes ht) n = Some e" using assms(2) by (auto simp: in_ht_names)
  note t = nt_ok_node [OF assms(1) e, unfolded tree_node_ok_def]
  show "nt_parent_of ht n = (if n = [] then None else Some (butlast n))"
    using t e by (simp add: nt_parent_of_def split: if_splits)
  show "n \<noteq> [] \<Longrightarrow> butlast n \<in> ht_names ht" using t by (auto simp: in_ht_names)
qed

lemma climb_find:
  assumes "nt_ok H ht"
  shows "n \<in> ht_names ht \<Longrightarrow> length n < k \<Longrightarrow> climb k sel n ht = find (nt_selects sel ht) (rev (prefixes n))"
proof (induction k arbitrary: n)
  case (Suc k)
  have "n \<noteq> [] \<Longrightarrow> climb k sel (butlast n) ht = find (nt_selects sel ht) (rev (prefixes (butlast n)))"
    using parent_of_ok(2) [OF assms Suc.prems(1)] Suc.prems(2) by (intro Suc.IH) (cases n; simp)+
  then show ?case using rev_prefixes_step [of n] parent_of_ok(1) [OF assms Suc.prems(1)] by auto
qed simp

lemma prefix_range_filter:
  assumes "nt_ok H ht"
  shows "n \<in> ht_names ht \<Longrightarrow> length n < k \<Longrightarrow> prefix_range k sel n ht = filter (nt_selects sel ht) (rev (prefixes n))"
proof (induction k arbitrary: n)
  case (Suc k)
  have "n \<noteq> [] \<Longrightarrow> prefix_range k sel (butlast n) ht = filter (nt_selects sel ht) (rev (prefixes (butlast n)))"
    using parent_of_ok(2) [OF assms Suc.prems(1)] Suc.prems(2) by (intro Suc.IH) (cases n; simp)+
  then show ?case using rev_prefixes_step [of n] parent_of_ok(1) [OF assms Suc.prems(1)] by (auto simp: Let_def)
qed simp

lemma nt_selects_name: "nt_selects sel ht n \<Longrightarrow> n \<in> ht_names ht"
  by (auto simp: nt_selects_def in_ht_names split: option.splits)

lemma findAllMatches_filter:
  assumes "nt_ok H ht"
  shows "nt_findAllMatches H sel name ht = filter (nt_selects sel ht) (rev (prefixes name))"
proof -
  have "(case find P (rev (prefixes name)) of None \<Rightarrow> [] | Some m \<Rightarrow> filter P (rev (prefixes m))) = filter P (rev (prefixes name))"
    for P :: "name \<Rightarrow> bool"
    by (induction name rule: rev_induct) auto
  note all = this [of "nt_selects sel ht"]
  show ?thesis
  proof (cases "find (nt_selects sel ht) (rev (prefixes name))")
    case (Some m)
    then have "m \<in> ht_names ht" by (blast dest: find_Some_D nt_selects_name)
    then show ?thesis
      using all Some prefix_range_filter [OF assms, of m "Suc (length m)" sel]
      unfolding nt_findAllMatches_def findLongestPrefixMatch_find [OF assms] by (simp del: prefix_range.simps)
  qed (use all in \<open>simp add: nt_findAllMatches_def findLongestPrefixMatch_find [OF assms]\<close>)
qed

text \<open>The enumeration visits the entries that the selector accepts, bucket by bucket.\<close>

lemma find_append: "find P (xs @ ys) = (case find P xs of None \<Rightarrow> find P ys | Some x \<Rightarrow> Some x)"
  by (induction xs) auto

lemma next_node_find:
  assumes "ht_ok H ht" and "concat (ht_buckets ht) = as @ n # rest"
  shows "next_node sel ht n = find (nt_selects sel ht) rest"
proof -
  let ?b = "bucket_of ht n" and ?bs = "ht_buckets ht"
  have p: "placed ?bs (ht_names ht) (bucket_of ht)" using assms(1) by (simp add: ht_ok_def)
  then have d: "distinct (as @ n # rest)" and "n \<in> ht_names ht" using assms(2) by (auto simp: placed_def)
  then have b: "?b < length ?bs" "n \<in> set (?bs ! ?b)" using placedD [OF p] by blast+
  then obtain us vs where uv: "?bs ! ?b = us @ n # vs" "n \<notin> set us" by (metis split_list_first)
  have "concat ?bs = (concat (take ?b ?bs) @ us) @ n # vs @ concat (drop (Suc ?b) ?bs)"
    using uv(1) id_take_nth_drop [OF b(1)] by (metis append.assoc append_Cons concat.simps(2) concat_append)
  then have rest: "rest = vs @ concat (drop (Suc ?b) ?bs)"
    using assms(2) d append_Cons_eq_iff by (metis (no_types, lifting) distinct.simps(2) distinct_append not_distinct_conv_prefix)
  have "dropWhile (\<lambda>m. m \<noteq> n) (?bs ! ?b) = n # vs" using uv by (subst uv(1), subst dropWhile_append2) auto
  then show ?thesis
    by (simp add: next_node_def bucket_of_def [symmetric] rest find_append Let_def split: option.splits)
qed

lemma first_find:
  assumes "ht_ok H ht"
  shows "full_advance sel ht None = find (nt_selects sel ht) (concat (ht_buckets ht))"
proof (cases "find (\<lambda>b. b \<noteq> []) (ht_buckets ht)")
  case None
  then have "concat (ht_buckets ht) = []" by (auto simp: find_None_iff)
  then have "find (nt_selects sel ht) (concat (ht_buckets ht)) = None" by (simp only: find.simps)
  with None show ?thesis by (simp add: full_advance_def)
next
  case (Some b)
  have "find (\<lambda>b. b \<noteq> []) bs = Some b \<Longrightarrow> \<exists>rest. concat bs = hd b # rest" for bs :: "name list list"
  proof (induction bs)
    case (Cons a bs)
    then show ?case by (cases a) auto
  qed simp
  from this [OF Some] obtain rest where "concat (ht_buckets ht) = [] @ hd b # rest" by auto
  then show ?thesis using Some next_node_find [OF assms, of "[]" "hd b" rest] by (simp add: full_advance_def)
qed

lemma full_range_filter:
  assumes "ht_ok H ht"
  shows "length rest < k \<Longrightarrow> full_advance sel ht i = find (nt_selects sel ht) rest \<Longrightarrow> concat (ht_buckets ht) = as @ rest \<Longrightarrow>
    full_range k sel ht i = filter (nt_selects sel ht) rest"
proof (induction k arbitrary: i as rest)
  case (Suc k)
  show ?case
  proof (cases "find (nt_selects sel ht) rest")
    case None
    then have "filter (nt_selects sel ht) rest = []" by (auto simp: find_None_iff filter_empty_conv)
    then show ?thesis using Suc.prems(2) None by simp
  next
    case (Some m)
    then obtain us rest' where r: "rest = us @ m # rest'" "\<forall>u \<in> set us. \<not> nt_selects sel ht u" "nt_selects sel ht m"
      by (auto simp: find_Some_iff) (metis id_take_nth_drop in_set_takeD in_set_conv_nth length_take min.absorb4 nth_take)
    have "full_range k sel ht (Some m) = filter (nt_selects sel ht) rest'"
      using Suc.prems(1,3) r(1) next_node_find [OF assms, of "as @ us" m rest' sel]
      by (intro Suc.IH [where as = "as @ us @ [m]"]) (simp_all add: full_advance_def)
    then show ?thesis using Suc.prems(2) Some r by (simp add: filter_False)
  qed
qed simp

lemma fullEnumerate_filter:
  assumes "ht_ok H ht"
  shows "nt_fullEnumerate sel ht = filter (nt_selects sel ht) (concat (ht_buckets ht))"
proof -
  have "distinct (concat (ht_buckets ht))" "set (concat (ht_buckets ht)) = ht_names ht" "ht_size ht = card (ht_names ht)"
    using assms by (simp_all add: ht_ok_def placed_def)
  then have "length (concat (ht_buckets ht)) < Suc (ht_size ht)" by (metis distinct_card lessI)
  then show ?thesis
    unfolding nt_fullEnumerate_def using first_find [OF assms]
    by (intro full_range_filter [OF assms, where as = "[]"]) simp_all
qed

lemma nt_findExactMatch_ok: "nt_ok H ht \<Longrightarrow> nt_findExactMatch H n ht = (if n \<in> ht_names ht then Some n else None)"
  by (simp add: nt_findExactMatch_def ht_find_def find_node_ok [OF nt_ok_ht refl])

lemma nt_ok_set_table:
  assumes "nt_ok H ht"
  shows "nt_ok H (upd_entry n (\<lambda>e. e\<lparr>nt_table := f (nt_table e)\<rparr>) ht)" (is "nt_ok H ?ht")
proof -
  have "\<exists>e0. fmlookup (ht_nodes ht) m = Some e0 \<and> nt_children e = nt_children e0 \<and> nt_parent e = nt_parent e0"
    if "fmlookup (ht_nodes ?ht) m = Some e" for m e
    using that by (auto simp: lookup_upd_entry split: if_splits)
  note down = this
  have up: "\<exists>e. fmlookup (ht_nodes ?ht) m = Some e \<and> nt_children e = nt_children e0"
    if "fmlookup (ht_nodes ht) m = Some e0" for m e0
    using that by (auto simp: lookup_upd_entry)
  have "tree_node_ok ?ht m e" if e: "fmlookup (ht_nodes ?ht) m = Some e" for m e
  proof -
    obtain e0 where "fmlookup (ht_nodes ht) m = Some e0" "nt_children e = nt_children e0" "nt_parent e = nt_parent e0"
      using down [OF e] by blast
    then show ?thesis
      using nt_ok_node [OF assms, of m e0] up [of "butlast m"] by (fastforce simp: tree_node_ok_def)
  qed
  then show ?thesis using assms by (simp add: nt_ok_def upd_entry_ok)
qed

section \<open>The tree is a map from names\<close>

text \<open>The runs of a name tree, each with the map that it stands for: an entry is looked up, a table is attached to it or
  detached from it, an entry without tables and children is erased, with or without its ancestors.\<close>

inductive nt_run :: "(byte list \<Rightarrow> hash_value) \<Rightarrow> hashtable_options \<Rightarrow> 'a \<Rightarrow> (name \<Rightarrow> 'a) \<Rightarrow> 'a hashtable \<Rightarrow> bool" for H options t0 where
  nt_start: "nt_run H options t0 (\<lambda>_. t0) (hashtable_new options)"
| nt_look: "nt_run H options t0 f ht \<Longrightarrow> nt_run H options t0 f (nt_lookup H t0 n ht)"
| nt_set: "nt_run H options t0 f ht \<Longrightarrow> nt_run H options t0 (f(n := t)) (upd_entry n (\<lambda>e. e\<lparr>nt_table := t\<rparr>) (nt_lookup H t0 n ht))"
| nt_drop: "nt_run H options t0 f ht \<Longrightarrow> nt_run H options t0 f (snd (eraseIfEmpty (\<lambda>t. t \<noteq> t0) n anc ht))"

lemma nt_run_ok: "nt_run H options t0 f ht \<Longrightarrow> options_ok options \<Longrightarrow> nt_ok H ht \<and> table_of t0 ht = f"
proof (induction rule: nt_run.induct)
  case nt_start
  then show ?case by (simp add: nt_ok_new) (simp add: table_of_def hashtable_new_def fun_eq_iff)
next
  case (nt_look f ht n)
  then show ?case by (simp add: nt_lookup_ok)
next
  case (nt_set f ht n t)
  have ok: "nt_ok H (nt_lookup H t0 n ht)" "table_of t0 (nt_lookup H t0 n ht) = f" "n \<in> ht_names (nt_lookup H t0 n ht)"
    using nt_set nt_lookup_ok [of H ht t0 n] by auto
  have "table_of t0 (upd_entry n (\<lambda>e. e\<lparr>nt_table := t\<rparr>) (nt_lookup H t0 n ht)) = f(n := t)"
    using ok(2,3) by (auto simp: fun_eq_iff table_of_def lookup_upd_entry in_ht_names)
  then show ?case using nt_ok_set_table [OF ok(1), of n "\<lambda>_. t"] by simp
next
  case (nt_drop f ht n anc)
  then show ?case using eraseIfEmpty_ok [of H ht "\<lambda>t. t \<noteq> t0" t0 n anc, OF _ _ surjective_pairing] by simp
qed

text \<open>C22. The name tree implements a map from names.  After any sequence of lookups, attachments, detachments and erasures,
  whatever the hash function and the sizes at which the hash table is resized, the longest prefix match finds the
  longest prefix whose attached tables the selector accepts, from the name or from an entry; all matches are those
  prefixes from the longest on; and the enumeration visits every such entry of the tree once.\<close>

theorem name_tree_is_map:
  assumes "nt_run H options t0 f ht" and "options_ok options" and "\<not> sel t0"
  shows "nt_findLongestPrefixMatch H sel n ht = find (\<lambda>m. sel (f m)) (rev (prefixes n)) \<and>
    (nt_findExactMatch H n ht = Some n \<longrightarrow> nt_findLongestPrefixMatch_at sel n ht = nt_findLongestPrefixMatch H sel n ht) \<and>
    nt_findAllMatches H sel n ht = filter (\<lambda>m. sel (f m)) (rev (prefixes n)) \<and>
    distinct (nt_fullEnumerate sel ht) \<and> set (nt_fullEnumerate sel ht) = {m. sel (f m)}"
proof -
  have ok: "nt_ok H ht" "table_of t0 ht = f" using nt_run_ok [OF assms(1,2)] by simp_all
  have sel: "nt_selects sel ht = (\<lambda>m. sel (f m))"
    using assms(3) by (auto simp: fun_eq_iff nt_selects_def ok(2) [symmetric] table_of_def split: option.split)
  have lpm: "nt_findLongestPrefixMatch H sel n ht = find (\<lambda>m. sel (f m)) (rev (prefixes n))"
    using findLongestPrefixMatch_find [OF ok(1), of sel n] by (simp add: sel)
  moreover have "nt_findLongestPrefixMatch_at sel n ht = find (\<lambda>m. sel (f m)) (rev (prefixes n))" if "nt_findExactMatch H n ht = Some n"
  proof -
    have "n \<in> ht_names ht" using that nt_findExactMatch_ok [OF ok(1), of n] by (simp split: if_splits)
    from climb_find [OF ok(1) this, of "Suc (length n)" sel] show ?thesis unfolding nt_findLongestPrefixMatch_at_def sel by simp
  qed
  moreover have "nt_findAllMatches H sel n ht = filter (\<lambda>m. sel (f m)) (rev (prefixes n))"
    using findAllMatches_filter [OF ok(1), of sel n] by (simp add: sel)
  moreover have p: "distinct (concat (ht_buckets ht))" "set (concat (ht_buckets ht)) = ht_names ht"
    using ok(1) by (auto simp: nt_ok_def ht_ok_def placed_def)
  then have "distinct (nt_fullEnumerate sel ht)" "set (nt_fullEnumerate sel ht) = {m. sel (f m)}"
    using fullEnumerate_filter [OF nt_ok_ht [OF ok(1)], of sel] nt_selects_name [of sel ht] by (auto simp: sel [symmetric])
  ultimately show ?thesis by simp
qed

theorem name_tree_is_map_witness:
  "\<exists>ht. nt_findLongestPrefixMatch (\<lambda>_. 0) (\<lambda>t. t = (5 :: nat)) (map component_of_string [''a'', ''b'', ''c'']) ht = Some (map component_of_string [''a'', ''b'']) \<and>
     set (nt_fullEnumerate (\<lambda>t. t = 5) ht) = {map component_of_string [''a'', ''b'']}"
proof -
  let ?opt = "\<lparr>initialSize = 2, minSize = 2, expandLoad = (\<lambda>n. n), expandSize = (\<lambda>n. 2 * n), shrinkLoad = (\<lambda>n. n div 8), shrinkSize = (\<lambda>n. n div 2)\<rparr>"
  let ?ab = "map component_of_string [''a'', ''b'']" and ?H = "\<lambda>_. 0 :: hash_value"
  obtain ht where run: "nt_run ?H ?opt (0 :: nat) ((\<lambda>_. 0)(?ab := 5)) ht" using nt_set [OF nt_start [of ?H ?opt "0 :: nat"], of ?ab 5] by metis
  have "options_ok ?opt" by (simp add: options_ok_def)
  from name_tree_is_map [OF run this, of "\<lambda>t. t = 5" "map component_of_string [''a'', ''b'', ''c'']"]
  have "nt_findLongestPrefixMatch ?H (\<lambda>t. t = 5) (map component_of_string [''a'', ''b'', ''c'']) ht = Some ?ab"
    "set (nt_fullEnumerate (\<lambda>t. t = 5) ht) = {?ab}" by simp_all
  then show ?thesis by (intro exI conjI)
qed

end
