(* ===== verification/Dead_Nonce_List.thy ===== *)
theory Dead_Nonce_List
  imports Names
begin

text \<open>
  The list of the nonces of Interests that are no longer pending (\<^verbatim>\<open>src/src/ndnSIM/NFD/daemon/table/dead-nonce-list.cpp\<close>).  It
  is a queue of hash values with marks at fixed intervals, whose number tells how long values stay; the capacity
  follows it.  The products of the capacity with a floating-point factor are parameters.  Shown: a nonce that was
  added is found as long as at most as many values have been evicted as were before it, and only the oldest values
  are evicted.
\<close>

record dead_nonce_list =
  dn_queue :: "u64 list"
  dn_capacity :: nat
  dn_markCounts :: "nat list"

record dnl_env =
  de_hash :: "byte list \<Rightarrow> u64 \<Rightarrow> u64"
  de_capacityUp :: "nat \<Rightarrow> nat"
  de_capacityDown :: "nat \<Rightarrow> nat"

abbreviation DNL_LIFETIME :: sim_time where "DNL_LIFETIME \<equiv> 6000000000"
abbreviation MARK :: u64 where "MARK \<equiv> 0"
abbreviation EXPECTED_MARK_COUNT :: nat where "EXPECTED_MARK_COUNT \<equiv> 5"
abbreviation MIN_CAPACITY :: nat where "MIN_CAPACITY \<equiv> 8"
abbreviation MAX_CAPACITY :: nat where "MAX_CAPACITY \<equiv> 16777216"
abbreviation EVICT_LIMIT :: nat where "EVICT_LIMIT \<equiv> 64"

text \<open>The constructor; the two periodic events are scheduled by the owner.\<close>

definition dnl_new :: dead_nonce_list where
  "dnl_new = \<lparr>dn_queue = replicate EXPECTED_MARK_COUNT MARK, dn_capacity = 128, dn_markCounts = []\<rparr>"

definition dnl_entry :: "dnl_env \<Rightarrow> name \<Rightarrow> u32 \<Rightarrow> u64" where
  "dnl_entry env n nonce =
     (let v = concat (map component_wire n)
      in de_hash env (writeVarNumber 7 @ writeVarNumber (length v) @ v) (ucast nonce))"

definition dnl_has :: "dnl_env \<Rightarrow> name \<Rightarrow> u32 \<Rightarrow> dead_nonce_list \<Rightarrow> bool" where
  "dnl_has env n nonce d \<longleftrightarrow> dnl_entry env n nonce \<in> set (dn_queue d)"

definition countMarks :: "dead_nonce_list \<Rightarrow> nat" where
  "countMarks d = length (filter (\<lambda>e. e = MARK) (dn_queue d))"

definition dnl_size :: "dead_nonce_list \<Rightarrow> nat" where
  "dnl_size d = length (dn_queue d) - countMarks d"

definition evictEntries :: "dead_nonce_list \<Rightarrow> dead_nonce_list" where
  "evictEntries d = d\<lparr>dn_queue := drop (min (length (dn_queue d) - dn_capacity d) EVICT_LIMIT) (dn_queue d)\<rparr>"

definition dnl_add :: "dnl_env \<Rightarrow> name \<Rightarrow> u32 \<Rightarrow> dead_nonce_list \<Rightarrow> dead_nonce_list" where
  "dnl_add env n nonce d = evictEntries (d\<lparr>dn_queue := dn_queue d @ [dnl_entry env n nonce]\<rparr>)"

definition dnl_mark :: "dead_nonce_list \<Rightarrow> dead_nonce_list" where
  "dnl_mark d =
     (let d = d\<lparr>dn_queue := dn_queue d @ [MARK]\<rparr> in d\<lparr>dn_markCounts := countMarks d # dn_markCounts d\<rparr>)"

text \<open>\<^verbatim>\<open>equal_range\<close> starts behind all counts, or before all of them.\<close>

definition adjustCapacity :: "dnl_env \<Rightarrow> dead_nonce_list \<Rightarrow> dead_nonce_list" where
  "adjustCapacity env d =
     (let d = (if list_all (\<lambda>c. c > EXPECTED_MARK_COUNT) (dn_markCounts d)
               then d\<lparr>dn_capacity := max MIN_CAPACITY (de_capacityDown env (dn_capacity d))\<rparr>
               else if list_all (\<lambda>c. c < EXPECTED_MARK_COUNT) (dn_markCounts d)
               then d\<lparr>dn_capacity := min MAX_CAPACITY (de_capacityUp env (dn_capacity d))\<rparr>
               else d)
      in evictEntries (d\<lparr>dn_markCounts := []\<rparr>))"

section \<open>Properties\<close>

inductive dnl_step :: "dnl_env \<Rightarrow> dead_nonce_list \<Rightarrow> dead_nonce_list \<Rightarrow> bool" for env where
  "dnl_step env d (dnl_add env n nonce d)"
| "dnl_step env d (dnl_mark d)"
| "dnl_step env d (adjustCapacity env d)"

definition evicted :: "nat \<Rightarrow> dead_nonce_list \<Rightarrow> dead_nonce_list \<Rightarrow> bool" where
  "evicted k d d' \<longleftrightarrow> k \<le> EVICT_LIMIT \<and> (\<exists>new. dn_queue d' = drop k (dn_queue d @ new))"

text \<open>Every operation appends, and evicts at most 64 of the oldest values.\<close>

lemma dnl_step_evicts: "dnl_step env d d' \<Longrightarrow> \<exists>k. evicted k d d'"
proof (induction rule: dnl_step.induct)
  case (2 d)
  then show ?case by (intro exI [of _ 0]) (simp add: evicted_def dnl_mark_def Let_def)
next
  case (3 d)
  have "\<exists>k \<le> EVICT_LIMIT. dn_queue (adjustCapacity env d) = drop k (dn_queue d)"
    by (auto simp: adjustCapacity_def evictEntries_def Let_def intro!: exI [of _ "min _ EVICT_LIMIT"])
  then show ?case by (metis append.right_neutral evicted_def)
qed (auto simp: evicted_def dnl_add_def evictEntries_def intro!: exI [of _ "min _ EVICT_LIMIT"])

lemma dnl_has_kept:
  assumes "dn_queue d = pre @ dnl_entry env n nonce # post" and "evicted k d d'" and "k \<le> length pre"
  shows "dnl_has env n nonce d'"
  using assms by (auto simp: evicted_def dnl_has_def)

lemma dnl_has_added: "0 < dn_capacity d \<Longrightarrow> dnl_has env n nonce (dnl_add env n nonce d)"
  by (auto simp: dnl_has_def dnl_add_def evictEntries_def min_def)

end
