(* ===== verification/Nfd_Tables.thy ===== *)
theory Nfd_Tables
  imports Name_Tree Dead_Nonce_List Selector_Fields Event_Loop
begin

text \<open>
  The tables of the KITE baseline (\<^verbatim>\<open>src/src/ndnSIM/NFD/daemon/table\<close>): FIB, trace information base and pending Interest table,
  all attached to the name tree.  The state of a forwarder is one record.  Entries of the PIT are held by shared
  pointers, entries of the TIB by the raw pointers of their timers; both are addresses in a store, from which an
  entry of the TIB is removed when it is destroyed.  The content store is a parameter of the model.
\<close>

section \<open>Packets\<close>

text \<open>\<open>ni_object\<close> identifies the Interest object that several records may share; \<open>ni_selectorsWire\<close> is the encoding of the
  selectors, by which they are compared; a link object is a list of delegations, or does not decode.\<close>

record nfd_interest =
  ni_object :: nat
  ni_name :: name
  ni_nonce :: u32
  ni_lifetime :: int
  ni_selectors :: selectors
  ni_selectorsWire :: "byte list"
  ni_link :: "(exn + (u32 \<times> name) list) option"
  ni_selectedDelegation :: "name option"
  ni_nextHopFace :: "nat option"

text \<open>\<open>nd_digest\<close> is the implicit digest of the packet; a negative freshness period is none.\<close>

record nfd_data =
  nd_name :: name
  nd_digest :: component
  nd_freshness :: int
  nd_keyLocator :: "key_locator option"

datatype nack_reason = CONGESTION | DUPLICATE | NO_ROUTE

definition isImplicitSha256Digest :: "component \<Rightarrow> bool" where
  "isImplicitSha256Digest c \<longleftrightarrow> c_type c = ImplicitSha256DigestComponent \<and> length (c_value c) = 32"

definition matchesData :: "nfd_interest \<Rightarrow> nfd_data \<Rightarrow> bool" where
  "matchesData i d =
     (let interestNameLength = length (ni_name i);
          fullNameLength = length (nd_name d) + 1;
          fullName = nd_name d @ [nd_digest d];
          s = ni_selectors i
      in if \<not> interestNameLength + (if se_minSuffixComponents s \<ge> 0 then nat (se_minSuffixComponents s) else 0) \<le> fullNameLength
         then False
         else if se_maxSuffixComponents s \<ge> 0 \<and>
                 \<not> interestNameLength + nat (se_maxSuffixComponents s) \<ge> fullNameLength
         then False
         else if (if interestNameLength = fullNameLength
                  then \<not> isImplicitSha256Digest (last (ni_name i)) \<or> ni_name i \<noteq> fullName
                  else \<not> isPrefixOf (ni_name i) (nd_name d))
         then False
         else if se_exclude s \<noteq> [] \<and> fullNameLength > interestNameLength \<and>
                 isExcluded (if interestNameLength = fullNameLength - 1 then last fullName
                             else nd_name d ! interestNameLength) (se_exclude s)
         then False
         else if se_publisherPublicKeyLocator s \<noteq> KeyLocator_None
         then nd_keyLocator d = Some (se_publisherPublicKeyLocator s)
         else True)"

section \<open>Entries\<close>

record fib_hop =
  fh_face :: nat
  fh_cost :: u64

record nfd_fib_entry =
  fe_prefix :: name
  fe_hops :: "fib_hop list"

record tib_hop =
  th_face :: nat
  th_cost :: u64
  th_timer :: "event_id option"

record tib_entry =
  tb_prefix :: name
  tb_hops :: "tib_hop list"
  tb_seq :: u64
  tb_nte :: name

record in_record =
  inr_face :: nat
  inr_lastNonce :: u32
  inr_lastRenewed :: sim_time
  inr_expiry :: sim_time
  inr_interest :: nfd_interest

record out_record =
  our_face :: nat
  our_lastNonce :: u32
  our_lastRenewed :: sim_time
  our_expiry :: sim_time
  our_incomingNack :: "nack_reason option"

text \<open>\<open>np_nte\<close> is the name tree entry that the PIT entry is attached to.\<close>

record nfd_pit_entry =
  np_interest :: nfd_interest
  np_in :: "in_record list"
  np_out :: "out_record list"
  np_unsatisfyTimer :: "event_id option"
  np_stragglerTimer :: "event_id option"
  np_nte :: "name option"

text \<open>What is attached to a name tree entry.  No strategy that is modelled makes measurements.\<close>

record table_entries =
  te_fib :: "nfd_fib_entry option"
  te_tib :: "nat option"
  te_pits :: "nat list"
  te_strategyChoice :: "name option"

definition te_none :: table_entries where
  "te_none = \<lparr>te_fib = None, te_tib = None, te_pits = [], te_strategyChoice = None\<rparr>"

definition hasTableEntries :: "table_entries \<Rightarrow> bool" where
  "hasTableEntries t \<longleftrightarrow> te_fib t \<noteq> None \<or> te_tib t \<noteq> None \<or> te_pits t \<noteq> [] \<or> te_strategyChoice t \<noteq> None"

section \<open>The forwarder\<close>

datatype kite_act =
    Unsatisfied nat
  | Finalize nat bool int
  | TibTimeout nat nat
  | SendPulled nat nfd_interest
  | DnlMark
  | DnlAdjust

datatype kite_output =
    OutInterest nat nfd_interest
  | OutData nat nfd_data
  | OutNack nat nfd_interest nack_reason

record forwarder_counters =
  nInInterests :: u64
  nOutInterests :: u64
  nInData :: u64
  nOutData :: u64
  nInNacks :: u64
  nOutNacks :: u64

text \<open>\<open>kf_faces\<close> are the faces of the face table; \<open>kf_out\<close> is what has been sent, newest last.\<close>

record 'c kite =
  kf_tree :: "table_entries hashtable"
  kf_tibs :: "(nat, tib_entry) fmap"
  kf_pits :: "(nat, nfd_pit_entry) fmap"
  kf_next :: nat
  kf_nTib :: u64
  kf_nPit :: u64
  kf_dnl :: dead_nonce_list
  kf_cs :: 'c
  kf_faces :: "nat list"
  kf_regions :: "name list"
  kf_sim :: "kite_act sim"
  kf_out :: "kite_output list"
  kf_counters :: forwarder_counters
  kf_doPull :: bool
  kf_allowTempPath :: bool
  kf_maxPullCnt :: int
  kf_prolongTrace :: bool
  kf_gone :: bool
  kf_removeTraceOnNack :: bool

text \<open>What the node provides: the hash functions, the properties of the faces, the order in which sets of face pointers
  are iterated, the content store, and whether unsolicited Data from a face is cached.\<close>

record 'c kite_env =
  ke_hash :: "byte list \<Rightarrow> hash_value"
  ke_dnl :: dnl_env
  ke_local :: "nat \<Rightarrow> bool"
  ke_multiAccess :: "nat \<Rightarrow> bool"
  ke_broadcast :: "nat \<Rightarrow> bool"
  ke_order :: "nat list \<Rightarrow> nat list"
  ke_sort :: "fib_hop list \<Rightarrow> fib_hop list"
  ke_csFind :: "nfd_interest \<Rightarrow> 'c \<Rightarrow> nfd_data option \<times> 'c"
  ke_csAdd :: "nfd_data \<Rightarrow> 'c \<Rightarrow> 'c"
  ke_unsolicited :: "nat \<Rightarrow> bool"

definition kite_now :: "'c kite \<Rightarrow> sim_time" where
  "kite_now k = Now (kf_sim k)"

definition kite_schedule :: "sim_time \<Rightarrow> kite_act \<Rightarrow> 'c kite \<Rightarrow> event_id \<times> 'c kite" where
  "kite_schedule d a k = (let (i, s) = Schedule d a (kf_sim k) in (i, k\<lparr>kf_sim := s\<rparr>))"

text \<open>\<^verbatim>\<open>scheduler::cancel\<close>; the variable that held the id becomes null, which the callers write.\<close>

definition kite_cancel :: "event_id option \<Rightarrow> 'c kite \<Rightarrow> 'c kite" where
  "kite_cancel i k = k\<lparr>kf_sim := Remove i (kf_sim k)\<rparr>"

definition table_at :: "'c kite \<Rightarrow> name \<Rightarrow> table_entries" where
  "table_at k n = table_of te_none (kf_tree k) n"

definition on_table :: "name \<Rightarrow> (table_entries \<Rightarrow> table_entries) \<Rightarrow> 'c kite \<Rightarrow> 'c kite" where
  "on_table n f k = k\<lparr>kf_tree := upd_entry n (\<lambda>e. e\<lparr>nt_table := f (nt_table e)\<rparr>) (kf_tree k)\<rparr>"

definition lookup_nte :: "'c kite_env \<Rightarrow> name \<Rightarrow> 'c kite \<Rightarrow> 'c kite" where
  "lookup_nte env n k = k\<lparr>kf_tree := nt_lookup (ke_hash env) te_none n (kf_tree k)\<rparr>"

definition erase_nte :: "name \<Rightarrow> bool \<Rightarrow> 'c kite \<Rightarrow> 'c kite" where
  "erase_nte n canEraseAncestors k = k\<lparr>kf_tree := snd (eraseIfEmpty hasTableEntries n canEraseAncestors (kf_tree k))\<rparr>"

section \<open>FIB\<close>

definition fib_addNextHop :: "(fib_hop list \<Rightarrow> fib_hop list) \<Rightarrow> nat \<Rightarrow> u64 \<Rightarrow> nfd_fib_entry \<Rightarrow> nfd_fib_entry" where
  "fib_addNextHop sort_hops face cost e =
     (let hops = (if find (\<lambda>h. fh_face h = face) (fe_hops e) = None
                  then fe_hops e @ [\<lparr>fh_face = face, fh_cost = cost\<rparr>]
                  else map (\<lambda>h. if fh_face h = face then h\<lparr>fh_cost := cost\<rparr> else h) (fe_hops e))
      in e\<lparr>fe_hops := sort_hops hops\<rparr>)"

definition fib_findLongestPrefixMatch :: "'c kite_env \<Rightarrow> name \<Rightarrow> 'c kite \<Rightarrow> nfd_fib_entry option" where
  "fib_findLongestPrefixMatch env n k =
     (case nt_findLongestPrefixMatch (ke_hash env) (\<lambda>t. te_fib t \<noteq> None) n (kf_tree k) of
        None \<Rightarrow> None
      | Some nte \<Rightarrow> te_fib (table_at k nte))"

definition fib_insert :: "'c kite_env \<Rightarrow> name \<Rightarrow> 'c kite \<Rightarrow> 'c kite" where
  "fib_insert env n k =
     (let k = lookup_nte env n k in
      if te_fib (table_at k n) \<noteq> None then k
      else on_table n (\<lambda>t. t\<lparr>te_fib := Some \<lparr>fe_prefix = n, fe_hops = []\<rparr>\<rparr>) k)"

text \<open>A route of the FIB manager: \<^verbatim>\<open>insert\<close> and \<^verbatim>\<open>addNextHop\<close>.\<close>

definition fib_addRoute :: "'c kite_env \<Rightarrow> name \<Rightarrow> nat \<Rightarrow> u64 \<Rightarrow> 'c kite \<Rightarrow> 'c kite" where
  "fib_addRoute env n face cost k =
     on_table n (\<lambda>t. t\<lparr>te_fib := map_option (fib_addNextHop (ke_sort env) face cost) (te_fib t)\<rparr>) (fib_insert env n k)"

definition fib_removeNextHop :: "name \<Rightarrow> nat \<Rightarrow> 'c kite \<Rightarrow> 'c kite" where
  "fib_removeNextHop n face k =
     (case te_fib (table_at k n) of
        None \<Rightarrow> k
      | Some e \<Rightarrow>
          let hops = (case find (\<lambda>h. fh_face h = face) (fe_hops e) of None \<Rightarrow> fe_hops e | Some h \<Rightarrow> remove1 h (fe_hops e))
          in on_table n (\<lambda>t. t\<lparr>te_fib := (if hops = [] then None else Some (e\<lparr>fe_hops := hops\<rparr>))\<rparr>) k)"

section \<open>TIB\<close>

definition tib_at :: "nat \<Rightarrow> 'c kite \<Rightarrow> exn + tib_entry" where
  "tib_at a k = (case fmlookup (kf_tibs k) a of None \<Rightarrow> Inl UseAfterFree | Some e \<Rightarrow> Inr e)"

definition set_tib :: "nat \<Rightarrow> tib_entry \<Rightarrow> 'c kite \<Rightarrow> 'c kite" where
  "set_tib a e k = k\<lparr>kf_tibs := fmupd a e (kf_tibs k)\<rparr>"

definition tib_findNextHop :: "nat \<Rightarrow> tib_entry \<Rightarrow> tib_hop option" where
  "tib_findNextHop face e = find (\<lambda>h. th_face h = face) (tb_hops e)"

definition tib_hasNextHop :: "nat \<Rightarrow> tib_entry \<Rightarrow> bool" where
  "tib_hasNextHop face e \<longleftrightarrow> tib_findNextHop face e \<noteq> None"

text \<open>The timer of the hop on a face.\<close>

definition set_hop_timer :: "nat \<Rightarrow> event_id option \<Rightarrow> tib_entry \<Rightarrow> tib_entry" where
  "set_hop_timer face i e =
     (case tib_findNextHop face e of
        None \<Rightarrow> e
      | Some h \<Rightarrow> e\<lparr>tb_hops := map (\<lambda>x. if th_face x = face then x\<lparr>th_timer := i\<rparr> else x) (tb_hops e)\<rparr>)"

definition cancelNextHopTimer :: "nat \<Rightarrow> nat \<Rightarrow> 'c kite \<Rightarrow> exn + 'c kite" where
  "cancelNextHopTimer a face k =
     bind_exn (tib_at a k) (\<lambda>e.
       case tib_findNextHop face e of
         None \<Rightarrow> Inr k
       | Some h \<Rightarrow> Inr (set_tib a (set_hop_timer face None e) (kite_cancel (th_timer h) k)))"

fun cancel_hops :: "tib_hop list \<Rightarrow> 'c kite \<Rightarrow> 'c kite" where
  "cancel_hops [] k = k"
| "cancel_hops (h # hs) k = cancel_hops hs (kite_cancel (th_timer h) k)"

text \<open>\<^verbatim>\<open>Entry::addNextHop\<close> keeps one next hop.\<close>

definition tib_addNextHop :: "nat \<Rightarrow> nat \<Rightarrow> u64 \<Rightarrow> 'c kite \<Rightarrow> exn + 'c kite" where
  "tib_addNextHop a face cost k =
     bind_exn (tib_at a k) (\<lambda>e.
       let k = cancel_hops (tb_hops e) k
       in Inr (set_tib a (e\<lparr>tb_hops := [\<lparr>th_face = face, th_cost = cost, th_timer = None\<rparr>]\<rparr>) k))"

text \<open>\<^verbatim>\<open>Entry::setNextHopTimer\<close>; the event was scheduled before the call.\<close>

definition setNextHopTimer :: "nat \<Rightarrow> nat \<Rightarrow> event_id \<Rightarrow> 'c kite \<Rightarrow> exn + 'c kite" where
  "setNextHopTimer a face event k =
     bind_exn (tib_at a k) (\<lambda>e.
       case tib_findNextHop face e of
         None \<Rightarrow> Inr k
       | Some h \<Rightarrow> Inr (set_tib a (set_hop_timer face (Some event) e) (kite_cancel (th_timer h) k)))"

definition judgeAndUpdateSeq :: "u64 \<Rightarrow> tib_entry \<Rightarrow> bool \<times> tib_entry" where
  "judgeAndUpdateSeq seq e = (if seq > tb_seq e then (True, e\<lparr>tb_seq := seq\<rparr>) else (False, e))"

text \<open>\<^verbatim>\<open>Entry::removeNextHop\<close>, then \<^verbatim>\<open>Tib::removeNextHop\<close>, which destroys an entry without next hops.\<close>

definition tib_entry_removeNextHop :: "nat \<Rightarrow> nat \<Rightarrow> 'c kite \<Rightarrow> exn + 'c kite" where
  "tib_entry_removeNextHop a face k =
     bind_exn (cancelNextHopTimer a face k) (\<lambda>k. bind_exn (tib_at a k) (\<lambda>e.
       let hops = (case tib_findNextHop face e of None \<Rightarrow> tb_hops e | Some h \<Rightarrow> remove1 h (tb_hops e));
           e = e\<lparr>tb_hops := hops\<rparr>
       in Inr (set_tib a (if hops = [] then e\<lparr>tb_seq := 0\<rparr> else e) k)))"

definition tib_erase :: "name \<Rightarrow> bool \<Rightarrow> 'c kite \<Rightarrow> 'c kite" where
  "tib_erase nte canDeleteNte k =
     (let k = (case te_tib (table_at k nte) of None \<Rightarrow> k | Some a \<Rightarrow> k\<lparr>kf_tibs := fmdrop a (kf_tibs k)\<rparr>);
          k = on_table nte (\<lambda>t. t\<lparr>te_tib := None\<rparr>) k;
          k = (if canDeleteNte then erase_nte nte True k else k)
      in k\<lparr>kf_nTib := kf_nTib k - 1\<rparr>)"

definition tib_removeNextHop :: "nat \<Rightarrow> nat \<Rightarrow> 'c kite \<Rightarrow> exn + 'c kite" where
  "tib_removeNextHop a face k =
     bind_exn (tib_entry_removeNextHop a face k) (\<lambda>k. bind_exn (tib_at a k) (\<lambda>e.
       Inr (if tb_hops e = [] then tib_erase (tb_nte e) False k else k)))"

definition tib_insert :: "'c kite_env \<Rightarrow> name \<Rightarrow> 'c kite \<Rightarrow> nat \<times> 'c kite" where
  "tib_insert env n k =
     (let k = lookup_nte env n k in
      case te_tib (table_at k n) of
        Some a \<Rightarrow> (a, k)
      | None \<Rightarrow>
          let a = kf_next k;
              k = set_tib a \<lparr>tb_prefix = n, tb_hops = [], tb_seq = 0, tb_nte = n\<rparr> k;
              k = on_table n (\<lambda>t. t\<lparr>te_tib := Some a\<rparr>) k
          in (a, k\<lparr>kf_next := a + 1, kf_nTib := incr (kf_nTib k)\<rparr>))"

definition tib_findExactMatch :: "'c kite_env \<Rightarrow> name \<Rightarrow> 'c kite \<Rightarrow> nat option" where
  "tib_findExactMatch env n k =
     (case nt_findExactMatch (ke_hash env) n (kf_tree k) of None \<Rightarrow> None | Some nte \<Rightarrow> te_tib (table_at k nte))"

section \<open>PIT\<close>

definition pit_at :: "nat \<Rightarrow> 'c kite \<Rightarrow> exn + nfd_pit_entry" where
  "pit_at p k = (case fmlookup (kf_pits k) p of None \<Rightarrow> Inl UseAfterFree | Some e \<Rightarrow> Inr e)"

definition on_pit :: "nat \<Rightarrow> (nfd_pit_entry \<Rightarrow> nfd_pit_entry) \<Rightarrow> 'c kite \<Rightarrow> 'c kite" where
  "on_pit p f k = (case fmlookup (kf_pits k) p of None \<Rightarrow> k | Some e \<Rightarrow> k\<lparr>kf_pits := fmupd p (f e) (kf_pits k)\<rparr>)"

definition np_name :: "nfd_pit_entry \<Rightarrow> name" where
  "np_name e = ni_name (np_interest e)"

definition canMatch :: "nfd_interest \<Rightarrow> nat \<Rightarrow> nfd_pit_entry \<Rightarrow> bool" where
  "canMatch i nEqualNameComps e \<longleftrightarrow>
     drop nEqualNameComps (np_name e) = drop nEqualNameComps (ni_name i) \<and>
     ni_selectorsWire (np_interest e) = ni_selectorsWire i"

definition record_expiry :: "sim_time \<Rightarrow> nfd_interest \<Rightarrow> sim_time" where
  "record_expiry now i = now + (if ni_lifetime i < 0 then 4000 else ni_lifetime i) * 1000000"

definition getInRecord :: "nat \<Rightarrow> nfd_pit_entry \<Rightarrow> in_record option" where
  "getInRecord face e = find (\<lambda>r. inr_face r = face) (np_in e)"

definition getOutRecord :: "nat \<Rightarrow> nfd_pit_entry \<Rightarrow> out_record option" where
  "getOutRecord face e = find (\<lambda>r. our_face r = face) (np_out e)"

definition insertOrUpdateInRecord :: "sim_time \<Rightarrow> nat \<Rightarrow> nfd_interest \<Rightarrow> nfd_pit_entry \<Rightarrow> nfd_pit_entry" where
  "insertOrUpdateInRecord now face i e =
     (let r = \<lparr>inr_face = face, inr_lastNonce = ni_nonce i, inr_lastRenewed = now, inr_expiry = record_expiry now i,
               inr_interest = i\<rparr>
      in if getInRecord face e = None then e\<lparr>np_in := r # np_in e\<rparr>
         else e\<lparr>np_in := map (\<lambda>x. if inr_face x = face then r else x) (np_in e)\<rparr>)"

text \<open>An update keeps the Nack that the record holds.\<close>

definition insertOrUpdateOutRecord :: "sim_time \<Rightarrow> nat \<Rightarrow> nfd_interest \<Rightarrow> nfd_pit_entry \<Rightarrow> nfd_pit_entry" where
  "insertOrUpdateOutRecord now face i e =
     (let r = (\<lambda>nack. \<lparr>our_face = face, our_lastNonce = ni_nonce i, our_lastRenewed = now, our_expiry = record_expiry now i,
               our_incomingNack = nack\<rparr>)
      in if getOutRecord face e = None then e\<lparr>np_out := r None # np_out e\<rparr>
         else e\<lparr>np_out := map (\<lambda>x. if our_face x = face then r (our_incomingNack x) else x) (np_out e)\<rparr>)"

definition deleteInRecord :: "nat \<Rightarrow> nfd_pit_entry \<Rightarrow> nfd_pit_entry" where
  "deleteInRecord face e = (case getInRecord face e of None \<Rightarrow> e | Some r \<Rightarrow> e\<lparr>np_in := remove1 r (np_in e)\<rparr>)"

definition deleteOutRecord :: "nat \<Rightarrow> nfd_pit_entry \<Rightarrow> nfd_pit_entry" where
  "deleteOutRecord face e = (case getOutRecord face e of None \<Rightarrow> e | Some r \<Rightarrow> e\<lparr>np_out := remove1 r (np_out e)\<rparr>)"

text \<open>A name that ends with an implicit digest is attached one level higher.\<close>

definition nte_name :: "name \<Rightarrow> name" where
  "nte_name n = (if n \<noteq> [] \<and> isImplicitSha256Digest (last n) then butlast n else n)"

definition pit_search :: "nfd_interest \<Rightarrow> 'c kite \<Rightarrow> nat option" where
  "pit_search i k =
     (let nteName = nte_name (ni_name i)
      in find (\<lambda>p. case fmlookup (kf_pits k) p of None \<Rightarrow> False | Some e \<Rightarrow> canMatch i (length nteName) e)
           (te_pits (table_at k nteName)))"

text \<open>\<^verbatim>\<open>findOrInsert\<close>, first without, then with insertion.\<close>

definition nfd_pit_find :: "'c kite_env \<Rightarrow> nfd_interest \<Rightarrow> 'c kite \<Rightarrow> nat option" where
  "nfd_pit_find env i k =
     (case nt_findExactMatch (ke_hash env) (nte_name (ni_name i)) (kf_tree k) of
        None \<Rightarrow> None
      | Some nte \<Rightarrow> pit_search i k)"

definition nfd_pit_insert :: "'c kite_env \<Rightarrow> nfd_interest \<Rightarrow> 'c kite \<Rightarrow> (nat \<times> bool) \<times> 'c kite" where
  "nfd_pit_insert env i k =
     (let n = nte_name (ni_name i); k = lookup_nte env n k in
      case pit_search i k of
        Some p \<Rightarrow> ((p, False), k)
      | None \<Rightarrow>
          let p = kf_next k;
              e = \<lparr>np_interest = i, np_in = [], np_out = [], np_unsatisfyTimer = None, np_stragglerTimer = None,
                   np_nte = Some n\<rparr>;
              k = k\<lparr>kf_pits := fmupd p e (kf_pits k), kf_next := p + 1, kf_nPit := incr (kf_nPit k)\<rparr>
          in ((p, True), on_table n (\<lambda>t. t\<lparr>te_pits := te_pits t @ [p]\<rparr>) k))"

text \<open>\<^verbatim>\<open>erasePitEntry\<close> puts the last element in the place of the one that leaves.\<close>

definition swap_remove :: "'x \<Rightarrow> 'x list \<Rightarrow> 'x list" where
  "swap_remove x xs = butlast (takeWhile (\<lambda>y. y \<noteq> x) xs @ last xs # tl (dropWhile (\<lambda>y. y \<noteq> x) xs))"

definition nfd_pit_erase :: "nat \<Rightarrow> 'c kite \<Rightarrow> exn + 'c kite" where
  "nfd_pit_erase p k =
     bind_exn (pit_at p k) (\<lambda>e.
       case np_nte e of
         None \<Rightarrow> Inl UseAfterFree
       | Some n \<Rightarrow>
           let k = on_pit p (\<lambda>e. e\<lparr>np_nte := None\<rparr>) (on_table n (\<lambda>t. t\<lparr>te_pits := swap_remove p (te_pits t)\<rparr>) k);
               k = erase_nte n True k
           in Inr (k\<lparr>kf_nPit := kf_nPit k - 1\<rparr>))"

definition findAllDataMatches :: "'c kite_env \<Rightarrow> nfd_data \<Rightarrow> 'c kite \<Rightarrow> nat list" where
  "findAllDataMatches env d k =
     filter (\<lambda>p. case fmlookup (kf_pits k) p of None \<Rightarrow> False | Some e \<Rightarrow> matchesData (np_interest e) d)
       (concat (map (\<lambda>nte. te_pits (table_at k nte))
          (nt_findAllMatches (ke_hash env) (\<lambda>t. te_pits t \<noteq> []) (nd_name d) (kf_tree k))))"

definition nfd_pit_findAllMatches :: "name \<Rightarrow> 'c kite \<Rightarrow> nat list" where
  "nfd_pit_findAllMatches n k =
     filter (\<lambda>p. case fmlookup (kf_pits k) p of None \<Rightarrow> False | Some e \<Rightarrow> isPrefixOf n (np_name e))
       (concat (map (\<lambda>nte. te_pits (table_at k nte)) (nt_fullEnumerate (\<lambda>t. te_pits t \<noteq> []) (kf_tree k))))"

text \<open>The overload of the longest prefix match for a PIT entry starts at the entry that it is attached to, or at
  that of its whole name.\<close>

definition nte_of_pit :: "'c kite_env \<Rightarrow> nfd_pit_entry \<Rightarrow> 'c kite \<Rightarrow> exn + name" where
  "nte_of_pit env e k =
     (case np_nte e of
        None \<Rightarrow> Inl UseAfterFree
      | Some nte \<Rightarrow>
          if length nte < length (np_name e)
          then (case nt_findExactMatch (ke_hash env) (np_name e) (kf_tree k) of None \<Rightarrow> Inr nte | Some exact \<Rightarrow> Inr exact)
          else Inr nte)"

definition tib_findLongestPrefixMatch :: "'c kite_env \<Rightarrow> nfd_pit_entry \<Rightarrow> 'c kite \<Rightarrow> exn + nat option" where
  "tib_findLongestPrefixMatch env e k =
     bind_exn (nte_of_pit env e k) (\<lambda>nte.
       Inr (case nt_findLongestPrefixMatch_at (\<lambda>t. te_tib t \<noteq> None) nte (kf_tree k) of
              None \<Rightarrow> None
            | Some n \<Rightarrow> te_tib (table_at k n)))"

definition fib_findLongestPrefixMatch_pit :: "'c kite_env \<Rightarrow> nfd_pit_entry \<Rightarrow> 'c kite \<Rightarrow> exn + nfd_fib_entry option" where
  "fib_findLongestPrefixMatch_pit env e k =
     bind_exn (nte_of_pit env e k) (\<lambda>nte.
       Inr (case nt_findLongestPrefixMatch_at (\<lambda>t. te_fib t \<noteq> None) nte (kf_tree k) of
              None \<Rightarrow> None
            | Some n \<Rightarrow> te_fib (table_at k n)))"

section \<open>Removal of a face\<close>

fun cleanup_loop :: "nat \<Rightarrow> name list \<Rightarrow> 'c kite \<Rightarrow> exn + 'c kite" where
  "cleanup_loop face [] k = Inr k"
| "cleanup_loop face (nte # ntes) k =
     (let k = fib_removeNextHop nte face k in
      bind_exn (case te_tib (table_at k nte) of
                  None \<Rightarrow> Inr k
                | Some a \<Rightarrow> bind_exn (cancelNextHopTimer a face k) (tib_removeNextHop a face))
        (\<lambda>k. cleanup_loop face ntes
               (fold (\<lambda>p. on_pit p (\<lambda>e. deleteOutRecord face (deleteInRecord face e))) (te_pits (table_at k nte)) k)))"

definition cleanupOnFaceRemoval :: "nat \<Rightarrow> 'c kite \<Rightarrow> exn + 'c kite" where
  "cleanupOnFaceRemoval face k =
     (let ntes = nt_fullEnumerate (\<lambda>_. True) (kf_tree k) in
      bind_exn (cleanup_loop face ntes k) (\<lambda>k.
        let maybeEmptyNtes = filter (\<lambda>n. \<not> hasTableEntries (table_at k n)) ntes
        in Inr (fold (\<lambda>n. erase_nte n False) (rev (sort_key length maybeEmptyNtes)) k)))"

end
