(* ===== verification/Kite_Forwarder.thy ===== *)
theory Kite_Forwarder
  imports Nfd_Tables
begin

text \<open>
  The forwarder of the KITE baseline (\<^verbatim>\<open>src/src/ndnSIM/NFD/daemon/fw/forwarder.cpp\<close>) with its strategy
  (\<^verbatim>\<open>fw/trace-forwarding.cpp\<close>, \<^verbatim>\<open>fw/strategy.cpp\<close>, \<^verbatim>\<open>fw/algorithm.cpp\<close>): the pipelines of Interests, Data and Nacks, and the trace
  information base that Trace Data installs.  The scenarios choose the strategy for all names, so that
  \<^verbatim>\<open>dispatchToStrategy\<close> calls it.  Log output and the signals of the tracers are left out.
\<close>

section \<open>Scope and nonces\<close>

definition LOCALHOST :: name where "LOCALHOST = [component_of_string ''localhost'']"
definition LOCALHOP :: name where "LOCALHOP = [component_of_string ''localhop'']"

definition violatesLocalhost :: "'c kite_env \<Rightarrow> nat \<Rightarrow> name \<Rightarrow> bool" where
  "violatesLocalhost env face n \<longleftrightarrow> \<not> ke_local env face \<and> isPrefixOf LOCALHOST n"

definition wouldViolateScope :: "'c kite_env \<Rightarrow> nat \<Rightarrow> name \<Rightarrow> nat \<Rightarrow> bool" where
  "wouldViolateScope env inFace n outFace =
     (if ke_local env outFace then False
      else if isPrefixOf LOCALHOST n then True
      else if isPrefixOf LOCALHOP n then \<not> ke_local env inFace
      else False)"

definition canForwardToLegacy :: "sim_time \<Rightarrow> nat \<Rightarrow> nfd_pit_entry \<Rightarrow> bool" where
  "canForwardToLegacy now face e \<longleftrightarrow>
     \<not> list_ex (\<lambda>r. our_face r = face \<and> our_expiry r \<ge> now) (np_out e) \<and>
     list_ex (\<lambda>r. inr_face r \<noteq> face \<and> inr_expiry r \<ge> now) (np_in e)"

text \<open>Whether \<^verbatim>\<open>findDuplicateNonce\<close> finds one, on whatever face.\<close>

definition findDuplicateNonce :: "u32 \<Rightarrow> nfd_pit_entry \<Rightarrow> bool" where
  "findDuplicateNonce nonce e \<longleftrightarrow>
     list_ex (\<lambda>r. inr_lastNonce r = nonce) (np_in e) \<or> list_ex (\<lambda>r. our_lastNonce r = nonce) (np_out e)"

definition hasPendingOutRecords :: "sim_time \<Rightarrow> nfd_pit_entry \<Rightarrow> bool" where
  "hasPendingOutRecords now e \<longleftrightarrow> list_ex (\<lambda>r. our_expiry r \<ge> now \<and> our_incomingNack r = None) (np_out e)"

section \<open>Timers and dead nonces\<close>

text \<open>The expiry of the last in-record to expire; \<^verbatim>\<open>max_element\<close> of no records has no value.\<close>

definition lastExpiry :: "nfd_pit_entry \<Rightarrow> exn + sim_time" where
  "lastExpiry e =
     (case np_in e of [] \<Rightarrow> Inl UseAfterFree | r # rs \<Rightarrow> Inr (fold (\<lambda>x m. if m < inr_expiry x then inr_expiry x else m) rs (inr_expiry r)))"

definition setUnsatisfyTimer :: "nat \<Rightarrow> 'c kite \<Rightarrow> exn + 'c kite" where
  "setUnsatisfyTimer p k =
     bind_exn (pit_at p k) (\<lambda>e. bind_exn (lastExpiry e) (\<lambda>last.
       let k = kite_cancel (np_unsatisfyTimer e) k;
           (i, k) = kite_schedule (last - kite_now k) (Unsatisfied p) k
       in Inr (on_pit p (\<lambda>e. e\<lparr>np_unsatisfyTimer := Some i\<rparr>) k)))"

definition setStragglerTimer :: "nat \<Rightarrow> bool \<Rightarrow> int \<Rightarrow> 'c kite \<Rightarrow> exn + 'c kite" where
  "setStragglerTimer p isSatisfied freshness k =
     bind_exn (pit_at p k) (\<lambda>e.
       let k = kite_cancel (np_stragglerTimer e) k;
           (i, k) = kite_schedule 100000000 (Finalize p isSatisfied freshness) k
       in Inr (on_pit p (\<lambda>e. e\<lparr>np_stragglerTimer := Some i\<rparr>) k))"

definition cancelUnsatisfyAndStragglerTimer :: "nat \<Rightarrow> 'c kite \<Rightarrow> exn + 'c kite" where
  "cancelUnsatisfyAndStragglerTimer p k =
     bind_exn (pit_at p k) (\<lambda>e.
       Inr (on_pit p (\<lambda>e. e\<lparr>np_unsatisfyTimer := None, np_stragglerTimer := None\<rparr>)
              (kite_cancel (np_stragglerTimer e) (kite_cancel (np_unsatisfyTimer e) k))))"

definition add_dead_nonce :: "'c kite_env \<Rightarrow> name \<Rightarrow> u32 \<Rightarrow> 'c kite \<Rightarrow> 'c kite" where
  "add_dead_nonce env n nonce k = k\<lparr>kf_dnl := dnl_add (ke_dnl env) n nonce (kf_dnl k)\<rparr>"

definition insertDeadNonceList :: "'c kite_env \<Rightarrow> nat \<Rightarrow> bool \<Rightarrow> int \<Rightarrow> nat option \<Rightarrow> 'c kite \<Rightarrow> exn + 'c kite" where
  "insertDeadNonceList env p isSatisfied freshness upstream k =
     bind_exn (pit_at p k) (\<lambda>e.
       let needDnl = (if isSatisfied
                      then se_mustBeFresh (ni_selectors (np_interest e)) \<and> freshness \<ge> 0 \<and> freshness * 1000000 < DNL_LIFETIME
                      else True)
       in if \<not> needDnl then Inr k
          else case upstream of
            None \<Rightarrow> Inr (fold (\<lambda>r. add_dead_nonce env (np_name e) (our_lastNonce r)) (np_out e) k)
          | Some face \<Rightarrow>
              (case getOutRecord face e of
                 None \<Rightarrow> Inr k
               | Some r \<Rightarrow> Inr (add_dead_nonce env (np_name e) (our_lastNonce r) k)))"

section \<open>Outgoing packets\<close>

definition kite_send :: "kite_output \<Rightarrow> 'c kite \<Rightarrow> 'c kite" where
  "kite_send out k = k\<lparr>kf_out := kf_out k @ [out]\<rparr>"

definition on_counters :: "(forwarder_counters \<Rightarrow> forwarder_counters) \<Rightarrow> 'c kite \<Rightarrow> 'c kite" where
  "on_counters f k = k\<lparr>kf_counters := f (kf_counters k)\<rparr>"

text \<open>After \<open>m_gone\<close> is set, Interests for the mobile's prefix are answered by Nacks; no code sets it.\<close>

definition onOutgoingInterest :: "'c kite_env \<Rightarrow> nat \<Rightarrow> nat \<Rightarrow> nfd_interest \<Rightarrow> 'c kite \<Rightarrow> exn + 'c kite" where
  "onOutgoingInterest env p outFace i k =
     bind_exn (pit_at p k) (\<lambda>e.
       if kf_gone k \<and> isPrefixOf [component_of_string ''rv'', component_of_string ''alice''] (np_name e) \<and> ke_broadcast env outFace
       then Inr (fold (\<lambda>r. kite_send (OutNack (inr_face r) i NO_ROUTE)) (np_in e) k)
       else let k = on_pit p (insertOrUpdateOutRecord (kite_now k) outFace i) k;
                k = kite_send (OutInterest outFace i) k
            in Inr (on_counters (\<lambda>c. c\<lparr>nOutInterests := incr (nOutInterests c)\<rparr>) k))"

definition onOutgoingData :: "'c kite_env \<Rightarrow> nfd_data \<Rightarrow> nat \<Rightarrow> 'c kite \<Rightarrow> 'c kite" where
  "onOutgoingData env d outFace k =
     (if outFace \<notin> set (kf_faces k) then k
      else if violatesLocalhost env outFace (nd_name d) then k
      else on_counters (\<lambda>c. c\<lparr>nOutData := incr (nOutData c)\<rparr>) (kite_send (OutData outFace d) k))"

definition onOutgoingNack :: "'c kite_env \<Rightarrow> nat \<Rightarrow> nack_reason \<Rightarrow> nat \<Rightarrow> 'c kite \<Rightarrow> exn + 'c kite" where
  "onOutgoingNack env p reason outFace k =
     (if outFace \<notin> set (kf_faces k) then Inr k
      else bind_exn (pit_at p k) (\<lambda>e.
        case getInRecord outFace e of
          None \<Rightarrow> Inr k
        | Some r \<Rightarrow>
            if ke_multiAccess env outFace then Inr k
            else let k = on_pit p (deleteInRecord outFace) k;
                     k = kite_send (OutNack outFace (inr_interest r) reason) k
                 in Inr (on_counters (\<lambda>c. c\<lparr>nOutNacks := incr (nOutNacks c)\<rparr>) k)))"

section \<open>The end of an Interest\<close>

definition onInterestReject :: "nat \<Rightarrow> 'c kite \<Rightarrow> exn + 'c kite" where
  "onInterestReject p k =
     bind_exn (pit_at p k) (\<lambda>e.
       if hasPendingOutRecords (kite_now k) e then Inr k
       else bind_exn (cancelUnsatisfyAndStragglerTimer p k) (setStragglerTimer p False (- 1)))"

definition onInterestFinalize :: "'c kite_env \<Rightarrow> nat \<Rightarrow> bool \<Rightarrow> int \<Rightarrow> 'c kite \<Rightarrow> exn + 'c kite" where
  "onInterestFinalize env p isSatisfied freshness k =
     bind_exn (insertDeadNonceList env p isSatisfied freshness None k) (\<lambda>k.
       bind_exn (cancelUnsatisfyAndStragglerTimer p k) (nfd_pit_erase p))"

definition onInterestUnsatisfied :: "'c kite_env \<Rightarrow> nat \<Rightarrow> 'c kite \<Rightarrow> exn + 'c kite" where
  "onInterestUnsatisfied env p k = onInterestFinalize env p False (- 1) k"

section \<open>The strategy\<close>

definition isInProducerRegion :: "name list \<Rightarrow> (u32 \<times> name) list \<Rightarrow> bool" where
  "isInProducerRegion regions delegations \<longleftrightarrow> list_ex (\<lambda>region. list_ex (\<lambda>(_, d). isPrefixOf d region) delegations) regions"

text \<open>\<^verbatim>\<open>setSelectedDelegation\<close> on the Interests of the in-records, and so on every record that shares an object with them.\<close>

definition select_delegation :: "nat set \<Rightarrow> name \<Rightarrow> nfd_interest \<Rightarrow> nfd_interest" where
  "select_delegation objects d i = (if ni_object i \<in> objects then i\<lparr>ni_selectedDelegation := Some d\<rparr> else i)"

definition select_in_records :: "name \<Rightarrow> nfd_pit_entry \<Rightarrow> nfd_pit_entry" where
  "select_in_records d e =
     (let objects = (ni_object \<circ> inr_interest) ` set (np_in e)
      in e\<lparr>np_interest := select_delegation objects d (np_interest e),
           np_in := map (\<lambda>r. r\<lparr>inr_interest := select_delegation objects d (inr_interest r)\<rparr>) (np_in e)\<rparr>)"

definition fib_hasNextHops :: "nfd_fib_entry option \<Rightarrow> bool" where
  "fib_hasNextHops fe = (case fe of None \<Rightarrow> False | Some e \<Rightarrow> fe_hops e \<noteq> [])"

definition lookupFib :: "'c kite_env \<Rightarrow> nat \<Rightarrow> 'c kite \<Rightarrow> exn + (nfd_fib_entry option \<times> 'c kite)" where
  "lookupFib env p k =
     bind_exn (pit_at p k) (\<lambda>e.
       let byName = bind_exn (fib_findLongestPrefixMatch_pit env e k) (\<lambda>fe. Inr (fe, k)) in
       case ni_link (np_interest e) of
         None \<Rightarrow> byName
       | Some (Inl err) \<Rightarrow> Inl err
       | Some (Inr delegations) \<Rightarrow>
           if isInProducerRegion (kf_regions k) delegations then byName
           else case ni_selectedDelegation (np_interest e) of
             Some d \<Rightarrow> Inr (fib_findLongestPrefixMatch env d k, k)
           | None \<Rightarrow>
               (case delegations of
                  [] \<Rightarrow> Inl UseAfterFree
                | (_, d0) # _ \<Rightarrow>
                    let fe0 = fib_findLongestPrefixMatch env d0 k in
                    if fib_hasNextHops fe0 \<and> (case fe0 of None \<Rightarrow> True | Some f \<Rightarrow> fe_prefix f = []) then Inr (fe0, k)
                    else (case find (\<lambda>(_, d). fib_hasNextHops (fib_findLongestPrefixMatch env d k)) delegations of
                            None \<Rightarrow> Inr (fe0, k)
                          | Some (_, d) \<Rightarrow> Inr (fib_findLongestPrefixMatch env d k, on_pit p (select_in_records d) k))))"

definition canForwardToNextHop :: "'c kite_env \<Rightarrow> nat \<Rightarrow> nat \<Rightarrow> nat \<Rightarrow> 'c kite \<Rightarrow> bool" where
  "canForwardToNextHop env inFace p face k =
     (case fmlookup (kf_pits k) p of
        None \<Rightarrow> False
      | Some e \<Rightarrow> \<not> wouldViolateScope env inFace (np_name e) face \<and> canForwardToLegacy (kite_now k) face e)"

text \<open>The loops that flood to the next hops; the result says whether something was sent.\<close>

fun flood :: "'c kite_env \<Rightarrow> nat \<Rightarrow> nfd_interest \<Rightarrow> nat \<Rightarrow> nat list \<Rightarrow> bool \<times> 'c kite \<Rightarrow> exn + (bool \<times> 'c kite)" where
  "flood env inFace i p [] (sent, k) = Inr (sent, k)"
| "flood env inFace i p (face # faces) (sent, k) =
     (if canForwardToNextHop env inFace p face k
      then bind_exn (onOutgoingInterest env p face i k) (\<lambda>k. flood env inFace i p faces (True, k))
      else flood env inFace i p faces (sent, k))"

definition TraceForwarding :: "'c kite_env \<Rightarrow> nat \<Rightarrow> nfd_interest \<Rightarrow> nat \<Rightarrow> tib_entry \<Rightarrow> 'c kite \<Rightarrow> exn + (bool \<times> 'c kite)" where
  "TraceForwarding env inFace i p te k = flood env inFace i p (map th_face (tb_hops te)) (False, k)"

text \<open>The Interest that is forwarded is the object of the in-record, which the lookup may have changed.\<close>

definition current_interest :: "nat \<Rightarrow> nfd_interest \<Rightarrow> nfd_pit_entry \<Rightarrow> nfd_interest" where
  "current_interest inFace i e = (case getInRecord inFace e of None \<Rightarrow> i | Some r \<Rightarrow> inr_interest r)"

definition forward_by_fib :: "'c kite_env \<Rightarrow> nat \<Rightarrow> nfd_interest \<Rightarrow> nat \<Rightarrow> 'c kite \<Rightarrow> exn + 'c kite" where
  "forward_by_fib env inFace i p k =
     bind_exn (lookupFib env p k) (\<lambda>(fe, k). bind_exn (pit_at p k) (\<lambda>e.
       let faces = (case fe of None \<Rightarrow> [] | Some f \<Rightarrow> map fh_face (fe_hops f)) in
       if \<not> list_ex (\<lambda>face. canForwardToNextHop env inFace p face k) faces then onInterestReject p k
       else map_sum id snd (flood env inFace (current_interest inFace i e) p faces (False, k))))"

definition afterReceiveInterest :: "'c kite_env \<Rightarrow> nat \<Rightarrow> nfd_interest \<Rightarrow> nat \<Rightarrow> 'c kite \<Rightarrow> exn + 'c kite" where
  "afterReceiveInterest env inFace i p k =
     bind_exn (pit_at p k) (\<lambda>e.
       if hasPendingOutRecords (kite_now k) e then Inr k
       else bind_exn (tib_findLongestPrefixMatch env e k) (\<lambda>ta.
         case ta of
           None \<Rightarrow> forward_by_fib env inFace i p k
         | Some a \<Rightarrow>
             bind_exn (tib_at a k) (\<lambda>te.
               if tb_hops te = [] then forward_by_fib env inFace i p k
               else bind_exn (TraceForwarding env inFace i p te k) (\<lambda>(sent, k).
                 if sent then Inr k else forward_by_fib env inFace i p k))))"

fun send_nacks :: "'c kite_env \<Rightarrow> nat \<Rightarrow> nack_reason \<Rightarrow> nat list \<Rightarrow> 'c kite \<Rightarrow> exn + 'c kite" where
  "send_nacks env p reason [] k = Inr k"
| "send_nacks env p reason (face # faces) k = bind_exn (onOutgoingNack env p reason face k) (send_nacks env p reason faces)"

definition afterReceiveNack :: "'c kite_env \<Rightarrow> nack_reason \<Rightarrow> nat \<Rightarrow> 'c kite \<Rightarrow> exn + 'c kite" where
  "afterReceiveNack env reason p k =
     bind_exn (pit_at p k) (\<lambda>e. send_nacks env p reason (ke_order env (remdups (map inr_face (np_in e)))) k)"

section \<open>Trace information base\<close>

definition onTibEntryNextHopTimeout :: "nat \<Rightarrow> nat \<Rightarrow> 'c kite \<Rightarrow> exn + 'c kite" where
  "onTibEntryNextHopTimeout a face k = tib_removeNextHop a face k"

definition setNexthopTimeoutTimer :: "nat \<Rightarrow> nat \<Rightarrow> nfd_interest \<Rightarrow> 'c kite \<Rightarrow> exn + 'c kite" where
  "setNexthopTimeoutTimer a face i k =
     (let (event, k) = kite_schedule (ni_lifetime i * 1000000) (TibTimeout a face) k in setNextHopTimer a face event k)"

text \<open>The pending Interests that are pulled: those with in-records, none of which and none of whose out-records is of the
  face, until the number of pulls is used up.\<close>

definition pullable :: "nat \<Rightarrow> nfd_pit_entry \<Rightarrow> bool" where
  "pullable face e \<longleftrightarrow> np_in e \<noteq> [] \<and> getInRecord face e = None \<and> getOutRecord face e = None"

fun pending_pulls :: "nat \<Rightarrow> int \<Rightarrow> nat list \<Rightarrow> 'c kite \<Rightarrow> nat list" where
  "pending_pulls face cnt [] k = []"
| "pending_pulls face cnt (p # ps) k =
     (let pulled = (case fmlookup (kf_pits k) p of None \<Rightarrow> False | Some e \<Rightarrow> pullable face e);
          cnt = (if pulled then cnt - 1 else cnt);
          rest = (if cnt \<le> 0 then [] else pending_pulls face cnt ps k)
      in if pulled then p # rest else rest)"

text \<open>The second loop.  It sends the Interest of the PIT entry; the copy with the remaining lifetime is not used.\<close>

fun schedule_pulls :: "nat \<Rightarrow> nat \<Rightarrow> nat list \<Rightarrow> 'c kite \<Rightarrow> exn + 'c kite" where
  "schedule_pulls face i [] k = Inr k"
| "schedule_pulls face i (p # ps) k =
     (if i \<ge> 1000 then Inr k
      else bind_exn (pit_at p k) (\<lambda>e. bind_exn (lastExpiry e) (\<lambda>last.
        if last - kite_now k \<le> 0 then schedule_pulls face (Suc i) ps k
        else schedule_pulls face (Suc i) ps (snd (kite_schedule (int i * 1000000) (SendPulled face (np_interest e)) k)))))"

definition updateTib :: "'c kite_env \<Rightarrow> nat \<Rightarrow> nfd_data \<Rightarrow> nfd_interest \<Rightarrow> 'c kite \<Rightarrow> exn + 'c kite" where
  "updateTib env inFace d i k =
     bind_exn (bind_exn (name_at (nd_name d) (- 1)) toSequenceNumber) (\<lambda>seq.
       let dataPrefix = extractDataNameFromTrace (nd_name d);
           (a, k) = tib_insert env dataPrefix k
       in bind_exn (tib_at a k) (\<lambda>e.
         let (isNewer, e) = judgeAndUpdateSeq seq e; k = set_tib a e k in
         if \<not> isNewer then Inr k
         else bind_exn (tib_addNextHop a inFace 1 k) (\<lambda>k. bind_exn (setNexthopTimeoutTimer a inFace i k) (\<lambda>k.
           if kf_doPull k \<and> \<not> kf_allowTempPath k
           then schedule_pulls inFace 0 (pending_pulls inFace (kf_maxPullCnt k) (nfd_pit_findAllMatches dataPrefix k) k) k
           else Inr k))))"

section \<open>Incoming Interests\<close>

definition onInterestLoop :: "'c kite_env \<Rightarrow> nat \<Rightarrow> nfd_interest \<Rightarrow> 'c kite \<Rightarrow> 'c kite" where
  "onInterestLoop env inFace i k = (if ke_multiAccess env inFace then k else kite_send (OutNack inFace i DUPLICATE) k)"

definition onContentStoreMiss :: "'c kite_env \<Rightarrow> nat \<Rightarrow> nat \<Rightarrow> nfd_interest \<Rightarrow> 'c kite \<Rightarrow> exn + 'c kite" where
  "onContentStoreMiss env inFace p i k =
     bind_exn (setUnsatisfyTimer p (on_pit p (insertOrUpdateInRecord (kite_now k) inFace i) k)) (\<lambda>k.
       case ni_nextHopFace i of
         Some face \<Rightarrow> if face \<in> set (kf_faces k) then onOutgoingInterest env p face i k else Inr k
       | None \<Rightarrow> afterReceiveInterest env inFace i p k)"

definition onContentStoreHit :: "'c kite_env \<Rightarrow> nat \<Rightarrow> nat \<Rightarrow> nfd_data \<Rightarrow> 'c kite \<Rightarrow> exn + 'c kite" where
  "onContentStoreHit env inFace p d k =
     bind_exn (setStragglerTimer p True (nd_freshness d) k) (\<lambda>k. Inr (onOutgoingData env d inFace k))"

definition onIncomingInterest :: "'c kite_env \<Rightarrow> nat \<Rightarrow> nfd_interest \<Rightarrow> 'c kite \<Rightarrow> exn + 'c kite" where
  "onIncomingInterest env inFace i k =
     (let k = on_counters (\<lambda>c. c\<lparr>nInInterests := incr (nInInterests c)\<rparr>) k in
      if violatesLocalhost env inFace (ni_name i) then Inr k
      else if dnl_has (ke_dnl env) (ni_name i) (ni_nonce i) (kf_dnl k) then Inr (onInterestLoop env inFace i k)
      else let ((p, _), k) = nfd_pit_insert env i k in
        bind_exn (pit_at p k) (\<lambda>e.
          if findDuplicateNonce (ni_nonce i) e then Inr (onInterestLoop env inFace i k)
          else bind_exn (cancelUnsatisfyAndStragglerTimer p k) (\<lambda>k.
            if np_in e \<noteq> [] then onContentStoreMiss env inFace p i k
            else let (match, cs) = ke_csFind env i (kf_cs k); k = k\<lparr>kf_cs := cs\<rparr> in
              case match of
                Some d \<Rightarrow> onContentStoreHit env inFace p d k
              | None \<Rightarrow> onContentStoreMiss env inFace p i k)))"

text \<open>A malformed link object is detected before the pipeline.\<close>

definition startProcessInterest :: "'c kite_env \<Rightarrow> nat \<Rightarrow> nfd_interest \<Rightarrow> 'c kite \<Rightarrow> exn + 'c kite" where
  "startProcessInterest env face i k =
     (case ni_link i of Some (Inl _) \<Rightarrow> Inr k | _ \<Rightarrow> onIncomingInterest env face i k)"

section \<open>Incoming Data\<close>

text \<open>The in-records that have not expired are the downstreams; those of Trace Data become next hops.\<close>

fun downstream_loop :: "'c kite_env \<Rightarrow> nfd_data \<Rightarrow> nfd_interest \<Rightarrow> sim_time \<Rightarrow> in_record list \<Rightarrow> nat list \<times> 'c kite \<Rightarrow> exn + (nat list \<times> 'c kite)" where
  "downstream_loop env d i now [] (ds, k) = Inr (ds, k)"
| "downstream_loop env d i now (r # rs) (ds, k) =
     (if inr_expiry r > now
      then bind_exn (if judgeNameIsTrace (nd_name d) then updateTib env (inr_face r) d i k else Inr k)
             (\<lambda>k. downstream_loop env d i now rs (ds @ [inr_face r], k))
      else downstream_loop env d i now rs (ds, k))"

definition prolong :: "'c kite_env \<Rightarrow> nat \<Rightarrow> nat \<Rightarrow> 'c kite \<Rightarrow> exn + 'c kite" where
  "prolong env inFace p k =
     bind_exn (pit_at p k) (\<lambda>e. bind_exn (tib_findLongestPrefixMatch env e k) (\<lambda>ta.
       case ta of
         None \<Rightarrow> Inr k
       | Some a0 \<Rightarrow>
           bind_exn (tib_at a0 k) (\<lambda>te.
             if tb_hops te = [] then Inr k
             else case tib_findExactMatch env (tb_prefix te) k of
               None \<Rightarrow> Inl UseAfterFree
             | Some a \<Rightarrow>
                 bind_exn (tib_at a k) (\<lambda>pt.
                   if tib_hasNextHop inFace pt
                   then let (event, k) = kite_schedule 1000000000 (TibTimeout a inFace) k in setNextHopTimer a inFace event k
                   else Inr k))))"

definition satisfy :: "'c kite_env \<Rightarrow> nat \<Rightarrow> nfd_data \<Rightarrow> nat \<Rightarrow> nat list \<times> 'c kite \<Rightarrow> exn + (nat list \<times> 'c kite)" where
  "satisfy env inFace d p st =
     (let (ds, k) = st in
      bind_exn (cancelUnsatisfyAndStragglerTimer p k) (\<lambda>k. bind_exn (pit_at p k) (\<lambda>e.
        bind_exn (downstream_loop env d (np_interest e) (kite_now k) (np_in e) (ds, k)) (\<lambda>(ds, k).
          bind_exn (insertDeadNonceList env p True (nd_freshness d) (Some inFace) k) (\<lambda>k.
            let k = on_pit p (\<lambda>e. deleteOutRecord inFace (e\<lparr>np_in := []\<rparr>)) k in
            bind_exn (setStragglerTimer p True (nd_freshness d) k) (\<lambda>k.
              bind_exn (if kf_prolongTrace k then prolong env inFace p k else Inr k) (\<lambda>k. Inr (ds, k))))))))"

fun satisfy_all :: "'c kite_env \<Rightarrow> nat \<Rightarrow> nfd_data \<Rightarrow> nat list \<Rightarrow> nat list \<times> 'c kite \<Rightarrow> exn + (nat list \<times> 'c kite)" where
  "satisfy_all env inFace d [] st = Inr st"
| "satisfy_all env inFace d (p # ps) st = bind_exn (satisfy env inFace d p st) (satisfy_all env inFace d ps)"

definition onDataUnsolicited :: "'c kite_env \<Rightarrow> nat \<Rightarrow> nfd_data \<Rightarrow> 'c kite \<Rightarrow> 'c kite" where
  "onDataUnsolicited env inFace d k = (if ke_unsolicited env inFace then k\<lparr>kf_cs := ke_csAdd env d (kf_cs k)\<rparr> else k)"

definition onIncomingData :: "'c kite_env \<Rightarrow> nat \<Rightarrow> nfd_data \<Rightarrow> 'c kite \<Rightarrow> exn + 'c kite" where
  "onIncomingData env inFace d k =
     (let k = on_counters (\<lambda>c. c\<lparr>nInData := incr (nInData c)\<rparr>) k in
      if violatesLocalhost env inFace (nd_name d) then Inr k
      else let pitMatches = findAllDataMatches env d k in
        if pitMatches = [] then Inr (onDataUnsolicited env inFace d k)
        else let k = (if judgeNameIsTrace (nd_name d) then k else k\<lparr>kf_cs := ke_csAdd env d (kf_cs k)\<rparr>) in
          bind_exn (satisfy_all env inFace d pitMatches ([], k)) (\<lambda>(ds, k).
            Inr (fold (onOutgoingData env d) (ke_order env (remdups ds)) k)))"

section \<open>Incoming Nacks\<close>

definition set_incoming_nack :: "nat \<Rightarrow> nack_reason \<Rightarrow> nfd_pit_entry \<Rightarrow> nfd_pit_entry" where
  "set_incoming_nack face reason e =
     e\<lparr>np_out := map (\<lambda>r. if our_face r = face then r\<lparr>our_incomingNack := Some reason\<rparr> else r) (np_out e)\<rparr>"

definition remove_trace :: "'c kite_env \<Rightarrow> nat \<Rightarrow> 'c kite \<Rightarrow> exn + (bool \<times> 'c kite)" where
  "remove_trace env inFace k =
     (case tib_findExactMatch env (map component_of_string [''rv'', ''alice'', ''photo'']) k of
        None \<Rightarrow> Inr (False, k)
      | Some a \<Rightarrow>
          bind_exn (tib_at a k) (\<lambda>e. bind_exn (tib_removeNextHop a inFace k) (\<lambda>k.
            Inr (tib_hasNextHop inFace e \<and> length (tb_hops e) = 1, k))))"

definition onIncomingNack :: "'c kite_env \<Rightarrow> nat \<Rightarrow> nfd_interest \<Rightarrow> nack_reason \<Rightarrow> 'c kite \<Rightarrow> exn + 'c kite" where
  "onIncomingNack env inFace i reason k =
     (let k = on_counters (\<lambda>c. c\<lparr>nInNacks := incr (nInNacks c)\<rparr>) k in
      if ke_multiAccess env inFace then Inr k
      else case nfd_pit_find env i k of
        None \<Rightarrow> Inr k
      | Some p \<Rightarrow>
          bind_exn (pit_at p k) (\<lambda>e.
            case getOutRecord inFace e of
              None \<Rightarrow> Inr k
            | Some r \<Rightarrow>
                if ni_nonce i \<noteq> our_lastNonce r then Inr k
                else let k = on_pit p (set_incoming_nack inFace reason) k in
                  bind_exn (if kf_removeTraceOnNack k \<and> reason = NO_ROUTE then remove_trace env inFace k else Inr (False, k))
                    (\<lambda>(propagate, k). if propagate then afterReceiveNack env reason p k else Inr k)))"

definition startProcessNack :: "'c kite_env \<Rightarrow> nat \<Rightarrow> nfd_interest \<Rightarrow> nack_reason \<Rightarrow> 'c kite \<Rightarrow> exn + 'c kite" where
  "startProcessNack env face i reason k =
     (case ni_link i of Some (Inl _) \<Rightarrow> Inr k | _ \<Rightarrow> onIncomingNack env face i reason k)"

section \<open>Events and runs\<close>

text \<open>The event that sends a pulled Interest refers to the face, and the removal of the face neither cancels it nor keeps the
  face, which the face table destroys.\<close>

definition run_kite_act :: "'c kite_env \<Rightarrow> kite_act \<Rightarrow> 'c kite \<Rightarrow> exn + 'c kite" where
  "run_kite_act env a k =
     (case a of
        Unsatisfied p \<Rightarrow> onInterestUnsatisfied env p k
      | Finalize p isSatisfied freshness \<Rightarrow> onInterestFinalize env p isSatisfied freshness k
      | TibTimeout a face \<Rightarrow> onTibEntryNextHopTimeout a face k
      | SendPulled face i \<Rightarrow> if face \<in> set (kf_faces k) then Inr (kite_send (OutInterest face i) k) else Inl UseAfterFree
      | DnlMark \<Rightarrow> Inr (snd (kite_schedule (DNL_LIFETIME div 5) DnlMark (k\<lparr>kf_dnl := dnl_mark (kf_dnl k)\<rparr>)))
      | DnlAdjust \<Rightarrow> Inr (snd (kite_schedule DNL_LIFETIME DnlAdjust (k\<lparr>kf_dnl := adjustCapacity (ke_dnl env) (kf_dnl k)\<rparr>))))"

text \<open>A new forwarder: the default strategy at the root, the events of the dead nonce list.\<close>

definition kite_new :: "'c kite_env \<Rightarrow> hashtable_options \<Rightarrow> 'c \<Rightarrow> name \<Rightarrow> 'c kite" where
  "kite_new env options cs strategy =
     (let k = \<lparr>kf_tree = hashtable_new options, kf_tibs = fmempty, kf_pits = fmempty, kf_next = 0, kf_nTib = 0, kf_nPit = 0,
               kf_dnl = dnl_new, kf_cs = cs, kf_faces = [], kf_regions = [], kf_sim = sim_init, kf_out = [],
               kf_counters = \<lparr>nInInterests = 0, nOutInterests = 0, nInData = 0, nOutData = 0, nInNacks = 0, nOutNacks = 0\<rparr>,
               kf_doPull = False, kf_allowTempPath = False, kf_maxPullCnt = 2147483647, kf_prolongTrace = False,
               kf_gone = False, kf_removeTraceOnNack = False\<rparr>;
          k = on_table [] (\<lambda>t. t\<lparr>te_strategyChoice := Some strategy\<rparr>) (lookup_nte env [] k);
          k = snd (kite_schedule (DNL_LIFETIME div 5) DnlMark k)
      in snd (kite_schedule DNL_LIFETIME DnlAdjust k))"

end
