(* ===== verification/Kite_Invariant.thy ===== *)
theory Kite_Invariant
  imports Kite_Forwarder
begin

text \<open>
  The invariant of the KITE forwarder.  Entries of the TIB are reached through raw pointers of their timers, entries of
  the PIT are erased by theirs.  Shown: every step of a forwarder keeps the tables, the stores and the timers in
  agreement, so that no timer outlives its entry and every pending entry has exactly one.
\<close>

section \<open>Timers\<close>

fun act_pit :: "kite_act \<Rightarrow> nat option" where
  "act_pit (Unsatisfied p) = Some p"
| "act_pit (Finalize p _ _) = Some p"
| "act_pit _ = None"

definition pit_live :: "kite_act sim \<Rightarrow> nat \<Rightarrow> event_id set" where
  "pit_live s p = {i. \<exists>a. act_pit a = Some p \<and> (a, i) \<in> live_timers s}"

definition tib_live :: "kite_act sim \<Rightarrow> nat \<Rightarrow> nat \<Rightarrow> event_id set" where
  "tib_live s a face = {i. (TibTimeout a face, i) \<in> live_timers s}"

text \<open>One event leaves the queue; its id belongs to no other.\<close>

lemma live_without:
  assumes "\<And>b. (b, i) \<in> live_timers s \<Longrightarrow> b = a" and "live_timers s' = live_timers s - {(a, i)}"
  shows "pit_live s' q = (if act_pit a = Some q then pit_live s q - {i} else pit_live s q)"
    and "tib_live s' b g = (if a = TibTimeout b g then tib_live s b g - {i} else tib_live s b g)"
proof -
  have "(b, j) \<in> live_timers s' \<longleftrightarrow> (b, j) \<in> live_timers s \<and> (b \<noteq> a \<or> j \<noteq> i)" for b j by (simp add: assms(2))
  note L = this
  show "pit_live s' q = (if act_pit a = Some q then pit_live s q - {i} else pit_live s q)"
    unfolding pit_live_def L using assms(1) by (cases "act_pit a = Some q") (simp, blast, simp, blast)
  show "tib_live s' b g = (if a = TibTimeout b g then tib_live s b g - {i} else tib_live s b g)"
    unfolding tib_live_def L by auto
qed

text \<open>\<^verbatim>\<open>scheduler::cancel\<close> of an id that belongs to a PIT entry, or of one whose event has run.\<close>

lemma Remove_pit:
  assumes "sim_ok s" and "set_option t \<subseteq> Collect (past_id s) \<union> pit_live s p"
  shows "sim_ok (Remove t s)" and "pit_live (Remove t s) q = (if q = p then pit_live s p - set_option t else pit_live s q)"
    and "tib_live (Remove t s) = tib_live s"
proof -
  show "sim_ok (Remove t s)" by (rule sim_ok_Remove [OF assms(1)])
  have "pit_live (Remove t s) q = (if q = p then pit_live s p - set_option t else pit_live s q) \<and> tib_live (Remove t s) = tib_live s"
  proof (cases t)
    case None
    then show ?thesis by (simp add: Remove_def)
  next
    case (Some i)
    show ?thesis
    proof (cases "past_id s i")
      case True
      then have "i \<notin> pit_live s p" using live_not_past [OF assms(1)] by (auto simp: pit_live_def)
      then show ?thesis using Remove_past [OF True] Some by auto
    next
      case False
      then obtain a where a: "act_pit a = Some p" "(a, i) \<in> live_timers s" using assms(2) Some by (auto simp: pit_live_def)
      have "live_timers (Remove t s) = live_timers s - {(a, i)}" using live_timers_Remove [OF assms(1) a(2)] Some by simp
      from live_without [OF live_id_unique [OF assms(1) a(2), symmetric] this] a(1) Some show ?thesis by (auto simp: fun_eq_iff)
    qed
  qed
  then show "pit_live (Remove t s) q = (if q = p then pit_live s p - set_option t else pit_live s q)"
    "tib_live (Remove t s) = tib_live s" by simp_all
qed

lemma Remove_tib:
  assumes "sim_ok s" and "set_option t \<subseteq> Collect (past_id s) \<union> tib_live s a f"
  shows "sim_ok (Remove t s)" and "pit_live (Remove t s) = pit_live s"
    and "tib_live (Remove t s) b g = (if b = a \<and> g = f then tib_live s a f - set_option t else tib_live s b g)"
proof -
  show "sim_ok (Remove t s)" by (rule sim_ok_Remove [OF assms(1)])
  have "tib_live (Remove t s) b g = (if b = a \<and> g = f then tib_live s a f - set_option t else tib_live s b g) \<and>
      pit_live (Remove t s) = pit_live s"
  proof (cases t)
    case None
    then show ?thesis by (simp add: Remove_def)
  next
    case (Some i)
    show ?thesis
    proof (cases "past_id s i")
      case True
      then have "i \<notin> tib_live s a f" using live_not_past [OF assms(1)] by (auto simp: tib_live_def)
      then show ?thesis using Remove_past [OF True] Some by auto
    next
      case False
      then have i: "(TibTimeout a f, i) \<in> live_timers s" using assms(2) Some by (auto simp: tib_live_def)
      have "live_timers (Remove t s) = live_timers s - {(TibTimeout a f, i)}"
        using live_timers_Remove [OF assms(1) i] Some by simp
      from live_without [OF live_id_unique [OF assms(1) i, symmetric] this] Some show ?thesis by (auto simp: fun_eq_iff)
    qed
  qed
  then show "pit_live (Remove t s) = pit_live s"
    "tib_live (Remove t s) b g = (if b = a \<and> g = f then tib_live s a f - set_option t else tib_live s b g)" by simp_all
qed

lemma Schedule_pit_live:
  "pit_live (snd (Schedule d a s)) q = (if act_pit a = Some q then insert (fst (Schedule d a s)) (pit_live s q) else pit_live s q)"
  by (auto simp: pit_live_def live_timers_Schedule)

lemma Schedule_tib_live:
  "tib_live (snd (Schedule d a s)) b f = (if a = TibTimeout b f then insert (fst (Schedule d a s)) (tib_live s b f) else tib_live s b f)"
  by (auto simp: tib_live_def live_timers_Schedule)

section \<open>The invariant\<close>

definition link_ok :: "nfd_interest \<Rightarrow> bool" where
  "link_ok i \<longleftrightarrow> (case ni_link i of None \<Rightarrow> True | Some (Inl _) \<Rightarrow> False | Some (Inr ds) \<Rightarrow> ds \<noteq> [])"

definition interest_fine :: "nfd_interest \<Rightarrow> bool" where
  "interest_fine i \<longleftrightarrow> 0 \<le> ni_lifetime i \<and> link_ok i"

definition pit_entry_ok :: "nat \<Rightarrow> nat \<Rightarrow> nfd_pit_entry \<Rightarrow> bool" where
  "pit_entry_ok limit p e \<longleftrightarrow> p < limit \<and> interest_fine (np_interest e) \<and> (\<forall>n. np_nte e = Some n \<longrightarrow> n = nte_name (np_name e))"

definition tables_ok :: "'c kite_env \<Rightarrow> 'c kite \<Rightarrow> bool" where
  "tables_ok env k \<longleftrightarrow> nt_ok (ke_hash env) (kf_tree k) \<and>
     (\<forall>n a. te_tib (table_at k n) = Some a \<longrightarrow> (\<exists>e. fmlookup (kf_tibs k) a = Some e \<and> tb_nte e = n)) \<and>
     (\<forall>a e. fmlookup (kf_tibs k) a = Some e \<longrightarrow>
        te_tib (table_at k (tb_nte e)) = Some a \<and> tb_prefix e = tb_nte e \<and> length (tb_hops e) \<le> 1 \<and> a < kf_next k) \<and>
     (\<forall>n. distinct (te_pits (table_at k n))) \<and>
     (\<forall>n p. p \<in> set (te_pits (table_at k n)) \<longleftrightarrow> (\<exists>e. fmlookup (kf_pits k) p = Some e \<and> np_nte e = Some n)) \<and>
     (\<forall>p e. fmlookup (kf_pits k) p = Some e \<longrightarrow> pit_entry_ok (kf_next k) p e)"

definition stored_timers :: "nfd_pit_entry \<Rightarrow> event_id set" where
  "stored_timers e = set_option (np_unsatisfyTimer e) \<union> set_option (np_stragglerTimer e)"

text \<open>An attached entry has one live timer, which it stores, except the entries \<open>P\<close> that a pipeline works on.\<close>

definition pit_timer_ok :: "nat set \<Rightarrow> kite_act sim \<Rightarrow> nat \<Rightarrow> nfd_pit_entry \<Rightarrow> bool" where
  "pit_timer_ok P s p e \<longleftrightarrow>
     stored_timers e \<subseteq> Collect (past_id s) \<union> pit_live s p \<and> pit_live s p \<subseteq> stored_timers e \<and>
     (if np_nte e \<noteq> None \<and> p \<notin> P then \<exists>i. pit_live s p = {i} else pit_live s p = {})"

definition pit_timers :: "nat set \<Rightarrow> 'c kite \<Rightarrow> bool" where
  "pit_timers P k \<longleftrightarrow>
     (\<forall>p e. fmlookup (kf_pits k) p = Some e \<longrightarrow> pit_timer_ok P (kf_sim k) p e) \<and>
     (\<forall>p. fmlookup (kf_pits k) p = None \<longrightarrow> pit_live (kf_sim k) p = {})"

text \<open>A next hop has one live timer, which it stores, except those of \<open>X\<close>; there are no other timers.\<close>

definition hop_timer_ok :: "(nat \<times> nat) set \<Rightarrow> kite_act sim \<Rightarrow> nat \<Rightarrow> tib_hop \<Rightarrow> bool" where
  "hop_timer_ok X s a h \<longleftrightarrow>
     (if (a, th_face h) \<in> X then tib_live s a (th_face h) = {} \<and> set_option (th_timer h) \<subseteq> Collect (past_id s)
      else \<exists>i. th_timer h = Some i \<and> tib_live s a (th_face h) = {i})"

definition tib_timers :: "(nat \<times> nat) set \<Rightarrow> 'c kite \<Rightarrow> bool" where
  "tib_timers X k \<longleftrightarrow>
     (\<forall>a e. fmlookup (kf_tibs k) a = Some e \<longrightarrow> list_all (hop_timer_ok X (kf_sim k) a) (tb_hops e)) \<and>
     (\<forall>a f. (\<forall>e. fmlookup (kf_tibs k) a = Some e \<longrightarrow> f \<notin> th_face ` set (tb_hops e)) \<longrightarrow> tib_live (kf_sim k) a f = {})"

definition kinv :: "'c kite_env \<Rightarrow> nat set \<Rightarrow> (nat \<times> nat) set \<Rightarrow> 'c kite \<Rightarrow> bool" where
  "kinv env P X k \<longleftrightarrow> sim_ok (kf_sim k) \<and> tables_ok env k \<and> pit_timers P k \<and> tib_timers X k"

lemmas kinv_defs = kinv_def tables_ok_def pit_timers_def tib_timers_def table_at_def

lemma kinv_frame [simp]:
  "kinv env P X (k\<lparr>kf_out := out\<rparr>) = kinv env P X k" "kinv env P X (k\<lparr>kf_counters := c\<rparr>) = kinv env P X k"
  "kinv env P X (k\<lparr>kf_cs := cs\<rparr>) = kinv env P X k" "kinv env P X (k\<lparr>kf_dnl := d\<rparr>) = kinv env P X k"
  "kinv env P X (k\<lparr>kf_nTib := m\<rparr>) = kinv env P X k" "kinv env P X (k\<lparr>kf_nPit := m\<rparr>) = kinv env P X k"
  "kinv env P X (k\<lparr>kf_faces := fs\<rparr>) = kinv env P X k"
  by (simp_all add: kinv_defs)

lemma kinv_send [simp]: "kinv env P X (kite_send out k) = kinv env P X k" "kinv env P X (on_counters f k) = kinv env P X k"
  by (simp_all add: kite_send_def on_counters_def)

lemma table_at_frame [simp]:
  "table_at (k\<lparr>kf_pits := ps\<rparr>) = table_at k" "table_at (k\<lparr>kf_tibs := ts\<rparr>) = table_at k" "table_at (k\<lparr>kf_next := a\<rparr>) = table_at k"
  "table_at (k\<lparr>kf_nPit := m\<rparr>) = table_at k" "table_at (k\<lparr>kf_nTib := m\<rparr>) = table_at k" "table_at (k\<lparr>kf_sim := s\<rparr>) = table_at k"
  by (simp_all add: table_at_def fun_eq_iff)

text \<open>A change of a PIT entry that leaves its place and its timers.\<close>

definition same_entry :: "nfd_pit_entry \<Rightarrow> nfd_pit_entry \<Rightarrow> bool" where
  "same_entry e e' \<longleftrightarrow> np_nte e' = np_nte e \<and> np_unsatisfyTimer e' = np_unsatisfyTimer e \<and> np_stragglerTimer e' = np_stragglerTimer e \<and>
     ni_name (np_interest e') = ni_name (np_interest e) \<and> ni_lifetime (np_interest e') = ni_lifetime (np_interest e) \<and>
     ni_link (np_interest e') = ni_link (np_interest e)"

lemma lookup_on_pit: "fmlookup (kf_pits (on_pit p f k)) q = (if q = p then map_option f (fmlookup (kf_pits k) p) else fmlookup (kf_pits k) q)"
  by (auto simp: on_pit_def split: option.splits)

lemma on_pit_frame [simp]:
  "kf_tree (on_pit p f k) = kf_tree k" "kf_tibs (on_pit p f k) = kf_tibs k" "kf_next (on_pit p f k) = kf_next k"
  "kf_sim (on_pit p f k) = kf_sim k" "kite_now (on_pit p f k) = kite_now k" "kf_faces (on_pit p f k) = kf_faces k"
  "kf_prolongTrace (on_pit p f k) = kf_prolongTrace k" "kf_out (on_pit p f k) = kf_out k" "table_at (on_pit p f k) = table_at k"
  by (auto simp: on_pit_def kite_now_def table_at_def fun_eq_iff split: option.splits)

lemma same_entry_ok:
  assumes "same_entry e e'"
  shows "pit_timer_ok P s p e' = pit_timer_ok P s p e" and "pit_entry_ok l p e' = pit_entry_ok l p e" and "np_nte e' = np_nte e"
  using assms by (simp_all add: same_entry_def pit_timer_ok_def pit_entry_ok_def interest_fine_def link_ok_def np_name_def
      stored_timers_def)

lemma kinv_on_pit:
  assumes "kinv env P X k" and "\<And>e. fmlookup (kf_pits k) p = Some e \<Longrightarrow> same_entry e (f e)"
  shows "kinv env P X (on_pit p f k)"
proof -
  let ?k = "on_pit p f k"
  have q: "\<exists>e0. fmlookup (kf_pits k) q = Some e0 \<and> same_entry e0 e'" if "fmlookup (kf_pits ?k) q = Some e'" for q e'
    using that assms(2) by (auto simp: lookup_on_pit same_entry_def split: if_splits)
  have p: "(\<exists>e'. fmlookup (kf_pits ?k) q = Some e' \<and> np_nte e' = Some n) \<longleftrightarrow>
      (\<exists>e. fmlookup (kf_pits k) q = Some e \<and> np_nte e = Some n)" for q n
    using assms(2) by (auto simp: lookup_on_pit same_entry_def)
  have none: "fmlookup (kf_pits ?k) q = None \<longleftrightarrow> fmlookup (kf_pits k) q = None" for q by (simp add: lookup_on_pit)
  have "pit_timer_ok P (kf_sim k) q e' \<and> pit_entry_ok (kf_next k) q e'" if e': "fmlookup (kf_pits ?k) q = Some e'" for q e'
  proof -
    obtain e0 where "fmlookup (kf_pits k) q = Some e0" "same_entry e0 e'" using q [OF e'] by blast
    then show ?thesis using assms(1) by (simp add: kinv_def tables_ok_def pit_timers_def same_entry_ok)
  qed
  then show ?thesis
    using assms(1) unfolding kinv_def tables_ok_def pit_timers_def tib_timers_def p none on_pit_frame by simp
qed

text \<open>A change of the tree that leaves what is attached.\<close>

lemma kinv_tree:
  assumes "kinv env P X k" and "nt_ok (ke_hash env) t" and "table_of te_none t = table_of te_none (kf_tree k)"
  shows "kinv env P X (k\<lparr>kf_tree := t\<rparr>)"
  using assms by (simp add: kinv_defs)

lemma te_none_iff: "\<not> hasTableEntries t \<Longrightarrow> t = te_none"
  by (cases t) (simp add: hasTableEntries_def te_none_def)

lemma kinv_lookup_nte: "kinv env P X k \<Longrightarrow> kinv env P X (lookup_nte env n k)"
  unfolding lookup_nte_def by (rule kinv_tree) (auto simp: kinv_def tables_ok_def nt_lookup_ok)

lemma kinv_erase_nte: "kinv env P X k \<Longrightarrow> kinv env P X (erase_nte n anc k)"
  unfolding erase_nte_def
  by (rule kinv_tree) (auto simp: kinv_def tables_ok_def dest: eraseIfEmpty_ok [OF _ te_none_iff surjective_pairing])

lemma table_at_on_table:
  "table_at (on_table n f k) m = (if m = n \<and> n \<in> ht_names (kf_tree k) then f (table_at k n) else table_at k m)"
  by (auto simp: table_at_def table_of_def on_table_def lookup_upd_entry in_ht_names split: option.splits)

lemma on_table_frame [simp]:
  "kf_tibs (on_table n f k) = kf_tibs k" "kf_pits (on_table n f k) = kf_pits k" "kf_next (on_table n f k) = kf_next k"
  "kf_sim (on_table n f k) = kf_sim k" "nt_ok H (kf_tree k) \<Longrightarrow> nt_ok H (kf_tree (on_table n f k))"
  "ht_names (kf_tree (on_table n f k)) = ht_names (kf_tree k)"
  by (simp_all add: on_table_def nt_ok_set_table)

lemma attached_name: "te_tib (table_at k n) \<noteq> None \<or> te_pits (table_at k n) \<noteq> [] \<or> te_fib (table_at k n) \<noteq> None \<Longrightarrow> n \<in> ht_names (kf_tree k)"
  by (auto simp: table_at_def table_of_def te_none_def in_ht_names split: option.splits)

text \<open>A change of one entry of the PIT together with the event queue.\<close>

lemma kinv_set_pit:
  assumes "kinv env P X k" and "fmlookup (kf_pits k) p = Some e"
    and "np_nte e' = np_nte e" "np_interest e' = np_interest e"
    and "sim_ok s'" "past_id s' = past_id (kf_sim k)" "tib_live s' = tib_live (kf_sim k)"
    and "\<And>q. q \<noteq> p \<Longrightarrow> pit_live s' q = pit_live (kf_sim k) q" and "\<And>q. q \<noteq> p \<Longrightarrow> q \<in> P' \<longleftrightarrow> q \<in> P"
    and "pit_timer_ok P' s' p e'"
  shows "kinv env P' X (k\<lparr>kf_sim := s', kf_pits := fmupd p e' (kf_pits k)\<rparr>)"
proof -
  let ?k = "k\<lparr>kf_sim := s', kf_pits := fmupd p e' (kf_pits k)\<rparr>"
  have "table_at ?k = table_at k" by (simp add: table_at_def fun_eq_iff)
  moreover have "(\<exists>x. fmlookup (kf_pits ?k) q = Some x \<and> np_nte x = Some n) \<longleftrightarrow> (\<exists>x. fmlookup (kf_pits k) q = Some x \<and> np_nte x = Some n)" for q n
    using assms(2,3) by auto
  moreover have "pit_entry_ok (kf_next k) p e'" 
    using assms(1-4) by (auto simp: kinv_def tables_ok_def pit_entry_ok_def np_name_def)
  ultimately have "tables_ok env ?k" using assms(1) by (auto simp: kinv_def tables_ok_def)
  moreover have "pit_timer_ok P' s' q x = pit_timer_ok P (kf_sim k) q x" if "q \<noteq> p" for q x
    using assms(6,8,9) that by (simp add: pit_timer_ok_def)
  then have "pit_timers P' ?k" using assms(1,8,10) by (auto simp: kinv_def pit_timers_def)
  moreover have "hop_timer_ok X s' = hop_timer_ok X (kf_sim k)"
    using assms(6,7) by (intro ext) (simp add: hop_timer_ok_def)
  then have "tib_timers X ?k" using assms(1,7) by (simp add: kinv_def tib_timers_def)
  ultimately show ?thesis using assms(5) by (simp add: kinv_def)
qed

text \<open>A change of one entry of the TIB together with the event queue.\<close>

lemma kinv_set_tib:
  assumes "kinv env P X k" and "fmlookup (kf_tibs k) a = Some e"
    and "tb_nte e' = tb_nte e" "tb_prefix e' = tb_prefix e" "length (tb_hops e') \<le> 1"
    and "sim_ok s'" "past_id s' = past_id (kf_sim k)" "pit_live s' = pit_live (kf_sim k)"
    and "\<And>b f. b \<noteq> a \<Longrightarrow> tib_live s' b f = tib_live (kf_sim k) b f" and "\<And>b f. b \<noteq> a \<Longrightarrow> (b, f) \<in> X' \<longleftrightarrow> (b, f) \<in> X"
    and "list_all (hop_timer_ok X' s' a) (tb_hops e')" and "\<And>f. f \<notin> th_face ` set (tb_hops e') \<Longrightarrow> tib_live s' a f = {}"
  shows "kinv env P X' (k\<lparr>kf_sim := s', kf_tibs := fmupd a e' (kf_tibs k)\<rparr>)"
proof -
  let ?k = "k\<lparr>kf_sim := s', kf_tibs := fmupd a e' (kf_tibs k)\<rparr>"
  have "table_at ?k = table_at k" by (simp add: table_at_def fun_eq_iff)
  moreover have "a < kf_next k" "tb_prefix e = tb_nte e" "te_tib (table_at k (tb_nte e)) = Some a"
    using assms(1,2) by (simp_all add: kinv_def tables_ok_def)
  moreover have "\<exists>x. fmlookup (kf_tibs ?k) b = Some x \<and> tb_nte x = n" if "te_tib (table_at k n) = Some b" for n b
  proof -
    obtain x where "fmlookup (kf_tibs k) b = Some x" "tb_nte x = n" using assms(1) \<open>te_tib (table_at k n) = Some b\<close>
      by (auto simp: kinv_def tables_ok_def)
    then show ?thesis using assms(2,3) by auto
  qed
  ultimately have "tables_ok env ?k" using assms(1,3-5) by (auto simp: kinv_def tables_ok_def)
  moreover have "pit_timers P ?k" using assms(1,7,8) by (simp add: kinv_def pit_timers_def pit_timer_ok_def)
  moreover have "hop_timer_ok X' s' b h = hop_timer_ok X (kf_sim k) b h" if "b \<noteq> a" for b h
    using assms(7,9,10) that by (simp add: hop_timer_ok_def)
  then have "tib_timers X' ?k"
    using assms(1,9,11,12) by (auto simp: kinv_def tib_timers_def list_all_iff split: if_splits)
  ultimately show ?thesis using assms(6) by (simp add: kinv_def)
qed

section \<open>Timers of a PIT entry\<close>

text \<open>A result that is no error, or one of the errors \<open>E\<close>.\<close>

definition safe :: "exn set \<Rightarrow> ('a \<Rightarrow> bool) \<Rightarrow> exn + 'a \<Rightarrow> bool" where
  "safe E Q r \<longleftrightarrow> (case r of Inl e \<Rightarrow> e \<in> E | Inr x \<Rightarrow> Q x)"

lemma safe_simps [simp]: "safe E Q (Inl e) = (e \<in> E)" "safe E Q (Inr x) = Q x"
  by (simp_all add: safe_def)

lemma safe_bind: "safe E Q r \<Longrightarrow> (\<And>x. Q x \<Longrightarrow> safe E R (f x)) \<Longrightarrow> safe E R (bind_exn r f)"
  by (cases r) simp_all

lemma safe_mono: "safe E Q r \<Longrightarrow> E \<subseteq> E' \<Longrightarrow> (\<And>x. Q x \<Longrightarrow> R x) \<Longrightarrow> safe E' R r"
  by (cases r) auto

lemma safe_any: "safe {} Q r \<Longrightarrow> safe E Q r"
  by (cases r) simp_all

definition attached :: "'c kite \<Rightarrow> nat set" where
  "attached k = {p. \<exists>e n. fmlookup (kf_pits k) p = Some e \<and> np_nte e = Some n}"

text \<open>The invariant during a pipeline that holds the attached entries \<open>A\<close>.\<close>

definition kite_ok :: "'c kite_env \<Rightarrow> nat set \<Rightarrow> (nat \<times> nat) set \<Rightarrow> nat set \<Rightarrow> 'c kite \<Rightarrow> bool" where
  "kite_ok env P X A k \<longleftrightarrow> kinv env P X k \<and> A \<subseteq> attached k"

lemma attached_frame [simp]:
  "attached (k\<lparr>kf_out := out\<rparr>) = attached k" "attached (k\<lparr>kf_counters := c\<rparr>) = attached k"
  "attached (k\<lparr>kf_cs := cs\<rparr>) = attached k" "attached (k\<lparr>kf_dnl := d\<rparr>) = attached k"
  "attached (k\<lparr>kf_nTib := m\<rparr>) = attached k" "attached (k\<lparr>kf_nPit := m\<rparr>) = attached k"
  "attached (k\<lparr>kf_sim := s\<rparr>) = attached k" "attached (k\<lparr>kf_tibs := ts\<rparr>) = attached k"
  "attached (k\<lparr>kf_tree := t\<rparr>) = attached k" "attached (k\<lparr>kf_next := a\<rparr>) = attached k"
  "attached (k\<lparr>kf_faces := fs\<rparr>) = attached k"
  by (simp_all add: attached_def)

lemma kite_ok_frame [simp]:
  "kite_ok env P X A (k\<lparr>kf_cs := cs\<rparr>) = kite_ok env P X A k" "kite_ok env P X A (k\<lparr>kf_dnl := d\<rparr>) = kite_ok env P X A k"
  "kite_ok env P X A (kite_send out k) = kite_ok env P X A k" "kite_ok env P X A (on_counters f k) = kite_ok env P X A k"
  "kite_ok env P X A (add_dead_nonce env n nonce k) = kite_ok env P X A k"
  by (simp_all add: kite_ok_def kite_send_def on_counters_def add_dead_nonce_def)

lemma kite_ok_entry:
  assumes "kite_ok env P X A k" and "p \<in> A"
  obtains e where "fmlookup (kf_pits k) p = Some e" and "pit_at p k = Inr e" and "np_nte e = Some (nte_name (np_name e))"
    and "pit_timer_ok P (kf_sim k) p e" and "interest_fine (np_interest e)" and "sim_ok (kf_sim k)"
proof -
  from assms obtain e n where e: "fmlookup (kf_pits k) p = Some e" "np_nte e = Some n" by (auto simp: kite_ok_def attached_def)
  with assms(1) have "n = nte_name (np_name e)" "pit_timer_ok P (kf_sim k) p e" "interest_fine (np_interest e)" "sim_ok (kf_sim k)"
    by (auto simp: kite_ok_def kinv_def tables_ok_def pit_timers_def pit_entry_ok_def)
  with e that show thesis by (simp add: pit_at_def)
qed

lemma pit_at_ok: "kite_ok env P X A k \<Longrightarrow> p \<in> A \<Longrightarrow> safe E (\<lambda>e. fmlookup (kf_pits k) p = Some e \<and> np_nte e = Some (nte_name (np_name e)) \<and>
    interest_fine (np_interest e)) (pit_at p k)"
  by (erule (1) kite_ok_entry) simp

lemma kite_ok_on_pit:
  assumes "kite_ok env P X A k" and "\<And>e. fmlookup (kf_pits k) p = Some e \<Longrightarrow> same_entry e (f e)"
  shows "kite_ok env P X A (on_pit p f k)"
proof -
  have "attached k \<subseteq> attached (on_pit p f k)" using assms(2) by (fastforce simp: attached_def lookup_on_pit same_entry_def)
  then show ?thesis using assms kinv_on_pit [of env P X k p f] by (auto simp: kite_ok_def)
qed

lemma attached_set_pit:
  "fmlookup (kf_pits k) p = Some e \<Longrightarrow> np_nte e' = np_nte e \<Longrightarrow> attached (k\<lparr>kf_sim := s, kf_pits := fmupd p e' (kf_pits k)\<rparr>) = attached k"
  by (auto simp: attached_def)

lemma Remove_pasts: "set_option t \<subseteq> Collect (past_id s) \<Longrightarrow> Remove t s = s"
  by (cases t) (simp_all add: Remove_past, simp add: Remove_def)

lemma Remove_idem: "Remove t (Remove t s) = Remove t s"
  by (auto simp: Remove_def split: option.splits)

text \<open>Cancelling leaves the entry without a live timer, setting gives it one.\<close>

lemma cancelTimers_ok:
  assumes "kite_ok env P X A k" and "p \<in> A" and "P \<subseteq> {p}"
  shows "safe {} (kite_ok env {p} X A) (cancelUnsatisfyAndStragglerTimer p k)"
proof -
  obtain e where e: "fmlookup (kf_pits k) p = Some e" "pit_at p k = Inr e" and t: "pit_timer_ok P (kf_sim k) p e" and s: "sim_ok (kf_sim k)"
    using kite_ok_entry [OF assms(1,2)] by metis
  let ?s = "kf_sim k" and ?u = "np_unsatisfyTimer e" and ?g = "np_stragglerTimer e"
  let ?s1 = "Remove ?u ?s" and ?e' = "e\<lparr>np_unsatisfyTimer := None, np_stragglerTimer := None\<rparr>"
  let ?s2 = "Remove ?g ?s1"
  have u: "set_option ?u \<subseteq> Collect (past_id ?s) \<union> pit_live ?s p" and g: "set_option ?g \<subseteq> Collect (past_id ?s) \<union> pit_live ?s p"
    and l: "pit_live ?s p \<subseteq> set_option ?u \<union> set_option ?g"
    using t by (auto simp: pit_timer_ok_def stored_timers_def)
  note r1 = Remove_pit [OF s u]
  have two: "sim_ok ?s2 \<and> tib_live ?s2 = tib_live ?s \<and>
      pit_live ?s2 q = (if q = p then pit_live ?s p - set_option ?u - set_option ?g else pit_live ?s q)" for q
  proof (cases "?g = ?u")
    case True
    then show ?thesis using r1 by (simp add: Remove_idem)
  next
    case False
    then have "set_option ?g \<subseteq> Collect (past_id ?s1) \<union> pit_live ?s1 p" using g r1(2) [of p] by (cases ?g; cases ?u) auto
    from Remove_pit [OF r1(1) this] show ?thesis using r1 by auto
  qed
  have "kinv env {p} X (k\<lparr>kf_sim := ?s2, kf_pits := fmupd p ?e' (kf_pits k)\<rparr>)"
  proof (rule kinv_set_pit [OF _ e(1)])
    show "kinv env P X k" using assms(1) by (simp add: kite_ok_def)
    show "pit_timer_ok {p} ?s2 p ?e'" using two l by (auto simp: pit_timer_ok_def stored_timers_def)
  qed (use two assms(3) in auto)
  then show ?thesis
    using assms(1) attached_set_pit [OF e(1), of ?e' ?s2] e
    by (simp add: cancelUnsatisfyAndStragglerTimer_def kite_cancel_def on_pit_def kite_ok_def)
qed

lemma setTimer_ok:
  assumes "kite_ok env {p} X A k" and "p \<in> A" and "fmlookup (kf_pits k) p = Some e" and "0 \<le> d" and "act_pit a = Some p"
    and "np_nte e' = np_nte e" "np_interest e' = np_interest e"
    and "fst (Schedule d a (kf_sim k)) \<in> stored_timers e'" "stored_timers e' \<subseteq> insert (fst (Schedule d a (kf_sim k))) (stored_timers e)"
  shows "kite_ok env {} X A (k\<lparr>kf_sim := snd (Schedule d a (kf_sim k)), kf_pits := fmupd p e' (kf_pits k)\<rparr>)"
proof -
  let ?s = "kf_sim k"
  have t: "pit_timer_ok {p} ?s p e" "sim_ok ?s" "np_nte e \<noteq> None" using kite_ok_entry [OF assms(1,2)] assms(3) by force+
  have "tib_live (snd (Schedule d a ?s)) = tib_live ?s" using assms(5) by (auto simp: fun_eq_iff Schedule_tib_live)
  moreover have "pit_timer_ok {} (snd (Schedule d a ?s)) p e'"
    using assms t by (auto simp: pit_timer_ok_def Schedule_pit_live)
  ultimately have "kinv env {} X (k\<lparr>kf_sim := snd (Schedule d a ?s), kf_pits := fmupd p e' (kf_pits k)\<rparr>)"
    using assms(1) t(2) by (intro kinv_set_pit [OF _ assms(3) assms(6,7)])
      (auto simp: kite_ok_def sim_ok_Schedule assms(4,5) Schedule_pit_live fun_eq_iff)
  then show ?thesis using assms(1) attached_set_pit [OF assms(3,6)] by (simp add: kite_ok_def)
qed

lemma past_stored: "kite_ok env {p} X A k \<Longrightarrow> p \<in> A \<Longrightarrow> fmlookup (kf_pits k) p = Some e \<Longrightarrow> stored_timers e \<subseteq> Collect (past_id (kf_sim k))"
  by (erule (1) kite_ok_entry) (auto simp: pit_timer_ok_def)

lemma setStragglerTimer_ok:
  assumes "kite_ok env {p} X A k" and "p \<in> A"
  shows "safe {} (kite_ok env {} X A) (setStragglerTimer p sat fresh k)"
proof -
  obtain e where e: "fmlookup (kf_pits k) p = Some e" "pit_at p k = Inr e" using kite_ok_entry [OF assms] by metis
  have "Remove (np_stragglerTimer e) (kf_sim k) = kf_sim k"
    using past_stored [OF assms e(1)] by (intro Remove_pasts) (auto simp: stored_timers_def)
  with e setTimer_ok [OF assms e(1), of 100000000 "Finalize p sat fresh"
      "e\<lparr>np_stragglerTimer := Some (fst (Schedule 100000000 (Finalize p sat fresh) (kf_sim k)))\<rparr>"]
  show ?thesis
    by (simp add: setStragglerTimer_def kite_cancel_def kite_schedule_def on_pit_def case_prod_unfold stored_timers_def Let_def subset_insertI2)
qed

lemma lastExpiry_ge: "r \<in> set (np_in e) \<Longrightarrow> \<exists>t. lastExpiry e = Inr t \<and> inr_expiry r \<le> t"
proof -
  have "t0 \<le> fold (\<lambda>x m. if m < inr_expiry x then inr_expiry x else m) rs t0 \<and>
      (\<forall>r \<in> set rs. inr_expiry r \<le> fold (\<lambda>x m. if m < inr_expiry x then inr_expiry x else m) rs t0)" for rs t0
  proof (induction rs arbitrary: t0)
    case (Cons x rs)
    from Cons.IH [of "if t0 < inr_expiry x then inr_expiry x else t0"] show ?case by (auto split: if_splits)
  qed simp
  then show "r \<in> set (np_in e) \<Longrightarrow> ?thesis" by (cases "np_in e") (auto simp: lastExpiry_def)
qed

lemma setUnsatisfyTimer_ok:
  assumes "kite_ok env {p} X A k" and "p \<in> A"
    and "\<And>e. fmlookup (kf_pits k) p = Some e \<Longrightarrow> \<exists>r \<in> set (np_in e). kite_now k \<le> inr_expiry r"
  shows "safe {} (kite_ok env {} X A) (setUnsatisfyTimer p k)"
proof -
  obtain e where e: "fmlookup (kf_pits k) p = Some e" "pit_at p k = Inr e" using kite_ok_entry [OF assms(1,2)] by metis
  obtain t where t: "lastExpiry e = Inr t" "kite_now k \<le> t" using assms(3) [OF e(1)] lastExpiry_ge [of _ e] by force
  have "Remove (np_unsatisfyTimer e) (kf_sim k) = kf_sim k"
    using past_stored [OF assms(1,2) e(1)] by (intro Remove_pasts) (auto simp: stored_timers_def)
  with e t setTimer_ok [OF assms(1,2) e(1), of "t - kite_now k" "Unsatisfied p"
      "e\<lparr>np_unsatisfyTimer := Some (fst (Schedule (t - kite_now k) (Unsatisfied p) (kf_sim k)))\<rparr>"]
  show ?thesis
    by (simp add: setUnsatisfyTimer_def kite_cancel_def kite_schedule_def on_pit_def case_prod_unfold stored_timers_def kite_now_def Let_def subset_insertI2)
qed

section \<open>Entries of the PIT\<close>

lemma mset_swap_remove: "x \<in> set xs \<Longrightarrow> mset (swap_remove x xs) = mset xs - {#x#}"
proof -
  assume "x \<in> set xs"
  then obtain us vs where xs: "xs = us @ x # vs" "x \<notin> set us" by (meson split_list_first)
  then have "takeWhile (\<lambda>y. y \<noteq> x) xs = us" "dropWhile (\<lambda>y. y \<noteq> x) xs = x # vs" by (auto simp: takeWhile_append dropWhile_append)
  then have "swap_remove x xs = butlast (us @ last xs # vs)" by (simp add: swap_remove_def)
  then show ?thesis using xs(1) by (cases vs rule: rev_cases) (simp_all add: butlast_append)
qed

lemma swap_remove_set:
  assumes "distinct xs" and "x \<in> set xs"
  shows "distinct (swap_remove x xs)" and "set (swap_remove x xs) = set xs - {x}"
proof -
  have m: "mset (swap_remove x xs) = mset (remove1 x xs)" using mset_swap_remove [OF assms(2)] by simp
  show "distinct (swap_remove x xs)" using assms(1) mset_eq_imp_distinct_iff [OF m] by simp
  show "set (swap_remove x xs) = set xs - {x}" using assms(1) mset_eq_setD [OF m] by simp
qed

lemma kinv_detach:
  assumes "kinv env {p} X k" and e: "fmlookup (kf_pits k) p = Some e" "np_nte e = Some n"
  shows "kinv env {} X (on_pit p (\<lambda>e. e\<lparr>np_nte := None\<rparr>) (on_table n (\<lambda>t. t\<lparr>te_pits := swap_remove p (te_pits t)\<rparr>) k))"
    (is "kinv env {} X ?k")
proof -
  have ok: "sim_ok (kf_sim k)" "tables_ok env k" "pit_timers {p} k" "tib_timers X k" using assms(1) by (simp_all add: kinv_def)
  have p: "p \<in> set (te_pits (table_at k n))" "distinct (te_pits (table_at k n))" using ok(2) e by (auto simp: tables_ok_def)
  then have n: "n \<in> ht_names (kf_tree k)" by (intro attached_name) auto
  have tab: "table_at ?k m = (if m = n then (table_at k n)\<lparr>te_pits := swap_remove p (te_pits (table_at k n))\<rparr> else table_at k m)" for m
    using n by (simp add: table_at_on_table)
  have here: "fmlookup (kf_pits ?k) q = (if q = p then Some (e\<lparr>np_nte := None\<rparr>) else fmlookup (kf_pits k) q)" for q
    using e by (simp add: lookup_on_pit)
  have mem: "q \<in> set (te_pits (table_at ?k m)) \<longleftrightarrow> (\<exists>x. fmlookup (kf_pits ?k) q = Some x \<and> np_nte x = Some m)" for m q
    using ok(2) e p swap_remove_set [OF p(2,1)] unfolding tab here by (auto simp: tables_ok_def)
  have "tables_ok env ?k"
    unfolding tables_ok_def mem
  proof (intro conjI)
    show "\<forall>n. distinct (te_pits (table_at ?k n))" using ok(2) swap_remove_set [OF p(2,1)] unfolding tab by (auto simp: tables_ok_def)
    show "\<forall>q x. fmlookup (kf_pits ?k) q = Some x \<longrightarrow> pit_entry_ok (kf_next ?k) q x"
      using ok(2) e by (auto simp: here tables_ok_def pit_entry_ok_def np_name_def)
  qed (use ok(2) in \<open>unfold tab, auto simp: tables_ok_def\<close>)
  moreover have "pit_timers {} ?k"
  proof -
    have "pit_timer_ok {} (kf_sim k) p (e\<lparr>np_nte := None\<rparr>)"
      using ok(3) e(1) by (auto simp: pit_timers_def pit_timer_ok_def stored_timers_def dest!: spec [of _ p])
    moreover have "pit_timer_ok {} (kf_sim k) q x = pit_timer_ok {p} (kf_sim k) q x" if "q \<noteq> p" for q x
      using that by (simp add: pit_timer_ok_def)
    ultimately show ?thesis using ok(3) e by (auto simp: pit_timers_def here)
  qed
  moreover have "tib_timers X ?k" using ok(4) by (simp add: tib_timers_def)
  ultimately show ?thesis using ok(1) by (simp add: kinv_def)
qed

lemma nfd_pit_erase_ok:
  assumes "kite_ok env {p} X A k" and "p \<in> A"
  shows "safe {} (kinv env {} X) (nfd_pit_erase p k)"
proof -
  obtain e where e: "fmlookup (kf_pits k) p = Some e" "pit_at p k = Inr e" "np_nte e = Some (nte_name (np_name e))"
    using kite_ok_entry [OF assms] by metis
  then show ?thesis
    using assms(1) by (simp add: nfd_pit_erase_def Let_def kite_ok_def kinv_erase_nte kinv_detach)
qed

lemma kinv_attach:
  assumes "kinv env {} X k" and "interest_fine i" and "n = nte_name (ni_name i)" and "n \<in> ht_names (kf_tree k)"
  defines "e \<equiv> \<lparr>np_interest = i, np_in = [], np_out = [], np_unsatisfyTimer = None, np_stragglerTimer = None, np_nte = Some n\<rparr>"
  shows "kinv env {kf_next k} X (on_table n (\<lambda>t. t\<lparr>te_pits := te_pits t @ [kf_next k]\<rparr>)
      (k\<lparr>kf_pits := fmupd (kf_next k) e (kf_pits k), kf_next := kf_next k + 1, kf_nPit := m\<rparr>))" (is "kinv env {?p} X ?k")
proof -
  have ok: "sim_ok (kf_sim k)" "tables_ok env k" "pit_timers {} k" "tib_timers X k" using assms(1) by (simp_all add: kinv_def)
  have fresh: "fmlookup (kf_pits k) ?p = None" using ok(2) by (fastforce simp: tables_ok_def pit_entry_ok_def)
  then have no: "pit_live (kf_sim k) ?p = {}" "?p \<notin> set (te_pits (table_at k m))" for m
    using ok(2,3) by (auto simp: tables_ok_def pit_timers_def)
  have tab: "table_at ?k m = (if m = n then (table_at k n)\<lparr>te_pits := te_pits (table_at k n) @ [?p]\<rparr> else table_at k m)" for m
    using assms(4) by (simp add: table_at_on_table)
  have here: "fmlookup (kf_pits ?k) q = (if q = ?p then Some e else fmlookup (kf_pits k) q)" for q by simp
  have mem: "q \<in> set (te_pits (table_at ?k m)) \<longleftrightarrow> (\<exists>x. fmlookup (kf_pits ?k) q = Some x \<and> np_nte x = Some m)" for m q
    using ok(2) fresh unfolding tab here by (auto simp: tables_ok_def e_def)
  have "tables_ok env ?k"
    unfolding tables_ok_def mem
  proof (intro conjI)
    show "\<forall>n. distinct (te_pits (table_at ?k n))" using ok(2) no(2) unfolding tab by (auto simp: tables_ok_def)
    show "\<forall>q x. fmlookup (kf_pits ?k) q = Some x \<longrightarrow> pit_entry_ok (kf_next ?k) q x"
      using ok(2) assms(2,3) by (auto simp: here e_def tables_ok_def pit_entry_ok_def np_name_def intro: less_SucI)
    show "\<forall>a x. fmlookup (kf_tibs ?k) a = Some x \<longrightarrow> te_tib (table_at ?k (tb_nte x)) = Some a \<and>
        tb_prefix x = tb_nte x \<and> length (tb_hops x) \<le> 1 \<and> a < kf_next ?k"
      using ok(2) unfolding tab by (auto simp: tables_ok_def intro: less_SucI)
  qed (use ok(2) in \<open>unfold tab, auto simp: tables_ok_def\<close>)
  moreover have "pit_timers {?p} ?k"
    using ok(3) fresh no(1) by (auto simp: pit_timers_def here pit_timer_ok_def stored_timers_def e_def)
  moreover have "tib_timers X ?k" using ok(4) by (simp add: tib_timers_def)
  ultimately show ?thesis using ok(1) by (simp add: kinv_def)
qed

lemma nfd_pit_insert_ok:
  assumes "kinv env {} X k" and "interest_fine i" and "nfd_pit_insert env i k = ((p, new), k')"
  shows "kite_ok env (if new then {p} else {}) X {p} k'"
    and "new \<Longrightarrow> \<exists>e. pit_at p k' = Inr e \<and> np_in e = [] \<and> np_out e = []"
proof -
  let ?n = "nte_name (ni_name i)" let ?k = "lookup_nte env ?n k"
  have k: "kinv env {} X ?k" by (rule kinv_lookup_nte [OF assms(1)])
  have n: "?n \<in> ht_names (kf_tree ?k)"
    using assms(1) by (simp add: lookup_nte_def kinv_def tables_ok_def nt_lookup_ok(2))
  have "kite_ok env (if new then {p} else {}) X {p} k' \<and> (new \<longrightarrow> (\<exists>e. pit_at p k' = Inr e \<and> np_in e = [] \<and> np_out e = []))"
  proof (cases "pit_search i ?k")
    case None
    then show ?thesis
      using assms(3) kinv_attach [OF k assms(2) refl n]
      by (auto simp: nfd_pit_insert_def Let_def kite_ok_def attached_def on_table_def pit_at_def)
  next
    case (Some q)
    then have "q \<in> set (te_pits (table_at ?k ?n))" by (auto simp: pit_search_def Let_def find_Some_iff)
    then have "q \<in> attached ?k" using k by (auto simp: kinv_def tables_ok_def attached_def)
    then show ?thesis using Some assms(3) k by (auto simp: nfd_pit_insert_def Let_def kite_ok_def)
  qed
  then show "kite_ok env (if new then {p} else {}) X {p} k'" "new \<Longrightarrow> \<exists>e. pit_at p k' = Inr e \<and> np_in e = [] \<and> np_out e = []"
    by simp_all
qed

section \<open>Entries of the TIB\<close>

lemma kite_ok_tib:
  assumes "kite_ok env P X A k" and "fmlookup (kf_tibs k) a = Some e"
  shows "tib_at a k = Inr e" and "te_tib (table_at k (tb_nte e)) = Some a" and "tb_prefix e = tb_nte e" and "a < kf_next k"
    and "tb_hops e = [] \<or> (\<exists>h. tb_hops e = [h] \<and> hop_timer_ok X (kf_sim k) a h)" and "sim_ok (kf_sim k)"
    and "f \<notin> th_face ` set (tb_hops e) \<Longrightarrow> tib_live (kf_sim k) a f = {}"
proof -
  have "length (tb_hops e) \<le> 1" "list_all (hop_timer_ok X (kf_sim k) a) (tb_hops e)"
    using assms by (simp_all add: kite_ok_def kinv_def tables_ok_def tib_timers_def)
  then show "tb_hops e = [] \<or> (\<exists>h. tb_hops e = [h] \<and> hop_timer_ok X (kf_sim k) a h)" by (cases "tb_hops e") auto
qed (use assms in \<open>simp_all add: kite_ok_def kinv_def tables_ok_def tib_timers_def tib_at_def\<close>)

lemma tables_ok_tib: "tables_ok env k \<Longrightarrow> te_tib (table_at k n) = Some a \<Longrightarrow> \<exists>e. fmlookup (kf_tibs k) a = Some e \<and> tb_nte e = n"
  by (simp add: tables_ok_def)

lemma kite_ok_set_tib:
  assumes "kite_ok env P X A k" and "fmlookup (kf_tibs k) a = Some e"
    and "tb_nte e' = tb_nte e" "tb_prefix e' = tb_prefix e" "length (tb_hops e') \<le> 1"
    and "sim_ok s'" "past_id s' = past_id (kf_sim k)" "pit_live s' = pit_live (kf_sim k)"
    and "\<And>b f. b \<noteq> a \<Longrightarrow> tib_live s' b f = tib_live (kf_sim k) b f" and "X \<union> X' \<subseteq> {a} \<times> UNIV"
    and "list_all (hop_timer_ok X' s' a) (tb_hops e')" and "\<And>f. f \<notin> th_face ` set (tb_hops e') \<Longrightarrow> tib_live s' a f = {}"
  shows "kite_ok env P X' A (set_tib a e' (k\<lparr>kf_sim := s'\<rparr>))"
proof -
  have "(b, f) \<in> X' \<longleftrightarrow> (b, f) \<in> X" if "b \<noteq> a" for b f using assms(10) that by auto
  then have "kinv env P X' (k\<lparr>kf_sim := s', kf_tibs := fmupd a e' (kf_tibs k)\<rparr>)"
    using assms(1) by (intro kinv_set_tib [OF _ assms(2-9) _ assms(11,12)]) (simp_all add: kite_ok_def)
  then show ?thesis using assms(1) by (simp add: kite_ok_def set_tib_def)
qed

lemma tib_insert_ok:
  assumes "kite_ok env P X A k" and "tib_insert env n k = (a, k')"
  shows "kite_ok env P X A k' \<and> (\<exists>e. fmlookup (kf_tibs k') a = Some e)"
proof -
  let ?k = "lookup_nte env n k"
  have ok: "kinv env P X ?k" using assms(1) by (simp add: kite_ok_def kinv_lookup_nte)
  have n: "n \<in> ht_names (kf_tree ?k)"
    using assms(1) by (simp add: lookup_nte_def kite_ok_def kinv_def tables_ok_def nt_lookup_ok(2))
  have A: "A \<subseteq> attached ?k" using assms(1) by (simp add: kite_ok_def lookup_nte_def)
  show ?thesis
  proof (cases "te_tib (table_at ?k n)")
    case (Some b)
    then have "a = b" "k' = ?k" using assms(2) by (simp_all add: tib_insert_def Let_def)
    then show ?thesis using tables_ok_tib [of env ?k n b] Some ok A by (auto simp: kite_ok_def kinv_def)
  next
    case None
    let ?e = "\<lparr>tb_prefix = n, tb_hops = [], tb_seq = 0, tb_nte = n\<rparr>"
    have k': "k' = (on_table n (\<lambda>t. t\<lparr>te_tib := Some a\<rparr>) (set_tib a ?e ?k))\<lparr>kf_next := a + 1, kf_nTib := incr (kf_nTib ?k)\<rparr>"
      and a: "a = kf_next ?k"
      using None assms(2) by (auto simp: tib_insert_def Let_def set_tib_def on_table_def)
    have "kite_ok env P X A ?k" using ok A by (simp add: kite_ok_def)
    then have fresh: "fmlookup (kf_tibs ?k) a = None" using kite_ok_tib(4) [of env P X A ?k a] a by (cases "fmlookup (kf_tibs ?k) a") auto
    have tab: "table_at k' m = (if m = n then (table_at ?k n)\<lparr>te_tib := Some a\<rparr> else table_at ?k m)" for m
      using n by (simp add: k' table_at_on_table set_tib_def)
    have here: "fmlookup (kf_tibs k') b = (if b = a then Some ?e else fmlookup (kf_tibs ?k) b)" for b by (simp add: k' set_tib_def)
    have rest: "kf_pits k' = kf_pits ?k" "kf_sim k' = kf_sim ?k" "kf_next k' = Suc a" "nt_ok (ke_hash env) (kf_tree k')"
      using ok by (simp_all add: k' set_tib_def kinv_def tables_ok_def)
    have t: "tables_ok env ?k" using ok by (simp add: kinv_def)
    have "tables_ok env k'"
      unfolding tables_ok_def
    proof (intro conjI)
      show "\<forall>m b. te_tib (table_at k' m) = Some b \<longrightarrow> (\<exists>e. fmlookup (kf_tibs k') b = Some e \<and> tb_nte e = m)"
        using fresh by (auto simp: tab here dest: tables_ok_tib [OF t])
      show "\<forall>b e. fmlookup (kf_tibs k') b = Some e \<longrightarrow>
        te_tib (table_at k' (tb_nte e)) = Some b \<and> tb_prefix e = tb_nte e \<and> length (tb_hops e) \<le> 1 \<and> b < kf_next k'"
        using t None a by (auto simp: tables_ok_def tab here rest less_SucI)
      show "\<forall>p e. fmlookup (kf_pits k') p = Some e \<longrightarrow> pit_entry_ok (kf_next k') p e"
        using t a by (auto simp: tables_ok_def rest pit_entry_ok_def less_SucI)
    qed (use t rest(4) in \<open>auto simp: tables_ok_def tab rest\<close>)
    moreover have "tib_timers X k'" using ok fresh by (auto simp: kinv_def tib_timers_def here rest)
    ultimately have "kinv env P X k'" using ok by (simp add: kinv_def pit_timers_def rest)
    then show ?thesis using A by (simp add: kite_ok_def attached_def rest here)
  qed
qed

lemma cancel_hop:
  assumes "kite_ok env P X A k" and "fmlookup (kf_tibs k) a = Some e" and "tb_hops e = [h]" and "f = th_face h" and "X \<subseteq> {(a, f)}"
  shows "set_option (th_timer h) \<subseteq> Collect (past_id (kf_sim k)) \<union> tib_live (kf_sim k) a f" and "tib_live (kf_sim k) a f \<subseteq> set_option (th_timer h)"
proof -
  have "hop_timer_ok X (kf_sim k) a h" using kite_ok_tib(5) [OF assms(1,2)] assms(3) by simp
  then have "set_option (th_timer h) \<subseteq> Collect (past_id (kf_sim k)) \<union> tib_live (kf_sim k) a f \<and> tib_live (kf_sim k) a f \<subseteq> set_option (th_timer h)"
    unfolding hop_timer_ok_def assms(4) by (cases "(a, th_face h) \<in> X") (simp add: le_supI1, force)
  then show "set_option (th_timer h) \<subseteq> Collect (past_id (kf_sim k)) \<union> tib_live (kf_sim k) a f"
    "tib_live (kf_sim k) a f \<subseteq> set_option (th_timer h)" by simp_all
qed

lemma tib_addNextHop_ok:
  assumes "kite_ok env P {} A k" and "fmlookup (kf_tibs k) a = Some e"
  shows "safe {} (\<lambda>k'. kite_ok env P {(a, f)} A k' \<and> (\<exists>e' h. fmlookup (kf_tibs k') a = Some e' \<and> tb_hops e' = [h] \<and> th_face h = f))
    (tib_addNextHop a f cost k)"
proof -
  let ?e = "e\<lparr>tb_hops := [\<lparr>th_face = f, th_cost = cost, th_timer = None\<rparr>]\<rparr>" and ?s = "kf_sim k"
  note t = kite_ok_tib [OF assms]
  have "\<exists>s'. cancel_hops (tb_hops e) k = k\<lparr>kf_sim := s'\<rparr> \<and> sim_ok s' \<and> past_id s' = past_id ?s \<and> pit_live s' = pit_live ?s \<and>
      (\<forall>b g. tib_live s' b g = (if b = a then {} else tib_live ?s b g))"
  proof (cases "tb_hops e")
    case Nil
    then show ?thesis using t(6,7) by (intro exI [of _ ?s]) auto
  next
    case (Cons h hs)
    with t(5) have h: "tb_hops e = [h]" by auto
    note c = cancel_hop [OF assms h refl empty_subsetI]
    show ?thesis
      using Remove_tib [OF t(6) c(1)] c(2) t(7) h by (intro exI [of _ "Remove (th_timer h) ?s"]) (auto simp: kite_cancel_def)
  qed
  then obtain s' where s': "cancel_hops (tb_hops e) k = k\<lparr>kf_sim := s'\<rparr>" "sim_ok s'" "past_id s' = past_id ?s" "pit_live s' = pit_live ?s"
      "\<And>b g. tib_live s' b g = (if b = a then {} else tib_live ?s b g)" by blast
  have "kite_ok env P {(a, f)} A (set_tib a ?e (k\<lparr>kf_sim := s'\<rparr>))"
    by (rule kite_ok_set_tib [OF assms]) (use s' in \<open>auto simp: hop_timer_ok_def\<close>)
  then show ?thesis using s'(1) t(1) by (simp add: tib_addNextHop_def set_tib_def)
qed

text \<open>A new timer for a hop takes the place of the one that it has.\<close>

lemma setNextHopTimer_ok:
  assumes "kite_ok env P X A k" and "fmlookup (kf_tibs k) a = Some e" and "tb_hops e = [h]" and "th_face h = f" and "X \<subseteq> {(a, f)}" and "0 \<le> d"
    and "kite_schedule d (TibTimeout a f) k = (i, k1)"
  shows "safe {} (kite_ok env P {} A) (setNextHopTimer a f i k1)"
proof -
  let ?s = "kf_sim k" let ?s1 = "snd (Schedule d (TibTimeout a f) ?s)"
  let ?s2 = "Remove (th_timer h) ?s1" and ?e = "e\<lparr>tb_hops := [h\<lparr>th_timer := Some i\<rparr>]\<rparr>"
  note t = kite_ok_tib [OF assms(1,2)] and c = cancel_hop [OF assms(1-3) assms(4) [symmetric] assms(5)]
  have i: "i = fst (Schedule d (TibTimeout a f) ?s)" "k1 = k\<lparr>kf_sim := ?s1\<rparr>"
    using assms(7) by (auto simp: kite_schedule_def case_prod_unfold Let_def)
  have s1: "sim_ok ?s1" using t(6) assms(6) by (simp add: sim_ok_Schedule)
  have live: "tib_live ?s1 b g = (if b = a \<and> g = f then insert i (tib_live ?s a f) else tib_live ?s b g)" "pit_live ?s1 = pit_live ?s" for b g
    by (auto simp: Schedule_tib_live Schedule_pit_live i(1) fun_eq_iff)
  have "i \<notin> set_option (th_timer h)"
  proof
    assume "i \<in> set_option (th_timer h)"
    with c(1) have "past_id ?s1 i \<or> i \<in> tib_live ?s a f" by auto
    moreover have "(TibTimeout a f, i) \<in> live_timers ?s1" using i(1) by (simp add: live_timers_Schedule)
    ultimately show False using live_not_past [OF s1] Schedule_fresh [OF t(6)] i(1) by (auto simp: tib_live_def)
  qed
  moreover have "set_option (th_timer h) \<subseteq> Collect (past_id ?s1) \<union> tib_live ?s1 a f" using c(1) live(1) [of a f] by auto
  note r = Remove_tib [OF s1 this]
  ultimately have "tib_live ?s2 b g = (if b = a \<and> g = f then {i} else tib_live ?s b g)" for b g
    using r(3) [of b g] live(1) [of b g] live(1) [of a f] c(2) by auto
  moreover have "past_id ?s2 = past_id ?s" by (simp add: fun_eq_iff)
  ultimately have "kite_ok env P {} A (set_tib a ?e (k\<lparr>kf_sim := ?s2\<rparr>))"
    using r live(2) t(7) assms(3-5) by (intro kite_ok_set_tib [OF assms(1,2)]) (auto simp: hop_timer_ok_def)
  moreover have "tib_at a k1 = Inr e" using assms(2) i(2) by (simp add: tib_at_def)
  ultimately show ?thesis
    using i(2) assms(3,4) by (simp add: setNextHopTimer_def tib_findNextHop_def set_hop_timer_def kite_cancel_def)
qed

lemma fmupd_same: "fmlookup m a = Some e \<Longrightarrow> fmupd a e m = m"
  by (rule fmap_ext) auto

lemma cancelNextHopTimer_ok:
  assumes "kite_ok env P X A k" and "fmlookup (kf_tibs k) a = Some e" and "X \<subseteq> {(a, f)}"
  shows "safe {} (\<lambda>k'. kite_ok env P {(a, f)} A k' \<and> fmlookup (kf_tibs k') a = Some (set_hop_timer f None e)) (cancelNextHopTimer a f k)"
proof -
  let ?s = "kf_sim k"
  note t = kite_ok_tib [OF assms(1,2)]
  show ?thesis
  proof (cases "tib_findNextHop f e")
    case None
    then have no: "f \<notin> th_face ` set (tb_hops e)" by (auto simp: tib_findNextHop_def find_None_iff)
    have "list_all (hop_timer_ok {(a, f)} ?s a) (tb_hops e)" using t(5) no assms(3) by (auto simp: hop_timer_ok_def split: if_splits)
    then have "kite_ok env P {(a, f)} A (set_tib a e (k\<lparr>kf_sim := ?s\<rparr>))"
      using t assms(3) by (intro kite_ok_set_tib [OF assms(1,2)]) auto
    moreover have "set_tib a e (k\<lparr>kf_sim := ?s\<rparr>) = k" using fmupd_same [OF assms(2)] by (simp add: set_tib_def)
    ultimately show ?thesis using None t(1) assms(2) by (simp add: cancelNextHopTimer_def set_hop_timer_def)
  next
    case (Some h)
    then have h: "tb_hops e = [h]" "th_face h = f" using t(5) by (auto simp: tib_findNextHop_def split: if_splits)
    note c = cancel_hop [OF assms(1,2) h(1) h(2) [symmetric] assms(3)]
    note r = Remove_tib [OF t(6) c(1)]
    have "kite_ok env P {(a, f)} A (set_tib a (set_hop_timer f None e) (k\<lparr>kf_sim := Remove (th_timer h) ?s\<rparr>))"
      using r c(2) t(7) h assms(3)
      by (intro kite_ok_set_tib [OF assms(1,2)]) (auto simp: set_hop_timer_def Some hop_timer_ok_def)
    then show ?thesis using Some t(1) by (simp add: cancelNextHopTimer_def kite_cancel_def set_tib_def)
  qed
qed

lemma tib_erase_ok:
  assumes "kite_ok env P {} A k" and "fmlookup (kf_tibs k) a = Some e" and "tb_hops e = []"
  shows "kite_ok env P {} A (tib_erase (tb_nte e) False k)" (is "kite_ok _ _ _ _ ?k")
proof -
  note t = kite_ok_tib [OF assms(1,2)]
  have ok: "tables_ok env k" "pit_timers P k" "tib_timers {} k" using assms(1) by (simp_all add: kite_ok_def kinv_def)
  have n: "tb_nte e \<in> ht_names (kf_tree k)" using t(2) by (intro attached_name) auto
  have tab: "table_at ?k m = (if m = tb_nte e then (table_at k m)\<lparr>te_tib := None\<rparr> else table_at k m)" for m
    using n t(2) by (simp add: tib_erase_def Let_def table_at_on_table)
  have here: "fmlookup (kf_tibs ?k) b = (if b = a then None else fmlookup (kf_tibs k) b)" for b
    using t(2) by (simp add: tib_erase_def Let_def)
  have rest: "kf_pits ?k = kf_pits k" "kf_sim ?k = kf_sim k" "kf_next ?k = kf_next k" "nt_ok (ke_hash env) (kf_tree ?k)" "attached ?k = attached k"
    using ok(1) t(2) by (simp_all add: tib_erase_def Let_def tables_ok_def attached_def)
  have "tables_ok env ?k"
    unfolding tables_ok_def
  proof (intro conjI)
    show "\<forall>m b. te_tib (table_at ?k m) = Some b \<longrightarrow> (\<exists>e. fmlookup (kf_tibs ?k) b = Some e \<and> tb_nte e = m)"
      using assms(2) by (auto simp: tab here dest: tables_ok_tib [OF ok(1)])
    show "\<forall>b x. fmlookup (kf_tibs ?k) b = Some x \<longrightarrow>
        te_tib (table_at ?k (tb_nte x)) = Some b \<and> tb_prefix x = tb_nte x \<and> length (tb_hops x) \<le> 1 \<and> b < kf_next ?k"
    proof (intro allI impI)
      fix b x
      assume "fmlookup (kf_tibs ?k) b = Some x"
      then have x: "b \<noteq> a" "fmlookup (kf_tibs k) b = Some x" by (simp_all add: here split: if_splits)
      note d = kite_ok_tib [OF assms(1) x(2)]
      have "tb_nte x \<noteq> tb_nte e" using d(2) t(2) x(1) by auto
      then show "te_tib (table_at ?k (tb_nte x)) = Some b \<and> tb_prefix x = tb_nte x \<and> length (tb_hops x) \<le> 1 \<and> b < kf_next ?k"
        using d by (auto simp: tab rest)
    qed
  qed (use ok(1) rest(4) in \<open>auto simp: tables_ok_def tab rest\<close>)
  moreover have "tib_timers {} ?k" using ok(3) t(7) assms(3) by (auto simp: tib_timers_def here rest)
  ultimately show ?thesis using assms(1) ok(2) t(6) by (simp add: kite_ok_def kinv_def pit_timers_def rest)
qed

lemma remaining_hops:
  assumes "tb_hops e = [] \<or> (\<exists>h. tb_hops e = [h] \<and> hop_timer_ok {(a, f)} s a h)"
    and "\<And>g. g \<notin> th_face ` set (tb_hops e) \<Longrightarrow> tib_live s a g = {}"
    and "hops = (case tib_findNextHop f e of None \<Rightarrow> tb_hops e | Some h \<Rightarrow> remove1 h (tb_hops e))"
  shows "(hops = [] \<or> hops = tb_hops e) \<and> length hops \<le> 1 \<and> list_all (hop_timer_ok {} s a) hops \<and>
    (\<forall>g. g \<notin> th_face ` set hops \<longrightarrow> tib_live s a g = {})"
  using assms(1)
proof (elim disjE exE conjE)
  assume "tb_hops e = []"
  then show ?thesis using assms(2,3) by (simp add: tib_findNextHop_def)
next
  fix h
  assume h: "tb_hops e = [h]" "hop_timer_ok {(a, f)} s a h"
  show ?thesis
  proof (cases "th_face h = f")
    case True
    then have "hops = []" using h assms(3) by (simp add: tib_findNextHop_def)
    moreover have "tib_live s a g = {}" for g using h True assms(2) [of g] by (cases "g = f") (simp_all add: hop_timer_ok_def)
    ultimately show ?thesis by simp
  next
    case False
    then have "hops = [h]" using h assms(3) by (simp add: tib_findNextHop_def)
    then show ?thesis using h False assms(2) by (simp add: hop_timer_ok_def)
  qed
qed

lemma tib_removeNextHop_ok:
  assumes "kite_ok env P X A k" and "fmlookup (kf_tibs k) a = Some e" and "X \<subseteq> {(a, f)}"
  shows "safe {} (kite_ok env P {} A) (tib_removeNextHop a f k)"
proof -
  let ?e = "set_hop_timer f None e"
  let ?hops = "case tib_findNextHop f ?e of None \<Rightarrow> tb_hops ?e | Some h \<Rightarrow> remove1 h (tb_hops ?e)"
  let ?e2 = "if ?hops = [] then ?e\<lparr>tb_hops := ?hops, tb_seq := 0\<rparr> else ?e\<lparr>tb_hops := ?hops\<rparr>"
  have "safe {} (\<lambda>k2. kite_ok env P {} A k2 \<and> (\<exists>e2. fmlookup (kf_tibs k2) a = Some e2)) (tib_entry_removeNextHop a f k)"
    unfolding tib_entry_removeNextHop_def
  proof (rule safe_bind [OF cancelNextHopTimer_ok [OF assms]])
    fix k1
    assume k1: "kite_ok env P {(a, f)} A k1 \<and> fmlookup (kf_tibs k1) a = Some ?e"
    note t = kite_ok_tib [OF conjunct1 [OF k1] conjunct2 [OF k1]]
    have h: "(?hops = [] \<or> ?hops = tb_hops ?e) \<and> length ?hops \<le> 1 \<and> list_all (hop_timer_ok {} (kf_sim k1) a) ?hops \<and>
        (\<forall>g. g \<notin> th_face ` set ?hops \<longrightarrow> tib_live (kf_sim k1) a g = {})"
      by (rule remaining_hops) (use t(5,7) in blast)+
    have e2: "tb_hops ?e2 = ?hops" "tb_nte ?e2 = tb_nte ?e" "tb_prefix ?e2 = tb_prefix ?e" by simp_all
    have "kite_ok env P {} A (set_tib a ?e2 (k1\<lparr>kf_sim := kf_sim k1\<rparr>))"
      by (rule kite_ok_set_tib [OF conjunct1 [OF k1] conjunct2 [OF k1] e2(2,3)]) (use h t(6) in \<open>unfold e2, simp_all\<close>)
    then show "safe {} (\<lambda>k2. kite_ok env P {} A k2 \<and> (\<exists>e2. fmlookup (kf_tibs k2) a = Some e2))
      (bind_exn (tib_at a k1) (\<lambda>e. let hops = case tib_findNextHop f e of None \<Rightarrow> tb_hops e | Some h \<Rightarrow> remove1 h (tb_hops e);
         e = e\<lparr>tb_hops := hops\<rparr> in Inr (set_tib a (if hops = [] then e\<lparr>tb_seq := 0\<rparr> else e) k1)))"
      unfolding t(1) by (simp add: Let_def set_tib_def)
  qed
  then show ?thesis
    unfolding tib_removeNextHop_def
  proof (rule safe_bind)
    fix k2
    assume "kite_ok env P {} A k2 \<and> (\<exists>e2. fmlookup (kf_tibs k2) a = Some e2)"
    then obtain e2 where k2: "kite_ok env P {} A k2" "fmlookup (kf_tibs k2) a = Some e2" by blast
    then show "safe {} (kite_ok env P {} A) (bind_exn (tib_at a k2) (\<lambda>e. Inr (if tb_hops e = [] then tib_erase (tb_nte e) False k2 else k2)))"
      using kite_ok_tib(1) [OF k2] tib_erase_ok [OF k2] by simp
  qed
qed

end
