(* ===== verification/Kite_Safety.thy ===== *)
theory Kite_Safety
  imports Kite_Invariant
begin

text \<open>
  Every pipeline of the KITE forwarder keeps the invariant and uses no object that is null or destroyed.  The steps of a
  forwarder are packets that arrive, its own events, routes and faces that come and go; the invariant holds in every
  state that they reach.
\<close>

section \<open>Outgoing packets\<close>

lemma kite_ok_fold: "kite_ok env P X A k \<Longrightarrow> (\<And>x k. kite_ok env P X A k \<Longrightarrow> kite_ok env P X A (f x k)) \<Longrightarrow> kite_ok env P X A (fold f xs k)"
  by (induction xs arbitrary: k) simp_all

lemma same_entry_records:
  "same_entry e (insertOrUpdateInRecord now f i e)" "same_entry e (insertOrUpdateOutRecord now f i e)"
  "same_entry e (deleteInRecord f e)" "same_entry e (deleteOutRecord f e)" "same_entry e (set_incoming_nack f r e)"
  "same_entry e (select_in_records d e)" "same_entry e (deleteOutRecord f (e\<lparr>np_in := rs\<rparr>))"
  "same_entry e (deleteOutRecord f (deleteInRecord g e))"
  by (simp_all add: same_entry_def insertOrUpdateInRecord_def insertOrUpdateOutRecord_def deleteInRecord_def deleteOutRecord_def
      set_incoming_nack_def select_in_records_def select_delegation_def Let_def split: option.split)

lemmas kite_ok_record = kite_ok_on_pit [OF _ same_entry_records(1)] kite_ok_on_pit [OF _ same_entry_records(2)]
  kite_ok_on_pit [OF _ same_entry_records(3)] kite_ok_on_pit [OF _ same_entry_records(4)] kite_ok_on_pit [OF _ same_entry_records(5)]
  kite_ok_on_pit [OF _ same_entry_records(6)] kite_ok_on_pit [OF _ same_entry_records(7)] kite_ok_on_pit [OF _ same_entry_records(8)]

lemma insertDeadNonceList_ok:
  "kite_ok env P X A k \<Longrightarrow> p \<in> A \<Longrightarrow> safe E (kite_ok env P X A) (insertDeadNonceList env p sat fresh up k)"
  unfolding insertDeadNonceList_def
  by (rule safe_bind [OF pit_at_ok]) (auto simp: Let_def split: option.split intro: kite_ok_fold)

lemma onOutgoingInterest_ok:
  "kite_ok env P X A k \<Longrightarrow> p \<in> A \<Longrightarrow> safe E (kite_ok env P X A) (onOutgoingInterest env p f i k)"
  unfolding onOutgoingInterest_def
  by (rule safe_bind [OF pit_at_ok]) (auto simp: Let_def intro: kite_ok_fold kite_ok_record)

lemma onOutgoingData_ok: "kite_ok env P X A k \<Longrightarrow> kite_ok env P X A (onOutgoingData env d f k)"
  by (simp add: onOutgoingData_def)

lemma onOutgoingNack_ok:
  assumes "kite_ok env P X A k" and "p \<in> A"
  shows "safe E (kite_ok env P X A) (onOutgoingNack env p r f k)"
proof (cases "f \<in> set (kf_faces k)")
  case True
  show ?thesis unfolding onOutgoingNack_def
    by (simp add: True, rule safe_bind [OF pit_at_ok [OF assms]]) (auto simp: Let_def assms(1) split: option.split intro: kite_ok_record)
qed (simp add: onOutgoingNack_def assms(1))

section \<open>The end of an Interest\<close>

lemma onInterestReject_ok:
  assumes "kite_ok env {} X A k" and "p \<in> A"
  shows "safe {} (kite_ok env {} X A) (onInterestReject p k)"
  unfolding onInterestReject_def
proof (rule safe_bind [OF pit_at_ok [OF assms]], goal_cases)
  case (1 e)
  show ?case using assms safe_bind [OF cancelTimers_ok [OF assms empty_subsetI] setStragglerTimer_ok] by auto
qed

lemma onInterestFinalize_ok:
  assumes "kite_ok env {p} X {p} k"
  shows "safe {} (kinv env {} X) (onInterestFinalize env p sat fresh k)"
  unfolding onInterestFinalize_def
  by (rule safe_bind [OF insertDeadNonceList_ok [OF assms]], simp)
    (rule safe_bind [OF cancelTimers_ok [where A = "{p}"]], assumption, simp_all add: nfd_pit_erase_ok [where A = "{p}"])

section \<open>The strategy\<close>

lemma nte_of_pit_ok: "np_nte e \<noteq> None \<Longrightarrow> safe E (\<lambda>_. True) (nte_of_pit env e k)"
  by (auto simp: nte_of_pit_def split: option.split)

lemma lookupFib_ok:
  assumes "kite_ok env P X A k" and "p \<in> A"
  shows "safe E (\<lambda>(_, k). kite_ok env P X A k) (lookupFib env p k)"
  unfolding lookupFib_def
proof (rule safe_bind [OF pit_at_ok [OF assms]], goal_cases)
  case e: (1 e)
  have "safe E (\<lambda>(_, k). kite_ok env P X A k) (bind_exn (fib_findLongestPrefixMatch_pit env e k) (\<lambda>fe. Inr (fe, k)))"
    unfolding fib_findLongestPrefixMatch_pit_def
    by (rule safe_bind [where Q = "\<lambda>_. True"], rule safe_bind [OF nte_of_pit_ok]) (simp_all add: e assms(1))
  then show ?case
    using e assms(1) kite_ok_record(6) [OF assms(1)]
    by (auto simp: Let_def interest_fine_def link_ok_def split: option.split list.split sum.splits)
qed

lemma flood_ok:
  "kite_ok env P X A k \<Longrightarrow> p \<in> A \<Longrightarrow> safe E (\<lambda>(_, k). kite_ok env P X A k) (flood env inFace i p faces (sent, k))"
proof (induction faces arbitrary: sent k)
  case (Cons f faces)
  then show ?case using safe_bind [OF onOutgoingInterest_ok [OF Cons.prems] Cons.IH [OF _ Cons.prems(2)]] by simp
qed simp

lemma forward_by_fib_ok:
  assumes "kite_ok env {} X A k" and "p \<in> A"
  shows "safe {} (kite_ok env {} X A) (forward_by_fib env inFace i p k)"
  unfolding forward_by_fib_def
proof (rule safe_bind [OF lookupFib_ok [OF assms]], clarify, goal_cases)
  case k1: (1 fe k1)
  have m: "safe {} (kite_ok env {} X A) (map_sum id snd r)" if "safe {} (\<lambda>(_, k). kite_ok env {} X A k) r" for r :: "exn + bool \<times> 'a kite"
    using that by (cases r) auto
  show ?case
    by (rule safe_bind [OF pit_at_ok [OF k1 assms(2)]]) (simp add: Let_def onInterestReject_ok [OF k1 assms(2)] m [OF flood_ok [OF k1 assms(2)]])
qed

lemma tib_lpm_ok:
  assumes "kite_ok env P X A k" and "np_nte e \<noteq> None"
  shows "safe E (\<lambda>ta. \<forall>a. ta = Some a \<longrightarrow> (\<exists>te. fmlookup (kf_tibs k) a = Some te)) (tib_findLongestPrefixMatch env e k)"
  unfolding tib_findLongestPrefixMatch_def
  by (rule safe_bind [OF nte_of_pit_ok [OF assms(2)]])
    (use assms(1) tables_ok_tib in \<open>fastforce simp: kite_ok_def kinv_def split: option.splits\<close>)

lemma afterReceiveInterest_ok:
  assumes "kite_ok env {} X A k" and "p \<in> A"
  shows "safe {} (kite_ok env {} X A) (afterReceiveInterest env inFace i p k)"
  unfolding afterReceiveInterest_def
proof (rule safe_bind [OF pit_at_ok [OF assms]], goal_cases)
  case (1 e)
  then have n: "np_nte e \<noteq> None" by simp
  have t: "safe {} (kite_ok env {} X A) (bind_exn (TraceForwarding env inFace i p te k) (\<lambda>(sent, k).
      if sent then Inr k else forward_by_fib env inFace i p k))" for te
    unfolding TraceForwarding_def
    by (rule safe_bind [OF flood_ok [OF assms]]) (auto simp: forward_by_fib_ok [OF _ assms(2)])
  show ?case
  proof (cases "hasPendingOutRecords (kite_now k) e")
    case False
    show ?thesis
      unfolding if_not_P [OF False]
    proof (rule safe_bind [OF tib_lpm_ok [OF assms(1) n]], goal_cases)
      case (1 ta)
      then show ?case
        by (cases ta) (auto simp: kite_ok_tib(1) [OF assms(1)] forward_by_fib_ok [OF assms] t)
    qed
  qed (simp add: assms(1))
qed

section \<open>Trace information base\<close>

lemma kite_ok_schedule:
  assumes "kite_ok env P X A k" and "act_pit a = None" and "\<And>b f. a \<noteq> TibTimeout b f" and "0 \<le> d"
  shows "kite_ok env P X A (snd (kite_schedule d a k))"
proof -
  let ?s = "kf_sim k" let ?s' = "snd (Schedule d a ?s)"
  have live: "pit_live ?s' = pit_live ?s" "tib_live ?s' = tib_live ?s" "past_id ?s' = past_id ?s"
    using assms(2,3) by (auto simp: fun_eq_iff Schedule_pit_live Schedule_tib_live)
  then have "pit_timer_ok P ?s' = pit_timer_ok P ?s" "hop_timer_ok X ?s' = hop_timer_ok X ?s"
    by (auto simp: pit_timer_ok_def hop_timer_ok_def fun_eq_iff)
  then have "kinv env P X (k\<lparr>kf_sim := ?s'\<rparr>)"
    using assms(1,4) live by (simp add: kite_ok_def kinv_def tables_ok_def pit_timers_def tib_timers_def sim_ok_Schedule)
  then show ?thesis using assms(1) by (simp add: kite_ok_def kite_schedule_def case_prod_unfold Let_def)
qed

lemma pits_schedule [simp]: "kf_pits (snd (kite_schedule d a k)) = kf_pits k"
  by (simp add: kite_schedule_def case_prod_unfold Let_def)

lemma pending_pulls_records: "p \<in> set (pending_pulls f cnt ps k) \<Longrightarrow> \<exists>e. fmlookup (kf_pits k) p = Some e \<and> np_in e \<noteq> []"
  by (induction ps arbitrary: cnt) (auto simp: Let_def pullable_def split: if_splits option.splits)

lemma schedule_pulls_ok:
  "kite_ok env P X A k \<Longrightarrow> \<forall>p \<in> set ps. \<exists>e. fmlookup (kf_pits k) p = Some e \<and> np_in e \<noteq> [] \<Longrightarrow>
    safe E (kite_ok env P X A) (schedule_pulls f i ps k)"
proof (induction ps arbitrary: i k)
  case (Cons p ps)
  then obtain e where e: "pit_at p k = Inr e" "np_in e \<noteq> []" by (auto simp: pit_at_def)
  obtain t where t: "lastExpiry e = Inr t" using e(2) by (cases "np_in e") (simp_all add: lastExpiry_def)
  have "safe E (kite_ok env P X A) (schedule_pulls f (Suc i) ps (snd (kite_schedule (int i * 1000000) (SendPulled f (np_interest e)) k)))"
    using Cons.prems by (intro Cons.IH kite_ok_schedule) simp_all
  moreover have "safe E (kite_ok env P X A) (schedule_pulls f (Suc i) ps k)" using Cons.prems by (intro Cons.IH) simp_all
  ultimately show ?case using Cons.prems(1) e(1) t by simp
qed simp

lemma judgeAndUpdateSeq_frame:
  "judgeAndUpdateSeq seq e = (new, e') \<Longrightarrow> tb_nte e' = tb_nte e \<and> tb_prefix e' = tb_prefix e \<and> tb_hops e' = tb_hops e"
  by (auto simp: judgeAndUpdateSeq_def split: if_splits)

text \<open>The only error: Trace Data whose name does not end with a sequence number.\<close>

definition data_errors :: "nfd_data \<Rightarrow> exn set" where
  "data_errors d = (if judgeNameIsTrace (nd_name d) \<and> \<not> isNumberWithMarker SEQUENCE_NUMBER_MARKER (last (nd_name d)) then {TlvError} else {})"

lemma sequence_error:
  assumes "judgeNameIsTrace (nd_name d)"
  shows "safe (data_errors d) (\<lambda>_. True) (bind_exn (name_at (nd_name d) (- 1)) toSequenceNumber)"
proof -
  have n: "nd_name d \<noteq> []" using assms by (auto simp: judgeNameIsTrace_def split: if_splits)
  show ?thesis
  proof (cases "isNumberWithMarker SEQUENCE_NUMBER_MARKER (last (nd_name d))")
    case True
    then obtain s where "toSequenceNumber (last (nd_name d)) = Inr s" using toSequenceNumber_error by blast
    then show ?thesis using n by simp
  next
    case False
    then show ?thesis using n assms by (simp add: data_errors_def toSequenceNumber_def toNumberWithMarker_def)
  qed
qed

lemma kite_ok_set_seq:
  assumes "kite_ok env P {} A k" and "fmlookup (kf_tibs k) a = Some e"
    and "tb_nte e' = tb_nte e" "tb_prefix e' = tb_prefix e" "tb_hops e' = tb_hops e"
  shows "kite_ok env P {} A (set_tib a e' k)"
proof -
  note t = kite_ok_tib [OF assms(1,2)]
  have "kite_ok env P {} A (set_tib a e' (k\<lparr>kf_sim := kf_sim k\<rparr>))"
    using t assms(3-5) by (intro kite_ok_set_tib [OF assms(1,2)]) auto
  then show ?thesis by simp
qed

lemma updateTib_ok:
  assumes "kite_ok env P {} A k" and "interest_fine i" and "judgeNameIsTrace (nd_name d)"
  shows "safe (data_errors d) (kite_ok env P {} A) (updateTib env f d i k)"
  unfolding updateTib_def
proof (rule safe_bind [OF sequence_error [OF assms(3)]], goal_cases)
  case (1 seq)
  let ?n = "extractDataNameFromTrace (nd_name d)"
  obtain a k1 where k1: "tib_insert env ?n k = (a, k1)" by fastforce
  obtain e where ok1: "kite_ok env P {} A k1" and e: "fmlookup (kf_tibs k1) a = Some e" using tib_insert_ok [OF assms(1) k1] by blast
  obtain new e' where j: "judgeAndUpdateSeq seq e = (new, e')" by fastforce
  let ?k2 = "set_tib a e' k1"
  have ok2: "kite_ok env P {} A ?k2" using kite_ok_set_seq [OF ok1 e] judgeAndUpdateSeq_frame [OF j] by simp
  have a2: "fmlookup (kf_tibs ?k2) a = Some e'" by (simp add: set_tib_def)
  have "safe (data_errors d) (kite_ok env P {} A) (bind_exn (tib_addNextHop a f 1 ?k2) (\<lambda>k. bind_exn (setNexthopTimeoutTimer a f i k) (\<lambda>k.
           if kf_doPull k \<and> \<not> kf_allowTempPath k
           then schedule_pulls f 0 (pending_pulls f (kf_maxPullCnt k) (nfd_pit_findAllMatches ?n k) k) k
           else Inr k)))"
  proof (rule safe_bind [OF safe_any [OF tib_addNextHop_ok [OF ok2 a2, of f]]], goal_cases)
    case (1 k3)
    then obtain e3 h where k3: "kite_ok env P {(a, f)} A k3" "fmlookup (kf_tibs k3) a = Some e3" "tb_hops e3 = [h]" "th_face h = f"
      by blast
    have st: "safe {} (kite_ok env P {} A) (setNexthopTimeoutTimer a f i k3)"
      unfolding setNexthopTimeoutTimer_def case_prod_unfold Let_def
      by (rule setNextHopTimer_ok [OF k3 subset_refl _ surjective_pairing]) (use assms(2) in \<open>simp add: interest_fine_def\<close>)
    show ?case by (rule safe_bind [OF safe_any [OF st]]) (simp add: schedule_pulls_ok pending_pulls_records)
  qed
  then show ?case using kite_ok_tib(1) [OF ok1 e] k1 j ok2 by (simp add: Let_def)
qed

section \<open>Incoming Interests\<close>

lemma setUnsatisfyTimer_after_record:
  assumes "kite_ok env {p} X A k" and "p \<in> A" and "0 \<le> ni_lifetime i"
  shows "safe {} (kite_ok env {} X A) (setUnsatisfyTimer p (on_pit p (insertOrUpdateInRecord (kite_now k) f i) k))"
proof (rule setUnsatisfyTimer_ok [OF kite_ok_record(1) [OF assms(1)] assms(2)])
  fix e
  let ?r = "\<lparr>inr_face = f, inr_lastNonce = ni_nonce i, inr_lastRenewed = kite_now k, inr_expiry = record_expiry (kite_now k) i, inr_interest = i\<rparr>"
  assume "fmlookup (kf_pits (on_pit p (insertOrUpdateInRecord (kite_now k) f i) k)) p = Some e"
  then obtain e0 where "e = insertOrUpdateInRecord (kite_now k) f i e0" by (auto simp: lookup_on_pit)
  then have "?r \<in> set (np_in e)" by (auto simp: insertOrUpdateInRecord_def Let_def getInRecord_def find_None_iff)
  moreover have "kite_now k \<le> inr_expiry ?r" using assms(3) by (simp add: record_expiry_def)
  ultimately show "\<exists>r \<in> set (np_in e). kite_now (on_pit p (insertOrUpdateInRecord (kite_now k) f i) k) \<le> inr_expiry r"
    by (intro bexI [of _ ?r]) simp_all
qed

lemma onContentStoreMiss_ok:
  assumes "kite_ok env {p} X A k" and "p \<in> A" and "0 \<le> ni_lifetime i"
  shows "safe {} (kite_ok env {} X A) (onContentStoreMiss env f p i k)"
  unfolding onContentStoreMiss_def
  by (rule safe_bind [OF setUnsatisfyTimer_after_record [OF assms]])
    (simp add: onOutgoingInterest_ok afterReceiveInterest_ok assms(2) split: option.split)

lemma onContentStoreHit_ok:
  assumes "kite_ok env {p} X A k" and "p \<in> A"
  shows "safe {} (kite_ok env {} X A) (onContentStoreHit env f p d k)"
  unfolding onContentStoreHit_def by (rule safe_bind [OF setStragglerTimer_ok [OF assms]]) (simp add: onOutgoingData_ok)

lemma kinv_kite_ok: "kinv env P X k \<Longrightarrow> kite_ok env P X {} k" "kite_ok env P X A k \<Longrightarrow> kinv env P X k"
  by (simp_all add: kite_ok_def)

lemma safe_kinv: "safe E (kite_ok env P X A) r \<Longrightarrow> safe E (kinv env P X) r"
  by (cases r) (simp_all add: kite_ok_def)

lemma onIncomingInterest_ok:
  assumes "kinv env {} X k" and "interest_fine i"
  shows "safe {} (kinv env {} X) (onIncomingInterest env f i k)"
proof -
  let ?k = "on_counters (\<lambda>c. c\<lparr>nInInterests := incr (nInInterests c)\<rparr>) k"
  obtain p new k1 where k1: "nfd_pit_insert env i ?k = ((p, new), k1)" by (cases "nfd_pit_insert env i ?k") (simp add: split_paired_all)
  have ok: "kinv env {} X ?k" using assms(1) by simp
  note ins = nfd_pit_insert_ok [OF ok assms(2) k1]
  obtain e where e: "pit_at p k1 = Inr e" using kite_ok_entry [OF ins(1) singletonI] by metis
  have fresh: "new \<Longrightarrow> \<not> findDuplicateNonce (ni_nonce i) e" using ins(2) e by (auto simp: findDuplicateNonce_def)
  have "safe {} (kinv env {} X) (bind_exn (cancelUnsatisfyAndStragglerTimer p k1) (\<lambda>k.
            if np_in e \<noteq> [] then onContentStoreMiss env f p i k
            else let (match, cs) = ke_csFind env i (kf_cs k); k = k\<lparr>kf_cs := cs\<rparr> in
              case match of
                Some d \<Rightarrow> onContentStoreHit env f p d k
              | None \<Rightarrow> onContentStoreMiss env f p i k))"
  proof (rule safe_bind [OF cancelTimers_ok [OF ins(1)]], simp, simp, goal_cases)
    case (1 k2)
    have "safe {} (kinv env {} X) (onContentStoreMiss env f p i k')" "safe {} (kinv env {} X) (onContentStoreHit env f p d k')"
      if "kite_ok env {p} X {p} k'" for k' d
      using that assms(2) by (simp_all add: safe_kinv [OF onContentStoreMiss_ok] safe_kinv [OF onContentStoreHit_ok] interest_fine_def)
    then show ?case using 1 by (simp add: Let_def case_prod_unfold split: option.split)
  qed
  moreover have "kinv env {} X (onInterestLoop env f i k')" if "kinv env {} X k'" for k'
    using that by (simp add: onInterestLoop_def)
  ultimately show ?thesis
    using ok k1 e fresh kinv_kite_ok(2) [OF ins(1)] unfolding onIncomingInterest_def by (auto simp: Let_def split: if_splits)
qed

section \<open>Incoming Data\<close>

lemma downstream_loop_ok:
  "kite_ok env P {} A k \<Longrightarrow> interest_fine i \<Longrightarrow>
    safe (data_errors d) (\<lambda>(_, k). kite_ok env P {} A k) (downstream_loop env d i now rs (ds, k))"
proof (induction rs arbitrary: ds k)
  case (Cons r rs)
  have "safe (data_errors d) (kite_ok env P {} A) (if judgeNameIsTrace (nd_name d) then updateTib env (inr_face r) d i k else Inr k)"
    using updateTib_ok [OF Cons.prems, of d] Cons.prems(1) by simp
  from safe_bind [OF this Cons.IH] show ?case using Cons by simp
qed simp

lemma prolong_ok:
  assumes "kite_ok env P {} A k" and "p \<in> A"
  shows "safe {} (kite_ok env P {} A) (prolong env f p k)"
  unfolding prolong_def
proof (rule safe_bind [OF pit_at_ok [OF assms]], goal_cases)
  case (1 e)
  then have n: "np_nte e \<noteq> None" by simp
  show ?case
  proof (rule safe_bind [OF tib_lpm_ok [OF assms(1) n]], goal_cases)
    case ta: (1 ta)
    show ?case
    proof (cases ta)
      case (Some a0)
      with ta obtain te where te: "fmlookup (kf_tibs k) a0 = Some te" by blast
      note t = kite_ok_tib [OF assms(1) te]
      have "tb_nte te \<in> ht_names (kf_tree k)" using t(2) by (intro attached_name) auto
      then have "nt_findExactMatch (ke_hash env) (tb_prefix te) (kf_tree k) = Some (tb_nte te)"
        using assms(1) t(3) by (simp add: kite_ok_def kinv_def tables_ok_def nt_findExactMatch_ok)
      then have x: "tib_findExactMatch env (tb_prefix te) k = Some a0" using t(2) by (simp add: tib_findExactMatch_def)
      have "safe {} (kite_ok env P {} A) (let (event, k) = kite_schedule 1000000000 (TibTimeout a0 f) k in setNextHopTimer a0 f event k)"
        if "tib_hasNextHop f te"
      proof -
        have "\<exists>h. tb_hops te = [h] \<and> th_face h = f"
          using that t(5) by (auto simp: tib_hasNextHop_def tib_findNextHop_def split: if_splits)
        then obtain h where h: "tb_hops te = [h]" "th_face h = f" by blast
        show ?thesis
          unfolding case_prod_unfold Let_def
          by (rule setNextHopTimer_ok [OF assms(1) te h empty_subsetI _ surjective_pairing]) simp
      qed
      then show ?thesis using Some t(1) x assms(1) by simp
    qed (simp add: assms(1))
  qed
qed

lemma satisfy_ok:
  assumes "kite_ok env {} {} A k" and "p \<in> A"
  shows "safe (data_errors d) (\<lambda>(_, k). kite_ok env {} {} A k) (satisfy env f d p (ds, k))"
  unfolding satisfy_def Let_def prod.case
proof (rule safe_bind [OF safe_any [OF cancelTimers_ok [OF assms empty_subsetI]]], goal_cases)
  case k1: (1 k1)
  show ?case
  proof (rule safe_bind [OF pit_at_ok [OF k1 assms(2)]], goal_cases)
    case (1 e)
    then have fine: "interest_fine (np_interest e)" by simp
    show ?case
    proof (rule safe_bind [OF downstream_loop_ok [OF k1 fine]], clarify, goal_cases)
      case k2: (1 ds2 k2)
      show ?case
      proof (rule safe_bind [OF insertDeadNonceList_ok [OF k2 assms(2)]], goal_cases)
        case (1 k3)
        have k4: "kite_ok env {p} {} A (on_pit p (\<lambda>e. deleteOutRecord f (e\<lparr>np_in := []\<rparr>)) k3)"
          using 1 by (rule kite_ok_record(7))
        show ?case
        proof (rule safe_bind [OF safe_any [OF setStragglerTimer_ok [OF k4 assms(2)]]], goal_cases)
          case (1 k5)
          have "safe (data_errors d) (kite_ok env {} {} A) (if kf_prolongTrace k5 then prolong env f p k5 else Inr k5)"
            using safe_any [OF prolong_ok [OF 1 assms(2)]] 1 by simp
          then show ?case by (rule safe_bind) simp
        qed
      qed
    qed
  qed
qed

lemma satisfy_all_ok:
  "kite_ok env {} {} A k \<Longrightarrow> set ps \<subseteq> A \<Longrightarrow> safe (data_errors d) (\<lambda>(_, k). kite_ok env {} {} A k) (satisfy_all env f d ps (ds, k))"
proof (induction ps arbitrary: ds k)
  case (Cons p ps)
  have "safe (data_errors d) (\<lambda>(_, k). kite_ok env {} {} A k) (satisfy env f d p (ds, k))" using Cons.prems by (intro satisfy_ok) auto
  then show ?case
    unfolding satisfy_all.simps by (rule safe_bind) (use Cons in \<open>auto\<close>)
qed simp

lemma findAllDataMatches_attached: "kinv env P X k \<Longrightarrow> set (findAllDataMatches env d k) \<subseteq> attached k"
  by (auto simp: findAllDataMatches_def kinv_def tables_ok_def attached_def)

lemma onIncomingData_ok:
  assumes "kinv env {} {} k"
  shows "safe (data_errors d) (kinv env {} {}) (onIncomingData env f d k)"
proof -
  let ?k = "on_counters (\<lambda>c. c\<lparr>nInData := incr (nInData c)\<rparr>) k"
  let ?ps = "findAllDataMatches env d ?k" and ?k1 = "if judgeNameIsTrace (nd_name d) then ?k else ?k\<lparr>kf_cs := ke_csAdd env d (kf_cs ?k)\<rparr>"
  have k: "kinv env {} {} ?k" using assms by simp
  have "kite_ok env {} {} (set ?ps) ?k1" using findAllDataMatches_attached [OF k, of d] k by (auto simp: kite_ok_def)
  then have "safe (data_errors d) (\<lambda>(_, k). kite_ok env {} {} (set ?ps) k) (satisfy_all env f d ?ps ([], ?k1))"
    by (rule satisfy_all_ok) simp
  then have "safe (data_errors d) (kinv env {} {}) (bind_exn (satisfy_all env f d ?ps ([], ?k1)) (\<lambda>(ds, k).
            Inr (fold (onOutgoingData env d) (ke_order env (remdups ds)) k)))"
    by (rule safe_bind) (auto intro!: kinv_kite_ok(2) kite_ok_fold onOutgoingData_ok)
  then show ?thesis using k by (simp add: onIncomingData_def Let_def onDataUnsolicited_def)
qed

section \<open>Incoming Nacks\<close>

lemma send_nacks_ok: "kite_ok env P X A k \<Longrightarrow> p \<in> A \<Longrightarrow> safe E (kite_ok env P X A) (send_nacks env p r fs k)"
proof (induction fs arbitrary: k)
  case (Cons f fs)
  show ?case unfolding send_nacks.simps by (rule safe_bind [OF onOutgoingNack_ok [OF Cons.prems]]) (rule Cons.IH [OF _ Cons.prems(2)])
qed simp

lemma remove_trace_ok:
  assumes "kite_ok env P {} A k"
  shows "safe {} (\<lambda>(_, k). kite_ok env P {} A k) (remove_trace env f k)"
proof (cases "tib_findExactMatch env (map component_of_string [''rv'', ''alice'', ''photo'']) k")
  case (Some a)
  then obtain n where "te_tib (table_at k n) = Some a" by (auto simp: tib_findExactMatch_def split: option.splits)
  then obtain e where e: "fmlookup (kf_tibs k) a = Some e" using assms tables_ok_tib [of env k n a] by (auto simp: kite_ok_def kinv_def)
  show ?thesis
    unfolding remove_trace_def Some option.case kite_ok_tib(1) [OF assms e] bind_exn.simps
    by (rule safe_bind [OF tib_removeNextHop_ok [OF assms e empty_subsetI]]) simp
qed (simp add: remove_trace_def assms)

lemma onIncomingNack_ok:
  assumes "kinv env {} {} k"
  shows "safe {} (kinv env {} {}) (onIncomingNack env f i reason k)"
proof -
  let ?k = "on_counters (\<lambda>c. c\<lparr>nInNacks := incr (nInNacks c)\<rparr>) k"
  have k: "kinv env {} {} ?k" using assms by simp
  show ?thesis
  proof (cases "nfd_pit_find env i ?k")
    case (Some p)
    then have "pit_search i ?k = Some p" by (simp add: nfd_pit_find_def split: option.splits)
    then have "p \<in> set (te_pits (table_at ?k (nte_name (ni_name i))))" by (auto simp: pit_search_def Let_def find_Some_iff)
    then have "p \<in> attached ?k" using k by (auto simp: kinv_def tables_ok_def attached_def)
    then have ok: "kite_ok env {} {} {p} ?k" using k by (simp add: kite_ok_def)
    obtain e where e: "pit_at p ?k = Inr e" by (rule kite_ok_entry [OF ok singletonI])
    let ?k1 = "on_pit p (set_incoming_nack f reason) ?k"
    have ok1: "kite_ok env {} {} {p} ?k1" by (rule kite_ok_record(5) [OF ok])
    have r: "safe {} (\<lambda>(_, k). kite_ok env {} {} {p} k)
        (if kf_removeTraceOnNack ?k1 \<and> reason = NO_ROUTE then remove_trace env f ?k1 else Inr (False, ?k1))"
      using remove_trace_ok [OF ok1] ok1 by (cases "reason = NO_ROUTE") simp_all
    have n: "safe {} (kinv env {} {}) (afterReceiveNack env reason p k2)" if "kite_ok env {} {} {p} k2" for k2
      unfolding afterReceiveNack_def
      by (rule safe_kinv, rule safe_bind [OF pit_at_ok [OF that singletonI]], rule send_nacks_ok [OF that singletonI])
    let ?r = "bind_exn (if kf_removeTraceOnNack ?k1 \<and> reason = NO_ROUTE then remove_trace env f ?k1 else Inr (False, ?k1))
        (\<lambda>(propagate, k). if propagate then afterReceiveNack env reason p k else Inr k)"
    have "safe {} (kinv env {} {}) ?r" by (rule safe_bind [OF r]) (auto intro: kinv_kite_ok(2) n)
    moreover have "onIncomingNack env f i reason k \<in> {Inr ?k, ?r}"
      unfolding onIncomingNack_def Let_def Some option.case e bind_exn.simps by (simp split: option.split)
    ultimately show ?thesis using k by (elim insertE) simp_all
  qed (simp add: onIncomingNack_def k [simplified] Let_def)
qed

section \<open>Routes and faces\<close>

text \<open>The FIB has no timers and no stored entries.\<close>

lemma kinv_on_fib:
  assumes "kinv env P X k" and "\<And>t. te_tib (g t) = te_tib t \<and> te_pits (g t) = te_pits t"
  shows "kinv env P X (on_table n g k)"
proof -
  have same: "te_tib (table_at (on_table n g k) m) = te_tib (table_at k m)" "te_pits (table_at (on_table n g k) m) = te_pits (table_at k m)" for m
    using assms(2) by (simp_all add: table_at_on_table)
  have "nt_ok (ke_hash env) (kf_tree (on_table n g k))" using assms(1) by (simp add: kinv_def tables_ok_def)
  then show ?thesis using assms(1) by (simp add: kinv_def tables_ok_def pit_timers_def tib_timers_def same)
qed

lemma attached_on_table [simp]: "attached (on_table n g k) = attached k"
  by (simp add: attached_def)

lemma fib_addRoute_ok: "kinv env P X k \<Longrightarrow> kinv env P X (fib_addRoute env n f c k)"
  by (simp add: fib_addRoute_def fib_insert_def Let_def kinv_on_fib kinv_lookup_nte)

lemma fib_removeNextHop_ok: "kinv env P X k \<Longrightarrow> kinv env P X (fib_removeNextHop n f k)"
  by (simp add: fib_removeNextHop_def Let_def kinv_on_fib split: option.split)

lemma cleanup_loop_ok: "kinv env {} {} k \<Longrightarrow> safe {} (kinv env {} {}) (cleanup_loop f ns k)"
proof (induction ns arbitrary: k)
  case (Cons n ns)
  let ?k = "fib_removeNextHop n f k"
  have k: "kinv env {} {} ?k" by (rule fib_removeNextHop_ok [OF Cons.prems])
  have "safe {} (kinv env {} {}) (case te_tib (table_at ?k n) of None \<Rightarrow> Inr ?k
      | Some a \<Rightarrow> bind_exn (cancelNextHopTimer a f ?k) (tib_removeNextHop a f))"
  proof (cases "te_tib (table_at ?k n)")
    case (Some a)
    then obtain e where e: "fmlookup (kf_tibs ?k) a = Some e" using k tables_ok_tib [of env ?k n a] by (auto simp: kinv_def)
    have "safe {} (kite_ok env {} {} {}) (bind_exn (cancelNextHopTimer a f ?k) (tib_removeNextHop a f))"
      by (rule safe_bind [OF cancelNextHopTimer_ok [OF kinv_kite_ok(1) [OF k] e empty_subsetI]])
        (auto intro: tib_removeNextHop_ok)
    then show ?thesis using Some by (simp add: safe_kinv)
  qed (simp add: k)
  then show ?case
    unfolding cleanup_loop.simps Let_def
  proof (rule safe_bind, goal_cases)
    case (1 k1)
    have "kite_ok env {} {} {} (fold (\<lambda>p. on_pit p (\<lambda>e. deleteOutRecord f (deleteInRecord f e))) (te_pits (table_at k1 n)) k1)"
      by (rule kite_ok_fold [OF kinv_kite_ok(1) [OF 1] kite_ok_record(8)])
    then show ?case by (rule Cons.IH [OF kinv_kite_ok(2)])
  qed
qed simp

lemma cleanupOnFaceRemoval_ok:
  assumes "kinv env {} {} k"
  shows "safe {} (kinv env {} {}) (cleanupOnFaceRemoval f k)"
proof -
  have "kinv env {} {} (fold (\<lambda>n. erase_nte n False) ns k)" if "kinv env {} {} k" for ns and k :: "'a kite"
    using that by (induction ns arbitrary: k) (simp_all add: kinv_erase_nte)
  then show ?thesis
    unfolding cleanupOnFaceRemoval_def Let_def by (intro safe_bind [OF cleanup_loop_ok [OF assms]]) simp
qed

section \<open>Events\<close>

text \<open>The clock moves; the event \<open>a\<close> with the id \<open>i\<close> leaves the queue, or none.\<close>

lemma kinv_clock:
  assumes "kinv env {} {} k" and "sim_ok s'" and "\<And>i. past_id (kf_sim k) i \<Longrightarrow> past_id s' i" and "live_timers s' = live_timers (kf_sim k)"
  shows "kinv env {} {} (k\<lparr>kf_sim := s'\<rparr>)"
proof -
  have live: "pit_live s' = pit_live (kf_sim k)" "tib_live s' = tib_live (kf_sim k)"
    using assms(4) by (auto simp: pit_live_def tib_live_def fun_eq_iff)
  have "hop_timer_ok {} s' = hop_timer_ok {} (kf_sim k)" by (intro ext) (simp add: hop_timer_ok_def live)
  moreover have "pit_timer_ok {} s' p e" if "pit_timer_ok {} (kf_sim k) p e" for p e
    using that assms(3) unfolding pit_timer_ok_def live by (auto split: if_splits)
  ultimately show ?thesis
    using assms(1,2) by (simp add: kinv_def tables_ok_def pit_timers_def tib_timers_def live)
qed

lemma kinv_pop:
  assumes "kinv env {} {} k" and "sim_ok s'" and past: "\<And>i. past_id (kf_sim k) i \<Longrightarrow> past_id s' i" "past_id s' i"
    and live: "(a, i) \<in> live_timers (kf_sim k)" "live_timers s' = live_timers (kf_sim k) - {(a, i)}"
  shows "kinv env {p. act_pit a = Some p} {(b, f). a = TibTimeout b f} (k\<lparr>kf_sim := s'\<rparr>)"
    (is "kinv env ?P ?X ?k")
proof -
  let ?s = "kf_sim k"
  have ok: "sim_ok ?s" "tables_ok env k" "pit_timers {} k" "tib_timers {} k" using assms(1) by (simp_all add: kinv_def)
  note w = live_without [OF live_id_unique [OF ok(1) live(1), symmetric] live(2)]
  have mine: "act_pit a = Some p \<Longrightarrow> i \<in> pit_live ?s p" "a = TibTimeout b f \<Longrightarrow> i \<in> tib_live ?s b f" for p b f
    using live(1) by (auto simp: pit_live_def tib_live_def)
  have "pit_timer_ok ?P s' p e" if "pit_timer_ok {} ?s p e" for p e
  proof (cases "act_pit a = Some p")
    case True
    then have "pit_live ?s p = {i}" using that mine(1) [OF True] by (auto simp: pit_timer_ok_def split: if_splits)
    then show ?thesis using that True past w(1) [of p] by (auto simp: pit_timer_ok_def)
  next
    case False
    then show ?thesis using that past w(1) [of p] unfolding pit_timer_ok_def by (auto split: if_splits)
  qed
  moreover have "pit_live s' p = {}" if "pit_live ?s p = {}" for p using that w(1) [of p] by auto
  ultimately have "pit_timers ?P ?k" using ok(3) by (simp add: pit_timers_def)
  moreover have "hop_timer_ok ?X s' b h" if "hop_timer_ok {} ?s b h" for b h
    using that past(2) w(2) [of b "th_face h"] mine(2) [of b "th_face h"] by (auto simp: hop_timer_ok_def)
  then have "tib_timers ?X ?k" using ok(4) w(2) by (auto simp: tib_timers_def list_all_iff)
  ultimately show ?thesis using assms(2) ok(2) by (simp add: kinv_def tables_ok_def)
qed

text \<open>The only error of an event: a pulled Interest for a face that was removed.\<close>

definition act_errors :: "kite_act \<Rightarrow> 'c kite \<Rightarrow> exn set" where
  "act_errors a k = (case a of SendPulled f i \<Rightarrow> if f \<in> set (kf_faces k) then {} else {UseAfterFree} | _ \<Rightarrow> {})"

lemma run_kite_act_ok:
  assumes "kinv env {} {} k" and "ProcessOneEvent (kf_sim k) = Some (Some a, s')"
  shows "safe (act_errors a k) (kinv env {} {}) (run_kite_act env a (k\<lparr>kf_sim := s'\<rparr>))"
proof -
  let ?k = "k\<lparr>kf_sim := s'\<rparr>"
  have ok: "sim_ok (kf_sim k)" "pit_timers {} k" "tib_timers {} k" using assms(1) by (simp_all add: kinv_def)
  obtain i where i: "(a, i) \<in> live_timers (kf_sim k)" "live_timers s' = live_timers (kf_sim k) - {(a, i)}" "past_id s' i"
    using live_timers_ProcessOneEvent [OF ok(1) assms(2)] by auto
  have pop: "kinv env {p. act_pit a = Some p} {(b, f). a = TibTimeout b f} ?k"
    using sim_ok_ProcessOneEvent [OF ok(1) assms(2)] past_id_ProcessOneEvent [OF ok(1) assms(2)] i
    by (intro kinv_pop [OF assms(1)]) auto
  have pit: "safe {} (kinv env {} {}) (onInterestFinalize env p sat fresh ?k)" if "act_pit a = Some p" for p sat fresh
  proof (rule onInterestFinalize_ok)
    have "pit_live (kf_sim k) p \<noteq> {}" using i(1) that by (auto simp: pit_live_def)
    then have "p \<in> attached k"
      using ok(2) by (cases "fmlookup (kf_pits k) p") (auto simp: pit_timers_def attached_def pit_timer_ok_def split: if_splits)
    moreover have "{q. act_pit a = Some q} = {p}" "{(b, f). a = TibTimeout b f} = {}" using that by auto
    ultimately show "kite_ok env {p} {} {p} ?k" using pop by (simp add: kite_ok_def)
  qed
  have tib: "safe {} (kinv env {} {}) (tib_removeNextHop b f ?k)" if "a = TibTimeout b f" for b f
  proof -
    have "tib_live (kf_sim k) b f \<noteq> {}" using i(1) that by (auto simp: tib_live_def)
    then obtain e where "fmlookup (kf_tibs k) b = Some e" using ok(3) by (force simp: tib_timers_def)
    moreover have "kite_ok env {} {(b, f)} {} ?k" using pop that by (simp add: kite_ok_def)
    ultimately show ?thesis by (intro safe_kinv [OF tib_removeNextHop_ok [OF _ _ subset_refl]]) simp_all
  qed
  have other: "kinv env {} {} (snd (kite_schedule d b (?k\<lparr>kf_dnl := l\<rparr>)))" "kinv env {} {} ?k"
    if "act_pit a = None" "\<And>b f. a \<noteq> TibTimeout b f" "b = DnlMark \<or> b = DnlAdjust" "0 \<le> d" for b d l
  proof -
    show "kinv env {} {} ?k" using pop that(1,2) by simp
    then show "kinv env {} {} (snd (kite_schedule d b (?k\<lparr>kf_dnl := l\<rparr>)))"
      using that(3,4) by (intro kinv_kite_ok(2) [OF kite_ok_schedule [where A = "{}"]]) (auto simp: kite_ok_def)
  qed
  have "safe {} (kinv env {} {}) (Inr (kite_send out ?k))" if "act_pit a = None" "\<And>b f. a \<noteq> TibTimeout b f" for out
    using other(2) [OF that, of DnlMark 0] by simp
  then show ?thesis
    using pit tib other
    by (cases a) (simp_all add: run_kite_act_def act_errors_def onInterestUnsatisfied_def onTibEntryNextHopTimeout_def)
qed

section \<open>Runs\<close>

text \<open>An Interest that the forwarder can handle: it has a lifetime, and a link object of it that decodes has delegations.\<close>

definition kite_interest_ok :: "nfd_interest \<Rightarrow> bool" where
  "kite_interest_ok i \<longleftrightarrow> 0 \<le> ni_lifetime i \<and> ni_link i \<noteq> Some (Inr [])"

definition remove_face :: "nat \<Rightarrow> 'c kite \<Rightarrow> exn + 'c kite" where
  "remove_face f k = bind_exn (cleanupOnFaceRemoval f k) (\<lambda>k. Inr (k\<lparr>kf_faces := removeAll f (kf_faces k)\<rparr>))"

inductive kite_step :: "'c kite_env \<Rightarrow> 'c kite \<Rightarrow> 'c kite \<Rightarrow> bool" for env where
  receive_interest: "kite_interest_ok i \<Longrightarrow> startProcessInterest env f i k = Inr k' \<Longrightarrow> kite_step env k k'"
| receive_data: "onIncomingData env f d k = Inr k' \<Longrightarrow> kite_step env k k'"
| receive_nack: "startProcessNack env f i r k = Inr k' \<Longrightarrow> kite_step env k k'"
| run_event: "ProcessOneEvent (kf_sim k) = Some (Some a, s) \<Longrightarrow> run_kite_act env a (k\<lparr>kf_sim := s\<rparr>) = Inr k' \<Longrightarrow> kite_step env k k'"
| skip_event: "ProcessOneEvent (kf_sim k) = Some (None, s) \<Longrightarrow> kite_step env k (k\<lparr>kf_sim := s\<rparr>)"
| other_event: "foreign_event t v u (kf_sim k) = Some s \<Longrightarrow> kite_step env k (k\<lparr>kf_sim := s\<rparr>)"
| add_route: "kite_step env k (fib_addRoute env n f c k)"
| remove_route: "kite_step env k (fib_removeNextHop n f k)"
| add_face: "kite_step env k (k\<lparr>kf_faces := kf_faces k @ [f]\<rparr>)"
| drop_face: "remove_face f k = Inr k' \<Longrightarrow> kite_step env k k'"

definition kite_start :: "'c kite_env \<Rightarrow> 'c kite \<Rightarrow> bool" where
  "kite_start env k \<longleftrightarrow> (\<exists>options cs strategy regions pull temp cnt prolong gone rem. options_ok options \<and>
     k = (kite_new env options cs strategy)\<lparr>kf_regions := regions, kf_doPull := pull, kf_allowTempPath := temp,
       kf_maxPullCnt := cnt, kf_prolongTrace := prolong, kf_gone := gone, kf_removeTraceOnNack := rem\<rparr>)"

lemma kinv_flags [simp]:
  "kinv env P X (k\<lparr>kf_regions := r, kf_doPull := a, kf_allowTempPath := b, kf_maxPullCnt := c, kf_prolongTrace := d, kf_gone := g,
     kf_removeTraceOnNack := h\<rparr>) = kinv env P X k"
  by (simp add: kinv_defs)

lemma kinv_new:
  assumes "options_ok options"
  shows "kinv env {} {} (kite_new env options cs strategy)"
proof -
  let ?k = "\<lparr>kf_tree = hashtable_new options, kf_tibs = fmempty, kf_pits = fmempty, kf_next = 0, kf_nTib = 0, kf_nPit = 0,
     kf_dnl = dnl_new, kf_cs = cs, kf_faces = [], kf_regions = [], kf_sim = sim_init, kf_out = [],
     kf_counters = \<lparr>nInInterests = 0, nOutInterests = 0, nInData = 0, nOutData = 0, nInNacks = 0, nOutNacks = 0\<rparr>,
     kf_doPull = False, kf_allowTempPath = False, kf_maxPullCnt = 2147483647, kf_prolongTrace = False,
     kf_gone = False, kf_removeTraceOnNack = False\<rparr> :: 'a kite"
  have none: "table_at ?k n = te_none" for n by (simp add: table_at_def table_of_def hashtable_new_def)
  have "tables_ok env ?k" unfolding tables_ok_def none by (simp add: te_none_def nt_ok_new [OF assms])
  then have "kinv env {} {} ?k"
    by (simp add: kinv_def pit_timers_def tib_timers_def sim_ok_init pit_live_def tib_live_def)
  then have "kite_ok env {} {} {} (on_table [] (\<lambda>t. t\<lparr>te_strategyChoice := Some strategy\<rparr>) (lookup_nte env [] ?k))"
    by (intro kinv_kite_ok(1) kinv_on_fib kinv_lookup_nte) simp_all
  then show ?thesis
    unfolding kite_new_def Let_def by (intro kinv_kite_ok(2) [where A = "{}"] kite_ok_schedule) simp_all
qed

lemma interest_step_ok: "kinv env {} {} k \<Longrightarrow> kite_interest_ok i \<Longrightarrow> safe {} (kinv env {} {}) (startProcessInterest env f i k)"
  using onIncomingInterest_ok [of env "{}" k i f]
  by (auto simp: startProcessInterest_def kite_interest_ok_def interest_fine_def link_ok_def split: option.split sum.split)

lemma nack_step_ok: "kinv env {} {} k \<Longrightarrow> safe {} (kinv env {} {}) (startProcessNack env f i r k)"
  by (simp add: startProcessNack_def onIncomingNack_ok split: option.split sum.split)

lemma remove_face_ok: "kinv env {} {} k \<Longrightarrow> safe {} (kinv env {} {}) (remove_face f k)"
  unfolding remove_face_def by (rule safe_bind [OF cleanupOnFaceRemoval_ok]) simp_all

lemma kite_step_inv: "kinv env {} {} k \<Longrightarrow> kite_step env k k' \<Longrightarrow> kinv env {} {} k'"
proof (erule kite_step.cases, goal_cases)
  case (1 i f k k')
  then show ?case using interest_step_ok [of env k i f] by simp
next
  case (2 f d k k')
  then show ?case using onIncomingData_ok [of env k d f] by simp
next
  case (3 f i r k k')
  then show ?case using nack_step_ok [of env k f i r] by simp
next
  case (4 k a s k')
  then show ?case using run_kite_act_ok [of env k a s] by simp
next
  case (5 k s)
  then have "sim_ok (kf_sim k)" by (simp add: kinv_def)
  with 5 show ?case
    using live_timers_ProcessOneEvent [of "kf_sim k" None s] sim_ok_ProcessOneEvent [of "kf_sim k" None s]
      past_id_ProcessOneEvent [of "kf_sim k" None s] by (auto intro!: kinv_clock)
next
  case (6 t v u k s)
  then have s: "s = (kf_sim k)\<lparr>m_currentTs := t, m_currentUid := v, m_uid := u\<rparr>"
    and t: "m_currentTs (kf_sim k) < t \<or> m_currentTs (kf_sim k) = t \<and> m_currentUid (kf_sim k) < v"
    by (auto simp: foreign_event_def split: if_splits)
  have "past_id s i" if "past_id (kf_sim k) i" for i using that t by (auto simp: s past_id_def)
  moreover have "live_timers s = live_timers (kf_sim k)" by (simp add: s live_timers_def)
  moreover have "sim_ok s" using 6 by (auto simp: kinv_def intro: sim_ok_foreign)
  ultimately show ?case using 6 by (auto intro!: kinv_clock)
next
  case (10 f k k')
  then show ?case using remove_face_ok [of env k f] by simp
qed (simp_all add: fib_addRoute_ok fib_removeNextHop_ok)

interpretation kite: invariant_system "kite_start env" "kite_step env" "kinv env {} {}" for env
  by unfold_locales (auto simp: kite_start_def kinv_new intro: kite_step_inv)

section \<open>A sample forwarder\<close>

text \<open>Three faces, a default route to the third, a hash function with collisions only, a content store that holds nothing.\<close>

definition demo_env :: "unit kite_env" where
  "demo_env = \<lparr>ke_hash = (\<lambda>_. 0), ke_dnl = \<lparr>de_hash = (\<lambda>_ s. s + 1), de_capacityUp = (\<lambda>n. n + n), de_capacityDown = (\<lambda>n. n div 2)\<rparr>,
     ke_local = (\<lambda>_. False), ke_multiAccess = (\<lambda>_. False), ke_broadcast = (\<lambda>_. False), ke_order = id, ke_sort = id,
     ke_csFind = (\<lambda>_ cs. (None, cs)), ke_csAdd = (\<lambda>_ cs. cs), ke_unsolicited = (\<lambda>_. False)\<rparr>"

definition demo_options :: hashtable_options where
  "demo_options = \<lparr>initialSize = 2, minSize = 2, expandLoad = (\<lambda>n. n), expandSize = (\<lambda>n. 2 * n), shrinkLoad = (\<lambda>n. n div 8),
     shrinkSize = (\<lambda>n. n div 2)\<rparr>"

definition demo_interest :: "nat \<Rightarrow> name \<Rightarrow> nfd_interest" where
  "demo_interest j n = \<lparr>ni_object = j, ni_name = n, ni_nonce = of_nat j, ni_lifetime = 2000, ni_selectors = selectors_new,
     ni_selectorsWire = [], ni_link = None, ni_selectedDelegation = None, ni_nextHopFace = None\<rparr>"

definition demo_trace :: name where
  "demo_trace = map component_of_string [[], ''trace'', []] @ [fromSequenceNumber 1]"

definition demo_data :: nfd_data where
  "demo_data = \<lparr>nd_name = demo_trace, nd_digest = component_of_string ''d'', nd_freshness = - 1, nd_keyLocator = None\<rparr>"

text \<open>The state after a pipeline, the one before it if the pipeline throws.\<close>

definition after_pipeline :: "'c kite \<Rightarrow> exn + 'c kite \<Rightarrow> 'c kite" where
  "after_pipeline k r = (case r of Inl _ \<Rightarrow> k | Inr k' \<Rightarrow> k')"

definition demo_idle :: "unit kite" where
  "demo_idle = fib_addRoute demo_env [] 2 1 ((kite_new demo_env demo_options () [])\<lparr>kf_faces := [0, 1, 2]\<rparr>)"

definition demo_pending :: "unit kite" where
  "demo_pending = after_pipeline demo_idle (startProcessInterest demo_env 1 (demo_interest 7 demo_trace) demo_idle)"

definition demo_traced :: "unit kite" where
  "demo_traced = after_pipeline demo_pending (onIncomingData demo_env 2 demo_data demo_pending)"

lemma reach_interest:
  assumes "reach (kite_start env) (kite_step env) k" and "kite_interest_ok i"
  shows "reach (kite_start env) (kite_step env) (after_pipeline k (startProcessInterest env f i k))"
  using interest_step_ok [OF kite.reachable_inv [OF assms(1)] assms(2), of f] receive_interest [OF assms(2), of env f k]
  by (cases "startProcessInterest env f i k") (auto simp: after_pipeline_def intro: reach_step [OF assms(1)])

lemma reach_data:
  assumes "reach (kite_start env) (kite_step env) k"
  shows "reach (kite_start env) (kite_step env) (after_pipeline k (onIncomingData env f d k))"
  using assms receive_data [of env f d k] by (cases "onIncomingData env f d k") (auto simp: after_pipeline_def intro: reach_step [OF assms])

lemma demo_interest_fits: "kite_interest_ok (demo_interest j n)"
  by (simp add: kite_interest_ok_def demo_interest_def)

lemma demo_reach:
  "reach (kite_start demo_env) (kite_step demo_env) demo_idle" "reach (kite_start demo_env) (kite_step demo_env) demo_pending"
  "reach (kite_start demo_env) (kite_step demo_env) demo_traced"
proof -
  let ?k = "kite_new demo_env demo_options () []" and ?reach = "reach (kite_start demo_env) (kite_step demo_env)"
  have new: "kf_regions ?k = []" "kf_doPull ?k = False" "kf_allowTempPath ?k = False" "kf_maxPullCnt ?k = 2147483647" "kf_prolongTrace ?k = False"
      "kf_gone ?k = False" "kf_removeTraceOnNack ?k = False" "kf_faces ?k = []"
    by (simp_all add: kite_new_def Let_def kite_schedule_def case_prod_unfold on_table_def lookup_nte_def)
  have "?k = ?k\<lparr>kf_regions := [], kf_doPull := False, kf_allowTempPath := False, kf_maxPullCnt := 2147483647, kf_prolongTrace := False,
      kf_gone := False, kf_removeTraceOnNack := False\<rparr>" by (rule kite.equality) (simp_all add: new)
  moreover have "options_ok demo_options" by (simp add: options_ok_def demo_options_def)
  ultimately have "kite_start demo_env ?k" unfolding kite_start_def by blast
  then have "?reach ?k" by (rule reach_start)
  from reach_step [OF reach_step [OF reach_step [OF this add_face [of _ _ 0]] add_face [of _ _ 1]] add_face [of _ _ 2]]
  have "?reach (?k\<lparr>kf_faces := [0, 1, 2]\<rparr>)" by (simp add: new)
  then show idle: "?reach demo_idle" unfolding demo_idle_def by (rule reach_step) (rule add_route)
  show pending: "?reach demo_pending" unfolding demo_pending_def by (rule reach_interest [OF idle demo_interest_fits])
  show "?reach demo_traced" unfolding demo_traced_def by (rule reach_data [OF pending])
qed

section \<open>Properties\<close>



text \<open>C19. Every entry of the PIT has a timer, and only one.  In every state that a KITE forwarder can reach, exactly one event
  in the queue, an unsatisfy or a straggler timer, will finish a PIT entry that is attached to the name tree, and none
  refers to an entry that is not; exactly one will end a next hop of a TIB entry, and none refers to a next hop that is
  gone; a TIB entry has at most one next hop.\<close>

theorem kite_one_timer:
  assumes "reach (kite_start env) (kite_step env) k"
  shows "(if p \<in> attached k then \<exists>i. pit_live (kf_sim k) p = {i} else pit_live (kf_sim k) p = {}) \<and>
    (if \<exists>e. fmlookup (kf_tibs k) a = Some e \<and> f \<in> th_face ` set (tb_hops e) then \<exists>i. tib_live (kf_sim k) a f = {i}
     else tib_live (kf_sim k) a f = {}) \<and>
    (\<forall>e. fmlookup (kf_tibs k) a = Some e \<longrightarrow> length (tb_hops e) \<le> 1)"
proof -
  have ok: "tables_ok env k" "pit_timers {} k" "tib_timers {} k" using kite.reachable_inv [OF assms] by (simp_all add: kinv_def)
  have "if p \<in> attached k then \<exists>i. pit_live (kf_sim k) p = {i} else pit_live (kf_sim k) p = {}"
    using ok(2) by (cases "fmlookup (kf_pits k) p") (auto simp: pit_timers_def attached_def pit_timer_ok_def split: if_splits)
  moreover have "if \<exists>e. fmlookup (kf_tibs k) a = Some e \<and> f \<in> th_face ` set (tb_hops e) then \<exists>i. tib_live (kf_sim k) a f = {i}
      else tib_live (kf_sim k) a f = {}"
    using ok(3) by (force simp: tib_timers_def list_all_iff hop_timer_ok_def)
  moreover have "length (tb_hops e) \<le> 1" if "fmlookup (kf_tibs k) a = Some e" for e using ok(1) that by (simp add: tables_ok_def)
  ultimately show ?thesis by blast
qed

theorem kite_one_timer_witness:
  "if 0 \<in> attached demo_pending then \<exists>i. pit_live (kf_sim demo_pending) 0 = {i} else pit_live (kf_sim demo_pending) 0 = {}"
  using kite_one_timer [OF demo_reach(2), of 0] by blast

end
