(* ===== verification/Kite_Routes.thy ===== *)
theory Kite_Routes
  imports Kite_Safety
begin

text \<open>
  What the trace information base of the KITE forwarder promises: a map from name prefixes to a sequence number and at most
  one next hop.  Trace Data that is newer replaces the route, older Data changes nothing; Interests follow the route
  of their longest traced prefix.
\<close>

section \<open>The routes of a forwarder\<close>

type_synonym trace_route = "(u64 \<times> nat list) option"

definition tib_view :: "'c kite \<Rightarrow> name \<Rightarrow> trace_route" where
  "tib_view k n = (case te_tib (table_at k n) of None \<Rightarrow> None
     | Some a \<Rightarrow> map_option (\<lambda>e. (tb_seq e, map th_face (tb_hops e))) (fmlookup (kf_tibs k) a))"

text \<open>What Trace Data with the sequence number \<open>s\<close>, wanted on the face \<open>f\<close>, makes of a route.\<close>

definition trace_update :: "u64 \<Rightarrow> nat \<Rightarrow> trace_route \<Rightarrow> trace_route" where
  "trace_update s f v =
     (let (old, hops) = (case v of None \<Rightarrow> (0, []) | Some r \<Rightarrow> r) in Some (if s > old then (s, [f]) else (old, hops)))"

lemma trace_update_twice: "trace_update s g (trace_update s f v) = trace_update s f v"
  by (auto simp: trace_update_def Let_def split: option.split)

lemma fold_trace_update: "fold (trace_update s) fs v = (case fs of [] \<Rightarrow> v | f # _ \<Rightarrow> trace_update s f v)"
proof (induction fs arbitrary: v rule: rev_induct)
  case (snoc f fs)
  then show ?case by (cases fs) (simp_all add: trace_update_twice)
qed simp

lemma tib_view_cong: "(\<And>n. te_tib (table_at k' n) = te_tib (table_at k n)) \<Longrightarrow> kf_tibs k' = kf_tibs k \<Longrightarrow> tib_view k' = tib_view k"
  by (intro ext) (simp add: tib_view_def split: option.split)

lemma tib_view_frame [simp]:
  "tib_view (k\<lparr>kf_sim := s\<rparr>) = tib_view k" "tib_view (k\<lparr>kf_dnl := l\<rparr>) = tib_view k" "tib_view (k\<lparr>kf_cs := cs\<rparr>) = tib_view k"
  "tib_view (k\<lparr>kf_out := out\<rparr>) = tib_view k" "tib_view (k\<lparr>kf_counters := c\<rparr>) = tib_view k" "tib_view (on_pit p g k) = tib_view k"
  "tib_view (k\<lparr>kf_pits := ps\<rparr>) = tib_view k" "tib_view (k\<lparr>kf_nPit := m\<rparr>) = tib_view k" "tib_view (k\<lparr>kf_next := a\<rparr>) = tib_view k"
  "tib_view (k\<lparr>kf_nTib := m\<rparr>) = tib_view k"
  by (auto simp: tib_view_def fun_eq_iff table_at_def split: option.split)

text \<open>What an operation on the PIT entry \<open>p\<close> leaves alone.\<close>

definition frame_of :: "'c kite \<Rightarrow> (name \<Rightarrow> trace_route) \<times> sim_time \<times> nat list \<times> kite_output list \<times> bool" where
  "frame_of k = (tib_view k, kite_now k, kf_faces k, kf_out k, kf_gone k)"

definition rest :: "'c kite \<Rightarrow> sim_time \<times> nat list \<times> kite_output list \<times> bool \<times> (nat, nfd_pit_entry) fmap" where
  "rest k = (kite_now k, kf_faces k, kf_out k, kf_gone k, kf_pits k)"

definition others :: "nat \<Rightarrow> 'c kite \<Rightarrow> nat \<Rightarrow> nfd_pit_entry option" where
  "others p k q = (if q = p then None else fmlookup (kf_pits k) q)"

lemma frame_of_simps [simp]:
  "frame_of (kite_cancel i k) = frame_of k" "frame_of (on_pit p g k) = frame_of k" "frame_of (snd (kite_schedule d a k)) = frame_of k"
  "frame_of (add_dead_nonce env n x k) = frame_of k" "frame_of (k\<lparr>kf_cs := cs\<rparr>) = frame_of k" "frame_of (on_counters h k) = frame_of k"
  by (simp_all add: frame_of_def kite_cancel_def kite_now_def kite_schedule_def case_prod_unfold Let_def add_dead_nonce_def on_counters_def)
    (auto simp: on_pit_def split: option.split)

lemma others_simps [simp]:
  "others p (kite_cancel i k) = others p k" "others p (on_pit p g k) = others p k" "others p (snd (kite_schedule d a k)) = others p k"
  "others p (add_dead_nonce env n x k) = others p k" "others p (k\<lparr>kf_cs := cs\<rparr>) = others p k" "others p (on_counters h k) = others p k"
  by (auto simp: others_def fun_eq_iff kite_cancel_def add_dead_nonce_def on_counters_def lookup_on_pit)

lemma pits_simps [simp]:
  "kf_pits (kite_cancel i k) = kf_pits k" "kf_pits (add_dead_nonce env n x k) = kf_pits k" "kf_pits (on_counters h k) = kf_pits k"
  by (simp_all add: kite_cancel_def add_dead_nonce_def on_counters_def)

lemma cancelTimers_frame:
  assumes "cancelUnsatisfyAndStragglerTimer p k = Inr k'"
  shows "frame_of k' = frame_of k" and "others p k' = others p k"
    and "map_option np_in (fmlookup (kf_pits k') p) = map_option np_in (fmlookup (kf_pits k) p)"
    and "map_option np_interest (fmlookup (kf_pits k') p) = map_option np_interest (fmlookup (kf_pits k) p)"
    and "map_option np_out (fmlookup (kf_pits k') p) = map_option np_out (fmlookup (kf_pits k) p)"
  using assms by (auto simp: cancelUnsatisfyAndStragglerTimer_def bind_exn_Inr lookup_on_pit option.map_comp comp_def)

lemma setStragglerTimer_frame:
  assumes "setStragglerTimer p sat fresh k = Inr k'"
  shows "frame_of k' = frame_of k" and "others p k' = others p k"
  using assms by (auto simp: setStragglerTimer_def bind_exn_Inr case_prod_unfold Let_def)

lemma setUnsatisfyTimer_frame:
  assumes "setUnsatisfyTimer p k = Inr k'"
  shows "frame_of k' = frame_of k" and "others p k' = others p k"
    and "map_option np_in (fmlookup (kf_pits k') p) = map_option np_in (fmlookup (kf_pits k) p)"
    and "map_option np_interest (fmlookup (kf_pits k') p) = map_option np_interest (fmlookup (kf_pits k) p)"
    and "map_option np_out (fmlookup (kf_pits k') p) = map_option np_out (fmlookup (kf_pits k) p)"
  using assms by (auto simp: setUnsatisfyTimer_def bind_exn_Inr case_prod_unfold Let_def lookup_on_pit option.map_comp comp_def)

lemma insertDeadNonceList_frame:
  assumes "insertDeadNonceList env p sat fresh up k = Inr k'"
  shows "frame_of k' = frame_of k" and "kf_pits k' = kf_pits k"
proof -
  have f: "frame_of (fold (\<lambda>r. add_dead_nonce env n (our_lastNonce r)) rs k) = frame_of k \<and>
      kf_pits (fold (\<lambda>r. add_dead_nonce env n (our_lastNonce r)) rs k) = kf_pits k" for n rs and k :: "'a kite"
    by (induction rs arbitrary: k) simp_all
  show "frame_of k' = frame_of k" and "kf_pits k' = kf_pits k"
    using assms f by (auto simp: insertDeadNonceList_def bind_exn_Inr Let_def split: if_splits option.splits)
qed

section \<open>Operations of the TIB\<close>

lemma tib_view_at:
  assumes "tables_ok env k" and "fmlookup (kf_tibs k) a = Some e"
  shows "tib_view k (tb_nte e) = Some (tb_seq e, map th_face (tb_hops e))"
    and "tib_view (set_tib a e' k) = (tib_view k)(tb_nte e := Some (tb_seq e', map th_face (tb_hops e')))"
proof -
  have t: "te_tib (table_at k (tb_nte e)) = Some a" using assms by (simp add: tables_ok_def)
  then show "tib_view k (tb_nte e) = Some (tb_seq e, map th_face (tb_hops e))" using assms(2) by (simp add: tib_view_def)
  have other: "te_tib (table_at k n) \<noteq> Some a" if "n \<noteq> tb_nte e" for n
    using that tables_ok_tib [of env k n a] assms by auto
  show "tib_view (set_tib a e' k) = (tib_view k)(tb_nte e := Some (tb_seq e', map th_face (tb_hops e')))"
  proof (rule ext)
    fix n
    show "tib_view (set_tib a e' k) n = ((tib_view k)(tb_nte e := Some (tb_seq e', map th_face (tb_hops e')))) n"
      using t other [of n] by (auto simp: tib_view_def set_tib_def split: option.split)
  qed
qed

lemma tib_view_lookup: "kinv env P X k \<Longrightarrow> tib_view (lookup_nte env n k) = tib_view k"
  by (rule tib_view_cong) (simp_all add: lookup_nte_def table_at_def kinv_def tables_ok_def nt_lookup_ok(3))

lemma tib_insert_view:
  assumes "kite_ok env P X A k" and "tib_insert env n k = (a, k')"
  shows "tib_view k' = (tib_view k)(n := (case tib_view k n of None \<Rightarrow> Some (0, []) | Some r \<Rightarrow> Some r))"
    and "\<exists>e. fmlookup (kf_tibs k') a = Some e \<and> tb_nte e = n"
    and "rest k' = rest k"
proof -
  let ?k = "lookup_nte env n k"
  have k: "kinv env P X ?k" "kinv env P X k" using assms(1) by (simp_all add: kite_ok_def kinv_lookup_nte)
  have same: "tib_view ?k = tib_view k" by (rule tib_view_lookup [OF k(2)])
  have n: "n \<in> ht_names (kf_tree ?k)" using k(2) by (simp add: lookup_nte_def kinv_def tables_ok_def nt_lookup_ok(2))
  have t: "tables_ok env ?k" using k(1) by (simp add: kinv_def)
  have "tib_view k' = (tib_view k)(n := (case tib_view k n of None \<Rightarrow> Some (0, []) | Some r \<Rightarrow> Some r)) \<and>
    (\<exists>e. fmlookup (kf_tibs k') a = Some e \<and> tb_nte e = n)"
  proof (cases "te_tib (table_at ?k n)")
    case (Some b)
    then have ab: "a = b" "k' = ?k" using assms(2) by (simp_all add: tib_insert_def Let_def)
    obtain e where e: "fmlookup (kf_tibs ?k) b = Some e" "tb_nte e = n" using tables_ok_tib [OF t Some] by blast
    then have "tib_view ?k n = Some (tb_seq e, map th_face (tb_hops e))" using Some by (simp add: tib_view_def)
    then have "tib_view k n = Some (tb_seq e, map th_face (tb_hops e))" by (simp add: same)
    then show ?thesis using ab e same by (auto simp: fun_eq_iff)
  next
    case None
    then have "tib_view ?k n = None" by (simp add: tib_view_def)
    then have v: "tib_view k n = None" by (simp add: same)
    let ?e = "\<lparr>tb_prefix = n, tb_hops = [], tb_seq = 0, tb_nte = n\<rparr>"
    have k': "k' = (on_table n (\<lambda>t. t\<lparr>te_tib := Some a\<rparr>) (set_tib a ?e ?k))\<lparr>kf_next := a + 1, kf_nTib := incr (kf_nTib ?k)\<rparr>"
      and a: "a = kf_next ?k"
      using None assms(2) by (auto simp: tib_insert_def Let_def set_tib_def on_table_def)
    have fresh: "te_tib (table_at ?k m) \<noteq> Some a" for m using tables_ok_tib [OF t, of m a] t a by (auto simp: tables_ok_def)
    have "tib_view k' m = ((tib_view ?k)(n := Some (0, []))) m" for m
      using n fresh [of m] unfolding k' by (auto simp: tib_view_def table_at_on_table set_tib_def split: option.split)
    then show ?thesis using v same by (auto simp: k' set_tib_def fun_eq_iff)
  qed
  then show "tib_view k' = (tib_view k)(n := (case tib_view k n of None \<Rightarrow> Some (0, []) | Some r \<Rightarrow> Some r))"
    "\<exists>e. fmlookup (kf_tibs k') a = Some e \<and> tb_nte e = n" by simp_all
  show "rest k' = rest k"
    using assms(2) by (auto simp: tib_insert_def Let_def set_tib_def on_table_def lookup_nte_def kite_now_def rest_def split: option.splits)
qed

lemma setNextHopTimer_view:
  assumes "tables_ok env k" and "fmlookup (kf_tibs k) a = Some e" and "setNextHopTimer a f i k = Inr k'"
  shows "frame_of k' = frame_of k" and "kf_pits k' = kf_pits k"
proof -
  have h: "map th_face (tb_hops (set_hop_timer f t e)) = map th_face (tb_hops e)" "tb_seq (set_hop_timer f t e) = tb_seq e" for t
    by (auto simp: set_hop_timer_def comp_def split: option.split)
  have k': "setNextHopTimer a f i k = (case tib_findNextHop f e of None \<Rightarrow> Inr k
      | Some h \<Rightarrow> Inr (set_tib a (set_hop_timer f (Some i) e) (kite_cancel (th_timer h) k)))"
    using assms(2) by (simp add: setNextHopTimer_def tib_at_def)
  have "tib_view (set_tib a (set_hop_timer f (Some i) e) (kite_cancel t k)) = tib_view k" for t
  proof -
    have "tib_view (set_tib a (set_hop_timer f (Some i) e) (kite_cancel t k)) = tib_view (set_tib a (set_hop_timer f (Some i) e) k)"
      by (rule tib_view_cong) (simp_all add: set_tib_def kite_cancel_def)
    then show ?thesis using tib_view_at [OF assms(1,2)] by (simp add: h fun_eq_iff)
  qed
  then show "frame_of k' = frame_of k" "kf_pits k' = kf_pits k"
    using assms(3) unfolding k' by (auto simp: frame_of_def set_tib_def kite_cancel_def kite_now_def split: option.splits)
qed

lemma tables_ok_sim [simp]: "tables_ok env (k\<lparr>kf_sim := s\<rparr>) = tables_ok env k"
  by (simp add: tables_ok_def)

lemma kite_ok_tables: "kite_ok env P X A k \<Longrightarrow> tables_ok env k"
  by (simp add: kite_ok_def kinv_def)

lemma schedule_pulls_frame: "schedule_pulls f i ps k = Inr k' \<Longrightarrow> frame_of k' = frame_of k \<and> kf_pits k' = kf_pits k"
proof (induction ps arbitrary: i k)
  case (Cons p ps)
  then show ?case by (fastforce simp: bind_exn_Inr split: if_splits)
qed simp

lemma cancel_hops_frame: "tib_view (cancel_hops hs k) = tib_view k \<and> kf_tibs (cancel_hops hs k) = kf_tibs k \<and>
    kf_pits (cancel_hops hs k) = kf_pits k \<and> frame_of (cancel_hops hs k) = frame_of k \<and> tables_ok env (cancel_hops hs k) = tables_ok env k"
  by (induction hs arbitrary: k) (simp_all add: kite_cancel_def [abs_def] frame_of_def kite_now_def)

lemma tib_addNextHop_view:
  assumes "tables_ok env k" and "fmlookup (kf_tibs k) a = Some e" and "tib_addNextHop a f c k = Inr k'"
  shows "tib_view k' = (tib_view k)(tb_nte e := Some (tb_seq e, [f]))" and "rest k' = rest k"
proof -
  let ?c = "cancel_hops (tb_hops e) k" and ?e = "e\<lparr>tb_hops := [\<lparr>th_face = f, th_cost = c, th_timer = None\<rparr>]\<rparr>"
  have k': "k' = set_tib a ?e ?c" using assms(2,3) by (simp add: tib_addNextHop_def tib_at_def Let_def)
  have c: "tables_ok env ?c" "fmlookup (kf_tibs ?c) a = Some e" "tib_view ?c = tib_view k" "rest ?c = rest k"
    using cancel_hops_frame [of "tb_hops e" k env] assms(1,2) by (auto simp: frame_of_def rest_def)
  show "tib_view k' = (tib_view k)(tb_nte e := Some (tb_seq e, [f]))" using tib_view_at(2) [OF c(1,2), of ?e] c(3) k' by simp
  show "rest k' = rest k" using c(4) k' by (simp add: rest_def set_tib_def kite_now_def)
qed

lemma setNexthopTimeoutTimer_view:
  assumes "tables_ok env k" and "fmlookup (kf_tibs k) a = Some e" and "setNexthopTimeoutTimer a f i k = Inr k'"
  shows "tib_view k' = tib_view k" and "rest k' = rest k"
proof -
  let ?ks = "snd (kite_schedule (ni_lifetime i * 1000000) (TibTimeout a f) k)"
  have ks: "tables_ok env ?ks" "fmlookup (kf_tibs ?ks) a = Some e"
    using assms(1,2) by (simp_all add: kite_schedule_def case_prod_unfold Let_def)
  have "frame_of k' = frame_of k" "kf_pits k' = kf_pits k"
    using setNextHopTimer_view [OF ks, of f _ k'] assms(3) by (auto simp: setNexthopTimeoutTimer_def case_prod_unfold Let_def)
  then show "tib_view k' = tib_view k" "rest k' = rest k" by (simp_all add: frame_of_def rest_def)
qed

lemma updateTib_view:
  assumes k: "kite_ok env P {} A k" and i: "interest_fine i" and s: "name_at (nd_name d) (- 1) = Inr c" "toSequenceNumber c = Inr s"
    and k': "updateTib env f d i k = Inr k'"
  shows "tib_view k' = (tib_view k)(extractDataNameFromTrace (nd_name d) := trace_update s f (tib_view k (extractDataNameFromTrace (nd_name d))))"
      (is "_ = (tib_view k)(?n := _)")
    and "rest k' = rest k"
proof -
  obtain a k1 where k1: "tib_insert env ?n k = (a, k1)" by fastforce
  note ins = tib_insert_view [OF k k1]
  have ok1: "kite_ok env P {} A k1" using tib_insert_ok [OF k k1] by blast
  obtain e where e: "fmlookup (kf_tibs k1) a = Some e" "tb_nte e = ?n" using ins(2) by blast
  obtain new e' where j: "judgeAndUpdateSeq s e = (new, e')" by fastforce
  note fe = judgeAndUpdateSeq_frame [OF j]
  let ?k2 = "set_tib a e' k1"
  have ok2: "kite_ok env P {} A ?k2" using kite_ok_set_seq [OF ok1 e(1)] fe by simp
  have a2: "fmlookup (kf_tibs ?k2) a = Some e'" by (simp add: set_tib_def)
  have v1: "tib_view k1 = (tib_view k)(?n := Some (tb_seq e, map th_face (tb_hops e)))"
    using ins(1) tib_view_at(1) [OF kite_ok_tables [OF ok1] e(1)] e(2) by (auto simp: fun_eq_iff split: option.splits)
  have v2: "tib_view ?k2 = (tib_view k)(?n := Some (tb_seq e', map th_face (tb_hops e')))"
    using tib_view_at(2) [OF kite_ok_tables [OF ok1] e(1), of e'] e(2) v1 by simp
  have old: "(case tib_view k ?n of None \<Rightarrow> (0, []) | Some r \<Rightarrow> r) = (tb_seq e, map th_face (tb_hops e))"
    using ins(1) v1 by (auto dest: fun_cong [of _ _ ?n] split: option.splits)
  have r2: "rest ?k2 = rest k"
    using ins(3) by (simp add: set_tib_def kite_now_def rest_def)
  have "tib_view k' = (tib_view k)(?n := trace_update s f (tib_view k ?n)) \<and>
    rest k' = rest k"
  proof (cases new)
    case False
    then have "k' = ?k2" using k' s k1 j kite_ok_tib(1) [OF ok1 e(1)] by (simp add: updateTib_def Let_def)
    moreover have "\<not> s > tb_seq e" "e' = e" using j False by (auto simp: judgeAndUpdateSeq_def split: if_splits)
    ultimately show ?thesis using v2 r2 old by (simp add: trace_update_def)
  next
    case True
    then have j': "s > tb_seq e" "tb_seq e' = s" using j by (auto simp: judgeAndUpdateSeq_def split: if_splits)
    obtain k3 k4 where k3: "tib_addNextHop a f 1 ?k2 = Inr k3" and k4: "setNexthopTimeoutTimer a f i k3 = Inr k4"
      and p: "k' = k4 \<or> (\<exists>ps. schedule_pulls f 0 ps k4 = Inr k')"
      using k' s k1 j True kite_ok_tib(1) [OF ok1 e(1)] by (auto simp: updateTib_def Let_def bind_exn_Inr split: if_splits)
    obtain e3 where ok3: "tables_ok env k3" "fmlookup (kf_tibs k3) a = Some e3"
      using tib_addNextHop_ok [OF ok2 a2, of f 1] k3 kite_ok_tables [of env P "{(a, f)}" A k3] by auto
    note v3 = tib_addNextHop_view [OF kite_ok_tables [OF ok2] a2 k3] and v4 = setNexthopTimeoutTimer_view [OF ok3 k4]
    have "tib_view k' = tib_view k4 \<and> rest k' = rest k4" using p schedule_pulls_frame [of f 0 _ k4 k'] by (auto simp: frame_of_def rest_def)
    then show ?thesis using v2 v3 v4 r2 fe e(2) old j' by (simp add: trace_update_def)
  qed
  then show "tib_view k' = (tib_view k)(?n := trace_update s f (tib_view k ?n))"
    "rest k' = rest k" by simp_all
qed

section \<open>Trace Data\<close>

text \<open>The faces of the in-records that have not expired.\<close>

definition live_faces :: "sim_time \<Rightarrow> nfd_pit_entry \<Rightarrow> nat list" where
  "live_faces now e = map inr_face (filter (\<lambda>r. inr_expiry r > now) (np_in e))"

definition faces_of :: "'c kite \<Rightarrow> nat \<Rightarrow> nat list" where
  "faces_of k p = (case fmlookup (kf_pits k) p of None \<Rightarrow> [] | Some e \<Rightarrow> live_faces (kite_now k) e)"

lemma downstream_loop_view:
  assumes "judgeNameIsTrace (nd_name d)" and "name_at (nd_name d) (- 1) = Inr c" "toSequenceNumber c = Inr s" and "interest_fine i"
  defines "n \<equiv> extractDataNameFromTrace (nd_name d)"
  shows "kite_ok env P {} A k \<Longrightarrow> downstream_loop env d i now rs (ds, k) = Inr (ds', k') \<Longrightarrow>
    ds' = ds @ map inr_face (filter (\<lambda>r. inr_expiry r > now) rs) \<and> rest k' = rest k \<and>
    tib_view k' = (tib_view k)(n := fold (trace_update s) (map inr_face (filter (\<lambda>r. inr_expiry r > now) rs)) (tib_view k n))"
proof (induction rs arbitrary: ds k)
  case (Cons r rs)
  show ?case
  proof (cases "inr_expiry r > now")
    case True
    with Cons.prems(2) assms(1) obtain k1 where k1: "updateTib env (inr_face r) d i k = Inr k1"
      "downstream_loop env d i now rs (ds @ [inr_face r], k1) = Inr (ds', k')" by (auto simp: bind_exn_Inr)
    have "kite_ok env P {} A k1" using updateTib_ok [OF Cons.prems(1) assms(4,1), of "inr_face r"] k1(1) by simp
    from Cons.IH [OF this k1(2)] updateTib_view [OF Cons.prems(1) assms(4,2,3) k1(1)] True show ?thesis
      by (auto simp: n_def fun_eq_iff)
  next
    case False
    then show ?thesis using Cons by simp
  qed
qed simp

lemma prolong_view:
  assumes "kite_ok env P {} A k" and "p \<in> A" and "prolong env f p k = Inr k'"
  shows "tib_view k' = tib_view k" and "rest k' = rest k"
proof -
  have "tib_view k' = tib_view k \<and> rest k' = rest k"
  proof (cases "k' = k")
    case False
    define body where "body te = (case tib_findExactMatch env (tb_prefix te) k of None \<Rightarrow> Inl UseAfterFree | Some a \<Rightarrow> bind_exn (tib_at a k) (\<lambda>pt.
        if tib_hasNextHop f pt then let (event, k) = kite_schedule 1000000000 (TibTimeout a f) k in setNextHopTimer a f event k
        else Inr k))" for te :: tib_entry
    obtain ta where ta: "(case ta of None \<Rightarrow> Inr k | Some a0 \<Rightarrow> bind_exn (tib_at a0 k) (\<lambda>te. if tb_hops te = [] then Inr k else body te)) = Inr k'"
      using assms(3) unfolding prolong_def body_def [symmetric] by (auto simp: bind_exn_Inr)
    obtain te0 where "body te0 = Inr k'" using ta False by (cases ta) (auto simp: bind_exn_Inr split: if_splits)
    with False obtain a te i where a: "tib_at a k = Inr te" "setNextHopTimer a f i (snd (kite_schedule 1000000000 (TibTimeout a f) k)) = Inr k'"
      unfolding body_def
      by (cases "tib_findExactMatch env (tb_prefix te0) k") (auto simp: bind_exn_Inr case_prod_unfold Let_def split: if_splits)
    have at: "fmlookup (kf_tibs k) a = Some te" using a(1) by (simp add: tib_at_def split: option.splits)
    let ?ks = "snd (kite_schedule 1000000000 (TibTimeout a f) k)"
    have ks: "tables_ok env ?ks" "fmlookup (kf_tibs ?ks) a = Some te"
      using at kite_ok_tables [OF assms(1)] by (simp_all add: kite_schedule_def case_prod_unfold Let_def)
    from setNextHopTimer_view [OF ks a(2)] have "frame_of k' = frame_of k" "kf_pits k' = kf_pits k" by simp_all
    then show ?thesis by (simp add: frame_of_def rest_def)
  qed simp
  then show "tib_view k' = tib_view k" "rest k' = rest k" by simp_all
qed

lemma rest_frame: "rest k' = rest k \<Longrightarrow> snd (frame_of k') = snd (frame_of k) \<and> others p k' = others p k"
  by (simp add: rest_def frame_of_def others_def fun_eq_iff)

lemma frame_view: "frame_of k' = frame_of k \<Longrightarrow> tib_view k' = tib_view k" "frame_of k' = frame_of k \<Longrightarrow> kite_now k' = kite_now k"
  by (simp_all add: frame_of_def)

lemma satisfy_view:
  assumes d: "judgeNameIsTrace (nd_name d)" "name_at (nd_name d) (- 1) = Inr c" "toSequenceNumber c = Inr s"
    and k: "kite_ok env {} {} A k" "p \<in> A" and e: "fmlookup (kf_pits k) p = Some e"
    and k': "satisfy env f d p (ds, k) = Inr (ds', k')"
  defines "n \<equiv> extractDataNameFromTrace (nd_name d)"
  shows "ds' = ds @ live_faces (kite_now k) e \<and> others p k' = others p k \<and> snd (frame_of k') = snd (frame_of k) \<and>
    tib_view k' = (tib_view k)(n := fold (trace_update s) (live_faces (kite_now k) e) (tib_view k n))"
proof -
  obtain k1 e1 k2 k3 k5 where k1: "cancelUnsatisfyAndStragglerTimer p k = Inr k1" and e1: "pit_at p k1 = Inr e1"
    and k2: "downstream_loop env d (np_interest e1) (kite_now k1) (np_in e1) (ds, k1) = Inr (ds', k2)"
    and k3: "insertDeadNonceList env p True (nd_freshness d) (Some f) k2 = Inr k3"
    and k5: "setStragglerTimer p True (nd_freshness d) (on_pit p (\<lambda>e. deleteOutRecord f (e\<lparr>np_in := []\<rparr>)) k3) = Inr k5"
    and k6: "(if kf_prolongTrace k5 then prolong env f p k5 else Inr k5) = Inr k'"
    using k' by (auto simp: satisfy_def bind_exn_Inr Let_def)
  have ok1: "kite_ok env {p} {} A k1" using cancelTimers_ok [OF k empty_subsetI] k1 by simp
  note c1 = cancelTimers_frame [OF k1]
  have in1: "np_in e1 = np_in e" using c1(3) e e1 by (simp add: pit_at_def split: option.splits)
  have fine: "interest_fine (np_interest e1)" by (rule kite_ok_entry [OF ok1 k(2)]) (use e1 in simp)
  have lf: "map inr_face (filter (\<lambda>r. kite_now k1 < inr_expiry r) (np_in e1)) = live_faces (kite_now k) e"
    using in1 frame_view(2) [OF c1(1)] by (simp add: live_faces_def)
  have v2: "ds' = ds @ live_faces (kite_now k) e" "rest k2 = rest k1"
      "tib_view k2 = (tib_view k1)(n := fold (trace_update s) (live_faces (kite_now k) e) (tib_view k1 n))"
    using downstream_loop_view [OF d fine ok1 k2] unfolding lf n_def by simp_all
  have ok2: "kite_ok env {p} {} A k2" using downstream_loop_ok [OF ok1 fine, of d "kite_now k1" "np_in e1" ds] k2 by simp
  have "safe {} (kite_ok env {p} {} A) (Inr k3)" unfolding k3 [symmetric] by (rule insertDeadNonceList_ok [OF ok2 k(2)])
  then have ok3: "kite_ok env {p} {} A k3" by simp
  have "safe {} (kite_ok env {} {} A) (Inr k5)" unfolding k5 [symmetric] by (rule setStragglerTimer_ok [OF kite_ok_record(7) [OF ok3] k(2)])
  then have ok5: "kite_ok env {} {} A k5" by simp
  have v6: "tib_view k' = tib_view k5 \<and> rest k' = rest k5" using k6 prolong_view [OF ok5 k(2), of f k'] by (auto split: if_splits)
  have "others p k5 = others p k3" using setStragglerTimer_frame(2) [OF k5] by simp
  moreover have "others p k3 = others p k2" using insertDeadNonceList_frame(2) [OF k3] by (simp add: others_def fun_eq_iff)
  ultimately have "others p k' = others p k" using rest_frame [OF v2(2), of p] rest_frame [of k' k5 p] v6 c1(2) by simp
  moreover have f: "frame_of k5 = frame_of k2" using insertDeadNonceList_frame(1) [OF k3] setStragglerTimer_frame(1) [OF k5] by simp
  then have "snd (frame_of k') = snd (frame_of k)" using rest_frame [OF v2(2), of p] rest_frame [of k' k5 p] v6 c1(1) by simp
  moreover have "tib_view k' = (tib_view k)(n := fold (trace_update s) (live_faces (kite_now k) e) (tib_view k n))"
    using v6 v2(3) frame_view(1) [OF f] frame_view(1) [OF c1(1)] by simp
  ultimately show ?thesis using v2(1) by simp
qed

lemma satisfy_all_view:
  assumes d: "judgeNameIsTrace (nd_name d)" "name_at (nd_name d) (- 1) = Inr c" "toSequenceNumber c = Inr s"
  defines "n \<equiv> extractDataNameFromTrace (nd_name d)"
  shows "kite_ok env {} {} A k \<Longrightarrow> set ps \<subseteq> A \<Longrightarrow> distinct ps \<Longrightarrow> satisfy_all env f d ps (ds, k) = Inr (ds', k') \<Longrightarrow>
    fs = concat (map (faces_of k) ps) \<Longrightarrow>
    ds' = ds @ fs \<and> snd (frame_of k') = snd (frame_of k) \<and> tib_view k' = (tib_view k)(n := fold (trace_update s) fs (tib_view k n))"
proof (induction ps arbitrary: ds k fs)
  case (Cons p ps)
  from Cons.prems(4) obtain ds1 k1 where k1: "satisfy env f d p (ds, k) = Inr (ds1, k1)" "satisfy_all env f d ps (ds1, k1) = Inr (ds', k')"
    by (auto simp: bind_exn_Inr)
  have p: "p \<in> A" using Cons.prems(2) by simp
  obtain e where e: "fmlookup (kf_pits k) p = Some e" by (rule kite_ok_entry [OF Cons.prems(1) p])
  note v = satisfy_view [OF d Cons.prems(1) p e k1(1), folded n_def]
  have ok1: "kite_ok env {} {} A k1" using satisfy_ok [OF Cons.prems(1) p, of d f ds] k1(1) by simp
  have same: "fmlookup (kf_pits k1) q = fmlookup (kf_pits k) q" if "q \<noteq> p" for q
    using v that by (auto simp: others_def fun_eq_iff split: if_splits)
  have now: "kite_now k1 = kite_now k" using v by (simp add: frame_of_def)
  have "faces_of k1 q = faces_of k q" if "q \<noteq> p" for q unfolding faces_of_def same [OF that] now ..
  then have m: "map (faces_of k1) ps = map (faces_of k) ps" using Cons.prems(3) by (intro map_cong refl) (metis distinct.simps(2))
  from Cons.IH [OF ok1 _ _ k1(2) refl] Cons.prems(2,3,5) v e show ?case by (auto simp: m fun_eq_iff faces_of_def [of k p])
qed simp

lemma findAllDataMatches_distinct:
  assumes "kinv env P X k"
  shows "distinct (findAllDataMatches env d k)"
proof -
  have t: "tables_ok env k" using assms by (simp add: kinv_def)
  then have "distinct (nt_findAllMatches (ke_hash env) sel (nd_name d) (kf_tree k))" for sel
    by (simp add: tables_ok_def findAllMatches_filter distinct_prefixes)
  moreover have "distinct (te_pits (table_at k n))" "p \<in> set (te_pits (table_at k n)) \<Longrightarrow> p \<in> set (te_pits (table_at k m)) \<Longrightarrow> n = m" for n m p
    using t by (auto simp: tables_ok_def)
  ultimately have "distinct (concat (map (\<lambda>nte. te_pits (table_at k nte)) ns))" if "distinct ns" for ns
    using that by (induction ns) (auto simp: disjoint_iff, blast)
  then show ?thesis
    using \<open>\<And>sel. distinct (nt_findAllMatches (ke_hash env) sel (nd_name d) (kf_tree k))\<close> by (simp add: findAllDataMatches_def)
qed

lemma send_data_frame:
  "tib_view (fold (onOutgoingData env d) fs k) = tib_view k \<and>
   kf_out (fold (onOutgoingData env d) fs k) = kf_out k @ map (\<lambda>g. OutData g d)
     (filter (\<lambda>g. g \<in> set (kf_faces k) \<and> \<not> violatesLocalhost env g (nd_name d)) fs)"
proof (induction fs arbitrary: k)
  case (Cons g fs)
  have "tib_view (onOutgoingData env d g k) = tib_view k" "kf_faces (onOutgoingData env d g k) = kf_faces k"
    "kf_out (onOutgoingData env d g k) = kf_out k @ (if g \<in> set (kf_faces k) \<and> \<not> violatesLocalhost env g (nd_name d) then [OutData g d] else [])"
    by (auto simp: onOutgoingData_def kite_send_def on_counters_def)
  then show ?case using Cons.IH [of "onOutgoingData env d g k"] by simp
qed simp

text \<open>C20. Trace Data installs the route of its sequence number.  When Trace Data arrives at a KITE forwarder in any state that
  it can reach, its data prefix gets the sequence number of the Data and, as the only next hop, the first face that
  waits for it, if the number is newer than the one stored; otherwise the route stays as it is, and no other prefix
  changes.  The Data is sent to every face that waits for it, each once in the order of the face set.\<close>

theorem kite_trace_installs_route:
  assumes "reach (kite_start env) (kite_step env) k" and "judgeNameIsTrace (nd_name d)" and "toSequenceNumber (last (nd_name d)) = Inr s"
    and "\<not> violatesLocalhost env f (nd_name d)" and "\<And>xs. set (ke_order env xs) = set xs"
  defines "n \<equiv> extractDataNameFromTrace (nd_name d)" and "waiting \<equiv> concat (map (faces_of k) (findAllDataMatches env d k))"
  shows "\<exists>k'. onIncomingData env f d k = Inr k' \<and>
    tib_view k' = (tib_view k)(n := (case waiting of [] \<Rightarrow> tib_view k n | g # _ \<Rightarrow> trace_update s g (tib_view k n))) \<and>
    kf_out k' = kf_out k @ map (\<lambda>g. OutData g d)
      (filter (\<lambda>g. g \<in> set (kf_faces k) \<and> \<not> violatesLocalhost env g (nd_name d)) (ke_order env (remdups waiting)))"
proof -
  let ?k = "on_counters (\<lambda>c. c\<lparr>nInData := incr (nInData c)\<rparr>) k" and ?ps = "findAllDataMatches env d k"
  have inv: "kinv env {} {} k" by (rule kite.reachable_inv [OF assms(1)])
  have ps: "findAllDataMatches env d ?k = ?ps" "faces_of ?k = faces_of k" "tib_view ?k = tib_view k" "kf_out ?k = kf_out k" "kf_faces ?k = kf_faces k"
    by (simp_all add: findAllDataMatches_def on_counters_def faces_of_def [abs_def] kite_now_def table_at_def cong: option.case_cong)
  have last: "name_at (nd_name d) (- 1) = Inr (last (nd_name d))"
    using assms(2) by (intro name_at_last) (auto simp: judgeNameIsTrace_def split: if_splits)
  have "data_errors d = {}" using assms(3) toSequenceNumber_error [of "last (nd_name d)"] by (simp add: data_errors_def)
  then obtain k' where k': "onIncomingData env f d k = Inr k'" using onIncomingData_ok [OF inv, of d f] by (cases "onIncomingData env f d k") auto
  have none: "ke_order env [] = []" using assms(5) [of "[]"] by simp
  show ?thesis
  proof (cases "?ps = []")
    case True
    then have "k' = onDataUnsolicited env f d ?k" using k' ps assms(4) by (simp add: onIncomingData_def)
    then have "tib_view k' = tib_view k" "kf_out k' = kf_out k" using ps by (simp_all add: onDataUnsolicited_def on_counters_def)
    then show ?thesis using k' True none by (simp add: waiting_def)
  next
    case False
    then obtain ds k1 where k1: "satisfy_all env f d ?ps ([], ?k) = Inr (ds, k1)"
      and k2: "k' = fold (onOutgoingData env d) (ke_order env (remdups ds)) k1"
      using k' ps assms(2,4) by (auto simp: onIncomingData_def Let_def bind_exn_Inr)
    have ok: "kite_ok env {} {} (set ?ps) ?k"
      using inv findAllDataMatches_attached [OF inv, of d] by (simp add: kite_ok_def on_counters_def)
    from satisfy_all_view [OF assms(2) last assms(3) ok _ findAllDataMatches_distinct [OF inv] k1 refl]
    have "ds = waiting" "tib_view k1 = (tib_view k)(n := fold (trace_update s) waiting (tib_view k n))"
        "kf_faces k1 = kf_faces k" "kf_out k1 = kf_out k"
      using ps by (simp_all add: waiting_def n_def frame_of_def)
    then show ?thesis using k' k2 send_data_frame [of env d "ke_order env (remdups ds)" k1] by (simp add: fold_trace_update)
  qed
qed

text \<open>The Trace Data of the sample installs the route to the face that asked for it.\<close>

definition demo_waiting :: "unit kite \<Rightarrow> nat list \<times> trace_route" where
  "demo_waiting k = (concat (map (faces_of k) (findAllDataMatches demo_env demo_data k)), tib_view k (map component_of_string [[], []]))"

lemma demo_waiting_eval: "demo_waiting demo_pending = ([1], None)"
  by code_simp

theorem kite_trace_installs_route_witness:
  "\<exists>k'. onIncomingData demo_env 2 demo_data demo_pending = Inr k' \<and> tib_view k' (map component_of_string [[], []]) = Some (1, [1])"
proof -
  have d: "judgeNameIsTrace (nd_name demo_data)" "toSequenceNumber (last (nd_name demo_data)) = Inr 1"
    "extractDataNameFromTrace (nd_name demo_data) = map component_of_string [[], []]"
    by (code_simp, simp add: demo_data_def demo_trace_def, code_simp)
  have o: "\<not> violatesLocalhost demo_env 2 (nd_name demo_data)" "set (ke_order demo_env xs) = set xs" for xs
    by (code_simp, simp add: demo_env_def)
  have w: "concat (map (faces_of demo_pending) (findAllDataMatches demo_env demo_data demo_pending)) = [1]"
    "tib_view demo_pending (map component_of_string [[], []]) = None"
    using demo_waiting_eval by (simp_all add: demo_waiting_def)
  from kite_trace_installs_route [OF demo_reach(2) d(1,2) o, unfolded w(1) d(3)] w(2) show ?thesis
    by (auto simp: trace_update_def)
qed

section \<open>Interests follow the traces\<close>

lemma nt_selects_table: "\<not> sel te_none \<Longrightarrow> nt_selects sel (kf_tree k) n = sel (table_at k n)"
  by (auto simp: nt_selects_def table_at_def table_of_def split: option.split)

lemma no_name: "n \<notin> ht_names (kf_tree k) \<Longrightarrow> table_at k n = te_none"
  by (cases "fmlookup (ht_nodes (kf_tree k)) n") (auto simp: table_at_def table_of_def in_ht_names)

lemma find_prefixes_skip: "\<not> P n \<Longrightarrow> n \<noteq> [] \<Longrightarrow> find P (rev (prefixes n)) = find P (rev (prefixes (butlast n)))"
  by (subst rev_prefixes_step) simp

lemma tib_lpm_find:
  assumes "kinv env P X k" and "np_nte e = Some (nte_name (np_name e))" and "nte_name (np_name e) \<in> ht_names (kf_tree k)"
  shows "tib_findLongestPrefixMatch env e k =
    Inr (case find (\<lambda>n. te_tib (table_at k n) \<noteq> None) (rev (prefixes (np_name e))) of None \<Rightarrow> None | Some n \<Rightarrow> te_tib (table_at k n))"
proof -
  let ?N = "np_name e" and ?sel = "\<lambda>t. te_tib t \<noteq> None"
  have nt: "nt_ok (ke_hash env) (kf_tree k)" using assms(1) by (simp add: kinv_def tables_ok_def)
  have sel: "nt_selects ?sel (kf_tree k) = (\<lambda>n. te_tib (table_at k n) \<noteq> None)"
    by (rule ext, rule nt_selects_table) (simp add: te_none_def)
  have climb: "nt_findLongestPrefixMatch_at ?sel m (kf_tree k) = find (\<lambda>n. te_tib (table_at k n) \<noteq> None) (rev (prefixes m))"
    if "m \<in> ht_names (kf_tree k)" for m
    using climb_find [OF nt that, of "Suc (length m)" ?sel] unfolding nt_findLongestPrefixMatch_at_def sel by simp
  show ?thesis
  proof (cases "?N \<in> ht_names (kf_tree k)")
    case True
    then have "nte_of_pit env e k = Inr ?N"
      using assms(2) nt_findExactMatch_ok [OF nt, of ?N] by (auto simp: nte_of_pit_def nte_name_def split: if_splits)
    then show ?thesis using climb [OF True] by (simp add: tib_findLongestPrefixMatch_def)
  next
    case False
    then have b: "nte_name ?N = butlast ?N" "?N \<noteq> []" using assms(3) by (auto simp: nte_name_def split: if_splits)
    have "te_tib (table_at k ?N) = None" using no_name [OF False] by (simp add: te_none_def)
    moreover have "nte_of_pit env e k = Inr (butlast ?N)"
      using assms(2) b False nt_findExactMatch_ok [OF nt, of ?N] by (auto simp: nte_of_pit_def)
    ultimately show ?thesis
      using climb [of "butlast ?N"] assms(3) b find_prefixes_skip [of "\<lambda>n. te_tib (table_at k n) \<noteq> None" ?N]
      by (simp add: tib_findLongestPrefixMatch_def)
  qed
qed

text \<open>The route of the longest prefix of a name that has one.\<close>

definition trace_lpm :: "'c kite \<Rightarrow> name \<Rightarrow> (u64 \<times> nat list) option" where
  "trace_lpm k N = (case find (\<lambda>n. tib_view k n \<noteq> None) (rev (prefixes N)) of None \<Rightarrow> None | Some n \<Rightarrow> tib_view k n)"

lemma tib_view_None: "tables_ok env k \<Longrightarrow> tib_view k n = None \<longleftrightarrow> te_tib (table_at k n) = None"
  using tables_ok_tib [of env k n] by (cases "te_tib (table_at k n)") (auto simp: tib_view_def)

lemma trace_lpm_entry:
  assumes "kinv env P X k" and "np_nte e = Some (nte_name (np_name e))" and "nte_name (np_name e) \<in> ht_names (kf_tree k)"
    and "trace_lpm k (np_name e) = Some (s, hops)"
  obtains a te where "tib_findLongestPrefixMatch env e k = Inr (Some a)" and "fmlookup (kf_tibs k) a = Some te" and "map th_face (tb_hops te) = hops"
proof -
  have t: "tables_ok env k" using assms(1) by (simp add: kinv_def)
  obtain n where n: "find (\<lambda>n. te_tib (table_at k n) \<noteq> None) (rev (prefixes (np_name e))) = Some n" "tib_view k n = Some (s, hops)"
    using assms(4) tib_view_None [OF t] by (auto simp: trace_lpm_def split: option.splits)
  from n(2) obtain a te where a: "te_tib (table_at k n) = Some a" "fmlookup (kf_tibs k) a = Some te" "map th_face (tb_hops te) = hops"
    by (auto simp: tib_view_def split: option.splits)
  with n(1) tib_lpm_find [OF assms(1-3)] that show thesis by simp
qed

lemma flood_one:
  assumes "canForwardToNextHop env inFace p g k" and "\<not> kf_gone k" and "fmlookup (kf_pits k) p = Some e"
    and "flood env inFace i p [g] (b, k) = Inr (sent, k')"
  shows "sent \<and> kf_out k' = kf_out k @ [OutInterest g i] \<and> tib_view k' = tib_view k"
  using assms by (auto simp: onOutgoingInterest_def pit_at_def kite_send_def on_counters_def Let_def bind_exn_Inr)

lemma nfd_pit_insert_new:
  assumes "kinv env {} X k" and "nfd_pit_find env i k = None" and "nfd_pit_insert env i k = ((p, new), k')"
  shows "fmlookup (kf_pits k') p = Some \<lparr>np_interest = i, np_in = [], np_out = [], np_unsatisfyTimer = None, np_stragglerTimer = None,
      np_nte = Some (nte_name (ni_name i))\<rparr>"
    and "frame_of k' = frame_of k" and "kf_cs k' = kf_cs k"
proof -
  let ?n = "nte_name (ni_name i)" let ?k = "lookup_nte env ?n k"
  have nt: "nt_ok (ke_hash env) (kf_tree k)" using assms(1) by (simp add: kinv_def tables_ok_def)
  have tab: "table_at ?k = table_at k" using nt by (simp add: fun_eq_iff lookup_nte_def table_at_def nt_lookup_ok(3))
  have "te_pits (table_at k ?n) = []" if "?n \<notin> ht_names (kf_tree k)" using no_name [OF that] by (simp add: te_none_def)
  then have "pit_search i k = None"
    using assms(2) nt_findExactMatch_ok [OF nt, of ?n] by (auto simp: nfd_pit_find_def pit_search_def split: if_splits)
  then have none: "pit_search i ?k = None" unfolding pit_search_def tab by (simp add: lookup_nte_def)
  let ?e = "\<lparr>np_interest = i, np_in = [], np_out = [], np_unsatisfyTimer = None, np_stragglerTimer = None, np_nte = Some ?n\<rparr>"
  let ?k1 = "?k\<lparr>kf_pits := fmupd (kf_next ?k) ?e (kf_pits ?k), kf_next := kf_next ?k + 1, kf_nPit := incr (kf_nPit ?k)\<rparr>"
  have k': "p = kf_next ?k" "k' = on_table ?n (\<lambda>t. t\<lparr>te_pits := te_pits t @ [p]\<rparr>) ?k1"
    using assms(3) none by (auto simp: nfd_pit_insert_def Let_def)
  have "tib_view k' = tib_view ?k1" unfolding k'(2) by (rule tib_view_cong) (simp_all add: table_at_on_table)
  then have "tib_view k' = tib_view k" using tib_view_lookup [OF assms(1), of ?n] by simp
  then show "frame_of k' = frame_of k" by (simp add: frame_of_def k'(2) on_table_def lookup_nte_def kite_now_def)
  show "fmlookup (kf_pits k') p = Some ?e" "kf_cs k' = kf_cs k" using k'(1) by (simp_all add: k'(2)) (simp add: on_table_def lookup_nte_def)
qed

lemma cancelTimers_cs: "cancelUnsatisfyAndStragglerTimer p k = Inr k' \<Longrightarrow> kf_cs k' = kf_cs k"
  by (auto simp: cancelUnsatisfyAndStragglerTimer_def bind_exn_Inr kite_cancel_def on_pit_def split: option.splits)

text \<open>Up to the strategy: the entry of a new Interest that the content store does not answer.\<close>

lemma new_interest_entry:
  assumes k: "kinv env {} {} k" and i: "interest_fine i" and new: "nfd_pit_find env i k = None"
    and "\<not> violatesLocalhost env f (ni_name i)" and "\<not> dnl_has (ke_dnl env) (ni_name i) (ni_nonce i) (kf_dnl k)"
    and "fst (ke_csFind env i (kf_cs k)) = None" and "ni_nextHopFace i = None"
  shows "\<exists>p k5 e. onIncomingInterest env f i k = afterReceiveInterest env f i p k5 \<and> kite_ok env {} {} {p} k5 \<and> frame_of k5 = frame_of k \<and>
    fmlookup (kf_pits k5) p = Some e \<and> np_interest e = i \<and> np_out e = [] \<and>
    np_in e = [\<lparr>inr_face = f, inr_lastNonce = ni_nonce i, inr_lastRenewed = kite_now k, inr_expiry = record_expiry (kite_now k) i, inr_interest = i\<rparr>]"
proof -
  let ?k = "on_counters (\<lambda>c. c\<lparr>nInInterests := incr (nInInterests c)\<rparr>) k"
  have "pit_search i ?k = pit_search i k" by (simp add: pit_search_def on_counters_def table_at_def)
  then have "nfd_pit_find env i ?k = nfd_pit_find env i k" unfolding nfd_pit_find_def by (simp add: on_counters_def split: option.split)
  then have k0: "kinv env {} {} ?k" "nfd_pit_find env i ?k = None" "kf_cs ?k = kf_cs k" "kf_dnl ?k = kf_dnl k" "kite_now ?k = kite_now k"
    using k new by (simp_all add: on_counters_def kite_now_def)
  obtain p nw k1 where k1: "nfd_pit_insert env i ?k = ((p, nw), k1)" by (cases "nfd_pit_insert env i ?k") (simp add: split_paired_all)
  note n = nfd_pit_insert_new [OF k0(1,2) k1] and ok1 = nfd_pit_insert_ok(1) [OF k0(1) i k1]
  obtain k2 where k2: "cancelUnsatisfyAndStragglerTimer p k1 = Inr k2" and ok2: "kite_ok env {p} {} {p} k2"
  proof -
    have "safe {} (kite_ok env {p} {} {p}) (cancelUnsatisfyAndStragglerTimer p k1)" by (rule cancelTimers_ok [OF ok1 singletonI]) simp
    with that show thesis by (cases "cancelUnsatisfyAndStragglerTimer p k1") simp_all
  qed
  obtain cs where cs: "ke_csFind env i (kf_cs k2) = (None, cs)"
    using assms(6) cancelTimers_cs [OF k2] n(3) k0(3) by (cases "ke_csFind env i (kf_cs k2)") auto
  let ?k3 = "k2\<lparr>kf_cs := cs\<rparr>" let ?k4 = "on_pit p (insertOrUpdateInRecord (kite_now ?k3) f i) ?k3"
  have ok3: "kite_ok env {p} {} {p} ?k3" using ok2 by simp
  have "0 \<le> ni_lifetime i" using i by (simp add: interest_fine_def)
  from setUnsatisfyTimer_after_record [OF ok3 singletonI this, of f] obtain k5 where
    k5: "setUnsatisfyTimer p ?k4 = Inr k5" and ok5: "kite_ok env {} {} {p} k5" by (cases "setUnsatisfyTimer p ?k4") auto
  have "onIncomingInterest env f i k = onContentStoreMiss env f p i ?k3"
    using assms(4,5) k1 n(1) k2 cs k0(4) by (simp add: onIncomingInterest_def Let_def pit_at_def findDuplicateNonce_def)
  then have "onIncomingInterest env f i k = afterReceiveInterest env f i p k5" using k5 assms(7) by (simp add: onContentStoreMiss_def)
  moreover have f5: "frame_of k5 = frame_of k"
    using n(2) cancelTimers_frame(1) [OF k2] setUnsatisfyTimer_frame(1) [OF k5] by simp
  moreover obtain e5 where e5: "fmlookup (kf_pits k5) p = Some e5" by (rule kite_ok_entry [OF ok5 singletonI])
  moreover have now: "kite_now ?k3 = kite_now k"
    using frame_view(2) [OF cancelTimers_frame(1) [OF k2]] frame_view(2) [OF n(2)] k0(5) by (simp add: kite_now_def)
  moreover have "np_interest e5 = i" "np_out e5 = []" "np_in e5 = [\<lparr>inr_face = f, inr_lastNonce = ni_nonce i, inr_lastRenewed = kite_now k,
      inr_expiry = record_expiry (kite_now k) i, inr_interest = i\<rparr>]"
    using setUnsatisfyTimer_frame(3-5) [OF k5] cancelTimers_frame(3-5) [OF k2] n(1) e5 now
    by (auto simp: lookup_on_pit option.map_comp comp_def insertOrUpdateInRecord_def getInRecord_def Let_def)
  ultimately show ?thesis using ok5 by blast
qed

text \<open>C21. Interests follow the traces.  In every state that a KITE forwarder can reach, a new Interest that neither the PIT nor the
  content store answers, and whose longest prefix in the TIB has a next hop other than the incoming face that its scope
  allows, is sent to that next hop and nowhere else, whatever the FIB says; no route changes.\<close>

theorem kite_interest_follows_trace:
  assumes "reach (kite_start env) (kite_step env) k" and "kite_interest_ok i" and "\<forall>x. ni_link i \<noteq> Some (Inl x)" and "nfd_pit_find env i k = None"
    and "\<not> violatesLocalhost env f (ni_name i)" and "\<not> dnl_has (ke_dnl env) (ni_name i) (ni_nonce i) (kf_dnl k)"
    and "fst (ke_csFind env i (kf_cs k)) = None" and "ni_nextHopFace i = None" and "\<not> kf_gone k"
    and "trace_lpm k (ni_name i) = Some (s, [g])" and "g \<noteq> f" and "\<not> wouldViolateScope env f (ni_name i) g"
  shows "\<exists>k'. startProcessInterest env f i k = Inr k' \<and> kf_out k' = kf_out k @ [OutInterest g i] \<and> tib_view k' = tib_view k"
proof -
  have inv: "kinv env {} {} k" by (rule kite.reachable_inv [OF assms(1)])
  have fine: "interest_fine i" using assms(2,3) by (auto simp: kite_interest_ok_def interest_fine_def link_ok_def split: option.split sum.split)
  obtain p k5 e where run: "onIncomingInterest env f i k = afterReceiveInterest env f i p k5" and ok: "kite_ok env {} {} {p} k5"
    and fr: "frame_of k5 = frame_of k" and e: "fmlookup (kf_pits k5) p = Some e" "np_interest e = i" "np_out e = []"
    and r: "np_in e = [\<lparr>inr_face = f, inr_lastNonce = ni_nonce i, inr_lastRenewed = kite_now k, inr_expiry = record_expiry (kite_now k) i, inr_interest = i\<rparr>]"
    using new_interest_entry [OF inv fine assms(4-8)] by blast
  have n: "np_name e = ni_name i" "np_nte e = Some (nte_name (np_name e))"
    using e kite_ok_entry [OF ok singletonI] by (force simp: np_name_def)+
  have "p \<in> set (te_pits (table_at k5 (nte_name (np_name e))))"
    using kite_ok_tables [OF ok] e(1) n(2) by (simp add: tables_ok_def)
  then have at: "nte_name (np_name e) \<in> ht_names (kf_tree k5)" by (intro attached_name) auto
  have "trace_lpm k5 (np_name e) = Some (s, [g])" using assms(10) unfolding trace_lpm_def n(1) frame_view(1) [OF fr] .
  then obtain a te where a: "tib_findLongestPrefixMatch env e k5 = Inr (Some a)" "fmlookup (kf_tibs k5) a = Some te" "map th_face (tb_hops te) = [g]"
    by (rule trace_lpm_entry [OF kinv_kite_ok(2) [OF ok] n(2) at])
  have "kite_now k \<le> record_expiry (kite_now k) i" using assms(2) by (simp add: record_expiry_def kite_interest_ok_def)
  then have fwd: "canForwardToNextHop env f p g k5"
    using e r n(1) assms(11,12) frame_view(2) [OF fr] by (simp add: canForwardToNextHop_def canForwardToLegacy_def)
  obtain sent k6 where k6: "flood env f i p [g] (False, k5) = Inr (sent, k6)"
    using flood_ok [OF ok singletonI, of "{}" f i "[g]" False] by (cases "flood env f i p [g] (False, k5)") auto
  have sent: "sent" "kf_out k6 = kf_out k5 @ [OutInterest g i]" "tib_view k6 = tib_view k5"
    using flood_one [OF fwd _ e(1) k6] fr assms(9) by (simp_all add: frame_of_def)
  have "afterReceiveInterest env f i p k5 = Inr k6"
    using e a k6 sent(1) by (auto simp: afterReceiveInterest_def pit_at_def tib_at_def hasPendingOutRecords_def TraceForwarding_def)
  then have "startProcessInterest env f i k = Inr k6" using run assms(3) by (auto simp: startProcessInterest_def split: option.split sum.split)
  then show ?thesis using sent fr by (simp add: frame_of_def)
qed

text \<open>After the Trace Data of the sample, an Interest under the prefix goes to the face that asked for the trace.\<close>

definition demo_request :: nfd_interest where
  "demo_request = demo_interest 8 (map component_of_string [[], [], []])"

definition demo_facts :: "unit kite \<Rightarrow> bool" where
  "demo_facts k \<longleftrightarrow> nfd_pit_find demo_env demo_request k = None \<and> \<not> kf_gone k \<and>
     \<not> dnl_has (ke_dnl demo_env) (ni_name demo_request) (ni_nonce demo_request) (kf_dnl k) \<and> trace_lpm k (ni_name demo_request) = Some (1, [1])"

lemma demo_facts_eval: "demo_facts demo_traced"
  by code_simp

theorem kite_interest_follows_trace_witness:
  "\<exists>k'. startProcessInterest demo_env 2 demo_request demo_traced = Inr k' \<and> kf_out k' = kf_out demo_traced @ [OutInterest 1 demo_request]"
proof -
  note facts = demo_facts_eval [unfolded demo_facts_def]
  have r: "kite_interest_ok demo_request" "\<forall>x. ni_link demo_request \<noteq> Some (Inl x)" "ni_nextHopFace demo_request = None"
    by (simp_all add: demo_request_def demo_interest_fits) (simp_all add: demo_interest_def)
  have "\<not> violatesLocalhost demo_env 2 (ni_name demo_request)" "\<not> wouldViolateScope demo_env 2 (ni_name demo_request) 1"
    "fst (ke_csFind demo_env demo_request (kf_cs demo_traced)) = None"
    by (code_simp, code_simp, simp add: demo_env_def)
  with facts r kite_interest_follows_trace [OF demo_reach(3), of demo_request 2 1 1] show ?thesis by auto
qed

end
