(* ===== verification/Spec2Isabelle.thy ===== *)
theory Spec2Isabelle
  imports Installation Network Wired_Handover Rendezvous Consumer_App Frame_Wire Kite_Routes
begin

text \<open>
  A verification development for Statim, a forwarding plane for Named Data Networking that
  keeps content of moving producers reachable.  Paths below are relative to
  \<^verbatim>\<open>src/src/ndnSIM/statim\<close> unless they start elsewhere.

  \<^bold>\<open>The program.\<close>  A node (\<^verbatim>\<open>forwarding-engine.cpp\<close>) receives frames: a twelve-byte header
  (\<^verbatim>\<open>packet-header.cpp\<close>) in front of an Interest or a Data packet.  A switch of six flow tables
  (\<^verbatim>\<open>pipeline/\<close>) dispatches on the header: unprocessed packets go to the stateful module, packets with
  a port bitmap to the bitmap tables, other Interests to the FIB table, where routes match up to four hashes of
  name components.  The stateful module has a pending Interest table (\<^verbatim>\<open>state/pending-interest-table.cpp\<close>),
  a content store (\<^verbatim>\<open>stateful/content-store.hpp\<close>) and, in the local route controller
  (\<^verbatim>\<open>control/local-route-controller.cpp\<close>), a temporary FIB
  (\<^verbatim>\<open>state/temporary-forwarding-table.cpp\<close>).  A mobile producer (\<^verbatim>\<open>apps/statim-mobile.cpp\<close>)
  announces itself to a rendezvous point by Trace Interests with increasing sequence numbers; the Data that answers a Trace installs, at each
  node of the way back, a temporary route with a lease, re-forwards the pending Interests to it and asks the
  flow-table controller (\<^verbatim>\<open>control/flow-table-controller.cpp\<close>) over lossy legs for a route in the switch; its
  acknowledgement completes the temporary route.  Consumers (\<^verbatim>\<open>apps/statim-consumer.cpp\<close>) request consecutive
  sequence numbers.  Everything is driven by the event queue of ns-3.  The baseline of the comparison, KITE, is a
  modified NFD (\<^verbatim>\<open>src/src/ndnSIM/NFD/daemon\<close>): a forwarder whose trace information base (TIB) Trace Data fills with next
  hops that end with the lifetime of the trace, and whose strategy prefers the TIB to the FIB.

  \<^bold>\<open>The model.\<close>  States are records with the members of the classes, operations are functions on them,
  exceptions are values of the sum type \<open>exn + 'a\<close>, integers keep their width as words, \<^verbatim>\<open>std::map\<close> is a finite
  map iterated in key order.  A \<open>node\<close> holds the engine, the two controllers, the switch and the simulator, whose
  events are values of the datatype \<open>act\<close>; \<open>node_step\<close> is one event or one reception, and events of the rest of the
  simulation only move the clock.  What is not in the sources is a field of \<open>env\<close> with the contract \<open>env_ok\<close>:
  \<^verbatim>\<open>std::hash\<close>, the order that \<^verbatim>\<open>std::sort\<close> gives equal priorities, the random streams, and the conversion between
  times and floating-point seconds.

  \<^item> \<open>Prelude\<close>: words, finite maps, exceptions, reachability, and the locale \<open>invariant_system\<close>.
  \<^item> \<open>Tlv_Numbers\<close>, \<open>Names\<close>, \<open>Packets\<close>: TLV numbers, components and names in canonical order, trace names, nonces with the
    wire buffer that copies of an Interest share (\<^verbatim>\<open>src/src/ndnSIM/ndn-cxx\<close>).
  \<^item> \<open>Tlv_Blocks\<close>, \<open>Tlv_Encoder\<close> (locale \<open>wire_type\<close>): blocks with their elements, and the encoder that writes from the back of a buffer;
    the estimating pass gives the exact size, so the buffer never moves in the second.
  \<^item> \<open>Packet_Fields\<close>, \<open>Signature_Fields\<close>, \<open>Selector_Fields\<close>, \<open>Packet_Wire\<close>, \<open>Frame_Wire\<close>: the fields of Interest and Data packets,
    the packets, and the frames that carry them; what is encoded decodes to itself, and what a node makes of the bytes
    is the packet that was sent.  The forwarding engine's \<open>payload\<close> is the result of \<open>payload_of_bytes\<close>.
  \<^item> \<open>Packet_Header\<close>, \<open>Flow_Table\<close>, \<open>Switch_Pipeline\<close>: header, match-action tables (locale \<open>priority_sorter\<close>), the Statim
    table layout; a well-formed switch forwards by longest prefix or by bitmap.
  \<^item> \<open>Pending_Interest_Table\<close>, \<open>Temporary_Fib\<close> (locale \<open>exact_search\<close>), \<open>Content_Store\<close>: the stateful tables against their
    specifications.
  \<^item> \<open>Simulator\<close>, \<open>Event_Loop\<close>: scheduling, cancelling and dispatch of \<^verbatim>\<open>DefaultSimulatorImpl\<close>, and the locale \<open>event_loop\<close>
    of the loop over one client's events.  Event uids are unbounded here; in ns-3 they are 32 bits wide.
  \<^item> \<open>Node_State\<close>, \<open>Route_Control\<close>, \<open>Route_Invariants\<close>: the node and its two controllers, the invariant of routes, leases,
    timers and requests, and the locale \<open>control_invariant\<close> for what the control messages keep.
  \<^item> \<open>Forwarding_Engine\<close>, \<open>Engine_Invariant\<close>, \<open>Node_Relations\<close> (locales \<open>update_relation\<close>, \<open>frame_relation\<close>,
    \<open>free_relation\<close>, \<open>handler_relation\<close>, \<open>step_relation\<close>, \<open>output_relation\<close>): the handlers of the engine,
    the invariant of every reachable node, and relations that every step respects.
  \<^item> \<open>Generation_Order\<close>, \<open>Trace_Updates\<close>, \<open>Route_Lifecycle\<close>, \<open>Packet_Forwarding\<close>: what a node promises.  Generations in the
    switch only grow; Trace Data installs the route of its prefix, older Trace Data does not; each lease has one timer,
    whose run forgets the route; acknowledgements complete it, lost control messages withdraw it; Interests follow
    the temporary FIB, then the flow table; Data returns to the requesters; which inputs throw.
  \<^item> \<open>Seamless_Completion\<close>: whatever the control legs lose, delay or reorder, when an acknowledgement makes the local
    controller drop the temporary route, the switch already has it, with the same port and deadline.
  \<^item> \<open>Installation\<close>: the installation helper (\<^verbatim>\<open>helper/statim-helper.cpp\<close>) down to \<^verbatim>\<open>L3Protocol::addFace\<close>; an installed
    router is a start state of the runs above, with the static routes of the shortest paths.
  \<^item> \<open>Point_To_Point\<close>: the devices, queues and channels between the nodes (\<^verbatim>\<open>src/src/point-to-point\<close>,
    \<^verbatim>\<open>src/src/network/utils\<close>); each direction of a link is a FIFO queue.
  \<^item> \<open>Network\<close>: the engine nodes and the links under one clock, joined by \<^verbatim>\<open>NetDeviceTransport\<close>; each node of the network is a node
    as above, and what it receives from another engine is a subsequence of what that one sent.
  \<^item> \<open>Wired_Handover\<close>: the handover of the wired scenarios (\<^verbatim>\<open>scenarios/common/wired-handover.hpp\<close>); the nearest access point,
    one link up at a time, callbacks in order.
  \<^item> \<open>Mobile_App\<close>, \<open>Rtt_Estimator\<close>, \<open>Consumer_App\<close>: the applications on the event loop; announced generations, retries and
    giving up, no request forgotten, retransmission, loss figures.
  \<^item> \<open>Rendezvous\<close>: the application that answers Trace Interests (\<^verbatim>\<open>src/src/ndnSIM/apps/kite-rv.cpp\<close>); the mobile takes its
    answer as current.
  \<^item> \<open>Name_Tree\<close>, \<open>Dead_Nonce_List\<close>, \<open>Nfd_Tables\<close>: the tables of KITE (\<^verbatim>\<open>table/\<close> of the daemon).  The name tree, a hash table that
    is resized, acts as a map from names; FIB, TIB and PIT are attached to it, their entries kept in an explicit store, so
    that the use of a destroyed entry is the exception \<open>UseAfterFree\<close>.
  \<^item> \<open>Kite_Forwarder\<close>: its pipelines and timers (\<^verbatim>\<open>fw/forwarder.cpp\<close>) and the trace forwarding strategy
    (\<^verbatim>\<open>fw/trace-forwarding.cpp\<close>, \<^verbatim>\<open>fw/strategy.cpp\<close>, \<^verbatim>\<open>fw/algorithm.cpp\<close>).
  \<^item> \<open>Kite_Invariant\<close>, \<open>Kite_Safety\<close>, \<open>Kite_Routes\<close>: the invariant of its tables and timers, the step relation \<open>kite_step\<close>, and
    what every run promises.  No pipeline uses what was destroyed, each entry has one timer, Trace Data updates the
    route of its prefix by the newer sequence number, Interests follow the traces.
  \<^item> \<open>Samples\<close>: a concrete environment and node, from which the witnesses start.

  \<^bold>\<open>Bounds and fuel.\<close>  \<open>process_hops\<close> recurses on the hop limit that the code has (32); \<open>hop_limit_unreached\<close> shows that five are
  enough.  \<open>Run\<close> and \<open>mobile_Run\<close> take fuel, one unit per event; the theorems about them state that from some amount on
  the result is the same, with an empty queue.  \<open>draw_other\<close> is a \<^verbatim>\<open>while\<close> loop that may not end; \<open>refreshNonce_ends\<close> states when
  it does.  A block read from a stream has at most 8800 bytes, as in the code; the
  byte that a stream iterator holds past the end is the parameter \<open>stale\<close>.  The walks
  in the name tree take fuel: \<open>climb\<close> and \<open>prefix_range\<close> one more than the length of the name, \<open>full_range\<close> one more than the
  number of nodes; \<open>climb_find\<close>, \<open>prefix_range_filter\<close> and \<open>fullEnumerate_filter\<close> show that this reaches every entry of a
  well-formed tree.  All other functions are total.

  \<^bold>\<open>Not modelled.\<close>  Log output and the telemetry printed at the end; packet digests, and signatures other than their encoding;
  the shortest paths of the Boost graph library; the rest of the scenarios, the benchmarks and scripts; of the KITE
  baseline the mobile and the consumer, the content stores (a parameter of \<open>kite_env\<close>), the
  partial enumeration of the name tree, management, and every strategy but trace forwarding; ns-3 outside the event loop,
  the buffer iterators and the point-to-point links.
\<close>

end
